(* ===== verification/Prelude.thy ===== *)
theory Prelude
  imports Main "HOL-Library.AList"
begin

text \<open>
  What every component of the development shares.

  \<^item> the error values of \<open>src/domain/errors.go\<close> and the result type of a fallible
    Go function (\<open>Inl\<close> carries the error, \<open>Inr\<close> the value);
  \<^item> the effects the library has: reading the injected clock, reading
    \<open>crypto/rand\<close>, and the points where a context check or a storage driver may
    fail. They are positions in three streams of an environment, so two readings of the
    clock may differ and any operation may fail;
  \<^item> instants and durations: nanoseconds as integers, an instant counted from Go's zero
    time (1 January of year 1, UTC), so \<open>t.IsZero()\<close> is \<open>t = 0\<close>. Go's 64-bit
    second counter overflows only some 292 billion years away, which is not modelled;
  \<^item> a Go map as an association list with distinct keys (Go leaves the iteration order of
    a map open; the list fixes one order and no theorem depends on which);
  \<^item> the two shapes of a storage contract, \<open>writes\<close> and \<open>reads\<close>, in which the
    interfaces of the later theories state their laws.
\<close>

section \<open>Collections of facts\<close>

named_theorems effect_simps "the effects of the environment, unfolded"
named_theorems snapshot_simps "what snapshots and rehydration do to the fields"

section \<open>Errors and results\<close>

datatype error =
    ErrNotFound
  | ErrConflict
  | ErrExpired
  | ErrConsumed
  | ErrPasswordMismatch
  | ErrInvalidPassword
  | ErrInvalidArgon2Params
  | ErrInvalidTOTP
  | ErrTOTPReused
  | ErrTOTPNoReplayProtection
  | ErrAccountLocked
  | ErrInvalidLockoutCfg
  | ErrInvalidLockoutKey
  | ErrInvalidUserID
  | ErrInvalidTenantID
  | ErrInvalidEmail
  | ErrInvalidToken
  | ErrInvalidSecret
  | ErrInvalidHash
  | ErrInvalidWorkerID
  | ErrInvalidScope
  | ErrInvalidExpiry
  | ErrInvalidKeyToken
  | ErrKeyNotFound
  | ErrKeyExpired
  | ErrScopeDenied
  | ErrExternal string
  | GoPanic string

text \<open>
  \<open>ErrExternal\<close> is every error that is not one of the library's own sentinels: a
  context error, a driver error, a failure of the random source. \<open>GoPanic\<close> is not an error of
  the code but a run-time panic, which travels up the callers in the same way.
\<close>

type_synonym 'a res = "error + 'a"

fun is_external :: "error \<Rightarrow> bool" where
  "is_external (ErrExternal _) = True"
| "is_external _ = False"

text \<open>
  \<open>and_then r k\<close> is Go's \<open>x, err := r; if err != nil { return err }; k(x)\<close>: the state
  reached by \<open>r\<close> is kept on both branches.
\<close>

definition and_then :: "('e + 'a) \<times> 'w \<Rightarrow> ('a \<Rightarrow> 'w \<Rightarrow> ('e + 'b) \<times> 'w) \<Rightarrow> ('e + 'b) \<times> 'w" where
  "and_then r k = (case r of (Inl e, w) \<Rightarrow> (Inl e, w) | (Inr x, w) \<Rightarrow> k x w)"

lemma and_then_simps [simp]:
  "and_then (Inl e, w) k = (Inl e, w)"
  "and_then (Inr x, w) k = k x w"
  by (simp_all add: and_then_def)

lemma and_then_InrE:
  assumes "and_then r k = (Inr y, w')"
  obtains x w where "r = (Inr x, w)" and "k x w = (Inr y, w')"
  using assms by (cases r) (auto simp: and_then_def split: sum.splits)

lemma and_then_split:
  "P (and_then r k) \<longleftrightarrow>
     (\<forall>e w. r = (Inl e, w) \<longrightarrow> P (Inl e, w)) \<and> (\<forall>x w. r = (Inr x, w) \<longrightarrow> P (k x w))"
  by (cases r; cases "fst r") (auto simp: and_then_def)

lemma and_then_assoc: "and_then (and_then r f) g = and_then r (\<lambda>x w. and_then (f x w) g)"
  by (cases r; cases "fst r") auto

lemma and_then_if: "and_then (if b then x else y) k = (if b then and_then x k else and_then y k)"
  by (rule if_distrib)

section \<open>Time\<close>

type_synonym time = int
type_synonym duration = int

definition second :: duration where "second = 1000000000"
definition minute :: duration where "minute = 60 * second"

text \<open>\<open>time.Time.IsZero\<close>, \<open>Before\<close> and \<open>Unix\<close> (which floors; 1970 is 62135596800 seconds
  after year 1).\<close>

definition time_is_zero :: "time \<Rightarrow> bool" where "time_is_zero t \<longleftrightarrow> t = 0"

definition before :: "time \<Rightarrow> time \<Rightarrow> bool" where "before t u \<longleftrightarrow> t < u"

definition unix_seconds :: "time \<Rightarrow> int" where
  "unix_seconds t = t div second - 62135596800"

text \<open>\<open>!now.Before(expiresAt)\<close>, the expiry test every aggregate uses.\<close>

definition expired_at :: "time \<Rightarrow> time \<Rightarrow> bool" where
  "expired_at expires now \<longleftrightarrow> \<not> before now expires"

lemma expired_at_iff [simp]: "expired_at expires now \<longleftrightarrow> expires \<le> now"
  by (auto simp: expired_at_def before_def)

section \<open>The environment: clock, random source, external failures\<close>

record env =
  clk :: "nat \<Rightarrow> time"
  rnd :: "nat \<Rightarrow> string + (nat \<Rightarrow> char)"
  fault :: "nat \<Rightarrow> string option"
  pos :: nat

record 's world = env +
  store :: 's

definition tick :: "'a env_scheme \<Rightarrow> 'a env_scheme" where
  "tick w = w\<lparr>pos := Suc (pos w)\<rparr>"

definition read_clock :: "'a env_scheme \<Rightarrow> time \<times> 'a env_scheme" where
  "read_clock w = (clk w (pos w), tick w)"

text \<open>\<open>rand.Read(b)\<close> for a slice of \<open>n\<close> bytes.\<close>

definition rand_read :: "nat \<Rightarrow> 'a env_scheme \<Rightarrow> string res \<times> 'a env_scheme" where
  "rand_read n w =
     (case rnd w (pos w) of
        Inl msg \<Rightarrow> (Inl (ErrExternal msg), tick w)
      | Inr f \<Rightarrow> (Inr (map f [0..<n]), tick w))"

text \<open>A context check (\<open>ctx.Err()\<close>) or the outcome of a call to a driver.\<close>

definition external_check :: "'a env_scheme \<Rightarrow> unit res \<times> 'a env_scheme" where
  "external_check w =
     (case fault w (pos w) of
        Some msg \<Rightarrow> (Inl (ErrExternal msg), tick w)
      | None \<Rightarrow> (Inr (), tick w))"

definition get_store :: "'s world \<Rightarrow> 's" where "get_store w = store w"
definition put_store :: "'s \<Rightarrow> 's world \<Rightarrow> 's world" where "put_store s w = w\<lparr>store := s\<rparr>"

text \<open>
  \<open>env_le w w'\<close>: the environment \<open>w'\<close> is a later point of the run of \<open>w\<close>. From a
  \<open>quiet\<close> point on nothing external fails; \<open>rand_ok\<close>: the random source does not fail.
\<close>

definition env_le :: "'a env_scheme \<Rightarrow> 'b env_scheme \<Rightarrow> bool" where
  "env_le w w' \<longleftrightarrow> clk w' = clk w \<and> rnd w' = rnd w \<and> fault w' = fault w \<and> pos w \<le> pos w'"

definition quiet :: "'a env_scheme \<Rightarrow> bool" where
  "quiet w \<longleftrightarrow> (\<forall>n \<ge> pos w. fault w n = None)"

definition rand_ok :: "'a env_scheme \<Rightarrow> bool" where
  "rand_ok w \<longleftrightarrow> (\<forall>n \<ge> pos w. \<not> isl (rnd w n))"

lemma env_le_refl [simp, intro]: "env_le w w"
  by (simp add: env_le_def)

lemma env_le_trans [trans]: "env_le u v \<Longrightarrow> env_le v w \<Longrightarrow> env_le u w"
  by (auto simp: env_le_def)

lemma env_le_tick [simp]: "env_le w (tick w)"
  by (simp add: env_le_def tick_def)

lemma env_le_tickI: "env_le v w \<Longrightarrow> env_le v (tick w)"
  by (auto simp: env_le_def tick_def)

lemma env_le_put_store [simp]: "env_le v (put_store s w) = env_le v w"
  by (simp add: env_le_def put_store_def)

lemma env_le_put_store_left [simp]: "env_le (put_store s w) v = env_le w v"
  by (simp add: env_le_def put_store_def)

lemma quiet_mono: "quiet w \<Longrightarrow> env_le w w' \<Longrightarrow> quiet w'"
  by (auto simp: quiet_def env_le_def)

lemma rand_ok_mono: "rand_ok w \<Longrightarrow> env_le w w' \<Longrightarrow> rand_ok w'"
  by (auto simp: rand_ok_def env_le_def)

lemma store_tick [simp]: "store (tick w) = store w"
  by (simp add: tick_def)

lemma put_get_store [simp]: "store (put_store s w) = s"
  by (simp add: put_store_def)

lemma get_store_eq [simp]: "get_store w = store w"
  by (simp add: get_store_def)

lemma put_store_same [simp]: "put_store (store w) w = w"
  by (simp add: put_store_def)

lemma read_clock_later:
  "read_clock w = (t, w') \<Longrightarrow> env_le w w' \<and> t = clk w (pos w) \<and> pos w' = Suc (pos w)"
  by (auto simp: read_clock_def tick_def env_le_def)

lemma read_clock_store: "read_clock w = (t, w') \<Longrightarrow> store w' = store w"
  by (auto simp: read_clock_def)

lemma rand_read_cases:
  assumes "rand_read n w = (r, w')"
  obtains (fail) msg where "r = Inl (ErrExternal msg)" and "w' = tick w" and "\<not> rand_ok w"
  | (bytes) b where "r = Inr b" and "length b = n" and "w' = tick w"
  using assms
  by (cases "rnd w (pos w)") (fastforce simp: rand_read_def rand_ok_def)+

lemma external_check_cases:
  assumes "external_check w = (r, w')"
  obtains (fail) msg where "r = Inl (ErrExternal msg)" and "w' = tick w" and "\<not> quiet w"
  | (pass) "r = Inr ()" and "w' = tick w"
  using assms
  by (cases "fault w (pos w)") (auto simp: external_check_def quiet_def)

text \<open>
  \<open>read_between w t w'\<close>: the instant \<open>t\<close> is a reading of the clock made between the points
  \<open>w\<close> and \<open>w'\<close>. Hypotheses on the clock bound every reading from a point on.
\<close>

definition read_between :: "'a env_scheme \<Rightarrow> time \<Rightarrow> 'b env_scheme \<Rightarrow> bool" where
  "read_between w t w' \<longleftrightarrow> (\<exists>n. pos w \<le> n \<and> n < pos w' \<and> t = clk w n)"

definition clock_before :: "'a env_scheme \<Rightarrow> time \<Rightarrow> bool" where
  "clock_before w t \<longleftrightarrow> (\<forall>n \<ge> pos w. clk w n < t)"

definition clock_from :: "'a env_scheme \<Rightarrow> time \<Rightarrow> bool" where
  "clock_from w t \<longleftrightarrow> (\<forall>n \<ge> pos w. t \<le> clk w n)"

lemma read_between_clock:
  assumes "env_le w v" and "read_clock v = (t, v')" and "env_le v' w'"
  shows "read_between w t w'"
  using assms by (auto simp: read_between_def read_clock_def tick_def env_le_def)

lemma read_between_mono:
  assumes "read_between w t w'" and "env_le v w" and "env_le w' w''"
  shows "read_between v t w''"
proof -
  from assms(1) obtain n where "pos w \<le> n" and "n < pos w'" and "t = clk w n"
    by (auto simp: read_between_def)
  with assms(2,3) have "pos v \<le> n" and "n < pos w''" and "t = clk v n"
    by (auto simp: env_le_def)
  then show ?thesis by (auto simp: read_between_def)
qed

lemma read_between_before: "read_between w t w' \<Longrightarrow> clock_before w u \<Longrightarrow> t < u"
  by (auto simp: read_between_def clock_before_def)

lemma read_between_from: "read_between w t w' \<Longrightarrow> clock_from w u \<Longrightarrow> u \<le> t"
  by (auto simp: read_between_def clock_from_def)

lemma clock_before_mono: "clock_before w t \<Longrightarrow> env_le w w' \<Longrightarrow> clock_before w' t"
  by (auto simp: clock_before_def env_le_def)

lemma clock_from_mono: "clock_from w t \<Longrightarrow> env_le w w' \<Longrightarrow> clock_from w' t"
  by (auto simp: clock_from_def env_le_def)

section \<open>Storage contracts\<close>

text \<open>
  \<open>writes view legal w v' out\<close>: an operation started in \<open>w\<close> with outcome \<open>out\<close> either
  changed what the store holds to \<open>v'\<close> and succeeded, or failed for an external reason
  (never on a quiet run) and changed nothing.
  \<open>reads view legal w x out\<close>: the operation returned exactly \<open>x\<close>, or failed for an
  external reason, and in both cases what the store holds is unchanged.
\<close>

definition settled :: "('s \<Rightarrow> bool) \<Rightarrow> 's world \<Rightarrow> 's world \<Rightarrow> bool" where
  "settled legal w w' \<longleftrightarrow> env_le w w' \<and> legal (store w')"

definition writes ::
  "('s \<Rightarrow> 'v) \<Rightarrow> ('s \<Rightarrow> bool) \<Rightarrow> 's world \<Rightarrow> 'v \<Rightarrow> 'a \<Rightarrow> 'a res \<times> 's world \<Rightarrow> bool" where
  "writes view legal w v' x out \<longleftrightarrow>
     settled legal w (snd out) \<and>
     (case fst out of
        Inr y \<Rightarrow> y = x \<and> view (store (snd out)) = v'
      | Inl e \<Rightarrow> is_external e \<and> \<not> quiet w \<and> view (store (snd out)) = view (store w))"

definition reads ::
  "('s \<Rightarrow> 'v) \<Rightarrow> ('s \<Rightarrow> bool) \<Rightarrow> 's world \<Rightarrow> 'a res \<Rightarrow> 'a res \<times> 's world \<Rightarrow> bool" where
  "reads view legal w x out \<longleftrightarrow>
     settled legal w (snd out) \<and> view (store (snd out)) = view (store w) \<and>
     (fst out = x \<or> (\<exists>e. fst out = Inl e \<and> is_external e \<and> \<not> quiet w))"

text \<open>
  \<open>attempts view legal w v' refusal out\<close>: an operation that may also be refused by the store
  itself, with an error of its own and without an effect.
\<close>

definition attempts ::
  "('s \<Rightarrow> 'v) \<Rightarrow> ('s \<Rightarrow> bool) \<Rightarrow> 's world \<Rightarrow> 'v \<Rightarrow> (error \<Rightarrow> bool) \<Rightarrow> 'a res \<times> 's world \<Rightarrow> bool"
where
  "attempts view legal w v' refusal out \<longleftrightarrow>
     settled legal w (snd out) \<and>
     (case fst out of
        Inr _ \<Rightarrow> view (store (snd out)) = v'
      | Inl e \<Rightarrow> view (store (snd out)) = view (store w) \<and>
          (refusal e \<or> is_external e \<and> \<not> quiet w))"

lemma attemptsE:
  assumes "attempts view legal w v' refusal (r, w')"
  obtains (written) x where "r = Inr x" and "view (store w') = v'" and "settled legal w w'"
  | (refused) e where "r = Inl e" and "refusal e \<or> is_external e \<and> \<not> quiet w"
      and "view (store w') = view (store w)" and "settled legal w w'"
  using assms by (cases r) (auto simp: attempts_def)

lemma writes_attempts: "writes view legal w v' x out \<Longrightarrow> attempts view legal w v' refusal out"
  by (auto simp: writes_def attempts_def split: sum.splits)

lemma writesE:
  assumes "writes view legal w v' x (r, w')"
  obtains (written) "r = Inr x" and "view (store w') = v'" and "settled legal w w'"
  | (failed) e where "r = Inl e" and "is_external e" and "\<not> quiet w"
      and "view (store w') = view (store w)" and "settled legal w w'"
  using assms by (cases r) (auto simp: writes_def)

lemma readsE:
  assumes "reads view legal w x (r, w')"
  obtains (found) "r = x" and "view (store w') = view (store w)" and "settled legal w w'"
  | (failed) e where "r = Inl e" and "is_external e" and "\<not> quiet w"
      and "view (store w') = view (store w)" and "settled legal w w'"
  using assms by (auto simp: reads_def)

lemma settledD: "settled legal w w' \<Longrightarrow> env_le w w'" "settled legal w w' \<Longrightarrow> legal (store w')"
  by (simp_all add: settled_def)

lemma settled_trans: "settled legal u v \<Longrightarrow> settled legal v w \<Longrightarrow> settled legal u w"
  by (auto simp: settled_def intro: env_le_trans)

lemma settled_tick: "settled legal u w \<Longrightarrow> settled legal u (tick w)"
  by (auto simp: settled_def intro: env_le_tickI)

text \<open>
  An operation of an adapter: the external check first, then a change of the store that
  cannot fail. The adapters discharge the contracts with these two rules.
\<close>

definition checked :: "('s \<Rightarrow> 'a res \<times> 's) \<Rightarrow> 's world \<Rightarrow> 'a res \<times> 's world" where
  "checked f w =
     and_then (external_check w)
       (\<lambda>_ w. case f (get_store w) of (r, s) \<Rightarrow> (r, put_store s w))"

lemma checked_writes:
  assumes "legal (store w)" and "fst (f (store w)) = Inr x"
    and "view (snd (f (store w))) = v'" and "legal (snd (f (store w)))"
  shows "writes view legal w v' x (checked f w)"
proof (cases "external_check w")
  case (Pair r w1)
  from Pair show ?thesis
    by (rule external_check_cases)
       (use assms Pair in \<open>auto simp: checked_def writes_def settled_def split: prod.splits\<close>)
qed

lemma checked_reads:
  assumes "legal (store w)" and "f (store w) = (x, store w)"
  shows "reads view legal w x (checked f w)"
proof (cases "external_check w")
  case (Pair r w1)
  from Pair show ?thesis
    by (rule external_check_cases)
       (use assms Pair in \<open>auto simp: checked_def reads_def settled_def\<close>)
qed

lemma checked_attempts:
  assumes "legal (store w)" and "legal (snd (f (store w)))"
    and "case fst (f (store w)) of Inr _ \<Rightarrow> view (snd (f (store w))) = v'
         | Inl e \<Rightarrow> view (snd (f (store w))) = view (store w) \<and> refusal e"
  shows "attempts view legal w v' refusal (checked f w)"
proof (cases "external_check w")
  case (Pair r1 w1)
  from Pair show ?thesis
    by (rule external_check_cases)
       (use assms Pair in \<open>auto simp: checked_def attempts_def settled_def
          split: sum.splits prod.splits\<close>)
qed

section \<open>Concrete worlds\<close>

text \<open>
  \<open>calm t n s\<close>: the clock stands at \<open>t\<close>, nothing fails, the random source yields bytes that
  differ from draw to draw. The rules let \<open>simp\<close> run the services in it.
\<close>

definition calm_bytes :: "nat \<Rightarrow> nat \<Rightarrow> char" where
  "calm_bytes n i = char_of (n + i)"

definition calm :: "time \<Rightarrow> nat \<Rightarrow> 's \<Rightarrow> 's world" where
  "calm t n s = \<lparr>clk = \<lambda>_. t, rnd = \<lambda>n. Inr (calm_bytes n), fault = \<lambda>_. None, pos = n, store = s\<rparr>"

lemma calm_simps [simp]:
  "tick (calm t n s) = calm t (Suc n) s"
  "read_clock (calm t n s) = (t, calm t (Suc n) s)"
  "external_check (calm t n s) = (Inr (), calm t (Suc n) s)"
  "rand_read k (calm t n s) = (Inr (map (calm_bytes n) [0..<k]), calm t (Suc n) s)"
  "put_store s' (calm t n s) = calm t n s'"
  "store (calm t n s) = s"
  "pos (calm t n s) = n"
  "quiet (calm t n s)"
  "rand_ok (calm t n s)"
  "clock_before (calm t n s) u \<longleftrightarrow> t < u"
  "clock_from (calm t n s) u \<longleftrightarrow> u \<le> t"
  by (auto simp: calm_def tick_def read_clock_def external_check_def rand_read_def put_store_def
      quiet_def rand_ok_def clock_before_def clock_from_def)

lemma checked_calm [simp]:
  "checked f (calm t n s) = (case f s of (r, s') \<Rightarrow> (r, calm t (Suc n) s'))"
  by (simp add: checked_def split: prod.splits)

section \<open>Go maps\<close>

type_synonym ('k, 'v) gomap = "('k \<times> 'v) list"

definition gomap_ok :: "('k, 'v) gomap \<Rightarrow> bool" where
  "gomap_ok m \<longleftrightarrow> distinct (map fst m)"

text \<open>\<open>m[k]\<close>, \<open>m[k] = v\<close>, \<open>delete(m, k)\<close>, and a loop over \<open>m\<close> that rewrites or deletes
  the entries it visits.\<close>

definition gomap_get :: "('k, 'v) gomap \<Rightarrow> 'k \<Rightarrow> 'v option" where
  "gomap_get m k = map_of m k"

definition gomap_set :: "'k \<Rightarrow> 'v \<Rightarrow> ('k, 'v) gomap \<Rightarrow> ('k, 'v) gomap" where
  "gomap_set k v m = AList.update k v m"

definition gomap_delete :: "'k \<Rightarrow> ('k, 'v) gomap \<Rightarrow> ('k, 'v) gomap" where
  "gomap_delete k m = AList.delete k m"

definition gomap_rewrite :: "('v \<Rightarrow> 'v) \<Rightarrow> ('k, 'v) gomap \<Rightarrow> ('k, 'v) gomap" where
  "gomap_rewrite f m = map (\<lambda>(k, v). (k, f v)) m"

definition gomap_keep :: "('v \<Rightarrow> bool) \<Rightarrow> ('k, 'v) gomap \<Rightarrow> ('k, 'v) gomap" where
  "gomap_keep p m = filter (\<lambda>(k, v). p v) m"

definition gomap_values :: "('k, 'v) gomap \<Rightarrow> 'v list" where
  "gomap_values m = map snd m"

lemma gomap_get_map_of: "gomap_get m = map_of m"
  by (simp add: gomap_get_def fun_eq_iff)

lemma gomap_get_empty [simp]: "gomap_get [] = Map.empty"
  by (simp add: gomap_get_def fun_eq_iff)

lemma gomap_get_set [simp]: "gomap_get (gomap_set k v m) = (gomap_get m)(k \<mapsto> v)"
  by (simp add: gomap_get_def gomap_set_def fun_eq_iff update_conv')

lemma gomap_get_delete [simp]: "gomap_get (gomap_delete k m) = (gomap_get m)(k := None)"
  by (simp add: gomap_get_def gomap_delete_def fun_eq_iff delete_conv')

lemma gomap_get_rewrite [simp]: "gomap_get (gomap_rewrite f m) = map_option f \<circ> gomap_get m"
  by (induction m) (auto simp: gomap_get_def gomap_rewrite_def fun_eq_iff)

lemma gomap_get_keep [simp]:
  assumes "gomap_ok m"
  shows "gomap_get (gomap_keep p m) =
    (\<lambda>k. case gomap_get m k of None \<Rightarrow> None | Some v \<Rightarrow> if p v then Some v else None)"
  using assms
proof (induction m)
  case Nil
  then show ?case by (simp add: gomap_keep_def gomap_get_def fun_eq_iff)
next
  case (Cons a m)
  then have IH: "gomap_get (gomap_keep p m) =
      (\<lambda>k. case gomap_get m k of None \<Rightarrow> None | Some v \<Rightarrow> if p v then Some v else None)"
    and fresh: "gomap_get m (fst a) = None"
    by (auto simp: gomap_ok_def gomap_get_def map_of_eq_None_iff)
  then show ?case
    by (cases a) (auto simp: gomap_keep_def gomap_get_def fun_eq_iff split: option.splits)
qed

lemma gomap_ok_empty [simp]: "gomap_ok []"
  by (simp add: gomap_ok_def)

lemma gomap_ok_set [simp]: "gomap_ok m \<Longrightarrow> gomap_ok (gomap_set k v m)"
  by (simp add: gomap_ok_def gomap_set_def distinct_update)

lemma gomap_ok_delete [simp]: "gomap_ok m \<Longrightarrow> gomap_ok (gomap_delete k m)"
  by (simp add: gomap_ok_def gomap_delete_def distinct_delete)

lemma gomap_ok_rewrite [simp]: "gomap_ok m \<Longrightarrow> gomap_ok (gomap_rewrite f m)"
  by (simp add: gomap_ok_def gomap_rewrite_def comp_def case_prod_beta)

lemma gomap_ok_keep [simp]: "gomap_ok m \<Longrightarrow> gomap_ok (gomap_keep p m)"
  by (simp add: gomap_ok_def gomap_keep_def distinct_map_filter)

lemma gomap_values_set:
  "gomap_ok m \<Longrightarrow> set (gomap_values m) = ran (gomap_get m)"
  by (simp add: gomap_ok_def gomap_values_def gomap_get_map_of ran_distinct)

end
