(* ===== verification/GoStrings.thy ===== *)
theory GoStrings
  imports Prelude "HOL-Library.Sublist" "HOL-Library.Char_ord" "HOL-Library.List_Lexorder"
begin

text \<open>
  The part of Go's \<open>strings\<close>, \<open>unicode/utf8\<close> and \<open>fmt\<close> that the library calls. A Go string is a
  sequence of bytes, and a HOL \<open>char\<close> is a byte, so \<open>string\<close> is Go's string and
  \<open>length\<close> is Go's \<open>len\<close>. Unicode enters where Go lets it enter: \<open>strings.TrimSpace\<close>
  and \<open>strings.ToLower\<close> decode UTF-8, and an invalid byte decodes to U+FFFD of width 1.

  The case table of \<open>unicode.ToLower\<close> outside ASCII (generated from the Unicode database) is
  the parameter \<open>ul\<close>, a map on code points; every theorem holds for any such table.
\<close>

lemma find_SomeD: "find P xs = Some x \<Longrightarrow> x \<in> set xs \<and> P x"
  by (induction xs) (auto split: if_splits)

section \<open>Bytes and runes\<close>

definition byte :: "char \<Rightarrow> nat" where "byte c = of_char c"

definition chr :: "nat \<Rightarrow> char" where "chr n = char_of n"

lemma byte_lt [simp]: "byte c < 256"
  by (simp add: byte_def)

lemma chr_byte [simp]: "chr (byte c) = c"
  by (simp add: byte_def chr_def)

lemma byte_chr [simp]: "n < 256 \<Longrightarrow> byte (chr n) = n"
  by (simp add: byte_def chr_def)

lemma byte_inject [simp]: "byte a = byte b \<longleftrightarrow> a = b"
  by (metis chr_byte)

definition rune_error :: nat where "rune_error = 65533"

definition continuation :: "char \<Rightarrow> bool" where
  "continuation c \<longleftrightarrow> 128 \<le> byte c \<and> byte c \<le> 191"

text \<open>The range the second byte must lie in, by the first byte.\<close>

definition second_range :: "nat \<Rightarrow> char \<Rightarrow> bool" where
  "second_range b0 c \<longleftrightarrow>
     (if b0 = 224 then 160 \<le> byte c \<and> byte c \<le> 191
      else if b0 = 237 then 128 \<le> byte c \<and> byte c \<le> 159
      else if b0 = 240 then 144 \<le> byte c \<and> byte c \<le> 191
      else if b0 = 244 then 128 \<le> byte c \<and> byte c \<le> 143
      else 128 \<le> byte c \<and> byte c \<le> 191)"

text \<open>\<open>utf8.DecodeRuneInString\<close>: the rune and its width.\<close>

fun decode_rune :: "string \<Rightarrow> nat \<times> nat" where
  "decode_rune [] = (rune_error, 0)"
| "decode_rune (c # cs) =
     (let b0 = byte c in
      if b0 < 128 then (b0, 1)
      else if b0 < 194 \<or> 244 < b0 then (rune_error, 1)
      else case cs of [] \<Rightarrow> (rune_error, 1)
      | c1 # cs1 \<Rightarrow>
        if \<not> second_range b0 c1 then (rune_error, 1)
        else if b0 < 224 then ((b0 - 192) * 64 + (byte c1 - 128), 2)
        else case cs1 of [] \<Rightarrow> (rune_error, 1)
        | c2 # cs2 \<Rightarrow>
          if \<not> continuation c2 then (rune_error, 1)
          else if b0 < 240 then
            ((b0 - 224) * 4096 + (byte c1 - 128) * 64 + (byte c2 - 128), 3)
          else case cs2 of [] \<Rightarrow> (rune_error, 1)
          | c3 # _ \<Rightarrow>
            if \<not> continuation c3 then (rune_error, 1)
            else ((b0 - 240) * 262144 + (byte c1 - 128) * 4096 +
                  (byte c2 - 128) * 64 + (byte c3 - 128), 4))"

text \<open>\<open>utf8.AppendRune\<close>: surrogates and values past U+10FFFF are written as U+FFFD.\<close>

definition encode_rune :: "nat \<Rightarrow> string" where
  "encode_rune r0 =
     (let r = (if 1114111 < r0 \<or> (55296 \<le> r0 \<and> r0 \<le> 57343) then rune_error else r0) in
      if r < 128 then [chr r]
      else if r < 2048 then [chr (192 + r div 64), chr (128 + r mod 64)]
      else if r < 65536 then
        [chr (224 + r div 4096), chr (128 + r div 64 mod 64), chr (128 + r mod 64)]
      else
        [chr (240 + r div 262144), chr (128 + r div 4096 mod 64),
         chr (128 + r div 64 mod 64), chr (128 + r mod 64)])"

lemma decode_rune_width:
  assumes "s \<noteq> []"
  shows "0 < snd (decode_rune s)" and "snd (decode_rune s) \<le> length s"
  using assms by (cases s; simp add: Let_def split: list.splits)+

lemma decode_rune_ascii: "byte c < 128 \<Longrightarrow> decode_rune (c # cs) = (byte c, 1)"
  by simp

text \<open>The runes a \<open>range\<close> loop over a string yields.\<close>

function runes :: "string \<Rightarrow> nat list" where
  "runes s = (if s = [] then [] else fst (decode_rune s) # runes (drop (snd (decode_rune s)) s))"
  by pat_completeness auto
termination
  by (relation "measure length") (auto simp: decode_rune_width)

declare runes.simps [simp del]

lemma runes_Nil [simp]: "runes [] = []"
  by (simp add: runes.simps)

lemma runes_ascii_Cons: "byte c < 128 \<Longrightarrow> runes (c # cs) = byte c # runes cs"
  by (subst runes.simps) simp

definition ascii :: "string \<Rightarrow> bool" where
  "ascii s \<longleftrightarrow> (\<forall>c \<in> set s. byte c < 128)"

lemma ascii_simps [simp]:
  "ascii []" "ascii (c # cs) \<longleftrightarrow> byte c < 128 \<and> ascii cs"
  "ascii (xs @ ys) \<longleftrightarrow> ascii xs \<and> ascii ys"
  by (auto simp: ascii_def)

lemma runes_ascii: "ascii s \<Longrightarrow> runes s = map byte s"
  by (induction s) (auto simp: runes_ascii_Cons)

lemma decode_rune_big:
  assumes "128 \<le> byte c"
  shows "128 \<le> fst (decode_rune (c # cs))"
proof (cases "byte c < 194 \<or> 244 < byte c \<or> cs = [] \<or> \<not> second_range (byte c) (hd cs)")
  case True
  with assms show ?thesis by (auto simp: Let_def rune_error_def split: list.splits)
next
  case False
  then obtain d ds where cs: "cs = d # ds" and d: "second_range (byte c) d"
    and b: "194 \<le> byte c" "byte c \<le> 244" by (cases cs) auto
  have two: "128 \<le> (byte c - 192) * 64 + x" for x
    using b(1) by (simp add: le_diff_conv2 trans_le_add1)
  have three: "128 \<le> (byte c - 224) * 4096 + (byte d - 128) * 64 + x" if "224 \<le> byte c" for x
    using that d by (cases "byte c = 224") (auto simp: second_range_def split: if_splits)
  have four: "128 \<le> (byte c - 240) * 262144 + (byte d - 128) * 4096 + x + y" if "240 \<le> byte c" for x y
    using that d by (cases "byte c = 240") (auto simp: second_range_def split: if_splits)
  show ?thesis
  proof (cases "byte c < 224")
    case True
    with cs b d two show ?thesis by (simp add: Let_def)
  next
    case c224: False
    show ?thesis
    proof (cases "byte c < 240")
      case True
      have "128 \<le> (byte c - 224) * 4096 + (byte d - 128) * 64 + x" for x
        using c224 by (intro three) simp
      with True c224 b d show ?thesis
        unfolding cs decode_rune.simps Let_def by (cases ds) (simp_all add: rune_error_def)
    next
      case False
      then have "128 \<le> (byte c - 240) * 262144 + (byte d - 128) * 4096 + x + y" for x y
        by (rule four [OF leI])
      with False c224 b d show ?thesis
        unfolding cs decode_rune.simps Let_def
        by (cases ds; cases "tl ds") (simp_all add: rune_error_def)
    qed
  qed
qed

lemma decode_rune_small: "fst (decode_rune (c # cs)) < 128 \<Longrightarrow> byte c < 128"
  using decode_rune_big not_less by blast

text \<open>An ASCII byte is never inside a longer sequence, so it is a rune of its own.\<close>

lemma decode_rune_high:
  assumes c: "128 \<le> byte c" and x: "x \<in> set (take (snd (decode_rune (c # cs))) (c # cs))"
  shows "128 \<le> byte x"
proof (cases "byte c < 194 \<or> 244 < byte c \<or> cs = [] \<or> \<not> second_range (byte c) (hd cs)")
  case True
  then have "snd (decode_rune (c # cs)) = 1" using c by (cases cs) (auto simp: Let_def)
  with c x show ?thesis by simp
next
  case False
  then obtain d ds where cs: "cs = d # ds" and d: "second_range (byte c) d"
    and b: "194 \<le> byte c" "byte c \<le> 244" by (cases cs) auto
  have d128: "128 \<le> byte d" using d by (auto simp: second_range_def split: if_splits)
  show ?thesis
  proof (cases "byte c < 224")
    case True
    then have "snd (decode_rune (c # cs)) = 2" using b d unfolding cs by (simp add: Let_def)
    with c x d128 show ?thesis unfolding cs by (auto simp: numeral_2_eq_2)
  next
    case c224: False
    show ?thesis
    proof (cases "ds = [] \<or> \<not> continuation (hd ds)")
      case True
      then have "snd (decode_rune (c # cs)) = 1"
        using c224 b d unfolding cs by (cases ds) (auto simp: Let_def)
      with c x show ?thesis by simp
    next
      case False
      then obtain e es where ds: "ds = e # es" and e: "continuation e" by (cases ds) auto
      have e128: "128 \<le> byte e" using e by (simp add: continuation_def)
      show ?thesis
      proof (cases "byte c < 240")
        case True
        then have "snd (decode_rune (c # cs)) = 3"
          using c224 b d e unfolding cs ds by (simp add: Let_def)
        with c x d128 e128 show ?thesis unfolding cs ds by (auto simp: numeral_3_eq_3)
      next
        case c240: False
        show ?thesis
        proof (cases "es = [] \<or> \<not> continuation (hd es)")
          case True
          then have "snd (decode_rune (c # cs)) = 1"
            using c224 c240 b d e unfolding cs ds by (cases es) (auto simp: Let_def)
          with c x show ?thesis by simp
        next
          case False
          then obtain f fs where es: "es = f # fs" and f: "continuation f" by (cases es) auto
          have f128: "128 \<le> byte f" using f by (simp add: continuation_def)
          have "snd (decode_rune (c # cs)) = 4"
            using c224 c240 b d e f unfolding cs ds es by (simp add: Let_def)
          with c x d128 e128 f128 show ?thesis
            unfolding cs ds es by (auto simp: eval_nat_numeral)
        qed
      qed
    qed
  qed
qed

lemma runes_ascii_mem:
  "c \<in> set s \<Longrightarrow> byte c < 128 \<Longrightarrow> byte c \<in> set (runes s)"
proof (induction s rule: runes.induct)
  case (1 s)
  from 1(2) obtain b bs where s: "s = b # bs" by (cases s) auto
  have r: "runes s = fst (decode_rune s) # runes (drop (snd (decode_rune s)) s)"
    unfolding s by (subst runes.simps) simp
  show ?case
  proof (cases "c \<in> set (drop (snd (decode_rune s)) s)")
    case True
    have "s \<noteq> []" by (simp add: s)
    from 1(1) [OF this True 1(3)] r show ?thesis by simp
  next
    case False
    have "set s = set (take (snd (decode_rune s)) s) \<union> set (drop (snd (decode_rune s)) s)"
      by (metis append_take_drop_id set_append)
    with False 1(2) have c: "c \<in> set (take (snd (decode_rune s)) s)" by blast
    have small: "byte b < 128"
    proof (rule ccontr)
      assume "\<not> byte b < 128"
      then have "128 \<le> byte c" using decode_rune_high c unfolding s by (meson not_less)
      with 1(3) show False by simp
    qed
    with c have "c = b" unfolding s by (simp add: decode_rune_ascii)
    with small r show ?thesis unfolding s by (simp add: decode_rune_ascii)
  qed
qed

lemma runes_small: "(\<And>r. r \<in> set (runes s) \<Longrightarrow> r < 128) \<Longrightarrow> ascii s"
proof (induction s rule: runes.induct)
  case (1 s)
  show ?case
  proof (cases s)
    case (Cons c cs)
    have "runes s = fst (decode_rune s) # runes (drop (snd (decode_rune s)) s)"
      using Cons by (subst runes.simps) simp
    with 1(2) have small: "fst (decode_rune s) < 128"
      and rest: "\<And>r. r \<in> set (runes (drop (snd (decode_rune s)) s)) \<Longrightarrow> r < 128" by auto
    from small have c: "byte c < 128" unfolding Cons by (rule decode_rune_small)
    then have drop: "drop (snd (decode_rune s)) s = cs" unfolding Cons by (simp add: decode_rune_ascii)
    have "ascii (drop (snd (decode_rune s)) s)"
      by (rule 1(1)) (use Cons in simp, rule rest)
    with c show ?thesis unfolding drop Cons by simp
  qed simp
qed

text \<open>\<open>utf8.Valid\<close>: no byte decodes to an error of width 1.\<close>

function utf8_valid :: "string \<Rightarrow> bool" where
  "utf8_valid s =
     (if s = [] then True
      else decode_rune s \<noteq> (rune_error, 1) \<and> utf8_valid (drop (snd (decode_rune s)) s))"
  by pat_completeness auto
termination
  by (relation "measure length") (auto simp: decode_rune_width)

declare utf8_valid.simps [simp del]

section \<open>Case and white space\<close>

definition lower_rune :: "(nat \<Rightarrow> nat) \<Rightarrow> nat \<Rightarrow> nat" where
  "lower_rune ul r = (if r < 128 then (if 65 \<le> r \<and> r \<le> 90 then r + 32 else r) else ul r)"

definition to_lower :: "(nat \<Rightarrow> nat) \<Rightarrow> string \<Rightarrow> string" where
  "to_lower ul s = concat (map (encode_rune \<circ> lower_rune ul) (runes s))"

definition upper_byte :: "char \<Rightarrow> bool" where
  "upper_byte c \<longleftrightarrow> 65 \<le> byte c \<and> byte c \<le> 90"

definition lower_byte :: "char \<Rightarrow> char" where
  "lower_byte c = (if upper_byte c then chr (byte c + 32) else c)"

lemma encode_rune_byte: "byte c < 128 \<Longrightarrow> encode_rune (byte c) = [c]"
  by (simp add: encode_rune_def)

lemma to_lower_Nil [simp]: "to_lower ul [] = []"
  by (simp add: to_lower_def)

lemma to_lower_ascii: "ascii s \<Longrightarrow> to_lower ul s = map lower_byte s"
proof (induction s)
  case (Cons c s)
  have "encode_rune (lower_rune ul (byte c)) = [lower_byte c]" if "byte c < 128"
    using that encode_rune_byte[of "chr (byte c + 32)"]
    by (auto simp: lower_rune_def lower_byte_def upper_byte_def encode_rune_byte)
  with Cons show ?case
    by (simp add: to_lower_def runes_ascii_Cons)
qed simp

lemma lower_byte_ascii: "byte c < 128 \<Longrightarrow> byte (lower_byte c) < 128"
  by (auto simp: lower_byte_def upper_byte_def)

lemma ascii_map_lower: "ascii s \<Longrightarrow> ascii (map lower_byte s)"
  by (auto simp: ascii_def lower_byte_ascii)

lemma lower_byte_idem [simp]: "lower_byte (lower_byte c) = lower_byte c"
  by (auto simp: lower_byte_def upper_byte_def)

lemma to_lower_id:
  assumes "ascii s" and "\<And>c. c \<in> set s \<Longrightarrow> \<not> upper_byte c"
  shows "to_lower ul s = s"
proof -
  have "map lower_byte s = s"
    using assms(2) by (simp add: lower_byte_def map_idI)
  with assms(1) show ?thesis by (simp add: to_lower_ascii)
qed

text \<open>\<open>strings.ToUpper\<close>, with the upper-case table outside ASCII as a parameter.\<close>

definition upper_rune :: "(nat \<Rightarrow> nat) \<Rightarrow> nat \<Rightarrow> nat" where
  "upper_rune uu r = (if r < 128 then (if 97 \<le> r \<and> r \<le> 122 then r - 32 else r) else uu r)"

definition to_upper :: "(nat \<Rightarrow> nat) \<Rightarrow> string \<Rightarrow> string" where
  "to_upper uu s = concat (map (encode_rune \<circ> upper_rune uu) (runes s))"

lemma to_upper_id:
  assumes "\<And>c. c \<in> set s \<Longrightarrow> byte c < 128 \<and> \<not> (97 \<le> byte c \<and> byte c \<le> 122)"
  shows "to_upper uu s = s"
  using assms
proof (induction s)
  case (Cons c s)
  then have "byte c < 128" "\<not> (97 \<le> byte c \<and> byte c \<le> 122)" by auto
  then have "encode_rune (upper_rune uu (byte c)) = [c]"
    by (auto simp: upper_rune_def encode_rune_byte)
  with Cons \<open>byte c < 128\<close> show ?case
    by (simp add: to_upper_def runes_ascii_Cons)
qed (simp add: to_upper_def)

text \<open>\<open>unicode.IsSpace\<close>.\<close>

definition is_space :: "nat \<Rightarrow> bool" where
  "is_space r \<longleftrightarrow>
     (9 \<le> r \<and> r \<le> 13) \<or> r = 32 \<or> r = 133 \<or> r = 160 \<or> r = 5760 \<or>
     (8192 \<le> r \<and> r \<le> 8202) \<or> r = 8232 \<or> r = 8233 \<or> r = 8239 \<or> r = 8287 \<or> r = 12288"

lemma not_space_error [simp]: "\<not> is_space rune_error"
  by (simp add: is_space_def rune_error_def)

function trim_left :: "string \<Rightarrow> string" where
  "trim_left s =
     (if s \<noteq> [] \<and> is_space (fst (decode_rune s))
      then trim_left (drop (snd (decode_rune s)) s) else s)"
  by pat_completeness auto
termination
  by (relation "measure length") (auto simp: decode_rune_width)

declare trim_left.simps [simp del]

text \<open>\<open>utf8.DecodeLastRuneInString\<close>: look back at most four bytes for a start byte, decode
  from there, and accept the rune only if it ends where the string ends.\<close>

definition last_start :: "string \<Rightarrow> nat" where
  "last_start s =
     (case find (\<lambda>i. \<not> continuation (s ! i)) (rev [length s - 4..<length s - 1]) of
        Some i \<Rightarrow> i | None \<Rightarrow> length s - 5)"

definition decode_last_rune :: "string \<Rightarrow> nat \<times> nat" where
  "decode_last_rune s =
     (let n = length s in
      if s = [] then (rune_error, 0)
      else if byte (s ! (n - 1)) < 128 then (byte (s ! (n - 1)), 1)
      else
        let (r, size) = decode_rune (drop (last_start s) s)
        in if last_start s + size \<noteq> n then (rune_error, 1) else (r, size))"

lemma last_start_less: "s \<noteq> [] \<Longrightarrow> last_start s < length s"
  by (auto simp: last_start_def split: option.splits dest!: find_SomeD)

lemma decode_last_rune_width:
  assumes "s \<noteq> []"
  shows "0 < snd (decode_last_rune s)" and "snd (decode_last_rune s) \<le> length s"
proof -
  have "drop (last_start s) s \<noteq> []"
    using last_start_less [OF assms] by simp
  from decode_rune_width [OF this] last_start_less [OF assms]
  have "0 < snd (decode_rune (drop (last_start s) s))"
    and "last_start s + snd (decode_rune (drop (last_start s) s)) \<le> length s"
    by auto
  with assms show "0 < snd (decode_last_rune s)" and "snd (decode_last_rune s) \<le> length s"
    by (auto simp: decode_last_rune_def Let_def Suc_le_eq split: prod.splits)
qed

function trim_right :: "string \<Rightarrow> string" where
  "trim_right s =
     (if s \<noteq> [] \<and> is_space (fst (decode_last_rune s))
      then trim_right (take (length s - snd (decode_last_rune s)) s) else s)"
  by pat_completeness auto
termination
  by (relation "measure length") (auto simp: decode_last_rune_width)

declare trim_right.simps [simp del]

definition trim_space :: "string \<Rightarrow> string" where
  "trim_space s = trim_right (trim_left s)"


lemma trim_left_stop: "\<not> is_space (fst (decode_rune s)) \<Longrightarrow> trim_left s = s"
  by (subst trim_left.simps) simp

lemma trim_right_stop: "\<not> is_space (fst (decode_last_rune s)) \<Longrightarrow> trim_right s = s"
  by (subst trim_right.simps) simp

lemma trim_left_head: "\<not> is_space (fst (decode_rune (trim_left s)))"
proof (induction s rule: trim_left.induct)
  case (1 s)
  then show ?case
    by (cases "s \<noteq> [] \<and> is_space (fst (decode_rune s))")
       (auto simp: trim_left.simps [of s])
qed

lemma decode_last_rune_Nil [simp]: "decode_last_rune [] = (rune_error, 0)"
  by (simp add: decode_last_rune_def)

lemma trim_right_last: "\<not> is_space (fst (decode_last_rune (trim_right s)))"
proof (induction s rule: trim_right.induct)
  case (1 s)
  then show ?case
    by (cases "s \<noteq> [] \<and> is_space (fst (decode_last_rune s))")
       (auto simp: trim_right.simps [of s])
qed

lemma trim_left_suffix: "suffix (trim_left s) s"
proof (induction s rule: trim_left.induct)
  case (1 s)
  then show ?case
    by (cases "s \<noteq> [] \<and> is_space (fst (decode_rune s))")
       (auto simp: trim_left.simps [of s] intro: suffix_order.trans suffix_drop)
qed

lemma trim_right_prefix: "prefix (trim_right s) s"
proof (induction s rule: trim_right.induct)
  case (1 s)
  then show ?case
    by (cases "s \<noteq> [] \<and> is_space (fst (decode_last_rune s))")
       (auto simp: trim_right.simps [of s] intro: prefix_order.trans take_is_prefix)
qed

text \<open>Cutting a string short never uncovers white space at its front: a rune that is cut
  in the middle decodes to U+FFFD.\<close>

lemma decode_rune_take:
  "decode_rune (take k s) = decode_rune s \<or> fst (decode_rune (take k s)) = rune_error"
  by (cases s; cases k)
     (auto simp: Let_def take_Cons' split: list.splits)

lemma trim_left_prefix:
  assumes "\<not> is_space (fst (decode_rune s))" and "prefix p s"
  shows "trim_left p = p"
proof -
  from assms(2) obtain k where "p = take k s"
    by (metis append_eq_conv_conj prefixE)
  with assms(1) have "\<not> is_space (fst (decode_rune p))"
    using decode_rune_take [of k s] by auto
  then show ?thesis by (rule trim_left_stop)
qed

lemma trim_space_idem [simp]: "trim_space (trim_space s) = trim_space s"
proof -
  have "trim_left (trim_right (trim_left s)) = trim_right (trim_left s)"
    by (rule trim_left_prefix [OF trim_left_head trim_right_prefix])
  moreover have "trim_right (trim_right (trim_left s)) = trim_right (trim_left s)"
    by (rule trim_right_stop [OF trim_right_last])
  ultimately show ?thesis
    by (simp add: trim_space_def)
qed

lemma trim_space_Nil [simp]: "trim_space [] = []"
  by (simp add: trim_space_def trim_left.simps trim_right.simps)

lemma set_trim_space: "set (trim_space s) \<subseteq> set s"
  unfolding trim_space_def
  by (meson set_mono_prefix set_mono_suffix subset_trans trim_left_suffix trim_right_prefix)

lemma length_trim_space: "length (trim_space s) \<le> length s"
  unfolding trim_space_def
  by (meson le_trans prefix_length_le suffix_length_le trim_left_suffix trim_right_prefix)

lemma ascii_trim_space: "ascii s \<Longrightarrow> ascii (trim_space s)"
  using set_trim_space by (auto simp: ascii_def)

lemma trim_space_id:
  assumes "ascii s" and "\<And>c. c \<in> set s \<Longrightarrow> \<not> is_space (byte c)"
  shows "trim_space s = s"
proof (cases "s = []")
  case False
  then have "hd s \<in> set s" and "s ! (length s - 1) \<in> set s" by auto
  with assms have hd: "byte (hd s) < 128" "\<not> is_space (byte (hd s))"
    and last: "byte (s ! (length s - 1)) < 128" "\<not> is_space (byte (s ! (length s - 1)))"
    by (auto simp: ascii_def)
  have "trim_left s = s"
    using hd False by (cases s) (auto intro: trim_left_stop)
  moreover have "trim_right s = s"
    using last False by (intro trim_right_stop) (simp add: decode_last_rune_def)
  ultimately show ?thesis by (simp add: trim_space_def)
qed simp

section \<open>Searching, splitting and joining\<close>

text \<open>\<open>strings.IndexByte\<close>, with \<open>-1\<close> for a byte that does not occur.\<close>

fun index_byte :: "string \<Rightarrow> char \<Rightarrow> int" where
  "index_byte [] c = -1"
| "index_byte (x # xs) c =
     (if x = c then 0 else let i = index_byte xs c in if i < 0 then -1 else i + 1)"

lemma index_byte_ge: "-1 \<le> index_byte s c"
  by (induction s) (auto simp: Let_def)

lemma index_byte_neg: "index_byte s c < 0 \<longleftrightarrow> c \<notin> set s"
  by (induction s) (auto simp: Let_def)

lemma index_byte_split:
  assumes "0 \<le> index_byte s c"
  shows "s = take (nat (index_byte s c)) s @ c # drop (Suc (nat (index_byte s c))) s"
    and "c \<notin> set (take (nat (index_byte s c)) s)"
  using assms
  by (induction s) (auto simp: Let_def nat_add_distrib split: if_splits)

lemma index_byte_append: "c \<notin> set a \<Longrightarrow> index_byte (a @ c # b) c = int (length a)"
  by (induction a) (auto simp: Let_def)

text \<open>\<open>strings.Cut\<close> and \<open>strings.Split\<close> for a separator of one byte, and \<open>strings.Join\<close>.\<close>

definition cut :: "char \<Rightarrow> string \<Rightarrow> (string \<times> string) option" where
  "cut c s =
     (if c \<in> set s then Some (takeWhile (\<lambda>x. x \<noteq> c) s, tl (dropWhile (\<lambda>x. x \<noteq> c) s)) else None)"

fun split_on :: "char \<Rightarrow> string \<Rightarrow> string list" where
  "split_on c [] = [[]]"
| "split_on c (x # xs) =
     (if x = c then [] # split_on c xs
      else case split_on c xs of [] \<Rightarrow> [[x]] | y # ys \<Rightarrow> (x # y) # ys)"

fun join :: "string \<Rightarrow> string list \<Rightarrow> string" where
  "join sep [] = []"
| "join sep [x] = x"
| "join sep (x # y # ys) = x @ sep @ join sep (y # ys)"

lemma cut_append: "c \<notin> set a \<Longrightarrow> cut c (a @ c # b) = Some (a, b)"
  by (induction a) (auto simp: cut_def)

lemma cut_SomeD:
  assumes "cut c s = Some (a, b)"
  shows "s = a @ c # b" and "c \<notin> set a"
proof -
  from assms have c: "c \<in> set s"
    and a: "a = takeWhile (\<lambda>x. x \<noteq> c) s" and b: "b = tl (dropWhile (\<lambda>x. x \<noteq> c) s)"
    by (auto simp: cut_def split: if_splits)
  from c have "dropWhile (\<lambda>x. x \<noteq> c) s = c # b"
    unfolding b by (induction s) auto
  with a show "s = a @ c # b"
    by (metis takeWhile_dropWhile_id)
  show "c \<notin> set a"
    using a by (metis (mono_tags) set_takeWhileD)
qed

lemma cut_None [simp]: "cut c s = None \<longleftrightarrow> c \<notin> set s"
  by (simp add: cut_def)

lemma split_on_nonempty [simp]: "split_on c s \<noteq> []"
  by (induction s) (auto split: list.splits)

lemma split_on_notin: "c \<notin> set s \<Longrightarrow> split_on c s = [s]"
  by (induction s) auto

lemma split_on_append: "c \<notin> set a \<Longrightarrow> split_on c (a @ c # b) = a # split_on c b"
  by (induction a) auto

lemma split_on_join:
  "xs \<noteq> [] \<Longrightarrow> (\<And>x. x \<in> set xs \<Longrightarrow> c \<notin> set x) \<Longrightarrow> split_on c (join [c] xs) = xs"
proof (induction "[c]" xs rule: join.induct)
  case (2 x)
  then show ?case by (simp add: split_on_notin)
next
  case (3 x y ys)
  then show ?case by (simp add: split_on_append)
qed simp

lemma set_split_on: "x \<in> set (split_on c s) \<Longrightarrow> set x \<subseteq> set s \<and> c \<notin> set x"
proof (induction s arbitrary: x)
  case (Cons a s)
  obtain y ys where eq: "split_on c s = y # ys"
    using split_on_nonempty by (meson neq_Nil_conv)
  have "\<forall>z \<in> set (split_on c s). set z \<subseteq> set s \<and> c \<notin> set z"
    using Cons.IH by blast
  with Cons.prems eq show ?case by (auto split: if_splits)
qed simp

lemma join_split_on [simp]: "join [c] (split_on c s) = s"
proof (induction s)
  case (Cons a s)
  obtain y ys where eq: "split_on c s = y # ys"
    using split_on_nonempty by (meson neq_Nil_conv)
  then show ?case using Cons by (cases ys) auto
qed simp

definition has_prefix :: "string \<Rightarrow> string \<Rightarrow> bool" where
  "has_prefix s p \<longleftrightarrow> take (length p) s = p"

section \<open>Decimal numbers\<close>

text \<open>\<open>fmt.Sprintf("%d", n)\<close> for a number that is not negative.\<close>

function decimal :: "nat \<Rightarrow> string" where
  "decimal n = (if n < 10 then [chr (48 + n)] else decimal (n div 10) @ [chr (48 + n mod 10)])"
  by pat_completeness auto
termination
  by (relation "measure id") auto

declare decimal.simps [simp del]

definition is_digit :: "char \<Rightarrow> bool" where
  "is_digit c \<longleftrightarrow> 48 \<le> byte c \<and> byte c \<le> 57"

definition digit_value :: "char \<Rightarrow> nat" where "digit_value c = byte c - 48"

definition number_of :: "string \<Rightarrow> nat" where
  "number_of s = foldl (\<lambda>n c. 10 * n + digit_value c) 0 s"

lemma number_of_snoc: "number_of (s @ [c]) = 10 * number_of s + digit_value c"
  by (simp add: number_of_def)

lemma decimal_digits: "c \<in> set (decimal n) \<Longrightarrow> is_digit c"
proof (induction n rule: decimal.induct)
  case (1 n)
  then show ?case
    by (cases "n < 10") (auto simp: decimal.simps [of n] is_digit_def)
qed

lemma decimal_nonempty [simp]: "decimal n \<noteq> []"
  by (subst decimal.simps) simp

lemma number_of_decimal [simp]: "number_of (decimal n) = n"
proof (induction n rule: decimal.induct)
  case (1 n)
  show ?case
  proof (cases "n < 10")
    case True
    then show ?thesis
      by (simp add: decimal.simps [of n] number_of_def digit_value_def)
  next
    case False
    with 1 show ?thesis
      by (simp add: decimal.simps [of n] number_of_snoc digit_value_def)
  qed
qed

lemma decimal_inject [simp]: "decimal m = decimal n \<longleftrightarrow> m = n"
  by (metis number_of_decimal)

lemma decimal_length_le: "n < 10 ^ k \<Longrightarrow> 0 < k \<Longrightarrow> length (decimal n) \<le> k"
proof (induction n arbitrary: k rule: decimal.induct)
  case (1 n)
  show ?case
  proof (cases "n < 10")
    case True
    with 1 show ?thesis by (simp add: decimal.simps [of n])
  next
    case False
    with "1.prems" obtain j where k: "k = Suc j" "0 < j"
      by (cases k; cases "k - 1") auto
    with "1.prems" have "n div 10 < 10 ^ j" by (simp add: div_less_iff_less_mult mult.commute)
    with 1 False k have "length (decimal (n div 10)) \<le> j" by blast
    with False k show ?thesis by (simp add: decimal.simps [of n])
  qed
qed

text \<open>\<open>%0*d\<close>: a decimal number with leading zeros.\<close>

definition zero_padded :: "nat \<Rightarrow> nat \<Rightarrow> string" where
  "zero_padded d v = replicate (d - length (decimal v)) (CHR ''0'') @ decimal v"

lemma length_zero_padded: "v < 10 ^ d \<Longrightarrow> 0 < d \<Longrightarrow> length (zero_padded d v) = d"
  using decimal_length_le [of v d] by (simp add: zero_padded_def)

lemma number_of_zeros: "number_of (replicate n (CHR ''0'') @ s) = number_of s"
  by (induction n) (simp_all add: number_of_def digit_value_def byte_def)

lemma zero_padded_inject:
  "zero_padded d u = zero_padded d v \<longleftrightarrow> u = v"
proof
  assume "zero_padded d u = zero_padded d v"
  then have "number_of (zero_padded d u) = number_of (zero_padded d v)" by simp
  then show "u = v" by (simp add: zero_padded_def number_of_zeros)
qed simp

lemma number_of_zero_padded [simp]: "number_of (zero_padded d v) = v"
  by (simp add: zero_padded_def number_of_zeros)

lemma zero_padded_digits: "c \<in> set (zero_padded d v) \<Longrightarrow> is_digit c"
  using decimal_digits [of c v] by (auto simp: zero_padded_def is_digit_def byte_def)

text \<open>\<open>%d\<close> of an integer that may be negative.\<close>

definition decimal_int :: "int \<Rightarrow> string" where
  "decimal_int n = (if n < 0 then CHR ''-'' # decimal (nat (- n)) else decimal (nat n))"

end
