(* ===== verification/GoCodec.thy ===== *)
theory GoCodec
  imports GoStrings
begin

text \<open>
  The encodings the library uses: \<open>encoding/hex\<close>, \<open>encoding/base64\<close> (the URL and the standard
  alphabet, without padding and, for stored ciphertexts, with it; \<open>Strict\<close> as an argument) and
  \<open>encoding/base32\<close> without padding. Decoders return \<open>None\<close> where Go returns an error. As in
  Go, the base64 and base32 decoders skip CR and LF anywhere in the input.
\<close>

section \<open>Hexadecimal\<close>

definition hex_digit :: "nat \<Rightarrow> char" where
  "hex_digit n = (if n < 10 then chr (48 + n) else chr (87 + n))"

fun hex_encode :: "string \<Rightarrow> string" where
  "hex_encode [] = []"
| "hex_encode (c # cs) = hex_digit (byte c div 16) # hex_digit (byte c mod 16) # hex_encode cs"

definition hex_value :: "char \<Rightarrow> nat option" where
  "hex_value c =
     (let b = byte c in
      if 48 \<le> b \<and> b \<le> 57 then Some (b - 48)
      else if 97 \<le> b \<and> b \<le> 102 then Some (b - 87)
      else if 65 \<le> b \<and> b \<le> 70 then Some (b - 55)
      else None)"

fun hex_decode :: "string \<Rightarrow> string option" where
  "hex_decode [] = Some []"
| "hex_decode [c] = None"
| "hex_decode (c # d # cs) =
     (case (hex_value c, hex_value d) of
        (Some h, Some l) \<Rightarrow> map_option (\<lambda>bs. chr (16 * h + l) # bs) (hex_decode cs)
      | _ \<Rightarrow> None)"

lemma hex_value_digit [simp]: "n < 16 \<Longrightarrow> hex_value (hex_digit n) = Some n"
  by (auto simp: hex_value_def hex_digit_def Let_def)

lemma hex_decode_encode [simp]: "hex_decode (hex_encode bs) = Some bs"
proof (induction bs)
  case (Cons c bs)
  have "byte c div 16 < 16"
    using byte_lt [of c] by (simp add: div_less_iff_less_mult)
  with Cons show ?case by simp
qed simp

lemma hex_encode_bytes:
  assumes "c \<in> set (hex_encode bs)"
  shows "48 \<le> byte c \<and> byte c \<le> 102"
  using assms
proof (induction bs)
  case (Cons b bs)
  have digit: "48 \<le> byte (hex_digit n) \<and> byte (hex_digit n) \<le> 102" if "n < 16" for n
    using that by (auto simp: hex_digit_def)
  have "byte b div 16 < 16"
    using byte_lt [of b] by (simp add: div_less_iff_less_mult)
  with Cons digit show ?case by auto
qed simp

lemma trim_space_hex [simp]: "trim_space (hex_encode bs) = hex_encode bs"
proof (rule trim_space_id)
  show "ascii (hex_encode bs)"
    using hex_encode_bytes by (fastforce simp: ascii_def)
  show "\<not> is_space (byte c)" if "c \<in> set (hex_encode bs)" for c
    using hex_encode_bytes [OF that] by (auto simp: is_space_def)
qed

lemma length_hex_encode [simp]: "length (hex_encode bs) = 2 * length bs"
  by (induction bs) auto

lemma hex_encode_inject [simp]: "hex_encode a = hex_encode b \<longleftrightarrow> a = b"
  by (metis hex_decode_encode option.inject)

section \<open>Base64\<close>

definition newline_byte :: "char \<Rightarrow> bool" where
  "newline_byte c \<longleftrightarrow> byte c = 10 \<or> byte c = 13"

definition strip_newlines :: "string \<Rightarrow> string" where
  "strip_newlines s = filter (\<lambda>c. \<not> newline_byte c) s"

definition sym64 :: "bool \<Rightarrow> nat \<Rightarrow> char" where
  "sym64 url n =
     (if n < 26 then chr (65 + n)
      else if n < 52 then chr (71 + n)
      else if n < 62 then chr (n - 4)
      else if n = 62 then chr (if url then 45 else 43)
      else chr (if url then 95 else 47))"

definition val64 :: "bool \<Rightarrow> char \<Rightarrow> nat option" where
  "val64 url c =
     (let b = byte c in
      if 65 \<le> b \<and> b \<le> 90 then Some (b - 65)
      else if 97 \<le> b \<and> b \<le> 122 then Some (b - 71)
      else if 48 \<le> b \<and> b \<le> 57 then Some (b + 4)
      else if b = (if url then 45 else 43) then Some 62
      else if b = (if url then 95 else 47) then Some 63
      else None)"

lemma sym64_cases:
  fixes n :: nat
  assumes "n < 64"
  obtains "n < 26" | "26 \<le> n" "n < 52" | "52 \<le> n" "n < 62" | "n = 62" | "n = 63"
  using assms by linarith

lemma val64_sym64 [simp]: "n < 64 \<Longrightarrow> val64 url (sym64 url n) = Some n"
  by (erule sym64_cases) (auto simp: val64_def sym64_def Let_def)

text \<open>In \<open>sym64\<close> and \<open>val64\<close>, 45 and 95 are the URL alphabet's minus and underscore, 43 and 47
  the standard alphabet's plus and slash. The 6-bit digits of a byte string, and back. Two or three digits are left over for
  one or two bytes; a single digit is an error, and \<open>strict\<close> requires the unused low bits of the
  last digit to be zero.\<close>

fun digits64 :: "string \<Rightarrow> nat list" where
  "digits64 [] = []"
| "digits64 [a] = [byte a div 4, byte a mod 4 * 16]"
| "digits64 [a, b] = [byte a div 4, byte a mod 4 * 16 + byte b div 16, byte b mod 16 * 4]"
| "digits64 (a # b # c # rest) =
     byte a div 4 # (byte a mod 4 * 16 + byte b div 16) #
     (byte b mod 16 * 4 + byte c div 64) # byte c mod 64 # digits64 rest"

definition byte1_64 :: "nat \<Rightarrow> nat \<Rightarrow> char" where
  "byte1_64 v w = chr (v * 4 + w div 16)"
definition byte2_64 :: "nat \<Rightarrow> nat \<Rightarrow> char" where
  "byte2_64 w x = chr (w mod 16 * 16 + x div 4)"
definition byte3_64 :: "nat \<Rightarrow> nat \<Rightarrow> char" where
  "byte3_64 x y = chr (x mod 4 * 64 + y)"

fun bytes64 :: "bool \<Rightarrow> nat list \<Rightarrow> string option" where
  "bytes64 strict [] = Some []"
| "bytes64 strict [v] = None"
| "bytes64 strict [v, w] = (if strict \<and> w mod 16 \<noteq> 0 then None else Some [byte1_64 v w])"
| "bytes64 strict [v, w, x] =
     (if strict \<and> x mod 4 \<noteq> 0 then None else Some [byte1_64 v w, byte2_64 w x])"
| "bytes64 strict (v # w # x # y # rest) =
     map_option (\<lambda>bs. byte1_64 v w # byte2_64 w x # byte3_64 x y # bs) (bytes64 strict rest)"

definition base64_encode :: "bool \<Rightarrow> string \<Rightarrow> string" where
  "base64_encode url bs = map (sym64 url) (digits64 bs)"

definition base64_decode :: "bool \<Rightarrow> bool \<Rightarrow> string \<Rightarrow> string option" where
  "base64_decode url strict s =
     (let ds = map (val64 url) (strip_newlines s) in
      if None \<in> set ds then None else bytes64 strict (map the ds))"

lemma byte_parts:
  "byte a div 4 < 64" "byte a mod 4 * 16 < 64" "byte a mod 4 * 16 + byte b div 16 < 64"
  "byte b mod 16 * 4 < 64" "byte b mod 16 * 4 + byte c div 64 < 64"
  using byte_lt [of a] byte_lt [of b] byte_lt [of c] by (simp_all, linarith+)

lemma digits64_less: "d \<in> set (digits64 bs) \<Longrightarrow> d < 64"
  by (induction bs rule: digits64.induct) (auto simp: byte_parts)

lemma chr_eqI: "n = byte x \<Longrightarrow> chr n = x"
  by simp

lemma pack_div: "y < k \<Longrightarrow> (x * k + y) div k = (x :: nat)"
  by simp

lemma pack_mod: "y < k \<Longrightarrow> (x * k + y) mod k = (y :: nat)"
  by simp

lemma byte_div:
  "byte c div 16 < 16" "byte c div 64 < 4" "byte c div 128 < 2" "byte c div 32 < 8"
  using byte_lt [of c] by linarith+

lemma byte64_recombine:
  "byte1_64 (byte a div 4) (byte a mod 4 * 16 + byte b div 16) = a"
  "byte1_64 (byte a div 4) (byte a mod 4 * 16) = a"
  "byte2_64 (byte a mod 4 * 16 + byte b div 16) (byte b mod 16 * 4 + byte c div 64) = b"
  "byte2_64 (byte a mod 4 * 16 + byte b div 16) (byte b mod 16 * 4) = b"
  "byte3_64 (byte b mod 16 * 4 + byte c div 64) (byte c mod 64) = c"
  unfolding byte1_64_def byte2_64_def byte3_64_def
    pack_div [OF byte_div(1)] pack_mod [OF byte_div(1)] pack_div [OF byte_div(2)]
    pack_mod [OF byte_div(2)]
  by (simp_all add: mult_div_mod_eq)

lemma bytes64_digits64 [simp]: "bytes64 strict (digits64 bs) = Some bs"
  by (induction bs rule: digits64.induct) (simp_all add: byte64_recombine)

lemma sym64_newline: "n < 64 \<Longrightarrow> \<not> newline_byte (sym64 url n)"
  by (erule sym64_cases) (auto simp: newline_byte_def sym64_def)

lemma base64_decode_encode [simp]: "base64_decode url strict (base64_encode url bs) = Some bs"
proof -
  have "strip_newlines (base64_encode url bs) = base64_encode url bs"
    by (auto simp: strip_newlines_def base64_encode_def filter_id_conv
        dest: digits64_less sym64_newline)
  moreover have "map (val64 url) (base64_encode url bs) = map Some (digits64 bs)"
    by (auto simp: base64_encode_def dest: digits64_less)
  ultimately show ?thesis
    by (auto simp: base64_decode_def comp_def)
qed

definition sym64_ok :: "bool \<Rightarrow> char \<Rightarrow> bool" where
  "sym64_ok url c \<longleftrightarrow> val64 url c \<noteq> None"

lemma base64_encode_alphabet: "c \<in> set (base64_encode url bs) \<Longrightarrow> sym64_ok url c"
  by (auto simp: base64_encode_def sym64_ok_def dest!: digits64_less)

lemma base64_encode_inject [simp]: "base64_encode url a = base64_encode url b \<longleftrightarrow> a = b"
  by (metis base64_decode_encode option.inject)

lemma length_digits64: "length (digits64 bs) = (8 * length bs + 5) div 6"
  by (induction bs rule: digits64.induct) auto

lemma length_base64_encode: "length (base64_encode url bs) = (8 * length bs + 5) div 6"
  by (simp add: base64_encode_def length_digits64)

text \<open>Strict decoding accepts one text per byte string: the unused bits of the last digit are zero.\<close>

lemma sym64_val64: "val64 url c = Some n \<Longrightarrow> sym64 url n = c \<and> n < 64"
  using byte_lt [of c] by (auto simp: val64_def sym64_def Let_def split: if_splits intro!: chr_eqI)

lemma digit_bytes:
  "v < 64 \<Longrightarrow> w < 64 \<Longrightarrow> byte (byte1_64 v w) = v * 4 + w div 16"
  "x < 64 \<Longrightarrow> byte (byte2_64 w x) = w mod 16 * 16 + x div 4"
  "y < 64 \<Longrightarrow> byte (byte3_64 x y) = x mod 4 * 64 + y"
proof -
  have "v * 4 + w div 16 < 256" if "v < 64" "w < 64" using that by linarith
  then show "v < 64 \<Longrightarrow> w < 64 \<Longrightarrow> byte (byte1_64 v w) = v * 4 + w div 16" by (simp add: byte1_64_def)
  have "w mod 16 * 16 + x div 4 < 256" if "x < 64" using that mod_less_divisor [of 16 w] by linarith
  then show "x < 64 \<Longrightarrow> byte (byte2_64 w x) = w mod 16 * 16 + x div 4" by (simp add: byte2_64_def)
  have "x mod 4 * 64 + y < 256" if "y < 64" using that mod_less_divisor [of 4 x] by linarith
  then show "y < 64 \<Longrightarrow> byte (byte3_64 x y) = x mod 4 * 64 + y" by (simp add: byte3_64_def)
qed

lemma digit_parts:
  fixes v w x y :: nat
  shows "w < 64 \<Longrightarrow> (v * 4 + w div 16) div 4 = v" "w < 64 \<Longrightarrow> (v * 4 + w div 16) mod 4 = w div 16"
    "x < 64 \<Longrightarrow> (w mod 16 * 16 + x div 4) div 16 = w mod 16"
    "x < 64 \<Longrightarrow> (w mod 16 * 16 + x div 4) mod 16 = x div 4"
    "y < 64 \<Longrightarrow> (x mod 4 * 64 + y) div 64 = x mod 4" "y < 64 \<Longrightarrow> (x mod 4 * 64 + y) mod 64 = y"
proof -
  have b: "w < 64 \<Longrightarrow> w div 16 < 4" "x < 64 \<Longrightarrow> x div 4 < 16" by linarith+
  show "w < 64 \<Longrightarrow> (v * 4 + w div 16) div 4 = v" "w < 64 \<Longrightarrow> (v * 4 + w div 16) mod 4 = w div 16"
    "x < 64 \<Longrightarrow> (w mod 16 * 16 + x div 4) div 16 = w mod 16"
    "x < 64 \<Longrightarrow> (w mod 16 * 16 + x div 4) mod 16 = x div 4"
    "y < 64 \<Longrightarrow> (x mod 4 * 64 + y) div 64 = x mod 4" "y < 64 \<Longrightarrow> (x mod 4 * 64 + y) mod 64 = y"
    using b by (simp_all only: pack_div pack_mod)
qed

lemma digits64_bytes64:
  "bytes64 True ds = Some bs \<Longrightarrow> \<forall>d \<in> set ds. d < 64 \<Longrightarrow> digits64 bs = ds"
proof (induction "True" ds arbitrary: bs rule: bytes64.induct)
  case (3 v w)
  then have "w mod 16 = 0" "bs = [byte1_64 v w]" by (auto split: if_splits)
  moreover have "w div 16 * 16 + w mod 16 = w" by simp
  ultimately show ?case using 3 by (simp add: digit_bytes digit_parts)
next
  case (4 v w x)
  then have "x mod 4 = 0" "bs = [byte1_64 v w, byte2_64 w x]" by (auto split: if_splits)
  moreover have "w div 16 * 16 + w mod 16 = w" "x div 4 * 4 + x mod 4 = x" by simp_all
  moreover have "w div 16 < 4" using 4(2) by (simp add: less_mult_imp_div_less)
  ultimately show ?case using 4 by (simp add: digit_bytes digit_parts)
next
  case (5 v w x y rest)
  then obtain cs where cs: "bytes64 True rest = Some cs"
    "bs = byte1_64 v w # byte2_64 w x # byte3_64 x y # cs" by auto
  moreover have "w div 16 * 16 + w mod 16 = w" "x div 4 * 4 + x mod 4 = x" by simp_all
  moreover have "w div 16 < 4" "x div 4 < 16" using 5(3) by (simp_all add: less_mult_imp_div_less)
  ultimately show ?case using 5 by (simp add: digit_bytes digit_parts)
qed auto

lemma base64_strict_canonical:
  assumes "base64_decode url True s = Some b" and "list_all (\<lambda>c. sym64_ok url c) s"
  shows "s = base64_encode url b"
proof -
  have nl: "\<not> newline_byte c" if c: "c \<in> set s" for c
  proof -
    obtain n where "val64 url c = Some n"
      using c assms(2) by (cases "val64 url c") (auto simp: list_all_iff sym64_ok_def)
    then have "sym64 url n = c \<and> n < 64" by (rule sym64_val64)
    then show ?thesis using sym64_newline [of n url] by auto
  qed
  then have s: "strip_newlines s = s" by (auto simp: strip_newlines_def filter_id_conv)
  define ds where "ds = map (\<lambda>c. the (val64 url c)) s"
  have ds: "\<forall>d \<in> set ds. d < 64" "map (sym64 url) ds = s"
    using assms(2) by (auto simp: ds_def list_all_iff sym64_ok_def intro!: map_idI dest!: sym64_val64)
  have "bytes64 True ds = Some b"
    using assms(1) by (auto simp: base64_decode_def s ds_def comp_def split: if_splits)
  then have "digits64 b = ds" by (rule digits64_bytes64) (rule ds(1))
  with ds(2) show ?thesis by (simp add: base64_encode_def)
qed

text \<open>The padded standard encoding.\<close>

definition base64_pad :: "nat \<Rightarrow> string" where
  "base64_pad n = replicate ((3 - n mod 3) mod 3) (CHR ''='')"

definition base64_std_encode :: "string \<Rightarrow> string" where
  "base64_std_encode bs = base64_encode False bs @ base64_pad (length bs)"

text \<open>Go reads four symbols at a time; padding may stand only at the end of the last group,
  after two symbols (\<open>==\<close>) or three (\<open>=\<close>).\<close>

definition base64_std_decode :: "string \<Rightarrow> string option" where
  "base64_std_decode s =
     (let t = strip_newlines s;
          body = takeWhile (\<lambda>c. c \<noteq> CHR ''='') t;
          pad = dropWhile (\<lambda>c. c \<noteq> CHR ''='') t
      in if (length body mod 4 = 0 \<and> pad = []) \<or> (length body mod 4 = 2 \<and> pad = ''=='') \<or>
            (length body mod 4 = 3 \<and> pad = ''='')
         then base64_decode False False body else None)"

lemma base64_std_roundtrip [simp]: "base64_std_decode (base64_std_encode bs) = Some bs"
proof -
  let ?e = "base64_encode False bs" and ?p = "base64_pad (length bs)"
  have ok: "val64 False c \<noteq> None" if "c \<in> set ?e" for c
    using base64_encode_alphabet [OF that] by (simp add: sym64_ok_def)
  have "\<not> newline_byte c \<and> c \<noteq> CHR ''=''" if "c \<in> set ?e" for c
    using ok [OF that]
    by (auto simp: val64_def newline_byte_def Let_def byte_def split: if_splits)
  moreover have "\<not> newline_byte c \<and> c = CHR ''=''" if "c \<in> set ?p" for c
    using that by (auto simp: base64_pad_def newline_byte_def byte_def)
  ultimately have strip: "strip_newlines (?e @ ?p) = ?e @ ?p"
    and body: "takeWhile (\<lambda>c. c \<noteq> CHR ''='') (?e @ ?p) = ?e"
    and pad: "dropWhile (\<lambda>c. c \<noteq> CHR ''='') (?e @ ?p) = ?p"
    by (auto simp: strip_newlines_def filter_id_conv takeWhile_append dropWhile_append
        takeWhile_eq_Nil_iff dropWhile_eq_self_iff)
       (metis list.set_sel(1))+
  have len: "length ?e mod 4 = (if length bs mod 3 = 0 then 0 else length bs mod 3 + 1)"
    by (induction bs rule: digits64.induct)
       (auto simp: base64_encode_def mod_Suc split: if_splits)
  have "(length ?e mod 4 = 0 \<and> ?p = []) \<or> (length ?e mod 4 = 2 \<and> ?p = ''=='') \<or>
      (length ?e mod 4 = 3 \<and> ?p = ''='')"
  proof -
    consider "length bs mod 3 = 0" | "length bs mod 3 = 1" | "length bs mod 3 = 2"
      by linarith
    then show ?thesis
      by cases (simp_all add: len base64_pad_def numeral_2_eq_2)
  qed
  then show ?thesis
    unfolding base64_std_decode_def base64_std_encode_def Let_def strip body pad by simp
qed

section \<open>Base32\<close>

definition sym32 :: "nat \<Rightarrow> char" where
  "sym32 n = (if n < 26 then chr (65 + n) else chr (24 + n))"

definition val32 :: "char \<Rightarrow> nat option" where
  "val32 c =
     (let b = byte c in
      if 65 \<le> b \<and> b \<le> 90 then Some (b - 65)
      else if 50 \<le> b \<and> b \<le> 55 then Some (b - 24)
      else None)"

lemma val32_sym32 [simp]: "n < 32 \<Longrightarrow> val32 (sym32 n) = Some n"
  by (auto simp: val32_def sym32_def Let_def)

text \<open>Five bytes are eight digits of five bits. Without padding Go's decoder takes what a
  short last group can give: two, four, five or seven digits are one to four bytes, and one,
  three or six digits are dropped without an error.\<close>

fun digits32 :: "string \<Rightarrow> nat list" where
  "digits32 [] = []"
| "digits32 [a] = [byte a div 8, byte a mod 8 * 4]"
| "digits32 [a, b] =
     [byte a div 8, byte a mod 8 * 4 + byte b div 64, byte b div 2 mod 32, byte b mod 2 * 16]"
| "digits32 [a, b, c] =
     [byte a div 8, byte a mod 8 * 4 + byte b div 64, byte b div 2 mod 32,
      byte b mod 2 * 16 + byte c div 16, byte c mod 16 * 2]"
| "digits32 [a, b, c, d] =
     [byte a div 8, byte a mod 8 * 4 + byte b div 64, byte b div 2 mod 32,
      byte b mod 2 * 16 + byte c div 16, byte c mod 16 * 2 + byte d div 128,
      byte d div 4 mod 32, byte d mod 4 * 8]"
| "digits32 (a # b # c # d # e # rest) =
     byte a div 8 # (byte a mod 8 * 4 + byte b div 64) # byte b div 2 mod 32 #
     (byte b mod 2 * 16 + byte c div 16) # (byte c mod 16 * 2 + byte d div 128) #
     byte d div 4 mod 32 # (byte d mod 4 * 8 + byte e div 32) # byte e mod 32 # digits32 rest"

definition byte1_32 :: "nat \<Rightarrow> nat \<Rightarrow> char" where
  "byte1_32 p q = chr (p * 8 + q div 4)"
definition byte2_32 :: "nat \<Rightarrow> nat \<Rightarrow> nat \<Rightarrow> char" where
  "byte2_32 q r s = chr (q mod 4 * 64 + r * 2 + s div 16)"
definition byte3_32 :: "nat \<Rightarrow> nat \<Rightarrow> char" where
  "byte3_32 s t = chr (s mod 16 * 16 + t div 2)"
definition byte4_32 :: "nat \<Rightarrow> nat \<Rightarrow> nat \<Rightarrow> char" where
  "byte4_32 t u v = chr (t mod 2 * 128 + u * 4 + v div 8)"
definition byte5_32 :: "nat \<Rightarrow> nat \<Rightarrow> char" where
  "byte5_32 v w = chr (v mod 8 * 32 + w)"

fun bytes32 :: "nat list \<Rightarrow> string" where
  "bytes32 (p # q # r # s # t # u # v # w # rest) =
     byte1_32 p q # byte2_32 q r s # byte3_32 s t # byte4_32 t u v # byte5_32 v w # bytes32 rest"
| "bytes32 [p, q, r, s, t, u, v] = [byte1_32 p q, byte2_32 q r s, byte3_32 s t, byte4_32 t u v]"
| "bytes32 [p, q, r, s, t] = [byte1_32 p q, byte2_32 q r s, byte3_32 s t]"
| "bytes32 [p, q, r, s] = [byte1_32 p q, byte2_32 q r s]"
| "bytes32 [p, q] = [byte1_32 p q]"
| "bytes32 _ = []"

definition base32_encode :: "string \<Rightarrow> string" where
  "base32_encode bs = map sym32 (digits32 bs)"

definition base32_decode :: "string \<Rightarrow> string option" where
  "base32_decode s =
     (let ds = map val32 (strip_newlines s) in
      if None \<in> set ds then None else Some (bytes32 (map the ds)))"

lemma rejoin:
  fixes n :: nat
  shows "n div 64 * 64 + n div 2 mod 32 * 2 + n mod 2 = n"
    and "n div 16 * 16 + n mod 16 = n" and "n div 128 * 128 + n div 4 mod 32 * 4 + n mod 4 = n"
    and "n div 32 * 32 + n mod 32 = n" and "n div 8 * 8 + n mod 8 = n"
proof -
  have "n mod 64 = 2 * (n div 2 mod 32) + n mod 2" and "n mod 128 = 4 * (n div 4 mod 32) + n mod 4"
    using mod_mult2_eq [of n 2 32] mod_mult2_eq [of n 4 32] by simp_all
  then show "n div 64 * 64 + n div 2 mod 32 * 2 + n mod 2 = n"
    and "n div 128 * 128 + n div 4 mod 32 * 4 + n mod 4 = n"
    by (metis add.assoc div_mult_mod_eq mult.commute)+
qed (rule div_mult_mod_eq)+

lemma byte32_recombine:
  "byte1_32 (byte a div 8) (byte a mod 8 * 4 + byte b div 64) = a"
  "byte1_32 (byte a div 8) (byte a mod 8 * 4) = a"
  "byte2_32 (byte a mod 8 * 4 + byte b div 64) (byte b div 2 mod 32)
     (byte b mod 2 * 16 + byte c div 16) = b"
  "byte2_32 (byte a mod 8 * 4 + byte b div 64) (byte b div 2 mod 32) (byte b mod 2 * 16) = b"
  "byte3_32 (byte b mod 2 * 16 + byte c div 16) (byte c mod 16 * 2 + byte d div 128) = c"
  "byte3_32 (byte b mod 2 * 16 + byte c div 16) (byte c mod 16 * 2) = c"
  "byte4_32 (byte c mod 16 * 2 + byte d div 128) (byte d div 4 mod 32)
     (byte d mod 4 * 8 + byte e div 32) = d"
  "byte4_32 (byte c mod 16 * 2 + byte d div 128) (byte d div 4 mod 32) (byte d mod 4 * 8) = d"
  "byte5_32 (byte d mod 4 * 8 + byte e div 32) (byte e mod 32) = e"
  unfolding byte1_32_def byte2_32_def byte3_32_def byte4_32_def byte5_32_def
    pack_div [OF byte_div(1)] pack_mod [OF byte_div(1)] pack_div [OF byte_div(2)]
    pack_mod [OF byte_div(2)] pack_div [OF byte_div(3)] pack_mod [OF byte_div(3)]
    pack_div [OF byte_div(4)] pack_mod [OF byte_div(4)]
  by (simp_all add: rejoin)

lemma bytes32_digits32 [simp]: "bytes32 (digits32 bs) = bs"
  by (induction bs rule: digits32.induct) (simp_all add: byte32_recombine)

lemma byte_parts32:
  "byte a div 8 < 32" "byte a mod 8 * 4 < 32" "byte a mod 8 * 4 + byte b div 64 < 32"
  "byte b mod 2 * 16 < 32" "byte b mod 2 * 16 + byte c div 16 < 32"
  "byte c mod 16 * 2 < 32" "byte c mod 16 * 2 + byte d div 128 < 32"
  "byte d mod 4 * 8 < 32" "byte d mod 4 * 8 + byte e div 32 < 32"
  using byte_lt [of a] byte_lt [of b] byte_lt [of c] byte_lt [of d] byte_lt [of e]
  by (simp_all, linarith+)

lemma digits32_less: "d \<in> set (digits32 bs) \<Longrightarrow> d < 32"
  by (induction bs rule: digits32.induct) (auto simp: byte_parts32)

lemma base32_decode_encode [simp]: "base32_decode (base32_encode bs) = Some bs"
proof -
  have clean: "\<not> newline_byte (sym32 d)" if "d < 32" for d
    using that by (auto simp: newline_byte_def sym32_def)
  then have "strip_newlines (base32_encode bs) = base32_encode bs"
    by (auto simp: strip_newlines_def base32_encode_def filter_id_conv dest: digits32_less)
  moreover have "map val32 (base32_encode bs) = map Some (digits32 bs)"
    by (auto simp: base32_encode_def dest: digits32_less)
  ultimately show ?thesis
    by (auto simp: base32_decode_def comp_def)
qed

end
