(* ===== verification/GoHash.thy ===== *)
theory GoHash
  imports GoCodec "HOL-Library.Word"
begin

unbundle bit_operations_syntax

text \<open>
  \<open>crypto/sha256\<close>, \<open>crypto/sha1\<close> and \<open>crypto/hmac\<close>, as FIPS 180-4 and RFC 2104 define
  them, over byte strings. The library stores hex SHA-256 digests of its tokens and computes
  TOTP codes with HMAC-SHA1; both are executable here, so a witness can run the real hash.
  The theorems elsewhere never unfold a hash: they use only that a digest has a fixed length
  and, where a property needs it, that no two of the tokens in play collide.
\<close>

type_synonym u32 = "32 word"

section \<open>Words and bytes\<close>

definition be_word :: "char \<Rightarrow> char \<Rightarrow> char \<Rightarrow> char \<Rightarrow> u32" where
  "be_word a b c d =
     push_bit 24 (of_char a) OR push_bit 16 (of_char b) OR push_bit 8 (of_char c) OR of_char d"

fun be_words :: "string \<Rightarrow> u32 list" where
  "be_words (a # b # c # d # rest) = be_word a b c d # be_words rest"
| "be_words _ = []"

text \<open>The \<open>k\<close> low bytes of a word, most significant first.\<close>

definition low_byte :: "'a :: len word \<Rightarrow> char" where
  "low_byte w = chr (unat (w AND 255))"

fun be_bytes :: "nat \<Rightarrow> 'a :: len word \<Rightarrow> string" where
  "be_bytes 0 w = []"
| "be_bytes (Suc k) w = be_bytes k (drop_bit 8 w) @ [low_byte w]"

lemma length_be_bytes [simp]: "length (be_bytes k w) = k"
  by (induction k arbitrary: w) auto

definition word_bytes :: "u32 list \<Rightarrow> string" where
  "word_bytes ws = concat (map (be_bytes 4) ws)"

lemma length_word_bytes [simp]: "length (word_bytes ws) = 4 * length ws"
  by (induction ws) (auto simp: word_bytes_def)

text \<open>The padding both hashes use: a one bit, zeros up to 56 modulo 64, the bit length.\<close>

definition sha_pad :: "string \<Rightarrow> string" where
  "sha_pad m =
     m @ [chr 128] @ replicate ((119 - length m mod 64) mod 64) (chr 0) @ be_bytes 8 (word_of_nat (8 * length m) :: 64 word)"

fun chunks :: "nat \<Rightarrow> nat \<Rightarrow> 'a list \<Rightarrow> 'a list list" where
  "chunks 0 k xs = []"
| "chunks (Suc fuel) k xs = (if xs = [] then [] else take k xs # chunks fuel k (drop k xs))"

text \<open>\<open>length xs\<close> chunks are always enough.\<close>

definition blocks :: "string \<Rightarrow> u32 list list" where
  "blocks m = (let ws = be_words (sha_pad m) in chunks (length ws) 16 ws)"

definition rotl :: "nat \<Rightarrow> u32 \<Rightarrow> u32" where
  "rotl n x = push_bit n x OR drop_bit (32 - n) x"

definition rotr :: "nat \<Rightarrow> u32 \<Rightarrow> u32" where
  "rotr n x = drop_bit n x OR push_bit (32 - n) x"

section \<open>SHA-256\<close>

text \<open>
  The constants are the leading fractional bits of the square and cube roots of the first
  primes: \<open>root_bits k n b a\<close> adds to \<open>a\<close> what is left of the \<open>k\<close>-th root of \<open>n\<close>, from bit \<open>b\<close> down.
\<close>

fun root_bits :: "nat \<Rightarrow> nat \<Rightarrow> nat \<Rightarrow> nat \<Rightarrow> nat" where
  "root_bits k n 0 a = a"
| "root_bits k n (Suc b) a = root_bits k n b (if (a + 2 ^ b) ^ k \<le> n then a + 2 ^ b else a)"

definition root_fraction :: "nat \<Rightarrow> nat \<Rightarrow> u32" where
  "root_fraction k p = of_nat (root_bits k (p * 2 ^ (32 * k)) 40 0)"

definition sha256_k :: "u32 list" where
  "sha256_k = map (root_fraction 3) [
     2, 3, 5, 7, 11, 13, 17, 19, 23, 29, 31, 37, 41, 43, 47, 53,
     59, 61, 67, 71, 73, 79, 83, 89, 97, 101, 103, 107, 109, 113, 127, 131,
     137, 139, 149, 151, 157, 163, 167, 173, 179, 181, 191, 193, 197, 199, 211, 223,
     227, 229, 233, 239, 241, 251, 257, 263, 269, 271, 277, 281, 283, 293, 307, 311]"

definition sha256_init :: "u32 list" where
  "sha256_init = map (root_fraction 2) [2, 3, 5, 7, 11, 13, 17, 19]"

text \<open>The message schedule, kept as the last sixteen words, newest first, while the rounds
  consume the oldest; one round of the compression function per constant.\<close>

definition sha256_extend :: "u32 list \<Rightarrow> u32" where
  "sha256_extend w =
     (let w15 = w ! 1; w2 = w ! 14;
          s0 = rotr 7 w15 XOR rotr 18 w15 XOR drop_bit 3 w15;
          s1 = rotr 17 w2 XOR rotr 19 w2 XOR drop_bit 10 w2
      in w ! 0 + s0 + w ! 9 + s1)"

fun sha256_round :: "u32 list \<Rightarrow> u32 \<Rightarrow> u32 \<Rightarrow> u32 list" where
  "sha256_round [a, b, c, d, e, f, g, h] k w =
     (let s1 = rotr 6 e XOR rotr 11 e XOR rotr 25 e;
          ch = (e AND f) XOR (NOT e AND g);
          t1 = h + s1 + ch + k + w;
          s0 = rotr 2 a XOR rotr 13 a XOR rotr 22 a;
          maj = (a AND b) XOR (a AND c) XOR (b AND c);
          t2 = s0 + maj
      in [t1 + t2, a, b, c, d + t1, e, f, g])"
| "sha256_round st k w = st"

fun sha256_rounds :: "u32 list \<Rightarrow> u32 list \<Rightarrow> u32 list \<Rightarrow> u32 list" where
  "sha256_rounds [] w st = st"
| "sha256_rounds (k # ks) w st =
     sha256_rounds ks (tl w @ [sha256_extend w]) (sha256_round st k (w ! 0))"

definition sha256_block :: "u32 list \<Rightarrow> u32 list \<Rightarrow> u32 list" where
  "sha256_block st w = map2 (+) st (sha256_rounds sha256_k w st)"

definition sha256 :: "string \<Rightarrow> string" where
  "sha256 m = word_bytes (foldl sha256_block sha256_init (blocks m))"

lemma length_sha256_round [simp]: "length (sha256_round st k w) = length st"
  by (induction st k w rule: sha256_round.induct) (auto simp: Let_def)

lemma length_sha256_rounds [simp]: "length (sha256_rounds ks w st) = length st"
  by (induction ks w st rule: sha256_rounds.induct) auto

lemma length_sha256_blocks: "length (foldl sha256_block st bs) = length st"
  by (induction bs arbitrary: st) (auto simp: sha256_block_def)

lemma length_sha256 [simp]: "length (sha256 m) = 32"
  by (simp add: sha256_def length_sha256_blocks sha256_init_def)

section \<open>SHA-1\<close>

definition sha1_init :: "u32 list" where
  "sha1_init = [0x67452301, 0xefcdab89, 0x98badcfe, 0x10325476, 0xc3d2e1f0]"

definition sha1_f :: "nat \<Rightarrow> u32 \<Rightarrow> u32 \<Rightarrow> u32 \<Rightarrow> u32" where
  "sha1_f t b c d =
     (if t < 20 then (b AND c) OR (NOT b AND d)
      else if t < 40 then b XOR c XOR d
      else if t < 60 then (b AND c) OR (b AND d) OR (c AND d)
      else b XOR c XOR d)"

definition sha1_k :: "nat \<Rightarrow> u32" where
  "sha1_k t =
     (if t < 20 then 0x5a827999 else if t < 40 then 0x6ed9eba1
      else if t < 60 then 0x8f1bbcdc else 0xca62c1d6)"

fun sha1_round :: "u32 list \<Rightarrow> nat \<Rightarrow> u32 \<Rightarrow> u32 list" where
  "sha1_round [a, b, c, d, e] t w =
     [rotl 5 a + sha1_f t b c d + e + sha1_k t + w, a, rotl 30 b, c, d]"
| "sha1_round st t w = st"

fun sha1_rounds :: "nat list \<Rightarrow> u32 list \<Rightarrow> u32 list \<Rightarrow> u32 list" where
  "sha1_rounds [] w st = st"
| "sha1_rounds (t # ts) w st =
     sha1_rounds ts (tl w @ [rotl 1 (w ! 13 XOR w ! 8 XOR w ! 2 XOR w ! 0)])
       (sha1_round st t (w ! 0))"

definition sha1_block :: "u32 list \<Rightarrow> u32 list \<Rightarrow> u32 list" where
  "sha1_block st w = map2 (+) st (sha1_rounds [0..<80] w st)"

definition sha1 :: "string \<Rightarrow> string" where
  "sha1 m = word_bytes (foldl sha1_block sha1_init (blocks m))"

lemma length_sha1_round [simp]: "length (sha1_round st t w) = length st"
  by (induction st t w rule: sha1_round.induct) auto

lemma length_sha1_rounds [simp]: "length (sha1_rounds ts w st) = length st"
  by (induction ts w st rule: sha1_rounds.induct) auto

lemma length_sha1_blocks: "length (foldl sha1_block st bs) = length st"
  by (induction bs arbitrary: st) (auto simp: sha1_block_def)

lemma length_sha1 [simp]: "length (sha1 m) = 20"
  by (simp add: sha1_def length_sha1_blocks sha1_init_def)

section \<open>HMAC\<close>

text \<open>Both hashes have blocks of 64 bytes.\<close>

definition xor_byte :: "nat \<Rightarrow> char \<Rightarrow> char" where
  "xor_byte n c = chr (n XOR byte c)"

definition hmac :: "(string \<Rightarrow> string) \<Rightarrow> string \<Rightarrow> string \<Rightarrow> string" where
  "hmac h key msg =
     (let k0 = (if 64 < length key then h key else key);
          k = k0 @ replicate (64 - length k0) (chr 0)
      in h (map (xor_byte 92) k @ h (map (xor_byte 54) k @ msg)))"

abbreviation hmac_sha1 :: "string \<Rightarrow> string \<Rightarrow> string" where
  "hmac_sha1 \<equiv> hmac sha1"

abbreviation hmac_sha256 :: "string \<Rightarrow> string \<Rightarrow> string" where
  "hmac_sha256 \<equiv> hmac sha256"

lemma length_hmac_sha1 [simp]: "length (hmac sha1 key msg) = 20"
  by (simp add: hmac_def Let_def)

lemma length_hmac_sha256 [simp]: "length (hmac sha256 key msg) = 32"
  by (simp add: hmac_def Let_def)

section \<open>Constant-time comparison\<close>

text \<open>\<open>subtle.ConstantTimeCompare\<close> and \<open>hmac.Equal\<close> return whether the two slices are equal
  (0 at once when the lengths differ). The accumulated XOR is zero exactly on equality; the
  timing is not modelled.\<close>

fun xor_acc :: "string \<Rightarrow> string \<Rightarrow> nat" where
  "xor_acc (a # as) (b # bs) = (byte a XOR byte b) OR xor_acc as bs"
| "xor_acc _ _ = 0"

definition constant_time_compare :: "string \<Rightarrow> string \<Rightarrow> int" where
  "constant_time_compare x y =
     (if length x \<noteq> length y then 0 else if xor_acc x y = 0 then 1 else 0)"

lemma or_eq_0_nat: "(a OR b = 0) \<longleftrightarrow> a = 0 \<and> b = (0 :: nat)"
  by (auto simp: bit_eq_iff bit_simps)

lemma xor_eq_0_nat: "(a XOR b = 0) \<longleftrightarrow> a = (b :: nat)"
  by (auto simp: bit_eq_iff bit_simps)

lemma xor_acc_0: "length x = length y \<Longrightarrow> xor_acc x y = 0 \<longleftrightarrow> x = y"
  by (induction x y rule: xor_acc.induct) (auto simp: or_eq_0_nat xor_eq_0_nat)

lemma constant_time_compare_1 [simp]: "constant_time_compare x y = 1 \<longleftrightarrow> x = y"
  by (auto simp: constant_time_compare_def xor_acc_0)

section \<open>The library's storage key\<close>

text \<open>\<open>hashString\<close> of \<open>domain/magiclink.go\<close>: the hex SHA-256 of a string.\<close>

definition hash_string :: "string \<Rightarrow> string" where
  "hash_string s = hex_encode (sha256 s)"

lemma length_hash_string [simp]: "length (hash_string s) = 64"
  by (simp add: hash_string_def)

lemma hash_string_nonempty [simp]: "hash_string s \<noteq> []"
  using length_hash_string [of s] by (metis list.size(3) zero_neq_numeral)

end
