(* ===== verification/Values.thy ===== *)
theory Values
  imports GoHash
begin

text \<open>
  The value objects of \<open>src/domain/values.go\<close>: identifiers, e-mail addresses and tokens, with
  their validating constructors. A Go struct with the one field \<open>v\<close> is a datatype with one
  constructor whose selector is the \<open>String\<close> method; the zero value holds the empty string.
  The lemmas say exactly what each constructor accepts and that it stores what it accepts.
\<close>

section \<open>Length bounds\<close>

definition maxUserIDLen :: nat where "maxUserIDLen = 255"
definition maxTenantIDLen :: nat where "maxTenantIDLen = 255"
definition maxWorkerIDLen :: nat where "maxWorkerIDLen = 255"
definition maxEmailLen :: nat where "maxEmailLen = 254"
definition maxTokenLen :: nat where "maxTokenLen = 4096"
definition maxLockoutKeyLen :: nat where "maxLockoutKeyLen = 255"

lemmas length_bounds =
  maxUserIDLen_def maxTenantIDLen_def maxWorkerIDLen_def maxEmailLen_def maxTokenLen_def
  maxLockoutKeyLen_def

section \<open>Identifiers\<close>

datatype UserID = UserID (UserID_String: string)

definition NewUserID :: "string \<Rightarrow> UserID res" where
  "NewUserID s =
     (if trim_space s = [] \<or> maxUserIDLen < length s then Inl ErrInvalidUserID
      else Inr (UserID s))"

definition UserID_IsZero :: "UserID \<Rightarrow> bool" where
  "UserID_IsZero u \<longleftrightarrow> UserID_String u = []"

datatype TenantID = TenantID (TenantID_String: string)

definition NewTenantID :: "string \<Rightarrow> TenantID res" where
  "NewTenantID s =
     (if trim_space s = [] \<or> maxTenantIDLen < length s then Inl ErrInvalidTenantID
      else Inr (TenantID s))"

definition TenantID_IsZero :: "TenantID \<Rightarrow> bool" where
  "TenantID_IsZero t \<longleftrightarrow> TenantID_String t = []"

lemma NewUserID_Inr:
  "NewUserID s = Inr u \<Longrightarrow> u = UserID s \<and> s \<noteq> [] \<and> length s \<le> 255 \<and> \<not> UserID_IsZero u"
  by (auto simp: NewUserID_def UserID_IsZero_def length_bounds split: if_splits)

lemma NewTenantID_Inr:
  "NewTenantID s = Inr t \<Longrightarrow> t = TenantID s \<and> s \<noteq> [] \<and> length s \<le> 255 \<and> \<not> TenantID_IsZero t"
  by (auto simp: NewTenantID_def TenantID_IsZero_def length_bounds split: if_splits)

section \<open>E-mail addresses\<close>

datatype Email = Email (Email_String: string)

definition at_sign :: char where "at_sign = CHR ''@''"
definition dot :: char where "dot = CHR ''.''"

definition NewEmail :: "(nat \<Rightarrow> nat) \<Rightarrow> string \<Rightarrow> Email res" where
  "NewEmail ul s0 =
     (let s = trim_space (to_lower ul s0);
          i = index_byte s at_sign
      in if i \<le> 0 \<or> i = int (length s) - 1 \<or> maxEmailLen < length s \<or>
            dot \<notin> set (drop (nat (i + 1)) s)
         then Inl ErrInvalidEmail
         else Inr (Email s))"

text \<open>What an accepted address looks like.\<close>

definition email_ok :: "string \<Rightarrow> bool" where
  "email_ok s \<longleftrightarrow>
     (\<exists>local domain.
        s = local @ at_sign # domain \<and> local \<noteq> [] \<and> at_sign \<notin> set local \<and>
        dot \<in> set domain \<and> length s \<le> 254)"

lemma NewEmail_shape:
  assumes "NewEmail ul s = Inr e"
  shows "email_ok (Email_String e) \<and> trim_space (Email_String e) = Email_String e"
proof -
  define t where "t = trim_space (to_lower ul s)"
  define i where "i = index_byte t at_sign"
  from assms have e: "e = Email t" and "0 < i" and "length t \<le> 254"
    and dot: "dot \<in> set (drop (nat (i + 1)) t)"
    by (auto simp: NewEmail_def Let_def length_bounds t_def i_def split: if_splits)
  then have "t = take (nat i) t @ at_sign # drop (Suc (nat i)) t"
    and "at_sign \<notin> set (take (nat i) t)"
    using index_byte_split [of t at_sign] by (auto simp: i_def)
  moreover have "take (nat i) t \<noteq> []"
    using \<open>0 < i\<close> dot by (cases t) auto
  moreover have "dot \<in> set (drop (Suc (nat i)) t)"
    using dot \<open>0 < i\<close> by (simp add: nat_add_distrib)
  ultimately have "email_ok t"
    using \<open>length t \<le> 254\<close> unfolding email_ok_def by blast
  with e show ?thesis by (simp add: t_def)
qed

lemma email_ok_accepted:
  assumes "email_ok s" and "trim_space (to_lower ul s) = s"
  shows "NewEmail ul s = Inr (Email s)"
proof -
  from assms(1) obtain local domain where
    s: "s = local @ at_sign # domain" "local \<noteq> []" "at_sign \<notin> set local" "dot \<in> set domain"
    and len: "length s \<le> 254"
    unfolding email_ok_def by blast
  have i: "index_byte s at_sign = int (length local)"
    unfolding s(1) using s(3) by (rule index_byte_append)
  have "domain \<noteq> []" using s(4) by auto
  moreover have "int (length s) - 1 = int (length local) + int (length domain)"
    using s(1) by simp
  ultimately have "index_byte s at_sign \<noteq> int (length s) - 1"
    by (simp add: i)
  moreover have "drop (nat (index_byte s at_sign + 1)) s = domain"
    unfolding i by (simp add: s(1) nat_add_distrib)
  then have "dot \<in> set (drop (nat (index_byte s at_sign + 1)) s)"
    using s(4) by simp
  moreover have "0 < index_byte s at_sign" using s(2) by (simp add: i)
  ultimately show ?thesis
    using len by (simp add: NewEmail_def assms(2) Let_def length_bounds)
qed

text \<open>
  Lower-casing leaves no ASCII capital behind, whatever the Unicode table does outside ASCII,
  as long as it maps nothing to an ASCII capital.
\<close>

lemma encode_rune_upper:
  assumes "c \<in> set (encode_rune r)" and "upper_byte c"
  shows "65 \<le> r \<and> r \<le> 90"
  using assms
  by (auto simp: encode_rune_def upper_byte_def Let_def rune_error_def split: if_splits)

lemma to_lower_no_upper:
  assumes "\<And>r. 128 \<le> r \<Longrightarrow> \<not> (65 \<le> ul r \<and> ul r \<le> 90)" and "c \<in> set (to_lower ul s)"
  shows "\<not> upper_byte c"
proof
  assume "upper_byte c"
  from assms(2) obtain r where "c \<in> set (encode_rune (lower_rune ul r))"
    by (auto simp: to_lower_def)
  from encode_rune_upper [OF this \<open>upper_byte c\<close>] assms(1) [of r] show False
    by (auto simp: lower_rune_def split: if_splits)
qed

lemma NewEmail_idem:
  assumes "NewEmail ul s = Inr e" and "ascii (Email_String e)"
    and "\<And>r. 128 \<le> r \<Longrightarrow> \<not> (65 \<le> ul r \<and> ul r \<le> 90)"
  shows "NewEmail ul (Email_String e) = Inr e"
proof -
  let ?t = "Email_String e"
  from assms(1) have t: "?t = trim_space (to_lower ul s)"
    by (auto simp: NewEmail_def Let_def split: if_splits)
  have "\<not> upper_byte c" if "c \<in> set ?t" for c
    using that set_trim_space [of "to_lower ul s"] to_lower_no_upper [OF assms(3)] t by auto
  with assms(2) have "to_lower ul ?t = ?t" by (intro to_lower_id) auto
  with NewEmail_shape [OF assms(1)] show ?thesis
    using email_ok_accepted [of ?t ul] by simp
qed

section \<open>Tokens\<close>

datatype Token = Token (Token_String: string)

definition zero_token :: Token where "zero_token = Token []"

definition tokenBytes :: nat where "tokenBytes = 32"

definition NewToken :: "'a env_scheme \<Rightarrow> Token res \<times> 'a env_scheme" where
  "NewToken w =
     and_then (rand_read tokenBytes w) (\<lambda>b w. (Inr (Token (base64_encode True b)), w))"

definition TokenFromString :: "string \<Rightarrow> Token res" where
  "TokenFromString s =
     (if s = [] \<or> maxTokenLen < length s then Inl ErrInvalidToken else Inr (Token s))"

text \<open>\<open>HashToken\<close> of \<open>domain/magiclink.go\<close>: the storage key of a token.\<close>

definition HashToken :: "Token \<Rightarrow> string" where
  "HashToken raw = hash_string (Token_String raw)"

lemma HashToken_nonempty [simp]: "HashToken t \<noteq> []"
  by (simp add: HashToken_def)

lemma length_HashToken [simp]: "length (HashToken t) = 64"
  by (simp add: HashToken_def)

text \<open>\<open>drawn w tok\<close>: the random source yields \<open>tok\<close> at some point of the run from \<open>w\<close> on.\<close>

definition drawn :: "'a env_scheme \<Rightarrow> Token \<Rightarrow> bool" where
  "drawn w tok \<longleftrightarrow> (\<exists>n f. pos w \<le> n \<and> rnd w n = Inr f \<and>
     tok = Token (base64_encode True (map f [0..<tokenBytes])))"

lemma drawn_mono: "drawn w tok \<Longrightarrow> env_le v w \<Longrightarrow> drawn v tok"
  unfolding drawn_def env_le_def by (metis le_trans)

lemma drawn_length: "drawn w tok \<Longrightarrow> length (Token_String tok) = 43"
  by (auto simp: drawn_def length_base64_encode tokenBytes_def)

lemma NewToken_cases:
  assumes "NewToken w = (r, w')"
  obtains (fail) msg where "r = Inl (ErrExternal msg)" and "w' = tick w" and "\<not> rand_ok w"
  | (token) tok where "r = Inr tok" and "drawn w tok" and "w' = tick w"
proof (cases "rnd w (pos w)")
  case (Inl msg)
  then have "\<not> rand_ok w" by (fastforce simp: rand_ok_def)
  with Inl assms fail show ?thesis by (auto simp: NewToken_def rand_read_def)
next
  case (Inr f)
  then have "drawn w (Token (base64_encode True (map f [0..<tokenBytes])))"
    unfolding drawn_def by blast
  with Inr assms token show ?thesis by (auto simp: NewToken_def rand_read_def)
qed

lemma TokenFromString_Inr:
  "TokenFromString s = Inr t \<Longrightarrow> t = Token s \<and> s \<noteq> [] \<and> length s \<le> 4096"
  by (auto simp: TokenFromString_def length_bounds split: if_splits)

lemma length_token_nonzero: "length (Token_String t) = 43 \<Longrightarrow> Token_String t \<noteq> []"
  by auto

end
