(* ===== verification/GoUrl.thy ===== *)
theory GoUrl
  imports GoCodec
begin

text \<open>
  What the code uses of \<open>net/url\<close> besides \<open>Parse\<close>: escaping a query component and a path segment,
  and \<open>url.Values\<close> (a Go map from names to lists of values) with its query text. What is encoded is
  decoded again (\<open>parse_query_encode\<close>). A query of more than ten thousand parameters, which newer
  versions of Go refuse, is decoded like any other.
\<close>

section \<open>Escaping\<close>

definition unreserved :: "char \<Rightarrow> bool" where
  "unreserved c \<longleftrightarrow>
     65 \<le> byte c \<and> byte c \<le> 90 \<or> 97 \<le> byte c \<and> byte c \<le> 122 \<or> 48 \<le> byte c \<and> byte c \<le> 57 \<or>
     c \<in> {CHR ''-'', CHR ''_'', CHR ''.'', CHR ''~''}"

definition percent_digit :: "nat \<Rightarrow> char" where
  "percent_digit n = (if n < 10 then chr (48 + n) else chr (55 + n))"

definition percent :: "char \<Rightarrow> string" where
  "percent c = [CHR ''%'', percent_digit (byte c div 16), percent_digit (byte c mod 16)]"

definition query_escape_char :: "char \<Rightarrow> string" where
  "query_escape_char c = (if unreserved c then [c] else if c = CHR '' '' then ''+'' else percent c)"

definition QueryEscape :: "string \<Rightarrow> string" where
  "QueryEscape s = concat (map query_escape_char s)"

definition PathEscape :: "string \<Rightarrow> string" where
  "PathEscape s =
     concat (map (\<lambda>c. if unreserved c \<or> c \<in> {CHR ''$'', CHR ''&'', CHR ''+'', CHR '':'', CHR ''='', CHR ''@''}
                      then [c] else percent c) s)"

fun unescape :: "bool \<Rightarrow> string \<Rightarrow> string option" where
  "unescape sp [] = Some []"
| "unescape sp (c # s) =
     (if c = CHR ''%'' then
        (case s of
           a # b # t \<Rightarrow>
             (case (hex_value a, hex_value b) of
                (Some x, Some y) \<Rightarrow> map_option (\<lambda>r. chr (x * 16 + y) # r) (unescape sp t)
              | _ \<Rightarrow> None)
         | _ \<Rightarrow> None)
      else map_option (\<lambda>r. (if sp \<and> c = CHR ''+'' then CHR '' '' else c) # r) (unescape sp s))"

lemma hex_value_percent: "n < 16 \<Longrightarrow> hex_value (percent_digit n) = Some n"
  by (auto simp: percent_digit_def hex_value_def)

lemma unescape_percent: "unescape sp (percent c @ s) = map_option (\<lambda>r. c # r) (unescape sp s)"
proof -
  have "byte c div 16 < 16" "byte c mod 16 < 16" using byte_div [of c] by auto
  moreover have "chr (byte c div 16 * 16 + byte c mod 16) = c" by (rule chr_eqI) simp
  ultimately show ?thesis by (simp add: percent_def hex_value_percent)
qed

lemma unreserved_plain: "unreserved c \<Longrightarrow> c \<noteq> CHR ''%'' \<and> c \<noteq> CHR ''+'' \<and> c \<noteq> CHR ''&'' \<and> c \<noteq> CHR ''='' \<and> c \<noteq> CHR '';'' \<and> c \<noteq> CHR ''/'' \<and> c \<noteq> CHR ''?''"
  by (auto simp: unreserved_def byte_def)

lemma unescape_query: "unescape True (QueryEscape s) = Some s"
  by (induction s) (auto simp: QueryEscape_def query_escape_char_def unescape_percent dest: unreserved_plain)

lemma unescape_path: "unescape False (PathEscape s) = Some s"
  by (induction s) (auto simp: PathEscape_def unescape_percent dest: unreserved_plain)

lemma QueryEscape_inject [simp]: "QueryEscape a = QueryEscape b \<longleftrightarrow> a = b"
  by (metis option.inject unescape_query)

lemma percent_chars: "x \<in> set (percent c) \<Longrightarrow> x = CHR ''%'' \<or> unreserved x"
proof -
  have d: "unreserved (percent_digit n)" if "n < 16" for n
    using that by (auto simp: percent_digit_def unreserved_def)
  have "byte c div 16 < 16" "byte c mod 16 < 16" using byte_div [of c] by auto
  then show "x \<in> set (percent c) \<Longrightarrow> x = CHR ''%'' \<or> unreserved x" using d by (auto simp: percent_def)
qed

lemma QueryEscape_chars: "x \<in> set (QueryEscape s) \<Longrightarrow> x = CHR ''%'' \<or> x = CHR ''+'' \<or> unreserved x"
  by (auto simp: QueryEscape_def query_escape_char_def dest: percent_chars split: if_splits)

lemma QueryEscape_separators:
  "CHR ''&'' \<notin> set (QueryEscape s)" "CHR ''='' \<notin> set (QueryEscape s)" "CHR '';'' \<notin> set (QueryEscape s)"
  by (auto dest!: QueryEscape_chars unreserved_plain)

lemma PathEscape_separators: "CHR ''/'' \<notin> set (PathEscape s)" "CHR ''?'' \<notin> set (PathEscape s)"
  by (auto simp: PathEscape_def dest!: percent_chars unreserved_plain split: if_splits)

section \<open>Values\<close>

type_synonym url_values = "(string, string list) gomap"

definition values_set :: "string \<Rightarrow> string \<Rightarrow> url_values \<Rightarrow> url_values" where
  "values_set k v q = gomap_set k [v] q"

definition values_get :: "url_values \<Rightarrow> string \<Rightarrow> string" where
  "values_get q k = (case gomap_get q k of Some (v # _) \<Rightarrow> v | _ \<Rightarrow> [])"

definition values_list :: "url_values \<Rightarrow> string \<Rightarrow> string list" where
  "values_list q k = (case gomap_get q k of None \<Rightarrow> [] | Some vs \<Rightarrow> vs)"

definition query_pair :: "string \<times> string \<Rightarrow> string" where
  "query_pair kv = QueryEscape (fst kv) @ ''='' @ QueryEscape (snd kv)"

definition sorted_pairs :: "url_values \<Rightarrow> (string \<times> string) list" where
  "sorted_pairs q = concat (map (\<lambda>k. map (Pair k) (values_list q k)) (sort (map fst q)))"

definition values_encode :: "url_values \<Rightarrow> string" where
  "values_encode q = join ''&'' (map query_pair (sorted_pairs q))"

definition add_value :: "string \<Rightarrow> string \<Rightarrow> url_values \<Rightarrow> url_values" where
  "add_value k v q = gomap_set k (values_list q k @ [v]) q"

definition add_piece :: "url_values \<Rightarrow> string \<Rightarrow> url_values" where
  "add_piece q piece =
     (if CHR '';'' \<in> set piece \<or> piece = [] then q
      else
        (let (k, v) = (case cut (CHR ''='') piece of Some kv \<Rightarrow> kv | None \<Rightarrow> (piece, [])) in
         case (unescape True k, unescape True v) of
           (Some k, Some v) \<Rightarrow> add_value k v q
         | _ \<Rightarrow> q))"

definition parse_query :: "string \<Rightarrow> url_values" where
  "parse_query s = foldl add_piece [] (split_on (CHR ''&'') s)"

lemma add_piece_pair: "add_piece q (query_pair (k, v)) = add_value k v q"
  using cut_append [of "CHR ''=''" "QueryEscape k" "QueryEscape v"]
  by (simp add: add_piece_def query_pair_def QueryEscape_separators unescape_query)

lemma values_list_add: "values_list (add_value k v q) n = values_list q n @ (if n = k then [v] else [])"
  by (auto simp: values_list_def add_value_def)

lemma values_list_foldl:
  "values_list (foldl add_piece q (map query_pair kvs)) n = values_list q n @ map snd (filter (\<lambda>kv. fst kv = n) kvs)"
proof (induction kvs arbitrary: q)
  case (Cons kv kvs)
  obtain k v where "kv = (k, v)" by fastforce
  with Cons show ?case by (simp add: add_piece_pair values_list_add)
qed simp

lemma sorted_pairs_filter:
  assumes "gomap_ok q"
  shows "map snd (filter (\<lambda>kv. fst kv = n) (sorted_pairs q)) = values_list q n"
proof -
  have "map snd (filter (\<lambda>kv. fst kv = n) (concat (map (\<lambda>k. map (Pair k) (values_list q k)) ks))) =
      (if n \<in> set ks then values_list q n else [])" if "distinct ks" for ks
    using that by (induction ks) (auto simp: comp_def filter_map filter_empty_conv)
  moreover have "distinct (sort (map fst q))" using assms by (simp add: gomap_ok_def)
  moreover have "values_list q n = []" if "n \<notin> set (map fst q)"
    using that map_of_eq_None_iff [of q n] by (simp add: values_list_def gomap_get_def)
  ultimately show ?thesis by (auto simp: sorted_pairs_def)
qed

lemma split_encode: "sorted_pairs q \<noteq> [] \<Longrightarrow> split_on (CHR ''&'') (values_encode q) = map query_pair (sorted_pairs q)"
  unfolding values_encode_def
  by (rule split_on_join) (auto simp: query_pair_def QueryEscape_separators)

text \<open>Decoding the query of some values gives the values of every name back.\<close>

lemma parse_query_encode:
  assumes "gomap_ok q"
  shows "values_list (parse_query (values_encode q)) n = values_list q n"
proof (cases "sorted_pairs q = []")
  case True
  then have "values_list q n = []" using sorted_pairs_filter [OF assms, of n] by simp
  moreover have "parse_query (values_encode q) = []"
    using True by (simp add: parse_query_def values_encode_def add_piece_def)
  ultimately show ?thesis by (simp add: values_list_def)
next
  case False
  have "values_list (parse_query (values_encode q)) n =
      values_list [] n @ map snd (filter (\<lambda>kv. fst kv = n) (sorted_pairs q))"
    unfolding parse_query_def split_encode [OF False] by (rule values_list_foldl)
  then show ?thesis using sorted_pairs_filter [OF assms] by (simp add: values_list_def)
qed

lemma values_ok_set: "gomap_ok q \<Longrightarrow> gomap_ok (values_set k v q)"
  by (simp add: gomap_ok_def values_set_def gomap_set_def distinct_update)

lemma values_list_set: "values_list (values_set k v q) n = (if n = k then [v] else values_list q n)"
  by (simp add: values_list_def values_set_def)

lemma values_get_list: "values_get q k = (case values_list q k of [] \<Rightarrow> [] | v # _ \<Rightarrow> v)"
  by (simp add: values_get_def values_list_def split: option.splits list.splits)

end
