(* ===== verification/Totp.thy ===== *)
theory Totp
  imports Values GoUrl
begin

unbundle bit_operations_syntax

text \<open>
  \<open>src/domain/totp.go\<close>: RFC 6238 one-time passwords. Counters are 64-bit and code values 32-bit
  words, as in the code, with its conversions between signed and unsigned; the division by a
  modulus that has wrapped to zero is a \<open>GoPanic\<close>. The reference definition \<open>rfc_hotp\<close> states
  RFC 4226 over natural numbers. The locale \<open>totp_store\<close> is the contract of the port; replay
  protection is proved inside it.
\<close>

type_synonym u64 = "64 word"

section \<open>Secrets\<close>

datatype TOTPSecret = TOTPSecret (TOTPSecret_String: string)

definition secretBytes :: nat where "secretBytes = 20"

definition NewTOTPSecret :: "(nat \<Rightarrow> nat) \<Rightarrow> 'a env_scheme \<Rightarrow> TOTPSecret res \<times> 'a env_scheme" where
  "NewTOTPSecret uu w =
     and_then (rand_read secretBytes w) (\<lambda>b w. (Inr (TOTPSecret (to_upper uu (base32_encode b))), w))"

definition TOTPSecretFromString :: "(nat \<Rightarrow> nat) \<Rightarrow> string \<Rightarrow> TOTPSecret res" where
  "TOTPSecretFromString uu s =
     (if base32_decode (to_upper uu s) = None \<or> s = [] then Inl ErrInvalidSecret
      else Inr (TOTPSecret (to_upper uu s)))"

text \<open>A generated secret is upper case already, so it is accepted unchanged.\<close>

lemma to_upper_base32 [simp]: "to_upper uu (base32_encode bs) = base32_encode bs"
proof (rule to_upper_id)
  fix c assume "c \<in> set (base32_encode bs)"
  then obtain d where "d < 32" "c = sym32 d" by (auto simp: base32_encode_def dest: digits32_less)
  then show "byte c < 128 \<and> \<not> (97 \<le> byte c \<and> byte c \<le> 122)" by (auto simp: sym32_def)
qed

lemma generated_secret_accepted:
  assumes "bs \<noteq> []"
  shows "TOTPSecretFromString uu (base32_encode bs) = Inr (TOTPSecret (base32_encode bs))"
proof -
  have "base32_encode bs \<noteq> []"
    using assms by (cases bs rule: digits32.cases) (auto simp: base32_encode_def)
  then show ?thesis by (simp add: TOTPSecretFromString_def)
qed

section \<open>Codes\<close>

record TOTPConfig =
  TOTPConfig_Period :: u64
  TOTPConfig_Digits :: int
  TOTPConfig_Skew :: u64
  TOTPConfig_Issuer :: string

definition DefaultTOTPConfig :: "string \<Rightarrow> TOTPConfig" where
  "DefaultTOTPConfig issuer =
     \<lparr>TOTPConfig_Period = 30, TOTPConfig_Digits = 6, TOTPConfig_Skew = 1,
      TOTPConfig_Issuer = issuer\<rparr>"

definition TOTPConfig_period :: "TOTPConfig \<Rightarrow> u64" where
  "TOTPConfig_period c = (if TOTPConfig_Period c = 0 then 30 else TOTPConfig_Period c)"

definition TOTPConfig_digits :: "TOTPConfig \<Rightarrow> int" where
  "TOTPConfig_digits c = (if TOTPConfig_Digits c = 0 then 6 else TOTPConfig_Digits c)"

text \<open>The query of the provisioning URI, and the URI.\<close>

definition provisioning_query :: "TOTPConfig \<Rightarrow> TOTPSecret \<Rightarrow> url_values" where
  "provisioning_query c secret =
     values_set ''algorithm'' ''SHA1''
       (values_set ''digits'' (decimal_int (TOTPConfig_digits c))
         (values_set ''period'' (decimal (unat (TOTPConfig_period c)))
           (values_set ''issuer'' (TOTPConfig_Issuer c)
             (values_set ''secret'' (TOTPSecret_String secret) []))))"

definition TOTPConfig_ProvisioningURI :: "TOTPConfig \<Rightarrow> TOTPSecret \<Rightarrow> string \<Rightarrow> string" where
  "TOTPConfig_ProvisioningURI c secret account =
     (let label = PathEscape (TOTPConfig_Issuer c @ '':'' @ account) in
      ''otpauth://totp/'' @ label @ ''?'' @ values_encode (provisioning_query c secret))"

text \<open>The loop \<open>for i := 0; i < digits; i++ { mod *= 10 }\<close> on a \<open>uint32\<close>.\<close>

fun pow10_loop :: "nat \<Rightarrow> u32 \<Rightarrow> u32" where
  "pow10_loop 0 m = m"
| "pow10_loop (Suc n) m = pow10_loop n (m * 10)"

text \<open>\<open>fmt.Sprintf("%0*d", width, v)\<close>: a negative width pads on the right with spaces, and a
  width beyond a million is refused by \<open>fmt\<close>.\<close>

definition pad_decimal :: "int \<Rightarrow> nat \<Rightarrow> string" where
  "pad_decimal width v =
     (let s = decimal v in
      if 1000000 < width \<or> width < -1000000 then ''%!(BADWIDTH)'' @ s
      else if 0 \<le> width then replicate (nat width - length s) (CHR ''0'') @ s
      else s @ replicate (nat (- width) - length s) (CHR '' ''))"

definition truncate_hmac :: "string \<Rightarrow> u32" where
  "truncate_hmac digest =
     (let offset = byte (digest ! (length digest - 1)) AND 15;
          at = (\<lambda>i. of_nat (byte (digest ! (offset + i))) :: u32)
      in push_bit 24 (at 0 AND 127) OR push_bit 16 (at 1) OR push_bit 8 (at 2) OR at 3)"

definition TOTPConfig_hotp :: "TOTPConfig \<Rightarrow> TOTPSecret \<Rightarrow> u64 \<Rightarrow> string res" where
  "TOTPConfig_hotp c secret counter =
     (case base32_decode (TOTPSecret_String secret) of
        None \<Rightarrow> Inl ErrInvalidSecret
      | Some key \<Rightarrow>
          let digest = hmac sha1 key (be_bytes 8 counter);
              value = truncate_hmac digest;
              m = pow10_loop (nat (TOTPConfig_digits c)) 1
          in if m = 0 then Inl (GoPanic ''integer divide by zero'')
             else Inr (pad_decimal (TOTPConfig_digits c) (unat (value mod m))))"

definition step_counter :: "TOTPConfig \<Rightarrow> time \<Rightarrow> u64" where
  "step_counter c t = (word_of_int (unix_seconds t) :: u64) div TOTPConfig_period c"

definition TOTPConfig_Generate :: "TOTPConfig \<Rightarrow> TOTPSecret \<Rightarrow> time \<Rightarrow> string res" where
  "TOTPConfig_Generate c secret t = TOTPConfig_hotp c secret (step_counter c t)"

text \<open>
  The loop over the steps from \<open>-skew\<close> to \<open>skew\<close>, an \<open>int64\<close> whose negation wraps. (With the one
  skew \<open>2 ^ 63 - 1\<close> the code's loop condition never fails and a wrong code makes it loop; the
  model stops after the last step.)
\<close>

fun validate_loop :: "TOTPConfig \<Rightarrow> TOTPSecret \<Rightarrow> string \<Rightarrow> int \<Rightarrow> int list \<Rightarrow> int res" where
  "validate_loop c secret code counter [] = Inl ErrInvalidTOTP"
| "validate_loop c secret code counter (i # is) =
     (case TOTPConfig_hotp c secret (word_of_int (counter + i)) of
        Inl e \<Rightarrow> Inl e
      | Inr want \<Rightarrow>
          if constant_time_compare want code = 1
          then Inr (sint (word_of_int (counter + i) :: u64))
          else validate_loop c secret code counter is)"

definition TOTPConfig_validateStep ::
  "TOTPConfig \<Rightarrow> TOTPSecret \<Rightarrow> string \<Rightarrow> time \<Rightarrow> int res" where
  "TOTPConfig_validateStep c secret code t =
     (let counter = sint (step_counter c t);
          skew = TOTPConfig_Skew c
      in validate_loop c secret code counter [sint (- skew) .. sint skew])"

definition TOTPConfig_Validate :: "TOTPConfig \<Rightarrow> TOTPSecret \<Rightarrow> string \<Rightarrow> time \<Rightarrow> unit res" where
  "TOTPConfig_Validate c secret code t =
     (case TOTPConfig_validateStep c secret code t of Inl e \<Rightarrow> Inl e | Inr _ \<Rightarrow> Inr ())"

section \<open>The reference: RFC 4226 over natural numbers\<close>

definition rfc_truncate :: "string \<Rightarrow> nat" where
  "rfc_truncate digest =
     (let offset = byte (digest ! 19) mod 16
      in (byte (digest ! offset) * 2 ^ 24 + byte (digest ! (offset + 1)) * 2 ^ 16 +
          byte (digest ! (offset + 2)) * 2 ^ 8 + byte (digest ! (offset + 3))) mod 2 ^ 31)"

definition rfc_hotp :: "nat \<Rightarrow> string \<Rightarrow> u64 \<Rightarrow> nat" where
  "rfc_hotp d key counter = rfc_truncate (hmac sha1 key (be_bytes 8 counter)) mod 10 ^ d"

definition usable_digits :: "TOTPConfig \<Rightarrow> bool" where
  "usable_digits c \<longleftrightarrow> 1 \<le> TOTPConfig_digits c \<and> TOTPConfig_digits c \<le> 9"

lemma unat_byte: "b < 256 \<Longrightarrow> unat (of_nat b :: u32) = b"
  by (simp add: unat_of_nat take_bit_nat_def)

lemma or_shift_nat:
  assumes "y < 2 ^ k"
  shows "push_bit k x OR y = x * 2 ^ k + (y :: nat)"
proof -
  have "\<not> bit (push_bit k x) n \<or> \<not> bit y n" for n
  proof (cases "k \<le> n")
    case True
    have "y < 2 ^ n" by (rule less_le_trans [OF assms power_increasing [OF True]]) simp
    then show ?thesis by (simp add: bit_iff_odd)
  qed (simp add: bit_push_bit_iff)
  then have "push_bit k x AND y = 0" by (intro bit_eqI) (auto simp: bit_and_iff)
  then have "push_bit k x + y = push_bit k x OR y" by (rule disjunctive_add_eq_or)
  then show ?thesis by (simp add: push_bit_eq_mult)
qed

lemma unat_parts:
  fixes a b c d :: nat
  assumes "a < 128" and "b < 256" and "c < 256" and "d < 256"
  shows "unat (push_bit 24 (of_nat a :: u32) OR push_bit 16 (of_nat b) OR push_bit 8 (of_nat c) OR of_nat d)
    = a * 2 ^ 24 + b * 2 ^ 16 + c * 2 ^ 8 + d"
proof -
  have "push_bit 8 c OR d = c * 2 ^ 8 + d"
    using assms by (intro or_shift_nat) simp
  moreover have "push_bit 16 b OR (c * 2 ^ 8 + d) = b * 2 ^ 16 + (c * 2 ^ 8 + d)"
    using assms by (intro or_shift_nat) simp
  moreover have "push_bit 24 a OR (b * 2 ^ 16 + (c * 2 ^ 8 + d)) = a * 2 ^ 24 + (b * 2 ^ 16 + (c * 2 ^ 8 + d))"
    using assms by (intro or_shift_nat) simp
  moreover have "push_bit 24 (of_nat a :: u32) OR push_bit 16 (of_nat b) OR push_bit 8 (of_nat c) OR of_nat d
      = of_nat (push_bit 24 a OR push_bit 16 b OR push_bit 8 c OR d)"
    by (simp add: of_nat_or_eq of_nat_push_bit)
  ultimately have "push_bit 24 (of_nat a :: u32) OR push_bit 16 (of_nat b) OR push_bit 8 (of_nat c) OR of_nat d
      = of_nat (a * 2 ^ 24 + (b * 2 ^ 16 + (c * 2 ^ 8 + d)))"
    by (simp only: or.assoc)
  moreover have "a * 2 ^ 24 + (b * 2 ^ 16 + (c * 2 ^ 8 + d)) < 2 ^ 32"
    using assms by simp
  moreover have "unat (of_nat n :: u32) = n" if "n < 2 ^ 32" for n
    using that by (simp add: unat_of_nat take_bit_nat_def)
  ultimately show ?thesis by (simp only: add.assoc)
qed

lemma truncate_unat:
  "unat (truncate_hmac digest) =
     (let offset = byte (digest ! (length digest - 1)) mod 16
      in (byte (digest ! offset) mod 128) * 2 ^ 24 + byte (digest ! (offset + 1)) * 2 ^ 16 +
         byte (digest ! (offset + 2)) * 2 ^ 8 + byte (digest ! (offset + 3)))"
proof -
  have low: "n AND 15 = n mod 16" for n :: nat
    using mask_eq_exp_minus_1 [of 4, where 'a = nat] take_bit_eq_mask [of 4 n]
    by (simp add: take_bit_nat_def)
  have seven: "(of_nat b :: u32) AND 127 = of_nat (b mod 128)" for b
    using mask_eq_exp_minus_1 [of 7, where 'a = u32] take_bit_eq_mask [of 7 "of_nat b :: u32"]
      of_nat_take_bit [of 7 b, where 'a = u32]
    by (simp add: take_bit_nat_def)
  show ?thesis
    unfolding truncate_hmac_def Let_def low seven add_0_right by (rule unat_parts) simp_all
qed

lemma truncate_rfc:
  assumes "length digest = 20"
  shows "unat (truncate_hmac digest) = rfc_truncate digest"
proof -
  have top: "(a * 2 ^ 24 + r) mod 2 ^ 31 = (a mod 128) * 2 ^ 24 + r" if "r < 2 ^ 24" for a r :: nat
  proof -
    have "a * 2 ^ 24 = (a div 128 * 128 + a mod 128) * 2 ^ 24" by simp
    also have "\<dots> = (a div 128) * 2 ^ 31 + (a mod 128) * 2 ^ 24"
      by (simp only: add_mult_distrib mult.assoc) simp
    finally have "a * 2 ^ 24 + r = (a div 128) * 2 ^ 31 + ((a mod 128) * 2 ^ 24 + r)" by simp
    moreover have "(a mod 128) * 2 ^ 24 + r < 2 ^ 31" using that by simp
    ultimately show ?thesis by (metis mod_less mod_mult_self3)
  qed
  have "b * 2 ^ 16 + c * 2 ^ 8 + d < 2 ^ 24" if "b < 256" "c < 256" "d < 256" for b c d :: nat
    using that by simp
  then have low: "byte x * 2 ^ 16 + byte y * 2 ^ 8 + byte z < 2 ^ 24" for x y z
    using byte_lt by blast
  have last: "length digest - 1 = 19" using assms by simp
  show ?thesis
    unfolding truncate_unat rfc_truncate_def Let_def last
    using top [OF low] by (simp add: add.assoc)
qed

lemma pow10_loop_eq: "pow10_loop n m = m * 10 ^ n"
  by (induction n arbitrary: m) (simp_all add: mult.assoc)

lemma unat_pow10:
  assumes "n \<le> 9"
  shows "unat (10 ^ n :: u32) = 10 ^ n"
proof -
  have "(10 :: nat) ^ n \<le> 10 ^ 9" using assms by (intro power_increasing) auto
  moreover have "(10 :: u32) ^ n = of_nat (10 ^ n)" by simp
  ultimately show ?thesis by (simp only: unat_of_nat) (simp add: take_bit_nat_def)
qed

text \<open>With one to nine digits the code is RFC 4226, padded to its length; it never panics.\<close>

lemma hotp_rfc:
  assumes "usable_digits c" and "base32_decode (TOTPSecret_String secret) = Some key"
  defines "d \<equiv> nat (TOTPConfig_digits c)"
  shows "TOTPConfig_hotp c secret counter = Inr (zero_padded d (rfc_hotp d key counter))"
proof -
  let ?v = "truncate_hmac (hmac sha1 key (be_bytes 8 counter))"
  have d: "d \<le> 9" "0 < d" "int d = TOTPConfig_digits c"
    using assms(1) by (auto simp: usable_digits_def d_def)
  have m: "unat (10 ^ d :: u32) = 10 ^ d" using d(1) by (rule unat_pow10)
  then have "(10 ^ d :: u32) \<noteq> 0" by (metis power_eq_0_iff unat_0 zero_neq_numeral)
  moreover have "unat (?v mod 10 ^ d) = rfc_hotp d key counter"
    unfolding unat_mod m rfc_hotp_def by (simp add: truncate_rfc)
  moreover have "pad_decimal (TOTPConfig_digits c) n = zero_padded d n" for n
    using d by (simp add: pad_decimal_def zero_padded_def d_def Let_def)
  ultimately show ?thesis
    by (simp add: TOTPConfig_hotp_def assms(2) Let_def pow10_loop_eq d_def [symmetric])
qed

lemma hotp_length:
  assumes "usable_digits c" and "TOTPConfig_hotp c secret counter = Inr code"
  shows "length code = nat (TOTPConfig_digits c)"
proof -
  from assms(2) obtain key where "base32_decode (TOTPSecret_String secret) = Some key"
    by (cases "base32_decode (TOTPSecret_String secret)") (auto simp: TOTPConfig_hotp_def)
  with assms hotp_rfc [OF assms(1) this] show ?thesis
    by (auto simp: usable_digits_def rfc_hotp_def intro!: length_zero_padded)
qed

text \<open>From 32 digits on the modulus has wrapped to zero and the code panics.\<close>

lemma pow10_wraps:
  assumes "32 \<le> n"
  shows "pow10_loop n 1 = 0"
proof -
  have "(10 :: u32) ^ 32 = 0" by simp
  then have "(10 :: u32) ^ n = 0" using assms by (metis le_Suc_ex mult_zero_left power_add)
  then show ?thesis by (simp add: pow10_loop_eq)
qed

lemma hotp_panics:
  assumes "32 \<le> TOTPConfig_digits c" and "base32_decode (TOTPSecret_String secret) = Some key"
  shows "TOTPConfig_hotp c secret counter = Inl (GoPanic ''integer divide by zero'')"
  using pow10_wraps [of "nat (TOTPConfig_digits c)"] assms
  by (simp add: TOTPConfig_hotp_def Let_def)

section \<open>Matching a code against the window\<close>

lemma validate_loop_Inr:
  "validate_loop c secret code n is = Inr step \<Longrightarrow>
     \<exists>i \<in> set is. step = sint (word_of_int (n + i) :: u64) \<and>
       TOTPConfig_hotp c secret (word_of_int (n + i)) = Inr code"
  by (induction "is") (auto split: sum.splits if_splits)

lemma validate_loop_match:
  assumes "usable_digits c" and "base32_decode (TOTPSecret_String secret) = Some key"
    and "i \<in> set is" and "TOTPConfig_hotp c secret (word_of_int (n + i)) = Inr code"
  shows "\<exists>step. validate_loop c secret code n is = Inr step"
  using assms(3)
proof (induction "is")
  case (Cons j js)
  obtain want where w: "TOTPConfig_hotp c secret (word_of_int (n + j)) = Inr want"
    using hotp_rfc [OF assms(1,2)] by blast
  show ?case
  proof (cases "want = code")
    case False
    then have "i \<noteq> j" using assms(4) w by auto
    with Cons w False show ?thesis by auto
  qed (simp add: w del: of_int_add)
qed simp

lemma validate_loop_error:
  assumes "usable_digits c" and "base32_decode (TOTPSecret_String secret) = Some key"
    and "validate_loop c secret code n is = Inl e"
  shows "e = ErrInvalidTOTP"
  using assms(3)
proof (induction "is")
  case (Cons j js)
  obtain want where "TOTPConfig_hotp c secret (word_of_int (n + j)) = Inr want"
    using hotp_rfc [OF assms(1,2)] by blast
  with Cons show ?case by (auto split: if_splits)
qed simp

text \<open>For instants after 1970 the counter is the number of whole periods since then.\<close>

lemma step_counter_sint:
  assumes "0 \<le> unix_seconds t" and "unix_seconds t < 2 ^ 63"
  shows "sint (step_counter c t) = unix_seconds t div uint (TOTPConfig_period c)"
proof -
  have "uint (word_of_int (unix_seconds t) :: u64) = unix_seconds t"
    using assms by (simp add: uint_word_of_int)
  then have u: "uint (step_counter c t) = unix_seconds t div uint (TOTPConfig_period c)"
    by (simp add: step_counter_def uint_div)
  have "unix_seconds t div k \<le> unix_seconds t" if "0 \<le> k" for k
    using that assms(1) by (cases "unix_seconds t"; cases k) (simp_all add: zdiv_int [symmetric])
  then have "unix_seconds t div uint (TOTPConfig_period c) \<le> unix_seconds t" by simp
  with u assms have "uint (step_counter c t) < 2 ^ 63" by simp
  moreover have "- (2 ^ 63) \<le> uint (step_counter c t)"
    by (rule order_trans [of _ 0]) simp_all
  ultimately have "signed_take_bit 63 (uint (step_counter c t)) = uint (step_counter c t)"
    by (intro signed_take_bit_int_eq_self)
  then show ?thesis using u by (simp add: sint_uint)
qed

lemma sint_neg:
  fixes s :: u64
  shows "sint (- s) = - sint s \<or> sint (- s) = sint s \<and> sint s = - (2 ^ 63)"
proof -
  have neg: "sint (- s) = signed_take_bit 63 (- sint s)"
    using sint_sbintrunc' [of "- sint s", where 'a = 64] by simp
  have "- (2 ^ 63) \<le> sint s" "sint s < 2 ^ 63"
    using sint_ge [of s] sint_lt [of s] by simp_all
  then show ?thesis
    by (cases "sint s = - (2 ^ 63)") (simp_all add: neg signed_take_bit_int_eq_self)
qed

text \<open>A code generated at \<open>t\<close> is accepted wherever the step is at most \<open>Skew\<close> away.\<close>

lemma generate_validates:
  assumes "usable_digits c" and "TOTPConfig_Generate c secret t = Inr code"
    and "\<bar>sint (step_counter c t) - sint (step_counter c t')\<bar> \<le> sint (TOTPConfig_Skew c)"
  shows "TOTPConfig_Validate c secret code t' = Inr ()"
proof -
  from assms(2) obtain key where key: "base32_decode (TOTPSecret_String secret) = Some key"
    by (cases "base32_decode (TOTPSecret_String secret)")
       (auto simp: TOTPConfig_Generate_def TOTPConfig_hotp_def)
  define i where "i = sint (step_counter c t) - sint (step_counter c t')"
  have "word_of_int (sint (step_counter c t') + i) = step_counter c t"
    by (simp add: i_def del: of_int_add)
  with assms(2) have m: "TOTPConfig_hotp c secret (word_of_int (sint (step_counter c t') + i)) = Inr code"
    by (simp add: TOTPConfig_Generate_def)
  have "i \<in> set [sint (- TOTPConfig_Skew c) .. sint (TOTPConfig_Skew c)]"
    using assms(3) sint_neg [of "TOTPConfig_Skew c"] by (auto simp: i_def)
  from validate_loop_match [OF assms(1) key this m] show ?thesis
    by (auto simp: TOTPConfig_Validate_def TOTPConfig_validateStep_def Let_def)
qed

text \<open>An accepted code is the code of a step of the window.\<close>

lemma validateStep_Inr:
  assumes "TOTPConfig_validateStep c secret code t = Inr step"
  shows "\<exists>i. \<bar>i\<bar> \<le> \<bar>sint (TOTPConfig_Skew c)\<bar> \<and>
    step = sint (word_of_int (sint (step_counter c t) + i) :: u64) \<and>
    TOTPConfig_hotp c secret (word_of_int step) = Inr code"
proof -
  from assms obtain i where "i \<in> set [sint (- TOTPConfig_Skew c) .. sint (TOTPConfig_Skew c)]"
    and i: "step = sint (word_of_int (sint (step_counter c t) + i) :: u64)"
      "TOTPConfig_hotp c secret (word_of_int (sint (step_counter c t) + i)) = Inr code"
    unfolding TOTPConfig_validateStep_def Let_def by (blast dest: validate_loop_Inr)
  from this(1) have "\<bar>i\<bar> \<le> \<bar>sint (TOTPConfig_Skew c)\<bar>"
    using sint_neg [of "TOTPConfig_Skew c"] by auto
  moreover have "(word_of_int step :: u64) = word_of_int (sint (step_counter c t) + i)"
    unfolding i(1) by (simp del: of_int_add)
  ultimately show ?thesis using i by metis
qed

section \<open>The port and the service\<close>

record 'w TOTPRepository =
  TOTPRepository_GetSecret :: "UserID \<Rightarrow> 'w \<Rightarrow> TOTPSecret res \<times> 'w"
  TOTPRepository_SetSecret :: "UserID \<Rightarrow> TOTPSecret \<Rightarrow> 'w \<Rightarrow> unit res \<times> 'w"
  TOTPRepository_DeleteSecret :: "UserID \<Rightarrow> 'w \<Rightarrow> unit res \<times> 'w"
  TOTPRepository_ConsumeStep :: "(UserID \<Rightarrow> int \<Rightarrow> 'w \<Rightarrow> bool res \<times> 'w) option"

record 'w TOTPService =
  TOTPService_repo :: "'w TOTPRepository"
  TOTPService_consumer :: "UserID \<Rightarrow> int \<Rightarrow> 'w \<Rightarrow> bool res \<times> 'w"
  TOTPService_cfg :: TOTPConfig

definition NewTOTPService :: "'w TOTPRepository \<Rightarrow> TOTPConfig \<Rightarrow> 'w TOTPService res" where
  "NewTOTPService repo cfg =
     (case TOTPRepository_ConsumeStep repo of
        None \<Rightarrow> Inl ErrTOTPNoReplayProtection
      | Some consumer \<Rightarrow>
          Inr \<lparr>TOTPService_repo = repo, TOTPService_consumer = consumer, TOTPService_cfg = cfg\<rparr>)"

definition TOTPService_Verify ::
  "('s world) TOTPService \<Rightarrow> UserID \<Rightarrow> string \<Rightarrow> 's world \<Rightarrow> unit res \<times> 's world" where
  "TOTPService_Verify s userID code w =
     and_then (TOTPRepository_GetSecret (TOTPService_repo s) userID w) (\<lambda>secret w.
       let (now, w) = read_clock w in
       case TOTPConfig_validateStep (TOTPService_cfg s) secret code now of
         Inl e \<Rightarrow> (Inl e, w)
       | Inr step \<Rightarrow>
           and_then (TOTPService_consumer s userID step w) (\<lambda>fresh w.
             if \<not> fresh then (Inl ErrTOTPReused, w) else (Inr (), w)))"

text \<open>
  The contract: a table of secrets and a table of last used steps, both by user. A step is
  accepted if it is past the last one, and recorded in the same atomic operation.
\<close>

type_synonym totp_tables = "(string \<rightharpoonup> string) \<times> (string \<rightharpoonup> int)"

definition fresh_step :: "(string \<rightharpoonup> int) \<Rightarrow> string \<Rightarrow> int \<Rightarrow> bool" where
  "fresh_step m u step \<longleftrightarrow> (case m u of None \<Rightarrow> True | Some used \<Rightarrow> used < step)"

definition secret_at :: "(nat \<Rightarrow> nat) \<Rightarrow> (string \<rightharpoonup> string) \<Rightarrow> string \<Rightarrow> TOTPSecret res" where
  "secret_at uu m u = (case m u of None \<Rightarrow> Inl ErrNotFound | Some s \<Rightarrow> TOTPSecretFromString uu s)"

locale totp_store =
  fixes uu :: "nat \<Rightarrow> nat"
    and P :: "('s world) TOTPRepository"
    and view :: "'s \<Rightarrow> totp_tables"
    and legal :: "'s \<Rightarrow> bool"
    and consumer :: "UserID \<Rightarrow> int \<Rightarrow> 's world \<Rightarrow> bool res \<times> 's world"
  assumes capable: "TOTPRepository_ConsumeStep P = Some consumer"
    and get_secret: "legal (store w) \<Longrightarrow>
      reads view legal w (secret_at uu (fst (view (store w))) (UserID_String u))
        (TOTPRepository_GetSecret P u w)"
    and set_secret: "legal (store w) \<Longrightarrow>
      writes view legal w
        ((fst (view (store w)))(UserID_String u \<mapsto> TOTPSecret_String sec), snd (view (store w))) ()
        (TOTPRepository_SetSecret P u sec w)"
    and consume: "legal (store w) \<Longrightarrow>
      (if fresh_step (snd (view (store w))) (UserID_String u) step
       then writes view legal w
              (fst (view (store w)), (snd (view (store w)))(UserID_String u \<mapsto> step)) True
       else reads view legal w (Inr False)) (consumer u step w)"
begin

lemma verify_effect:
  assumes "legal (store w)" and "NewTOTPService P cfg = Inr s"
    and "TOTPService_Verify s u code w = (r, w')"
  shows "settled legal w w' \<and>
    (case r of
       Inr _ \<Rightarrow> (\<exists>sec now step. secret_at uu (fst (view (store w))) (UserID_String u) = Inr sec \<and>
          read_between w now w' \<and> TOTPConfig_validateStep cfg sec code now = Inr step \<and>
          fresh_step (snd (view (store w))) (UserID_String u) step \<and>
          view (store w') = (fst (view (store w)), (snd (view (store w)))(UserID_String u \<mapsto> step)))
     | Inl _ \<Rightarrow> view (store w') = view (store w))"
proof -
  from assms(2) capable have s: "TOTPService_repo s = P" "TOTPService_consumer s = consumer"
    "TOTPService_cfg s = cfg" by (auto simp: NewTOTPService_def)
  obtain r1 w1 where g: "TOTPRepository_GetSecret P u w = (r1, w1)" by fastforce
  note run = assms(3) [unfolded TOTPService_Verify_def s g]
  from get_secret [OF assms(1), of u, unfolded g] show ?thesis
  proof (cases rule: readsE)
    case (failed e)
    with run show ?thesis by auto
  next
    case found
    show ?thesis
    proof (cases r1)
      case (Inl e)
      with run have "r = Inl e" and "w' = w1" by simp_all
      with found(2,3) show ?thesis by simp
    next
      case (Inr sec)
      define now where "now = clk w1 (pos w1)"
      have now: "read_between w now v" if "env_le (tick w1) v" for v :: "'a world"
        using that found
        by (intro read_between_clock [of w w1]) (auto simp: settled_def read_clock_def now_def)
      note run = run [unfolded Inr and_then_simps read_clock_def Let_def split_conv, folded now_def]
      have t: "legal (store (tick w1))" "settled legal w (tick w1)"
        "view (store (tick w1)) = view (store w)"
        using found settled_tick [OF found(3)] by (auto simp: settled_def)
      show ?thesis
      proof (cases "TOTPConfig_validateStep cfg sec code now")
        case (Inl e)
        with run t show ?thesis by auto
      next
        case step: (Inr step)
        obtain r2 w2 where c: "consumer u step (tick w1) = (r2, w2)" by fastforce
        note run = run [unfolded step sum.case c]
        show ?thesis
        proof (cases "fresh_step (snd (view (store w))) (UserID_String u) step")
          case True
          with consume [OF t(1), of u step] t(3) c
          have "writes view legal (tick w1)
              (fst (view (store w)), (snd (view (store w)))(UserID_String u \<mapsto> step)) True (r2, w2)"
            by simp
          then show ?thesis
          proof (cases rule: writesE)
            case written
            with run have "r = Inr ()" "w' = w2" by auto
            moreover have "secret_at uu (fst (view (store w))) (UserID_String u) = Inr sec"
              using found(1) Inr by simp
            ultimately show ?thesis
              using written settled_trans [OF t(2) written(3)] now [OF settledD(1) [OF written(3)]]
                step True by auto
          next
            case (failed e)
            with run t settled_trans [OF t(2) failed(5)] show ?thesis by auto
          qed
        next
          case False
          with consume [OF t(1), of u step] t(3) c
          have "reads view legal (tick w1) (Inr False) (r2, w2)" by simp
          then show ?thesis
            by (rule readsE) (use run t settled_trans [OF t(2)] in auto)
        qed
      qed
    qed
  qed
qed

end

section \<open>Replay\<close>

text \<open>
  \<open>verify_run\<close> makes a list of verifications and counts the successes of one user. Each success
  of a user moves the user's last used step forward, so a span of the clock admits no more
  successes than the steps its windows reach.
\<close>

fun verify_run ::
  "('s world) TOTPService \<Rightarrow> UserID \<Rightarrow> (UserID \<times> string) list \<Rightarrow> 's world \<Rightarrow> nat \<times> 's world" where
  "verify_run s u [] w = (0, w)"
| "verify_run s u ((v, code) # rest) w =
     (let (r, w) = TOTPService_Verify s v code w; (n, w) = verify_run s u rest w
      in (if v = u \<and> \<not> isl r then Suc n else n, w))"

definition last_used :: "(string \<rightharpoonup> int) \<Rightarrow> string \<Rightarrow> int \<Rightarrow> int" where
  "last_used m u low = (case m u of None \<Rightarrow> low - 1 | Some used \<Rightarrow> max used (low - 1))"

context totp_store
begin

lemma verify_run_bound:
  assumes "legal (store w)" and "NewTOTPService P cfg = Inr s"
    and "\<And>now sec code step. t0 \<le> now \<Longrightarrow> now < t1 \<Longrightarrow>
      TOTPConfig_validateStep cfg sec code now = Inr step \<Longrightarrow> low \<le> step \<and> step \<le> high"
    and "clock_from w t0" and "clock_before w t1"
    and "last_used (snd (view (store w))) (UserID_String u) low \<le> high"
  shows "int (fst (verify_run s u cs w)) \<le> high - last_used (snd (view (store w))) (UserID_String u) low"
  using assms(1,4-6)
proof (induction cs arbitrary: w)
  case (Cons c cs)
  obtain v code where c: "c = (v, code)" by fastforce
  obtain r w1 where ver: "TOTPService_Verify s v code w = (r, w1)" by fastforce
  note e = verify_effect [OF Cons.prems(1) assms(2) ver]
  then have l: "legal (store w1)" and le: "env_le w w1" by (auto simp: settled_def)
  let ?k = "UserID_String u"
  have count: "fst (verify_run s u (c # cs) w) =
      (if v = u \<and> \<not> isl r then Suc (fst (verify_run s u cs w1)) else fst (verify_run s u cs w1))"
    using c ver by (auto split: prod.splits)
  have IH: "int (fst (verify_run s u cs w1)) \<le> high - last_used (snd (view (store w1))) ?k low"
    if "last_used (snd (view (store w1))) ?k low \<le> high"
    using that Cons.IH [OF l clock_from_mono [OF Cons.prems(2) le] clock_before_mono [OF Cons.prems(3) le]]
    by simp
  show ?case
  proof (cases "v = u \<and> \<not> isl r")
    case True
    then obtain x where "r = Inr x" by (cases r) auto
    with e True obtain sec now step where now: "read_between w now w1"
      and st: "TOTPConfig_validateStep cfg sec code now = Inr step"
      and fresh: "fresh_step (snd (view (store w))) ?k step"
      and v1: "snd (view (store w1)) = (snd (view (store w)))(?k \<mapsto> step)" by auto
    from read_between_from [OF now Cons.prems(2)] read_between_before [OF now Cons.prems(3)] st
    have "low \<le> step" "step \<le> high" using assms(3) by blast+
    then have "last_used (snd (view (store w1))) ?k low = step"
      by (simp add: last_used_def v1)
    moreover have "last_used (snd (view (store w))) ?k low < step"
      using fresh \<open>low \<le> step\<close> by (auto simp: last_used_def fresh_step_def split: option.splits)
    ultimately show ?thesis using count True IH \<open>step \<le> high\<close> by simp
  next
    case False
    have "snd (view (store w1)) ?k = snd (view (store w)) ?k"
    proof (cases r)
      case (Inr x)
      with False have "UserID_String v \<noteq> ?k" by (metis UserID.expand sum.disc(2))
      with Inr e show ?thesis by auto
    qed (use e in auto)
    then have "last_used (snd (view (store w1))) ?k low = last_used (snd (view (store w))) ?k low"
      by (simp add: last_used_def)
    with count False IH Cons.prems(4) show ?thesis by auto
  qed
qed simp

end

end
