(* ===== verification/Passkey.thy ===== *)
theory Passkey
  imports Values
begin

text \<open>
  \<open>src/domain/passkey.go\<close>: WebAuthn credentials and their repository port. The sign counter keeps
  its 32 bits. The contract of the port is a table by credential identifier.
\<close>

record PasskeyCredential =
  PasskeyCredential_ID :: string
  PasskeyCredential_UserID :: UserID
  PasskeyCredential_PublicKey :: string
  PasskeyCredential_SignCount :: u32
  PasskeyCredential_Name :: string

definition PasskeyCredential_WithSignCount :: "PasskeyCredential \<Rightarrow> u32 \<Rightarrow> PasskeyCredential" where
  "PasskeyCredential_WithSignCount c n = c\<lparr>PasskeyCredential_SignCount := n\<rparr>"

record 'w PasskeyRepository =
  PasskeyRepository_Add :: "PasskeyCredential \<Rightarrow> 'w \<Rightarrow> unit res \<times> 'w"
  PasskeyRepository_ListByUser :: "UserID \<Rightarrow> 'w \<Rightarrow> PasskeyCredential list res \<times> 'w"
  PasskeyRepository_UpdateSignCount :: "string \<Rightarrow> u32 \<Rightarrow> 'w \<Rightarrow> unit res \<times> 'w"
  PasskeyRepository_Delete :: "string \<Rightarrow> 'w \<Rightarrow> unit res \<times> 'w"

type_synonym passkeys = "string \<rightharpoonup> PasskeyCredential"

definition user_passkeys :: "passkeys \<Rightarrow> UserID \<Rightarrow> PasskeyCredential set" where
  "user_passkeys m u = {c. PasskeyCredential_UserID c = u \<and> m (PasskeyCredential_ID c) = Some c}"

text \<open>\<open>passkey_counts\<close>: the part of the contract the ceremonies rely on.\<close>

locale passkey_counts =
  fixes P :: "('s world) PasskeyRepository"
    and view :: "'s \<Rightarrow> passkeys"
    and legal :: "'s \<Rightarrow> bool"
  assumes list_by_user: "legal (store w) \<Longrightarrow>
      \<exists>cs. set cs = user_passkeys (view (store w)) u \<and>
           reads view legal w (Inr cs) (PasskeyRepository_ListByUser P u w)"
    and update: "legal (store w) \<Longrightarrow>
      (case view (store w) i of
         None \<Rightarrow> reads view legal w (Inl ErrNotFound)
       | Some c \<Rightarrow>
           writes view legal w ((view (store w))(i \<mapsto> PasskeyCredential_WithSignCount c n)) ())
        (PasskeyRepository_UpdateSignCount P i n w)"

locale passkey_store = passkey_counts P view legal
  for P :: "('s world) PasskeyRepository" and view :: "'s \<Rightarrow> passkeys" and legal :: "'s \<Rightarrow> bool" +
  assumes add: "legal (store w) \<Longrightarrow>
      attempts view legal w ((view (store w))(PasskeyCredential_ID c \<mapsto> c))
        (\<lambda>e. view (store w) (PasskeyCredential_ID c) \<noteq> None) (PasskeyRepository_Add P c w)"
    and delete: "legal (store w) \<Longrightarrow>
      writes view legal w ((view (store w))(i := None)) () (PasskeyRepository_Delete P i w)"
    and keyed: "legal st \<Longrightarrow> view st i = Some c \<Longrightarrow> PasskeyCredential_ID c = i"
begin

text \<open>What was added is listed for its user, and for no other user.\<close>

lemma add_then_list:
  assumes "legal (store w)" and "PasskeyRepository_Add P c w = (Inr x, w1)"
    and "PasskeyRepository_ListByUser P u w1 = (Inr cs, w2)"
  shows "(c \<in> set cs \<longleftrightarrow> u = PasskeyCredential_UserID c) \<and>
    (\<forall>d \<in> set cs. PasskeyCredential_UserID d = u)"
proof -
  from add [OF assms(1), of c] assms(2) have l: "legal (store w1)"
    and v: "view (store w1) = (view (store w))(PasskeyCredential_ID c \<mapsto> c)"
    by (auto simp: attempts_def settled_def)
  from list_by_user [OF l, of u] assms(3) have "set cs = user_passkeys (view (store w1)) u"
    by (auto simp: reads_def)
  then show ?thesis by (auto simp: v user_passkeys_def)
qed

text \<open>An update moves one counter and nothing else.\<close>

lemma update_sign_count:
  assumes "legal (store w)" and "PasskeyRepository_UpdateSignCount P i n w = (Inr x, w')"
  shows "\<exists>c. view (store w) i = Some c \<and>
    view (store w') = (view (store w))(i \<mapsto> c\<lparr>PasskeyCredential_SignCount := n\<rparr>)"
  using update [OF assms(1), of i n] assms(2)
  by (auto simp: reads_def writes_def PasskeyCredential_WithSignCount_def split: option.splits)

end

end
