(* ===== verification/MemoryFactors.thy ===== *)
theory MemoryFactors
  imports Totp Passkey
begin

text \<open>
  The \<open>TOTPRepo\<close> and the \<open>PasskeyRepo\<close> of \<open>src/adapters/memory/memory.go\<close>, and their
  interpretations of the contracts of their ports. A byte slice is a value here, so
  \<open>clonePasskey\<close>, which keeps the store from sharing memory with a caller, is the identity.
\<close>

section \<open>TOTP secrets and used steps\<close>

record totp_maps =
  secrets :: "(string, string) gomap"
  steps :: "(string, int) gomap"

definition NewTOTPRepo :: totp_maps where "NewTOTPRepo = \<lparr>secrets = [], steps = []\<rparr>"

definition TOTPRepo_GetSecret ::
  "(nat \<Rightarrow> nat) \<Rightarrow> UserID \<Rightarrow> totp_maps world \<Rightarrow> TOTPSecret res \<times> totp_maps world" where
  "TOTPRepo_GetSecret uu userID =
     checked (\<lambda>m.
       (case gomap_get (secrets m) (UserID_String userID) of
          None \<Rightarrow> (Inl ErrNotFound, m)
        | Some enc \<Rightarrow> (TOTPSecretFromString uu enc, m)))"

definition TOTPRepo_SetSecret ::
  "UserID \<Rightarrow> TOTPSecret \<Rightarrow> totp_maps world \<Rightarrow> unit res \<times> totp_maps world" where
  "TOTPRepo_SetSecret userID secret =
     checked (\<lambda>m. (Inr (), m\<lparr>secrets :=
       gomap_set (UserID_String userID) (TOTPSecret_String secret) (secrets m)\<rparr>))"

definition TOTPRepo_DeleteSecret ::
  "UserID \<Rightarrow> totp_maps world \<Rightarrow> unit res \<times> totp_maps world" where
  "TOTPRepo_DeleteSecret userID =
     checked (\<lambda>m.
       (case gomap_get (secrets m) (UserID_String userID) of
          None \<Rightarrow> (Inl ErrNotFound, m)
        | Some _ \<Rightarrow>
            (Inr (), \<lparr>secrets = gomap_delete (UserID_String userID) (secrets m),
                      steps = gomap_delete (UserID_String userID) (steps m)\<rparr>)))"

definition TOTPRepo_ConsumeStep ::
  "UserID \<Rightarrow> int \<Rightarrow> totp_maps world \<Rightarrow> bool res \<times> totp_maps world" where
  "TOTPRepo_ConsumeStep userID step =
     checked (\<lambda>m.
       (case gomap_get (steps m) (UserID_String userID) of
          Some used \<Rightarrow>
            if step \<le> used then (Inr False, m)
            else (Inr True, m\<lparr>steps := gomap_set (UserID_String userID) step (steps m)\<rparr>)
        | None \<Rightarrow> (Inr True, m\<lparr>steps := gomap_set (UserID_String userID) step (steps m)\<rparr>)))"

definition TOTPRepo :: "(nat \<Rightarrow> nat) \<Rightarrow> (totp_maps world) TOTPRepository" where
  "TOTPRepo uu =
     \<lparr>TOTPRepository_GetSecret = TOTPRepo_GetSecret uu,
      TOTPRepository_SetSecret = TOTPRepo_SetSecret,
      TOTPRepository_DeleteSecret = TOTPRepo_DeleteSecret,
      TOTPRepository_ConsumeStep = Some TOTPRepo_ConsumeStep\<rparr>"

definition totp_view :: "totp_maps \<Rightarrow> totp_tables" where
  "totp_view m = (gomap_get (secrets m), gomap_get (steps m))"

definition totp_maps_ok :: "totp_maps \<Rightarrow> bool" where
  "totp_maps_ok m \<longleftrightarrow> gomap_ok (secrets m) \<and> gomap_ok (steps m)"

interpretation mt: totp_store uu "TOTPRepo uu" totp_view totp_maps_ok TOTPRepo_ConsumeStep
  for uu
proof
  note repo = TOTPRepo_def TOTPRepository.simps
  show "TOTPRepository_ConsumeStep (TOTPRepo uu) = Some TOTPRepo_ConsumeStep" by (simp add: repo)
  fix w :: "totp_maps world"
  assume ok: "totp_maps_ok (store w)"
  show "reads totp_view totp_maps_ok w (secret_at uu (fst (totp_view (store w))) (UserID_String u))
      (TOTPRepository_GetSecret (TOTPRepo uu) u w)" for u
    unfolding repo TOTPRepo_GetSecret_def
    by (rule checked_reads) (use ok in \<open>auto simp: secret_at_def totp_view_def split: option.splits\<close>)
  show "writes totp_view totp_maps_ok w
      ((fst (totp_view (store w)))(UserID_String u \<mapsto> TOTPSecret_String sec), snd (totp_view (store w))) ()
      (TOTPRepository_SetSecret (TOTPRepo uu) u sec w)" for u sec
    unfolding repo TOTPRepo_SetSecret_def
    by (rule checked_writes) (use ok in \<open>auto simp: totp_view_def totp_maps_ok_def\<close>)
  show "(if fresh_step (snd (totp_view (store w))) (UserID_String u) step
       then writes totp_view totp_maps_ok w
              (fst (totp_view (store w)), (snd (totp_view (store w)))(UserID_String u \<mapsto> step)) True
       else reads totp_view totp_maps_ok w (Inr False)) (TOTPRepo_ConsumeStep u step w)" for u step
  proof (cases "fresh_step (snd (totp_view (store w))) (UserID_String u) step")
    case True
    have "writes totp_view totp_maps_ok w
        (fst (totp_view (store w)), (snd (totp_view (store w)))(UserID_String u \<mapsto> step)) True
        (TOTPRepo_ConsumeStep u step w)"
      unfolding TOTPRepo_ConsumeStep_def
      by (rule checked_writes)
         (use ok True in \<open>auto simp: totp_view_def totp_maps_ok_def fresh_step_def split: option.splits\<close>)
    with True show ?thesis by simp
  next
    case False
    have "reads totp_view totp_maps_ok w (Inr False) (TOTPRepo_ConsumeStep u step w)"
      unfolding TOTPRepo_ConsumeStep_def
      by (rule checked_reads)
         (use ok False in \<open>auto simp: totp_view_def fresh_step_def split: option.splits\<close>)
    with False show ?thesis by simp
  qed
qed

section \<open>Passkeys\<close>

type_synonym passkey_map = "(string, PasskeyCredential) gomap"

definition clonePasskey :: "PasskeyCredential \<Rightarrow> PasskeyCredential" where
  "clonePasskey c = c"

definition PasskeyRepo_Add ::
  "PasskeyCredential \<Rightarrow> passkey_map world \<Rightarrow> unit res \<times> passkey_map world" where
  "PasskeyRepo_Add c = checked (\<lambda>m. (Inr (), gomap_set (PasskeyCredential_ID c) (clonePasskey c) m))"

definition PasskeyRepo_ListByUser ::
  "UserID \<Rightarrow> passkey_map world \<Rightarrow> PasskeyCredential list res \<times> passkey_map world" where
  "PasskeyRepo_ListByUser userID =
     checked (\<lambda>m. (Inr (map clonePasskey
        (filter (\<lambda>c. UserID_String (PasskeyCredential_UserID c) = UserID_String userID)
           (gomap_values m))), m))"

definition PasskeyRepo_UpdateSignCount ::
  "string \<Rightarrow> u32 \<Rightarrow> passkey_map world \<Rightarrow> unit res \<times> passkey_map world" where
  "PasskeyRepo_UpdateSignCount i count =
     checked (\<lambda>m.
       (case gomap_get m i of
          None \<Rightarrow> (Inl ErrNotFound, m)
        | Some c \<Rightarrow> (Inr (), gomap_set i (PasskeyCredential_WithSignCount c count) m)))"

definition PasskeyRepo_Delete :: "string \<Rightarrow> passkey_map world \<Rightarrow> unit res \<times> passkey_map world" where
  "PasskeyRepo_Delete i = checked (\<lambda>m. (Inr (), gomap_delete i m))"

definition PasskeyRepo :: "(passkey_map world) PasskeyRepository" where
  "PasskeyRepo =
     \<lparr>PasskeyRepository_Add = PasskeyRepo_Add,
      PasskeyRepository_ListByUser = PasskeyRepo_ListByUser,
      PasskeyRepository_UpdateSignCount = PasskeyRepo_UpdateSignCount,
      PasskeyRepository_Delete = PasskeyRepo_Delete\<rparr>"

definition passkey_map_ok :: "passkey_map \<Rightarrow> bool" where
  "passkey_map_ok m \<longleftrightarrow> gomap_ok m \<and> (\<forall>i c. gomap_get m i = Some c \<longrightarrow> PasskeyCredential_ID c = i)"

interpretation mp: passkey_store PasskeyRepo gomap_get passkey_map_ok
proof
  note repo = PasskeyRepo_def PasskeyRepository.simps
  fix w :: "passkey_map world"
  assume ok: "passkey_map_ok (store w)"
  show "attempts gomap_get passkey_map_ok w ((gomap_get (store w))(PasskeyCredential_ID c \<mapsto> c))
      (\<lambda>e. gomap_get (store w) (PasskeyCredential_ID c) \<noteq> None) (PasskeyRepository_Add PasskeyRepo c w)"
    for c
    unfolding repo PasskeyRepo_Add_def
    by (rule checked_attempts) (use ok in \<open>auto simp: passkey_map_ok_def clonePasskey_def\<close>)
  show "\<exists>cs. set cs = user_passkeys (gomap_get (store w)) u \<and>
      reads gomap_get passkey_map_ok w (Inr cs) (PasskeyRepository_ListByUser PasskeyRepo u w)" for u
  proof (intro exI conjI)
    let ?cs = "map clonePasskey
        (filter (\<lambda>c. UserID_String (PasskeyCredential_UserID c) = UserID_String u)
           (gomap_values (store w)))"
    have "set (gomap_values (store w)) = ran (gomap_get (store w))"
      using ok by (intro gomap_values_set) (simp add: passkey_map_ok_def)
    then show "set ?cs = user_passkeys (gomap_get (store w)) u"
      using ok by (auto simp: user_passkeys_def ran_def clonePasskey_def passkey_map_ok_def
          UserID.expand)
    show "reads gomap_get passkey_map_ok w (Inr ?cs) (PasskeyRepository_ListByUser PasskeyRepo u w)"
      unfolding repo PasskeyRepo_ListByUser_def by (rule checked_reads) (use ok in auto)
  qed
  show "(case gomap_get (store w) i of
         None \<Rightarrow> reads gomap_get passkey_map_ok w (Inl ErrNotFound)
       | Some c \<Rightarrow> writes gomap_get passkey_map_ok w
           ((gomap_get (store w))(i \<mapsto> PasskeyCredential_WithSignCount c n)) ())
        (PasskeyRepository_UpdateSignCount PasskeyRepo i n w)" for i n
  proof (cases "gomap_get (store w) i")
    case None
    have "reads gomap_get passkey_map_ok w (Inl ErrNotFound) (PasskeyRepo_UpdateSignCount i n w)"
      unfolding PasskeyRepo_UpdateSignCount_def by (rule checked_reads) (use ok None in auto)
    with None show ?thesis by (simp add: repo)
  next
    case (Some c)
    have "writes gomap_get passkey_map_ok w
        ((gomap_get (store w))(i \<mapsto> PasskeyCredential_WithSignCount c n)) ()
        (PasskeyRepo_UpdateSignCount i n w)"
      unfolding PasskeyRepo_UpdateSignCount_def
      by (rule checked_writes)
         (use ok Some in \<open>auto simp: passkey_map_ok_def PasskeyCredential_WithSignCount_def\<close>)
    with Some show ?thesis by (simp add: repo)
  qed
  show "writes gomap_get passkey_map_ok w ((gomap_get (store w))(i := None)) ()
      (PasskeyRepository_Delete PasskeyRepo i w)" for i
    unfolding repo PasskeyRepo_Delete_def
    by (rule checked_writes) (use ok in \<open>auto simp: passkey_map_ok_def\<close>)
next
  fix m :: passkey_map and i c
  assume "passkey_map_ok m" and "gomap_get m i = Some c"
  then show "PasskeyCredential_ID c = i" by (simp add: passkey_map_ok_def)
qed

end
