(* ===== verification/TotpProps.thy ===== *)
theory TotpProps
  imports MemoryFactors
begin

text \<open>
  The properties of the one-time passwords: agreement with RFC 4226, acceptance across clock
  skew, the bound on replays over the in-memory store, and the run-time panic of a
  configuration with too many digits.
\<close>

section \<open>Codes\<close>

definition demo_secret :: TOTPSecret where
  "demo_secret = TOTPSecret (base32_encode ''12345678901234567890'')"

lemma demo_secret_key [simp]:
  "base32_decode (TOTPSecret_String demo_secret) = Some ''12345678901234567890''"
  by (simp add: demo_secret_def)

lemma default_digits [simp]: "TOTPConfig_digits (DefaultTOTPConfig i) = 6"
  by (simp add: DefaultTOTPConfig_def TOTPConfig_digits_def)

lemma default_period [simp]: "TOTPConfig_period (DefaultTOTPConfig i) = 30"
  by (simp add: DefaultTOTPConfig_def TOTPConfig_period_def)

lemma default_skew [simp]: "TOTPConfig_Skew (DefaultTOTPConfig i) = 1"
  by (simp add: DefaultTOTPConfig_def)

lemma default_usable [simp]: "usable_digits (DefaultTOTPConfig i)"
  by (simp add: usable_digits_def)

text \<open>C18: for one to nine digits the code is the RFC 4226 value of the counter, computed over
  natural numbers, in exactly that many decimal digits.\<close>

theorem totp_matches_rfc:
  assumes "1 \<le> TOTPConfig_digits c" and "TOTPConfig_digits c \<le> 9"
    and "base32_decode (TOTPSecret_String secret) = Some key"
  shows "TOTPConfig_hotp c secret counter =
    Inr (zero_padded (nat (TOTPConfig_digits c)) (rfc_hotp (nat (TOTPConfig_digits c)) key counter))"
  using hotp_rfc [of c secret key counter] assms by (simp add: usable_digits_def)

theorem totp_matches_rfc_witness:
  "TOTPConfig_hotp (DefaultTOTPConfig ''x'') demo_secret 7 =
     Inr (zero_padded 6 (rfc_hotp 6 ''12345678901234567890'' 7))"
  using totp_matches_rfc [of "DefaultTOTPConfig ''x''" demo_secret "''12345678901234567890''" 7]
  by simp

text \<open>C27: a code that was generated has the configured length and is accepted at every instant
  whose time step is at most \<open>Skew\<close> steps away.\<close>

theorem totp_code_accepted:
  assumes "usable_digits c" and "base32_decode (TOTPSecret_String secret) = Some key"
    and "\<bar>sint (step_counter c t) - sint (step_counter c t')\<bar> \<le> sint (TOTPConfig_Skew c)"
  shows "\<exists>code. TOTPConfig_Generate c secret t = Inr code \<and>
    length code = nat (TOTPConfig_digits c) \<and> TOTPConfig_Validate c secret code t' = Inr ()"
proof -
  obtain code where code: "TOTPConfig_Generate c secret t = Inr code"
    using hotp_rfc [OF assms(1,2)] by (auto simp: TOTPConfig_Generate_def)
  moreover from this have "length code = nat (TOTPConfig_digits c)"
    using hotp_length [OF assms(1)] by (auto simp: TOTPConfig_Generate_def)
  ultimately show ?thesis using generate_validates [OF assms(1) code assms(3)] by blast
qed

theorem totp_code_accepted_witness:
  "\<exists>code. TOTPConfig_Generate (DefaultTOTPConfig ''x'') demo_secret 5 = Inr code \<and>
    length code = 6 \<and> TOTPConfig_Validate (DefaultTOTPConfig ''x'') demo_secret code 5 = Inr ()"
  using totp_code_accepted [of "DefaultTOTPConfig ''x''" demo_secret "''12345678901234567890''" 5 5]
  by simp

text \<open>With 32 digits or more the \<open>uint32\<close> modulus has wrapped to zero and every code panics
  with a division by zero.\<close>

theorem totp_many_digits_panic:
  assumes "32 \<le> TOTPConfig_digits c" and "base32_decode (TOTPSecret_String secret) = Some key"
  shows "TOTPConfig_Generate c secret t = Inl (GoPanic ''integer divide by zero'') \<and>
    TOTPConfig_Validate c secret code t \<noteq> Inr ()"
proof -
  have p: "TOTPConfig_hotp c secret n = Inl (GoPanic ''integer divide by zero'')" for n
    using assms by (rule hotp_panics)
  have "validate_loop c secret code n is \<noteq> Inr step" for n "is" step
    by (cases "is") (simp_all add: p)
  then show ?thesis
    by (auto simp: p TOTPConfig_Generate_def TOTPConfig_Validate_def TOTPConfig_validateStep_def Let_def
        split: sum.splits)
qed

theorem totp_many_digits_panic_witness:
  "TOTPConfig_Generate \<lparr>TOTPConfig_Period = 30, TOTPConfig_Digits = 32, TOTPConfig_Skew = 1,
     TOTPConfig_Issuer = []\<rparr> demo_secret 5 = Inl (GoPanic ''integer divide by zero'')"
  using totp_many_digits_panic [of "\<lparr>TOTPConfig_Period = 30, TOTPConfig_Digits = 32,
     TOTPConfig_Skew = 1, TOTPConfig_Issuer = []\<rparr>" demo_secret]
  by (simp add: TOTPConfig_digits_def)

section \<open>Replay\<close>

text \<open>The step a default verification accepts is one of the three around the clock's.\<close>

lemma default_step:
  assumes "TOTPConfig_validateStep (DefaultTOTPConfig i) secret code now = Inr step"
    and "30 \<le> unix_seconds now" and "unix_seconds now < 2 ^ 62"
  shows "\<bar>step - unix_seconds now div 30\<bar> \<le> 1"
proof -
  let ?n = "unix_seconds now div 30"
  have c: "sint (step_counter (DefaultTOTPConfig i) now) = ?n"
    using step_counter_sint [of now "DefaultTOTPConfig i"] assms(2,3) by simp
  from validateStep_Inr [OF assms(1)] obtain d where d: "\<bar>d\<bar> \<le> 1"
    and s: "step = sint (word_of_int (?n + d) :: u64)" by (auto simp: c simp del: of_int_add)
  have "0 \<le> ?n + d" "?n + d < 2 ^ 63" using d assms(2,3) by auto
  then have "sint (word_of_int (?n + d) :: u64) = ?n + d"
    using sint_sbintrunc' [of "?n + d", where 'a = 64]
    by (simp add: signed_take_bit_int_eq_self del: of_int_add)
  with s d show ?thesis by simp
qed

text \<open>C19: in a span of the clock one user passes at most as many verifications as the span has
  time steps, plus one on either side, whatever codes are presented by whom and in which order;
  within one step, at most three.\<close>

theorem totp_replay_bounded:
  assumes "totp_maps_ok (store w)" and "NewTOTPService (TOTPRepo uu) (DefaultTOTPConfig i) = Inr s"
    and "clock_from w t0" and "clock_before w t1" and "t0 < t1"
    and "30 \<le> unix_seconds t0" and "unix_seconds t1 < 2 ^ 62"
    and "gomap_get (steps (store w)) (UserID_String u) = None"
  shows "int (fst (verify_run s u tries w))
    \<le> unix_seconds (t1 - 1) div 30 - unix_seconds t0 div 30 + 3"
proof -
  let ?low = "unix_seconds t0 div 30 - 1" and ?high = "unix_seconds (t1 - 1) div 30 + 1"
  have mono: "unix_seconds a \<le> unix_seconds b" if "a \<le> b" for a b
    using that by (simp add: unix_seconds_def second_def zdiv_mono1)
  have window: "?low \<le> step \<and> step \<le> ?high"
    if "t0 \<le> now" "now < t1" "TOTPConfig_validateStep (DefaultTOTPConfig i) sec code now = Inr step"
    for now sec code step
  proof -
    have n: "unix_seconds t0 \<le> unix_seconds now" "unix_seconds now \<le> unix_seconds (t1 - 1)"
      "unix_seconds now \<le> unix_seconds t1"
      using that by (auto intro: mono)
    with assms(6,7) default_step [OF that(3)] have "\<bar>step - unix_seconds now div 30\<bar> \<le> 1" by simp
    moreover have "unix_seconds t0 div 30 \<le> unix_seconds now div 30"
      "unix_seconds now div 30 \<le> unix_seconds (t1 - 1) div 30"
      using n by (simp_all add: zdiv_mono1)
    ultimately show ?thesis by linarith
  qed
  have lu: "last_used (snd (totp_view (store w))) (UserID_String u) ?low = ?low - 1"
    using assms(8) by (simp add: last_used_def totp_view_def)
  have "unix_seconds t0 div 30 \<le> unix_seconds (t1 - 1) div 30"
    using mono [of t0 "t1 - 1"] assms(5) by (simp add: zdiv_mono1)
  with lu have "last_used (snd (totp_view (store w))) (UserID_String u) ?low \<le> ?high" by simp
  then have "int (fst (verify_run s u tries w))
      \<le> ?high - last_used (snd (totp_view (store w))) (UserID_String u) ?low"
    by (intro mt.verify_run_bound [OF assms(1,2) _ assms(3,4)] window)
  with lu show ?thesis by simp
qed

definition noon :: time where "noon = (62135596800 + 1700000000) * second"

theorem totp_replay_bounded_witness:
  "int (fst (verify_run (projr (NewTOTPService (TOTPRepo id) (DefaultTOTPConfig ''x''))) (UserID ''u'')
     (replicate 10 (UserID ''u'', ''123456'')) (calm noon 0 NewTOTPRepo))) \<le> 3"
proof -
  obtain s where s: "NewTOTPService (TOTPRepo id) (DefaultTOTPConfig ''x'') = Inr s"
    by (simp add: NewTOTPService_def TOTPRepo_def)
  have "totp_maps_ok NewTOTPRepo" "gomap_get (steps NewTOTPRepo) (UserID_String (UserID ''u'')) = None"
    by (simp_all add: totp_maps_ok_def NewTOTPRepo_def)
  with totp_replay_bounded [of "calm noon 0 NewTOTPRepo" id "''x''" s noon "noon + 1" "UserID ''u''"
      "replicate 10 (UserID ''u'', ''123456'')"] s
  show ?thesis by (simp add: noon_def unix_seconds_def second_def)
qed

section \<open>Provisioning\<close>

text \<open>A provisioning URI is read back: its path is one segment that unescapes to the issuer and the account,
  whatever characters they have, and its query decodes to the secret and the parameters of the codes.\<close>

lemma provisioning_uri_readable:
  "\<exists>label query. TOTPConfig_ProvisioningURI c secret account = ''otpauth://totp/'' @ label @ ''?'' @ query \<and>
    unescape False label = Some (TOTPConfig_Issuer c @ '':'' @ account) \<and>
    CHR ''/'' \<notin> set label \<and> CHR ''?'' \<notin> set label \<and>
    values_get (parse_query query) ''secret'' = TOTPSecret_String secret \<and>
    values_get (parse_query query) ''issuer'' = TOTPConfig_Issuer c \<and>
    values_get (parse_query query) ''period'' = decimal (unat (TOTPConfig_period c)) \<and>
    values_get (parse_query query) ''digits'' = decimal_int (TOTPConfig_digits c)"
proof -
  have ok: "gomap_ok (provisioning_query c secret)"
    unfolding provisioning_query_def by (intro values_ok_set) (simp add: gomap_ok_def)
  show ?thesis
    by (intro exI [of _ "PathEscape (TOTPConfig_Issuer c @ '':'' @ account)"] exI [of _ "values_encode (provisioning_query c secret)"])
       (simp add: TOTPConfig_ProvisioningURI_def unescape_path PathEscape_separators values_get_list
        parse_query_encode [OF ok], simp add: provisioning_query_def values_list_set)
qed

end
