(* ===== verification/Scope.thy ===== *)
theory Scope
  imports Values "HOL-Library.List_Lexorder" "HOL-Library.Char_ord"
begin

text \<open>
  The value objects of \<open>src/domain/workload.go\<close>: worker and key identifiers, permissions, scopes
  and workload tokens. A scope is a sorted list of canonical \<open>resource:action\<close> entries; the
  lemmas relate \<open>Allows\<close> to the set of permissions the entries denote, and show that canonical
  entries are stable under parsing, storage and printing.
\<close>

section \<open>Identifiers\<close>

datatype WorkerID = WorkerID (WorkerID_String: string)

definition NewWorkerID :: "string \<Rightarrow> WorkerID res" where
  "NewWorkerID s =
     (if trim_space s = [] \<or> maxWorkerIDLen < length s then Inl ErrInvalidWorkerID
      else Inr (WorkerID s))"

definition WorkerID_IsZero :: "WorkerID \<Rightarrow> bool" where
  "WorkerID_IsZero w \<longleftrightarrow> WorkerID_String w = []"

type_synonym KeyID = string

section \<open>Segments and entries\<close>

definition colon :: char where "colon = CHR '':''"
definition star :: string where "star = ''*''"

definition segment_rune :: "nat \<Rightarrow> bool" where
  "segment_rune c \<longleftrightarrow>
     (97 \<le> c \<and> c \<le> 122) \<or> (48 \<le> c \<and> c \<le> 57) \<or> c = 46 \<or> c = 95 \<or> c = 45"

definition validScopeSegment :: "string \<Rightarrow> bool" where
  "validScopeSegment seg \<longleftrightarrow>
     seg \<noteq> [] \<and> (seg = star \<or> list_all segment_rune (runes seg))"

definition splitScopeEntryAllowWildcard :: "(nat \<Rightarrow> nat) \<Rightarrow> string \<Rightarrow> (string \<times> string) res" where
  "splitScopeEntryAllowWildcard ul s0 =
     (let s = to_lower ul (trim_space s0) in
      case cut colon s of
        None \<Rightarrow> Inl ErrInvalidScope
      | Some (r, act) \<Rightarrow>
          if colon \<in> set act then Inl ErrInvalidScope
          else if \<not> validScopeSegment r \<or> \<not> validScopeSegment act then Inl ErrInvalidScope
          else Inr (r, act))"

definition splitScopeEntry :: "(nat \<Rightarrow> nat) \<Rightarrow> string \<Rightarrow> (string \<times> string) res" where
  "splitScopeEntry ul s =
     (case splitScopeEntryAllowWildcard ul s of
        Inl e \<Rightarrow> Inl e
      | Inr (r, act) \<Rightarrow> if r = star \<or> act = star then Inl ErrInvalidScope else Inr (r, act))"

section \<open>Permissions and scopes\<close>

record Permission =
  Permission_resource :: string
  Permission_action :: string

definition NewPermission :: "(nat \<Rightarrow> nat) \<Rightarrow> string \<Rightarrow> Permission res" where
  "NewPermission ul s =
     (case splitScopeEntry ul s of
        Inl e \<Rightarrow> Inl e
      | Inr (r, act) \<Rightarrow> Inr \<lparr>Permission_resource = r, Permission_action = act\<rparr>)"

definition Permission_String :: "Permission \<Rightarrow> string" where
  "Permission_String p = Permission_resource p @ colon # Permission_action p"

datatype Scope = Scope (Scope_Actions: "string list")

text \<open>The loop over the arguments; the set of a Go map, then sorted.\<close>

fun scope_set :: "(nat \<Rightarrow> nat) \<Rightarrow> string list \<Rightarrow> string list \<Rightarrow> string list res" where
  "scope_set ul [] acc = Inr acc"
| "scope_set ul (a # rest) acc =
     (case splitScopeEntryAllowWildcard ul a of
        Inl e \<Rightarrow> Inl e
      | Inr (r, act) \<Rightarrow> scope_set ul rest (List.insert (r @ colon # act) acc))"

definition NewScope :: "(nat \<Rightarrow> nat) \<Rightarrow> string list \<Rightarrow> Scope res" where
  "NewScope ul actions =
     (case scope_set ul actions [] of
        Inl e \<Rightarrow> Inl e
      | Inr entries \<Rightarrow>
          if entries = [] then Inl ErrInvalidScope else Inr (Scope (sort entries)))"

definition Scope_IsZero :: "Scope \<Rightarrow> bool" where
  "Scope_IsZero s \<longleftrightarrow> Scope_Actions s = []"

fun allows_loop :: "string list \<Rightarrow> Permission \<Rightarrow> bool" where
  "allows_loop [] p = False"
| "allows_loop (e # es) p =
     (case cut colon e of
        None \<Rightarrow> allows_loop es p
      | Some (r, act) \<Rightarrow>
          if (r = star \<or> r = Permission_resource p) \<and> (act = star \<or> act = Permission_action p)
          then True else allows_loop es p)"

definition Scope_Allows :: "Scope \<Rightarrow> Permission \<Rightarrow> bool" where
  "Scope_Allows s p = allows_loop (Scope_Actions s) p"

section \<open>Canonical entries\<close>

text \<open>
  \<open>segment\<close>: what a valid segment is, without runes. \<open>entry r a\<close>: the canonical text of a
  pair. \<open>covers\<close>: the permissions an entry stands for.
\<close>

definition segment :: "string \<Rightarrow> bool" where
  "segment seg \<longleftrightarrow> seg \<noteq> [] \<and> (seg = star \<or> (\<forall>c \<in> set seg. segment_rune (byte c)))"

definition entry :: "string \<Rightarrow> string \<Rightarrow> string" where
  "entry r a = r @ colon # a"

definition covers :: "string \<times> string \<Rightarrow> Permission \<Rightarrow> bool" where
  "covers e p \<longleftrightarrow> (fst e = star \<or> fst e = Permission_resource p) \<and>
     (snd e = star \<or> snd e = Permission_action p)"

lemma validScopeSegment_iff: "validScopeSegment seg \<longleftrightarrow> segment seg"
proof
  assume v: "validScopeSegment seg"
  show "segment seg"
  proof (cases "seg = star")
    case False
    with v have l: "\<forall>r \<in> set (runes seg). segment_rune r"
      by (simp add: validScopeSegment_def list_all_iff)
    then have "ascii seg" by (intro runes_small) (auto simp: segment_rune_def)
    with l v show ?thesis by (simp add: runes_ascii segment_def validScopeSegment_def)
  qed (simp add: segment_def star_def)
next
  assume s: "segment seg"
  show "validScopeSegment seg"
  proof (cases "seg = star")
    case False
    with s have l: "\<forall>c \<in> set seg. segment_rune (byte c)" by (simp add: segment_def)
    then have "ascii seg" by (auto simp: ascii_def segment_rune_def)
    with l s show ?thesis by (simp add: runes_ascii validScopeSegment_def segment_def list_all_iff)
  qed (simp add: validScopeSegment_def star_def)
qed

lemma segment_char:
  assumes "segment seg" and "c \<in> set seg"
  shows "byte c < 128 \<and> \<not> is_space (byte c) \<and> \<not> upper_byte c \<and> c \<noteq> colon \<and> byte c \<noteq> 10"
proof (cases "seg = star")
  case True
  with assms(2) have "c = CHR ''*''" by (simp add: star_def)
  then show ?thesis by (simp add: byte_def is_space_def upper_byte_def colon_def)
next
  case False
  with assms have "segment_rune (byte c)" by (auto simp: segment_def)
  moreover have "byte colon = 58" by (simp add: colon_def byte_def)
  ultimately show ?thesis by (auto simp: segment_rune_def is_space_def upper_byte_def)
qed

lemma colon_byte: "byte colon = 58"
  by (simp add: colon_def byte_def)

lemma entry_char:
  assumes "segment r" and "segment a" and "c \<in> set (entry r a)"
  shows "byte c < 128 \<and> \<not> is_space (byte c) \<and> \<not> upper_byte c \<and> byte c \<noteq> 10"
proof (cases "c = colon")
  case True
  then show ?thesis by (simp add: colon_byte is_space_def upper_byte_def)
next
  case False
  with assms show ?thesis using segment_char by (auto simp: entry_def)
qed

lemma entry_normal:
  assumes "segment r" and "segment a"
  shows "to_lower ul (trim_space (entry r a)) = entry r a"
proof -
  have "ascii (entry r a)" using entry_char [OF assms] by (auto simp: ascii_def)
  moreover from this have "trim_space (entry r a) = entry r a"
    using entry_char [OF assms] by (intro trim_space_id) auto
  ultimately show ?thesis using entry_char [OF assms] by (simp add: to_lower_id)
qed

lemma cut_entry: "segment r \<Longrightarrow> cut colon (entry r a) = Some (r, a)"
  unfolding entry_def using segment_char by (intro cut_append) auto

lemma entry_inject:
  "segment r \<Longrightarrow> segment r' \<Longrightarrow> entry r a = entry r' a' \<longleftrightarrow> r = r' \<and> a = a'"
  by (metis cut_entry option.inject prod.inject)

text \<open>Parsing accepts exactly the texts that normalise to an entry, and yields its halves.\<close>

lemma split_iff:
  "splitScopeEntryAllowWildcard ul s = Inr (r, a) \<longleftrightarrow>
     segment r \<and> segment a \<and> to_lower ul (trim_space s) = entry r a"
proof
  assume p: "splitScopeEntryAllowWildcard ul s = Inr (r, a)"
  then have "cut colon (to_lower ul (trim_space s)) = Some (r, a)"
    by (auto simp: splitScopeEntryAllowWildcard_def Let_def split: option.splits if_splits)
  with p cut_SomeD [OF this] show "segment r \<and> segment a \<and> to_lower ul (trim_space s) = entry r a"
    by (auto simp: splitScopeEntryAllowWildcard_def Let_def entry_def validScopeSegment_iff
        split: if_splits)
next
  assume e: "segment r \<and> segment a \<and> to_lower ul (trim_space s) = entry r a"
  then have "colon \<notin> set a" using segment_char by blast
  with e cut_entry show "splitScopeEntryAllowWildcard ul s = Inr (r, a)"
    by (simp add: splitScopeEntryAllowWildcard_def Let_def validScopeSegment_iff)
qed

lemma split_entry [simp]:
  "segment r \<Longrightarrow> segment a \<Longrightarrow> splitScopeEntryAllowWildcard ul (entry r a) = Inr (r, a)"
  by (simp add: split_iff entry_normal)

lemma NewPermission_iff:
  "NewPermission ul s = Inr p \<longleftrightarrow>
     segment (Permission_resource p) \<and> segment (Permission_action p) \<and>
     Permission_resource p \<noteq> star \<and> Permission_action p \<noteq> star \<and>
     to_lower ul (trim_space s) = Permission_String p"
proof -
  have "NewPermission ul s = Inr p \<longleftrightarrow>
      splitScopeEntryAllowWildcard ul s = Inr (Permission_resource p, Permission_action p) \<and>
      Permission_resource p \<noteq> star \<and> Permission_action p \<noteq> star"
    by (cases p) (auto simp: NewPermission_def splitScopeEntry_def split: sum.splits if_splits)
  then show ?thesis
    by (auto simp: split_iff entry_def Permission_String_def)
qed

lemma NewPermission_print:
  assumes "NewPermission ul s = Inr p"
  shows "NewPermission ul (Permission_String p) = Inr p"
  using assms entry_normal [of "Permission_resource p" "Permission_action p" ul]
  by (simp add: NewPermission_iff Permission_String_def entry_def)

section \<open>What a scope grants\<close>

definition parsed :: "(nat \<Rightarrow> nat) \<Rightarrow> string list \<Rightarrow> string set" where
  "parsed ul xs = {entry r a | r a. \<exists>x \<in> set xs. splitScopeEntryAllowWildcard ul x = Inr (r, a)}"

definition scope_ok :: "Scope \<Rightarrow> bool" where
  "scope_ok s \<longleftrightarrow> Scope_Actions s \<noteq> [] \<and> sorted (Scope_Actions s) \<and> distinct (Scope_Actions s) \<and>
     (\<forall>e \<in> set (Scope_Actions s). \<exists>r a. segment r \<and> segment a \<and> e = entry r a)"

lemma scope_set_Inr:
  "scope_set ul xs acc = Inr out \<Longrightarrow> set out = set acc \<union> parsed ul xs \<and>
     (distinct acc \<longrightarrow> distinct out) \<and>
     (\<forall>x \<in> set xs. \<exists>e. splitScopeEntryAllowWildcard ul x = Inr e)"
proof (induction xs arbitrary: acc)
  case Nil
  then show ?case by (auto simp: parsed_def)
next
  case (Cons x xs)
  then obtain r a where x: "splitScopeEntryAllowWildcard ul x = Inr (r, a)"
    and rest: "scope_set ul xs (List.insert (r @ colon # a) acc) = Inr out"
    by (auto split: sum.splits)
  have "parsed ul (x # xs) = insert (entry r a) (parsed ul xs)"
    using x by (auto simp: parsed_def)
  with Cons.IH [OF rest] x show ?case by (auto simp: entry_def)
qed

lemma scope_set_ok:
  "(\<And>x. x \<in> set xs \<Longrightarrow> \<exists>e. splitScopeEntryAllowWildcard ul x = Inr e) \<Longrightarrow>
   \<exists>out. scope_set ul xs acc = Inr out"
proof (induction xs arbitrary: acc)
  case (Cons x xs)
  from Cons.prems [of x] obtain e where "splitScopeEntryAllowWildcard ul x = Inr e"
    by (auto simp del: split_paired_Ex)
  moreover have "\<exists>out. scope_set ul xs acc' = Inr out" for acc'
    using Cons by simp
  ultimately show ?case by (cases e) simp
qed simp

lemma NewScope_Inr:
  assumes "NewScope ul xs = Inr s"
  shows "scope_ok s \<and> set (Scope_Actions s) = parsed ul xs"
proof -
  from assms obtain out where out: "scope_set ul xs [] = Inr out" "out \<noteq> []" "s = Scope (sort out)"
    by (auto simp: NewScope_def split: sum.splits if_splits)
  have nonempty: "sort out \<noteq> []" using out(2) by (metis set_empty set_sort)
  from scope_set_Inr [OF out(1)] have "set out = parsed ul xs" and "distinct out" by auto
  moreover have "\<exists>r a. segment r \<and> segment a \<and> e = entry r a" if "e \<in> parsed ul xs" for e
    using that by (auto simp: parsed_def split_iff)
  ultimately show ?thesis
    using out(3) nonempty by (auto simp: scope_ok_def)
qed

lemma allows_loop_iff:
  "allows_loop es p \<longleftrightarrow> (\<exists>e \<in> set es. \<exists>c. cut colon e = Some c \<and> covers c p)"
proof (induction es)
  case (Cons e es)
  show ?case
  proof (cases "cut colon e")
    case None
    with Cons show ?thesis by (simp del: cut_None)
  next
    case (Some c)
    then have "allows_loop (e # es) p \<longleftrightarrow> covers c p \<or> allows_loop es p"
      by (cases c) (simp add: covers_def)
    with Cons Some show ?thesis by auto
  qed
qed simp

lemma scope_ok_Allows:
  assumes "scope_ok s"
  shows "Scope_Allows s p \<longleftrightarrow>
    (\<exists>r a. segment r \<and> segment a \<and> entry r a \<in> set (Scope_Actions s) \<and> covers (r, a) p)"
proof
  assume "Scope_Allows s p"
  then obtain e c where "e \<in> set (Scope_Actions s)" "cut colon e = Some c" "covers c p"
    by (auto simp: Scope_Allows_def allows_loop_iff)
  with assms cut_entry show "\<exists>r a. segment r \<and> segment a \<and> entry r a \<in> set (Scope_Actions s) \<and> covers (r, a) p"
    by (fastforce simp: scope_ok_def)
next
  assume "\<exists>r a. segment r \<and> segment a \<and> entry r a \<in> set (Scope_Actions s) \<and> covers (r, a) p"
  then show "Scope_Allows s p"
    using cut_entry unfolding Scope_Allows_def allows_loop_iff by blast
qed

lemma NewScope_Allows:
  assumes "NewScope ul xs = Inr s"
  shows "Scope_Allows s p \<longleftrightarrow>
    (\<exists>x \<in> set xs. \<exists>c. splitScopeEntryAllowWildcard ul x = Inr c \<and> covers c p)"
proof -
  from NewScope_Inr [OF assms] have ok: "scope_ok s" and set: "set (Scope_Actions s) = parsed ul xs"
    by auto
  show ?thesis
  proof
    assume "Scope_Allows s p"
    then obtain r a where "segment r" "entry r a \<in> parsed ul xs" and c: "covers (r, a) p"
      using scope_ok_Allows [OF ok] set by auto
    then obtain x r' a' where "x \<in> set xs" and x: "splitScopeEntryAllowWildcard ul x = Inr (r', a')"
      and "entry r a = entry r' a'" by (auto simp: parsed_def)
    with \<open>segment r\<close> have "r' = r" and "a' = a" by (auto simp: split_iff entry_inject)
    with \<open>x \<in> set xs\<close> x c show "\<exists>x \<in> set xs. \<exists>c. splitScopeEntryAllowWildcard ul x = Inr c \<and> covers c p"
      by auto
  next
    assume "\<exists>x \<in> set xs. \<exists>c. splitScopeEntryAllowWildcard ul x = Inr c \<and> covers c p"
    then obtain x r a where "x \<in> set xs" and x: "splitScopeEntryAllowWildcard ul x = Inr (r, a)"
      and "covers (r, a) p" by auto
    moreover from this have "entry r a \<in> parsed ul xs" by (auto simp: parsed_def)
    moreover from x have "segment r" "segment a" by (simp_all add: split_iff)
    ultimately show "Scope_Allows s p" using scope_ok_Allows [OF ok] set by blast
  qed
qed

text \<open>A canonical scope is a fixed point of its constructor.\<close>

lemma parsed_canonical:
  assumes "\<And>e. e \<in> set es \<Longrightarrow> \<exists>r a. segment r \<and> segment a \<and> e = entry r a"
  shows "parsed ul es = set es"
proof (rule equalityI)
  show "set es \<subseteq> parsed ul es"
  proof
    fix e assume e: "e \<in> set es"
    with assms obtain r a where "segment r" "segment a" "e = entry r a" by blast
    with e split_entry show "e \<in> parsed ul es" unfolding parsed_def by blast
  qed
  show "parsed ul es \<subseteq> set es"
  proof
    fix e assume "e \<in> parsed ul es"
    then obtain x r a where "x \<in> set es" and "splitScopeEntryAllowWildcard ul x = Inr (r, a)"
      and e: "e = entry r a" by (auto simp: parsed_def)
    moreover from assms [OF this(1)] obtain r' a' where "segment r'" "segment a'" "x = entry r' a'"
      by auto
    ultimately show "e \<in> set es" by simp
  qed
qed

lemma NewScope_canonical:
  assumes "scope_ok s"
  shows "NewScope ul (Scope_Actions s) = Inr s"
proof -
  from assms have c: "\<And>e. e \<in> set (Scope_Actions s) \<Longrightarrow> \<exists>r a. segment r \<and> segment a \<and> e = entry r a"
    by (auto simp: scope_ok_def)
  then have "\<exists>e. splitScopeEntryAllowWildcard ul x = Inr e" if "x \<in> set (Scope_Actions s)" for x
    using that by fastforce
  then obtain out where out: "scope_set ul (Scope_Actions s) [] = Inr out"
    using scope_set_ok by blast
  from scope_set_Inr [OF this] have "set out = set (Scope_Actions s)" and "distinct out"
    using parsed_canonical [OF c] by auto
  then have "sort out = Scope_Actions s" and "out \<noteq> []"
    using assms by (auto simp: scope_ok_def intro: sorted_distinct_set_unique)
  with out show ?thesis by (simp add: NewScope_def)
qed

section \<open>Workload tokens\<close>

datatype WorkloadToken = WorkloadToken (WorkloadToken_String: string)

definition workloadTokenBytes :: nat where "workloadTokenBytes = 32"

definition NewWorkloadToken :: "'a env_scheme \<Rightarrow> WorkloadToken res \<times> 'a env_scheme" where
  "NewWorkloadToken w =
     and_then (rand_read workloadTokenBytes w) (\<lambda>b w. (Inr (WorkloadToken (hex_encode b)), w))"

definition WorkloadTokenFromString :: "string \<Rightarrow> WorkloadToken res" where
  "WorkloadTokenFromString s =
     (if length s \<noteq> workloadTokenBytes * 2 then Inl ErrInvalidKeyToken
      else case hex_decode s of None \<Rightarrow> Inl ErrInvalidKeyToken | Some _ \<Rightarrow> Inr (WorkloadToken s))"

definition HashWorkloadToken :: "WorkloadToken \<Rightarrow> string" where
  "HashWorkloadToken raw = hash_string (WorkloadToken_String raw)"

lemma NewWorkloadToken_cases:
  assumes "NewWorkloadToken w = (r, w')"
  obtains (fail) msg where "r = Inl (ErrExternal msg)" and "w' = tick w" and "\<not> rand_ok w"
  | (token) b where "r = Inr (WorkloadToken (hex_encode b))" and "length b = 32" and "w' = tick w"
proof (cases "rand_read workloadTokenBytes w")
  case (Pair r1 w1)
  from Pair show ?thesis
    by (rule rand_read_cases)
       (use assms Pair fail token in \<open>auto simp: NewWorkloadToken_def workloadTokenBytes_def\<close>)
qed

text \<open>A token that was issued is accepted back as it is.\<close>

lemma WorkloadToken_roundtrip:
  "length b = 32 \<Longrightarrow> WorkloadTokenFromString (hex_encode b) = Inr (WorkloadToken (hex_encode b))"
  by (simp add: WorkloadTokenFromString_def workloadTokenBytes_def)

end
