(* ===== verification/Workload.thy ===== *)
theory Workload
  imports Scope
begin

text \<open>
  API keys for workloads: the \<open>APIKey\<close> aggregate and the store port of \<open>src/domain/workload.go\<close>,
  and the \<open>WorkloadKeyService\<close> of \<open>src/domain/services.go\<close>. The locale \<open>key_store\<close> is the contract
  of the port: a table keyed by the key's identifier in which no two keys share a token hash.
\<close>

section \<open>The aggregate and its snapshot\<close>

record APIKey =
  APIKey_id :: KeyID
  APIKey_hash :: string
  APIKey_workerID :: WorkerID
  APIKey_scope :: Scope
  APIKey_expiresAt :: time
  APIKey_createdAt :: time

definition APIKey_Expired :: "APIKey \<Rightarrow> time \<Rightarrow> bool" where
  "APIKey_Expired k now \<longleftrightarrow> expired_at (APIKey_expiresAt k) now"

record APIKeySnapshot =
  APIKeySnapshot_ID :: string
  APIKeySnapshot_Hash :: string
  APIKeySnapshot_WorkerID :: string
  APIKeySnapshot_Scope :: "string list"
  APIKeySnapshot_ExpiresAt :: time
  APIKeySnapshot_CreatedAt :: time

definition APIKey_Snapshot :: "APIKey \<Rightarrow> APIKeySnapshot" where
  "APIKey_Snapshot k =
     \<lparr>APIKeySnapshot_ID = APIKey_id k,
      APIKeySnapshot_Hash = APIKey_hash k,
      APIKeySnapshot_WorkerID = WorkerID_String (APIKey_workerID k),
      APIKeySnapshot_Scope = Scope_Actions (APIKey_scope k),
      APIKeySnapshot_ExpiresAt = APIKey_expiresAt k,
      APIKeySnapshot_CreatedAt = APIKey_createdAt k\<rparr>"

definition APIKeyFromSnapshot :: "APIKeySnapshot \<Rightarrow> APIKey" where
  "APIKeyFromSnapshot s =
     \<lparr>APIKey_id = APIKeySnapshot_ID s,
      APIKey_hash = APIKeySnapshot_Hash s,
      APIKey_workerID = WorkerID (APIKeySnapshot_WorkerID s),
      APIKey_scope = Scope (APIKeySnapshot_Scope s),
      APIKey_expiresAt = APIKeySnapshot_ExpiresAt s,
      APIKey_createdAt = APIKeySnapshot_CreatedAt s\<rparr>"

lemma APIKey_snapshot_roundtrip [simp]:
  "APIKeyFromSnapshot (APIKey_Snapshot k) = k" "APIKey_Snapshot (APIKeyFromSnapshot s) = s"
  by (simp_all add: APIKeyFromSnapshot_def APIKey_Snapshot_def)

lemma APIKeyFromSnapshot_fields [simp]:
  "APIKey_id (APIKeyFromSnapshot s) = APIKeySnapshot_ID s"
  "APIKey_hash (APIKeyFromSnapshot s) = APIKeySnapshot_Hash s"
  "APIKey_workerID (APIKeyFromSnapshot s) = WorkerID (APIKeySnapshot_WorkerID s)"
  "APIKey_scope (APIKeyFromSnapshot s) = Scope (APIKeySnapshot_Scope s)"
  "APIKey_expiresAt (APIKeyFromSnapshot s) = APIKeySnapshot_ExpiresAt s"
  by (simp_all add: APIKeyFromSnapshot_def)

lemma APIKey_Snapshot_fields [simp]:
  "APIKeySnapshot_ID (APIKey_Snapshot k) = APIKey_id k"
  "APIKeySnapshot_Hash (APIKey_Snapshot k) = APIKey_hash k"
  "APIKeySnapshot_WorkerID (APIKey_Snapshot k) = WorkerID_String (APIKey_workerID k)"
  by (simp_all add: APIKey_Snapshot_def)

section \<open>The port and the service\<close>

record 'w WorkloadStore =
  WorkloadStore_CreateKey :: "APIKey \<Rightarrow> 'w \<Rightarrow> unit res \<times> 'w"
  WorkloadStore_GetKeyByHash :: "string \<Rightarrow> 'w \<Rightarrow> APIKey res \<times> 'w"
  WorkloadStore_GetKey :: "KeyID \<Rightarrow> 'w \<Rightarrow> APIKey res \<times> 'w"
  WorkloadStore_ListKeysByWorker :: "WorkerID \<Rightarrow> 'w \<Rightarrow> APIKey list res \<times> 'w"
  WorkloadStore_DeleteKey :: "KeyID \<Rightarrow> 'w \<Rightarrow> unit res \<times> 'w"
  WorkloadStore_RotateAtomically :: "(KeyID \<Rightarrow> APIKey \<Rightarrow> 'w \<Rightarrow> unit res \<times> 'w) option"

record KeyClaims =
  KeyClaims_WorkerID :: WorkerID
  KeyClaims_Scope :: Scope

record KeyRequest =
  KeyRequest_WorkerID :: WorkerID
  KeyRequest_Scope :: Scope
  KeyRequest_ExpiresAt :: time

definition keyIDBytes :: nat where "keyIDBytes = 16"

definition randomKeyID :: "'a env_scheme \<Rightarrow> KeyID res \<times> 'a env_scheme" where
  "randomKeyID w =
     and_then (rand_read keyIDBytes w) (\<lambda>b w. (Inr (''wk_'' @ hex_encode b), w))"

text \<open>\<open>errors.Is(err, ErrNotFound)\<close> mapped to \<open>ErrKeyNotFound\<close>, any other error passed on.\<close>

definition key_error :: "error \<Rightarrow> error" where
  "key_error e = (if e = ErrNotFound then ErrKeyNotFound else e)"

definition WorkloadKeyService_issue ::
  "KeyRequest \<Rightarrow> 's world \<Rightarrow> (APIKey \<times> WorkloadToken) res \<times> 's world" where
  "WorkloadKeyService_issue req w =
     (if WorkerID_IsZero (KeyRequest_WorkerID req) then (Inl ErrInvalidWorkerID, w)
      else if Scope_IsZero (KeyRequest_Scope req) then (Inl ErrInvalidScope, w)
      else
        let (now, w) = read_clock w in
        if \<not> before now (KeyRequest_ExpiresAt req) then (Inl ErrInvalidExpiry, w)
        else and_then (NewWorkloadToken w) (\<lambda>raw w.
             and_then (randomKeyID w) (\<lambda>i w.
               (Inr (\<lparr>APIKey_id = i, APIKey_hash = HashWorkloadToken raw,
                      APIKey_workerID = KeyRequest_WorkerID req,
                      APIKey_scope = KeyRequest_Scope req,
                      APIKey_expiresAt = KeyRequest_ExpiresAt req,
                      APIKey_createdAt = now\<rparr>, raw), w))))"

definition WorkloadKeyService_IssueKey ::
  "('s world) WorkloadStore \<Rightarrow> KeyRequest \<Rightarrow> 's world \<Rightarrow>
   (APIKey \<times> WorkloadToken) res \<times> 's world" where
  "WorkloadKeyService_IssueKey st req w =
     and_then (WorkloadKeyService_issue req w) (\<lambda>(key, raw) w.
     and_then (WorkloadStore_CreateKey st key w) (\<lambda>_ w. (Inr (key, raw), w)))"

definition WorkloadKeyService_ValidateKey ::
  "('s world) WorkloadStore \<Rightarrow> WorkloadToken \<Rightarrow> 's world \<Rightarrow> KeyClaims res \<times> 's world" where
  "WorkloadKeyService_ValidateKey st token w =
     (let want = HashWorkloadToken token in
      case WorkloadStore_GetKeyByHash st want w of
        (Inl e, w) \<Rightarrow> (Inl (key_error e), w)
      | (Inr key, w) \<Rightarrow>
          if constant_time_compare (APIKey_hash key) want \<noteq> 1 then (Inl ErrKeyNotFound, w)
          else let (now, w) = read_clock w in
            if APIKey_Expired key now then (Inl ErrKeyExpired, w)
            else (Inr \<lparr>KeyClaims_WorkerID = APIKey_workerID key,
                       KeyClaims_Scope = APIKey_scope key\<rparr>, w))"

definition WorkloadKeyService_Authorize ::
  "(nat \<Rightarrow> nat) \<Rightarrow> ('s world) WorkloadStore \<Rightarrow> WorkloadToken \<Rightarrow> string \<Rightarrow> 's world \<Rightarrow>
   unit res \<times> 's world" where
  "WorkloadKeyService_Authorize ul st token permission w =
     (case NewPermission ul permission of
        Inl e \<Rightarrow> (Inl e, w)
      | Inr perm \<Rightarrow>
          and_then (WorkloadKeyService_ValidateKey st token w) (\<lambda>claims w.
            if \<not> Scope_Allows (KeyClaims_Scope claims) perm then (Inl ErrScopeDenied, w)
            else (Inr (), w)))"

definition WorkloadKeyService_RevokeKey ::
  "('s world) WorkloadStore \<Rightarrow> KeyID \<Rightarrow> 's world \<Rightarrow> unit res \<times> 's world" where
  "WorkloadKeyService_RevokeKey st i w =
     (case WorkloadStore_DeleteKey st i w of
        (Inl e, w) \<Rightarrow> (Inl (key_error e), w)
      | (Inr _, w) \<Rightarrow> (Inr (), w))"

fun delete_keys :: "('s world) WorkloadStore \<Rightarrow> APIKey list \<Rightarrow> 's world \<Rightarrow> unit res \<times> 's world" where
  "delete_keys st [] w = (Inr (), w)"
| "delete_keys st (k # ks) w =
     (case WorkloadStore_DeleteKey st (APIKey_id k) w of
        (Inl e, w) \<Rightarrow> if e \<noteq> ErrNotFound then (Inl e, w) else delete_keys st ks w
      | (Inr _, w) \<Rightarrow> delete_keys st ks w)"

definition WorkloadKeyService_RevokeAllKeys ::
  "('s world) WorkloadStore \<Rightarrow> WorkerID \<Rightarrow> 's world \<Rightarrow> unit res \<times> 's world" where
  "WorkloadKeyService_RevokeAllKeys st workerID w =
     and_then (WorkloadStore_ListKeysByWorker st workerID w) (\<lambda>keys w. delete_keys st keys w)"

definition WorkloadKeyService_ListKeys ::
  "('s world) WorkloadStore \<Rightarrow> WorkerID \<Rightarrow> 's world \<Rightarrow> APIKey list res \<times> 's world" where
  "WorkloadKeyService_ListKeys st workerID w = WorkloadStore_ListKeysByWorker st workerID w"

definition WorkloadKeyService_RotateKey ::
  "('s world) WorkloadStore \<Rightarrow> KeyID \<Rightarrow> 's world \<Rightarrow> (APIKey \<times> WorkloadToken) res \<times> 's world" where
  "WorkloadKeyService_RotateKey st i w =
     (case WorkloadStore_GetKey st i w of
        (Inl e, w) \<Rightarrow> (Inl (key_error e), w)
      | (Inr old, w) \<Rightarrow>
          and_then
            (WorkloadKeyService_issue
               \<lparr>KeyRequest_WorkerID = APIKey_workerID old, KeyRequest_Scope = APIKey_scope old,
                KeyRequest_ExpiresAt = APIKey_expiresAt old\<rparr> w)
            (\<lambda>(newKey, raw) w.
               case WorkloadStore_RotateAtomically st of
                 Some swap \<Rightarrow>
                   (case swap (APIKey_id old) newKey w of
                      (Inl e, w) \<Rightarrow> (Inl (key_error e), w)
                    | (Inr _, w) \<Rightarrow> (Inr (newKey, raw), w))
               | None \<Rightarrow>
                   and_then (WorkloadStore_CreateKey st newKey w) (\<lambda>_ w.
                   case WorkloadStore_DeleteKey st (APIKey_id old) w of
                     (Inl e, w) \<Rightarrow> (Inl e, snd (WorkloadStore_DeleteKey st (APIKey_id newKey) w))
                   | (Inr _, w) \<Rightarrow> (Inr (newKey, raw), w))))"

section \<open>Building a key touches no storage\<close>

lemma randomKeyID_cases:
  assumes "randomKeyID w = (r, w')"
  obtains (fail) msg where "r = Inl (ErrExternal msg)" and "w' = tick w" and "\<not> rand_ok w"
  | (ident) b where "r = Inr (''wk_'' @ hex_encode b)" and "length b = 16" and "w' = tick w"
proof (cases "rand_read keyIDBytes w")
  case (Pair r1 w1)
  from Pair show ?thesis
    by (rule rand_read_cases)
       (use assms Pair fail ident in \<open>auto simp: randomKeyID_def keyIDBytes_def\<close>)
qed

definition key_for :: "KeyRequest \<Rightarrow> 's world \<Rightarrow> APIKey \<Rightarrow> WorkloadToken \<Rightarrow> 's world \<Rightarrow> bool" where
  "key_for req w key raw w' \<longleftrightarrow>
     \<not> WorkerID_IsZero (KeyRequest_WorkerID req) \<and> \<not> Scope_IsZero (KeyRequest_Scope req) \<and>
     APIKey_hash key = HashWorkloadToken raw \<and>
     WorkloadTokenFromString (WorkloadToken_String raw) = Inr raw \<and>
     APIKey_workerID key = KeyRequest_WorkerID req \<and> APIKey_scope key = KeyRequest_Scope req \<and>
     APIKey_expiresAt key = KeyRequest_ExpiresAt req \<and>
     read_between w (APIKey_createdAt key) w' \<and> APIKey_createdAt key < KeyRequest_ExpiresAt req"

lemma key_for_mono:
  "key_for req w key raw w' \<Longrightarrow> env_le v w \<Longrightarrow> env_le w' w'' \<Longrightarrow> key_for req v key raw w''"
  by (auto simp: key_for_def intro: read_between_mono)

lemma issue_cases:
  assumes "WorkloadKeyService_issue req w = (r, w')"
  obtains (refused) e where "r = Inl e" and "env_le w w'" and "store w' = store w"
      and "e = ErrInvalidWorkerID \<and> WorkerID_IsZero (KeyRequest_WorkerID req) \<or>
           e = ErrInvalidScope \<and> Scope_IsZero (KeyRequest_Scope req) \<or>
           e = ErrInvalidExpiry \<and>
             (\<exists>now. read_between w now w' \<and> KeyRequest_ExpiresAt req \<le> now) \<or>
           is_external e \<and> \<not> rand_ok w"
  | (made) key raw where "r = Inr (key, raw)" and "env_le w w'" and "store w' = store w"
      and "key_for req w key raw w'"
proof (cases "WorkerID_IsZero (KeyRequest_WorkerID req) \<or> Scope_IsZero (KeyRequest_Scope req)")
  case True
  with assms show ?thesis
    by (auto simp: WorkloadKeyService_issue_def split: if_splits intro: refused)
next
  case False
  let ?now = "clk w (pos w)" and ?w1 = "tick w"
  have now: "read_between w ?now v" if "env_le ?w1 v" for v :: "'a world"
    using that by (intro read_between_clock [of w w]) (auto simp: read_clock_def)
  note run = assms [unfolded WorkloadKeyService_issue_def read_clock_def]
  show ?thesis
  proof (cases "KeyRequest_ExpiresAt req \<le> ?now")
    case True
    then have "r = Inl ErrInvalidExpiry" and "w' = ?w1"
      using run False by (auto simp: before_def)
    with True now [OF env_le_refl] show ?thesis by (intro refused) auto
  next
    case live: False
    obtain r2 w2 where t: "NewWorkloadToken ?w1 = (r2, w2)" by fastforce
    then show ?thesis
    proof (cases rule: NewWorkloadToken_cases)
      case (fail msg)
      then have "r = Inl (ErrExternal msg)" and "w' = w2"
        using run False live t by (auto simp: before_def)
      with fail rand_ok_mono [OF _ env_le_tick] show ?thesis
        by (intro refused) (auto intro: env_le_tickI)
    next
      case (token b)
      obtain r3 w3 where i: "randomKeyID w2 = (r3, w3)" by fastforce
      have le: "env_le w w2" "env_le ?w1 w2" using token by (auto intro: env_le_tickI)
      from i show ?thesis
      proof (cases rule: randomKeyID_cases)
        case (fail msg)
        then have "r = Inl (ErrExternal msg)" and "w' = w3"
          using run False live t i token by (auto simp: before_def)
        with fail le(1) token rand_ok_mono show ?thesis
          by (intro refused) (auto intro: env_le_tickI)
      next
        case (ident c)
        let ?raw = "WorkloadToken (hex_encode b)"
        let ?key = "\<lparr>APIKey_id = ''wk_'' @ hex_encode c, APIKey_hash = HashWorkloadToken ?raw,
            APIKey_workerID = KeyRequest_WorkerID req, APIKey_scope = KeyRequest_Scope req,
            APIKey_expiresAt = KeyRequest_ExpiresAt req, APIKey_createdAt = ?now\<rparr>"
        have r: "r = Inr (?key, ?raw)" and w': "w' = w3"
          using run False live t i token ident by (auto simp: before_def)
        have "env_le ?w1 w3" using le(2) ident by (auto intro: env_le_tickI)
        then have "key_for req w ?key ?raw w'"
          using False live now w' WorkloadToken_roundtrip [OF token(2)] by (simp add: key_for_def)
        moreover have "env_le w w'" using le(1) ident w' by (auto intro: env_le_tickI)
        moreover have "store w' = store w" using token ident w' by simp
        ultimately show ?thesis using r by (intro made) auto
      qed
    qed
  qed
qed

section \<open>The contract of the key port\<close>

type_synonym keys = "string \<rightharpoonup> APIKeySnapshot"

definition key_at :: "keys \<Rightarrow> string \<Rightarrow> APIKey res" where
  "key_at m i = (case m i of Some sn \<Rightarrow> Inr (APIKeyFromSnapshot sn) | None \<Rightarrow> Inl ErrNotFound)"

definition hash_taken :: "keys \<Rightarrow> string \<Rightarrow> bool" where
  "hash_taken m h \<longleftrightarrow> (\<exists>i sn. m i = Some sn \<and> APIKeySnapshot_Hash sn = h)"

definition key_by_hash :: "keys \<Rightarrow> string \<Rightarrow> APIKey res \<Rightarrow> bool" where
  "key_by_hash m h x \<longleftrightarrow>
     (case x of
        Inr k \<Rightarrow> (\<exists>i sn. m i = Some sn \<and> APIKeySnapshot_Hash sn = h \<and> k = APIKeyFromSnapshot sn)
      | Inl e \<Rightarrow> e = ErrNotFound \<and> \<not> hash_taken m h)"

definition worker_keys :: "keys \<Rightarrow> string \<Rightarrow> APIKey set" where
  "worker_keys m v =
     {APIKeyFromSnapshot sn | i sn. m i = Some sn \<and> APIKeySnapshot_WorkerID sn = v}"

definition taken :: "keys \<Rightarrow> APIKeySnapshot \<Rightarrow> bool" where
  "taken m sn \<longleftrightarrow> m (APIKeySnapshot_ID sn) \<noteq> None \<or> hash_taken m (APIKeySnapshot_Hash sn)"

locale key_store =
  fixes P :: "('s world) WorkloadStore"
    and view :: "'s \<Rightarrow> keys"
    and legal :: "'s \<Rightarrow> bool"
  assumes create: "legal (store w) \<Longrightarrow>
      attempts view legal w ((view (store w))(APIKey_id k \<mapsto> APIKey_Snapshot k))
        (\<lambda>e. e = ErrConflict \<and> taken (view (store w)) (APIKey_Snapshot k))
        (WorkloadStore_CreateKey P k w)"
    and create_rejects: "legal (store w) \<Longrightarrow> taken (view (store w)) (APIKey_Snapshot k) \<Longrightarrow>
      isl (fst (WorkloadStore_CreateKey P k w))"
    and get_by_hash: "legal (store w) \<Longrightarrow>
      \<exists>x. key_by_hash (view (store w)) h x \<and>
          reads view legal w x (WorkloadStore_GetKeyByHash P h w)"
    and get: "legal (store w) \<Longrightarrow>
      reads view legal w (key_at (view (store w)) i) (WorkloadStore_GetKey P i w)"
    and list: "legal (store w) \<Longrightarrow>
      \<exists>ks. set ks = worker_keys (view (store w)) (WorkerID_String v) \<and>
           reads view legal w (Inr ks) (WorkloadStore_ListKeysByWorker P v w)"
    and delete: "legal (store w) \<Longrightarrow>
      (if view (store w) i = None then reads view legal w (Inl ErrNotFound)
       else writes view legal w ((view (store w))(i := None)) ()) (WorkloadStore_DeleteKey P i w)"
    and rotate: "WorkloadStore_RotateAtomically P = Some swap \<Longrightarrow> legal (store w) \<Longrightarrow>
      attempts view legal w
        ((view (store w))(i := None, APIKey_id k \<mapsto> APIKey_Snapshot k))
        (\<lambda>e. e = ErrNotFound \<and> view (store w) i = None \<or>
             e = ErrConflict \<and> taken (view (store w)) (APIKey_Snapshot k)) (swap i k w)"
    and rotate_rejects: "WorkloadStore_RotateAtomically P = Some swap \<Longrightarrow> legal (store w) \<Longrightarrow>
      taken (view (store w)) (APIKey_Snapshot k) \<or> view (store w) i = None \<Longrightarrow>
      isl (fst (swap i k w))"
    and keyed: "legal st \<Longrightarrow> view st i = Some sn \<Longrightarrow> APIKeySnapshot_ID sn = i"
    and one_hash: "legal st \<Longrightarrow> view st i = Some sn \<Longrightarrow> view st j = Some sn' \<Longrightarrow>
      APIKeySnapshot_Hash sn = APIKeySnapshot_Hash sn' \<Longrightarrow> i = j"
begin

lemma issue_key_effect:
  assumes "legal (store w)" and "WorkloadKeyService_IssueKey P req w = (r, w')"
  shows "settled legal w w' \<and>
    (case r of
       Inr (key, raw) \<Rightarrow> key_for req w key raw w' \<and>
         \<not> taken (view (store w)) (APIKey_Snapshot key) \<and>
         view (store w') = (view (store w))(APIKey_id key \<mapsto> APIKey_Snapshot key)
     | Inl e \<Rightarrow> view (store w') = view (store w))"
proof -
  obtain r1 w1 where i: "WorkloadKeyService_issue req w = (r1, w1)" by fastforce
  then show ?thesis
  proof (cases rule: issue_cases)
    case (refused e)
    with assms i show ?thesis by (auto simp: WorkloadKeyService_IssueKey_def settled_def)
  next
    case (made key raw)
    obtain r2 w2 where c: "WorkloadStore_CreateKey P key w1 = (r2, w2)" by fastforce
    have l: "legal (store w1)" using assms(1) made by simp
    have run: "(r, w') = and_then (r2, w2) (\<lambda>_ w. (Inr (key, raw), w))"
      using assms(2) i made(1) c by (simp add: WorkloadKeyService_IssueKey_def)
    from create [OF l, of key, unfolded c] show ?thesis
    proof (cases rule: attemptsE)
      case (written x)
      then have "\<not> taken (view (store w)) (APIKey_Snapshot key)"
        using create_rejects [OF l, of key] c made(3) by auto
      with written run made show ?thesis
        by (auto simp: settled_def intro: env_le_trans elim!: key_for_mono)
    next
      case (refused e)
      with run made show ?thesis by (auto simp: settled_def intro: env_le_trans)
    qed
  qed
qed

text \<open>Validation answers by the key stored under the token's hash, and changes nothing.\<close>

lemma validate_key_effect:
  assumes "legal (store w)" and "WorkloadKeyService_ValidateKey P tok w = (r, w')"
  defines "h \<equiv> HashWorkloadToken tok"
  shows "settled legal w w' \<and> view (store w') = view (store w) \<and>
    (case r of
       Inr claims \<Rightarrow> (\<exists>i sn now. view (store w) i = Some sn \<and> APIKeySnapshot_Hash sn = h \<and>
          read_between w now w' \<and> now < APIKeySnapshot_ExpiresAt sn \<and>
          claims = \<lparr>KeyClaims_WorkerID = WorkerID (APIKeySnapshot_WorkerID sn),
                    KeyClaims_Scope = Scope (APIKeySnapshot_Scope sn)\<rparr>)
     | Inl e \<Rightarrow>
         e = ErrKeyNotFound \<and> \<not> hash_taken (view (store w)) h \<or>
         e = ErrKeyExpired \<and> (\<exists>i sn now. view (store w) i = Some sn \<and>
            APIKeySnapshot_Hash sn = h \<and> read_between w now w' \<and>
            APIKeySnapshot_ExpiresAt sn \<le> now) \<or>
         is_external e \<and> \<not> quiet w)"
proof -
  obtain r1 w1 where g: "WorkloadStore_GetKeyByHash P h w = (r1, w1)" by fastforce
  note run = assms(2) [unfolded WorkloadKeyService_ValidateKey_def Let_def, folded h_def, unfolded g]
  obtain x where x: "key_by_hash (view (store w)) h x" and "reads view legal w x (r1, w1)"
    using get_by_hash [OF assms(1), of h] g by auto
  from this(2) show ?thesis
  proof (cases rule: readsE)
    case (failed e)
    then have "key_error e = e" by (auto simp: key_error_def)
    with failed run show ?thesis by auto
  next
    case found
    show ?thesis
    proof (cases x)
      case (Inl e)
      with x found run show ?thesis by (auto simp: key_by_hash_def key_error_def)
    next
      case (Inr k)
      with x obtain i sn where sn: "view (store w) i = Some sn" "APIKeySnapshot_Hash sn = h"
        and k: "k = APIKeyFromSnapshot sn" by (auto simp: key_by_hash_def)
      let ?now = "clk w1 (pos w1)"
      have now: "read_between w ?now (tick w1)"
        by (rule read_between_clock [of w w1]) (use found in \<open>auto simp: settled_def read_clock_def\<close>)
      have run': "(r, w') = (if APIKeySnapshot_ExpiresAt sn \<le> ?now then (Inl ErrKeyExpired, tick w1)
          else (Inr \<lparr>KeyClaims_WorkerID = WorkerID (APIKeySnapshot_WorkerID sn),
                     KeyClaims_Scope = Scope (APIKeySnapshot_Scope sn)\<rparr>, tick w1))"
        using run Inr found(1) k sn(2)
        by (auto simp: read_clock_def APIKey_Expired_def split: if_splits)
      show ?thesis
      proof (cases "APIKeySnapshot_ExpiresAt sn \<le> ?now")
        case True
        with run' now found(2) settled_tick [OF found(3)] sn show ?thesis by auto
      next
        case False
        with run' now found(2) settled_tick [OF found(3)] sn show ?thesis by (auto simp: not_le)
      qed
    qed
  qed
qed

lemma issue_then_authorize:
  assumes "legal (store w)" and "WorkloadKeyService_IssueKey P req w = (Inr (key, raw), w1)"
    and "quiet w1" and "clock_before w1 (KeyRequest_ExpiresAt req)"
    and "NewPermission ul permission = Inr perm"
  shows "fst (WorkloadKeyService_Authorize ul P raw permission w1)
         = (if Scope_Allows (KeyRequest_Scope req) perm then Inr () else Inl ErrScopeDenied)"
proof -
  from issue_key_effect [OF assms(1,2)]
  have l: "legal (store w1)" and k: "key_for req w key raw w1"
    and v: "view (store w1) (APIKey_id key) = Some (APIKey_Snapshot key)"
    by (auto simp: settled_def)
  obtain r w2 where val: "WorkloadKeyService_ValidateKey P raw w1 = (r, w2)" by fastforce
  note ve = validate_key_effect [OF l val]
  have hash: "APIKeySnapshot_Hash (APIKey_Snapshot key) = HashWorkloadToken raw"
    using k by (simp add: key_for_def)
  have only: "sn = APIKey_Snapshot key"
    if "view (store w1) i = Some sn" "APIKeySnapshot_Hash sn = HashWorkloadToken raw" for i sn
    using one_hash [OF l that(1) v] that hash v by auto
  have exp: "APIKeySnapshot_ExpiresAt (APIKey_Snapshot key) = KeyRequest_ExpiresAt req"
    using k by (simp add: key_for_def APIKey_Snapshot_def)
  have "r = Inr \<lparr>KeyClaims_WorkerID = KeyRequest_WorkerID req, KeyClaims_Scope = KeyRequest_Scope req\<rparr>"
  proof (cases r)
    case (Inl e)
    have "hash_taken (view (store w1)) (HashWorkloadToken raw)"
      using v hash unfolding hash_taken_def by blast
    with Inl ve assms(3) have "\<exists>i sn now. view (store w1) i = Some sn \<and>
        APIKeySnapshot_Hash sn = HashWorkloadToken raw \<and> read_between w1 now w2 \<and>
        APIKeySnapshot_ExpiresAt sn \<le> now"
      by auto
    then obtain now where "read_between w1 now w2" "KeyRequest_ExpiresAt req \<le> now"
      using only exp by metis
    with read_between_before [OF _ assms(4)] show ?thesis by fastforce
  next
    case (Inr c)
    with ve obtain i sn where sn: "view (store w1) i = Some sn"
      "APIKeySnapshot_Hash sn = HashWorkloadToken raw" and c: "c =
        \<lparr>KeyClaims_WorkerID = WorkerID (APIKeySnapshot_WorkerID sn),
         KeyClaims_Scope = Scope (APIKeySnapshot_Scope sn)\<rparr>" by auto
    from c Inr k only [OF sn] show ?thesis by (simp add: key_for_def APIKey_Snapshot_def)
  qed
  then show ?thesis
    using val assms(5) by (simp add: WorkloadKeyService_Authorize_def)
qed

text \<open>Whatever is authorized was granted: an unexpired key with the token's hash is stored, and
  its scope covers the permission asked for.\<close>

lemma authorize_sound:
  assumes "legal (store w)" and "WorkloadKeyService_Authorize ul P tok permission w = (Inr x, w')"
  shows "\<exists>i sn perm now. view (store w) i = Some sn \<and>
    APIKeySnapshot_Hash sn = HashWorkloadToken tok \<and> read_between w now w' \<and>
    now < APIKeySnapshot_ExpiresAt sn \<and> NewPermission ul permission = Inr perm \<and>
    Scope_Allows (Scope (APIKeySnapshot_Scope sn)) perm"
proof -
  obtain r1 w1 where val: "WorkloadKeyService_ValidateKey P tok w = (r1, w1)" by fastforce
  from assms(2) val obtain perm claims where p: "NewPermission ul permission = Inr perm"
    "r1 = Inr claims" "Scope_Allows (KeyClaims_Scope claims) perm" "w' = w1"
    by (cases r1) (auto simp: WorkloadKeyService_Authorize_def split: sum.splits if_splits)
  with validate_key_effect [OF assms(1) val] obtain i sn now where
    "view (store w) i = Some sn" "APIKeySnapshot_Hash sn = HashWorkloadToken tok"
    "read_between w now w'" "now < APIKeySnapshot_ExpiresAt sn"
    "KeyClaims_Scope claims = Scope (APIKeySnapshot_Scope sn)" by auto
  with p(1,3) show ?thesis by metis
qed

text \<open>
  A rotation that succeeds, on either path, replaces the key by one with the same worker, scope
  and expiry under a new token.
\<close>

lemma rotate_key_effect:
  assumes "legal (store w)" and "WorkloadKeyService_RotateKey P i w = (Inr (key, raw), w')"
  shows "settled legal w w' \<and>
    (\<exists>sn. view (store w) i = Some sn \<and>
       key_for \<lparr>KeyRequest_WorkerID = WorkerID (APIKeySnapshot_WorkerID sn),
                KeyRequest_Scope = Scope (APIKeySnapshot_Scope sn),
                KeyRequest_ExpiresAt = APIKeySnapshot_ExpiresAt sn\<rparr> w key raw w') \<and>
    \<not> taken (view (store w)) (APIKey_Snapshot key) \<and>
    view (store w') = (view (store w))(i := None, APIKey_id key \<mapsto> APIKey_Snapshot key)"
proof -
  obtain r1 w1 where g: "WorkloadStore_GetKey P i w = (r1, w1)" by fastforce
  from assms(2) g obtain old where r1: "r1 = Inr old"
    by (cases r1) (auto simp: WorkloadKeyService_RotateKey_def)
  from get [OF assms(1), of i] g r1 have k: "key_at (view (store w)) i = Inr old"
    and v1: "view (store w1) = view (store w)" and s1: "settled legal w w1"
    by (auto simp: reads_def)
  from k obtain sn where sn: "view (store w) i = Some sn" and old: "old = APIKeyFromSnapshot sn"
    by (auto simp: key_at_def split: option.splits)
  have id: "APIKey_id old = i" using keyed [OF assms(1) sn] old by simp
  define req where "req = \<lparr>KeyRequest_WorkerID = APIKey_workerID old,
      KeyRequest_Scope = APIKey_scope old, KeyRequest_ExpiresAt = APIKey_expiresAt old\<rparr>"
  have req: "req = \<lparr>KeyRequest_WorkerID = WorkerID (APIKeySnapshot_WorkerID sn),
      KeyRequest_Scope = Scope (APIKeySnapshot_Scope sn),
      KeyRequest_ExpiresAt = APIKeySnapshot_ExpiresAt sn\<rparr>"
    by (simp add: req_def old)
  obtain r2 w2 where iss: "WorkloadKeyService_issue req w1 = (r2, w2)" by fastforce
  note run = assms(2) [unfolded WorkloadKeyService_RotateKey_def g r1, simplified,
      folded req_def, unfolded iss id]
  from iss show ?thesis
  proof (cases rule: issue_cases)
    case (refused e)
    with run show ?thesis by simp
  next
    case (made key' raw')
    have l2: "legal (store w2)" and s2: "settled legal w w2" and v2: "view (store w2) = view (store w)"
      using s1 made v1 by (auto simp: settled_def intro: env_le_trans)
    have kf: "key_for req w key' raw' w2" using key_for_mono [OF made(4) settledD(1) [OF s1]] by blast
    show ?thesis
    proof (cases "WorkloadStore_RotateAtomically P")
      case (Some swap)
      obtain r3 w3 where sw: "swap i key' w2 = (r3, w3)" by fastforce
      from run made(1) Some sw have r3: "\<not> isl r3" and "key = key'" "raw = raw'" "w' = w3"
        by (auto split: sum.splits)
      then obtain x where x: "r3 = Inr x" by (cases r3) auto
      from rotate [OF Some l2, of i key', unfolded sw x]
      have "settled legal w2 w3" and "view (store w3) =
          (view (store w))(i := None, APIKey_id key' \<mapsto> APIKey_Snapshot key')"
        by (auto simp: attempts_def v2)
      moreover have "\<not> taken (view (store w)) (APIKey_Snapshot key')"
        using rotate_rejects [OF Some l2, of key' i] sw r3 v2 by auto
      ultimately show ?thesis
        using s2 sn kf req \<open>key = key'\<close> \<open>raw = raw'\<close> \<open>w' = w3\<close>
        by (auto intro: settled_trans key_for_mono [OF _ env_le_refl settledD(1)])
    next
      case None
      obtain r3 w3 where cr: "WorkloadStore_CreateKey P key' w2 = (r3, w3)" by fastforce
      from run made(1) None cr obtain x where r3: "r3 = Inr x" by (cases r3) auto
      have free: "\<not> taken (view (store w)) (APIKey_Snapshot key')"
        using create_rejects [OF l2, of key'] cr r3 v2 by auto
      from create [OF l2, of key', unfolded cr r3] have s3: "settled legal w2 w3"
        and v3: "view (store w3) = (view (store w))(APIKey_id key' \<mapsto> APIKey_Snapshot key')"
        by (auto simp: attempts_def v2)
      obtain r4 w4 where dl: "WorkloadStore_DeleteKey P i w3 = (r4, w4)" by fastforce
      from run made(1) None cr r3 dl obtain y where r4: "r4 = Inr y" and "key = key'" "raw = raw'" "w' = w4"
        by (auto split: sum.splits)
      have ne: "APIKey_id key' \<noteq> i" using free sn by (auto simp: taken_def)
      with v3 sn have "view (store w3) i \<noteq> None" by simp
      with delete [OF settledD(2) [OF s3], of i] dl r4
      have s4: "settled legal w3 w4" and "view (store w4) = (view (store w3))(i := None)"
        by (auto simp: writes_def)
      with v3 ne have "view (store w4) =
          (view (store w))(i := None, APIKey_id key' \<mapsto> APIKey_Snapshot key')"
        by (simp add: fun_upd_twist)
      with s2 s3 s4 sn kf req free \<open>key = key'\<close> \<open>raw = raw'\<close> \<open>w' = w4\<close> show ?thesis
        using settled_trans [OF s3 s4]
        by (auto intro: settled_trans key_for_mono [OF _ env_le_refl settledD(1)])
    qed
  qed
qed

text \<open>After a rotation the old token is unknown.\<close>

lemma rotate_invalidates:
  assumes "legal (store w)" and "WorkloadKeyService_RotateKey P i w = (Inr (key, raw), w')"
    and "view (store w) i = Some sn" and "APIKeySnapshot_Hash sn = HashWorkloadToken old"
  shows "\<not> hash_taken (view (store w')) (HashWorkloadToken old)"
proof
  from rotate_key_effect [OF assms(1,2)]
  have v: "view (store w') = (view (store w))(i := None, APIKey_id key \<mapsto> APIKey_Snapshot key)"
    and free: "\<not> taken (view (store w)) (APIKey_Snapshot key)" by auto
  assume "hash_taken (view (store w')) (HashWorkloadToken old)"
  then obtain j sn' where j: "view (store w') j = Some sn'"
    "APIKeySnapshot_Hash sn' = APIKeySnapshot_Hash sn" using assms(4) by (auto simp: hash_taken_def)
  show False
  proof (cases "j = APIKey_id key")
    case True
    with j v have "APIKeySnapshot_Hash (APIKey_Snapshot key) = APIKeySnapshot_Hash sn" by simp
    with assms(3) have "hash_taken (view (store w)) (APIKeySnapshot_Hash (APIKey_Snapshot key))"
      unfolding hash_taken_def by metis
    with free show False by (simp add: taken_def)
  next
    case False
    with j v have "j \<noteq> i" and "view (store w) j = Some sn'" by (auto split: if_splits)
    with one_hash [OF assms(1) this(2) assms(3) j(2)] show False by simp
  qed
qed

text \<open>The kill-switch: whatever happens, only the worker's keys go; on success all of them.\<close>

lemma delete_keys_effect:
  assumes "legal (store w)" and "delete_keys P ks w = (r, w')"
  shows "settled legal w w' \<and>
    (\<forall>i. view (store w') i = view (store w) i \<or>
         view (store w') i = None \<and> i \<in> APIKey_id ` set ks) \<and>
    (\<not> isl r \<longrightarrow> (\<forall>k \<in> set ks. view (store w') (APIKey_id k) = None))"
  using assms
proof (induction ks arbitrary: w)
  case Nil
  then show ?case by (auto simp: settled_def)
next
  case (Cons k ks)
  obtain r1 w1 where d: "WorkloadStore_DeleteKey P (APIKey_id k) w = (r1, w1)" by fastforce
  have one: "settled legal w w1 \<and> (view (store w1) = view (store w) \<or>
      view (store w1) = (view (store w))(APIKey_id k := None)) \<and>
      ((\<not> isl r1 \<or> r1 = Inl ErrNotFound) \<longrightarrow> view (store w1) (APIKey_id k) = None)"
    using delete [OF Cons.prems(1), of "APIKey_id k"] d
    by (cases "view (store w) (APIKey_id k)") (auto elim!: readsE writesE)
  show ?case
  proof (cases "isl r1 \<and> r1 \<noteq> Inl ErrNotFound")
    case True
    then obtain e where "r1 = Inl e" "e \<noteq> ErrNotFound" by (cases r1) auto
    with Cons.prems(2) d have "r = Inl e" and "w' = w1" by auto
    with one show ?thesis by auto
  next
    case False
    with Cons.prems(2) d have "delete_keys P ks w1 = (r, w')" by (cases r1) auto
    from one have s1: "settled legal w w1" by simp
    have gone: "view (store w1) (APIKey_id k) = None" using one False by (cases r1) auto
    have old: "view (store w1) i = view (store w) i \<or> view (store w1) i = None \<and> i = APIKey_id k" for i
      using one by (cases "i = APIKey_id k") auto
    note ih = Cons.IH [OF settledD(2) [OF s1] \<open>delete_keys P ks w1 = (r, w')\<close>]
    have "view (store w') (APIKey_id k) = None" using ih gone by metis
    moreover have "view (store w') i = view (store w) i \<or>
        view (store w') i = None \<and> i \<in> APIKey_id ` set (k # ks)" for i
      using ih old [of i] by (metis image_insert insertCI insertE list.simps(15))
    ultimately show ?thesis
      using settled_trans [OF s1] ih by simp
  qed
qed

lemma revoke_all_keys_effect:
  assumes "legal (store w)" and "WorkloadKeyService_RevokeAllKeys P v w = (r, w')"
  shows "settled legal w w' \<and>
    (\<forall>i. view (store w') i = view (store w) i \<or> view (store w') i = None \<and>
       (\<exists>sn. view (store w) i = Some sn \<and> APIKeySnapshot_WorkerID sn = WorkerID_String v)) \<and>
    (\<not> isl r \<longrightarrow> worker_keys (view (store w')) (WorkerID_String v) = {})"
proof -
  obtain r1 w1 where l: "WorkloadStore_ListKeysByWorker P v w = (r1, w1)" by fastforce
  obtain ks where ks: "set ks = worker_keys (view (store w)) (WorkerID_String v)"
    and "reads view legal w (Inr ks) (r1, w1)" using list [OF assms(1), of v] l by auto
  from this(2) show ?thesis
  proof (cases rule: readsE)
    case (failed e)
    with assms(2) l show ?thesis by (auto simp: WorkloadKeyService_RevokeAllKeys_def)
  next
    case found
    with assms(2) l have "delete_keys P ks w1 = (r, w')"
      by (simp add: WorkloadKeyService_RevokeAllKeys_def)
    from delete_keys_effect [OF settledD(2) [OF found(3)] this]
    have e: "settled legal w1 w'" "\<And>i. view (store w') i = view (store w) i \<or>
         view (store w') i = None \<and> i \<in> APIKey_id ` set ks"
      "\<not> isl r \<Longrightarrow> k \<in> set ks \<Longrightarrow> view (store w') (APIKey_id k) = None" for k
      using found(2) by auto
    have mine: "\<exists>sn. view (store w) i = Some sn \<and> APIKeySnapshot_WorkerID sn = WorkerID_String v"
      if "i \<in> APIKey_id ` set ks" for i
      using that keyed [OF assms(1)] by (auto simp: ks worker_keys_def)
    have "worker_keys (view (store w')) (WorkerID_String v) = {}" if "\<not> isl r"
    proof -
      have False if i: "view (store w') i = Some sn" "APIKeySnapshot_WorkerID sn = WorkerID_String v" for i sn
      proof -
        from i e(2) [of i] have "view (store w) i = Some sn" by auto
        moreover from this have "APIKeyFromSnapshot sn \<in> set ks"
          using i by (auto simp: ks worker_keys_def)
        ultimately show False using e(3) [OF \<open>\<not> isl r\<close>] keyed [OF assms(1)] i(1) by fastforce
      qed
      then show ?thesis by (auto simp: worker_keys_def)
    qed
    with e(1,2) mine settled_trans [OF found(3) e(1)] show ?thesis by metis
  qed
qed

end

end
