(* ===== verification/MemoryKeys.thy ===== *)
theory MemoryKeys
  imports Workload
begin

text \<open>
  The \<open>WorkloadKeyRepo\<close> of \<open>src/adapters/memory/memory.go\<close>: two Go maps, one by key identifier
  and one from token hash to identifier, kept consistent under one lock. \<open>key_maps_ok\<close> is their
  invariant; the adapter is an interpretation of the contract of the key port.
\<close>

record key_maps =
  byID :: "(string, APIKeySnapshot) gomap"
  byHash :: "(string, string) gomap"

definition NewWorkloadKeyRepo :: key_maps where
  "NewWorkloadKeyRepo = \<lparr>byID = [], byHash = []\<rparr>"

definition keys_view :: "key_maps \<Rightarrow> keys" where "keys_view m = gomap_get (byID m)"

definition key_maps_ok :: "key_maps \<Rightarrow> bool" where
  "key_maps_ok m \<longleftrightarrow> gomap_ok (byID m) \<and> gomap_ok (byHash m) \<and>
     (\<forall>i sn. gomap_get (byID m) i = Some sn \<longrightarrow> APIKeySnapshot_ID sn = i) \<and>
     (\<forall>h i. gomap_get (byHash m) h = Some i \<longleftrightarrow>
        (\<exists>sn. gomap_get (byID m) i = Some sn \<and> APIKeySnapshot_Hash sn = h))"

definition zero_key_snapshot :: APIKeySnapshot where
  "zero_key_snapshot =
     \<lparr>APIKeySnapshot_ID = [], APIKeySnapshot_Hash = [], APIKeySnapshot_WorkerID = [],
      APIKeySnapshot_Scope = [], APIKeySnapshot_ExpiresAt = 0, APIKeySnapshot_CreatedAt = 0\<rparr>"

definition insert_key :: "APIKeySnapshot \<Rightarrow> key_maps \<Rightarrow> key_maps" where
  "insert_key snap m =
     \<lparr>byID = gomap_set (APIKeySnapshot_ID snap) snap (byID m),
      byHash = gomap_set (APIKeySnapshot_Hash snap) (APIKeySnapshot_ID snap) (byHash m)\<rparr>"

definition remove_key :: "APIKeySnapshot \<Rightarrow> key_maps \<Rightarrow> key_maps" where
  "remove_key snap m =
     \<lparr>byID = gomap_delete (APIKeySnapshot_ID snap) (byID m),
      byHash = gomap_delete (APIKeySnapshot_Hash snap) (byHash m)\<rparr>"

definition WorkloadKeyRepo_CreateKey ::
  "APIKey \<Rightarrow> key_maps world \<Rightarrow> unit res \<times> key_maps world" where
  "WorkloadKeyRepo_CreateKey k =
     checked (\<lambda>m.
       let snap = APIKey_Snapshot k in
       if gomap_get (byID m) (APIKeySnapshot_ID snap) \<noteq> None then (Inl ErrConflict, m)
       else if gomap_get (byHash m) (APIKeySnapshot_Hash snap) \<noteq> None then (Inl ErrConflict, m)
       else (Inr (), insert_key snap m))"

definition WorkloadKeyRepo_GetKeyByHash ::
  "string \<Rightarrow> key_maps world \<Rightarrow> APIKey res \<times> key_maps world" where
  "WorkloadKeyRepo_GetKeyByHash hash =
     checked (\<lambda>m.
       (case gomap_get (byHash m) hash of
          None \<Rightarrow> (Inl ErrNotFound, m)
        | Some i \<Rightarrow>
            (Inr (APIKeyFromSnapshot
               (case gomap_get (byID m) i of Some snap \<Rightarrow> snap | None \<Rightarrow> zero_key_snapshot)), m)))"

definition WorkloadKeyRepo_GetKey :: "KeyID \<Rightarrow> key_maps world \<Rightarrow> APIKey res \<times> key_maps world" where
  "WorkloadKeyRepo_GetKey i =
     checked (\<lambda>m.
       (case gomap_get (byID m) i of
          None \<Rightarrow> (Inl ErrNotFound, m)
        | Some snap \<Rightarrow> (Inr (APIKeyFromSnapshot snap), m)))"

definition WorkloadKeyRepo_ListKeysByWorker ::
  "WorkerID \<Rightarrow> key_maps world \<Rightarrow> APIKey list res \<times> key_maps world" where
  "WorkloadKeyRepo_ListKeysByWorker workerID =
     checked (\<lambda>m.
       (Inr (map APIKeyFromSnapshot
          (filter (\<lambda>snap. APIKeySnapshot_WorkerID snap = WorkerID_String workerID)
             (gomap_values (byID m)))), m))"

definition WorkloadKeyRepo_DeleteKey :: "KeyID \<Rightarrow> key_maps world \<Rightarrow> unit res \<times> key_maps world" where
  "WorkloadKeyRepo_DeleteKey i =
     checked (\<lambda>m.
       (case gomap_get (byID m) i of
          None \<Rightarrow> (Inl ErrNotFound, m)
        | Some snap \<Rightarrow> (Inr (), remove_key snap m)))"

definition WorkloadKeyRepo_RotateAtomically ::
  "KeyID \<Rightarrow> APIKey \<Rightarrow> key_maps world \<Rightarrow> unit res \<times> key_maps world" where
  "WorkloadKeyRepo_RotateAtomically oldID newKey =
     checked (\<lambda>m.
       (case gomap_get (byID m) oldID of
          None \<Rightarrow> (Inl ErrNotFound, m)
        | Some old \<Rightarrow>
            let snap = APIKey_Snapshot newKey in
            if gomap_get (byID m) (APIKeySnapshot_ID snap) \<noteq> None then (Inl ErrConflict, m)
            else if gomap_get (byHash m) (APIKeySnapshot_Hash snap) \<noteq> None then (Inl ErrConflict, m)
            else (Inr (), insert_key snap (remove_key old m))))"

definition WorkloadKeyRepo :: "(key_maps world) WorkloadStore" where
  "WorkloadKeyRepo =
     \<lparr>WorkloadStore_CreateKey = WorkloadKeyRepo_CreateKey,
      WorkloadStore_GetKeyByHash = WorkloadKeyRepo_GetKeyByHash,
      WorkloadStore_GetKey = WorkloadKeyRepo_GetKey,
      WorkloadStore_ListKeysByWorker = WorkloadKeyRepo_ListKeysByWorker,
      WorkloadStore_DeleteKey = WorkloadKeyRepo_DeleteKey,
      WorkloadStore_RotateAtomically = Some WorkloadKeyRepo_RotateAtomically\<rparr>"

section \<open>The invariant of the two maps\<close>

lemma key_maps_empty [simp]: "key_maps_ok NewWorkloadKeyRepo"
  by (simp add: key_maps_ok_def NewWorkloadKeyRepo_def)

lemma keys_view_insert [simp]:
  "keys_view (insert_key sn m) = (keys_view m)(APIKeySnapshot_ID sn \<mapsto> sn)"
  by (simp add: keys_view_def insert_key_def)

lemma keys_view_remove [simp]:
  "keys_view (remove_key sn m) = (keys_view m)(APIKeySnapshot_ID sn := None)"
  by (simp add: keys_view_def remove_key_def)

lemma key_maps_keyed:
  "key_maps_ok m \<Longrightarrow> gomap_get (byID m) i = Some sn \<Longrightarrow> APIKeySnapshot_ID sn = i"
  by (simp add: key_maps_ok_def)

lemma key_maps_hash:
  "key_maps_ok m \<Longrightarrow> gomap_get (byID m) i = Some sn \<Longrightarrow> gomap_get (byHash m) (APIKeySnapshot_Hash sn) = Some i"
  by (simp add: key_maps_ok_def)

lemma key_maps_taken:
  "key_maps_ok m \<Longrightarrow> taken (keys_view m) sn \<longleftrightarrow>
     gomap_get (byID m) (APIKeySnapshot_ID sn) \<noteq> None \<or>
     gomap_get (byHash m) (APIKeySnapshot_Hash sn) \<noteq> None"
  by (auto simp: taken_def hash_taken_def keys_view_def key_maps_ok_def)

lemma key_maps_remove:
  assumes "key_maps_ok m" and "gomap_get (byID m) i = Some sn"
  shows "key_maps_ok (remove_key sn m)"
proof -
  have i: "APIKeySnapshot_ID sn = i" using key_maps_keyed [OF assms] .
  have "gomap_get (byHash (remove_key sn m)) h = Some j \<longleftrightarrow>
      (\<exists>x. gomap_get (byID (remove_key sn m)) j = Some x \<and> APIKeySnapshot_Hash x = h)" for h j
  proof (cases "h = APIKeySnapshot_Hash sn")
    case True
    then have "\<not> (\<exists>x. j \<noteq> i \<and> gomap_get (byID m) j = Some x \<and> APIKeySnapshot_Hash x = h)"
      using key_maps_hash [OF assms] key_maps_hash [OF assms(1), of j] by auto
    with True i show ?thesis by (auto simp: remove_key_def)
  next
    case False
    then have "gomap_get (byHash (remove_key sn m)) h = gomap_get (byHash m) h"
      by (simp add: remove_key_def)
    moreover have "gomap_get (byHash m) h = Some j \<longleftrightarrow>
        (\<exists>x. gomap_get (byID m) j = Some x \<and> APIKeySnapshot_Hash x = h)"
      using assms(1) by (simp add: key_maps_ok_def)
    moreover have "j \<noteq> i" if "\<exists>x. gomap_get (byID m) j = Some x \<and> APIKeySnapshot_Hash x = h"
      using that assms(2) False by auto
    ultimately show ?thesis using i by (auto simp: remove_key_def)
  qed
  with assms(1) show ?thesis
    unfolding key_maps_ok_def by (auto simp: remove_key_def)
qed

lemma key_maps_insert:
  assumes "key_maps_ok m" and "gomap_get (byID m) (APIKeySnapshot_ID sn) = None"
    and "gomap_get (byHash m) (APIKeySnapshot_Hash sn) = None"
  shows "key_maps_ok (insert_key sn m)"
proof -
  have "gomap_get (byHash (insert_key sn m)) h = Some j \<longleftrightarrow>
      (\<exists>x. gomap_get (byID (insert_key sn m)) j = Some x \<and> APIKeySnapshot_Hash x = h)" for h j
  proof -
    have hash: "gomap_get (byHash m) h = Some j \<longleftrightarrow>
        (\<exists>x. gomap_get (byID m) j = Some x \<and> APIKeySnapshot_Hash x = h)" for h j
      using assms(1) by (simp add: key_maps_ok_def)
    show ?thesis
    proof (cases "j = APIKeySnapshot_ID sn")
      case True
      with hash [of h j] assms(2) show ?thesis by (auto simp: insert_key_def)
    next
      case False
      with hash [of h j] hash [of "APIKeySnapshot_Hash sn" j] assms(3)
      show ?thesis by (auto simp: insert_key_def)
    qed
  qed
  with assms(1) show ?thesis
    unfolding key_maps_ok_def by (auto simp: insert_key_def)
qed

lemma remove_key_get:
  "gomap_get (byID (remove_key sn m)) i =
     (if i = APIKeySnapshot_ID sn then None else gomap_get (byID m) i)"
  "gomap_get (byHash (remove_key sn m)) h =
     (if h = APIKeySnapshot_Hash sn then None else gomap_get (byHash m) h)"
  by (simp_all add: remove_key_def)

section \<open>The adapter meets the contract\<close>

interpretation mk: key_store WorkloadKeyRepo keys_view key_maps_ok
proof
  fix w :: "key_maps world"
  assume ok: "key_maps_ok (store w)"
  note repo = WorkloadKeyRepo_def WorkloadStore.simps
  show "attempts keys_view key_maps_ok w
      ((keys_view (store w))(APIKey_id k \<mapsto> APIKey_Snapshot k))
      (\<lambda>e. e = ErrConflict \<and> taken (keys_view (store w)) (APIKey_Snapshot k))
      (WorkloadStore_CreateKey WorkloadKeyRepo k w)" for k
    unfolding repo WorkloadKeyRepo_CreateKey_def
    by (rule checked_attempts)
       (use ok key_maps_insert [OF ok, of "APIKey_Snapshot k"] in
         \<open>auto simp: Let_def key_maps_taken\<close>)
  show "isl (fst (WorkloadStore_CreateKey WorkloadKeyRepo k w))"
    if "taken (keys_view (store w)) (APIKey_Snapshot k)" for k
    using that unfolding repo WorkloadKeyRepo_CreateKey_def
    by (auto simp: checked_def Let_def key_maps_taken [OF ok] and_then_def external_check_def
        tick_def split: option.splits)
  show "\<exists>x. key_by_hash (keys_view (store w)) h x \<and>
      reads keys_view key_maps_ok w x (WorkloadStore_GetKeyByHash WorkloadKeyRepo h w)" for h
  proof (cases "gomap_get (byHash (store w)) h")
    case None
    then have "key_by_hash (keys_view (store w)) h (Inl ErrNotFound)"
      using key_maps_hash [OF ok] by (auto simp: key_by_hash_def hash_taken_def keys_view_def)
    moreover have "reads keys_view key_maps_ok w (Inl ErrNotFound)
        (WorkloadStore_GetKeyByHash WorkloadKeyRepo h w)"
      unfolding repo WorkloadKeyRepo_GetKeyByHash_def
      by (rule checked_reads) (use ok None in auto)
    ultimately show ?thesis by blast
  next
    case (Some i)
    then obtain sn where sn: "gomap_get (byID (store w)) i = Some sn" "APIKeySnapshot_Hash sn = h"
      using ok by (auto simp: key_maps_ok_def)
    then have "key_by_hash (keys_view (store w)) h (Inr (APIKeyFromSnapshot sn))"
      by (auto simp: key_by_hash_def keys_view_def)
    moreover have "reads keys_view key_maps_ok w (Inr (APIKeyFromSnapshot sn))
        (WorkloadStore_GetKeyByHash WorkloadKeyRepo h w)"
      unfolding repo WorkloadKeyRepo_GetKeyByHash_def
      by (rule checked_reads) (use ok Some sn in auto)
    ultimately show ?thesis by blast
  qed
  show "reads keys_view key_maps_ok w (key_at (keys_view (store w)) i)
      (WorkloadStore_GetKey WorkloadKeyRepo i w)" for i
    unfolding repo WorkloadKeyRepo_GetKey_def
    by (rule checked_reads) (use ok in \<open>auto simp: key_at_def keys_view_def split: option.splits\<close>)
  show "\<exists>ks. set ks = worker_keys (keys_view (store w)) (WorkerID_String v) \<and>
      reads keys_view key_maps_ok w (Inr ks) (WorkloadStore_ListKeysByWorker WorkloadKeyRepo v w)" for v
  proof (intro exI conjI)
    let ?ks = "map APIKeyFromSnapshot
        (filter (\<lambda>snap. APIKeySnapshot_WorkerID snap = WorkerID_String v)
           (gomap_values (byID (store w))))"
    have "set (gomap_values (byID (store w))) = ran (gomap_get (byID (store w)))"
      using ok by (intro gomap_values_set) (simp add: key_maps_ok_def)
    then show "set ?ks = worker_keys (keys_view (store w)) (WorkerID_String v)"
      by (auto simp: worker_keys_def keys_view_def ran_def)
    show "reads keys_view key_maps_ok w (Inr ?ks) (WorkloadStore_ListKeysByWorker WorkloadKeyRepo v w)"
      unfolding repo WorkloadKeyRepo_ListKeysByWorker_def
      by (rule checked_reads) (use ok in auto)
  qed
  show "(if keys_view (store w) i = None then reads keys_view key_maps_ok w (Inl ErrNotFound)
       else writes keys_view key_maps_ok w ((keys_view (store w))(i := None)) ())
      (WorkloadStore_DeleteKey WorkloadKeyRepo i w)" for i
  proof (cases "gomap_get (byID (store w)) i")
    case None
    have "reads keys_view key_maps_ok w (Inl ErrNotFound) (WorkloadStore_DeleteKey WorkloadKeyRepo i w)"
      unfolding repo WorkloadKeyRepo_DeleteKey_def
      by (rule checked_reads) (use ok None in auto)
    with None show ?thesis by (simp add: keys_view_def)
  next
    case (Some sn)
    have "writes keys_view key_maps_ok w ((keys_view (store w))(i := None)) ()
        (WorkloadStore_DeleteKey WorkloadKeyRepo i w)"
      unfolding repo WorkloadKeyRepo_DeleteKey_def
      by (rule checked_writes)
         (use ok Some key_maps_keyed [OF ok Some] key_maps_remove [OF ok Some] in auto)
    with Some show ?thesis by (simp add: keys_view_def)
  qed
  fix swap i k
  assume "WorkloadStore_RotateAtomically WorkloadKeyRepo = Some swap"
  then have swap: "swap = WorkloadKeyRepo_RotateAtomically" by (simp add: repo)
  have fine: "key_maps_ok (insert_key (APIKey_Snapshot k) (remove_key old (store w)))"
    if "gomap_get (byID (store w)) i = Some old"
      "gomap_get (byID (store w)) (APIKey_id k) = None"
      "gomap_get (byHash (store w)) (APIKey_hash k) = None" for old
    using key_maps_remove [OF ok that(1)] that by (intro key_maps_insert) (auto simp: remove_key_get)
  show "attempts keys_view key_maps_ok w
      ((keys_view (store w))(i := None, APIKey_id k \<mapsto> APIKey_Snapshot k))
      (\<lambda>e. e = ErrNotFound \<and> keys_view (store w) i = None \<or>
           e = ErrConflict \<and> taken (keys_view (store w)) (APIKey_Snapshot k)) (swap i k w)"
    unfolding swap WorkloadKeyRepo_RotateAtomically_def
    by (rule checked_attempts)
       (use ok fine key_maps_keyed [OF ok] in
         \<open>auto simp: Let_def key_maps_taken keys_view_def [symmetric] split: option.splits\<close>)
  show "isl (fst (swap i k w))"
    if "taken (keys_view (store w)) (APIKey_Snapshot k) \<or> keys_view (store w) i = None"
    using that unfolding swap WorkloadKeyRepo_RotateAtomically_def
    by (auto simp: checked_def Let_def key_maps_taken [OF ok, unfolded keys_view_def] and_then_def external_check_def
        tick_def keys_view_def split: option.splits)
next
  fix m i sn
  assume "key_maps_ok m" and "keys_view m i = Some sn"
  then show "APIKeySnapshot_ID sn = i" using key_maps_keyed by (simp add: keys_view_def)
next
  fix m i sn j sn'
  assume "key_maps_ok m" and "keys_view m i = Some sn" and "keys_view m j = Some sn'"
    and "APIKeySnapshot_Hash sn = APIKeySnapshot_Hash sn'"
  then show "i = j"
    using key_maps_hash [of m i sn] key_maps_hash [of m j sn'] by (simp add: keys_view_def)
qed

end
