(* ===== verification/KeyProps.thy ===== *)
theory KeyProps
  imports MemoryKeys
begin

text \<open>
  The properties of permissions, scopes and workload keys: what a scope grants, that
  authorization implies a live stored key whose scope grants the permission, and what issuing,
  rotating and revoking do to the in-memory store.
\<close>

section \<open>A concrete key\<close>

definition demo_scope :: Scope where "demo_scope = Scope [''memory:*'']"

definition demo_permission :: Permission where
  "demo_permission = \<lparr>Permission_resource = ''memory'', Permission_action = ''read''\<rparr>"

lemma segments [simp]: "segment ''memory''" "segment ''read''" "segment star"
  by (auto simp: segment_def star_def segment_rune_def byte_def)

lemma demo_permission_parse: "NewPermission ul ''memory:read'' = Inr demo_permission"
proof -
  have e: "''memory:read'' = entry ''memory'' ''read''" by (simp add: entry_def colon_def)
  show ?thesis
    unfolding e NewPermission_iff
    by (simp add: entry_normal demo_permission_def star_def)
       (simp add: entry_def Permission_String_def)
qed

lemma demo_scope_parse: "splitScopeEntryAllowWildcard ul ''memory:*'' = Inr (''memory'', star)"
proof -
  have e: "''memory:*'' = entry ''memory'' star" by (simp add: entry_def colon_def star_def)
  show ?thesis unfolding e by (rule split_entry) simp_all
qed

lemma demo_NewScope: "NewScope ul [''memory:*''] = Inr demo_scope"
  by (simp add: NewScope_def demo_scope_parse demo_scope_def colon_def star_def)

definition demo_worker_token :: WorkloadToken where
  "demo_worker_token = WorkloadToken (hex_encode (map (calm_bytes 1) [0..<workloadTokenBytes]))"

definition demo_api_key :: APIKey where
  "demo_api_key =
     \<lparr>APIKey_id = ''wk_'' @ hex_encode (map (calm_bytes 2) [0..<keyIDBytes]),
      APIKey_hash = HashWorkloadToken demo_worker_token, APIKey_workerID = WorkerID ''w'',
      APIKey_scope = demo_scope, APIKey_expiresAt = 2000, APIKey_createdAt = 1000\<rparr>"

definition demo_request :: KeyRequest where
  "demo_request = \<lparr>KeyRequest_WorkerID = WorkerID ''w'', KeyRequest_Scope = demo_scope,
     KeyRequest_ExpiresAt = 2000\<rparr>"

definition demo_key_world :: "key_maps world" where
  "demo_key_world = calm 1000 4 (insert_key (APIKey_Snapshot demo_api_key) NewWorkloadKeyRepo)"

lemma demo_key_issue:
  "WorkloadKeyService_IssueKey WorkloadKeyRepo demo_request (calm 1000 0 NewWorkloadKeyRepo)
   = (Inr (demo_api_key, demo_worker_token), demo_key_world)"
  by (simp add: WorkloadKeyService_IssueKey_def WorkloadKeyService_issue_def demo_request_def
      WorkerID_IsZero_def Scope_IsZero_def demo_scope_def before_def NewWorkloadToken_def
      randomKeyID_def WorkloadKeyRepo_def WorkloadKeyRepo_CreateKey_def NewWorkloadKeyRepo_def
      demo_api_key_def demo_worker_token_def demo_key_world_def Let_def numeral_2_eq_2
      numeral_3_eq_3 numeral_eq_Suc)

lemma demo_key_world_simps [simp]:
  "key_maps_ok (store demo_key_world)" "quiet demo_key_world" "clock_before demo_key_world 2000"
  "key_maps_ok (store (calm 1000 0 NewWorkloadKeyRepo))"
  "keys_view (store demo_key_world) = [APIKey_id demo_api_key \<mapsto> APIKey_Snapshot demo_api_key]"
proof -
  have e: "gomap_get (byID NewWorkloadKeyRepo) i = None" "gomap_get (byHash NewWorkloadKeyRepo) h = None"
    "keys_view NewWorkloadKeyRepo = Map.empty" for i h
    by (simp_all add: NewWorkloadKeyRepo_def keys_view_def)
  show "key_maps_ok (store demo_key_world)"
    by (simp add: demo_key_world_def key_maps_insert e)
  show "keys_view (store demo_key_world) = [APIKey_id demo_api_key \<mapsto> APIKey_Snapshot demo_api_key]"
    by (simp add: demo_key_world_def e)
qed (simp_all add: demo_key_world_def)

section \<open>Scopes\<close>

text \<open>C28: a scope grants a permission exactly if one of the entries it was built from covers it,
  half by half, with \<open>*\<close> covering any half.\<close>

theorem scope_grants_exactly:
  assumes "NewScope ul actions = Inr s"
  shows "Scope_Allows s p \<longleftrightarrow>
    (\<exists>x \<in> set actions. \<exists>r a. splitScopeEntryAllowWildcard ul x = Inr (r, a) \<and>
       (r = star \<or> r = Permission_resource p) \<and> (a = star \<or> a = Permission_action p))"
  using NewScope_Allows [OF assms] by (auto simp: covers_def)

theorem scope_grants_exactly_witness: "Scope_Allows demo_scope demo_permission"
  using scope_grants_exactly [OF demo_NewScope [of id], of demo_permission] demo_scope_parse [of id]
  by (simp add: demo_permission_def)

text \<open>A canonical scope read back from storage is accepted unchanged: sorted, without
  duplicates, every entry canonical.\<close>

theorem scope_canonical_roundtrip:
  assumes "NewScope ul actions = Inr s"
  shows "NewScope ul' (Scope_Actions s) = Inr s \<and> sorted (Scope_Actions s) \<and>
    distinct (Scope_Actions s)"
  using NewScope_Inr [OF assms] NewScope_canonical by (auto simp: scope_ok_def)

theorem scope_canonical_roundtrip_witness: "NewScope id (Scope_Actions demo_scope) = Inr demo_scope"
  using scope_canonical_roundtrip [OF demo_NewScope [of id], of id] by simp

text \<open>The text of a permission parses back to it, and a permission is never a wildcard.\<close>

theorem permission_print_parse:
  assumes "NewPermission ul s = Inr p"
  shows "NewPermission ul' (Permission_String p) = Inr p \<and>
    Permission_resource p \<noteq> star \<and> Permission_action p \<noteq> star"
  using NewPermission_print [OF assms] assms
    entry_normal [of "Permission_resource p" "Permission_action p" ul']
  by (simp add: NewPermission_iff Permission_String_def entry_def)

theorem permission_print_parse_witness:
  "NewPermission id (Permission_String demo_permission) = Inr demo_permission"
  using permission_print_parse [OF demo_permission_parse [of id], of id] by simp

section \<open>Keys\<close>

text \<open>C8: authorization succeeds only with a token whose digest belongs to a stored key that is
  not expired and whose scope grants the requested permission.\<close>

theorem key_authorize_sound:
  assumes "key_maps_ok (store w)"
    and "WorkloadKeyService_Authorize ul WorkloadKeyRepo tok permission w = (Inr x, w')"
  shows "\<exists>i sn perm now. keys_view (store w) i = Some sn \<and>
    APIKeySnapshot_Hash sn = HashWorkloadToken tok \<and> read_between w now w' \<and>
    now < APIKeySnapshot_ExpiresAt sn \<and> NewPermission ul permission = Inr perm \<and>
    Scope_Allows (Scope (APIKeySnapshot_Scope sn)) perm"
  using assms by (rule mk.authorize_sound)

theorem key_authorize_sound_witness:
  "\<exists>w'. WorkloadKeyService_Authorize id WorkloadKeyRepo demo_worker_token ''memory:read'' demo_key_world
     = (Inr (), w') \<and>
   (\<exists>i sn. keys_view (store demo_key_world) i = Some sn \<and>
      APIKeySnapshot_Hash sn = HashWorkloadToken demo_worker_token)"
proof -
  have "fst (WorkloadKeyService_Authorize id WorkloadKeyRepo demo_worker_token ''memory:read'' demo_key_world)
      = Inr ()"
    using mk.issue_then_authorize [OF _ demo_key_issue _ _ demo_permission_parse [of id]]
      scope_ok_Allows NewScope_Allows [OF demo_NewScope [of id], of demo_permission]
    by (simp add: demo_request_def demo_scope_parse covers_def demo_permission_def)
  then obtain w' where a: "WorkloadKeyService_Authorize id WorkloadKeyRepo demo_worker_token
      ''memory:read'' demo_key_world = (Inr (), w')" by (metis prod.collapse)
  from key_authorize_sound [OF _ a] obtain i sn where "keys_view (store demo_key_world) i = Some sn"
    and "APIKeySnapshot_Hash sn = HashWorkloadToken demo_worker_token" by auto
  with a show ?thesis by blast
qed

text \<open>C29: a key that was issued authorizes exactly what its scope grants, until it expires.\<close>

theorem key_issue_authorize:
  assumes "key_maps_ok (store w)"
    and "WorkloadKeyService_IssueKey WorkloadKeyRepo req w = (Inr (key, raw), w1)"
    and "quiet w1" and "clock_before w1 (KeyRequest_ExpiresAt req)"
    and "NewPermission ul permission = Inr perm"
  shows "fst (WorkloadKeyService_Authorize ul WorkloadKeyRepo raw permission w1)
    = (if Scope_Allows (KeyRequest_Scope req) perm then Inr () else Inl ErrScopeDenied)"
  using assms by (rule mk.issue_then_authorize)

theorem key_issue_authorize_witness:
  "fst (WorkloadKeyService_Authorize id WorkloadKeyRepo demo_worker_token ''memory:read'' demo_key_world)
   = Inr ()"
  using key_issue_authorize [OF _ demo_key_issue _ _ demo_permission_parse [of id]]
    NewScope_Allows [OF demo_NewScope [of id], of demo_permission]
  by (simp add: demo_request_def demo_scope_parse covers_def demo_permission_def)

text \<open>Rotating a key replaces it by a fresh key of the same worker, scope and expiry in one
  step, and the old token no longer belongs to any key.\<close>

theorem key_rotation:
  assumes "key_maps_ok (store w)"
    and "WorkloadKeyService_RotateKey WorkloadKeyRepo i w = (Inr (key, raw), w')"
  shows "\<exists>sn. keys_view (store w) i = Some sn \<and>
    keys_view (store w') = (keys_view (store w))(i := None, APIKey_id key \<mapsto> APIKey_Snapshot key) \<and>
    APIKey_workerID key = WorkerID (APIKeySnapshot_WorkerID sn) \<and>
    APIKey_scope key = Scope (APIKeySnapshot_Scope sn) \<and>
    APIKey_expiresAt key = APIKeySnapshot_ExpiresAt sn \<and>
    APIKey_hash key = HashWorkloadToken raw \<and>
    \<not> hash_taken (keys_view (store w')) (APIKeySnapshot_Hash sn)"
proof -
  from mk.rotate_key_effect [OF assms] obtain sn where sn: "keys_view (store w) i = Some sn"
    and k: "key_for \<lparr>KeyRequest_WorkerID = WorkerID (APIKeySnapshot_WorkerID sn),
                KeyRequest_Scope = Scope (APIKeySnapshot_Scope sn),
                KeyRequest_ExpiresAt = APIKeySnapshot_ExpiresAt sn\<rparr> w key raw w'"
    and v: "keys_view (store w') = (keys_view (store w))(i := None, APIKey_id key \<mapsto> APIKey_Snapshot key)"
    and fresh: "\<not> taken (keys_view (store w)) (APIKey_Snapshot key)" by auto
  have "\<not> hash_taken (keys_view (store w')) (APIKeySnapshot_Hash sn)"
  proof
    assume "hash_taken (keys_view (store w')) (APIKeySnapshot_Hash sn)"
    then obtain j sn' where "keys_view (store w') j = Some sn'"
      and h: "APIKeySnapshot_Hash sn' = APIKeySnapshot_Hash sn" by (auto simp: hash_taken_def)
    then consider "sn' = APIKey_Snapshot key" | "j \<noteq> i" "keys_view (store w) j = Some sn'"
      by (auto simp: v split: if_splits)
    then show False
    proof cases
      case 1
      with fresh sn h show False by (auto simp: taken_def hash_taken_def)
    next
      case 2
      with mk.one_hash [OF assms(1) _ sn h] show False by simp
    qed
  qed
  with sn k v show ?thesis by (auto simp: key_for_def)
qed

text \<open>A store with one key, under the identifier \<open>k\<close>, and its rotation.\<close>

definition one_key :: APIKeySnapshot where
  "one_key = zero_key_snapshot\<lparr>APIKeySnapshot_ID := ''k'', APIKeySnapshot_WorkerID := ''w'',
     APIKeySnapshot_Scope := [''memory:*''], APIKeySnapshot_ExpiresAt := 2000\<rparr>"

definition one_key_world :: "key_maps world" where
  "one_key_world = calm 1000 0 (insert_key one_key NewWorkloadKeyRepo)"

lemma one_key_world_simps [simp]:
  "key_maps_ok (store one_key_world)" "quiet one_key_world"
  "keys_view (store one_key_world) = [''k'' \<mapsto> one_key]"
  "APIKeySnapshot_WorkerID one_key = ''w''" "APIKeySnapshot_Scope one_key = [''memory:*'']"
  "APIKeySnapshot_Hash one_key = []"
proof -
  have e: "gomap_get (byID NewWorkloadKeyRepo) i = None" "gomap_get (byHash NewWorkloadKeyRepo) h = None"
    "keys_view NewWorkloadKeyRepo = Map.empty" for i h
    by (simp_all add: NewWorkloadKeyRepo_def keys_view_def)
  show "key_maps_ok (store one_key_world)"
    by (simp add: one_key_world_def key_maps_insert e)
  show "keys_view (store one_key_world) = [''k'' \<mapsto> one_key]"
    by (simp add: one_key_world_def e one_key_def)
qed (simp_all add: one_key_world_def one_key_def zero_key_snapshot_def)

lemma one_key_rotate:
  "\<exists>key raw w'. WorkloadKeyService_RotateKey WorkloadKeyRepo ''k'' one_key_world = (Inr (key, raw), w')"
  by (simp add: WorkloadKeyService_RotateKey_def WorkloadKeyService_issue_def WorkerID_IsZero_def
      Scope_IsZero_def before_def NewWorkloadToken_def randomKeyID_def WorkloadKeyRepo_def
      WorkloadKeyRepo_GetKey_def WorkloadKeyRepo_RotateAtomically_def NewWorkloadKeyRepo_def
      zero_key_snapshot_def insert_key_def remove_key_def HashWorkloadToken_def one_key_def
      one_key_world_def Let_def)

theorem key_rotation_witness:
  "\<exists>key raw w'. WorkloadKeyService_RotateKey WorkloadKeyRepo ''k'' one_key_world = (Inr (key, raw), w') \<and>
     keys_view (store w') = [APIKey_id key \<mapsto> APIKey_Snapshot key] \<and>
     APIKey_scope key = Scope [''memory:*'']"
proof -
  obtain key raw w' where r:
    "WorkloadKeyService_RotateKey WorkloadKeyRepo ''k'' one_key_world = (Inr (key, raw), w')"
    using one_key_rotate by blast
  from key_rotation [OF _ r] have "keys_view (store w') = [APIKey_id key \<mapsto> APIKey_Snapshot key]"
    and "APIKey_scope key = Scope [''memory:*'']" by (auto split: if_splits)
  with r show ?thesis by blast
qed

text \<open>Revoking all keys of a worker removes exactly that worker's keys.\<close>

theorem key_revoke_all_exact:
  assumes "key_maps_ok (store w)"
    and "WorkloadKeyService_RevokeAllKeys WorkloadKeyRepo v w = (Inr x, w')"
  shows "keys_view (store w') i = Some sn \<longleftrightarrow>
    keys_view (store w) i = Some sn \<and> APIKeySnapshot_WorkerID sn \<noteq> WorkerID_String v"
proof -
  note e = mk.revoke_all_keys_effect [OF assms]
  then have i: "keys_view (store w') i = keys_view (store w) i \<or> keys_view (store w') i = None \<and>
      (\<exists>sn. keys_view (store w) i = Some sn \<and> APIKeySnapshot_WorkerID sn = WorkerID_String v)"
    and none: "worker_keys (keys_view (store w')) (WorkerID_String v) = {}" by auto
  have "APIKeySnapshot_WorkerID sn \<noteq> WorkerID_String v" if "keys_view (store w') i = Some sn"
    using none that by (auto simp: worker_keys_def)
  with i show ?thesis by auto
qed

theorem key_revoke_all_exact_witness:
  "\<exists>w'. WorkloadKeyService_RevokeAllKeys WorkloadKeyRepo (WorkerID ''w'') one_key_world = (Inr (), w') \<and>
     keys_view (store w') ''k'' = None"
proof -
  obtain w' where r: "WorkloadKeyService_RevokeAllKeys WorkloadKeyRepo (WorkerID ''w'') one_key_world
      = (Inr (), w')"
    by (simp add: WorkloadKeyService_RevokeAllKeys_def WorkloadKeyRepo_def
        WorkloadKeyRepo_ListKeysByWorker_def WorkloadKeyRepo_DeleteKey_def one_key_world_def
        NewWorkloadKeyRepo_def insert_key_def gomap_set_def gomap_values_def gomap_get_def one_key_def)
  have "keys_view (store w') ''k'' \<noteq> Some sn" for sn
    using key_revoke_all_exact [OF _ r, of "''k''" sn] by auto
  then have "keys_view (store w') ''k'' = None" by (cases "keys_view (store w') ''k''") auto
  with r show ?thesis by blast
qed

section \<open>The two maps\<close>

datatype key_op = CreateOp APIKey | DeleteOp KeyID | RotateOp KeyID APIKey

fun run_key_op :: "key_op \<Rightarrow> key_maps world \<Rightarrow> key_maps world" where
  "run_key_op (CreateOp k) w = snd (WorkloadKeyRepo_CreateKey k w)"
| "run_key_op (DeleteOp i) w = snd (WorkloadKeyRepo_DeleteKey i w)"
| "run_key_op (RotateOp i k) w = snd (WorkloadKeyRepo_RotateAtomically i k w)"

lemma run_key_op_ok: "key_maps_ok (store w) \<Longrightarrow> key_maps_ok (store (run_key_op c w))"
proof (cases c)
  case (CreateOp k)
  assume "key_maps_ok (store w)"
  from mk.create [OF this, of k] CreateOp show ?thesis
    by (simp add: attempts_def settled_def WorkloadKeyRepo_def)
next
  case (DeleteOp i)
  assume "key_maps_ok (store w)"
  from mk.delete [OF this, of i] DeleteOp show ?thesis
    by (simp add: reads_def writes_def settled_def WorkloadKeyRepo_def split: if_splits)
next
  case (RotateOp i k)
  assume "key_maps_ok (store w)"
  from mk.rotate [OF _ this, of _ i k] RotateOp show ?thesis
    by (simp add: attempts_def settled_def WorkloadKeyRepo_def)
qed

text \<open>The two maps of the in-memory key store stay consistent under any sequence of its
  changing operations, failures included: every key is found under its digest and every digest
  leads to a stored key.\<close>

theorem key_maps_consistent:
  assumes "store w = NewWorkloadKeyRepo"
  shows "gomap_get (byHash (store (fold run_key_op ops w))) h = Some i \<longleftrightarrow>
    (\<exists>sn. gomap_get (byID (store (fold run_key_op ops w))) i = Some sn \<and>
       APIKeySnapshot_ID sn = i \<and> APIKeySnapshot_Hash sn = h)"
proof -
  have "key_maps_ok (store (fold run_key_op ops w))" if "key_maps_ok (store w)" for w
    using that by (induction ops arbitrary: w) (simp_all add: run_key_op_ok)
  then have "key_maps_ok (store (fold run_key_op ops w))" using assms by simp
  then show ?thesis by (auto simp: key_maps_ok_def)
qed

theorem key_maps_consistent_witness:
  "\<not> (\<exists>sn. gomap_get (byID (store (fold run_key_op [CreateOp demo_api_key, DeleteOp (APIKey_id demo_api_key)]
      (calm 0 0 NewWorkloadKeyRepo)))) ''k'' = Some sn \<and> APIKeySnapshot_ID sn = ''k'' \<and>
      APIKeySnapshot_Hash sn = [])"
  using key_maps_consistent [of "calm 0 0 NewWorkloadKeyRepo"
      "[CreateOp demo_api_key, DeleteOp (APIKey_id demo_api_key)]" "[]" "''k''"]
  by (simp add: WorkloadKeyRepo_CreateKey_def WorkloadKeyRepo_DeleteKey_def NewWorkloadKeyRepo_def
      insert_key_def remove_key_def APIKey_Snapshot_def)

end
