(* ===== verification/User.thy ===== *)
theory User
  imports Values
begin

text \<open>
  \<open>src/domain/user.go\<close>: the \<open>User\<close> aggregate, its snapshot and the \<open>UserRepository\<close> port. The
  port is a record of functions, one per method of the Go interface, over a world \<open>'w\<close>.
\<close>

record User =
  User_id :: UserID
  User_tenantID :: TenantID
  User_email :: Email
  User_createdAt :: time
  User_updatedAt :: time

definition NewUser :: "UserID \<Rightarrow> TenantID \<Rightarrow> Email \<Rightarrow> time \<Rightarrow> time \<Rightarrow> User res" where
  "NewUser i tenant email created updated =
     (if UserID_IsZero i then Inl ErrInvalidUserID
      else if TenantID_IsZero tenant then Inl ErrInvalidTenantID
      else if Email_String email = [] then Inl ErrInvalidEmail
      else Inr \<lparr>User_id = i, User_tenantID = tenant, User_email = email,
                User_createdAt = created, User_updatedAt = updated\<rparr>)"

definition User_IsZero :: "User \<Rightarrow> bool" where
  "User_IsZero u \<longleftrightarrow> UserID_IsZero (User_id u)"

record UserSnapshot =
  UserSnapshot_ID :: string
  UserSnapshot_TenantID :: string
  UserSnapshot_Email :: string
  UserSnapshot_CreatedAt :: time
  UserSnapshot_UpdatedAt :: time

definition User_Snapshot :: "User \<Rightarrow> UserSnapshot" where
  "User_Snapshot u =
     \<lparr>UserSnapshot_ID = UserID_String (User_id u),
      UserSnapshot_TenantID = TenantID_String (User_tenantID u),
      UserSnapshot_Email = Email_String (User_email u),
      UserSnapshot_CreatedAt = User_createdAt u,
      UserSnapshot_UpdatedAt = User_updatedAt u\<rparr>"

definition UserFromSnapshot :: "UserSnapshot \<Rightarrow> User" where
  "UserFromSnapshot s =
     \<lparr>User_id = UserID (UserSnapshot_ID s),
      User_tenantID = TenantID (UserSnapshot_TenantID s),
      User_email = Email (UserSnapshot_Email s),
      User_createdAt = UserSnapshot_CreatedAt s,
      User_updatedAt = UserSnapshot_UpdatedAt s\<rparr>"

lemma User_snapshot_roundtrip [simp]:
  "UserFromSnapshot (User_Snapshot u) = u" "User_Snapshot (UserFromSnapshot s) = s"
  by (simp_all add: UserFromSnapshot_def User_Snapshot_def)

lemma User_Snapshot_fields [snapshot_simps]:
  "UserSnapshot_ID (User_Snapshot u) = UserID_String (User_id u)"
  "UserSnapshot_TenantID (User_Snapshot u) = TenantID_String (User_tenantID u)"
  by (simp_all add: User_Snapshot_def)

text \<open>\<open>UserRepository\<close>.\<close>

record 'w UserRepository =
  UserRepository_GetUser :: "TenantID \<Rightarrow> UserID \<Rightarrow> 'w \<Rightarrow> User res \<times> 'w"
  UserRepository_UpsertUser :: "User \<Rightarrow> 'w \<Rightarrow> unit res \<times> 'w"

text \<open>
  The contract of the port: a table of user snapshots keyed by the user's identifier. A user
  stored under another tenant reads as not found.
\<close>

definition tenant_lookup :: "(string \<rightharpoonup> UserSnapshot) \<Rightarrow> TenantID \<Rightarrow> UserID \<Rightarrow> User res" where
  "tenant_lookup m tenant i =
     (case m (UserID_String i) of
        Some s \<Rightarrow> if UserSnapshot_TenantID s = TenantID_String tenant
                  then Inr (UserFromSnapshot s) else Inl ErrNotFound
      | None \<Rightarrow> Inl ErrNotFound)"

locale user_store =
  fixes P :: "('s world) UserRepository"
    and view :: "'s \<Rightarrow> (string \<rightharpoonup> UserSnapshot)"
    and legal :: "'s \<Rightarrow> bool"
  assumes get_user: "legal (store w) \<Longrightarrow>
      reads view legal w (tenant_lookup (view (store w)) tenant i)
        (UserRepository_GetUser P tenant i w)"
    and upsert_user: "legal (store w) \<Longrightarrow>
      writes view legal w
        ((view (store w))(UserSnapshot_ID (User_Snapshot u) \<mapsto> User_Snapshot u)) ()
        (UserRepository_UpsertUser P u w)"
begin

lemma upsert_then_get:
  assumes "legal (store w)" and "UserRepository_UpsertUser P u w = (Inr x, w1)"
    and "UserRepository_GetUser P tenant i w1 = (r, w2)" and "quiet w1"
  shows "r = (if i = User_id u
              then (if tenant = User_tenantID u then Inr u else Inl ErrNotFound)
              else tenant_lookup (view (store w)) tenant i)"
proof -
  from upsert_user [OF assms(1), of u] assms(2)
  have up: "view (store w1) =
      (view (store w))(UserSnapshot_ID (User_Snapshot u) \<mapsto> User_Snapshot u)"
    and "legal (store w1)"
    by (auto simp: writes_def settled_def)
  from get_user [OF this(2), of tenant i] assms(3,4)
  have "r = tenant_lookup (view (store w1)) tenant i"
    by (auto simp: reads_def)
  then show ?thesis
    by (auto simp: up tenant_lookup_def snapshot_simps UserID.expand TenantID.expand
        split: option.splits)
qed

lemma get_respects_tenant:
  assumes "legal (store w)" and "UserRepository_GetUser P tenant i w = (Inr u, w')"
  shows "User_tenantID u = tenant \<and> view (store w') = view (store w)"
  using get_user [OF assms(1), of tenant i] assms(2)
  by (auto simp: reads_def tenant_lookup_def UserFromSnapshot_def TenantID.expand
      split: option.splits if_splits)

end

end
