(* ===== verification/Session.thy ===== *)
theory Session
  imports Values
begin

text \<open>
  \<open>src/domain/session.go\<close> and the \<open>SessionService\<close> of \<open>src/domain/services.go\<close>.

  The \<open>SessionRepository\<close> port is a record of functions; the optional capability
  \<open>AtomicSessionRotator\<close>, which the service finds by a type assertion, is an optional field.
  The locale \<open>session_store\<close> is the contract of the port (a table of snapshots keyed by the
  stored hash), and the properties of the service are proved once inside it, for every adapter.
\<close>

section \<open>The aggregate and its snapshot\<close>

record Session =
  Session_token :: Token
  Session_tokenHash :: string
  Session_userID :: UserID
  Session_tenantID :: TenantID
  Session_createdAt :: time
  Session_expiresAt :: time

definition Session_Expired :: "Session \<Rightarrow> time \<Rightarrow> bool" where
  "Session_Expired s now \<longleftrightarrow> expired_at (Session_expiresAt s) now"

definition Session_IsZero :: "Session \<Rightarrow> bool" where
  "Session_IsZero s \<longleftrightarrow> Session_tokenHash s = [] \<and> Token_String (Session_token s) = []"

record SessionSnapshot =
  SessionSnapshot_Token :: string
  SessionSnapshot_UserID :: string
  SessionSnapshot_TenantID :: string
  SessionSnapshot_CreatedAt :: time
  SessionSnapshot_ExpiresAt :: time

definition Session_Snapshot :: "Session \<Rightarrow> SessionSnapshot" where
  "Session_Snapshot s =
     (let hash =
        (if Session_tokenHash s = [] \<and> Token_String (Session_token s) \<noteq> []
         then HashToken (Session_token s) else Session_tokenHash s)
      in \<lparr>SessionSnapshot_Token = hash,
          SessionSnapshot_UserID = UserID_String (Session_userID s),
          SessionSnapshot_TenantID = TenantID_String (Session_tenantID s),
          SessionSnapshot_CreatedAt = Session_createdAt s,
          SessionSnapshot_ExpiresAt = Session_expiresAt s\<rparr>)"

definition SessionFromSnapshot :: "SessionSnapshot \<Rightarrow> Session" where
  "SessionFromSnapshot s =
     \<lparr>Session_token = zero_token,
      Session_tokenHash = SessionSnapshot_Token s,
      Session_userID = UserID (SessionSnapshot_UserID s),
      Session_tenantID = TenantID (SessionSnapshot_TenantID s),
      Session_createdAt = SessionSnapshot_CreatedAt s,
      Session_expiresAt = SessionSnapshot_ExpiresAt s\<rparr>"

lemma SessionFromSnapshot_fields [simp]:
  "Session_token (SessionFromSnapshot s) = zero_token"
  "Session_tokenHash (SessionFromSnapshot s) = SessionSnapshot_Token s"
  "UserID_String (Session_userID (SessionFromSnapshot s)) = SessionSnapshot_UserID s"
  "TenantID_String (Session_tenantID (SessionFromSnapshot s)) = SessionSnapshot_TenantID s"
  "Session_createdAt (SessionFromSnapshot s) = SessionSnapshot_CreatedAt s"
  "Session_expiresAt (SessionFromSnapshot s) = SessionSnapshot_ExpiresAt s"
  by (simp_all add: SessionFromSnapshot_def)

lemma Session_Snapshot_fields [simp]:
  "SessionSnapshot_UserID (Session_Snapshot s) = UserID_String (Session_userID s)"
  "SessionSnapshot_TenantID (Session_Snapshot s) = TenantID_String (Session_tenantID s)"
  "SessionSnapshot_CreatedAt (Session_Snapshot s) = Session_createdAt s"
  "SessionSnapshot_ExpiresAt (Session_Snapshot s) = Session_expiresAt s"
  by (simp_all add: Session_Snapshot_def Let_def)

lemma Session_Snapshot_hash [simp]:
  "Session_tokenHash s \<noteq> [] \<Longrightarrow> SessionSnapshot_Token (Session_Snapshot s) = Session_tokenHash s"
  by (simp add: Session_Snapshot_def Let_def)

lemma Session_snapshot_hydrate:
  "Session_tokenHash s \<noteq> [] \<Longrightarrow>
   SessionFromSnapshot (Session_Snapshot s) = s\<lparr>Session_token := zero_token\<rparr>"
  by (simp add: SessionFromSnapshot_def Session_Snapshot_def Let_def)

lemma Session_snapshot_stable [simp]:
  "Session_Snapshot (SessionFromSnapshot s) = s"
  by (simp add: SessionFromSnapshot_def Session_Snapshot_def Let_def zero_token_def)

section \<open>The port and the service\<close>

record 'w SessionRepository =
  SessionRepository_Save :: "Session \<Rightarrow> 'w \<Rightarrow> unit res \<times> 'w"
  SessionRepository_FindByToken :: "Token \<Rightarrow> 'w \<Rightarrow> Session res \<times> 'w"
  SessionRepository_Delete :: "Token \<Rightarrow> 'w \<Rightarrow> unit res \<times> 'w"
  SessionRepository_DeleteByUser :: "UserID \<Rightarrow> 'w \<Rightarrow> unit res \<times> 'w"
  SessionRepository_RotateAtomically :: "(Token \<Rightarrow> Session \<Rightarrow> 'w \<Rightarrow> unit res \<times> 'w) option"

record 'w SessionService =
  SessionService_repo :: "'w SessionRepository"
  SessionService_ttl :: duration

definition NewSessionService :: "'w SessionRepository \<Rightarrow> duration \<Rightarrow> 'w SessionService" where
  "NewSessionService repo ttl = \<lparr>SessionService_repo = repo, SessionService_ttl = ttl\<rparr>"

definition SessionService_newSession ::
  "('s world) SessionService \<Rightarrow> UserID \<Rightarrow> TenantID \<Rightarrow> 's world \<Rightarrow> Session res \<times> 's world" where
  "SessionService_newSession s userID tenantID w =
     (if UserID_IsZero userID then (Inl ErrInvalidUserID, w)
      else if TenantID_IsZero tenantID then (Inl ErrInvalidTenantID, w)
      else and_then (NewToken w) (\<lambda>tok w.
        let (t, w) = read_clock w in
        (Inr \<lparr>Session_token = tok, Session_tokenHash = HashToken tok,
              Session_userID = userID, Session_tenantID = tenantID,
              Session_createdAt = t, Session_expiresAt = t + SessionService_ttl s\<rparr>, w)))"

definition SessionService_Issue ::
  "('s world) SessionService \<Rightarrow> UserID \<Rightarrow> TenantID \<Rightarrow> 's world \<Rightarrow> Session res \<times> 's world" where
  "SessionService_Issue s userID tenantID w =
     and_then (SessionService_newSession s userID tenantID w) (\<lambda>sess w.
     and_then (SessionRepository_Save (SessionService_repo s) sess w) (\<lambda>_ w.
     (Inr sess, w)))"

definition sessionKey :: "Token \<Rightarrow> Token" where
  "sessionKey raw = Token (HashToken raw)"

definition SessionService_Validate ::
  "('s world) SessionService \<Rightarrow> Token \<Rightarrow> 's world \<Rightarrow> Session res \<times> 's world" where
  "SessionService_Validate s token w =
     (if Token_String token = [] then (Inl ErrInvalidToken, w)
      else and_then (SessionRepository_FindByToken (SessionService_repo s) (sessionKey token) w)
        (\<lambda>sess w.
           let (now, w) = read_clock w in
           if Session_Expired sess now
           then (Inl ErrExpired,
                 snd (SessionRepository_Delete (SessionService_repo s) (sessionKey token) w))
           else (Inr sess, w)))"

definition SessionService_Rotate ::
  "('s world) SessionService \<Rightarrow> Token \<Rightarrow> 's world \<Rightarrow> Session res \<times> 's world" where
  "SessionService_Rotate s oldToken w =
     and_then (SessionService_Validate s oldToken w) (\<lambda>old w.
     and_then (SessionService_newSession s (Session_userID old) (Session_tenantID old) w)
       (\<lambda>fresh w.
       case SessionRepository_RotateAtomically (SessionService_repo s) of
         Some swap \<Rightarrow>
           and_then (swap (sessionKey oldToken) fresh w) (\<lambda>_ w. (Inr fresh, w))
       | None \<Rightarrow>
           and_then (SessionRepository_Save (SessionService_repo s) fresh w) (\<lambda>_ w.
           case SessionRepository_Delete (SessionService_repo s) (sessionKey oldToken) w of
             (Inl e, w) \<Rightarrow>
               (Inl e, snd (SessionRepository_Delete (SessionService_repo s)
                              (sessionKey (Session_token fresh)) w))
           | (Inr _, w) \<Rightarrow> (Inr fresh, w))))"

definition SessionService_Revoke ::
  "('s world) SessionService \<Rightarrow> Token \<Rightarrow> 's world \<Rightarrow> unit res \<times> 's world" where
  "SessionService_Revoke s token w =
     (if Token_String token = [] then (Inl ErrInvalidToken, w)
      else SessionRepository_Delete (SessionService_repo s) (sessionKey token) w)"

definition SessionService_RevokeAll ::
  "('s world) SessionService \<Rightarrow> UserID \<Rightarrow> 's world \<Rightarrow> unit res \<times> 's world" where
  "SessionService_RevokeAll s userID w =
     SessionRepository_DeleteByUser (SessionService_repo s) userID w"

section \<open>Building a session touches no storage\<close>

lemma newSession_cases:
  assumes "SessionService_newSession s u t w = (r, w')"
  obtains (bad_user) "r = Inl ErrInvalidUserID" and "w' = w" and "UserID_IsZero u"
  | (bad_tenant) "r = Inl ErrInvalidTenantID" and "w' = w" and "TenantID_IsZero t"
  | (no_random) msg where "r = Inl (ErrExternal msg)" and "w' = tick w" and "\<not> rand_ok w"
  | (fresh) tok now where
      "r = Inr \<lparr>Session_token = tok, Session_tokenHash = HashToken tok,
                Session_userID = u, Session_tenantID = t,
                Session_createdAt = now, Session_expiresAt = now + SessionService_ttl s\<rparr>"
      and "drawn w tok" and "\<not> UserID_IsZero u" and "\<not> TenantID_IsZero t"
      and "env_le w w'" and "store w' = store w" and "read_between w now w'"
proof (cases "UserID_IsZero u \<or> TenantID_IsZero t")
  case True
  with assms show ?thesis
    by (auto simp: SessionService_newSession_def split: if_splits intro: bad_user bad_tenant)
next
  case False
  obtain r1 w1 where new: "NewToken w = (r1, w1)" by fastforce
  then show ?thesis
  proof (cases rule: NewToken_cases)
    case (fail msg)
    with False new assms show ?thesis
      by (auto simp: SessionService_newSession_def intro: no_random)
  next
    case (token tok)
    have "read_between w (clk w1 (pos w1)) (tick w1)"
      by (rule read_between_clock [of w w1]) (auto simp: token read_clock_def)
    with False new assms token show ?thesis
      by (intro fresh [of tok "clk w1 (pos w1)"])
         (auto simp: SessionService_newSession_def read_clock_def intro: env_le_tickI)
  qed
qed

section \<open>The contract of the session port\<close>

text \<open>
  \<open>minted\<close>: what a session built for user \<open>u\<close> and tenant \<open>t\<close> looks like. \<open>session_at\<close>: what
  a lookup answers. \<open>without_user\<close>: the table after one user's sessions are deleted.
\<close>

definition minted ::
  "'w SessionService \<Rightarrow> UserID \<Rightarrow> TenantID \<Rightarrow> 's world \<Rightarrow> Session \<Rightarrow> 's world \<Rightarrow> bool" where
  "minted s u t w sess w' \<longleftrightarrow>
     drawn w (Session_token sess) \<and>
     Session_tokenHash sess = HashToken (Session_token sess) \<and>
     Session_userID sess = u \<and> Session_tenantID sess = t \<and>
     \<not> UserID_IsZero u \<and> \<not> TenantID_IsZero t \<and>
     read_between w (Session_createdAt sess) w' \<and>
     Session_expiresAt sess = Session_createdAt sess + SessionService_ttl s"

definition session_at :: "(string \<rightharpoonup> SessionSnapshot) \<Rightarrow> string \<Rightarrow> Session res" where
  "session_at m k =
     (case m k of Some sn \<Rightarrow> Inr (SessionFromSnapshot sn) | None \<Rightarrow> Inl ErrNotFound)"

definition without_user :: "string \<Rightarrow> (string \<rightharpoonup> SessionSnapshot) \<Rightarrow> (string \<rightharpoonup> SessionSnapshot)" where
  "without_user u m =
     (\<lambda>k. case m k of None \<Rightarrow> None
          | Some sn \<Rightarrow> if SessionSnapshot_UserID sn = u then None else Some sn)"

lemma minted_mono:
  assumes "minted s u t w sess w'" and "env_le v w" and "env_le w' w''"
  shows "minted s u t v sess w''"
  using assms by (auto simp: minted_def intro: read_between_mono drawn_mono)

lemma minted_token: "minted s u t w sess w' \<Longrightarrow> Token_String (Session_token sess) \<noteq> []"
  by (auto simp: minted_def dest: drawn_length)

locale session_store =
  fixes P :: "('s world) SessionRepository"
    and view :: "'s \<Rightarrow> (string \<rightharpoonup> SessionSnapshot)"
    and legal :: "'s \<Rightarrow> bool"
  assumes save: "legal (store w) \<Longrightarrow>
      writes view legal w
        ((view (store w))(SessionSnapshot_Token (Session_Snapshot s) \<mapsto> Session_Snapshot s)) ()
        (SessionRepository_Save P s w)"
    and find: "legal (store w) \<Longrightarrow>
      reads view legal w (session_at (view (store w)) (Token_String tok))
        (SessionRepository_FindByToken P tok w)"
    and delete: "legal (store w) \<Longrightarrow>
      writes view legal w ((view (store w))(Token_String tok := None)) ()
        (SessionRepository_Delete P tok w)"
    and delete_by_user: "legal (store w) \<Longrightarrow>
      writes view legal w (without_user (UserID_String u) (view (store w))) ()
        (SessionRepository_DeleteByUser P u w)"
    and keyed: "legal st \<Longrightarrow> view st k = Some sn \<Longrightarrow> SessionSnapshot_Token sn = k"
begin

lemma issue_effect:
  assumes "legal (store w)" and "SessionService_repo s = P"
    and "SessionService_Issue s u t w = (r, w')"
  shows "settled legal w w' \<and>
    (case r of
       Inl e \<Rightarrow> view (store w') = view (store w)
     | Inr sess \<Rightarrow> minted s u t w sess w' \<and>
         view (store w') =
           (view (store w))(HashToken (Session_token sess) \<mapsto> Session_Snapshot sess))"
proof -
  obtain r1 w1 where new: "SessionService_newSession s u t w = (r1, w1)" by fastforce
  then show ?thesis
  proof (cases rule: newSession_cases)
    case (fresh tok now)
    let ?sess = "\<lparr>Session_token = tok, Session_tokenHash = HashToken tok,
                Session_userID = u, Session_tenantID = t,
                Session_createdAt = now, Session_expiresAt = now + SessionService_ttl s\<rparr>"
    obtain r2 w2 where sv: "SessionRepository_Save P ?sess w1 = (r2, w2)" by fastforce
    have w1: "legal (store w1)" using fresh assms(1) by simp
    have "minted s u t w ?sess w1" using fresh by (simp add: minted_def)
    from save [OF w1, of ?sess, unfolded sv] show ?thesis
    proof (cases rule: writesE)
      case written
      with \<open>minted s u t w ?sess w1\<close> fresh new sv assms show ?thesis
        by (auto simp: SessionService_Issue_def settled_def
            intro: env_le_trans elim!: minted_mono)
    next
      case failed
      with fresh new sv assms show ?thesis
        by (auto simp: SessionService_Issue_def settled_def intro: env_le_trans)
    qed
  qed (use new assms in \<open>auto simp: SessionService_Issue_def settled_def\<close>)
qed

lemma validate_effect:
  assumes "legal (store w)" and "SessionService_repo s = P"
    and "SessionService_Validate s tok w = (r, w')"
  defines "k \<equiv> HashToken tok"
  shows "settled legal w w' \<and>
    (case r of
       Inr sess \<Rightarrow> Token_String tok \<noteq> [] \<and> view (store w') = view (store w) \<and>
         (\<exists>sn now. view (store w) k = Some sn \<and> sess = SessionFromSnapshot sn \<and>
            read_between w now w' \<and> now < SessionSnapshot_ExpiresAt sn)
     | Inl e \<Rightarrow>
         e = ErrInvalidToken \<and> Token_String tok = [] \<and> view (store w') = view (store w) \<or>
         e = ErrNotFound \<and> view (store w) k = None \<and> view (store w') = view (store w) \<or>
         is_external e \<and> \<not> quiet w \<and> view (store w') = view (store w) \<or>
         e = ErrExpired \<and>
           (\<exists>sn now. view (store w) k = Some sn \<and> read_between w now w' \<and>
              SessionSnapshot_ExpiresAt sn \<le> now) \<and>
           (view (store w') = (view (store w))(k := None) \<or>
            \<not> quiet w \<and> view (store w') = view (store w)))"
proof (cases "Token_String tok = []")
  case True
  with assms show ?thesis by (auto simp: SessionService_Validate_def settled_def)
next
  case nonempty: False
  obtain r1 w1 where f: "SessionRepository_FindByToken P (sessionKey tok) w = (r1, w1)" by fastforce
  from find [OF assms(1), of "sessionKey tok", unfolded f] show ?thesis
  proof (cases rule: readsE)
    case (failed e)
    with nonempty f assms show ?thesis by (auto simp: SessionService_Validate_def)
  next
    case found
    show ?thesis
    proof (cases "view (store w) k")
      case None
      with found nonempty f assms show ?thesis
        by (auto simp: SessionService_Validate_def session_at_def sessionKey_def)
    next
      case (Some sn)
      let ?now = "clk w1 (pos w1)"
      have r1: "r1 = Inr (SessionFromSnapshot sn)"
        using found Some by (simp add: session_at_def sessionKey_def k_def)
      have now: "read_between w ?now (tick w1)"
        by (rule read_between_clock [of w w1]) (use found in \<open>auto simp: settled_def read_clock_def\<close>)
      obtain r2 w2 where d: "SessionRepository_Delete P (sessionKey tok) (tick w1) = (r2, w2)"
        by fastforce
      have legal1: "legal (store (tick w1))" using found by (simp add: settled_def)
      show ?thesis
      proof (cases "SessionSnapshot_ExpiresAt sn \<le> ?now")
        case live: False
        with r1 f nonempty assms have "r = Inr (SessionFromSnapshot sn)" and "w' = tick w1"
          by (auto simp: SessionService_Validate_def read_clock_def Session_Expired_def)
        with live now found Some nonempty show ?thesis
          by (auto simp: settled_tick intro!: exI [of _ sn] exI [of _ ?now])
      next
        case True
        with r1 f d nonempty assms have r: "r = Inl ErrExpired" and w': "w' = w2"
          by (auto simp: SessionService_Validate_def read_clock_def Session_Expired_def)
        have "settled legal (tick w1) w2 \<and>
            (view (store w2) = (view (store w1))(k := None) \<or>
             \<not> quiet (tick w1) \<and> view (store w2) = view (store w1))"
          using delete [OF legal1, of "sessionKey tok", unfolded d]
          by (rule writesE) (auto simp: sessionKey_def k_def)
        moreover have "env_le w (tick w1)"
          using found by (auto simp: settled_def intro: env_le_tickI)
        ultimately show ?thesis
          using r w' True Some found now quiet_mono [of w "tick w1"]
          by (auto simp: settled_def
              intro: env_le_trans intro!: read_between_mono [OF now])
      qed
    qed
  qed
qed

lemma revoke_effect:
  assumes "legal (store w)" and "SessionService_repo s = P"
    and "SessionService_Revoke s tok w = (r, w')"
  shows "settled legal w w' \<and>
    (case r of
       Inr _ \<Rightarrow> Token_String tok \<noteq> [] \<and> view (store w') = (view (store w))(HashToken tok := None)
     | Inl e \<Rightarrow> view (store w') = view (store w) \<and>
         (if Token_String tok = [] then e = ErrInvalidToken else is_external e \<and> \<not> quiet w))"
proof (cases "Token_String tok = []")
  case True
  with assms show ?thesis by (auto simp: SessionService_Revoke_def settled_def)
next
  case False
  with assms have "SessionRepository_Delete P (sessionKey tok) w = (r, w')"
    by (simp add: SessionService_Revoke_def)
  with delete [OF assms(1), of "sessionKey tok"]
  have "writes view legal w ((view (store w))(HashToken tok := None)) () (r, w')"
    by (simp add: sessionKey_def)
  with False show ?thesis by (auto elim!: writesE)
qed

lemma revoke_all_effect:
  assumes "legal (store w)" and "SessionService_repo s = P"
    and "SessionService_RevokeAll s u w = (r, w')"
  shows "settled legal w w' \<and>
    (case r of
       Inr _ \<Rightarrow> view (store w') = without_user (UserID_String u) (view (store w))
     | Inl e \<Rightarrow> view (store w') = view (store w) \<and> is_external e \<and> \<not> quiet w)"
proof -
  from assms have "SessionRepository_DeleteByUser P u w = (r, w')"
    by (simp add: SessionService_RevokeAll_def)
  with delete_by_user [OF assms(1), of u] show ?thesis by (auto elim!: writesE)
qed

text \<open>A token whose key the store does not hold is refused, whatever else is stored.\<close>

lemma validate_absent:
  assumes "legal (store w)" and "SessionService_repo s = P"
    and "view (store w) (HashToken tok) = None"
  shows "isl (fst (SessionService_Validate s tok w))"
  using validate_effect [OF assms(1,2), of tok] assms(3)
  by (cases "SessionService_Validate s tok w") (auto split: sum.splits)

lemma validate_live:
  assumes "legal (store w)" and "SessionService_repo s = P" and "Token_String tok \<noteq> []"
    and "view (store w) (HashToken tok) = Some sn" and "quiet w"
    and "clock_before w (SessionSnapshot_ExpiresAt sn)"
  shows "fst (SessionService_Validate s tok w) = Inr (SessionFromSnapshot sn)"
proof -
  obtain r w' where v: "SessionService_Validate s tok w = (r, w')" by fastforce
  from validate_effect [OF assms(1,2) this] show ?thesis
    using v assms(3-6) read_between_before [OF _ assms(6)]
    by (cases r) (fastforce+)
qed

lemma validate_expired:
  assumes "legal (store w)" and "SessionService_repo s = P" and "Token_String tok \<noteq> []"
    and "view (store w) (HashToken tok) = Some sn" and "quiet w"
    and "clock_from w (SessionSnapshot_ExpiresAt sn)"
    and "SessionService_Validate s tok w = (r, w')"
  shows "r = Inl ErrExpired \<and> view (store w') = (view (store w))(HashToken tok := None)"
  using validate_effect [OF assms(1,2,7)] assms(3-6) read_between_from [OF _ assms(6)]
  by (cases r) (fastforce+)

lemma issue_then_validate:
  assumes "legal (store w)" and "SessionService_repo s = P"
    and "SessionService_Issue s u t w = (Inr sess, w1)"
    and "quiet w1" and "clock_before w1 (Session_expiresAt sess)"
  shows "fst (SessionService_Validate s (Session_token sess) w1)
         = Inr (sess\<lparr>Session_token := zero_token\<rparr>)"
proof -
  from issue_effect [OF assms(1-3)]
  have l: "legal (store w1)" and m: "minted s u t w sess w1"
    and v: "view (store w1) (HashToken (Session_token sess)) = Some (Session_Snapshot sess)"
    by (auto simp: settled_def)
  from m have h: "Session_tokenHash sess \<noteq> []" and n: "Token_String (Session_token sess) \<noteq> []"
    by (auto simp: minted_def minted_token [OF m])
  from validate_live [OF l assms(2) n v assms(4)] assms(5) show ?thesis
    by (simp add: Session_snapshot_hydrate [OF h])
qed

end

section \<open>Rotation\<close>

text \<open>
  What a successful rotation does, on either path: a session for the same user and tenant
  exists under a new key, the old key is gone, every other key is untouched.
\<close>

definition replaced ::
  "(string \<rightharpoonup> SessionSnapshot) \<Rightarrow> Token \<Rightarrow> Session \<Rightarrow> (string \<rightharpoonup> SessionSnapshot) \<Rightarrow> bool" where
  "replaced m tok sess m' \<longleftrightarrow>
     (let old = HashToken tok; new = HashToken (Session_token sess)
      in (new \<noteq> old \<longrightarrow> m' = m(old := None, new \<mapsto> Session_Snapshot sess)) \<and>
         (\<forall>k. k \<noteq> old \<longrightarrow> k \<noteq> new \<longrightarrow> m' k = m k))"

definition rotated ::
  "'w SessionService \<Rightarrow> 's world \<Rightarrow> (string \<rightharpoonup> SessionSnapshot) \<Rightarrow> Token \<Rightarrow> Session \<Rightarrow>
   (string \<rightharpoonup> SessionSnapshot) \<Rightarrow> 's world \<Rightarrow> bool" where
  "rotated s w m tok sess m' w' \<longleftrightarrow>
     (\<exists>sn now. m (HashToken tok) = Some sn \<and> read_between w now w' \<and>
        now < SessionSnapshot_ExpiresAt sn \<and>
        minted s (UserID (SessionSnapshot_UserID sn)) (TenantID (SessionSnapshot_TenantID sn))
          w sess w') \<and>
     replaced m tok sess m'"

lemma rotated_later:
  assumes "rotated s w m tok sess m' v" and "env_le v w'"
  shows "rotated s w m tok sess m' w'"
  using assms read_between_mono [OF _ env_le_refl assms(2)] minted_mono [OF _ env_le_refl assms(2)]
  unfolding rotated_def by blast

context session_store
begin

text \<open>The part of a rotation before the swap: it refuses, or reaches the swap with the old
  session live and a fresh session in hand.\<close>

lemma rotate_cases:
  assumes "legal (store w)" and "SessionService_repo s = P"
    and "SessionService_Rotate s tok w = (r, w')"
  obtains (refused) e where "r = Inl e" and "settled legal w w'"
      and "view (store w') = view (store w) \<or>
           e = ErrExpired \<and> view (store w') = (view (store w))(HashToken tok := None)"
  | (swap) sess w2 where "settled legal w w2" and "view (store w2) = view (store w)"
      and "Session_tokenHash sess = HashToken (Session_token sess)"
      and "\<And>m'. replaced (view (store w)) tok sess m' \<Longrightarrow>
          rotated s w (view (store w)) tok sess m' w2"
      and "(r, w') = (case SessionRepository_RotateAtomically P of
         Some swap \<Rightarrow> and_then (swap (sessionKey tok) sess w2) (\<lambda>_ w. (Inr sess, w))
       | None \<Rightarrow>
           and_then (SessionRepository_Save P sess w2) (\<lambda>_ w.
           case SessionRepository_Delete P (sessionKey tok) w of
             (Inl e, w) \<Rightarrow>
               (Inl e, snd (SessionRepository_Delete P (sessionKey (Session_token sess)) w))
           | (Inr _, w) \<Rightarrow> (Inr sess, w)))"
proof -
  obtain r1 w1 where v: "SessionService_Validate s tok w = (r1, w1)" by fastforce
  note ve = validate_effect [OF assms(1,2) v]
  show ?thesis
  proof (cases r1)
    case (Inl e)
    with v assms(3) have "r = Inl e" and "w' = w1" by (auto simp: SessionService_Rotate_def)
    with Inl ve show ?thesis by (intro refused [of e]) auto
  next
    case (Inr old)
    with ve obtain sn now where old: "view (store w) (HashToken tok) = Some sn"
        "old = SessionFromSnapshot sn" "read_between w now w1" "now < SessionSnapshot_ExpiresAt sn"
      and same: "view (store w1) = view (store w)" and set1: "settled legal w w1"
      by auto
    obtain r2 w2 where new:
      "SessionService_newSession s (Session_userID old) (Session_tenantID old) w1 = (r2, w2)"
      by fastforce
    note rot = assms(3) [unfolded SessionService_Rotate_def v Inr and_then_simps new]
    from new show ?thesis
    proof (cases rule: newSession_cases)
      case (fresh ntok n2)
      define sess where "sess = \<lparr>Session_token = ntok, Session_tokenHash = HashToken ntok,
                Session_userID = Session_userID old, Session_tenantID = Session_tenantID old,
                Session_createdAt = n2, Session_expiresAt = n2 + SessionService_ttl s\<rparr>"
      have "minted s (Session_userID old) (Session_tenantID old) w1 sess w2"
        using fresh by (simp add: minted_def sess_def)
      then have "minted s (UserID (SessionSnapshot_UserID sn))
          (TenantID (SessionSnapshot_TenantID sn)) w sess w2"
        using set1 old(2) by (auto simp: SessionFromSnapshot_def settled_def intro: minted_mono)
      moreover have "read_between w now w2"
        using read_between_mono [OF old(3) env_le_refl fresh(5)] .
      ultimately have "rotated s w (view (store w)) tok sess m' w2"
        if "replaced (view (store w)) tok sess m'" for m'
        using old that unfolding rotated_def by blast
      moreover have "settled legal w w2"
        using set1 fresh by (auto simp: settled_def intro: env_le_trans)
      moreover note rot [unfolded fresh(1) and_then_simps assms(2), folded sess_def, symmetric]
      ultimately show ?thesis
        using same fresh(6) by (intro swap [of w2 sess]) (simp_all add: sess_def)
    qed (use rot same set1 settled_tick in \<open>auto intro!: refused\<close>)
  qed
qed

end

locale atomic_session_store = session_store P view legal
  for P :: "('s world) SessionRepository" and view and legal +
  fixes swapper :: "Token \<Rightarrow> Session \<Rightarrow> 's world \<Rightarrow> unit res \<times> 's world"
  assumes capable: "SessionRepository_RotateAtomically P = Some swapper"
    and swap_law: "legal (store w) \<Longrightarrow>
      attempts view legal w
        ((view (store w))(Token_String tok := None,
           SessionSnapshot_Token (Session_Snapshot sess) \<mapsto> Session_Snapshot sess))
        (\<lambda>e. e = ErrNotFound \<and> view (store w) (Token_String tok) = None \<or>
             view (store w) (SessionSnapshot_Token (Session_Snapshot sess)) \<noteq> None \<and>
             SessionSnapshot_Token (Session_Snapshot sess) \<noteq> Token_String tok)
        (swapper tok sess w)"
begin

lemma rotate_effect:
  assumes "legal (store w)" and "SessionService_repo s = P"
    and "SessionService_Rotate s tok w = (r, w')"
  shows "settled legal w w' \<and>
    (case r of
       Inr sess \<Rightarrow> rotated s w (view (store w)) tok sess (view (store w')) w' \<and>
         view (store w') = (view (store w))
           (HashToken tok := None, HashToken (Session_token sess) \<mapsto> Session_Snapshot sess)
     | Inl e \<Rightarrow> view (store w') = view (store w) \<or>
         e = ErrExpired \<and> view (store w') = (view (store w))(HashToken tok := None))"
  using assms
proof (cases rule: rotate_cases)
  case refused
  then show ?thesis by auto
next
  case (swap sess w2)
  obtain r3 w3 where sw: "SessionService_Rotate s tok w = (r, w')"
      "swapper (sessionKey tok) sess w2 = (r3, w3)"
    using assms(3) by fastforce
  have "legal (store w2)" using swap(1) by (simp add: settled_def)
  note sp = swap_law [OF this, of "sessionKey tok" sess, unfolded sw(2)]
  have rest: "settled legal w w3" "env_le w2 w3"
    using sp swap(1) by (auto simp: attempts_def intro: settled_trans dest: settledD)
  show ?thesis
  proof (cases r3)
    case (Inl e)
    with swap(2,5) capable sw(2) sp rest show ?thesis by (auto simp: attempts_def)
  next
    case (Inr x)
    with swap(5) capable sw(2) have "r = Inr sess" and "w' = w3" by auto
    moreover have "rotated s w (view (store w)) tok sess (view (store w3)) w2"
      using sp Inr swap(2,3) by (intro swap(4)) (auto simp: attempts_def sessionKey_def replaced_def Let_def)
    moreover have "view (store w3) = (view (store w))
        (HashToken tok := None, HashToken (Session_token sess) \<mapsto> Session_Snapshot sess)"
      using sp Inr swap(2,3) by (simp add: attempts_def sessionKey_def)
    ultimately show ?thesis using rest rotated_later by auto
  qed
qed

end

section \<open>Runs of the service\<close>

text \<open>
  A run is any sequence of service calls, whatever they return. Whatever key the table holds
  afterwards was there before, unchanged, or belongs to a token drawn during the run.
\<close>

datatype session_call =
    IssueCall UserID TenantID
  | ValidateCall Token
  | RotateCall Token
  | RevokeCall Token
  | RevokeAllCall UserID

fun run_session_call :: "('s world) SessionService \<Rightarrow> session_call \<Rightarrow> 's world \<Rightarrow> 's world" where
  "run_session_call s (IssueCall u t) w = snd (SessionService_Issue s u t w)"
| "run_session_call s (ValidateCall tok) w = snd (SessionService_Validate s tok w)"
| "run_session_call s (RotateCall tok) w = snd (SessionService_Rotate s tok w)"
| "run_session_call s (RevokeCall tok) w = snd (SessionService_Revoke s tok w)"
| "run_session_call s (RevokeAllCall u) w = snd (SessionService_RevokeAll s u w)"

definition session_run :: "('s world) SessionService \<Rightarrow> session_call list \<Rightarrow> 's world \<Rightarrow> 's world" where
  "session_run s cs w = fold (run_session_call s) cs w"

definition never_drawn :: "'a env_scheme \<Rightarrow> string \<Rightarrow> bool" where
  "never_drawn w k \<longleftrightarrow> (\<forall>tok. drawn w tok \<longrightarrow> HashToken tok \<noteq> k)"

context atomic_session_store
begin

lemma session_call_effect:
  assumes "legal (store w)" and "SessionService_repo s = P"
  shows "settled legal w (run_session_call s c w) \<and>
    (\<forall>k. view (store (run_session_call s c w)) k = None \<or>
         view (store (run_session_call s c w)) k = view (store w) k \<or>
         (\<exists>tok. drawn w tok \<and> k = HashToken tok))"
proof (cases c)
  case (IssueCall u t)
  obtain r w' where "SessionService_Issue s u t w = (r, w')" by fastforce
  with issue_effect [OF assms this] IssueCall show ?thesis
    by (auto simp: minted_def split: sum.splits if_splits)
next
  case (ValidateCall tok)
  obtain r w' where "SessionService_Validate s tok w = (r, w')" by fastforce
  with validate_effect [OF assms this] ValidateCall show ?thesis
    by (auto split: sum.splits if_splits)
next
  case (RotateCall tok)
  obtain r w' where r: "SessionService_Rotate s tok w = (r, w')" by fastforce
  show ?thesis
  proof (cases r)
    case (Inl e)
    with rotate_effect [OF assms r] r RotateCall show ?thesis by (auto split: if_splits)
  next
    case (Inr sess)
    with rotate_effect [OF assms r] have "settled legal w w'"
      and "rotated s w (view (store w)) tok sess (view (store w')) w'" by auto
    moreover from this(2) have "drawn w (Session_token sess)"
      by (auto simp: rotated_def minted_def)
    moreover have "view (store w') k = None \<or> view (store w') k = view (store w) k"
      if "k \<noteq> HashToken (Session_token sess)" for k
    proof (cases "k = HashToken tok")
      case True
      with that \<open>rotated _ _ _ _ _ _ _\<close> show ?thesis
        by (auto simp: rotated_def replaced_def Let_def split: if_splits)
    next
      case False
      with that \<open>rotated _ _ _ _ _ _ _\<close> show ?thesis
        by (auto simp: rotated_def replaced_def Let_def split: if_splits)
    qed
    ultimately show ?thesis using r RotateCall by simp metis
  qed
next
  case (RevokeCall tok)
  obtain r w' where "SessionService_Revoke s tok w = (r, w')" by fastforce
  with revoke_effect [OF assms this] RevokeCall show ?thesis
    by (auto split: sum.splits if_splits)
next
  case (RevokeAllCall u)
  obtain r w' where "SessionService_RevokeAll s u w = (r, w')" by fastforce
  with revoke_all_effect [OF assms this] RevokeAllCall show ?thesis
    by (auto simp: without_user_def split: sum.splits option.splits)
qed

lemma session_run_effect:
  assumes "legal (store w)" and "SessionService_repo s = P"
  shows "settled legal w (session_run s cs w) \<and>
    (\<forall>k. view (store (session_run s cs w)) k = None \<or>
         view (store (session_run s cs w)) k = view (store w) k \<or>
         (\<exists>tok. drawn w tok \<and> k = HashToken tok))"
  using assms(1)
proof (induction cs arbitrary: w)
  case Nil
  then show ?case by (simp add: session_run_def settled_def)
next
  case (Cons c cs)
  let ?v = "run_session_call s c w"
  have c: "settled legal w ?v" "\<And>k. view (store ?v) k = None \<or>
      view (store ?v) k = view (store w) k \<or> (\<exists>tok. drawn w tok \<and> k = HashToken tok)"
    using session_call_effect [OF Cons.prems assms(2), of c] by auto
  have run: "session_run s (c # cs) w = session_run s cs ?v" by (simp add: session_run_def)
  have IH: "settled legal ?v (session_run s cs ?v)" "\<And>k. view (store (session_run s cs ?v)) k = None \<or>
      view (store (session_run s cs ?v)) k = view (store ?v) k \<or>
      (\<exists>tok. drawn ?v tok \<and> k = HashToken tok)"
    using Cons.IH [OF settledD(2) [OF c(1)]] by auto
  have "drawn w tok" if "drawn ?v tok" for tok
    using that drawn_mono settledD(1) [OF c(1)] by blast
  then show ?case
    unfolding run using settled_trans [OF c(1) IH(1)] c(2) IH(2) by metis
qed

text \<open>A key that is absent stays absent as long as no token with that key is drawn.\<close>

lemma absent_forever:
  assumes "legal (store w)" and "SessionService_repo s = P"
    and "view (store w) (HashToken tok) = None" and "never_drawn w (HashToken tok)"
  shows "isl (fst (SessionService_Validate s tok (session_run s cs w)))"
proof (rule validate_absent)
  show "legal (store (session_run s cs w))"
    using session_run_effect [OF assms(1,2)] by (auto dest: settledD)
  show "view (store (session_run s cs w)) (HashToken tok) = None"
    using session_run_effect [OF assms(1,2), of cs] assms(3,4) unfolding never_drawn_def by metis
qed (rule assms(2))

end

text \<open>
  Without the capability the service creates the new session and then deletes the old one. On
  a quiet run it rotates all the same; otherwise its failure leaves the old session in place.
\<close>

locale plain_session_store = session_store P view legal
  for P :: "('s world) SessionRepository" and view and legal +
  assumes incapable: "SessionRepository_RotateAtomically P = None"
begin

lemma rotate_effect:
  assumes "legal (store w)" and "SessionService_repo s = P"
    and "SessionService_Rotate s tok w = (r, w')"
  shows "settled legal w w' \<and>
    (case r of
       Inr sess \<Rightarrow> rotated s w (view (store w)) tok sess (view (store w')) w'
     | Inl e \<Rightarrow>
         (e = ErrExpired \<and> view (store w') = (view (store w))(HashToken tok := None)) \<or>
         view (store w') = view (store w) \<or>
         \<not> quiet w \<and> (\<exists>tok'. \<forall>k. k \<noteq> HashToken tok' \<longrightarrow>
            view (store w') k = view (store w) k))"
  using assms
proof (cases rule: rotate_cases)
  case refused
  then show ?thesis by auto
next
  case (swap sess w2)
  let ?new = "HashToken (Session_token sess)"
  have key: "SessionSnapshot_Token (Session_Snapshot sess) = ?new" using swap(3) by simp
  note out = swap(5) [unfolded incapable option.case]
  have w2: "legal (store w2)" "env_le w w2" using swap(1) by (auto simp: settled_def)
  obtain r3 w3 where sv: "SessionRepository_Save P sess w2 = (r3, w3)" by fastforce
  from save [OF w2(1), of sess, unfolded sv] show ?thesis
  proof (cases rule: writesE)
    case (failed e)
    with out sv swap(1,2) show ?thesis by (auto intro: settled_trans)
  next
    case written
    then have w3: "legal (store w3)" "env_le w w3"
      using w2 by (auto simp: settled_def intro: env_le_trans)
    obtain r4 w4 where dl: "SessionRepository_Delete P (sessionKey tok) w3 = (r4, w4)" by fastforce
    from delete [OF w3(1), of "sessionKey tok", unfolded dl] show ?thesis
    proof (cases rule: writesE)
      case gone: written
      with out sv written dl have r: "r = Inr sess" and w': "w' = w4" by auto
      have "rotated s w (view (store w)) tok sess (view (store w4)) w2"
        using gone(2) written(2) swap(2,3)
        by (intro swap(4)) (auto simp: sessionKey_def fun_upd_twist replaced_def Let_def)
      moreover have "settled legal w w4" "env_le w2 w4"
        using gone(3) written(3) swap(1)
        by (blast intro: settled_trans, blast intro: settledD(1) settled_trans)
      ultimately show ?thesis using r w' rotated_later by auto
    next
      case (failed e)
      then have w4: "legal (store w4)" "env_le w w4" and noisy: "\<not> quiet w"
        using w3 quiet_mono by (auto simp: settled_def intro: env_le_trans)
      obtain r5 w5 where
        d2: "SessionRepository_Delete P (sessionKey (Session_token sess)) w4 = (r5, w5)" by fastforce
      have r: "r = Inl e" and w': "w' = w5"
        using out sv written dl failed d2 by auto
      have "settled legal w4 w5 \<and>
          (view (store w5) = (view (store w4))(?new := None) \<or>
           view (store w5) = view (store w4))"
        using delete [OF w4(1), of "sessionKey (Session_token sess)", unfolded d2]
        by (rule writesE) (auto simp: sessionKey_def)
      then have "settled legal w w5" and "\<forall>k. k \<noteq> ?new \<longrightarrow> view (store w5) k = view (store w) k"
        using w4 failed(4) written(2) swap(2) key by (auto simp: settled_def intro: env_le_trans)
      with r w' noisy show ?thesis by auto
    qed
  qed
qed

end

end
