(* ===== verification/MagicLink.thy ===== *)
theory MagicLink
  imports Values
begin

text \<open>
  \<open>src/domain/magiclink.go\<close> and the \<open>MagicLinkService\<close> of \<open>src/domain/services.go\<close>: single-use
  e-mail login links. The locale \<open>magic_store\<close> is the contract of the port; the last section
  interleaves any number of redemptions of the same table and shows that a link is redeemed at
  most once, which rests on \<open>MarkConsumed\<close> being one atomic step.
\<close>

section \<open>The aggregate and its snapshot\<close>

record MagicLink =
  MagicLink_hash :: string
  MagicLink_email :: Email
  MagicLink_tenantID :: TenantID
  MagicLink_expiresAt :: time
  MagicLink_consumed :: bool

definition MagicLink_Expired :: "MagicLink \<Rightarrow> time \<Rightarrow> bool" where
  "MagicLink_Expired m now \<longleftrightarrow> expired_at (MagicLink_expiresAt m) now"

record MagicLinkSnapshot =
  MagicLinkSnapshot_Hash :: string
  MagicLinkSnapshot_Email :: string
  MagicLinkSnapshot_TenantID :: string
  MagicLinkSnapshot_ExpiresAt :: time
  MagicLinkSnapshot_Consumed :: bool

definition MagicLink_Snapshot :: "MagicLink \<Rightarrow> MagicLinkSnapshot" where
  "MagicLink_Snapshot m =
     \<lparr>MagicLinkSnapshot_Hash = MagicLink_hash m,
      MagicLinkSnapshot_Email = Email_String (MagicLink_email m),
      MagicLinkSnapshot_TenantID = TenantID_String (MagicLink_tenantID m),
      MagicLinkSnapshot_ExpiresAt = MagicLink_expiresAt m,
      MagicLinkSnapshot_Consumed = MagicLink_consumed m\<rparr>"

definition MagicLinkFromSnapshot :: "MagicLinkSnapshot \<Rightarrow> MagicLink" where
  "MagicLinkFromSnapshot s =
     \<lparr>MagicLink_hash = MagicLinkSnapshot_Hash s,
      MagicLink_email = Email (MagicLinkSnapshot_Email s),
      MagicLink_tenantID = TenantID (MagicLinkSnapshot_TenantID s),
      MagicLink_expiresAt = MagicLinkSnapshot_ExpiresAt s,
      MagicLink_consumed = MagicLinkSnapshot_Consumed s\<rparr>"

lemma MagicLink_snapshot_roundtrip [simp]:
  "MagicLinkFromSnapshot (MagicLink_Snapshot m) = m"
  "MagicLink_Snapshot (MagicLinkFromSnapshot s) = s"
  by (simp_all add: MagicLinkFromSnapshot_def MagicLink_Snapshot_def)

lemma MagicLinkFromSnapshot_fields [simp]:
  "MagicLink_hash (MagicLinkFromSnapshot s) = MagicLinkSnapshot_Hash s"
  "MagicLink_expiresAt (MagicLinkFromSnapshot s) = MagicLinkSnapshot_ExpiresAt s"
  "MagicLink_consumed (MagicLinkFromSnapshot s) = MagicLinkSnapshot_Consumed s"
  by (simp_all add: MagicLinkFromSnapshot_def)

lemma MagicLink_Snapshot_fields [simp]:
  "MagicLinkSnapshot_Hash (MagicLink_Snapshot m) = MagicLink_hash m"
  "MagicLinkSnapshot_Email (MagicLink_Snapshot m) = Email_String (MagicLink_email m)"
  "MagicLinkSnapshot_TenantID (MagicLink_Snapshot m) = TenantID_String (MagicLink_tenantID m)"
  "MagicLinkSnapshot_ExpiresAt (MagicLink_Snapshot m) = MagicLink_expiresAt m"
  "MagicLinkSnapshot_Consumed (MagicLink_Snapshot m) = MagicLink_consumed m"
  by (simp_all add: MagicLink_Snapshot_def)

section \<open>The port and the service\<close>

record 'w MagicLinkRepository =
  MagicLinkRepository_Save :: "MagicLink \<Rightarrow> 'w \<Rightarrow> unit res \<times> 'w"
  MagicLinkRepository_FindByHash :: "string \<Rightarrow> 'w \<Rightarrow> MagicLink res \<times> 'w"
  MagicLinkRepository_MarkConsumed :: "string \<Rightarrow> 'w \<Rightarrow> bool res \<times> 'w"
  MagicLinkRepository_InvalidateOutstanding :: "Email \<Rightarrow> TenantID \<Rightarrow> 'w \<Rightarrow> unit res \<times> 'w"
  MagicLinkRepository_IssueAtomically :: "(MagicLink \<Rightarrow> 'w \<Rightarrow> unit res \<times> 'w) option"

record 'w MagicLinkService =
  MagicLinkService_repo :: "'w MagicLinkRepository"
  MagicLinkService_ttl :: duration

definition NewMagicLinkService :: "'w MagicLinkRepository \<Rightarrow> duration \<Rightarrow> 'w MagicLinkService" where
  "NewMagicLinkService repo ttl = \<lparr>MagicLinkService_repo = repo, MagicLinkService_ttl = ttl\<rparr>"

definition MagicLinkService_Issue ::
  "('s world) MagicLinkService \<Rightarrow> Email \<Rightarrow> TenantID \<Rightarrow> 's world \<Rightarrow> Token res \<times> 's world" where
  "MagicLinkService_Issue s email tenantID w =
     (if TenantID_IsZero tenantID then (Inl ErrInvalidTenantID, w)
      else and_then (NewToken w) (\<lambda>raw w.
        let (t, w) = read_clock w;
            link = \<lparr>MagicLink_hash = HashToken raw, MagicLink_email = email,
                    MagicLink_tenantID = tenantID,
                    MagicLink_expiresAt = t + MagicLinkService_ttl s,
                    MagicLink_consumed = False\<rparr>
        in case MagicLinkRepository_IssueAtomically (MagicLinkService_repo s) of
             Some issue \<Rightarrow> and_then (issue link w) (\<lambda>_ w. (Inr raw, w))
           | None \<Rightarrow>
               and_then (MagicLinkRepository_InvalidateOutstanding (MagicLinkService_repo s)
                           email tenantID w) (\<lambda>_ w.
               and_then (MagicLinkRepository_Save (MagicLinkService_repo s) link w) (\<lambda>_ w.
               (Inr raw, w)))))"

definition MagicLinkService_Peek ::
  "('s world) MagicLinkService \<Rightarrow> Token \<Rightarrow> 's world \<Rightarrow> MagicLink res \<times> 's world" where
  "MagicLinkService_Peek s raw w =
     and_then (MagicLinkRepository_FindByHash (MagicLinkService_repo s) (HashToken raw) w)
       (\<lambda>link w.
          if MagicLink_consumed link then (Inl ErrConsumed, w)
          else let (now, w) = read_clock w in
            if MagicLink_Expired link now then (Inl ErrExpired, w) else (Inr link, w))"

definition MagicLinkService_Consume ::
  "('s world) MagicLinkService \<Rightarrow> Token \<Rightarrow> 's world \<Rightarrow> MagicLink res \<times> 's world" where
  "MagicLinkService_Consume s raw w =
     and_then (MagicLinkRepository_FindByHash (MagicLinkService_repo s) (HashToken raw) w)
       (\<lambda>link w.
          if MagicLink_consumed link then (Inl ErrConsumed, w)
          else let (now, w) = read_clock w in
            if MagicLink_Expired link now then (Inl ErrExpired, w)
            else and_then
              (MagicLinkRepository_MarkConsumed (MagicLinkService_repo s) (MagicLink_hash link) w)
              (\<lambda>consumed w.
                 if \<not> consumed then (Inl ErrConsumed, w)
                 else (Inr (link\<lparr>MagicLink_consumed := True\<rparr>), w)))"

text \<open>A redemption is a peek and then the flip.\<close>

lemma Consume_Peek:
  "MagicLinkService_Consume s raw w =
     and_then (MagicLinkService_Peek s raw w) (\<lambda>link w.
     and_then (MagicLinkRepository_MarkConsumed (MagicLinkService_repo s) (MagicLink_hash link) w)
       (\<lambda>consumed w.
          if \<not> consumed then (Inl ErrConsumed, w)
          else (Inr (link\<lparr>MagicLink_consumed := True\<rparr>), w)))"
  unfolding MagicLinkService_Consume_def MagicLinkService_Peek_def read_clock_def Let_def
    split_conv and_then_assoc
  by (rule arg_cong [of _ _ "and_then (MagicLinkRepository_FindByHash (MagicLinkService_repo s)
        (HashToken raw) w)"], (rule ext)+) (simp only: and_then_if and_then_simps)

section \<open>The contract of the magic-link port\<close>

type_synonym links = "string \<rightharpoonup> MagicLinkSnapshot"

definition outstanding :: "string \<Rightarrow> string \<Rightarrow> MagicLinkSnapshot \<Rightarrow> bool" where
  "outstanding email tenant sn \<longleftrightarrow>
     \<not> MagicLinkSnapshot_Consumed sn \<and> MagicLinkSnapshot_Email sn = email \<and>
     MagicLinkSnapshot_TenantID sn = tenant"

definition spend :: "MagicLinkSnapshot \<Rightarrow> MagicLinkSnapshot" where
  "spend sn = sn\<lparr>MagicLinkSnapshot_Consumed := True\<rparr>"

definition invalidated :: "string \<Rightarrow> string \<Rightarrow> links \<Rightarrow> links" where
  "invalidated email tenant m =
     (\<lambda>h. map_option (\<lambda>sn. if outstanding email tenant sn then spend sn else sn) (m h))"

definition link_at :: "links \<Rightarrow> string \<Rightarrow> MagicLink res" where
  "link_at m h =
     (case m h of Some sn \<Rightarrow> Inr (MagicLinkFromSnapshot sn) | None \<Rightarrow> Inl ErrNotFound)"

definition redeemable :: "links \<Rightarrow> string \<Rightarrow> bool" where
  "redeemable m h \<longleftrightarrow> (\<exists>sn. m h = Some sn \<and> \<not> MagicLinkSnapshot_Consumed sn)"

lemma spend_fields [simp]:
  "MagicLinkSnapshot_Hash (spend sn) = MagicLinkSnapshot_Hash sn"
  "MagicLinkSnapshot_Consumed (spend sn)"
  "MagicLinkSnapshot_Email (spend sn) = MagicLinkSnapshot_Email sn"
  "MagicLinkSnapshot_TenantID (spend sn) = MagicLinkSnapshot_TenantID sn"
  by (simp_all add: spend_def)

lemma not_outstanding_spend [simp]: "\<not> outstanding email tenant (spend sn)"
  by (simp add: outstanding_def)

lemma invalidated_not_outstanding:
  assumes "invalidated email tenant m h = Some sn"
  shows "\<not> outstanding email tenant sn"
proof -
  from assms obtain x where "sn = (if outstanding email tenant x then spend x else x)"
    by (auto simp: invalidated_def simp del: if_split)
  then show ?thesis by (cases "outstanding email tenant x") simp_all
qed

lemma invalidated_redeemable:
  assumes "redeemable (invalidated email tenant m) h"
  shows "redeemable m h"
proof -
  from assms obtain x where "m h = Some x"
      "\<not> MagicLinkSnapshot_Consumed (if outstanding email tenant x then spend x else x)"
    by (auto simp: invalidated_def redeemable_def simp del: if_split)
  then show ?thesis
    by (cases "outstanding email tenant x") (simp_all add: redeemable_def)
qed

locale magic_store =
  fixes P :: "('s world) MagicLinkRepository"
    and view :: "'s \<Rightarrow> links"
    and legal :: "'s \<Rightarrow> bool"
  assumes save: "legal (store w) \<Longrightarrow>
      attempts view legal w ((view (store w))(MagicLink_hash l \<mapsto> MagicLink_Snapshot l))
        (\<lambda>e. view (store w) (MagicLink_hash l) \<noteq> None) (MagicLinkRepository_Save P l w)"
    and find: "legal (store w) \<Longrightarrow>
      reads view legal w (link_at (view (store w)) h) (MagicLinkRepository_FindByHash P h w)"
    and mark: "legal (store w) \<Longrightarrow>
      (if redeemable (view (store w)) h
       then writes view legal w ((view (store w))(h \<mapsto> spend (the (view (store w) h)))) True
       else reads view legal w (Inr False)) (MagicLinkRepository_MarkConsumed P h w)"
    and invalidate: "legal (store w) \<Longrightarrow>
      writes view legal w
        (invalidated (Email_String email) (TenantID_String tenant) (view (store w))) ()
        (MagicLinkRepository_InvalidateOutstanding P email tenant w)"
    and issue: "MagicLinkRepository_IssueAtomically P = Some issuer \<Longrightarrow> legal (store w) \<Longrightarrow>
      attempts view legal w
        ((invalidated (Email_String (MagicLink_email l)) (TenantID_String (MagicLink_tenantID l))
            (view (store w)))(MagicLink_hash l \<mapsto> MagicLink_Snapshot l))
        (\<lambda>e. view (store w) (MagicLink_hash l) \<noteq> None) (issuer l w)"
    and keyed: "legal st \<Longrightarrow> view st h = Some sn \<Longrightarrow> MagicLinkSnapshot_Hash sn = h"
begin

lemma peek_effect:
  assumes "legal (store w)" and "MagicLinkService_repo s = P"
    and "MagicLinkService_Peek s raw w = (r, w')"
  defines "h \<equiv> HashToken raw"
  shows "settled legal w w' \<and> view (store w') = view (store w) \<and>
    (case r of
       Inr link \<Rightarrow> (\<exists>sn now. view (store w) h = Some sn \<and> link = MagicLinkFromSnapshot sn \<and>
          \<not> MagicLinkSnapshot_Consumed sn \<and> read_between w now w' \<and>
          now < MagicLinkSnapshot_ExpiresAt sn)
     | Inl e \<Rightarrow>
         e = ErrNotFound \<and> view (store w) h = None \<or>
         e = ErrConsumed \<and> (\<exists>sn. view (store w) h = Some sn \<and> MagicLinkSnapshot_Consumed sn) \<or>
         e = ErrExpired \<and> (\<exists>sn now. view (store w) h = Some sn \<and> read_between w now w' \<and>
            \<not> MagicLinkSnapshot_Consumed sn \<and> MagicLinkSnapshot_ExpiresAt sn \<le> now) \<or>
         is_external e \<and> \<not> quiet w)"
proof -
  obtain r1 w1 where f: "MagicLinkRepository_FindByHash P h w = (r1, w1)" by fastforce
  note run = assms(3) [unfolded MagicLinkService_Peek_def assms(2) h_def [symmetric] f]
  from find [OF assms(1), of h, unfolded f] show ?thesis
  proof (cases rule: readsE)
    case (failed e)
    with run show ?thesis by auto
  next
    case found
    show ?thesis
    proof (cases "view (store w) h")
      case None
      with found run show ?thesis by (auto simp: link_at_def)
    next
      case (Some sn)
      have now: "read_between w (clk w1 (pos w1)) (tick w1)"
        by (rule read_between_clock [of w w1]) (use found in \<open>auto simp: settled_def read_clock_def\<close>)
      show ?thesis
        using Some found run now settled_tick [OF found(3)]
        by (auto simp: link_at_def read_clock_def MagicLink_Expired_def not_le
            split: if_splits)
    qed
  qed
qed

lemma consume_effect:
  assumes "legal (store w)" and "MagicLinkService_repo s = P"
    and "MagicLinkService_Consume s raw w = (r, w')"
  defines "h \<equiv> HashToken raw"
  shows "settled legal w w' \<and>
    (case r of
       Inr link \<Rightarrow> (\<exists>sn now. view (store w) h = Some sn \<and>
          link = MagicLinkFromSnapshot (spend sn) \<and>
          \<not> MagicLinkSnapshot_Consumed sn \<and> read_between w now w' \<and>
          now < MagicLinkSnapshot_ExpiresAt sn \<and>
          view (store w') = (view (store w))(h \<mapsto> spend sn))
     | Inl e \<Rightarrow> view (store w') = view (store w) \<and>
        (e = ErrNotFound \<and> view (store w) h = None \<or>
         e = ErrConsumed \<and> (\<exists>sn. view (store w) h = Some sn \<and> MagicLinkSnapshot_Consumed sn) \<or>
         e = ErrExpired \<and> (\<exists>sn now. view (store w) h = Some sn \<and> read_between w now w' \<and>
            \<not> MagicLinkSnapshot_Consumed sn \<and> MagicLinkSnapshot_ExpiresAt sn \<le> now) \<or>
         is_external e \<and> \<not> quiet w))"
proof -
  obtain r1 w1 where p: "MagicLinkService_Peek s raw w = (r1, w1)" by fastforce
  note pe = peek_effect [OF assms(1,2) p, folded h_def]
  note run = assms(3) [unfolded Consume_Peek p assms(2)]
  show ?thesis
  proof (cases r1)
    case (Inl e)
    with run have "r = Inl e" and "w' = w1" by simp_all
    with Inl pe show ?thesis by simp
  next
    case (Inr link)
    with pe obtain sn now where sn: "view (store w) h = Some sn" "link = MagicLinkFromSnapshot sn"
        "\<not> MagicLinkSnapshot_Consumed sn" "read_between w now w1"
        "now < MagicLinkSnapshot_ExpiresAt sn"
      and same: "view (store w1) = view (store w)" and set1: "settled legal w w1" by auto
    have hash: "MagicLink_hash link = h" using keyed [OF assms(1) sn(1)] sn(2) by simp
    obtain r2 w2 where m: "MagicLinkRepository_MarkConsumed P h w1 = (r2, w2)" by fastforce
    have l1: "legal (store w1)" using set1 by (simp add: settled_def)
    have "redeemable (view (store w1)) h" using sn same by (simp add: redeemable_def)
    with mark [OF l1, of h] m
    have "writes view legal w1 ((view (store w1))(h \<mapsto> spend sn)) True (r2, w2)"
      using sn same by simp
    then show ?thesis
    proof (cases rule: writesE)
      case written
      with run Inr hash m have "r = Inr (link\<lparr>MagicLink_consumed := True\<rparr>)" and "w' = w2" by auto
      moreover have "link\<lparr>MagicLink_consumed := True\<rparr> = MagicLinkFromSnapshot (spend sn)"
        using sn(2) by (simp add: MagicLinkFromSnapshot_def spend_def)
      moreover have "read_between w now w2"
        using sn(4) written(3) by (auto simp: settled_def intro: read_between_mono)
      ultimately show ?thesis
        using written sn same settled_trans [OF set1 written(3)] by auto
    next
      case (failed e)
      with run Inr hash m have "r = Inl e" and "w' = w2" by auto
      moreover have "\<not> quiet w" using failed(3) set1 quiet_mono by (auto simp: settled_def)
      ultimately show ?thesis
        using failed same settled_trans [OF set1 failed(5)] by auto
    qed
  qed
qed

text \<open>
  Issuing either fails, and then links may have been invalidated but none has become redeemable,
  or leaves the new link as the only outstanding one of its address and tenant.
\<close>

lemma issue_effect:
  assumes "legal (store w)" and "MagicLinkService_repo s = P"
    and "MagicLinkService_Issue s email tenant w = (r, w')"
  defines "e \<equiv> Email_String email" and "t \<equiv> TenantID_String tenant"
  shows "settled legal w w' \<and>
    (case r of
       Inr raw \<Rightarrow> \<not> TenantID_IsZero tenant \<and> drawn w raw \<and>
         (\<exists>now. read_between w now w' \<and>
           view (store w') = (invalidated e t (view (store w)))(HashToken raw \<mapsto>
             \<lparr>MagicLinkSnapshot_Hash = HashToken raw, MagicLinkSnapshot_Email = e,
              MagicLinkSnapshot_TenantID = t,
              MagicLinkSnapshot_ExpiresAt = now + MagicLinkService_ttl s,
              MagicLinkSnapshot_Consumed = False\<rparr>))
     | Inl _ \<Rightarrow> view (store w') = view (store w) \<or>
         view (store w') = invalidated e t (view (store w)))"
proof (cases "TenantID_IsZero tenant")
  case True
  with assms show ?thesis by (auto simp: MagicLinkService_Issue_def settled_def)
next
  case tenant: False
  obtain r1 w1 where new: "NewToken w = (r1, w1)" by fastforce
  note run = assms(3) [unfolded MagicLinkService_Issue_def new read_clock_def Let_def split_conv
      assms(2)]
  from new show ?thesis
  proof (cases rule: NewToken_cases)
    case (fail msg)
    with run tenant assms(1) show ?thesis by (auto simp: settled_def)
  next
    case (token raw)
    define now where "now = clk w1 (pos w1)"
    define link where "link = \<lparr>MagicLink_hash = HashToken raw, MagicLink_email = email,
        MagicLink_tenantID = tenant, MagicLink_expiresAt = now + MagicLinkService_ttl s,
        MagicLink_consumed = False\<rparr>"
    define w2 where "w2 = tick w1"
    have w2: "legal (store w2)" "env_le w w2" "view (store w2) = view (store w)"
      "settled legal w w2" "read_between w now w2"
      using assms(1) token read_between_clock [of w w1 now w2 w2]
      by (auto simp: w2_def now_def settled_def read_clock_def intro: env_le_tickI)
    note run = run [unfolded token(1) and_then_simps, folded now_def, folded link_def w2_def]
    have link: "MagicLink_hash link = HashToken raw" "MagicLink_email link = email"
      "MagicLink_tenantID link = tenant"
      "MagicLink_Snapshot link = \<lparr>MagicLinkSnapshot_Hash = HashToken raw,
         MagicLinkSnapshot_Email = e, MagicLinkSnapshot_TenantID = t,
         MagicLinkSnapshot_ExpiresAt = now + MagicLinkService_ttl s,
         MagicLinkSnapshot_Consumed = False\<rparr>"
      by (simp_all add: link_def MagicLink_Snapshot_def e_def t_def)
    have good: ?thesis
      if "r = Inr raw" "settled legal w2 w'" "view (store w') =
          (invalidated e t (view (store w)))(MagicLink_hash link \<mapsto> MagicLink_Snapshot link)"
      using that tenant token(2) link w2
      by (auto intro: settled_trans intro!: exI [of _ now] read_between_mono [of w now w2]
          dest: settledD(1))
    have bad: ?thesis
      if "r = Inl x" "settled legal w2 w'" "view (store w') = view (store w) \<or>
          view (store w') = invalidated e t (view (store w))" for x
      using that w2(4) by (auto intro: settled_trans)
    show ?thesis
    proof (cases "MagicLinkRepository_IssueAtomically P")
      case (Some issuer)
      obtain r3 w3 where out: "issuer link w2 = (r3, w3)" by fastforce
      from issue [OF Some w2(1), of link, unfolded out] show ?thesis
        by (rule attemptsE)
           (use run Some out tenant link w2 good bad in \<open>auto simp: e_def t_def\<close>)
    next
      case None
      obtain r3 w3 where i: "MagicLinkRepository_InvalidateOutstanding P email tenant w2 = (r3, w3)"
        by fastforce
      from invalidate [OF w2(1), of email tenant, unfolded i] show ?thesis
      proof (cases rule: writesE)
        case (failed x)
        with run None i tenant w2 bad show ?thesis by auto
      next
        case written
        obtain r4 w4 where sv: "MagicLinkRepository_Save P link w3 = (r4, w4)" by fastforce
        from save [OF settledD(2) [OF written(3)], of link, unfolded sv] show ?thesis
          by (rule attemptsE)
             (use run None i sv tenant written w2 good bad settled_trans [OF written(3)] in
               \<open>auto simp: e_def t_def\<close>)
      qed
    qed
  qed
qed

lemma issue_supersedes:
  assumes "legal (store w)" and "MagicLinkService_repo s = P"
    and "MagicLinkService_Issue s email tenant w = (Inr raw, w')"
    and "view (store w') h = Some sn"
    and "outstanding (Email_String email) (TenantID_String tenant) sn"
  shows "h = HashToken raw"
  using issue_effect [OF assms(1-3)] assms(4,5) invalidated_not_outstanding
  by (auto split: if_splits)

lemma issue_then_consume:
  assumes "legal (store w)" and "MagicLinkService_repo s = P"
    and "MagicLinkService_Issue s email tenant w = (Inr raw, w1)"
    and "quiet w1"
    and "\<And>now. read_between w now w1 \<Longrightarrow> clock_before w1 (now + MagicLinkService_ttl s)"
    and "MagicLinkService_Consume s raw w1 = (r, w2)"
  shows "\<exists>link. r = Inr link \<and> MagicLink_email link = email \<and> MagicLink_tenantID link = tenant \<and>
           MagicLink_consumed link"
proof -
  from issue_effect [OF assms(1-3)] obtain now where l: "legal (store w1)"
    and now: "read_between w now w1"
    and v: "view (store w1) (HashToken raw) = Some
      \<lparr>MagicLinkSnapshot_Hash = HashToken raw, MagicLinkSnapshot_Email = Email_String email,
       MagicLinkSnapshot_TenantID = TenantID_String tenant,
       MagicLinkSnapshot_ExpiresAt = now + MagicLinkService_ttl s,
       MagicLinkSnapshot_Consumed = False\<rparr>"
    by (auto simp: settled_def)
  from consume_effect [OF l assms(2,6)] v assms(4) read_between_before [OF _ assms(5) [OF now]]
  show ?thesis
    by (cases r) (fastforce simp: MagicLinkFromSnapshot_def spend_def)+
qed

text \<open>A link that is spent, or was never stored, stays unusable until it is issued again.\<close>

lemma consume_spent:
  assumes "legal (store w)" and "MagicLinkService_repo s = P"
    and "MagicLinkService_Consume s raw w = (r, w')"
    and "\<not> redeemable (view (store w)) (HashToken raw)"
  shows "isl r \<and> (quiet w \<longrightarrow> r = Inl ErrConsumed \<or> r = Inl ErrNotFound)"
  using consume_effect [OF assms(1-3)] assms(4)
  by (cases r) (auto simp: redeemable_def)

lemma consume_twice:
  assumes "legal (store w)" and "MagicLinkService_repo s = P"
    and "MagicLinkService_Consume s raw w = (Inr link, w1)"
    and "MagicLinkService_Consume s raw w1 = (r, w2)" and "quiet w1"
  shows "r = Inl ErrConsumed"
proof -
  from consume_effect [OF assms(1-3)] obtain sn where l: "legal (store w1)"
    and v: "view (store w1) (HashToken raw) = Some (spend sn)"
    by (auto simp: settled_def)
  from consume_effect [OF l assms(2,4)] v assms(5) show ?thesis
    by (cases r) auto
qed

end

section \<open>Concurrent redemptions\<close>

text \<open>
  Any number of calls of \<open>Consume\<close> run against one table. A call has two atomic steps: the read
  with its checks (\<open>FindByHash\<close>, then the clock, whose reading is arbitrary), and the flip
  (\<open>MarkConsumed\<close>). Between any two steps other calls may move, links may be invalidated, and
  new ones may be issued under keys not in use. \<open>consume_seq\<close> ties the two steps to the code.
\<close>

datatype redemption =
    Started Token
  | Checked Token MagicLink
  | Finished Token "MagicLink res"

definition redeem_read :: "links \<Rightarrow> time \<Rightarrow> Token \<Rightarrow> redemption" where
  "redeem_read m now raw =
     (case link_at m (HashToken raw) of
        Inl e \<Rightarrow> Finished raw (Inl e)
      | Inr link \<Rightarrow>
          if MagicLink_consumed link then Finished raw (Inl ErrConsumed)
          else if MagicLink_Expired link now then Finished raw (Inl ErrExpired)
          else Checked raw link)"

definition redeem_mark :: "links \<Rightarrow> Token \<Rightarrow> MagicLink \<Rightarrow> links \<times> redemption" where
  "redeem_mark m raw link =
     (let h = MagicLink_hash link in
      if redeemable m h
      then (m(h \<mapsto> spend (the (m h))), Finished raw (Inr (link\<lparr>MagicLink_consumed := True\<rparr>)))
      else (m, Finished raw (Inl ErrConsumed)))"

text \<open>One call running alone, from its two steps.\<close>

definition redeem_alone :: "links \<Rightarrow> time \<Rightarrow> Token \<Rightarrow> links \<times> MagicLink res" where
  "redeem_alone m now raw =
     (case redeem_read m now raw of
        Checked raw link \<Rightarrow>
          (case redeem_mark m raw link of (m', Finished _ r) \<Rightarrow> (m', r) | (m', _) \<Rightarrow> (m', Inl ErrConsumed))
      | Finished _ r \<Rightarrow> (m, r)
      | Started _ \<Rightarrow> (m, Inl ErrConsumed))"

context magic_store
begin

lemma consume_seq:
  assumes "legal (store w)" and "MagicLinkService_repo s = P" and "quiet w"
    and "MagicLinkService_Consume s raw w = (r, w')"
  shows "\<exists>now. redeem_alone (view (store w)) now raw = (view (store w'), r)"
proof (cases "view (store w) (HashToken raw)")
  case None
  with consume_effect [OF assms(1,2,4)] assms(3) show ?thesis
    by (cases r) (auto simp: redeem_alone_def redeem_read_def link_at_def)
next
  case (Some sn)
  let ?l = "MagicLinkFromSnapshot sn"
  have hash: "MagicLinkSnapshot_Hash sn = HashToken raw" using keyed [OF assms(1) Some] .
  have alone: "redeem_alone (view (store w)) now raw =
      (if MagicLinkSnapshot_Consumed sn then (view (store w), Inl ErrConsumed)
       else if MagicLinkSnapshot_ExpiresAt sn \<le> now then (view (store w), Inl ErrExpired)
       else ((view (store w))(HashToken raw \<mapsto> spend sn), Inr (MagicLinkFromSnapshot (spend sn))))"
    for now
    using Some hash
    by (simp add: redeem_alone_def redeem_read_def link_at_def redeem_mark_def redeemable_def
        MagicLink_Expired_def MagicLinkFromSnapshot_def spend_def Let_def)
  show ?thesis
  proof (cases r)
    case (Inl e)
    with consume_effect [OF assms(1,2,4)] assms(3) Some alone show ?thesis by auto
  next
    case (Inr link)
    with consume_effect [OF assms(1,2,4)] Some obtain now where
      "link = MagicLinkFromSnapshot (spend sn)" "\<not> MagicLinkSnapshot_Consumed sn"
      "now < MagicLinkSnapshot_ExpiresAt sn"
      "view (store w') = (view (store w))(HashToken raw \<mapsto> spend sn)" by auto
    with Inr alone [of now] show ?thesis by auto
  qed
qed

end

record redemptions =
  table :: links
  calls :: "nat \<Rightarrow> redemption"

inductive redeem_step :: "redemptions \<Rightarrow> redemptions \<Rightarrow> bool" where
  read: "calls c i = Started raw \<Longrightarrow>
    redeem_step c (c\<lparr>calls := (calls c)(i := redeem_read (table c) now raw)\<rparr>)"
| mark: "calls c i = Checked raw link \<Longrightarrow> redeem_mark (table c) raw link = (m, x) \<Longrightarrow>
    redeem_step c (c\<lparr>table := m, calls := (calls c)(i := x)\<rparr>)"
| invalidate: "redeem_step c (c\<lparr>table := invalidated email tenant (table c)\<rparr>)"
| issue: "table c (MagicLinkSnapshot_Hash sn) = None \<Longrightarrow>
    redeem_step c (c\<lparr>table := (table c)(MagicLinkSnapshot_Hash sn \<mapsto> sn)\<rparr>)"

inductive_cases redeem_stepE: "redeem_step c c'"

inductive redeem_reach :: "redemptions \<Rightarrow> redemptions \<Rightarrow> bool" where
  here: "redeem_reach c c"
| more: "redeem_reach c c' \<Longrightarrow> redeem_step c' c'' \<Longrightarrow> redeem_reach c c''"

text \<open>\<open>won c i h\<close>: call \<open>i\<close> returned a link, for the key \<open>h\<close>.\<close>

definition won :: "redemptions \<Rightarrow> nat \<Rightarrow> string \<Rightarrow> bool" where
  "won c i h \<longleftrightarrow> (\<exists>raw link. calls c i = Finished raw (Inr link) \<and> HashToken raw = h)"

definition consistent :: "redemptions \<Rightarrow> bool" where
  "consistent c \<longleftrightarrow>
     (\<forall>h sn. table c h = Some sn \<longrightarrow> MagicLinkSnapshot_Hash sn = h) \<and>
     (\<forall>i raw link. calls c i = Checked raw link \<longrightarrow> MagicLink_hash link = HashToken raw) \<and>
     (\<forall>i h. won c i h \<longrightarrow> table c h \<noteq> None \<and> \<not> redeemable (table c) h) \<and>
     (\<forall>i j h. won c i h \<longrightarrow> won c j h \<longrightarrow> i = j)"

definition fresh_start :: "redemptions \<Rightarrow> bool" where
  "fresh_start c \<longleftrightarrow>
     (\<forall>h sn. table c h = Some sn \<longrightarrow> MagicLinkSnapshot_Hash sn = h) \<and>
     (\<forall>i. \<exists>raw. calls c i = Started raw)"

lemma won_upd:
  "won (c\<lparr>table := m, calls := (calls c)(i := x)\<rparr>) j h \<longleftrightarrow>
     (if j = i then (\<exists>raw link. x = Finished raw (Inr link) \<and> HashToken raw = h) else won c j h)"
  "won (c\<lparr>calls := (calls c)(i := x)\<rparr>) j h \<longleftrightarrow>
     (if j = i then (\<exists>raw link. x = Finished raw (Inr link) \<and> HashToken raw = h) else won c j h)"
  "won (c\<lparr>table := m\<rparr>) j h = won c j h"
  by (auto simp: won_def)

lemma redeem_read_cases:
  assumes "\<And>h sn. m h = Some sn \<Longrightarrow> MagicLinkSnapshot_Hash sn = h"
  obtains e where "redeem_read m now raw = Finished raw (Inl e)"
  | link where "redeem_read m now raw = Checked raw link" and "MagicLink_hash link = HashToken raw"
proof (cases "m (HashToken raw)")
  case None
  then show ?thesis by (intro that(1)) (simp add: redeem_read_def link_at_def)
next
  case (Some sn)
  let ?l = "MagicLinkFromSnapshot sn"
  have r: "redeem_read m now raw =
      (if MagicLink_consumed ?l then Finished raw (Inl ErrConsumed)
       else if MagicLink_Expired ?l now then Finished raw (Inl ErrExpired) else Checked raw ?l)"
    using Some by (simp add: redeem_read_def link_at_def)
  show ?thesis
  proof (cases "MagicLink_consumed ?l \<or> MagicLink_Expired ?l now")
    case True
    then show ?thesis using r that(1) by metis
  next
    case False
    with r assms [OF Some] show ?thesis by (intro that(2) [of ?l]) simp_all
  qed
qed

lemma redeem_mark_cases:
  assumes "redeem_mark m raw link = (m', x)"
  obtains (flip) sn where "m (MagicLink_hash link) = Some sn"
      and "\<not> MagicLinkSnapshot_Consumed sn" and "m' = m(MagicLink_hash link \<mapsto> spend sn)"
      and "x = Finished raw (Inr (link\<lparr>MagicLink_consumed := True\<rparr>))"
  | (late) "m' = m" and "x = Finished raw (Inl ErrConsumed)"
proof (cases "redeemable m (MagicLink_hash link)")
  case True
  then obtain sn where "m (MagicLink_hash link) = Some sn" and "\<not> MagicLinkSnapshot_Consumed sn"
    by (auto simp: redeemable_def)
  with True assms show ?thesis by (intro flip [of sn]) (simp_all add: redeem_mark_def Let_def)
next
  case False
  with assms show ?thesis by (intro late) (simp_all add: redeem_mark_def Let_def)
qed

lemma consistent_start: "fresh_start c \<Longrightarrow> consistent c"
  unfolding fresh_start_def consistent_def won_def
  by (intro conjI allI impI; elim conjE exE; (drule_tac x = i in spec)?; auto)

lemma consistent_step:
  assumes "redeem_step c c'" and "consistent c"
  shows "consistent c'"
  using assms(1)
proof (cases rule: redeem_step.cases)
  case (read i raw now)
  have keyed: "\<And>h sn. table c h = Some sn \<Longrightarrow> MagicLinkSnapshot_Hash sn = h"
    using assms(2) by (auto simp: consistent_def)
  show ?thesis
    by (rule redeem_read_cases [OF keyed, of "table c" now raw])
       (use assms(2) read in \<open>auto simp: consistent_def won_upd\<close>)
next
  case (mark i raw link m x)
  have hash: "MagicLink_hash link = HashToken raw" and keyed:
    "\<And>h sn. table c h = Some sn \<Longrightarrow> MagicLinkSnapshot_Hash sn = h"
    using assms(2) mark(2) by (auto simp: consistent_def)
  from mark(3) show ?thesis
  proof (cases rule: redeem_mark_cases)
    case late
    with assms(2) mark show ?thesis by (auto simp: consistent_def won_upd)
  next
    case (flip sn)
    have none: "\<not> won c j (HashToken raw)" for j
      using assms(2) flip(1,2) by (auto simp: consistent_def hash redeemable_def)
    have old: "table c h \<noteq> None \<and> \<not> redeemable (table c) h" if "won c j h" for j h
      using assms(2) that unfolding consistent_def by blast
    have c': "won c' j h \<longleftrightarrow> (if j = i then h = HashToken raw else won c j h)"
      "table c' h = (if h = HashToken raw then Some (spend sn) else table c h)" for j h
      using mark(1) flip hash by (auto simp: won_upd)
    have "MagicLinkSnapshot_Hash sn' = h" if "table c' h = Some sn'" for h sn'
      using that keyed flip(1) hash by (auto simp: c' split: if_splits)
    moreover have "MagicLink_hash l = HashToken raw'" if "calls c' j = Checked raw' l" for j raw' l
      using that assms(2) mark(1) flip(4) by (auto simp: consistent_def split: if_splits)
    moreover have "table c' h \<noteq> None \<and> \<not> redeemable (table c') h" if "won c' j h" for j h
      using that old none by (auto simp: c' redeemable_def split: if_splits)
    moreover have "i' = j" if "won c' i' h" and "won c' j h" for i' j h
      using that none assms(2) by (auto simp: c' consistent_def split: if_splits)
    ultimately show ?thesis unfolding consistent_def by blast
  qed
next
  case (invalidate email tenant)
  have "invalidated email tenant (table c) h = None \<longleftrightarrow> table c h = None" for h
    by (simp add: invalidated_def)
  moreover have "MagicLinkSnapshot_Hash sn = h"
    if i: "invalidated email tenant (table c) h = Some sn" for h sn
  proof -
    from i obtain x where x: "table c h = Some x" and
      "sn = (if outstanding email tenant x then spend x else x)"
      by (auto simp: invalidated_def simp del: if_split)
    then have "MagicLinkSnapshot_Hash sn = MagicLinkSnapshot_Hash x"
      by (cases "outstanding email tenant x") simp_all
    with assms(2) x show ?thesis by (auto simp: consistent_def)
  qed
  moreover have "won c' i h = won c i h" for i h using invalidate by (simp add: won_upd)
  moreover have "\<not> redeemable (invalidated email tenant (table c)) h" if "won c i h" for i h
    using that assms(2) invalidated_redeemable unfolding consistent_def by blast
  moreover have "calls c' = calls c" and "table c' = invalidated email tenant (table c)"
    using invalidate by simp_all
  ultimately show ?thesis
    using assms(2) unfolding consistent_def by simp
next
  case (issue sn)
  have free: "h \<noteq> MagicLinkSnapshot_Hash sn" if "won c i h" for i h
    using that assms(2) issue(2) unfolding consistent_def by metis
  have won: "won c' i h = won c i h" for i h
    using issue(1) by (simp add: won_upd)
  have "table c' h \<noteq> None \<and> \<not> redeemable (table c') h" if "won c' i h" for i h
    using that assms(2) issue(1) free won by (auto simp: consistent_def redeemable_def)
  moreover have "MagicLinkSnapshot_Hash x = h" if "table c' h = Some x" for h x
    using that assms(2) issue(1) by (auto simp: consistent_def split: if_splits)
  moreover have "calls c' = calls c" using issue(1) by simp
  ultimately show ?thesis
    using assms(2) unfolding consistent_def won by simp
qed

lemma consistent_reach: "redeem_reach c c' \<Longrightarrow> consistent c \<Longrightarrow> consistent c'"
  by (induction rule: redeem_reach.induct) (auto intro: consistent_step)

lemma one_winner:
  assumes "redeem_reach c c'" and "fresh_start c" and "won c' i h" and "won c' j h"
  shows "i = j"
  using consistent_reach [OF assms(1) consistent_start [OF assms(2)]] assms(3,4)
  unfolding consistent_def by blast

end
