(* ===== verification/Lockout.thy ===== *)
theory Lockout
  imports Values
begin

text \<open>
  \<open>src/domain/lockout.go\<close>: the brute-force lockout. Failure counters are integers (Go's \<open>int\<close>
  would wrap after \<open>2 ^ 63\<close> failures of one key). The port's optional atomic capability is an
  optional field. The locale \<open>attempt_store\<close> is the contract of the port; inside it, on either
  path of \<open>RecordFailure\<close>, the number of guesses that pass the guard is bounded.
\<close>

section \<open>The policy\<close>

record LockoutPolicy =
  LockoutPolicy_maxFailures :: int
  LockoutPolicy_window :: duration

definition NewLockoutPolicy :: "int \<Rightarrow> duration \<Rightarrow> LockoutPolicy res" where
  "NewLockoutPolicy maxFailures window =
     (if maxFailures \<le> 0 \<or> window \<le> 0 then Inl ErrInvalidLockoutCfg
      else Inr \<lparr>LockoutPolicy_maxFailures = maxFailures, LockoutPolicy_window = window\<rparr>)"

definition DefaultLockoutPolicy :: LockoutPolicy where
  "DefaultLockoutPolicy = \<lparr>LockoutPolicy_maxFailures = 5, LockoutPolicy_window = 15 * minute\<rparr>"

definition LockoutPolicy_LockedUntil :: "LockoutPolicy \<Rightarrow> int \<Rightarrow> time \<Rightarrow> time" where
  "LockoutPolicy_LockedUntil p failureCount at =
     (if LockoutPolicy_maxFailures p \<le> failureCount then at + LockoutPolicy_window p else 0)"

definition policy_ok :: "LockoutPolicy \<Rightarrow> bool" where
  "policy_ok p \<longleftrightarrow> 0 < LockoutPolicy_maxFailures p \<and> 0 < LockoutPolicy_window p"

lemma NewLockoutPolicy_ok: "NewLockoutPolicy m d = Inr p \<Longrightarrow> policy_ok p"
  by (auto simp: NewLockoutPolicy_def policy_ok_def split: if_splits)

lemma DefaultLockoutPolicy_ok: "policy_ok DefaultLockoutPolicy"
  by (simp add: policy_ok_def DefaultLockoutPolicy_def minute_def second_def)

section \<open>The port and the service\<close>

record LoginAttemptSnapshot =
  LoginAttemptSnapshot_Key :: string
  LoginAttemptSnapshot_FailureCount :: int
  LoginAttemptSnapshot_LockedUntil :: time

record 'w LoginAttemptStore =
  LoginAttemptStore_Get :: "string \<Rightarrow> 'w \<Rightarrow> LoginAttemptSnapshot res \<times> 'w"
  LoginAttemptStore_Save :: "LoginAttemptSnapshot \<Rightarrow> 'w \<Rightarrow> unit res \<times> 'w"
  LoginAttemptStore_Delete :: "string \<Rightarrow> 'w \<Rightarrow> unit res \<times> 'w"
  LoginAttemptStore_RecordFailureAtomically ::
    "(string \<Rightarrow> time \<Rightarrow> int \<Rightarrow> duration \<Rightarrow> 'w \<Rightarrow> (LoginAttemptSnapshot \<times> bool) res \<times> 'w) option"

record 'w LockoutService =
  LockoutService_store :: "'w LoginAttemptStore"
  LockoutService_policy :: LockoutPolicy

definition NewLockoutService :: "'w LoginAttemptStore \<Rightarrow> LockoutPolicy \<Rightarrow> 'w LockoutService" where
  "NewLockoutService st p = \<lparr>LockoutService_store = st, LockoutService_policy = p\<rparr>"

definition normalizeLockoutKey :: "string \<Rightarrow> string res" where
  "normalizeLockoutKey key =
     (if trim_space key = [] \<or> maxLockoutKeyLen < length key then Inl ErrInvalidLockoutKey
      else Inr key)"

definition LockoutKeyFromEmail :: "Email \<Rightarrow> string" where
  "LockoutKeyFromEmail email = hex_encode (sha256 (Email_String email))"

definition LockoutService_IsLocked ::
  "('s world) LockoutService \<Rightarrow> string \<Rightarrow> 's world \<Rightarrow> bool res \<times> 's world" where
  "LockoutService_IsLocked s key w =
     (case normalizeLockoutKey key of
        Inl e \<Rightarrow> (Inl e, w)
      | Inr key \<Rightarrow>
          (case LoginAttemptStore_Get (LockoutService_store s) key w of
             (Inl e, w) \<Rightarrow> if e = ErrNotFound then (Inr False, w) else (Inl e, w)
           | (Inr snap, w) \<Rightarrow>
               if time_is_zero (LoginAttemptSnapshot_LockedUntil snap) then (Inr False, w)
               else let (now, w) = read_clock w in
                 (Inr (before now (LoginAttemptSnapshot_LockedUntil snap)), w)))"

definition LockoutService_Guard ::
  "('s world) LockoutService \<Rightarrow> string \<Rightarrow> 's world \<Rightarrow> unit res \<times> 's world" where
  "LockoutService_Guard s key w =
     and_then (LockoutService_IsLocked s key w) (\<lambda>locked w.
       if locked then (Inl ErrAccountLocked, w) else (Inr (), w))"

text \<open>The read-modify-write of the fallback path, from the snapshot read to the end.\<close>

definition RecordFailure_from ::
  "('s world) LockoutService \<Rightarrow> LoginAttemptSnapshot \<Rightarrow> 's world \<Rightarrow> bool res \<times> 's world" where
  "RecordFailure_from s snap w =
     (let (now, w) = read_clock w;
          locked = \<not> time_is_zero (LoginAttemptSnapshot_LockedUntil snap)
      in if locked \<and> before now (LoginAttemptSnapshot_LockedUntil snap) then (Inr False, w)
         else
           let snap = (if locked
                 then snap\<lparr>LoginAttemptSnapshot_FailureCount := 0,
                           LoginAttemptSnapshot_LockedUntil := 0\<rparr>
                 else snap);
               snap = snap\<lparr>LoginAttemptSnapshot_FailureCount :=
                             LoginAttemptSnapshot_FailureCount snap + 1\<rparr>;
               until = LockoutPolicy_LockedUntil (LockoutService_policy s)
                         (LoginAttemptSnapshot_FailureCount snap) now;
               justLocked = \<not> time_is_zero until;
               snap = (if justLocked then snap\<lparr>LoginAttemptSnapshot_LockedUntil := until\<rparr> else snap)
           in and_then (LoginAttemptStore_Save (LockoutService_store s) snap w)
                (\<lambda>_ w. (Inr justLocked, w)))"

definition LockoutService_RecordFailure ::
  "('s world) LockoutService \<Rightarrow> string \<Rightarrow> 's world \<Rightarrow> bool res \<times> 's world" where
  "LockoutService_RecordFailure s key w =
     (case normalizeLockoutKey key of
        Inl e \<Rightarrow> (Inl e, w)
      | Inr key \<Rightarrow>
          (case LoginAttemptStore_RecordFailureAtomically (LockoutService_store s) of
             Some rec \<Rightarrow>
               let (now, w) = read_clock w in
               and_then (rec key now (LockoutPolicy_maxFailures (LockoutService_policy s))
                           (LockoutPolicy_window (LockoutService_policy s)) w)
                 (\<lambda>(_, justLocked) w. (Inr justLocked, w))
           | None \<Rightarrow>
               (case LoginAttemptStore_Get (LockoutService_store s) key w of
                  (Inl e, w) \<Rightarrow>
                    if e = ErrNotFound
                    then RecordFailure_from s
                           \<lparr>LoginAttemptSnapshot_Key = key,
                            LoginAttemptSnapshot_FailureCount = 0,
                            LoginAttemptSnapshot_LockedUntil = 0\<rparr> w
                    else (Inl e, w)
                | (Inr snap, w) \<Rightarrow> RecordFailure_from s snap w)))"

definition LockoutService_Clear ::
  "('s world) LockoutService \<Rightarrow> string \<Rightarrow> 's world \<Rightarrow> unit res \<times> 's world" where
  "LockoutService_Clear s key w =
     (case normalizeLockoutKey key of
        Inl e \<Rightarrow> (Inl e, w)
      | Inr key \<Rightarrow> LoginAttemptStore_Delete (LockoutService_store s) key w)"

lemma normalizeLockoutKey_iff:
  "normalizeLockoutKey key = Inr k \<longleftrightarrow>
     k = key \<and> trim_space key \<noteq> [] \<and> length key \<le> maxLockoutKeyLen"
  by (auto simp: normalizeLockoutKey_def)

text \<open>The recommended key, the hash of the address, is always accepted as it is.\<close>

lemma normalize_hashed_key: "normalizeLockoutKey (LockoutKeyFromEmail e) = Inr (LockoutKeyFromEmail e)"
proof -
  have "hex_encode (sha256 (Email_String e)) \<noteq> []"
    using length_hex_encode [of "sha256 (Email_String e)"] by (metis length_sha256 list.size(3)
        mult_is_0 zero_neq_numeral)
  then show ?thesis
    by (simp add: normalizeLockoutKey_def LockoutKeyFromEmail_def length_bounds)
qed

section \<open>The contract of the attempt port\<close>

type_synonym attempts_table = "string \<rightharpoonup> LoginAttemptSnapshot"

definition attempt_state :: "attempts_table \<Rightarrow> string \<Rightarrow> LoginAttemptSnapshot" where
  "attempt_state m key =
     (case m key of Some s \<Rightarrow> s
      | None \<Rightarrow> \<lparr>LoginAttemptSnapshot_Key = key, LoginAttemptSnapshot_FailureCount = 0,
                 LoginAttemptSnapshot_LockedUntil = 0\<rparr>)"

definition locked_at :: "LoginAttemptSnapshot \<Rightarrow> time \<Rightarrow> bool" where
  "locked_at s now \<longleftrightarrow>
     LoginAttemptSnapshot_LockedUntil s \<noteq> 0 \<and> now < LoginAttemptSnapshot_LockedUntil s"

text \<open>
  \<open>counted\<close>: the state after one more failure when no lock is active; an expired lock starts a
  fresh count. \<open>recorded\<close>: what the atomic operation stores, which goes on counting during an
  active lock but never moves it.
\<close>

definition counted :: "LockoutPolicy \<Rightarrow> LoginAttemptSnapshot \<Rightarrow> time \<Rightarrow> LoginAttemptSnapshot" where
  "counted p s now =
     (let n = (if LoginAttemptSnapshot_LockedUntil s = 0
               then LoginAttemptSnapshot_FailureCount s else 0) + 1
      in \<lparr>LoginAttemptSnapshot_Key = LoginAttemptSnapshot_Key s,
          LoginAttemptSnapshot_FailureCount = n,
          LoginAttemptSnapshot_LockedUntil = LockoutPolicy_LockedUntil p n now\<rparr>)"

definition recorded :: "LockoutPolicy \<Rightarrow> LoginAttemptSnapshot \<Rightarrow> time \<Rightarrow> LoginAttemptSnapshot" where
  "recorded p s now =
     (if locked_at s now
      then s\<lparr>LoginAttemptSnapshot_FailureCount := LoginAttemptSnapshot_FailureCount s + 1\<rparr>
      else counted p s now)"

lemma RecordFailure_from_unlocked:
  assumes "\<not> locked_at st (clk w (pos w))"
  shows "RecordFailure_from s st w =
    (let c = counted (LockoutService_policy s) st (clk w (pos w)) in
     and_then (LoginAttemptStore_Save (LockoutService_store s) c (tick w))
       (\<lambda>_ w. (Inr (LoginAttemptSnapshot_LockedUntil c \<noteq> 0), w)))"
  using assms
  by (cases st) (auto simp: RecordFailure_from_def read_clock_def locked_at_def time_is_zero_def
      before_def counted_def Let_def)

definition engaged :: "LockoutPolicy \<Rightarrow> LoginAttemptSnapshot \<Rightarrow> bool" where
  "engaged p s \<longleftrightarrow> LoginAttemptSnapshot_LockedUntil s \<noteq> 0 \<and>
     LoginAttemptSnapshot_FailureCount s = LockoutPolicy_maxFailures p"

definition attempt_at :: "attempts_table \<Rightarrow> string \<Rightarrow> LoginAttemptSnapshot res" where
  "attempt_at m key = (case m key of Some s \<Rightarrow> Inr s | None \<Rightarrow> Inl ErrNotFound)"

locale attempt_store =
  fixes P :: "('s world) LoginAttemptStore"
    and view :: "'s \<Rightarrow> attempts_table"
    and legal :: "'s \<Rightarrow> bool"
  assumes get: "legal (store w) \<Longrightarrow>
      reads view legal w (attempt_at (view (store w)) key) (LoginAttemptStore_Get P key w)"
    and save: "legal (store w) \<Longrightarrow>
      writes view legal w ((view (store w))(LoginAttemptSnapshot_Key s \<mapsto> s)) ()
        (LoginAttemptStore_Save P s w)"
    and delete: "legal (store w) \<Longrightarrow>
      writes view legal w ((view (store w))(key := None)) () (LoginAttemptStore_Delete P key w)"
    and record_law: "LoginAttemptStore_RecordFailureAtomically P = Some rec \<Longrightarrow> legal (store w) \<Longrightarrow>
      writes view legal w
        ((view (store w))(key \<mapsto> recorded p (attempt_state (view (store w)) key) now))
        (recorded p (attempt_state (view (store w)) key) now,
         engaged p (recorded p (attempt_state (view (store w)) key) now))
        (rec key now (LockoutPolicy_maxFailures p) (LockoutPolicy_window p) w)"
    and keyed: "legal st \<Longrightarrow> view st key = Some s \<Longrightarrow> LoginAttemptSnapshot_Key s = key"
begin

lemma attempt_state_key:
  "legal st \<Longrightarrow> LoginAttemptSnapshot_Key (attempt_state (view st) key) = key"
  using keyed by (auto simp: attempt_state_def split: option.splits)

lemma guard_effect:
  assumes "legal (store w)" and "LockoutService_store s = P" and "normalizeLockoutKey key = Inr key"
    and "LockoutService_Guard s key w = (r, w')"
  defines "st \<equiv> attempt_state (view (store w)) key"
  shows "settled legal w w' \<and> view (store w') = view (store w) \<and>
    (case r of
       Inr _ \<Rightarrow> LoginAttemptSnapshot_LockedUntil st = 0 \<or>
         (\<exists>now. read_between w now w' \<and> \<not> locked_at st now)
     | Inl e \<Rightarrow> is_external e \<and> \<not> quiet w \<or>
         e = ErrAccountLocked \<and> (\<exists>now. read_between w now w' \<and> locked_at st now))"
proof -
  obtain r1 w1 where g: "LoginAttemptStore_Get P key w = (r1, w1)" by fastforce
  note run = assms(4) [unfolded LockoutService_Guard_def LockoutService_IsLocked_def assms(2,3)
      sum.case g]
  from get [OF assms(1), of key, unfolded g] show ?thesis
  proof (cases rule: readsE)
    case (failed e)
    then have "e \<noteq> ErrNotFound" by auto
    with failed run show ?thesis by auto
  next
    case found
    show ?thesis
    proof (cases "view (store w) key")
      case None
      with found run show ?thesis by (auto simp: attempt_at_def st_def attempt_state_def)
    next
      case (Some x)
      have now: "read_between w (clk w1 (pos w1)) (tick w1)"
        by (rule read_between_clock [of w w1]) (use found in \<open>auto simp: settled_def read_clock_def\<close>)
      show ?thesis
        using Some found run now settled_tick [OF found(3)]
        by (auto simp: attempt_at_def st_def attempt_state_def time_is_zero_def before_def
            locked_at_def read_clock_def split: if_splits)
    qed
  qed
qed

text \<open>
  One recorded failure. When no lock is active both paths store \<open>counted\<close>; during an active
  lock the lock instant does not move.
\<close>

lemma record_effect:
  assumes "legal (store w)" and "LockoutService_store s = P" and "normalizeLockoutKey key = Inr key"
    and "LockoutService_RecordFailure s key w = (r, w')"
  defines "p \<equiv> LockoutService_policy s" and "st \<equiv> attempt_state (view (store w)) key"
  shows "settled legal w w' \<and>
    (case r of
       Inr justLocked \<Rightarrow> (\<exists>now. read_between w now w' \<and>
         (if locked_at st now
          then LoginAttemptSnapshot_LockedUntil (attempt_state (view (store w')) key)
               = LoginAttemptSnapshot_LockedUntil st
          else view (store w') = (view (store w))(key \<mapsto> counted p st now)))
     | Inl e \<Rightarrow> is_external e \<and> \<not> quiet w \<and> view (store w') = view (store w))"
proof (cases "LoginAttemptStore_RecordFailureAtomically P")
  case (Some rec)
  define now where "now = clk w (pos w)"
  obtain r1 w1 where out: "rec key now (LockoutPolicy_maxFailures p) (LockoutPolicy_window p) (tick w)
      = (r1, w1)" by fastforce
  have run: "(r, w') = and_then (r1, w1) (\<lambda>(_, justLocked) w. (Inr justLocked, w))"
    using assms(4) out
    by (simp add: LockoutService_RecordFailure_def assms(2,3) Some read_clock_def now_def p_def)
  have l: "legal (store (tick w))" using assms(1) by simp
  from record_law [OF Some l, of key p now, unfolded out] show ?thesis
  proof (cases rule: writesE)
    case written
    have "read_between w now w1"
      by (rule read_between_clock [of w w])
         (use written in \<open>auto simp: settled_def read_clock_def now_def\<close>)
    moreover have "settled legal w w1"
      using written(3) by (auto simp: settled_def intro: env_le_trans [OF env_le_tick])
    ultimately show ?thesis
      using run written
      by (auto simp: recorded_def st_def attempt_state_def
          intro!: exI [of _ now])
  next
    case (failed e)
    with run show ?thesis
      by (auto simp: settled_def intro: env_le_trans [OF env_le_tick] dest: quiet_mono [OF _ env_le_tick])
  qed
next
  case None
  obtain r1 w1 where g: "LoginAttemptStore_Get P key w = (r1, w1)" by fastforce
  from get [OF assms(1), of key, unfolded g] show ?thesis
  proof (cases rule: readsE)
    case (failed e)
    then have "e \<noteq> ErrNotFound" by auto
    with failed g None assms(2-4) have "r = Inl e" and "w' = w1"
      by (auto simp: LockoutService_RecordFailure_def)
    with failed show ?thesis by simp
  next
    case found
    have run: "(r, w') = RecordFailure_from s st w1"
      using assms(2-4) None g found
      by (auto simp: LockoutService_RecordFailure_def st_def attempt_state_def attempt_at_def
          split: option.splits)
    define now where "now = clk w1 (pos w1)"
    have key: "LoginAttemptSnapshot_Key st = key"
      using attempt_state_key [OF assms(1)] by (simp add: st_def)
    have now: "read_between w now w2" if "env_le (tick w1) w2" for w2 :: "'a world"
      using that found
      by (intro read_between_clock [of w w1]) (auto simp: settled_def read_clock_def now_def)
    show ?thesis
    proof (cases "locked_at st now")
      case True
      then have "r = Inr False" and w': "w' = tick w1"
        using run by (auto simp: RecordFailure_from_def read_clock_def now_def locked_at_def
            time_is_zero_def before_def)
      with True now [of w'] settled_tick [OF found(3)] found(2) show ?thesis
        by (auto simp: st_def intro!: exI [of _ now])
    next
      case False
      let ?c = "counted p st now"
      obtain r2 w2 where sv: "LoginAttemptStore_Save P ?c (tick w1) = (r2, w2)" by fastforce
      have run: "(r, w') = and_then (r2, w2)
          (\<lambda>_ w. (Inr (LoginAttemptSnapshot_LockedUntil ?c \<noteq> 0), w))"
        using run False sv
        by (simp add: RecordFailure_from_unlocked now_def p_def assms(2) Let_def)
      have l: "legal (store (tick w1))" and le: "settled legal w (tick w1)"
        using found settled_tick [OF found(3)] by (auto simp: settled_def)
      from save [OF l, of ?c, unfolded sv] show ?thesis
      proof (cases rule: writesE)
        case written
        have "LoginAttemptSnapshot_Key ?c = key" by (simp add: counted_def Let_def key)
        with written run found(2) False now [OF settledD(1) [OF written(3)]]
          settled_trans [OF le written(3)]
        show ?thesis by (auto intro!: exI [of _ now])
      next
        case (failed e)
        with run found(2) settled_trans [OF le failed(5)] quiet_mono [OF _ settledD(1) [OF le]]
        show ?thesis by auto
      qed
    qed
  qed
qed

end

section \<open>The bound on guesses\<close>

text \<open>
  A wrong guess: the caller guards, verifies (and fails), records. \<open>run_guesses\<close> makes \<open>n\<close> of
  them and counts those that got past the guard. \<open>remaining\<close> is how many the policy still admits
  in a span of the clock that starts at \<open>t\<close> and is no longer than the lock window.
\<close>

definition wrong_guess ::
  "('s world) LockoutService \<Rightarrow> string \<Rightarrow> 's world \<Rightarrow> bool \<times> 's world" where
  "wrong_guess s key w =
     (case LockoutService_Guard s key w of
        (Inl _, w) \<Rightarrow> (False, w)
      | (Inr _, w) \<Rightarrow> (True, snd (LockoutService_RecordFailure s key w)))"

fun run_guesses ::
  "('s world) LockoutService \<Rightarrow> string \<Rightarrow> nat \<Rightarrow> 's world \<Rightarrow> nat \<times> 's world" where
  "run_guesses s key 0 w = (0, w)"
| "run_guesses s key (Suc n) w =
     (let (passed, w) = wrong_guess s key w; (k, w) = run_guesses s key n w
      in (if passed then Suc k else k, w))"

definition remaining :: "LockoutPolicy \<Rightarrow> time \<Rightarrow> LoginAttemptSnapshot \<Rightarrow> nat" where
  "remaining p t st =
     (if LoginAttemptSnapshot_LockedUntil st = 0
      then nat (max 1 (LockoutPolicy_maxFailures p - LoginAttemptSnapshot_FailureCount st))
      else if LoginAttemptSnapshot_LockedUntil st \<le> t then nat (LockoutPolicy_maxFailures p)
      else 0)"

definition settled_lock :: "LockoutPolicy \<Rightarrow> time \<Rightarrow> LoginAttemptSnapshot \<Rightarrow> bool" where
  "settled_lock p t st \<longleftrightarrow>
     LoginAttemptSnapshot_LockedUntil st \<le> t \<or>
     t + LockoutPolicy_window p \<le> LoginAttemptSnapshot_LockedUntil st"

lemma remaining_counted:
  assumes "policy_ok p" and "0 \<le> t" and "t \<le> now" and "settled_lock p t st"
    and "remaining p t st = Suc k"
  shows "settled_lock p t (counted p st now) \<and> remaining p t (counted p st now) = k"
  using assms
  by (auto simp: counted_def Let_def remaining_def settled_lock_def LockoutPolicy_LockedUntil_def
      policy_ok_def max_def split: if_splits)

context attempt_store
begin

lemma wrong_guess_effect:
  assumes "legal (store w)" and "LockoutService_store s = P" and "normalizeLockoutKey key = Inr key"
    and "policy_ok p" and "p = LockoutService_policy s" and "0 \<le> t"
    and "quiet w" and "clock_from w t" and "clock_before w (t + LockoutPolicy_window p)"
    and "settled_lock p t (attempt_state (view (store w)) key)"
    and "wrong_guess s key w = (passed, w')"
  shows "settled legal w w' \<and> settled_lock p t (attempt_state (view (store w')) key) \<and>
    passed = (0 < remaining p t (attempt_state (view (store w)) key)) \<and>
    remaining p t (attempt_state (view (store w')) key)
      = remaining p t (attempt_state (view (store w)) key) - 1"
proof -
  let ?st = "attempt_state (view (store w)) key"
  obtain r1 w1 where g: "LockoutService_Guard s key w = (r1, w1)" by fastforce
  note ge = guard_effect [OF assms(1-3) g]
  have locked: "locked_at ?st now \<longleftrightarrow> remaining p t ?st = 0" if "t \<le> now" "now < t + LockoutPolicy_window p" for now
    using that assms(4,6,10)
    by (auto simp: locked_at_def remaining_def settled_lock_def policy_ok_def)
  have in_span: "t \<le> now \<and> now < t + LockoutPolicy_window p" if "read_between w now v" for now and v :: "'a world"
    using read_between_from [OF that assms(8)] read_between_before [OF that assms(9)] by simp
  show ?thesis
  proof (cases r1)
    case (Inl e)
    with ge assms(7) obtain now where "read_between w now w1" and "locked_at ?st now" by auto
    with locked in_span have "remaining p t ?st = 0" by blast
    with Inl g ge assms(10,11) show ?thesis by (auto simp: wrong_guess_def)
  next
    case (Inr u)
    have "remaining p t ?st \<noteq> 0"
    proof (cases "LoginAttemptSnapshot_LockedUntil ?st = 0")
      case True
      then show ?thesis by (simp add: remaining_def)
    next
      case False
      with ge Inr obtain now where "read_between w now w1" and "\<not> locked_at ?st now" by auto
      with locked in_span show ?thesis by blast
    qed
    then obtain k where k: "remaining p t ?st = Suc k" by (cases "remaining p t ?st") auto
    from ge Inr have l1: "legal (store w1)" and v1: "view (store w1) = view (store w)"
      and le: "env_le w w1" by (auto simp: settled_def)
    obtain r2 w2 where rf: "LockoutService_RecordFailure s key w1 = (r2, w2)" by fastforce
    with g Inr assms(11) have p: "passed" and w': "w' = w2" by (auto simp: wrong_guess_def)
    note re = record_effect [OF l1 assms(2,3) rf, folded assms(5), unfolded v1]
    have "\<not> isl r2" using re quiet_mono [OF assms(7) le] by (cases r2) auto
    then obtain j where "r2 = Inr j" by (cases r2) auto
    with re obtain now where now: "read_between w1 now w2"
      and c: "if locked_at ?st now
          then LoginAttemptSnapshot_LockedUntil (attempt_state (view (store w2)) key)
               = LoginAttemptSnapshot_LockedUntil ?st
          else view (store w2) = (view (store w))(key \<mapsto> counted p ?st now)"
      and set2: "settled legal w1 w2" by auto
    have "read_between w now w2" by (rule read_between_mono [OF now le env_le_refl])
    with in_span have span: "t \<le> now" "now < t + LockoutPolicy_window p" by auto
    with locked k c have "attempt_state (view (store w2)) key = counted p ?st now"
      by (simp add: attempt_state_def)
    with remaining_counted [OF assms(4,6) span(1) assms(10) k] p w' k ge set2 show ?thesis
      by (auto intro: settled_trans)
  qed
qed

lemma guesses_bounded:
  assumes "legal (store w)" and "LockoutService_store s = P" and "normalizeLockoutKey key = Inr key"
    and "policy_ok p" and "p = LockoutService_policy s" and "0 \<le> t"
    and "quiet w" and "clock_from w t" and "clock_before w (t + LockoutPolicy_window p)"
    and "settled_lock p t (attempt_state (view (store w)) key)"
  shows "fst (run_guesses s key n w)
         = min n (remaining p t (attempt_state (view (store w)) key))"
  using assms(1,7-10)
proof (induction n arbitrary: w)
  case (Suc n)
  obtain b w1 where g: "wrong_guess s key w = (b, w1)" by fastforce
  note e = wrong_guess_effect [OF Suc.prems(1) assms(2-6) Suc.prems(2-5) g]
  then have "env_le w w1" and "legal (store w1)" by (auto simp: settled_def)
  with Suc.IH [of w1] Suc.prems e
  have "fst (run_guesses s key n w1) = min n (remaining p t (attempt_state (view (store w1)) key))"
    by (auto intro: quiet_mono clock_from_mono clock_before_mono)
  with g e show ?case by (auto split: prod.splits)
qed simp

text \<open>A success clears the counter: the next failure counts from one again.\<close>

lemma clear_effect:
  assumes "legal (store w)" and "LockoutService_store s = P" and "normalizeLockoutKey key = Inr key"
    and "LockoutService_Clear s key w = (Inr x, w')"
  shows "settled legal w w' \<and> view (store w') = (view (store w))(key := None)"
proof -
  from assms have "LoginAttemptStore_Delete P key w = (Inr x, w')"
    by (simp add: LockoutService_Clear_def)
  with delete [OF assms(1), of key] show ?thesis by (auto elim: writesE)
qed

end

end
