(* ===== verification/Memory.thy ===== *)
theory Memory
  imports User Session MagicLink Lockout
begin

text \<open>
  \<open>src/adapters/memory/memory.go\<close>: the in-memory adapters. Every method is \<open>checked\<close>: the
  context check, then a pure step on the Go map under the mutex, which makes it atomic. Each
  adapter is an interpretation of the contract of its port, so the properties of the services
  hold over it; the map stays well formed (no key twice, every entry under its own key).
\<close>

section \<open>Users\<close>

type_synonym user_map = "(string, UserSnapshot) gomap"

definition UserRepo_GetUser ::
  "TenantID \<Rightarrow> UserID \<Rightarrow> user_map world \<Rightarrow> User res \<times> user_map world" where
  "UserRepo_GetUser tenantID i =
     checked (\<lambda>m.
       (case gomap_get m (UserID_String i) of
          None \<Rightarrow> (Inl ErrNotFound, m)
        | Some snap \<Rightarrow>
            if UserSnapshot_TenantID snap \<noteq> TenantID_String tenantID then (Inl ErrNotFound, m)
            else (Inr (UserFromSnapshot snap), m)))"

definition UserRepo_UpsertUser :: "User \<Rightarrow> user_map world \<Rightarrow> unit res \<times> user_map world" where
  "UserRepo_UpsertUser u =
     checked (\<lambda>m. let snap = User_Snapshot u in (Inr (), gomap_set (UserSnapshot_ID snap) snap m))"

definition NewUserRepo :: user_map where "NewUserRepo = []"

definition UserRepo :: "(user_map world) UserRepository" where
  "UserRepo =
     \<lparr>UserRepository_GetUser = UserRepo_GetUser,
      UserRepository_UpsertUser = UserRepo_UpsertUser\<rparr>"

interpretation mu: user_store UserRepo gomap_get gomap_ok
proof
  fix w :: "user_map world" and tenant i
  assume ok: "gomap_ok (store w)"
  show "reads gomap_get gomap_ok w (tenant_lookup (gomap_get (store w)) tenant i)
      (UserRepository_GetUser UserRepo tenant i w)"
    unfolding UserRepo_def UserRepository.simps UserRepo_GetUser_def
    by (rule checked_reads) (use ok in \<open>auto simp: tenant_lookup_def split: option.splits\<close>)
next
  fix w :: "user_map world" and u
  assume ok: "gomap_ok (store w)"
  show "writes gomap_get gomap_ok w
      ((gomap_get (store w))(UserSnapshot_ID (User_Snapshot u) \<mapsto> User_Snapshot u)) ()
      (UserRepository_UpsertUser UserRepo u w)"
    unfolding UserRepo_def UserRepository.simps UserRepo_UpsertUser_def
    by (rule checked_writes) (use ok in \<open>auto simp: Let_def\<close>)
qed

section \<open>Sessions\<close>

type_synonym session_map = "(string, SessionSnapshot) gomap"

definition session_map_ok :: "session_map \<Rightarrow> bool" where
  "session_map_ok m \<longleftrightarrow>
     gomap_ok m \<and> (\<forall>k sn. gomap_get m k = Some sn \<longrightarrow> SessionSnapshot_Token sn = k)"

definition SessionRepo_Save :: "Session \<Rightarrow> session_map world \<Rightarrow> unit res \<times> session_map world" where
  "SessionRepo_Save s =
     checked (\<lambda>m. let snap = Session_Snapshot s
                  in (Inr (), gomap_set (SessionSnapshot_Token snap) snap m))"

definition SessionRepo_FindByToken ::
  "Token \<Rightarrow> session_map world \<Rightarrow> Session res \<times> session_map world" where
  "SessionRepo_FindByToken token =
     checked (\<lambda>m.
       (case gomap_get m (Token_String token) of
          None \<Rightarrow> (Inl ErrNotFound, m)
        | Some snap \<Rightarrow> (Inr (SessionFromSnapshot snap), m)))"

definition SessionRepo_Delete :: "Token \<Rightarrow> session_map world \<Rightarrow> unit res \<times> session_map world" where
  "SessionRepo_Delete token = checked (\<lambda>m. (Inr (), gomap_delete (Token_String token) m))"

definition SessionRepo_DeleteByUser ::
  "UserID \<Rightarrow> session_map world \<Rightarrow> unit res \<times> session_map world" where
  "SessionRepo_DeleteByUser userID =
     checked (\<lambda>m. (Inr (),
       gomap_keep (\<lambda>snap. SessionSnapshot_UserID snap \<noteq> UserID_String userID) m))"

definition SessionRepo_RotateAtomically ::
  "Token \<Rightarrow> Session \<Rightarrow> session_map world \<Rightarrow> unit res \<times> session_map world" where
  "SessionRepo_RotateAtomically oldKey newSess =
     checked (\<lambda>m.
       (case gomap_get m (Token_String oldKey) of
          None \<Rightarrow> (Inl ErrNotFound, m)
        | Some _ \<Rightarrow>
            let m = gomap_delete (Token_String oldKey) m;
                snap = Session_Snapshot newSess
            in (Inr (), gomap_set (SessionSnapshot_Token snap) snap m)))"

definition NewSessionRepo :: session_map where "NewSessionRepo = []"

definition SessionRepo :: "(session_map world) SessionRepository" where
  "SessionRepo =
     \<lparr>SessionRepository_Save = SessionRepo_Save,
      SessionRepository_FindByToken = SessionRepo_FindByToken,
      SessionRepository_Delete = SessionRepo_Delete,
      SessionRepository_DeleteByUser = SessionRepo_DeleteByUser,
      SessionRepository_RotateAtomically = Some SessionRepo_RotateAtomically\<rparr>"

text \<open>The same store behind a wrapper that hides the optional capability.\<close>

definition PlainSessionRepo :: "(session_map world) SessionRepository" where
  "PlainSessionRepo = SessionRepo\<lparr>SessionRepository_RotateAtomically := None\<rparr>"

lemma session_map_ok_empty [simp]: "session_map_ok []"
  by (simp add: session_map_ok_def)

lemma session_map_ok_set [simp]:
  "session_map_ok m \<Longrightarrow> session_map_ok (gomap_set (SessionSnapshot_Token sn) sn m)"
  by (simp add: session_map_ok_def)

lemma session_map_ok_delete [simp]: "session_map_ok m \<Longrightarrow> session_map_ok (gomap_delete k m)"
  by (simp add: session_map_ok_def)

lemma session_map_ok_keep [simp]: "session_map_ok m \<Longrightarrow> session_map_ok (gomap_keep p m)"
  by (auto simp: session_map_ok_def split: option.splits if_splits)

lemma session_map_ok_gomap: "session_map_ok m \<Longrightarrow> gomap_ok m"
  by (simp add: session_map_ok_def)

lemma memory_sessions:
  assumes "SessionRepository_Save P = SessionRepo_Save"
    and "SessionRepository_FindByToken P = SessionRepo_FindByToken"
    and "SessionRepository_Delete P = SessionRepo_Delete"
    and "SessionRepository_DeleteByUser P = SessionRepo_DeleteByUser"
  shows "session_store P gomap_get session_map_ok"
proof
  fix w :: "session_map world"
  assume ok: "session_map_ok (store w)"
  show "writes gomap_get session_map_ok w
      ((gomap_get (store w))(SessionSnapshot_Token (Session_Snapshot s) \<mapsto> Session_Snapshot s)) ()
      (SessionRepository_Save P s w)" for s
    unfolding assms SessionRepo_Save_def
    by (rule checked_writes) (use ok in \<open>auto simp: Let_def\<close>)
  show "reads gomap_get session_map_ok w (session_at (gomap_get (store w)) (Token_String tok))
      (SessionRepository_FindByToken P tok w)" for tok
    unfolding assms SessionRepo_FindByToken_def
    by (rule checked_reads) (use ok in \<open>auto simp: session_at_def split: option.splits\<close>)
  show "writes gomap_get session_map_ok w ((gomap_get (store w))(Token_String tok := None)) ()
      (SessionRepository_Delete P tok w)" for tok
    unfolding assms SessionRepo_Delete_def
    by (rule checked_writes) (use ok in auto)
  show "writes gomap_get session_map_ok w (without_user (UserID_String u) (gomap_get (store w))) ()
      (SessionRepository_DeleteByUser P u w)" for u
    unfolding assms SessionRepo_DeleteByUser_def
    by (rule checked_writes)
       (use ok session_map_ok_gomap [OF ok] in
         \<open>auto simp: without_user_def fun_eq_iff split: option.splits\<close>)
next
  fix m :: session_map and k sn
  assume "session_map_ok m" and "gomap_get m k = Some sn"
  then show "SessionSnapshot_Token sn = k" by (simp add: session_map_ok_def)
qed

interpretation ms: atomic_session_store SessionRepo gomap_get session_map_ok SessionRepo_RotateAtomically
proof (intro atomic_session_store.intro atomic_session_store_axioms.intro)
  show "session_store SessionRepo gomap_get session_map_ok"
    by (rule memory_sessions) (simp_all add: SessionRepo_def)
  show "SessionRepository_RotateAtomically SessionRepo = Some SessionRepo_RotateAtomically"
    by (simp add: SessionRepo_def)
next
  fix w :: "session_map world" and tok sess
  assume ok: "session_map_ok (store w)"
  let ?old = "Token_String tok" and ?sn = "Session_Snapshot sess"
  show "attempts gomap_get session_map_ok w
      ((gomap_get (store w))(?old := None, SessionSnapshot_Token ?sn \<mapsto> ?sn))
      (\<lambda>e. e = ErrNotFound \<and> gomap_get (store w) ?old = None \<or>
           gomap_get (store w) (SessionSnapshot_Token ?sn) \<noteq> None \<and>
           SessionSnapshot_Token ?sn \<noteq> ?old)
      (SessionRepo_RotateAtomically tok sess w)"
    unfolding SessionRepo_RotateAtomically_def
    by (rule checked_attempts) (use ok in \<open>auto simp: Let_def split: option.splits\<close>)
qed

interpretation mps: plain_session_store PlainSessionRepo gomap_get session_map_ok
proof (intro plain_session_store.intro plain_session_store_axioms.intro)
  show "session_store PlainSessionRepo gomap_get session_map_ok"
    by (rule memory_sessions) (simp_all add: PlainSessionRepo_def SessionRepo_def)
  show "SessionRepository_RotateAtomically PlainSessionRepo = None"
    by (simp add: PlainSessionRepo_def)
qed

section \<open>Magic links\<close>

type_synonym link_map = "(string, MagicLinkSnapshot) gomap"

definition link_map_ok :: "link_map \<Rightarrow> bool" where
  "link_map_ok m \<longleftrightarrow>
     gomap_ok m \<and> (\<forall>h sn. gomap_get m h = Some sn \<longrightarrow> MagicLinkSnapshot_Hash sn = h)"

definition MagicLinkRepo_Save :: "MagicLink \<Rightarrow> link_map world \<Rightarrow> unit res \<times> link_map world" where
  "MagicLinkRepo_Save l =
     checked (\<lambda>m. let snap = MagicLink_Snapshot l
                  in (Inr (), gomap_set (MagicLinkSnapshot_Hash snap) snap m))"

definition MagicLinkRepo_FindByHash ::
  "string \<Rightarrow> link_map world \<Rightarrow> MagicLink res \<times> link_map world" where
  "MagicLinkRepo_FindByHash hash =
     checked (\<lambda>m.
       (case gomap_get m hash of
          None \<Rightarrow> (Inl ErrNotFound, m)
        | Some snap \<Rightarrow> (Inr (MagicLinkFromSnapshot snap), m)))"

definition MagicLinkRepo_MarkConsumed ::
  "string \<Rightarrow> link_map world \<Rightarrow> bool res \<times> link_map world" where
  "MagicLinkRepo_MarkConsumed hash =
     checked (\<lambda>m.
       (case gomap_get m hash of
          None \<Rightarrow> (Inr False, m)
        | Some snap \<Rightarrow>
            if MagicLinkSnapshot_Consumed snap then (Inr False, m)
            else (Inr True, gomap_set hash (snap\<lparr>MagicLinkSnapshot_Consumed := True\<rparr>) m)))"

definition invalidateLocked :: "Email \<Rightarrow> TenantID \<Rightarrow> link_map \<Rightarrow> link_map" where
  "invalidateLocked email tenantID =
     gomap_rewrite (\<lambda>snap.
       if \<not> MagicLinkSnapshot_Consumed snap \<and>
          MagicLinkSnapshot_Email snap = Email_String email \<and>
          MagicLinkSnapshot_TenantID snap = TenantID_String tenantID
       then snap\<lparr>MagicLinkSnapshot_Consumed := True\<rparr> else snap)"

definition MagicLinkRepo_InvalidateOutstanding ::
  "Email \<Rightarrow> TenantID \<Rightarrow> link_map world \<Rightarrow> unit res \<times> link_map world" where
  "MagicLinkRepo_InvalidateOutstanding email tenantID =
     checked (\<lambda>m. (Inr (), invalidateLocked email tenantID m))"

definition MagicLinkRepo_IssueAtomically ::
  "MagicLink \<Rightarrow> link_map world \<Rightarrow> unit res \<times> link_map world" where
  "MagicLinkRepo_IssueAtomically link =
     checked (\<lambda>m.
       let m = invalidateLocked (MagicLink_email link) (MagicLink_tenantID link) m;
           snap = MagicLink_Snapshot link
       in (Inr (), gomap_set (MagicLinkSnapshot_Hash snap) snap m))"

definition NewMagicLinkRepo :: link_map where "NewMagicLinkRepo = []"

definition MagicLinkRepo :: "(link_map world) MagicLinkRepository" where
  "MagicLinkRepo =
     \<lparr>MagicLinkRepository_Save = MagicLinkRepo_Save,
      MagicLinkRepository_FindByHash = MagicLinkRepo_FindByHash,
      MagicLinkRepository_MarkConsumed = MagicLinkRepo_MarkConsumed,
      MagicLinkRepository_InvalidateOutstanding = MagicLinkRepo_InvalidateOutstanding,
      MagicLinkRepository_IssueAtomically = Some MagicLinkRepo_IssueAtomically\<rparr>"

lemma link_map_ok_empty [simp]: "link_map_ok []"
  by (simp add: link_map_ok_def)

lemma link_map_ok_set [simp]:
  "link_map_ok m \<Longrightarrow> MagicLinkSnapshot_Hash sn = h \<Longrightarrow> link_map_ok (gomap_set h sn m)"
  by (simp add: link_map_ok_def)

lemma invalidateLocked_get [simp]:
  "gomap_get (invalidateLocked e t m) = invalidated (Email_String e) (TenantID_String t) (gomap_get m)"
  by (auto simp: invalidateLocked_def invalidated_def outstanding_def spend_def fun_eq_iff
      intro!: option.map_cong)

lemma link_map_ok_invalidate [simp]:
  assumes "link_map_ok m"
  shows "link_map_ok (invalidateLocked e t m)"
proof -
  have "MagicLinkSnapshot_Hash sn = h"
    if i: "invalidated (Email_String e) (TenantID_String t) (gomap_get m) h = Some sn" for h sn
  proof -
    from i obtain x where x: "gomap_get m h = Some x" and
      "sn = (if outstanding (Email_String e) (TenantID_String t) x then spend x else x)"
      by (auto simp: invalidated_def simp del: if_split)
    then have "MagicLinkSnapshot_Hash sn = MagicLinkSnapshot_Hash x" by simp
    with assms x show ?thesis by (auto simp: link_map_ok_def)
  qed
  moreover have "gomap_ok (invalidateLocked e t m)"
    using assms by (simp add: link_map_ok_def invalidateLocked_def)
  ultimately show ?thesis by (auto simp: link_map_ok_def)
qed

interpretation mm: magic_store MagicLinkRepo gomap_get link_map_ok
proof
  fix w :: "link_map world"
  assume ok: "link_map_ok (store w)"
  show "attempts gomap_get link_map_ok w
      ((gomap_get (store w))(MagicLink_hash l \<mapsto> MagicLink_Snapshot l))
      (\<lambda>e. gomap_get (store w) (MagicLink_hash l) \<noteq> None) (MagicLinkRepository_Save MagicLinkRepo l w)"
    for l
    unfolding MagicLinkRepo_def MagicLinkRepository.simps MagicLinkRepo_Save_def
    by (rule checked_attempts) (use ok in \<open>auto simp: Let_def\<close>)
  show "reads gomap_get link_map_ok w (link_at (gomap_get (store w)) h)
      (MagicLinkRepository_FindByHash MagicLinkRepo h w)" for h
    unfolding MagicLinkRepo_def MagicLinkRepository.simps MagicLinkRepo_FindByHash_def
    by (rule checked_reads) (use ok in \<open>auto simp: link_at_def split: option.splits\<close>)
  show "(if redeemable (gomap_get (store w)) h
       then writes gomap_get link_map_ok w
              ((gomap_get (store w))(h \<mapsto> spend (the (gomap_get (store w) h)))) True
       else reads gomap_get link_map_ok w (Inr False))
      (MagicLinkRepository_MarkConsumed MagicLinkRepo h w)" for h
  proof (cases "redeemable (gomap_get (store w)) h")
    case True
    then show ?thesis
      unfolding MagicLinkRepo_def MagicLinkRepository.simps MagicLinkRepo_MarkConsumed_def
      by (simp, intro checked_writes)
         (use ok in \<open>auto simp: redeemable_def spend_def link_map_ok_def split: option.splits\<close>)
  next
    case False
    then show ?thesis
      unfolding MagicLinkRepo_def MagicLinkRepository.simps MagicLinkRepo_MarkConsumed_def
      by (simp, intro checked_reads) (use ok in \<open>auto simp: redeemable_def split: option.splits\<close>)
  qed
  show "writes gomap_get link_map_ok w
      (invalidated (Email_String email) (TenantID_String tenant) (gomap_get (store w))) ()
      (MagicLinkRepository_InvalidateOutstanding MagicLinkRepo email tenant w)" for email tenant
    unfolding MagicLinkRepo_def MagicLinkRepository.simps MagicLinkRepo_InvalidateOutstanding_def
    by (rule checked_writes) (use ok in auto)
  show "attempts gomap_get link_map_ok w
      ((invalidated (Email_String (MagicLink_email l)) (TenantID_String (MagicLink_tenantID l))
          (gomap_get (store w)))(MagicLink_hash l \<mapsto> MagicLink_Snapshot l))
      (\<lambda>e. gomap_get (store w) (MagicLink_hash l) \<noteq> None) (issuer l w)"
    if "MagicLinkRepository_IssueAtomically MagicLinkRepo = Some issuer" for issuer l
  proof -
    from that have "issuer = MagicLinkRepo_IssueAtomically" by (simp add: MagicLinkRepo_def)
    then show ?thesis
      unfolding MagicLinkRepo_IssueAtomically_def
      by (simp only:, intro checked_attempts) (use ok in \<open>auto simp: Let_def\<close>)
  qed
next
  fix m :: link_map and h sn
  assume "link_map_ok m" and "gomap_get m h = Some sn"
  then show "MagicLinkSnapshot_Hash sn = h" by (simp add: link_map_ok_def)
qed

section \<open>Login attempts\<close>

type_synonym attempt_map = "(string, LoginAttemptSnapshot) gomap"

definition attempt_map_ok :: "attempt_map \<Rightarrow> bool" where
  "attempt_map_ok m \<longleftrightarrow>
     gomap_ok m \<and> (\<forall>k s. gomap_get m k = Some s \<longrightarrow> LoginAttemptSnapshot_Key s = k)"

definition LoginAttemptRepo_Get ::
  "string \<Rightarrow> attempt_map world \<Rightarrow> LoginAttemptSnapshot res \<times> attempt_map world" where
  "LoginAttemptRepo_Get key =
     checked (\<lambda>m. (case gomap_get m key of
        None \<Rightarrow> (Inl ErrNotFound, m) | Some snap \<Rightarrow> (Inr snap, m)))"

definition LoginAttemptRepo_Save ::
  "LoginAttemptSnapshot \<Rightarrow> attempt_map world \<Rightarrow> unit res \<times> attempt_map world" where
  "LoginAttemptRepo_Save s =
     checked (\<lambda>m. (Inr (), gomap_set (LoginAttemptSnapshot_Key s) s m))"

definition LoginAttemptRepo_Delete ::
  "string \<Rightarrow> attempt_map world \<Rightarrow> unit res \<times> attempt_map world" where
  "LoginAttemptRepo_Delete key = checked (\<lambda>m. (Inr (), gomap_delete key m))"

text \<open>The transition of \<open>RecordFailureAtomically\<close>: reset an expired lock, count, lock.\<close>

definition record_body :: "int \<Rightarrow> duration \<Rightarrow> time \<Rightarrow> LoginAttemptSnapshot \<Rightarrow> LoginAttemptSnapshot" where
  "record_body maxFailures window now snap =
     (let snap = (if \<not> time_is_zero (LoginAttemptSnapshot_LockedUntil snap) \<and>
                     \<not> before now (LoginAttemptSnapshot_LockedUntil snap)
                  then snap\<lparr>LoginAttemptSnapshot_FailureCount := 0,
                            LoginAttemptSnapshot_LockedUntil := 0\<rparr>
                  else snap);
          snap = snap\<lparr>LoginAttemptSnapshot_FailureCount :=
                        LoginAttemptSnapshot_FailureCount snap + 1\<rparr>
      in if maxFailures \<le> LoginAttemptSnapshot_FailureCount snap \<and>
            time_is_zero (LoginAttemptSnapshot_LockedUntil snap)
         then snap\<lparr>LoginAttemptSnapshot_LockedUntil := now + window\<rparr>
         else snap)"

text \<open>A missing entry of a Go map reads as the zero snapshot.\<close>

definition LoginAttemptRepo_RecordFailureAtomically ::
  "string \<Rightarrow> time \<Rightarrow> int \<Rightarrow> duration \<Rightarrow> attempt_map world \<Rightarrow>
   (LoginAttemptSnapshot \<times> bool) res \<times> attempt_map world" where
  "LoginAttemptRepo_RecordFailureAtomically key now maxFailures window =
     checked (\<lambda>m.
       let snap = (case gomap_get m key of Some snap \<Rightarrow> snap
                   | None \<Rightarrow> \<lparr>LoginAttemptSnapshot_Key = [],
                             LoginAttemptSnapshot_FailureCount = 0,
                             LoginAttemptSnapshot_LockedUntil = 0\<rparr>);
           snap = snap\<lparr>LoginAttemptSnapshot_Key := key\<rparr>;
           snap = record_body maxFailures window now snap;
           justLocked = \<not> time_is_zero (LoginAttemptSnapshot_LockedUntil snap) \<and>
                        LoginAttemptSnapshot_FailureCount snap = maxFailures
       in (Inr (snap, justLocked), gomap_set key snap m))"

definition NewLoginAttemptRepo :: attempt_map where "NewLoginAttemptRepo = []"

definition LoginAttemptRepo :: "(attempt_map world) LoginAttemptStore" where
  "LoginAttemptRepo =
     \<lparr>LoginAttemptStore_Get = LoginAttemptRepo_Get,
      LoginAttemptStore_Save = LoginAttemptRepo_Save,
      LoginAttemptStore_Delete = LoginAttemptRepo_Delete,
      LoginAttemptStore_RecordFailureAtomically = Some LoginAttemptRepo_RecordFailureAtomically\<rparr>"

lemma attempt_map_ok_empty [simp]: "attempt_map_ok []"
  by (simp add: attempt_map_ok_def)

lemma attempt_map_ok_set [simp]:
  "attempt_map_ok m \<Longrightarrow> LoginAttemptSnapshot_Key s = k \<Longrightarrow> attempt_map_ok (gomap_set k s m)"
  by (simp add: attempt_map_ok_def)

lemma attempt_map_ok_delete [simp]: "attempt_map_ok m \<Longrightarrow> attempt_map_ok (gomap_delete k m)"
  by (simp add: attempt_map_ok_def)

lemma recorded_key: "LoginAttemptSnapshot_Key (recorded p s now) = LoginAttemptSnapshot_Key s"
  by (simp add: recorded_def counted_def Let_def)

lemma record_body_eq:
  "record_body (LockoutPolicy_maxFailures p) (LockoutPolicy_window p) now s = recorded p s now"
  by (cases s) (auto simp: record_body_def recorded_def counted_def locked_at_def time_is_zero_def
      before_def LockoutPolicy_LockedUntil_def Let_def)

interpretation ma: attempt_store LoginAttemptRepo gomap_get attempt_map_ok
proof
  fix w :: "attempt_map world"
  assume ok: "attempt_map_ok (store w)"
  show "reads gomap_get attempt_map_ok w (attempt_at (gomap_get (store w)) key)
      (LoginAttemptStore_Get LoginAttemptRepo key w)" for key
    unfolding LoginAttemptRepo_def LoginAttemptStore.simps LoginAttemptRepo_Get_def
    by (rule checked_reads) (use ok in \<open>auto simp: attempt_at_def split: option.splits\<close>)
  show "writes gomap_get attempt_map_ok w
      ((gomap_get (store w))(LoginAttemptSnapshot_Key s \<mapsto> s)) ()
      (LoginAttemptStore_Save LoginAttemptRepo s w)" for s
    unfolding LoginAttemptRepo_def LoginAttemptStore.simps LoginAttemptRepo_Save_def
    by (rule checked_writes) (use ok in auto)
  show "writes gomap_get attempt_map_ok w ((gomap_get (store w))(key := None)) ()
      (LoginAttemptStore_Delete LoginAttemptRepo key w)" for key
    unfolding LoginAttemptRepo_def LoginAttemptStore.simps LoginAttemptRepo_Delete_def
    by (rule checked_writes) (use ok in auto)
  fix rec key p now
  assume "LoginAttemptStore_RecordFailureAtomically LoginAttemptRepo = Some rec"
  then have rec: "rec = LoginAttemptRepo_RecordFailureAtomically" by (simp add: LoginAttemptRepo_def)
  let ?st = "attempt_state (gomap_get (store w)) key"
  have key: "LoginAttemptSnapshot_Key ?st = key"
    using ok by (auto simp: attempt_state_def attempt_map_ok_def split: option.splits)
  have st: "(case gomap_get (store w) key of Some snap \<Rightarrow> snap
       | None \<Rightarrow> \<lparr>LoginAttemptSnapshot_Key = [], LoginAttemptSnapshot_FailureCount = 0,
                 LoginAttemptSnapshot_LockedUntil = 0\<rparr>)\<lparr>LoginAttemptSnapshot_Key := key\<rparr> = ?st"
    using key by (cases ?st) (auto simp: attempt_state_def split: option.splits)
  show "writes gomap_get attempt_map_ok w
      ((gomap_get (store w))(key \<mapsto> recorded p ?st now))
      (recorded p ?st now, engaged p (recorded p ?st now))
      (rec key now (LockoutPolicy_maxFailures p) (LockoutPolicy_window p) w)"
    unfolding rec LoginAttemptRepo_RecordFailureAtomically_def
    by (rule checked_writes)
       (use ok key in \<open>simp_all add: Let_def st record_body_eq time_is_zero_def engaged_def
          recorded_key\<close>)
next
  fix m :: attempt_map and k s
  assume "attempt_map_ok m" and "gomap_get m k = Some s"
  then show "LoginAttemptSnapshot_Key s = k" by (simp add: attempt_map_ok_def)
qed

end
