(* ===== verification/Middleware.thy ===== *)
theory Middleware
  imports Memory
begin

text \<open>
  \<open>src/middleware/basicauth.go\<close>: the basic-auth handshake over the session service. A request
  carries its parsed cookies and its Authorization header, which \<open>BasicAuth\<close> decodes here; the
  response is the writer's headers, cookies, status and body. Calling \<open>next\<close> is the last thing a
  handler does, so the model returns the session it is called with. The product's verifier is a
  function over the world, with the contract in the locale \<open>guarded_store\<close>.
\<close>

section \<open>Requests and responses\<close>

record Request =
  Request_cookies :: "(string \<times> string) list"
  Request_authorization :: "string option"

record Cookie =
  Cookie_Name :: string
  Cookie_Value :: string
  Cookie_Path :: string
  Cookie_Domain :: string
  Cookie_Expires :: time
  Cookie_MaxAge :: int
  Cookie_Secure :: bool
  Cookie_HttpOnly :: bool
  Cookie_SameSite :: int

record Response =
  Response_headers :: "(string \<times> string) list"
  Response_cookies :: "Cookie list"
  Response_status :: "int option"
  Response_body :: string

definition empty_response :: Response where
  "empty_response = \<lparr>Response_headers = [], Response_cookies = [], Response_status = None,
                     Response_body = []\<rparr>"

definition http_error :: "string \<Rightarrow> int \<Rightarrow> Response \<Rightarrow> Response" where
  "http_error msg code r =
     r\<lparr>Response_status := Some code, Response_body := msg @ [chr 10]\<rparr>"

text \<open>\<open>r.Cookie(name)\<close>: the first cookie of that name.\<close>

definition request_cookie :: "Request \<Rightarrow> string \<Rightarrow> string option" where
  "request_cookie r name = map_of (Request_cookies r) name"

text \<open>\<open>r.BasicAuth()\<close>: the scheme in any case, then base64, then a cut at the first colon.\<close>

definition parse_basic :: "string \<Rightarrow> (string \<times> string) option" where
  "parse_basic auth =
     (if length auth < 6 \<or> map lower_byte (take 6 auth) \<noteq> ''basic '' then None
      else case base64_std_decode (drop 6 auth) of
             None \<Rightarrow> None
           | Some cs \<Rightarrow> cut (CHR '':'') cs)"

definition request_basic_auth :: "Request \<Rightarrow> (string \<times> string) option" where
  "request_basic_auth r =
     (case Request_authorization r of None \<Rightarrow> None | Some a \<Rightarrow> parse_basic a)"

section \<open>The middleware\<close>

record CookieOptions =
  CookieOptions_Path :: string
  CookieOptions_Domain :: string
  CookieOptions_Insecure :: bool
  CookieOptions_SameSite :: int

type_synonym 'w Authenticator = "string \<Rightarrow> string \<Rightarrow> 'w \<Rightarrow> (UserID \<times> TenantID) res \<times> 'w"

record 'w BasicAuthConfig =
  BasicAuthConfig_Verifier :: "'w Authenticator option"
  BasicAuthConfig_Sessions :: "'w SessionService option"
  BasicAuthConfig_Realm :: string
  BasicAuthConfig_CookieName :: string
  BasicAuthConfig_Cookie :: CookieOptions

record 'w BasicAuthMiddleware =
  BasicAuthMiddleware_verifier :: "'w Authenticator"
  BasicAuthMiddleware_sessions :: "'w SessionService"
  BasicAuthMiddleware_realm :: string
  BasicAuthMiddleware_cookieName :: string
  BasicAuthMiddleware_cookie :: CookieOptions

text \<open>\<open>unicode.IsControl\<close> holds for the C0 and C1 ranges only.\<close>

definition is_control :: "nat \<Rightarrow> bool" where
  "is_control r \<longleftrightarrow> r \<le> 31 \<or> (127 \<le> r \<and> r \<le> 159)"

definition double_quote :: char where "double_quote = chr 34"
definition back_slash :: char where "back_slash = chr 92"

definition ErrInvalidRealm :: error where
  "ErrInvalidRealm = ErrExternal ''middleware: invalid realm''"

definition validateRealm :: "string \<Rightarrow> unit res" where
  "validateRealm realm =
     (if double_quote \<in> set realm \<or> back_slash \<in> set realm then Inl ErrInvalidRealm
      else if list_ex is_control (runes realm) then Inl ErrInvalidRealm
      else Inr ())"

definition SameSiteLaxMode :: int where "SameSiteLaxMode = 2"

definition NewBasicAuthMiddleware :: "'w BasicAuthConfig \<Rightarrow> 'w BasicAuthMiddleware res" where
  "NewBasicAuthMiddleware cfg =
     (case BasicAuthConfig_Verifier cfg of
        None \<Rightarrow> Inl (ErrExternal ''middleware: Verifier is required'')
      | Some verifier \<Rightarrow>
          (case BasicAuthConfig_Sessions cfg of
             None \<Rightarrow> Inl (ErrExternal ''middleware: Sessions is required'')
           | Some sessions \<Rightarrow>
               if BasicAuthConfig_CookieName cfg = []
               then Inl (ErrExternal ''middleware: CookieName is required'')
               else
                 let c = BasicAuthConfig_Cookie cfg;
                     c = (if CookieOptions_Path c = [] then c\<lparr>CookieOptions_Path := ''/''\<rparr> else c);
                     c = (if CookieOptions_SameSite c = 0
                          then c\<lparr>CookieOptions_SameSite := SameSiteLaxMode\<rparr> else c);
                     realm = (if BasicAuthConfig_Realm cfg = [] then ''Restricted''
                              else BasicAuthConfig_Realm cfg)
                 in case validateRealm realm of
                      Inl e \<Rightarrow> Inl e
                    | Inr _ \<Rightarrow>
                        Inr \<lparr>BasicAuthMiddleware_verifier = verifier,
                             BasicAuthMiddleware_sessions = sessions,
                             BasicAuthMiddleware_realm = realm,
                             BasicAuthMiddleware_cookieName = BasicAuthConfig_CookieName cfg,
                             BasicAuthMiddleware_cookie = c\<rparr>))"

definition sessionFromCookie ::
  "('s world) BasicAuthMiddleware \<Rightarrow> Request \<Rightarrow> 's world \<Rightarrow> Session option \<times> 's world" where
  "sessionFromCookie m r w =
     (case request_cookie r (BasicAuthMiddleware_cookieName m) of
        None \<Rightarrow> (None, w)
      | Some v \<Rightarrow>
          (case TokenFromString v of
             Inl _ \<Rightarrow> (None, w)
           | Inr tok \<Rightarrow>
               (case SessionService_Validate (BasicAuthMiddleware_sessions m) tok w of
                  (Inl _, w) \<Rightarrow> (None, w)
                | (Inr sess, w) \<Rightarrow> (Some sess, w))))"

definition challenge :: "'w BasicAuthMiddleware \<Rightarrow> Response \<Rightarrow> Response" where
  "challenge m r =
     http_error ''unauthorized'' 401
       (r\<lparr>Response_headers := Response_headers r @
            [(''WWW-Authenticate'',
              ''Basic realm='' @ [double_quote] @ BasicAuthMiddleware_realm m @ [double_quote] @
              '', charset='' @ [double_quote] @ ''UTF-8'' @ [double_quote])]\<rparr>)"

text \<open>
  \<open>t.Sub(u)\<close> saturates at the range of a duration; \<open>int(d.Seconds())\<close> truncates. (The code goes
  through a float64, which may round the last of the nanoseconds of a lifetime of many years.)
\<close>

definition time_sub :: "time \<Rightarrow> time \<Rightarrow> duration" where
  "time_sub t u = max (- (2 ^ 63)) (min (2 ^ 63 - 1) (t - u))"

definition whole_seconds :: "duration \<Rightarrow> int" where
  "whole_seconds d = (if 0 \<le> d then d div second else - ((- d) div second))"

definition setCookie ::
  "('s world) BasicAuthMiddleware \<Rightarrow> Session \<Rightarrow> Response \<Rightarrow> 's world \<Rightarrow> Response \<times> 's world" where
  "setCookie m sess r w =
     (let (now, w) = read_clock w;
          maxAge = max (whole_seconds (time_sub (Session_expiresAt sess) now)) 1;
          c = \<lparr>Cookie_Name = BasicAuthMiddleware_cookieName m,
               Cookie_Value = Token_String (Session_token sess),
               Cookie_Path = CookieOptions_Path (BasicAuthMiddleware_cookie m),
               Cookie_Domain = CookieOptions_Domain (BasicAuthMiddleware_cookie m),
               Cookie_Expires = Session_expiresAt sess,
               Cookie_MaxAge = maxAge, Cookie_Secure = True, Cookie_HttpOnly = True,
               Cookie_SameSite = CookieOptions_SameSite (BasicAuthMiddleware_cookie m)\<rparr>;
          c = (if CookieOptions_Insecure (BasicAuthMiddleware_cookie m)
               then c\<lparr>Cookie_Secure := False\<rparr> else c)
      in (r\<lparr>Response_cookies := Response_cookies r @ [c]\<rparr>, w))"

definition unix_epoch :: time where "unix_epoch = 62135596800 * second"

definition ClearCookie :: "'w BasicAuthMiddleware \<Rightarrow> Response \<Rightarrow> Response" where
  "ClearCookie m r =
     (let c = \<lparr>Cookie_Name = BasicAuthMiddleware_cookieName m, Cookie_Value = [],
               Cookie_Path = CookieOptions_Path (BasicAuthMiddleware_cookie m),
               Cookie_Domain = CookieOptions_Domain (BasicAuthMiddleware_cookie m),
               Cookie_Expires = unix_epoch, Cookie_MaxAge = -1,
               Cookie_Secure = True, Cookie_HttpOnly = True,
               Cookie_SameSite = CookieOptions_SameSite (BasicAuthMiddleware_cookie m)\<rparr>;
          c = (if CookieOptions_Insecure (BasicAuthMiddleware_cookie m)
               then c\<lparr>Cookie_Secure := False\<rparr> else c)
      in r\<lparr>Response_cookies := Response_cookies r @ [c]\<rparr>)"

text \<open>The handler: the response so far, and the session \<open>next\<close> is called with, if it is.\<close>

definition Middleware ::
  "('s world) BasicAuthMiddleware \<Rightarrow> Request \<Rightarrow> 's world \<Rightarrow> (Response \<times> Session option) \<times> 's world"
where
  "Middleware m r w =
     (case sessionFromCookie m r w of
        (Some sess, w) \<Rightarrow> ((empty_response, Some sess), w)
      | (None, w) \<Rightarrow>
          (case request_basic_auth r of
             None \<Rightarrow> ((challenge m empty_response, None), w)
           | Some (user, pass) \<Rightarrow>
               (case BasicAuthMiddleware_verifier m user pass w of
                  (Inl _, w) \<Rightarrow> ((challenge m empty_response, None), w)
                | (Inr (uid, tid), w) \<Rightarrow>
                    (case SessionService_Issue (BasicAuthMiddleware_sessions m) uid tid w of
                       (Inl _, w) \<Rightarrow>
                         ((http_error ''could not establish session'' 500 empty_response, None), w)
                     | (Inr sess, w) \<Rightarrow>
                         let (resp, w) = setCookie m sess empty_response w
                         in ((resp, Some sess), w)))))"

definition Logout ::
  "('s world) BasicAuthMiddleware \<Rightarrow> Request \<Rightarrow> 's world \<Rightarrow> Response \<times> 's world" where
  "Logout m r w =
     (let w = (case request_cookie r (BasicAuthMiddleware_cookieName m) of
                 None \<Rightarrow> w
               | Some v \<Rightarrow>
                   (case TokenFromString v of
                      Inl _ \<Rightarrow> w
                    | Inr tok \<Rightarrow> snd (SessionService_Revoke (BasicAuthMiddleware_sessions m) tok w)))
      in (ClearCookie m empty_response, w))"

section \<open>Headers and cookies\<close>

lemma NewBasicAuthMiddleware_realm:
  assumes "NewBasicAuthMiddleware cfg = Inr m"
  shows "validateRealm (BasicAuthMiddleware_realm m) = Inr () \<and>
    BasicAuthMiddleware_cookieName m \<noteq> [] \<and>
    CookieOptions_Path (BasicAuthMiddleware_cookie m) \<noteq> [] \<and>
    CookieOptions_SameSite (BasicAuthMiddleware_cookie m) \<noteq> 0 \<and>
    CookieOptions_Insecure (BasicAuthMiddleware_cookie m)
      = CookieOptions_Insecure (BasicAuthConfig_Cookie cfg)"
  using assms
  by (auto simp: NewBasicAuthMiddleware_def Let_def SameSiteLaxMode_def
      split: option.splits sum.splits if_splits)

text \<open>An accepted realm cannot end the quoted string or the header line it is put into.\<close>

lemma validateRealm_safe:
  assumes "validateRealm realm = Inr x" and "c \<in> set realm"
  shows "c \<noteq> double_quote \<and> c \<noteq> back_slash \<and> byte c \<noteq> 10 \<and> byte c \<noteq> 13 \<and> byte c \<noteq> 0"
proof -
  have "\<not> is_control (byte c)" if "byte c < 128"
    using assms runes_ascii_mem [OF assms(2) that]
    by (auto simp: validateRealm_def list_ex_iff split: if_splits)
  moreover have "c \<noteq> double_quote \<and> c \<noteq> back_slash"
    using assms by (auto simp: validateRealm_def split: if_splits)
  ultimately show ?thesis by (cases "byte c < 128") (auto simp: is_control_def)
qed

definition session_cookie :: "('w, 'z) BasicAuthMiddleware_scheme \<Rightarrow> Session \<Rightarrow> Cookie \<Rightarrow> bool" where
  "session_cookie m sess c \<longleftrightarrow>
     Cookie_Name c = BasicAuthMiddleware_cookieName m \<and>
     Cookie_Value c = Token_String (Session_token sess) \<and>
     Cookie_Expires c = Session_expiresAt sess \<and> 1 \<le> Cookie_MaxAge c \<and> Cookie_HttpOnly c \<and>
     (Cookie_Secure c \<longleftrightarrow> \<not> CookieOptions_Insecure (BasicAuthMiddleware_cookie m))"

lemma setCookie_effect:
  assumes "setCookie m sess r w = (r', w')"
  shows "w' = tick w \<and> (\<exists>c. r' = r\<lparr>Response_cookies := Response_cookies r @ [c]\<rparr> \<and>
    session_cookie m sess c \<and>
    Cookie_MaxAge c = max (whole_seconds (time_sub (Session_expiresAt sess) (clk w (pos w)))) 1)"
  using assms
  by (auto simp: setCookie_def session_cookie_def read_clock_def Let_def)

section \<open>Who gets through\<close>

text \<open>\<open>guarded_store\<close>: a session store beside a verifier that leaves the sessions alone.\<close>

locale guarded_store = session_store P view legal
  for P :: "('s world) SessionRepository" and view and legal +
  fixes verifier :: "('s world) Authenticator"
  assumes verifier: "legal (store w) \<Longrightarrow> verifier user pass w = (r, w') \<Longrightarrow>
      settled legal w w' \<and> view (store w') = view (store w)"
begin

lemma session_from_cookie:
  assumes "legal (store w)" and "SessionService_repo (BasicAuthMiddleware_sessions m) = P"
    and "sessionFromCookie m r w = (x, w')"
  shows "settled legal w w' \<and>
    (case x of
       None \<Rightarrow> True
     | Some sess \<Rightarrow> \<exists>v sn now.
         request_cookie r (BasicAuthMiddleware_cookieName m) = Some v \<and>
         view (store w) (HashToken (Token v)) = Some sn \<and> sess = SessionFromSnapshot sn \<and>
         read_between w now w' \<and> now < SessionSnapshot_ExpiresAt sn)"
proof (cases "request_cookie r (BasicAuthMiddleware_cookieName m)")
  case None
  with assms show ?thesis by (auto simp: sessionFromCookie_def settled_def)
next
  case (Some v)
  show ?thesis
  proof (cases "TokenFromString v")
    case (Inl e)
    with Some assms show ?thesis by (auto simp: sessionFromCookie_def settled_def)
  next
    case (Inr tok)
    obtain r1 w1 where v: "SessionService_Validate (BasicAuthMiddleware_sessions m) tok w = (r1, w1)"
      by fastforce
    note ve = validate_effect [OF assms(1,2) v]
    have tok: "tok = Token v" using TokenFromString_Inr [OF Inr] by simp
    show ?thesis
    proof (cases r1)
      case (Inl e)
      with Some Inr v assms(3) ve show ?thesis by (auto simp: sessionFromCookie_def)
    next
      case (Inr sess)
      with Some \<open>TokenFromString v = Inr tok\<close> v assms(3) have "x = Some sess" and "w' = w1"
        by (auto simp: sessionFromCookie_def)
      with ve Inr Some tok show ?thesis by auto
    qed
  qed
qed

text \<open>
  The handler behind the middleware runs only with a session that the cookie names and that is
  stored and live, or with one just issued for the identity the verifier returned, whose cookie
  is set; in every other case the client gets a 401 challenge or a 500.
\<close>

lemma middleware_effect:
  assumes "legal (store w)" and "SessionService_repo (BasicAuthMiddleware_sessions m) = P"
    and "BasicAuthMiddleware_verifier m = verifier"
    and "Middleware m r w = ((resp, called), w')"
  shows "settled legal w w' \<and>
    (case called of
       Some sess \<Rightarrow>
         (resp = empty_response \<and> (\<exists>v sn now.
            request_cookie r (BasicAuthMiddleware_cookieName m) = Some v \<and>
            view (store w) (HashToken (Token v)) = Some sn \<and> sess = SessionFromSnapshot sn \<and>
            read_between w now w' \<and> now < SessionSnapshot_ExpiresAt sn)) \<or>
         (\<exists>user pass v v' uid tid c.
            request_basic_auth r = Some (user, pass) \<and> verifier user pass v = (Inr (uid, tid), v') \<and>
            env_le w v \<and>
            minted (BasicAuthMiddleware_sessions m) uid tid v' sess w' \<and>
            view (store w') (HashToken (Session_token sess)) = Some (Session_Snapshot sess) \<and>
            Response_cookies resp = [c] \<and> session_cookie m sess c)
     | None \<Rightarrow> Response_status resp = Some 401 \<or> Response_status resp = Some 500)"
proof -
  obtain x w1 where c: "sessionFromCookie m r w = (x, w1)" by fastforce
  note ce = session_from_cookie [OF assms(1,2) c]
  show ?thesis
  proof (cases x)
    case (Some sess)
    with assms(4) c have "resp = empty_response" "called = Some sess" "w' = w1"
      by (auto simp: Middleware_def)
    with ce Some show ?thesis by auto
  next
    case None
    show ?thesis
    proof (cases "request_basic_auth r")
      case no_auth: None
      with None assms(4) c ce show ?thesis
        by (auto simp: Middleware_def challenge_def http_error_def)
    next
      case (Some up)
      then obtain user pass where up: "request_basic_auth r = Some (user, pass)" by (cases up) auto
      obtain r2 w2 where a: "verifier user pass w1 = (r2, w2)" by fastforce
      have ve: "settled legal w1 w2" "settled legal w w2"
        using verifier [OF _ a] ce by (auto dest: settledD intro: settled_trans)
      show ?thesis
      proof (cases r2)
        case (Inl e)
        with None up a ve assms(3,4) c show ?thesis
          by (auto simp: Middleware_def challenge_def http_error_def)
      next
        case (Inr ids)
        obtain uid tid where ids: "ids = (uid, tid)" by fastforce
        obtain r3 w3 where i: "SessionService_Issue (BasicAuthMiddleware_sessions m) uid tid w2 = (r3, w3)"
          by fastforce
        note ie = issue_effect [OF settledD(2) [OF ve(1)] assms(2) i]
        show ?thesis
        proof (cases r3)
          case (Inl e)
          with None up a Inr ids i ve ie assms(3,4) c show ?thesis
            by (auto simp: Middleware_def http_error_def intro: settled_trans)
        next
          case sess: (Inr sess)
          obtain resp4 w4 where s: "setCookie m sess empty_response w3 = (resp4, w4)" by fastforce
          from setCookie_effect [OF s] obtain ck where w4: "w4 = tick w3" and
            ck: "session_cookie m sess ck" "Response_cookies resp4 = [ck]"
            by (auto simp: empty_response_def)
          have out: "resp = resp4" "called = Some sess" "w' = w4"
            using None up a Inr ids i sess s assms(3,4) c by (auto simp: Middleware_def)
          have "minted (BasicAuthMiddleware_sessions m) uid tid w2 sess w4"
            using ie sess w4 by (auto intro: minted_mono)
          moreover have "view (store w4) (HashToken (Session_token sess)) = Some (Session_Snapshot sess)"
            using ie sess w4 by simp
          moreover have "settled legal w w4"
            using ie sess w4 ve(2) by (auto intro: settled_trans settled_tick)
          moreover have "env_le w w1" using ce by (auto dest: settledD)
          ultimately show ?thesis
            using out ck up a Inr ids by auto
        qed
      qed
    qed
  qed
qed

text \<open>After a logout the cookie's token is not in the store, unless the store failed.\<close>

lemma logout_effect:
  assumes "legal (store w)" and "SessionService_repo (BasicAuthMiddleware_sessions m) = P"
    and "Logout m r w = (resp, w')"
  shows "settled legal w w' \<and>
    (\<exists>c. Response_cookies resp = [c] \<and> Cookie_MaxAge c = -1 \<and> Cookie_Value c = [] \<and>
       Cookie_Name c = BasicAuthMiddleware_cookieName m) \<and>
    (\<forall>v tok. request_cookie r (BasicAuthMiddleware_cookieName m) = Some v \<longrightarrow>
       TokenFromString v = Inr tok \<longrightarrow> quiet w \<longrightarrow> view (store w') (HashToken tok) = None)"
proof -
  have cookie: "\<exists>c. Response_cookies resp = [c] \<and> Cookie_MaxAge c = -1 \<and> Cookie_Value c = [] \<and>
       Cookie_Name c = BasicAuthMiddleware_cookieName m"
    using assms(3) by (auto simp: Logout_def ClearCookie_def empty_response_def Let_def)
  show ?thesis
  proof (cases "request_cookie r (BasicAuthMiddleware_cookieName m)")
    case None
    with assms cookie show ?thesis by (auto simp: Logout_def settled_def Let_def)
  next
    case v: (Some v)
    show ?thesis
    proof (cases "TokenFromString v")
      case (Inl e)
      with v assms cookie show ?thesis by (auto simp: Logout_def settled_def Let_def)
    next
      case (Inr tok)
      obtain r1 w1 where k: "SessionService_Revoke (BasicAuthMiddleware_sessions m) tok w = (r1, w1)"
        by fastforce
      from Inr have "Token_String tok \<noteq> []" using TokenFromString_Inr by fastforce
      with revoke_effect [OF assms(1,2) k] have "settled legal w w1"
        and "quiet w \<longrightarrow> view (store w1) (HashToken tok) = None"
        by (cases r1; auto)+
      moreover have "w' = w1" using assms(3) v Inr k by (simp add: Logout_def Let_def)
      ultimately show ?thesis using v Inr cookie by auto
    qed
  qed
qed

end

section \<open>The middleware over the in-memory sessions\<close>

text \<open>
  A verifier that checks credentials against something outside the session store: a driver call
  that may fail, then the answer \<open>f\<close> of whatever it asks.
\<close>

definition external_verifier ::
  "(string \<Rightarrow> string \<Rightarrow> (UserID \<times> TenantID) res) \<Rightarrow> ('s world) Authenticator" where
  "external_verifier f user pass w = and_then (external_check w) (\<lambda>_ w. (f user pass, w))"

interpretation mw: guarded_store SessionRepo gomap_get session_map_ok "external_verifier f"
  for f
proof (intro guarded_store.intro guarded_store_axioms.intro)
  show "session_store SessionRepo gomap_get session_map_ok" by (rule ms.session_store_axioms)
next
  fix w w' :: "session_map world" and user pass r
  assume ok: "session_map_ok (store w)" and run: "external_verifier f user pass w = (r, w')"
  obtain r1 w1 where e: "external_check w = (r1, w1)" by fastforce
  then have w1: "w1 = tick w" by (rule external_check_cases)
  moreover have "w' = w1" using run e by (cases r1) (auto simp: external_verifier_def)
  ultimately show "settled session_map_ok w w' \<and> gomap_get (store w') = gomap_get (store w)"
    using ok by (simp add: settled_def)
qed

end
