(* ===== verification/EdgeProps.thy ===== *)
theory EdgeProps
  imports Middleware MemoryFactors
begin

text \<open>
  The properties of what faces the outside: the basic-auth middleware, e-mail addresses, the
  separation of tenants, and passkey records.
\<close>

section \<open>The middleware\<close>

text \<open>C9: the handler behind the middleware runs only with a stored, unexpired session that the
  request's cookie names, or with one just issued for the identity the verifier returned for the
  request's credentials, whose cookie is then set; otherwise the client gets a 401 or a 500.\<close>

theorem middleware_guards:
  assumes "session_map_ok (store w)" and "SessionService_repo (BasicAuthMiddleware_sessions m) = SessionRepo"
    and "BasicAuthMiddleware_verifier m = external_verifier f"
    and "Middleware m r w = ((resp, called), w')"
  shows "case called of
      Some sess \<Rightarrow>
        (\<exists>v sn now. request_cookie r (BasicAuthMiddleware_cookieName m) = Some v \<and>
           gomap_get (store w) (HashToken (Token v)) = Some sn \<and> sess = SessionFromSnapshot sn \<and>
           read_between w now w' \<and> now < SessionSnapshot_ExpiresAt sn) \<or>
        (\<exists>user pass uid tid c. request_basic_auth r = Some (user, pass) \<and> f user pass = Inr (uid, tid) \<and>
           Session_userID sess = uid \<and> Session_tenantID sess = tid \<and>
           gomap_get (store w') (HashToken (Session_token sess)) = Some (Session_Snapshot sess) \<and>
           Response_cookies resp = [c] \<and> session_cookie m sess c)
    | None \<Rightarrow> Response_status resp = Some 401 \<or> Response_status resp = Some 500"
proof -
  note e = mw.middleware_effect [OF assms]
  have "f user pass = Inr (uid, tid)" if "external_verifier f user pass v = (Inr (uid, tid), v')"
    for user pass uid tid and v v' :: "session_map world"
    using that by (cases "fst (external_check v)"; cases "external_check v")
      (auto simp: external_verifier_def)
  with e show ?thesis by (cases called) (simp, simp add: minted_def, blast)
qed

definition demo_middleware :: "(session_map world) BasicAuthMiddleware" where
  "demo_middleware =
     \<lparr>BasicAuthMiddleware_verifier = external_verifier (\<lambda>user pass. Inl ErrPasswordMismatch),
      BasicAuthMiddleware_sessions = NewSessionService SessionRepo 60,
      BasicAuthMiddleware_realm = ''Restricted'', BasicAuthMiddleware_cookieName = ''sid'',
      BasicAuthMiddleware_cookie = \<lparr>CookieOptions_Path = ''/'', CookieOptions_Domain = [],
        CookieOptions_Insecure = False, CookieOptions_SameSite = 2\<rparr>\<rparr>"

definition cookie_request :: Request where
  "cookie_request = \<lparr>Request_cookies = [(''sid'', ''x'')], Request_authorization = None\<rparr>"

definition cookie_world :: "session_map world" where
  "cookie_world = calm 1000 0 [(HashToken (Token ''x''),
     \<lparr>SessionSnapshot_Token = HashToken (Token ''x''), SessionSnapshot_UserID = ''u'',
      SessionSnapshot_TenantID = ''t'', SessionSnapshot_CreatedAt = 1000,
      SessionSnapshot_ExpiresAt = 1060\<rparr>)]"

lemma demo_middleware_simps [simp]:
  "SessionService_repo (BasicAuthMiddleware_sessions demo_middleware) = SessionRepo"
  "BasicAuthMiddleware_verifier demo_middleware = external_verifier (\<lambda>user pass. Inl ErrPasswordMismatch)"
  "BasicAuthMiddleware_cookieName demo_middleware = ''sid''"
  "request_cookie cookie_request ''sid'' = Some ''x''" "request_basic_auth cookie_request = None"
  "TokenFromString ''x'' = Inr (Token ''x'')" "quiet cookie_world"
  by (simp_all add: demo_middleware_def NewSessionService_def request_cookie_def cookie_request_def
      request_basic_auth_def TokenFromString_def length_bounds cookie_world_def)

lemma cookie_world_ok [simp]: "session_map_ok (store cookie_world)"
  by (auto simp: cookie_world_def session_map_ok_def gomap_ok_def gomap_get_def split: if_splits)

theorem middleware_guards_witness:
  "\<exists>resp sess w'. Middleware demo_middleware cookie_request cookie_world = ((resp, Some sess), w') \<and>
     (\<exists>sn now. gomap_get (store cookie_world) (HashToken (Token ''x'')) = Some sn \<and>
        read_between cookie_world now w' \<and> now < SessionSnapshot_ExpiresAt sn)"
proof -
  obtain resp sess w' where m: "Middleware demo_middleware cookie_request cookie_world = ((resp, Some sess), w')"
    by (simp add: Middleware_def sessionFromCookie_def SessionService_Validate_def cookie_world_def
        SessionRepo_def SessionRepo_FindByToken_def sessionKey_def gomap_get_def Session_Expired_def Let_def)
  with middleware_guards [OF _ _ _ m] show ?thesis by fastforce
qed

text \<open>After a logout the session the cookie named is gone from the store, unless a storage
  call failed, and the browser is told to drop the cookie.\<close>

theorem middleware_logout_revokes:
  assumes "session_map_ok (store w)" and "SessionService_repo (BasicAuthMiddleware_sessions m) = SessionRepo"
    and "request_cookie r (BasicAuthMiddleware_cookieName m) = Some v"
    and "TokenFromString v = Inr tok" and "quiet w"
  shows "\<exists>resp w' c. Logout m r w = (resp, w') \<and> gomap_get (store w') (HashToken tok) = None \<and>
    Response_cookies resp = [c] \<and> Cookie_Name c = BasicAuthMiddleware_cookieName m \<and>
    Cookie_Value c = [] \<and> Cookie_MaxAge c = -1"
proof -
  obtain resp w' where "Logout m r w = (resp, w')" by fastforce
  with mw.logout_effect [OF assms(1,2) this] assms(3-5) show ?thesis by auto
qed

theorem middleware_logout_revokes_witness:
  "\<exists>resp w'. Logout demo_middleware cookie_request cookie_world = (resp, w') \<and>
     gomap_get (store w') (HashToken (Token ''x'')) = None"
  using middleware_logout_revokes [of cookie_world demo_middleware cookie_request "''x''" "Token ''x''"]
  by auto

text \<open>The realm of a middleware that was constructed cannot end the quoted string or the
  header line of the challenge it is put into.\<close>

theorem middleware_realm_safe:
  assumes "NewBasicAuthMiddleware cfg = Inr m" and "c \<in> set (BasicAuthMiddleware_realm m)"
  shows "c \<noteq> double_quote \<and> c \<noteq> back_slash \<and> byte c \<noteq> 10 \<and> byte c \<noteq> 13 \<and> byte c \<noteq> 0"
proof -
  from NewBasicAuthMiddleware_realm [OF assms(1)]
  have "validateRealm (BasicAuthMiddleware_realm m) = Inr ()" by simp
  from validateRealm_safe [OF this assms(2)] show ?thesis .
qed

definition demo_config :: "(session_map world) BasicAuthConfig" where
  "demo_config =
     \<lparr>BasicAuthConfig_Verifier = Some (external_verifier (\<lambda>user pass. Inl ErrPasswordMismatch)),
      BasicAuthConfig_Sessions = Some (NewSessionService SessionRepo 60),
      BasicAuthConfig_Realm = ''R'', BasicAuthConfig_CookieName = ''sid'',
      BasicAuthConfig_Cookie = \<lparr>CookieOptions_Path = [], CookieOptions_Domain = [],
        CookieOptions_Insecure = False, CookieOptions_SameSite = 0\<rparr>\<rparr>"

theorem middleware_realm_safe_witness:
  "\<exists>m. NewBasicAuthMiddleware demo_config = Inr m \<and> BasicAuthMiddleware_realm m = ''R'' \<and>
     CHR ''R'' \<noteq> double_quote \<and> byte (CHR ''R'') \<noteq> 10"
proof -
  have r: "byte (CHR ''R'') = 82" by (simp add: byte_def)
  moreover have "byte double_quote = 34" "byte back_slash = 92" by (simp_all add: double_quote_def back_slash_def)
  ultimately have "double_quote \<noteq> CHR ''R''" "back_slash \<noteq> CHR ''R''" by fastforce+
  with r have "validateRealm ''R'' = Inr ()"
    by (simp add: validateRealm_def runes_ascii is_control_def)
  then obtain m where m: "NewBasicAuthMiddleware demo_config = Inr m" and "BasicAuthMiddleware_realm m = ''R''"
    by (simp add: NewBasicAuthMiddleware_def demo_config_def Let_def)
  with middleware_realm_safe [OF m, of "CHR ''R''"] show ?thesis by simp
qed

section \<open>Addresses, tenants, passkeys\<close>

text \<open>An accepted address has a local part, exactly one cut at the first at-sign, a dotted
  domain and at most 254 bytes, no surrounding white space, and is accepted again unchanged when
  it is ASCII.\<close>

theorem email_normalised:
  assumes "NewEmail ul s = Inr e"
    and "\<And>r. 128 \<le> r \<Longrightarrow> \<not> (65 \<le> ul r \<and> ul r \<le> 90)"
  shows "email_ok (Email_String e) \<and> trim_space (Email_String e) = Email_String e \<and>
    (ascii (Email_String e) \<longrightarrow> NewEmail ul (Email_String e) = Inr e)"
  using NewEmail_shape [OF assms(1)] NewEmail_idem [OF assms(1) _ assms(2)] by blast

lemma demo_address_spaces: "trim_space ''a@b.c'' = ''a@b.c''"
  by (rule trim_space_id) (auto simp: is_space_def byte_def ascii_def)

lemma demo_address: "NewEmail id ''a@b.c'' = Inr (Email ''a@b.c'')"
proof (rule email_ok_accepted)
  show "email_ok ''a@b.c''"
    unfolding email_ok_def
    by (rule exI [of _ "''a''"], rule exI [of _ "''b.c''"]) (simp add: at_sign_def dot_def)
  have "to_lower id ''a@b.c'' = ''a@b.c''"
    by (rule to_lower_id) (auto simp: ascii_def byte_def upper_byte_def)
  then show "trim_space (to_lower id ''a@b.c'') = ''a@b.c''" by (simp add: demo_address_spaces)
qed

theorem email_normalised_witness: "email_ok ''a@b.c'' \<and> NewEmail id ''a@b.c'' = Inr (Email ''a@b.c'')"
  using email_normalised [OF demo_address] demo_address by simp

text \<open>A user that was stored is read back under its own tenant, reads as not found under any
  other, and storing it changes what is read of no other user.\<close>

theorem user_tenant_isolated:
  assumes "gomap_ok (store w)" and "UserRepo_UpsertUser u w = (Inr x, w1)"
    and "UserRepo_GetUser tenant i w1 = (r, w2)" and "quiet w1"
  shows "r = (if i = User_id u
              then (if tenant = User_tenantID u then Inr u else Inl ErrNotFound)
              else tenant_lookup (gomap_get (store w)) tenant i)"
  using mu.upsert_then_get [of w u x w1 tenant i r w2] assms by (simp add: UserRepo_def)

definition demo_user :: User where
  "demo_user = \<lparr>User_id = UserID ''u'', User_tenantID = TenantID ''t'', User_email = Email ''a@b.c'',
     User_createdAt = 1, User_updatedAt = 1\<rparr>"

theorem user_tenant_isolated_witness:
  "fst (UserRepo_GetUser (TenantID ''other'') (UserID ''u'')
     (snd (UserRepo_UpsertUser demo_user (calm 0 0 NewUserRepo)))) = Inl ErrNotFound"
proof -
  obtain w1 where u: "UserRepo_UpsertUser demo_user (calm 0 0 NewUserRepo) = (Inr (), w1)" and "quiet w1"
    by (simp add: UserRepo_UpsertUser_def Let_def)
  then show ?thesis
    using user_tenant_isolated [OF _ u, of "TenantID ''other''" "UserID ''u''"]
    by (cases "UserRepo_GetUser (TenantID ''other'') (UserID ''u'') w1")
       (simp add: NewUserRepo_def demo_user_def)
qed

text \<open>A credential that was added is listed for its own user and for no other, and updating
  a sign counter changes that one field of that one credential.\<close>

theorem passkey_listing:
  assumes "passkey_map_ok (store w)" and "PasskeyRepo_Add c w = (Inr x, w1)"
    and "PasskeyRepo_UpdateSignCount (PasskeyCredential_ID c) n w1 = (Inr y, w2)"
    and "PasskeyRepo_ListByUser u w2 = (Inr cs, w3)"
  shows "(c\<lparr>PasskeyCredential_SignCount := n\<rparr> \<in> set cs \<longleftrightarrow> u = PasskeyCredential_UserID c) \<and>
    (\<forall>d \<in> set cs. PasskeyCredential_UserID d = u)"
proof -
  have w1: "passkey_map_ok (store w1)"
      "gomap_get (store w1) = (gomap_get (store w))(PasskeyCredential_ID c \<mapsto> c)"
    using mp.add [OF assms(1), of c] assms(2) by (auto simp: attempts_def settled_def PasskeyRepo_def)
  have w2: "passkey_map_ok (store w2)"
      "gomap_get (store w2) = (gomap_get (store w))
        (PasskeyCredential_ID c \<mapsto> c\<lparr>PasskeyCredential_SignCount := n\<rparr>)"
    using mp.update [OF w1(1), of "PasskeyCredential_ID c" n] assms(3) w1(2)
    by (auto simp: writes_def settled_def PasskeyRepo_def PasskeyCredential_WithSignCount_def)
  have "set cs = user_passkeys (gomap_get (store w2)) u"
    using mp.list_by_user [OF w2(1), of u] assms(4) by (auto simp: reads_def PasskeyRepo_def)
  then show ?thesis by (auto simp: w2(2) user_passkeys_def)
qed

definition demo_passkey :: PasskeyCredential where
  "demo_passkey = \<lparr>PasskeyCredential_ID = ''i'', PasskeyCredential_UserID = UserID ''u'',
     PasskeyCredential_PublicKey = ''k'', PasskeyCredential_SignCount = 0, PasskeyCredential_Name = ''n''\<rparr>"

theorem passkey_listing_witness:
  "\<exists>cs w. PasskeyRepo_ListByUser (UserID ''u'')
     (snd (PasskeyRepo_UpdateSignCount ''i'' 7 (snd (PasskeyRepo_Add demo_passkey (calm 0 0 []))))) = (Inr cs, w) \<and>
   demo_passkey\<lparr>PasskeyCredential_SignCount := 7\<rparr> \<in> set cs"
proof -
  obtain w1 where a: "PasskeyRepo_Add demo_passkey (calm 0 0 []) = (Inr (), w1)"
    by (simp add: PasskeyRepo_Add_def)
  then obtain w2 where u: "PasskeyRepo_UpdateSignCount ''i'' 7 w1 = (Inr (), w2)"
    by (auto simp: PasskeyRepo_Add_def PasskeyRepo_UpdateSignCount_def demo_passkey_def)
  with a obtain cs w3 where l: "PasskeyRepo_ListByUser (UserID ''u'') w2 = (Inr cs, w3)"
    by (auto simp: PasskeyRepo_Add_def PasskeyRepo_UpdateSignCount_def PasskeyRepo_ListByUser_def
        demo_passkey_def)
  have i: "PasskeyCredential_ID demo_passkey = ''i''" "PasskeyCredential_UserID demo_passkey = UserID ''u''"
    by (simp_all add: demo_passkey_def)
  show ?thesis
    using passkey_listing [OF _ a, unfolded i, OF _ u l] a u l
    by (simp add: passkey_map_ok_def)
qed

end
