(* ===== verification/Password.thy ===== *)
theory Password
  imports Values
begin

text \<open>
  \<open>src/domain/password.go\<close>: argon2id password hashes in the PHC string format. The key derivation
  (\<open>golang.org/x/crypto/argon2\<close>) is the parameter \<open>Argon2\<close>, whose \<open>IDKey\<close> may panic; its documented
  behaviour is the hypothesis \<open>argon2_ok\<close>. The scanner of \<open>fmt.Sscanf\<close> is modelled for the verbs
  and literals the code uses: it works on runes, skips white space before a number, refuses a
  line break, and leaves trailing input alone.
\<close>

section \<open>Parameters and hashes\<close>

definition maxPasswordLen :: nat where "maxPasswordLen = 1024"

record Argon2idParams =
  Argon2idParams_Memory :: u32
  Argon2idParams_Iterations :: u32
  Argon2idParams_Parallelism :: "8 word"
  Argon2idParams_SaltLength :: u32
  Argon2idParams_KeyLength :: u32

definition DefaultArgon2idParams :: Argon2idParams where
  "DefaultArgon2idParams =
     \<lparr>Argon2idParams_Memory = 19 * 1024, Argon2idParams_Iterations = 2,
      Argon2idParams_Parallelism = 1, Argon2idParams_SaltLength = 16,
      Argon2idParams_KeyLength = 32\<rparr>"

definition Argon2idParams_Validate :: "Argon2idParams \<Rightarrow> unit res" where
  "Argon2idParams_Validate p =
     (if Argon2idParams_Memory p = 0 \<or> Argon2idParams_Iterations p = 0 \<or>
         Argon2idParams_Parallelism p = 0 \<or> Argon2idParams_SaltLength p = 0 \<or>
         Argon2idParams_KeyLength p = 0
      then Inl ErrInvalidArgon2Params else Inr ())"

text \<open>\<open>argon2.Version\<close>, and \<open>argon2.IDKey(password, salt, time, memory, threads, keyLen)\<close>; \<open>None\<close> is a
  panic.\<close>

record Argon2 =
  Argon2_Version :: int
  Argon2_IDKey :: "string \<Rightarrow> string \<Rightarrow> u32 \<Rightarrow> u32 \<Rightarrow> 8 word \<Rightarrow> u32 \<Rightarrow> string option"

definition idkey :: "Argon2 \<Rightarrow> string \<Rightarrow> string \<Rightarrow> Argon2idParams \<Rightarrow> u32 \<Rightarrow> string res" where
  "idkey A plaintext salt p len =
     (case Argon2_IDKey A plaintext salt (Argon2idParams_Iterations p) (Argon2idParams_Memory p)
             (Argon2idParams_Parallelism p) len of
        None \<Rightarrow> Inl (GoPanic ''argon2'')
      | Some k \<Rightarrow> Inr k)"

datatype PasswordHash = PasswordHash (PasswordHash_String: string)

section \<open>Scanning\<close>

definition digit_rune :: "nat \<Rightarrow> bool" where "digit_rune r \<longleftrightarrow> 48 \<le> r \<and> r \<le> 57"

definition runes_number :: "nat list \<Rightarrow> nat" where
  "runes_number ds = foldl (\<lambda>n r. 10 * n + (r - 48)) 0 ds"

text \<open>\<open>SkipSpace\<close> of a scan in which a line break does not count as space.\<close>

fun skip_space :: "nat list \<Rightarrow> nat list option" where
  "skip_space [] = Some []"
| "skip_space (r # rs) =
     (if r = 13 \<and> rs \<noteq> [] \<and> hd rs = 10 then skip_space rs
      else if r = 10 then None
      else if is_space r then skip_space rs
      else Some (r # rs))"

fun scan_literal :: "nat list \<Rightarrow> nat list \<Rightarrow> nat list option" where
  "scan_literal [] rs = Some rs"
| "scan_literal (f # fs) [] = None"
| "scan_literal (f # fs) (r # rs) = (if f = r then scan_literal fs rs else None)"

definition scan_digits :: "nat list \<Rightarrow> (nat \<times> nat list) option" where
  "scan_digits rs =
     (let ds = takeWhile digit_rune rs in
      if ds = [] then None else Some (runes_number ds, dropWhile digit_rune rs))"

text \<open>\<open>%d\<close> into an unsigned integer of \<open>k\<close> bits, and into an \<open>int\<close>.\<close>

definition scan_uint :: "nat \<Rightarrow> nat list \<Rightarrow> (nat \<times> nat list) option" where
  "scan_uint k rs =
     (case skip_space rs of
        None \<Rightarrow> None
      | Some rs \<Rightarrow>
          (case scan_digits rs of
             None \<Rightarrow> None
           | Some (n, rs) \<Rightarrow> if 2 ^ k \<le> n then None else Some (n, rs)))"

definition scan_int :: "nat list \<Rightarrow> (int \<times> nat list) option" where
  "scan_int rs =
     (case skip_space rs of
        None \<Rightarrow> None
      | Some rs \<Rightarrow>
          let neg = (rs \<noteq> [] \<and> hd rs = 45);
              rs = (if rs \<noteq> [] \<and> (hd rs = 43 \<or> hd rs = 45) then tl rs else rs)
          in (case scan_digits rs of
                None \<Rightarrow> None
              | Some (n, rs) \<Rightarrow>
                  let v = (if neg then - int n else int n)
                  in if v < - (2 ^ 63) \<or> 2 ^ 63 \<le> v then None else Some (v, rs)))"

definition literal :: "string \<Rightarrow> nat list" where "literal s = map byte s"

text \<open>\<open>fmt.Sscanf(s, "v=%d", &version)\<close> and \<open>fmt.Sscanf(s, "m=%d,t=%d,p=%d", ...)\<close>.\<close>

definition sscanf_version :: "string \<Rightarrow> int option" where
  "sscanf_version s =
     (case scan_literal (literal ''v='') (runes s) of
        None \<Rightarrow> None
      | Some rs \<Rightarrow> map_option fst (scan_int rs))"

definition sscanf_params :: "string \<Rightarrow> (nat \<times> nat \<times> nat) option" where
  "sscanf_params s =
     Option.bind (scan_literal (literal ''m='') (runes s)) (\<lambda>rs.
     Option.bind (scan_uint 32 rs) (\<lambda>(m, rs).
     Option.bind (scan_literal (literal '',t='') rs) (\<lambda>rs.
     Option.bind (scan_uint 32 rs) (\<lambda>(t, rs).
     Option.bind (scan_literal (literal '',p='') rs) (\<lambda>rs.
     Option.bind (scan_uint 8 rs) (\<lambda>(p, rs). Some (m, t, p)))))))"

section \<open>The operations\<close>

definition checkPasswordPlaintext :: "string \<Rightarrow> unit res" where
  "checkPasswordPlaintext plaintext =
     (if plaintext = [] \<or> maxPasswordLen < length plaintext then Inl ErrInvalidPassword else Inr ())"

definition dollar :: char where "dollar = CHR ''$''"

definition phc_encode :: "Argon2 \<Rightarrow> Argon2idParams \<Rightarrow> string \<Rightarrow> string \<Rightarrow> string" where
  "phc_encode A p salt key =
     ''$argon2id$v='' @ decimal_int (Argon2_Version A) @
     ''$m='' @ decimal (unat (Argon2idParams_Memory p)) @
     '',t='' @ decimal (unat (Argon2idParams_Iterations p)) @
     '',p='' @ decimal (unat (Argon2idParams_Parallelism p)) @
     ''$'' @ base64_encode False salt @ ''$'' @ base64_encode False key"

definition HashPassword ::
  "Argon2 \<Rightarrow> string \<Rightarrow> Argon2idParams \<Rightarrow> 'a env_scheme \<Rightarrow> PasswordHash res \<times> 'a env_scheme" where
  "HashPassword A plaintext p w =
     (case checkPasswordPlaintext plaintext of
        Inl e \<Rightarrow> (Inl e, w)
      | Inr _ \<Rightarrow>
          (case Argon2idParams_Validate p of
             Inl e \<Rightarrow> (Inl e, w)
           | Inr _ \<Rightarrow>
               and_then (rand_read (unat (Argon2idParams_SaltLength p)) w) (\<lambda>salt w.
                 (case idkey A plaintext salt p (Argon2idParams_KeyLength p) of
                    Inl e \<Rightarrow> (Inl e, w)
                  | Inr key \<Rightarrow> (Inr (PasswordHash (phc_encode A p salt key)), w)))))"

definition decodePHC :: "Argon2 \<Rightarrow> string \<Rightarrow> (Argon2idParams \<times> string \<times> string) res" where
  "decodePHC A encoded =
     (let parts = split_on dollar encoded in
      if length parts \<noteq> 6 \<or> parts ! 1 \<noteq> ''argon2id'' then Inl ErrInvalidHash
      else case sscanf_version (parts ! 2) of
        None \<Rightarrow> Inl ErrInvalidHash
      | Some version \<Rightarrow>
          if version \<noteq> Argon2_Version A then Inl ErrInvalidHash
          else case sscanf_params (parts ! 3) of
            None \<Rightarrow> Inl ErrInvalidHash
          | Some (m, t, p) \<Rightarrow>
              (case base64_decode False False (parts ! 4) of
                 None \<Rightarrow> Inl ErrInvalidHash
               | Some salt \<Rightarrow>
                   (case base64_decode False False (parts ! 5) of
                      None \<Rightarrow> Inl ErrInvalidHash
                    | Some hash \<Rightarrow>
                        Inr (\<lparr>Argon2idParams_Memory = of_nat m, Argon2idParams_Iterations = of_nat t,
                              Argon2idParams_Parallelism = of_nat p, Argon2idParams_SaltLength = 0,
                              Argon2idParams_KeyLength = 0\<rparr>, salt, hash))))"

definition PasswordHashFromString :: "Argon2 \<Rightarrow> string \<Rightarrow> PasswordHash res" where
  "PasswordHashFromString A encoded =
     (case decodePHC A encoded of Inl e \<Rightarrow> Inl e | Inr _ \<Rightarrow> Inr (PasswordHash encoded))"

definition PasswordHash_Verify :: "Argon2 \<Rightarrow> PasswordHash \<Rightarrow> string \<Rightarrow> unit res" where
  "PasswordHash_Verify A h plaintext =
     (case checkPasswordPlaintext plaintext of
        Inl e \<Rightarrow> Inl e
      | Inr _ \<Rightarrow>
          (case decodePHC A (PasswordHash_String h) of
             Inl e \<Rightarrow> Inl e
           | Inr (params, salt, hash) \<Rightarrow>
               (case idkey A plaintext salt params (of_nat (length hash)) of
                  Inl e \<Rightarrow> Inl e
                | Inr other \<Rightarrow>
                    if constant_time_compare hash other \<noteq> 1 then Inl ErrPasswordMismatch
                    else Inr ())))"

section \<open>Scanning what was printed\<close>

lemma runes_number_decimal: "runes_number (map byte (decimal n)) = n"
proof -
  have "foldl (\<lambda>n r. 10 * n + (r - 48)) k (map byte s) = foldl (\<lambda>n c. 10 * n + digit_value c) k s"
    for k s
    by (induction s arbitrary: k) (simp_all add: digit_value_def)
  then show ?thesis
    using number_of_decimal [of n] by (simp add: runes_number_def number_of_def)
qed

lemma decimal_runes:
  "r \<in> set (map byte (decimal n)) \<Longrightarrow> digit_rune r" "map byte (decimal n) \<noteq> []"
  using decimal_digits by (auto simp: digit_rune_def is_digit_def)

text \<open>\<open>stops rs\<close>: a number before \<open>rs\<close> ends there.\<close>

definition stops :: "nat list \<Rightarrow> bool" where
  "stops rs \<longleftrightarrow> rs = [] \<or> \<not> digit_rune (hd rs)"

lemma scan_digits_decimal:
  assumes "stops rs"
  shows "scan_digits (map byte (decimal n) @ rs) = Some (n, rs)"
proof -
  have all: "\<forall>r \<in> set (map byte (decimal n)). digit_rune r" using decimal_runes by blast
  have "takeWhile digit_rune (map byte (decimal n) @ rs) = map byte (decimal n) @ takeWhile digit_rune rs"
    using all by (intro takeWhile_append2) auto
  moreover have "dropWhile digit_rune (map byte (decimal n) @ rs) = dropWhile digit_rune rs"
    using all by (intro dropWhile_append2) auto
  moreover have "takeWhile digit_rune rs = []" "dropWhile digit_rune rs = rs"
    using assms by (cases rs; auto simp: stops_def)+
  ultimately show ?thesis
    by (simp add: scan_digits_def runes_number_decimal decimal_runes(2) del: map_is_Nil_conv)
qed

lemma digit_not_space: "digit_rune r \<Longrightarrow> \<not> is_space r \<and> r \<noteq> 10 \<and> r \<noteq> 13 \<and> r \<noteq> 43 \<and> r \<noteq> 45"
  by (auto simp: digit_rune_def is_space_def)

lemma skip_space_decimal: "skip_space (map byte (decimal n) @ rs) = Some (map byte (decimal n) @ rs)"
proof -
  obtain c cs where d: "decimal n = c # cs" by (cases "decimal n") auto
  then have "digit_rune (byte c)" using decimal_runes(1) [of "byte c" n] by auto
  with d digit_not_space show ?thesis by auto
qed

lemma scan_uint_decimal:
  "stops rs \<Longrightarrow> n < 2 ^ k \<Longrightarrow> scan_uint k (map byte (decimal n) @ rs) = Some (n, rs)"
  by (simp add: scan_uint_def skip_space_decimal scan_digits_decimal)

lemma scan_int_decimal:
  assumes "stops rs" and "0 \<le> v" and "v < 2 ^ 63"
  shows "scan_int (map byte (decimal_int v) @ rs) = Some (v, rs)"
proof -
  obtain c cs where d: "decimal (nat v) = c # cs" by (cases "decimal (nat v)") auto
  then have c: "digit_rune (byte c)" using decimal_runes(1) [of "byte c" "nat v"] by auto
  have e: "map byte (decimal_int v) = map byte (decimal (nat v))"
    using assms(2) by (simp add: decimal_int_def)
  show ?thesis
    unfolding e scan_int_def skip_space_decimal option.case Let_def
    using assms digit_not_space [OF c] scan_digits_decimal [OF assms(1), of "nat v"]
    by (simp add: d)
qed

lemma scan_literal_append: "scan_literal fs (fs @ rs) = Some rs"
  by (induction fs) auto

section \<open>Hashes verify\<close>

definition phc_version :: "Argon2 \<Rightarrow> string" where
  "phc_version A = ''v='' @ decimal_int (Argon2_Version A)"

definition phc_params :: "Argon2idParams \<Rightarrow> string" where
  "phc_params p =
     ''m='' @ decimal (unat (Argon2idParams_Memory p)) @
     '',t='' @ decimal (unat (Argon2idParams_Iterations p)) @
     '',p='' @ decimal (unat (Argon2idParams_Parallelism p))"

lemma phc_encode_join:
  "phc_encode A p salt key =
     join [dollar] [[], ''argon2id'', phc_version A, phc_params p, base64_encode False salt,
                    base64_encode False key]"
  by (simp add: phc_encode_def phc_version_def phc_params_def dollar_def)

lemma no_dollar:
  "dollar \<notin> set (decimal n)" "dollar \<notin> set (decimal_int v)" "dollar \<notin> set (base64_encode False bs)"
proof -
  have b: "byte dollar = 36" by (simp add: dollar_def byte_def)
  show d: "dollar \<notin> set (decimal n)" for n
    using decimal_digits [of dollar n] by (auto simp: is_digit_def b)
  show "dollar \<notin> set (decimal_int v)"
    using d by (auto simp: decimal_int_def dollar_def)
  show "dollar \<notin> set (base64_encode False bs)"
    using base64_encode_alphabet [of dollar False bs] by (auto simp: sym64_ok_def val64_def b Let_def split: if_splits)
qed

lemma split_phc:
  "split_on dollar (phc_encode A p salt key) =
     [[], ''argon2id'', phc_version A, phc_params p, base64_encode False salt,
      base64_encode False key]"
  unfolding phc_encode_join
  by (rule split_on_join) (auto simp: phc_version_def phc_params_def no_dollar, auto simp: dollar_def)

lemma ascii_decimal: "ascii (decimal n)" "ascii (decimal_int v)"
proof -
  show d: "ascii (decimal n)" for n
    using decimal_digits by (fastforce simp: ascii_def is_digit_def)
  show "ascii (decimal_int v)"
    using d by (simp add: decimal_int_def byte_def)
qed

lemma sscanf_version_print:
  assumes "0 \<le> Argon2_Version A" and "Argon2_Version A < 2 ^ 63"
  shows "sscanf_version (phc_version A) = Some (Argon2_Version A)"
proof -
  have "ascii (phc_version A)" by (simp add: phc_version_def ascii_decimal byte_def)
  then have "runes (phc_version A) = literal ''v='' @ map byte (decimal_int (Argon2_Version A)) @ []"
    by (simp add: runes_ascii phc_version_def literal_def)
  then show ?thesis
    using scan_int_decimal [of "[]", OF _ assms]
    by (simp add: sscanf_version_def scan_literal_append stops_def del: append_Nil2)
qed

lemma stops_literal: "stops (literal '',t='' @ rs)" "stops (literal '',p='' @ rs)" "stops []"
  by (simp_all add: stops_def literal_def digit_rune_def byte_def)

lemma sscanf_params_print:
  "sscanf_params (phc_params p) =
     Some (unat (Argon2idParams_Memory p), unat (Argon2idParams_Iterations p),
           unat (Argon2idParams_Parallelism p))"
proof -
  let ?m = "unat (Argon2idParams_Memory p)" and ?t = "unat (Argon2idParams_Iterations p)"
    and ?p = "unat (Argon2idParams_Parallelism p)"
  have lt: "?m < 2 ^ 32" "?t < 2 ^ 32" "?p < 2 ^ 8"
    using unsigned_less [of "Argon2idParams_Memory p"] unsigned_less [of "Argon2idParams_Iterations p"]
      unsigned_less [of "Argon2idParams_Parallelism p"] by simp_all
  have "ascii (phc_params p)" by (simp add: phc_params_def ascii_decimal byte_def)
  then have r: "runes (phc_params p) = literal ''m='' @ map byte (decimal ?m) @
      literal '',t='' @ map byte (decimal ?t) @ literal '',p='' @ map byte (decimal ?p) @ []"
    by (simp add: runes_ascii phc_params_def literal_def)
  show ?thesis
    unfolding sscanf_params_def r
    by (simp only: scan_literal_append bind.simps split_conv stops_literal lt
        scan_uint_decimal [OF stops_literal(1) lt(1)] scan_uint_decimal [OF stops_literal(2) lt(2)]
        scan_uint_decimal [OF stops_literal(3) lt(3)])
qed

lemma decodePHC_encode:
  assumes "0 \<le> Argon2_Version A" and "Argon2_Version A < 2 ^ 63"
  shows "decodePHC A (phc_encode A p salt key) =
    Inr (p\<lparr>Argon2idParams_SaltLength := 0, Argon2idParams_KeyLength := 0\<rparr>, salt, key)"
  by (simp add: decodePHC_def split_phc sscanf_version_print [OF assms] sscanf_params_print Let_def
      numeral_2_eq_2 numeral_3_eq_3 numeral_eq_Suc)

text \<open>
  What the code relies on of argon2: a version that fits, and a key of the requested length
  whenever the cost parameters are not zero.
\<close>

definition argon2_ok :: "Argon2 \<Rightarrow> bool" where
  "argon2_ok A \<longleftrightarrow> 0 \<le> Argon2_Version A \<and> Argon2_Version A < 2 ^ 63 \<and>
     (\<forall>pw salt t m p len. t \<noteq> 0 \<longrightarrow> m \<noteq> 0 \<longrightarrow> p \<noteq> 0 \<longrightarrow> len \<noteq> 0 \<longrightarrow>
        (\<exists>k. Argon2_IDKey A pw salt t m p len = Some k \<and> length k = unat len))"

lemma argon2_okD:
  assumes "argon2_ok A" and "Argon2idParams_Validate p = Inr ()"
  obtains k where "idkey A pw salt p (Argon2idParams_KeyLength p) = Inr k"
    and "length k = unat (Argon2idParams_KeyLength p)"
    and "Argon2_IDKey A pw salt (Argon2idParams_Iterations p) (Argon2idParams_Memory p)
      (Argon2idParams_Parallelism p) (Argon2idParams_KeyLength p) = Some k"
proof -
  from assms(2) have "Argon2idParams_Iterations p \<noteq> 0" "Argon2idParams_Memory p \<noteq> 0"
    "Argon2idParams_Parallelism p \<noteq> 0" "Argon2idParams_KeyLength p \<noteq> 0"
    by (auto simp: Argon2idParams_Validate_def split: if_splits)
  with assms(1) obtain k where "Argon2_IDKey A pw salt (Argon2idParams_Iterations p)
      (Argon2idParams_Memory p) (Argon2idParams_Parallelism p) (Argon2idParams_KeyLength p) = Some k"
      and "length k = unat (Argon2idParams_KeyLength p)"
    unfolding argon2_ok_def by blast
  then show ?thesis by (intro that) (auto simp: idkey_def)
qed

text \<open>The two outcomes of hashing an acceptable password with acceptable parameters.\<close>

lemma HashPassword_cases:
  assumes "argon2_ok A" and "HashPassword A plaintext p w = (r, w')"
  obtains (bad_password) "r = Inl ErrInvalidPassword" and "w' = w"
      and "checkPasswordPlaintext plaintext = Inl ErrInvalidPassword"
  | (bad_params) "r = Inl ErrInvalidArgon2Params" and "w' = w" and "Argon2idParams_Validate p \<noteq> Inr ()"
  | (no_random) msg where "r = Inl (ErrExternal msg)" and "w' = tick w" and "\<not> rand_ok w"
  | (hashed) salt key where "r = Inr (PasswordHash (phc_encode A p salt key))" and "w' = tick w"
      and "checkPasswordPlaintext plaintext = Inr ()" and "Argon2idParams_Validate p = Inr ()"
      and "length salt = unat (Argon2idParams_SaltLength p)"
      and "idkey A plaintext salt p (Argon2idParams_KeyLength p) = Inr key"
      and "length key = unat (Argon2idParams_KeyLength p)"
proof (cases "checkPasswordPlaintext plaintext")
  case (Inl e)
  then have "e = ErrInvalidPassword" by (auto simp: checkPasswordPlaintext_def split: if_splits)
  with Inl assms(2) show ?thesis by (intro bad_password) (auto simp: HashPassword_def)
next
  case ok: (Inr u)
  show ?thesis
  proof (cases "Argon2idParams_Validate p")
    case (Inl e)
    then have "e = ErrInvalidArgon2Params"
      by (auto simp: Argon2idParams_Validate_def split: if_splits)
    with Inl ok assms(2) show ?thesis by (intro bad_params) (auto simp: HashPassword_def)
  next
    case (Inr v)
    obtain r1 w1 where rr: "rand_read (unat (Argon2idParams_SaltLength p)) w = (r1, w1)" by fastforce
    then show ?thesis
    proof (cases rule: rand_read_cases)
      case (fail msg)
      with rr ok Inr assms(2) show ?thesis by (intro no_random) (auto simp: HashPassword_def)
    next
      case (bytes salt)
      from Inr have v: "Argon2idParams_Validate p = Inr ()" by simp
      obtain key where key: "idkey A plaintext salt p (Argon2idParams_KeyLength p) = Inr key"
        "length key = unat (Argon2idParams_KeyLength p)"
        using argon2_okD [OF assms(1) v] by blast
      show ?thesis
        by (rule hashed [of salt key]) (use rr ok v bytes key assms(2) in \<open>auto simp: HashPassword_def\<close>)
    qed
  qed
qed

text \<open>Verification recomputes the key with the stored salt and cost.\<close>

lemma Verify_encoded:
  assumes "argon2_ok A" and "Argon2idParams_Validate p = Inr ()"
    and "idkey A plaintext salt p (Argon2idParams_KeyLength p) = Inr key"
    and "checkPasswordPlaintext attempt = Inr ()"
  shows "PasswordHash_Verify A (PasswordHash (phc_encode A p salt key)) attempt =
    (if idkey A attempt salt p (Argon2idParams_KeyLength p) = Inr key then Inr ()
     else Inl ErrPasswordMismatch)"
proof -
  have A: "0 \<le> Argon2_Version A" "Argon2_Version A < 2 ^ 63" using assms(1) by (simp_all add: argon2_ok_def)
  have "length key = unat (Argon2idParams_KeyLength p)"
    using argon2_okD [OF assms(1,2), of plaintext salt] assms(3) by fastforce
  then have len: "(of_nat (length key) :: u32) = Argon2idParams_KeyLength p" by simp
  obtain k where k: "idkey A attempt salt p (Argon2idParams_KeyLength p) = Inr k"
    using argon2_okD [OF assms(1,2)] by blast
  then have "idkey A attempt salt (p\<lparr>Argon2idParams_SaltLength := 0, Argon2idParams_KeyLength := 0\<rparr>)
      (Argon2idParams_KeyLength p) = Inr k"
    by (simp add: idkey_def)
  with k len show ?thesis
    by (auto simp: PasswordHash_Verify_def assms(4) decodePHC_encode [OF A])
qed

text \<open>C38: a hash is accepted back from storage and verifies the password it was made from; any
  other password it verifies is one that derives the same key from the same salt.\<close>

theorem password_roundtrip:
  assumes "argon2_ok A" and "HashPassword A plaintext p w = (Inr h, w')"
  shows "PasswordHashFromString A (PasswordHash_String h) = Inr h \<and>
    PasswordHash_Verify A h plaintext = Inr () \<and>
    (\<exists>salt. length salt = unat (Argon2idParams_SaltLength p) \<and>
      (\<forall>attempt. PasswordHash_Verify A h attempt = Inr () \<longrightarrow>
         idkey A attempt salt p (Argon2idParams_KeyLength p) =
         idkey A plaintext salt p (Argon2idParams_KeyLength p)))"
  using assms
proof (cases rule: HashPassword_cases)
  case (hashed salt key)
  then have h: "h = PasswordHash (phc_encode A p salt key)" by simp
  have A: "0 \<le> Argon2_Version A" "Argon2_Version A < 2 ^ 63" using assms(1) by (simp_all add: argon2_ok_def)
  note v = Verify_encoded [OF assms(1) hashed(4,6)]
  have "idkey A attempt salt p (Argon2idParams_KeyLength p) = Inr key"
    if "PasswordHash_Verify A h attempt = Inr ()" for attempt
  proof -
    have "checkPasswordPlaintext attempt = Inr ()"
      using that by (auto simp: PasswordHash_Verify_def split: sum.splits)
    with v [OF this] that h show ?thesis by (auto split: if_splits)
  qed
  moreover have "PasswordHash_Verify A h plaintext = Inr ()" using v [OF hashed(3)] hashed(6) h by simp
  moreover have "PasswordHashFromString A (PasswordHash_String h) = Inr h"
    by (simp add: PasswordHashFromString_def h decodePHC_encode [OF A])
  ultimately show ?thesis using hashed(5,6) by auto
qed simp_all

text \<open>A stand-in for argon2 with which the hypotheses can be seen to hold.\<close>

definition toy_argon2 :: Argon2 where
  "toy_argon2 =
     \<lparr>Argon2_Version = 19,
      Argon2_IDKey = (\<lambda>pw salt t m p len. if t = 0 \<or> p = 0 then None
         else Some (take (unat len) (pw @ salt @ replicate (unat len) (CHR ''k''))))\<rparr>"

lemma toy_argon2_ok [simp]: "argon2_ok toy_argon2"
  by (auto simp: argon2_ok_def toy_argon2_def min_def)

lemma default_params_valid [simp]: "Argon2idParams_Validate DefaultArgon2idParams = Inr ()"
  by (simp add: Argon2idParams_Validate_def DefaultArgon2idParams_def)

theorem password_roundtrip_witness:
  "\<exists>h w'. HashPassword toy_argon2 ''secret'' DefaultArgon2idParams (calm 0 0 ()) = (Inr h, w') \<and>
     PasswordHash_Verify toy_argon2 h ''secret'' = Inr ()"
proof -
  obtain r w' where h: "HashPassword toy_argon2 ''secret'' DefaultArgon2idParams (calm 0 0 ()) = (r, w')"
    by fastforce
  with toy_argon2_ok obtain h where "r = Inr h"
    by (cases rule: HashPassword_cases) (auto simp: checkPasswordPlaintext_def maxPasswordLen_def)
  with h password_roundtrip [OF toy_argon2_ok] show ?thesis by blast
qed

text \<open>A stored hash with a zero cost is accepted when it is read back, and verifying it runs
  argon2 with that cost, whose documented answer is a panic.\<close>

theorem password_zero_cost_panics:
  assumes "0 \<le> Argon2_Version A" and "Argon2_Version A < 2 ^ 63"
    and "\<And>pw salt m q len. Argon2_IDKey A pw salt 0 m q len = None"
    and "Argon2idParams_Iterations p = 0" and "checkPasswordPlaintext plaintext = Inr ()"
  shows "PasswordHashFromString A (phc_encode A p salt key) = Inr (PasswordHash (phc_encode A p salt key)) \<and>
    PasswordHash_Verify A (PasswordHash (phc_encode A p salt key)) plaintext = Inl (GoPanic ''argon2'')"
  using assms(3-5)
  by (simp add: PasswordHashFromString_def PasswordHash_Verify_def decodePHC_encode [OF assms(1,2)]
      idkey_def)

theorem password_zero_cost_panics_witness:
  "PasswordHash_Verify toy_argon2
     (PasswordHash (phc_encode toy_argon2 (DefaultArgon2idParams\<lparr>Argon2idParams_Iterations := 0\<rparr>) ''s'' ''k''))
     ''secret'' = Inl (GoPanic ''argon2'')"
  using password_zero_cost_panics [of toy_argon2 "DefaultArgon2idParams\<lparr>Argon2idParams_Iterations := 0\<rparr>"
      "''secret''" "''s''" "''k''"]
  by (simp add: toy_argon2_def checkPasswordPlaintext_def maxPasswordLen_def)

end
