(* ===== verification/SqlTables.thy ===== *)
theory SqlTables
  imports Prelude
begin

text \<open>
  What the two SQL adapters (\<open>src/adapters/sqlite\<close>, \<open>src/adapters/pgstore\<close>) share. A table is the
  list of its rows, in one order that SQL leaves open. A statement is a function on the table; a
  call to the driver is \<open>checked\<close>: it may fail without an effect, otherwise the statement runs.
  \<open>with_tx\<close> is the transaction both adapters wrap around their two-statement swaps.

  \<open>row_table\<close> is the interface between a table and the Go map the in-memory adapter keeps in its
  place: the primary key of a row and what the adapter decodes from it (\<open>keyed_rows\<close>: a snapshot
  that carries the key). \<open>mirrors\<close> states
  that an operation of an adapter takes the step of the in-memory operation on the decoded table;
  \<open>simulates\<close>, for the transactions, that it has that effect or fails for an external reason and
  changes nothing.
\<close>

section \<open>Statements\<close>

text \<open>\<open>sql.Result\<close>: what \<open>RowsAffected\<close> answers.\<close>

datatype Result = Result (RowsAffected: "int res")

definition rows :: "nat \<Rightarrow> Result res" where "rows n = Inr (Result (Inr (int n)))"

definition delete_where :: "('r \<Rightarrow> bool) \<Rightarrow> 'r list \<Rightarrow> Result res \<times> 'r list" where
  "delete_where p t = (rows (length (filter p t)), filter (\<lambda>r. \<not> p r) t)"

definition update_where :: "('r \<Rightarrow> bool) \<Rightarrow> ('r \<Rightarrow> 'r) \<Rightarrow> 'r list \<Rightarrow> Result res \<times> 'r list" where
  "update_where p f t = (rows (length (filter p t)), map (\<lambda>r. if p r then f r else r) t)"

text \<open>\<open>QueryRow\<close>: the first row, or \<open>sql.ErrNoRows\<close>.\<close>

definition select_row :: "('r \<Rightarrow> bool) \<Rightarrow> 'r list \<Rightarrow> 'r option" where
  "select_row p t = List.find p t"

text \<open>The first of the unique columns (name and content) in which a row of the table agrees with a
  new row, and an insertion, which the engine refuses with the driver's error for that column.\<close>

fun violated :: "(string \<times> ('r \<Rightarrow> string)) list \<Rightarrow> 'r list \<Rightarrow> 'r \<Rightarrow> string option" where
  "violated [] t r = None"
| "violated ((column, content) # cs) t r =
     (if content r \<in> content ` set t then Some column else violated cs t r)"

definition insert_row ::
  "(string \<Rightarrow> error) \<Rightarrow> (string \<times> ('r \<Rightarrow> string)) list \<Rightarrow> 'r \<Rightarrow> 'r list \<Rightarrow> Result res \<times> 'r list" where
  "insert_row unique_error cs r t =
     (case violated cs t r of
        Some column \<Rightarrow> (Inl (unique_error column), t)
      | None \<Rightarrow> (rows 1, t @ [r]))"

text \<open>\<open>INSERT ... ON CONFLICT (key) DO UPDATE SET ... WHERE ...\<close>: \<open>merge x r\<close> is the row \<open>x\<close> of the
  table updated from the excluded row \<open>r\<close>.\<close>

definition upsert_where ::
  "('r \<Rightarrow> 'k) \<Rightarrow> ('r \<Rightarrow> 'r \<Rightarrow> bool) \<Rightarrow> ('r \<Rightarrow> 'r \<Rightarrow> 'r) \<Rightarrow> 'r \<Rightarrow> 'r list \<Rightarrow> Result res \<times> 'r list" where
  "upsert_where key cond merge r t =
     (if key r \<in> key ` set t
      then update_where (\<lambda>x. key x = key r \<and> cond x r) (\<lambda>x. merge x r) t
      else (rows 1, t @ [r]))"

text \<open>\<open>excluded\<close>: every column takes the value of the excluded row.\<close>

definition upsert :: "('r \<Rightarrow> 'k) \<Rightarrow> 'r \<Rightarrow> 'r list \<Rightarrow> Result res \<times> 'r list" where
  "upsert key = upsert_where key (\<lambda>x r. True) (\<lambda>x r. r)"

definition requireOneRow :: "Result \<Rightarrow> unit res" where
  "requireOneRow res =
     (case RowsAffected res of
        Inl e \<Rightarrow> Inl e
      | Inr n \<Rightarrow> if n = 0 then Inl ErrNotFound else Inr ())"

text \<open>\<open>n, err := res.RowsAffected(); return n > 0, err\<close>.\<close>

definition affected :: "Result \<Rightarrow> bool res" where
  "affected res = map_sum id (\<lambda>n. 0 < n) (RowsAffected res)"

text \<open>A statement whose result is only looked at, and one whose result is dropped.\<close>

definition looking :: "(Result \<Rightarrow> 'a res) \<Rightarrow> Result res \<times> 's \<Rightarrow> 'a res \<times> 's" where
  "looking f out = (case fst out of Inl e \<Rightarrow> Inl e | Inr res \<Rightarrow> f res, snd out)"

definition dropping :: "Result res \<times> 's \<Rightarrow> unit res \<times> 's" where
  "dropping = looking (\<lambda>_. Inr ())"

text \<open>\<open>QueryRow(...).Scan(...)\<close> of one row, \<open>sql.ErrNoRows\<close> turned into \<open>ErrNotFound\<close>.\<close>

definition fetched :: "('r \<Rightarrow> 'v res) \<Rightarrow> ('v \<Rightarrow> 'a) \<Rightarrow> 'r option \<Rightarrow> 'a res" where
  "fetched dec f found =
     (case found of
        None \<Rightarrow> Inl ErrNotFound
      | Some r \<Rightarrow> (case dec r of Inl e \<Rightarrow> Inl e | Inr v \<Rightarrow> Inr (f v)))"

text \<open>\<open>for rows.Next() { ... }\<close>: the decoded rows, or the error of the first that does not decode.\<close>

fun scan_rows :: "('r \<Rightarrow> 'v res) \<Rightarrow> 'r list \<Rightarrow> 'v list res" where
  "scan_rows dec [] = Inr []"
| "scan_rows dec (r # rs) =
     (case dec r of
        Inl e \<Rightarrow> Inl e
      | Inr v \<Rightarrow> (case scan_rows dec rs of Inl e \<Rightarrow> Inl e | Inr vs \<Rightarrow> Inr (v # vs)))"

text \<open>A query over many rows: the call, the rows, and \<open>rows.Err()\<close> at the end.\<close>

definition query_rows ::
  "('r \<Rightarrow> bool) \<Rightarrow> ('r \<Rightarrow> 'v res) \<Rightarrow> ('s \<Rightarrow> 'r list) \<Rightarrow> 's world \<Rightarrow> 'v list res \<times> 's world" where
  "query_rows p dec table w =
     and_then (checked (\<lambda>s. (scan_rows dec (filter p (table s)), s)) w) (\<lambda>vs w.
       checked (\<lambda>s. (Inr vs, s)) w)"

lemma scan_rows_Inr: "\<forall>r \<in> set rs. \<not> isl (dec r) \<Longrightarrow> scan_rows dec rs = Inr (map (projr \<circ> dec) rs)"
proof (induction rs)
  case (Cons r rs)
  then show ?case by (cases "dec r") auto
qed simp

lemma looking_rows [simp]: "looking f (rows n, t) = (f (Result (Inr (int n))), t)"
  by (simp add: looking_def rows_def)

lemma looking_snd [simp]: "snd (looking f out) = snd out"
  by (simp add: looking_def)

lemma dropping_rows [simp]: "dropping (rows n, t) = (Inr (), t)"
  by (simp add: dropping_def)

lemma dropping_snd [simp]: "snd (dropping out) = snd out"
  by (simp add: dropping_def)

lemma statement_results [simp]:
  "looking f (delete_where p t) =
     (f (Result (Inr (int (length (filter p t))))), filter (\<lambda>r. \<not> p r) t)"
  "looking f (update_where p g t) =
     (f (Result (Inr (int (length (filter p t))))), map (\<lambda>r. if p r then g r else r) t)"
  "dropping (delete_where p t) = (Inr (), filter (\<lambda>r. \<not> p r) t)"
  "dropping (update_where p g t) = (Inr (), map (\<lambda>r. if p r then g r else r) t)"
  "fst (dropping (upsert key r t)) = Inr ()"
  by (simp_all add: delete_where_def update_where_def upsert_def upsert_where_def)

lemma dropping_insert:
  "violated cs t r = None \<Longrightarrow> dropping (insert_row err cs r t) = (Inr (), t @ [r])"
  "violated cs t r = Some c \<Longrightarrow> dropping (insert_row err cs r t) = (Inl (err c), t)"
  by (simp_all add: insert_row_def dropping_def looking_def rows_def)

lemma affected_rows [simp]: "affected (Result (Inr n)) = Inr (0 < n)"
  by (simp add: affected_def)

lemma requireOneRow_rows [simp]:
  "requireOneRow (Result (Inr n)) = (if n = 0 then Inl ErrNotFound else Inr ())"
  by (simp add: requireOneRow_def)

section \<open>Transactions\<close>

text \<open>
  A repository is built over a \<open>*sql.DB\<close>, which can begin a transaction, or over a \<open>*sql.Tx\<close> of
  its caller. \<open>_ = tx.Rollback()\<close> and a failed \<open>Commit\<close> both leave the tables as they were.
\<close>

datatype executor = SqlDB | SqlTx

definition with_tx ::
  "executor \<Rightarrow> ('s world \<Rightarrow> 'a res \<times> 's world) \<Rightarrow> 's world \<Rightarrow> 'a res \<times> 's world" where
  "with_tx db swap w =
     (case db of
        SqlTx \<Rightarrow> swap w
      | SqlDB \<Rightarrow>
          and_then (external_check w) (\<lambda>_ w1.
            (case swap w1 of
               (Inl e, w2) \<Rightarrow> (Inl e, put_store (store w1) (tick w2))
             | (Inr x, w2) \<Rightarrow>
                 (case external_check w2 of
                    (Inl e, w3) \<Rightarrow> (Inl e, put_store (store w1) w3)
                  | (Inr _, w3) \<Rightarrow> (Inr x, w3)))))"

text \<open>
  \<open>runs f w out\<close>: a sequence of driver calls from \<open>w\<close> did what the statements \<open>f\<close> do, or one of
  the calls failed.
\<close>

definition runs :: "('s \<Rightarrow> 'a res \<times> 's) \<Rightarrow> 's world \<Rightarrow> 'a res \<times> 's world \<Rightarrow> bool" where
  "runs f w out \<longleftrightarrow> env_le w (snd out) \<and>
     ((fst out, store (snd out)) = f (store w) \<or>
      (\<exists>e. fst out = Inl e \<and> is_external e) \<and> \<not> quiet w)"

definition rolled_back :: "('s \<Rightarrow> 'a res \<times> 's) \<Rightarrow> 's \<Rightarrow> 'a res \<times> 's" where
  "rolled_back f s = (case f s of (Inl e, _) \<Rightarrow> (Inl e, s) | (Inr x, s') \<Rightarrow> (Inr x, s'))"

lemma runs_pure [simp]: "runs (\<lambda>s. (r, s)) w (r, w)"
  by (simp add: runs_def)

lemma runs_checked: "runs f w (checked f w)"
proof (cases "external_check w")
  case (Pair r w1)
  from Pair show ?thesis
    by (rule external_check_cases)
       (use Pair in \<open>auto simp: checked_def runs_def split: prod.splits\<close>)
qed

lemma runs_and_then:
  assumes "runs f w r" and "\<And>x w1. env_le w w1 \<Longrightarrow> runs (g x) w1 (k x w1)"
  shows "runs (\<lambda>s. and_then (f s) g) w (and_then r k)"
proof (cases r)
  case (Pair a w1)
  show ?thesis
  proof (cases a)
    case (Inl e)
    with assms(1) Pair show ?thesis by (auto simp: runs_def dest!: sym [of _ "f (store w)"])
  next
    case (Inr x)
    have f: "f (store w) = (Inr x, store w1)" "env_le w w1"
      using assms(1) Pair Inr by (auto simp: runs_def)
    have "runs (g x) w1 (k x w1)" by (rule assms(2) [OF f(2)])
    moreover have "\<not> quiet w" if "\<not> quiet w1" using that quiet_mono [OF _ f(2)] by blast
    ultimately show ?thesis
      using f by (auto simp: runs_def Pair Inr intro: env_le_trans)
  qed
qed

text \<open>A transaction has the effect of its statements or none, and none whenever it fails.\<close>

lemma with_tx_runs:
  assumes "\<And>v. env_le w v \<Longrightarrow> runs f v (swap v)"
  shows "runs (rolled_back f) w (with_tx SqlDB swap w) \<and>
    (isl (fst (with_tx SqlDB swap w)) \<longrightarrow> store (snd (with_tx SqlDB swap w)) = store w)"
proof (cases "external_check w")
  case (Pair r w1)
  from Pair show ?thesis
  proof (cases rule: external_check_cases)
    case fail
    with Pair show ?thesis by (simp add: with_tx_def runs_def)
  next
    case pass
    obtain r2 w2 where s: "swap w1 = (r2, w2)" by fastforce
    have f: "runs f w1 (r2, w2)" using assms [of w1] s pass by simp
    have w1: "store w1 = store w" "env_le w w1" "\<not> quiet w1 \<Longrightarrow> \<not> quiet w"
      using pass quiet_mono by (auto intro: env_le_tick)
    have w2: "env_le w w2" using f w1(2) by (auto simp: runs_def intro: env_le_trans)
    then have nq: "\<not> quiet w" if "\<not> quiet w2" using that quiet_mono by blast
    show ?thesis
    proof (cases r2)
      case (Inl e)
      with f w1 w2 Pair pass s show ?thesis
        by (auto simp: with_tx_def runs_def rolled_back_def intro: env_le_tickI split: prod.splits)
    next
      case (Inr x)
      obtain r3 w3 where c: "external_check w2 = (r3, w3)" by fastforce
      have fs: "f (store w) = (Inr x, store w2)" using f w1(1) Inr by (auto simp: runs_def)
      from c show ?thesis
        by (rule external_check_cases)
           (use Pair pass s Inr c fs w1 w2 nq in
             \<open>auto simp: with_tx_def runs_def rolled_back_def intro: env_le_tickI\<close>)
    qed
  qed
qed

lemma checked_read_store: "store (snd (checked (\<lambda>s. (f s, s)) v)) = store v"
proof (cases "external_check v")
  case (Pair r v1)
  from Pair show ?thesis
    by (rule external_check_cases) (use Pair in \<open>auto simp: checked_def\<close>)
qed

lemma query_rows_store: "store (snd (query_rows p dec table w)) = store w"
proof -
  obtain a v where c: "checked (\<lambda>s. (scan_rows dec (filter p (table s)), s)) w = (a, v)" by fastforce
  have "store v = store w" using checked_read_store [of "\<lambda>s. scan_rows dec (filter p (table s))" w] by (simp add: c)
  then show ?thesis unfolding query_rows_def c by (cases a) (simp_all add: checked_read_store)
qed

section \<open>Simulation of the in-memory adapter\<close>

definition simulates ::
  "('s \<Rightarrow> 't) \<Rightarrow> ('s \<Rightarrow> bool) \<Rightarrow> 's world \<Rightarrow> 'a res \<times> 's world \<Rightarrow> ('t world \<Rightarrow> 'a res \<times> 't world) \<Rightarrow> bool"
where
  "simulates ab legal w out spec \<longleftrightarrow>
     settled legal w (snd out) \<and>
     ((\<forall>v. quiet v \<longrightarrow> store v = ab (store w) \<longrightarrow>
        fst (spec v) = fst out \<and> store (snd (spec v)) = ab (store (snd out))) \<or>
      (\<exists>e. fst out = Inl e \<and> is_external e) \<and> \<not> quiet w \<and> store (snd out) = store w)"

lemma checked_quiet:
  assumes "quiet v"
  shows "fst (checked g v) = fst (g (store v)) \<and> store (snd (checked g v)) = snd (g (store v))"
proof (cases "external_check v")
  case (Pair r v1)
  from Pair show ?thesis
    by (rule external_check_cases)
       (use assms Pair in \<open>auto simp: checked_def split: prod.splits\<close>)
qed

lemma simulates_runs:
  assumes "runs f w out" and "isl (fst out) \<Longrightarrow> store (snd out) = store w"
    and "legal (store w)" and "legal (snd (f (store w)))"
    and "fst (g (ab (store w))) = fst (f (store w))"
    and "snd (g (ab (store w))) = ab (snd (f (store w)))"
  shows "simulates ab legal w out (checked g)"
  using assms checked_quiet [of _ g]
  by (cases "f (store w)") (auto simp: simulates_def runs_def settled_def)

text \<open>
  An operation that is one driver call mirrors the in-memory one exactly: seen through \<open>ab\<close>, it
  takes the same step at the same point of the environment.
\<close>

definition seen_as :: "('s \<Rightarrow> 't) \<Rightarrow> 's world \<Rightarrow> 't world" where
  "seen_as ab w =
     \<lparr>clk = clk w, rnd = rnd w, fault = fault w, pos = pos w, store = ab (store w)\<rparr>"

definition mirrors ::
  "('s \<Rightarrow> 't) \<Rightarrow> ('s \<Rightarrow> bool) \<Rightarrow> 's world \<Rightarrow> 'a res \<times> 's world \<Rightarrow> ('t world \<Rightarrow> 'a res \<times> 't world) \<Rightarrow> bool"
where
  "mirrors ab legal w out spec \<longleftrightarrow>
     settled legal w (snd out) \<and> spec (seen_as ab w) = (fst out, seen_as ab (snd out))"

lemma seen_as_simps [simp]:
  "store (seen_as ab w) = ab (store w)" "tick (seen_as ab w) = seen_as ab (tick w)"
  "put_store (ab s) (seen_as ab w) = seen_as ab (put_store s w)"
  "quiet (seen_as ab w) = quiet w"
  by (simp_all add: seen_as_def tick_def put_store_def quiet_def)

lemma seen_as_read [simp]:
  "read_clock (seen_as ab w) = (case read_clock w of (t, w') \<Rightarrow> (t, seen_as ab w'))"
  by (simp add: read_clock_def) (simp add: seen_as_def)

lemma seen_as_rand [simp]:
  "rand_read n (seen_as ab w) = (case rand_read n w of (r, w') \<Rightarrow> (r, seen_as ab w'))"
  by (simp add: rand_read_def split: sum.splits) (simp add: seen_as_def)

lemma seen_as_check [simp]:
  "external_check (seen_as ab w) = (case external_check w of (r, w') \<Rightarrow> (r, seen_as ab w'))"
  by (simp add: external_check_def split: option.splits) (simp add: seen_as_def)

lemma mirrors_checked:
  assumes "legal (store w)" and "legal (snd (f (store w)))"
    and "fst (g (ab (store w))) = fst (f (store w))"
    and "snd (g (ab (store w))) = ab (snd (f (store w)))"
  shows "mirrors ab legal w (checked f w) (checked g)"
proof (cases "external_check w")
  case (Pair r w1)
  from assms(3,4) have g: "g (ab (store w)) = (fst (f (store w)), ab (snd (f (store w))))"
    by (simp add: prod_eq_iff)
  from Pair show ?thesis
    by (rule external_check_cases)
       (use assms Pair g in \<open>auto simp: checked_def mirrors_def settled_def split: prod.splits\<close>)
qed

lemma simulates_tx:
  assumes "\<And>v. env_le w v \<Longrightarrow> runs f v (swap v)"
    and "legal (store w)" and "legal (snd (rolled_back f (store w)))"
    and "fst (g (ab (store w))) = fst (rolled_back f (store w))"
    and "snd (g (ab (store w))) = ab (snd (rolled_back f (store w)))"
  shows "simulates ab legal w (with_tx SqlDB swap w) (checked g)"
  using with_tx_runs [of w f swap, OF assms(1)] assms(2-) by (intro simulates_runs) auto

section \<open>Rows under a primary key\<close>

definition rows_ok :: "('r \<Rightarrow> 'k) \<Rightarrow> ('r \<Rightarrow> 'v res) \<Rightarrow> 'r list \<Rightarrow> bool" where
  "rows_ok key dec t \<longleftrightarrow> distinct (map key t) \<and> (\<forall>r \<in> set t. \<not> isl (dec r))"

definition row_map :: "('r \<Rightarrow> 'k) \<Rightarrow> ('r \<Rightarrow> 'v res) \<Rightarrow> 'r list \<Rightarrow> ('k, 'v) gomap" where
  "row_map key dec t = map (\<lambda>r. (key r, projr (dec r))) t"

lemma alist_update_absent: "k \<notin> fst ` set m \<Longrightarrow> AList.update k v m = m @ [(k, v)]"
  by (induction m) auto

lemma alist_update_present:
  "distinct (map fst m) \<Longrightarrow> k \<in> fst ` set m \<Longrightarrow>
   AList.update k v m = map (\<lambda>(j, x). if j = k then (j, v) else (j, x)) m"
proof (induction m)
  case (Cons a m)
  show ?case
  proof (cases "fst a = k")
    case True
    with Cons.prems(1) have "map (\<lambda>(j, x). if j = k then (j, v) else (j, x)) m = m"
      by (intro map_idI) (auto simp: image_iff)
    with True show ?thesis by (cases a) simp
  next
    case False
    with Cons show ?thesis by (cases a) auto
  qed
qed simp

locale row_table =
  fixes key :: "'r \<Rightarrow> 'k" and dec :: "'r \<Rightarrow> 'v res"
begin

lemma empty_ok: "rows_ok key dec []" "row_map key dec [] = []"
  by (simp_all add: rows_ok_def row_map_def)

lemma get: "gomap_get (row_map key dec t) k = map_option (\<lambda>r. projr (dec r)) (select_row (\<lambda>r. key r = k) t)"
  by (induction t) (auto simp: row_map_def gomap_get_def select_row_def)

lemma selected:
  assumes "rows_ok key dec t" and "select_row p t = Some r"
  obtains v where "dec r = Inr v" and "p r" and "r \<in> set t"
proof -
  have "p r" and r: "r \<in> set t" using assms(2) by (auto simp: select_row_def find_Some_iff)
  moreover from r assms(1) have "\<not> isl (dec r)" by (simp add: rows_ok_def)
  ultimately show ?thesis using that by (cases "dec r") auto
qed

lemma select_key_and:
  assumes "rows_ok key dec t"
  shows "select_row (\<lambda>r. key r = k \<and> p r) t =
    (case select_row (\<lambda>r. key r = k) t of Some r \<Rightarrow> if p r then Some r else None | None \<Rightarrow> None)"
proof -
  have "distinct (map key t)" using assms by (simp add: rows_ok_def)
  then show ?thesis
  proof (induction t)
    case (Cons r t)
    have "select_row (\<lambda>r. key r = k \<and> p r) t = None" if "key r = k"
    proof -
      have "\<forall>x \<in> set t. key x \<noteq> k" using Cons.prems that by (auto simp: image_iff)
      then show ?thesis by (auto simp: select_row_def find_None_iff)
    qed
    with Cons show ?case by (auto simp: select_row_def)
  qed (simp add: select_row_def)
qed

lemma fetched_key:
  assumes "rows_ok key dec t"
  shows "fetched dec f (select_row (\<lambda>r. key r = k) t) =
    (case gomap_get (row_map key dec t) k of None \<Rightarrow> Inl ErrNotFound | Some v \<Rightarrow> Inr (f v))"
  using assms
  by (cases "select_row (\<lambda>r. key r = k) t") (auto simp: fetched_def get elim: selected)

lemma map_ok: "rows_ok key dec t \<Longrightarrow> gomap_ok (row_map key dec t)"
  by (simp add: rows_ok_def row_map_def gomap_ok_def comp_def)

lemma one_row: "rows_ok key dec t \<Longrightarrow> x \<in> set t \<Longrightarrow> y \<in> set t \<Longrightarrow> key x = key y \<Longrightarrow> x = y"
  by (auto simp: rows_ok_def distinct_map dest: inj_onD)

text \<open>The entry of the map under the key of a row is what the row decodes to.\<close>

lemma entry:
  assumes "rows_ok key dec t" and "r \<in> set t"
  obtains v where "dec r = Inr v" and "gomap_get (row_map key dec t) (key r) = Some v"
proof -
  obtain v where v: "dec r = Inr v" using assms by (cases "dec r") (auto simp: rows_ok_def)
  have "\<exists>x. select_row (\<lambda>x. key x = key r) t = Some x"
    using assms(2) by (cases "select_row (\<lambda>x. key x = key r) t") (auto simp: select_row_def find_None_iff)
  then obtain x where x: "select_row (\<lambda>x. key x = key r) t = Some x" ..
  then have "x \<in> set t" "key x = key r" by (auto simp: select_row_def find_Some_iff)
  with one_row assms have "x = r" by blast
  with x v have "gomap_get (row_map key dec t) (key r) = Some v" by (simp add: get)
  with v that show ?thesis by blast
qed

lemma in_keys: "k \<in> key ` set t \<longleftrightarrow> gomap_get (row_map key dec t) k \<noteq> None"
  by (auto simp: get select_row_def find_None_iff)

lemma append:
  assumes "rows_ok key dec t" and "dec r = Inr v" and "key r \<notin> key ` set t"
  shows "rows_ok key dec (t @ [r]) \<and> row_map key dec (t @ [r]) = gomap_set (key r) v (row_map key dec t)"
  using assms alist_update_absent [of "key r" "row_map key dec t" v]
  by (auto simp: rows_ok_def row_map_def gomap_set_def image_image)

lemma replace:
  assumes "rows_ok key dec t" and "k \<in> key ` set t"
    and "\<And>x. x \<in> set t \<Longrightarrow> key x = k \<Longrightarrow> key (f x) = k \<and> dec (f x) = Inr v"
  shows "rows_ok key dec (map (\<lambda>x. if key x = k then f x else x) t) \<and>
    row_map key dec (map (\<lambda>x. if key x = k then f x else x) t) = gomap_set k v (row_map key dec t)"
proof
  let ?t = "map (\<lambda>x. if key x = k then f x else x) t"
  have keys: "map key ?t = map key t" using assms(3) by auto
  show "rows_ok key dec ?t" unfolding rows_ok_def keys using assms by (auto simp: rows_ok_def)
  have "AList.update k v (row_map key dec t) =
      map (\<lambda>(j, x). if j = k then (j, v) else (j, x)) (row_map key dec t)"
    using assms(1,2) by (intro alist_update_present) (auto simp: rows_ok_def row_map_def comp_def image_iff)
  then show "row_map key dec ?t = gomap_set k v (row_map key dec t)"
    using assms(3) by (auto simp: gomap_set_def row_map_def)
qed

text \<open>An upsert is an assignment to the map.\<close>

lemma upsert_where:
  assumes "rows_ok key dec t" and "key r = k"
    and "\<And>x. x \<in> set t \<Longrightarrow> key x = k \<Longrightarrow> key (merge x r) = k \<and> dec (merge x r) = Inr v"
    and "k \<notin> key ` set t \<Longrightarrow> dec r = Inr v"
  shows "rows_ok key dec (snd (upsert_where key (\<lambda>x r. True) merge r t)) \<and>
    row_map key dec (snd (upsert_where key (\<lambda>x r. True) merge r t)) = gomap_set k v (row_map key dec t)"
  using replace [of t k "\<lambda>x. merge x r" v] append [of t r v] assms
  by (auto simp: upsert_where_def update_where_def)

lemma upsert:
  assumes "rows_ok key dec t" and "dec r = Inr v"
  shows "rows_ok key dec (snd (upsert key r t)) \<and>
    row_map key dec (snd (upsert key r t)) = gomap_set (key r) v (row_map key dec t)"
  unfolding upsert_def using assms by (intro upsert_where) auto

lemma delete_key:
  assumes "rows_ok key dec t"
  shows "rows_ok key dec (filter (\<lambda>r. key r \<noteq> k) t) \<and>
    row_map key dec (filter (\<lambda>r. key r \<noteq> k) t) = gomap_delete k (row_map key dec t)"
proof -
  have "(\<lambda>x. k \<noteq> key x) = (\<lambda>r. key r \<noteq> k)" by auto
  with assms show ?thesis
    by (auto simp: rows_ok_def row_map_def gomap_delete_def AList.delete_eq filter_map comp_def
        distinct_map_filter)
qed

lemma delete_where:
  assumes "rows_ok key dec t" and "\<And>r v. r \<in> set t \<Longrightarrow> dec r = Inr v \<Longrightarrow> p r \<longleftrightarrow> \<not> q v"
  shows "rows_ok key dec (filter (\<lambda>r. \<not> p r) t) \<and>
    row_map key dec (filter (\<lambda>r. \<not> p r) t) = gomap_keep q (row_map key dec t)"
proof -
  have "(\<not> p r) = q (projr (dec r))" if "r \<in> set t" for r
    using assms that by (cases "dec r") (fastforce simp: rows_ok_def)+
  with assms(1) show ?thesis
    by (auto simp: rows_ok_def row_map_def gomap_keep_def filter_map comp_def distinct_map_filter
        intro!: map_cong filter_cong)
qed

lemma rewrite:
  assumes "rows_ok key dec t"
    and "\<And>r v. r \<in> set t \<Longrightarrow> dec r = Inr v \<Longrightarrow> key (f r) = key r \<and> dec (f r) = Inr (g v)"
  shows "rows_ok key dec (map f t) \<and> row_map key dec (map f t) = gomap_rewrite g (row_map key dec t)"
proof -
  have f: "key (f r) = key r \<and> dec (f r) = Inr (g (projr (dec r)))" if "r \<in> set t" for r
    using assms that by (cases "dec r") (fastforce simp: rows_ok_def)+
  then have keys: "map key (map f t) = map key t" by auto
  have "rows_ok key dec (map f t)" unfolding rows_ok_def keys using f assms(1) by (auto simp: rows_ok_def)
  with f show ?thesis by (auto simp: row_map_def gomap_rewrite_def)
qed

lemma count_key:
  "rows_ok key dec t \<Longrightarrow> length (filter (\<lambda>r. key r = k) t) = 0 \<longleftrightarrow> gomap_get (row_map key dec t) k = None"
  by (auto simp: get select_row_def find_None_iff filter_empty_conv)

text \<open>The operations of a repository, against those of the map.\<close>

lemma find_mirrors:
  assumes "rows_ok key dec (store w)"
  shows "mirrors (row_map key dec) (rows_ok key dec) w
    (checked (\<lambda>t. (fetched dec f (select_row (\<lambda>r. key r = k) t), t)) w)
    (checked (\<lambda>m. (case gomap_get m k of None \<Rightarrow> (Inl ErrNotFound, m) | Some v \<Rightarrow> (Inr (f v), m))))"
  by (rule mirrors_checked) (use assms in \<open>auto simp: fetched_key split: option.splits\<close>)

lemma find_and_mirrors:
  assumes "rows_ok key dec (store w)" and "\<And>r v. dec r = Inr v \<Longrightarrow> p r \<longleftrightarrow> \<not> q v"
  shows "mirrors (row_map key dec) (rows_ok key dec) w
    (checked (\<lambda>t. (fetched dec f (select_row (\<lambda>r. key r = k \<and> p r) t), t)) w)
    (checked (\<lambda>m. (case gomap_get m k of
        None \<Rightarrow> (Inl ErrNotFound, m)
      | Some v \<Rightarrow> if q v then (Inl ErrNotFound, m) else (Inr (f v), m))))"
proof -
  have "fetched dec f (select_row (\<lambda>r. key r = k \<and> p r) (store w)) =
    (case gomap_get (row_map key dec (store w)) k of
       None \<Rightarrow> Inl ErrNotFound | Some v \<Rightarrow> if q v then Inl ErrNotFound else Inr (f v))"
  proof (cases "select_row (\<lambda>r. key r = k) (store w)")
    case None
    then show ?thesis by (simp add: select_key_and [OF assms(1)] get fetched_def)
  next
    case (Some r)
    obtain v where v: "dec r = Inr v" by (rule selected [OF assms(1) Some])
    with Some assms(2) [OF v] show ?thesis
      by (simp add: select_key_and [OF assms(1)] get fetched_def)
  qed
  then show ?thesis by (intro mirrors_checked) (use assms(1) in \<open>auto split: option.splits\<close>)
qed

lemma upsert_mirrors:
  assumes "rows_ok key dec (store w)" and "dec r = Inr v"
  shows "mirrors (row_map key dec) (rows_ok key dec) w
    (checked (\<lambda>t. dropping (upsert key r t)) w) (checked (\<lambda>m. (Inr (), gomap_set (key r) v m)))"
  by (rule mirrors_checked) (use assms upsert [OF assms] in auto)

lemma delete_key_mirrors:
  assumes "rows_ok key dec (store w)"
  shows "mirrors (row_map key dec) (rows_ok key dec) w
    (checked (\<lambda>t. dropping (delete_where (\<lambda>r. key r = k) t)) w) (checked (\<lambda>m. (Inr (), gomap_delete k m)))"
  by (rule mirrors_checked) (use assms delete_key [OF assms] in auto)

lemma delete_where_mirrors:
  assumes "rows_ok key dec (store w)" and "\<And>r v. dec r = Inr v \<Longrightarrow> p r \<longleftrightarrow> \<not> q v"
  shows "mirrors (row_map key dec) (rows_ok key dec) w
    (checked (\<lambda>t. dropping (delete_where p t)) w) (checked (\<lambda>m. (Inr (), gomap_keep q m)))"
  by (rule mirrors_checked) (use assms delete_where [of "store w" p q] in auto)

lemma update_where_mirrors:
  assumes "rows_ok key dec (store w)"
    and "\<And>r v. dec r = Inr v \<Longrightarrow> key (if p r then f r else r) = key r \<and> dec (if p r then f r else r) = Inr (g v)"
  shows "mirrors (row_map key dec) (rows_ok key dec) w
    (checked (\<lambda>t. dropping (update_where p f t)) w) (checked (\<lambda>m. (Inr (), gomap_rewrite g m)))"
  by (rule mirrors_checked)
     (use assms rewrite [of "store w" "\<lambda>r. if p r then f r else r" g] in auto)

text \<open>A conditional update of the row under one key, which reports whether it did anything.\<close>

lemma flip_mirrors:
  assumes "rows_ok key dec (store w)"
    and "\<And>r v. dec r = Inr v \<Longrightarrow> (c r \<longleftrightarrow> \<not> spent v) \<and> key (f r) = key r \<and> dec (f r) = Inr (g v)"
  shows "mirrors (row_map key dec) (rows_ok key dec) w
    (checked (\<lambda>t. looking affected (update_where (\<lambda>r. key r = k \<and> c r) f t)) w)
    (checked (\<lambda>m. (case gomap_get m k of
        None \<Rightarrow> (Inr False, m)
      | Some v \<Rightarrow> if spent v then (Inr False, m) else (Inr True, gomap_set k (g v) m))))"
proof -
  let ?t = "store w" and ?p = "\<lambda>r. key r = k \<and> c r"
  show ?thesis
  proof (cases "\<exists>r \<in> set ?t. ?p r")
    case False
    then have none: "filter ?p ?t = []" "map (\<lambda>r. if ?p r then f r else r) ?t = ?t"
      by (auto simp: filter_empty_conv intro!: map_idI)
    have "spent v" if "gomap_get (row_map key dec ?t) k = Some v" for v
    proof -
      from that obtain r where r: "select_row (\<lambda>r. key r = k) ?t = Some r" and v: "v = projr (dec r)"
        by (auto simp: get)
      from selected [OF assms(1) r] assms(2) v False show ?thesis by fastforce
    qed
    with assms(1) none show ?thesis by (intro mirrors_checked) (auto split: option.splits)
  next
    case True
    then obtain r where r: "r \<in> set ?t" "key r = k" "c r" by blast
    have only: "x = r" if "x \<in> set ?t" "key x = k" for x
      using one_row [OF assms(1) that(1) r(1)] that(2) r(2) by simp
    from entry [OF assms(1) r(1)] r(2) obtain v where v: "dec r = Inr v"
      and get: "gomap_get (row_map key dec ?t) k = Some v" by auto
    have "rows_ok key dec (map (\<lambda>x. if key x = k then f x else x) ?t) \<and>
        row_map key dec (map (\<lambda>x. if key x = k then f x else x) ?t) = gomap_set k (g v) (row_map key dec ?t)"
    proof (rule replace [OF assms(1)])
      show "k \<in> key ` set ?t" using r by auto
      fix x assume "x \<in> set ?t" and x: "key x = k"
      with only have "x = r" by blast
      with assms(2) [OF v] x show "key (f x) = k \<and> dec (f x) = Inr (g v)" by simp
    qed
    moreover have same: "map (\<lambda>r. if ?p r then f r else r) ?t = map (\<lambda>x. if key x = k then f x else x) ?t"
      using only r(3) by auto
    moreover have "length (filter ?p ?t) \<noteq> 0" using r by (auto simp: filter_empty_conv)
    moreover have "\<not> spent v" using assms(2) [OF v] r(3) by simp
    ultimately show ?thesis
      using assms(1) get by (intro mirrors_checked) (auto simp: same)
  qed
qed

text \<open>Deleting and updating exactly one row.\<close>

lemma delete_one_mirrors:
  assumes "rows_ok key dec (store w)"
  shows "mirrors (row_map key dec) (rows_ok key dec) w
    (checked (\<lambda>t. looking requireOneRow (delete_where (\<lambda>r. key r = k) t)) w)
    (checked (\<lambda>m. (case gomap_get m k of None \<Rightarrow> (Inl ErrNotFound, m) | Some _ \<Rightarrow> (Inr (), gomap_delete k m))))"
proof (cases "gomap_get (row_map key dec (store w)) k")
  case None
  then have "filter (\<lambda>r. key r = k) (store w) = []" using count_key [OF assms, of k] by simp
  moreover from this have "filter (\<lambda>r. key r \<noteq> k) (store w) = store w"
    by (auto simp: filter_empty_conv filter_id_conv)
  ultimately show ?thesis using assms None by (intro mirrors_checked) auto
next
  case (Some v)
  then have "length (filter (\<lambda>r. key r = k) (store w)) \<noteq> 0" using count_key [OF assms, of k] by simp
  with Some delete_key [OF assms, of k] assms show ?thesis by (intro mirrors_checked) auto
qed

lemma update_one_mirrors:
  assumes "rows_ok key dec (store w)"
    and "\<And>r v. dec r = Inr v \<Longrightarrow> key (f r) = key r \<and> dec (f r) = Inr (g v)"
  shows "mirrors (row_map key dec) (rows_ok key dec) w
    (checked (\<lambda>t. looking requireOneRow (update_where (\<lambda>r. key r = k) f t)) w)
    (checked (\<lambda>m. (case gomap_get m k of None \<Rightarrow> (Inl ErrNotFound, m) | Some v \<Rightarrow> (Inr (), gomap_set k (g v) m))))"
proof (cases "gomap_get (row_map key dec (store w)) k")
  case None
  then have "filter (\<lambda>r. key r = k) (store w) = []" using count_key [OF assms(1), of k] by simp
  moreover from this have "map (\<lambda>r. if key r = k then f r else r) (store w) = store w"
    by (auto simp: filter_empty_conv intro!: map_idI)
  ultimately show ?thesis using assms(1) None by (intro mirrors_checked) auto
next
  case (Some v)
  then have k: "k \<in> key ` set (store w)" by (simp add: in_keys)
  have d: "dec r = Inr v" if "r \<in> set (store w)" "key r = k" for r
    using entry [OF assms(1) that(1)] that(2) Some by auto
  have "rows_ok key dec (map (\<lambda>r. if key r = k then f r else r) (store w)) \<and>
      row_map key dec (map (\<lambda>r. if key r = k then f r else r) (store w)) = gomap_set k (g v) (row_map key dec (store w))"
    by (rule replace [OF assms(1) k]) (use d assms(2) in fastforce)
  moreover have "length (filter (\<lambda>r. key r = k) (store w)) \<noteq> 0" using count_key [OF assms(1), of k] Some by simp
  ultimately show ?thesis using assms(1) Some by (intro mirrors_checked) auto
qed

text \<open>A listing is two driver calls, which agree with one listing of the map unless one fails.\<close>

lemma query_runs:
  assumes "rows_ok key dec (store w)" and "\<And>r v. dec r = Inr v \<Longrightarrow> p r \<longleftrightarrow> q v"
  shows "runs (\<lambda>t. (Inr (map f (filter q (gomap_values (row_map key dec t)))), t)) w
    (query_rows p (\<lambda>r. map_sum id f (dec r)) id w)"
proof -
  let ?d = "\<lambda>r. map_sum id f (dec r)"
  let ?f = "\<lambda>s. and_then (scan_rows ?d (filter p s), s) (\<lambda>vs s. (Inr vs, s))"
  have run: "runs ?f w (query_rows p ?d id w)"
    unfolding query_rows_def id_apply by (intro runs_and_then runs_checked)
  have dec: "\<exists>x. dec r = Inr x" if "r \<in> set (store w)" for r
    using assms(1) that by (cases "dec r") (auto simp: rows_ok_def)
  then have "\<forall>r \<in> set (filter p (store w)). \<not> isl (?d r)" by fastforce
  then have scan: "scan_rows ?d (filter p (store w)) = Inr (map (projr \<circ> ?d) (filter p (store w)))"
    by (rule scan_rows_Inr)
  have same: "p r \<longleftrightarrow> q (projr (dec r))" "projr (?d r) = f (projr (dec r))" if "r \<in> set (store w)" for r
    using dec [OF that] assms(2) by fastforce+
  have "map (projr \<circ> ?d) (filter p (store w)) = map f (filter q (gomap_values (row_map key dec (store w))))"
    using same by (auto simp: gomap_values_def row_map_def filter_map comp_def intro!: map_cong filter_cong)
  with run show ?thesis by (simp add: runs_def scan)
qed

lemma list_simulates:
  assumes "rows_ok key dec (store w)" and "\<And>r v. dec r = Inr v \<Longrightarrow> p r \<longleftrightarrow> q v"
  shows "simulates (row_map key dec) (rows_ok key dec) w
    (query_rows p (\<lambda>r. map_sum id f (dec r)) id w)
    (checked (\<lambda>m. (Inr (map f (filter q (gomap_values m))), m)))"
  by (intro simulates_runs [OF query_runs [OF assms]]) (simp_all add: assms(1) query_rows_store)

end

text \<open>Tables with a text for their primary key, the only unique column.\<close>

locale text_table = row_table key dec for key :: "'r \<Rightarrow> string" and dec :: "'r \<Rightarrow> 'v res"
begin

lemma insert_mirrors:
  assumes "rows_ok key dec (store w)" and "dec r = Inr v" and "gomap_get (row_map key dec (store w)) (key r) = None"
  shows "mirrors (row_map key dec) (rows_ok key dec) w
    (checked (\<lambda>t. dropping (insert_row err [(column, key)] r t)) w) (checked (\<lambda>m. (Inr (), gomap_set (key r) v m)))"
proof -
  have fresh: "key r \<notin> key ` set (store w)" using assms(3) in_keys by simp
  then have "violated [(column, key)] (store w) r = None" by simp
  then show ?thesis
    by (intro mirrors_checked) (use assms append [OF assms(1,2) fresh] in \<open>auto simp: dropping_insert\<close>)
qed

text \<open>The two swaps, each as one step on the table: delete and insert, and update and insert.\<close>

lemma delete_insert_simulates:
  assumes "\<And>v. runs (\<lambda>t. and_then (looking requireOneRow (delete_where (\<lambda>r. key r = k) t))
      (\<lambda>_ t. dropping (insert_row err [(column, key)] r t))) v (swap v)"
    and "rows_ok key dec (store w)" and "dec r = Inr v"
    and "gomap_get (row_map key dec (store w)) (key r) = None \<or> key r = k"
  shows "simulates (row_map key dec) (rows_ok key dec) w (with_tx SqlDB swap w)
    (checked (\<lambda>m. (case gomap_get m k of
        None \<Rightarrow> (Inl ErrNotFound, m)
      | Some _ \<Rightarrow> (Inr (), gomap_set (key r) v (gomap_delete k m)))))"
proof -
  let ?t = "store w" and ?rest = "filter (\<lambda>r. key r \<noteq> k) (store w)"
  have rest: "rows_ok key dec ?rest" "row_map key dec ?rest = gomap_delete k (row_map key dec ?t)"
    using delete_key [OF assms(2), of k] by simp_all
  have fresh: "key r \<notin> key ` set ?rest"
    using assms(4) unfolding in_keys rest(2) by auto
  have put: "rows_ok key dec (?rest @ [r])"
    "row_map key dec (?rest @ [r]) = gomap_set (key r) v (gomap_delete k (row_map key dec ?t))"
    using append [OF rest(1) assms(3) fresh] rest(2) by simp_all
  have step: "rolled_back (\<lambda>t. and_then (looking requireOneRow (delete_where (\<lambda>r. key r = k) t))
        (\<lambda>_ t. dropping (insert_row err [(column, key)] r t))) ?t =
      (if gomap_get (row_map key dec ?t) k = None then (Inl ErrNotFound, ?t) else (Inr (), ?rest @ [r]))"
  proof (cases "gomap_get (row_map key dec ?t) k = None")
    case True
    with count_key [OF assms(2), of k] show ?thesis by (simp add: rolled_back_def)
  next
    case False
    with count_key [OF assms(2), of k] have "length (filter (\<lambda>r. key r = k) ?t) \<noteq> 0" by simp
    moreover have "violated [(column, key)] ?rest r = None" using fresh by simp
    ultimately show ?thesis using False by (simp add: rolled_back_def dropping_insert)
  qed
  show ?thesis
    by (rule simulates_tx [OF assms(1)])
       (use assms(2) put step in \<open>auto split: option.splits\<close>)
qed

lemma update_insert_simulates:
  assumes "\<And>v. runs (\<lambda>t. and_then (dropping (update_where p f t))
      (\<lambda>_ t. dropping (insert_row err [(column, key)] r t))) v (swap v)"
    and "rows_ok key dec (store w)" and "dec r = Inr v"
    and "gomap_get (row_map key dec (store w)) (key r) = None"
    and "\<And>r v. dec r = Inr v \<Longrightarrow> key (if p r then f r else r) = key r \<and> dec (if p r then f r else r) = Inr (g v)"
  shows "simulates (row_map key dec) (rows_ok key dec) w (with_tx SqlDB swap w)
    (checked (\<lambda>m. (Inr (), gomap_set (key r) v (gomap_rewrite g m))))"
proof -
  let ?t = "store w" and ?new = "map (\<lambda>r. if p r then f r else r) (store w)"
  have new: "rows_ok key dec ?new" "row_map key dec ?new = gomap_rewrite g (row_map key dec ?t)"
    using rewrite [OF assms(2), of "\<lambda>r. if p r then f r else r" g] assms(5) by simp_all
  have fresh: "key r \<notin> key ` set ?new"
    using assms(4) unfolding in_keys new(2) by simp
  then have "violated [(column, key)] ?new r = None" by simp
  then have step: "rolled_back (\<lambda>t. and_then (dropping (update_where p f t))
      (\<lambda>_ t. dropping (insert_row err [(column, key)] r t))) ?t = (Inr (), ?new @ [r])"
    by (simp add: rolled_back_def dropping_insert)
  show ?thesis
    by (rule simulates_tx [OF assms(1)])
       (use assms(2) append [OF new(1) assms(3) fresh] new(2) step in auto)
qed

end

text \<open>Snapshots that carry the primary key.\<close>

locale keyed_rows = text_table key dec for key :: "'r \<Rightarrow> string" and dec :: "'r \<Rightarrow> 'v res" +
  fixes vkey :: "'v \<Rightarrow> string"
  assumes dec_key: "dec r = Inr v \<Longrightarrow> vkey v = key r"
begin

lemma keyed:
  assumes "rows_ok key dec t" and "gomap_get (row_map key dec t) k = Some v"
  shows "vkey v = k"
proof -
  from assms(2) obtain r where "select_row (\<lambda>r. key r = k) t = Some r" and v: "v = projr (dec r)"
    by (auto simp: get)
  from selected [OF assms(1) this(1)] dec_key v show ?thesis by fastforce
qed

end

end
