(* ===== verification/SqlSessions.thy ===== *)
theory SqlSessions
  imports SqlTables Session
begin

text \<open>
  The session service over a repository that mirrors another one. \<open>mirrored_sessions\<close> is the
  interface: the operations of \<open>P\<close>, seen through \<open>ab\<close>, take the steps of \<open>Q\<close>, for the instants
  that \<open>fits\<close> accepts. Then so do the calls of the service (rotation apart, which is more than one
  driver call): whatever holds of the service over \<open>Q\<close> holds over \<open>P\<close>.
\<close>

definition clock_fits :: "(time \<Rightarrow> bool) \<Rightarrow> duration \<Rightarrow> 'a env_scheme \<Rightarrow> bool" where
  "clock_fits fits ttl w \<longleftrightarrow> (\<forall>n \<ge> pos w. fits (clk w n) \<and> fits (clk w n + ttl))"

lemma mirrorsE:
  assumes "mirrors ab legal w (r, w') spec"
  obtains "spec (seen_as ab w) = (r, seen_as ab w')" and "env_le w w'" and "legal (store w')"
  using assms by (auto simp: mirrors_def settled_def)

locale mirrored_sessions =
  fixes P :: "('s world) SessionRepository" and Q :: "('t world) SessionRepository"
    and ab :: "'s \<Rightarrow> 't" and legal :: "'s \<Rightarrow> bool" and fits :: "time \<Rightarrow> bool"
  assumes save: "legal (store w) \<Longrightarrow> fits (Session_createdAt s) \<Longrightarrow> fits (Session_expiresAt s) \<Longrightarrow>
      mirrors ab legal w (SessionRepository_Save P s w) (SessionRepository_Save Q s)"
    and find_by_token: "legal (store w) \<Longrightarrow>
      mirrors ab legal w (SessionRepository_FindByToken P tok w) (SessionRepository_FindByToken Q tok)"
    and delete: "legal (store w) \<Longrightarrow>
      mirrors ab legal w (SessionRepository_Delete P tok w) (SessionRepository_Delete Q tok)"
    and delete_by_user: "legal (store w) \<Longrightarrow>
      mirrors ab legal w (SessionRepository_DeleteByUser P u w) (SessionRepository_DeleteByUser Q u)"
begin

lemma revoke:
  "legal (store w) \<Longrightarrow>
   mirrors ab legal w (SessionService_Revoke (NewSessionService P ttl) tok w)
     (SessionService_Revoke (NewSessionService Q ttl) tok)"
  using delete [of w "sessionKey tok"]
  by (simp add: SessionService_Revoke_def NewSessionService_def mirrors_def settled_def)

lemma revoke_all:
  "legal (store w) \<Longrightarrow>
   mirrors ab legal w (SessionService_RevokeAll (NewSessionService P ttl) u w)
     (SessionService_RevokeAll (NewSessionService Q ttl) u)"
  using delete_by_user [of w u]
  by (simp add: SessionService_RevokeAll_def NewSessionService_def mirrors_def settled_def)

lemma validate:
  assumes "legal (store w)"
  shows "mirrors ab legal w (SessionService_Validate (NewSessionService P ttl) tok w)
    (SessionService_Validate (NewSessionService Q ttl) tok)"
proof (cases "Token_String tok = []")
  case True
  with assms show ?thesis by (simp add: SessionService_Validate_def mirrors_def settled_def)
next
  case False
  obtain r w1 where f: "SessionRepository_FindByToken P (sessionKey tok) w = (r, w1)" by fastforce
  from find_by_token [OF assms, of "sessionKey tok"] f
  have q: "SessionRepository_FindByToken Q (sessionKey tok) (seen_as ab w) = (r, seen_as ab w1)"
    and w1: "env_le w w1" "legal (store w1)" by (auto elim: mirrorsE)
  obtain now w2 where c: "read_clock w1 = (now, w2)" by fastforce
  then have w2: "env_le w w2" "legal (store w2)"
    using w1 read_clock_later [OF c] read_clock_store [OF c] by (auto intro: env_le_trans)
  obtain d w3 where d: "SessionRepository_Delete P (sessionKey tok) w2 = (d, w3)" by fastforce
  from delete [OF w2(2), of "sessionKey tok"] d
  have dq: "SessionRepository_Delete Q (sessionKey tok) (seen_as ab w2) = (d, seen_as ab w3)"
    and w3: "env_le w w3" "legal (store w3)" using w2 by (auto elim!: mirrorsE intro: env_le_trans)
  show ?thesis
    using False w1 w2 w3
    by (cases r) (simp_all add: SessionService_Validate_def NewSessionService_def mirrors_def
        settled_def f q c d dq)
qed

lemma issue:
  assumes "legal (store w)" and "clock_fits fits ttl w"
  shows "mirrors ab legal w (SessionService_Issue (NewSessionService P ttl) u t w)
    (SessionService_Issue (NewSessionService Q ttl) u t)"
proof (cases "UserID_IsZero u \<or> TenantID_IsZero t")
  case True
  with assms(1) show ?thesis
    by (auto simp: SessionService_Issue_def SessionService_newSession_def mirrors_def settled_def)
next
  case False
  obtain r w1 where b: "rand_read tokenBytes w = (r, w1)" by fastforce
  have w1: "env_le w w1" "store w1 = store w"
    using b by (auto elim!: rand_read_cases)
  show ?thesis
  proof (cases r)
    case (Inl e)
    with False b w1 assms(1) show ?thesis
      by (simp add: SessionService_Issue_def SessionService_newSession_def NewToken_def mirrors_def
          settled_def)
  next
    case (Inr bytes)
    obtain now w2 where c: "read_clock w1 = (now, w2)" by fastforce
    have w2: "env_le w w2" "store w2 = store w"
      using w1 read_clock_later [OF c] read_clock_store [OF c] by (auto intro: env_le_trans)
    let ?tok = "Token (base64_encode True bytes)"
    let ?s = "\<lparr>Session_token = ?tok, Session_tokenHash = HashToken ?tok, Session_userID = u,
        Session_tenantID = t, Session_createdAt = now, Session_expiresAt = now + ttl\<rparr>"
    have now: "now = clk w (pos w1)" "pos w \<le> pos w1"
      using read_clock_later [OF c] w1(1) by (auto simp: env_le_def)
    then have fit: "fits (Session_createdAt ?s)" "fits (Session_expiresAt ?s)"
      using assms(2) by (auto simp: clock_fits_def)
    obtain x w3 where s: "SessionRepository_Save P ?s w2 = (x, w3)" by fastforce
    from save [of w2 ?s, OF _ fit] s assms(1) w2
    have sq: "SessionRepository_Save Q ?s (seen_as ab w2) = (x, seen_as ab w3)"
      and w3: "env_le w w3" "legal (store w3)" by (auto elim!: mirrorsE intro: env_le_trans)
    show ?thesis
      using False w3
      by (cases x) (simp_all add: SessionService_Issue_def SessionService_newSession_def NewToken_def
          NewSessionService_def mirrors_def settled_def b Inr c s sq)
  qed
qed

end

end
