(* ===== verification/GoTime.thy ===== *)
theory GoTime
  imports GoStrings
begin

text \<open>
  The part of Go's \<open>time\<close> that the SQLite adapter stores instants with: formatting and parsing
  RFC 3339 in UTC with trimmed nanoseconds (\<open>encodeTime\<close> and \<open>decodeTime\<close> of
  \<open>src/adapters/sqlite/db.go\<close>). Instants are nanoseconds from 1 January of year 1. The lemmas show
  that every instant from year 1 to 9999 survives, and that the stored texts are not ordered
  like the instants within one second.
\<close>

section \<open>The civil calendar\<close>

definition days_before_year :: "int \<Rightarrow> int" where
  "days_before_year y = 365 * (y - 1) + (y - 1) div 4 - (y - 1) div 100 + (y - 1) div 400"

definition leap_year :: "int \<Rightarrow> bool" where
  "leap_year y \<longleftrightarrow> y mod 4 = 0 \<and> (y mod 100 \<noteq> 0 \<or> y mod 400 = 0)"

definition month_lengths :: "int \<Rightarrow> int list" where
  "month_lengths y =
     [31, if leap_year y then 29 else 28, 31, 30, 31, 30, 31, 31, 30, 31, 30, 31]"

text \<open>The year a day lies in: an estimate by the mean length of a year, put right by one.\<close>

definition year_of_day :: "int \<Rightarrow> int" where
  "year_of_day d =
     (let e = 400 * d div 146097 + 1 in
      if d < days_before_year e then e - 1
      else if days_before_year (e + 1) \<le> d then e + 1 else e)"

text \<open>The month (from 1) and the day of the month (from 1) of a day of the year (from 0).\<close>

fun month_day :: "int list \<Rightarrow> int \<Rightarrow> int \<Rightarrow> int \<times> int" where
  "month_day [] m d = (m, d + 1)"
| "month_day (l # ls) m d = (if d < l then (m, d + 1) else month_day ls (m + 1) (d - l))"

lemma div_next:
  fixes x k :: int
  assumes "0 < k"
  shows "(x + 1) div k = x div k + (if (x + 1) mod k = 0 then 1 else 0)"
proof -
  define q r where "q = x div k" and "r = x mod k"
  have x: "x = k * q + r" "0 \<le> r" "r < k" using assms by (simp_all add: q_def r_def)
  show ?thesis
  proof (cases "r + 1 = k")
    case True
    then have "x + 1 = k * (q + 1)" using x(1) by (simp add: algebra_simps)
    then show ?thesis using assms by (simp add: q_def)
  next
    case False
    have e: "x + 1 = k * q + (r + 1)" using x(1) by simp
    have "(x + 1) div k = q" by (rule int_div_pos_eq [OF e]) (use x False in auto)
    moreover have "(x + 1) mod k = r + 1" by (rule int_mod_pos_eq [OF e]) (use x False in auto)
    ultimately show ?thesis using x(2) by (simp add: q_def)
  qed
qed

lemma regroup:
  fixes a y p q r u v w :: int
  shows "a = 365 * y + (p + u) - (q + v) + (r + w) \<Longrightarrow>
    a = 365 * (y - 1) + p - q + r + 365 + u - v + w"
  by simp

lemma year_length:
  "days_before_year (y + 1) = days_before_year y + (if leap_year y then 366 else 365)"
proof -
  define f where "f = (\<lambda>k :: int. if k dvd y then 1 else 0 :: int)"
  have s: "y div k = (y - 1) div k + f k" if "0 < k" for k :: int
    using div_next [OF that, of "y - 1"] by (simp add: dvd_eq_mod_eq_0 f_def)
  have i: "400 dvd y \<Longrightarrow> 100 dvd y" "100 dvd y \<Longrightarrow> 4 dvd y"
    by (rule dvd_trans [of 100 400], simp, assumption, rule dvd_trans [of 4 100], simp, assumption)
  have leap: "leap_year y \<longleftrightarrow> 4 dvd y \<and> (\<not> 100 dvd y \<or> 400 dvd y)"
    by (simp add: leap_year_def dvd_eq_mod_eq_0)
  have "days_before_year (y + 1) = 365 * y + y div 4 - y div 100 + y div 400"
    by (simp add: days_before_year_def)
  then have "days_before_year (y + 1) = days_before_year y + 365 + f 4 - f 100 + f 400"
    unfolding days_before_year_def [of y] s [of 4, OF zero_less_numeral]
      s [of 100, OF zero_less_numeral] s [of 400, OF zero_less_numeral]
    by (rule regroup)
  then show ?thesis
    using i unfolding leap
    by (cases "4 dvd y"; cases "100 dvd y"; cases "400 dvd y"; simp add: f_def)
qed

lemma year_of_day:
  "days_before_year (year_of_day d) \<le> d" "d < days_before_year (year_of_day d + 1)"
proof -
  define e where "e = 400 * d div 146097 + 1"
  have d: "146097 * (e - 1) \<le> 400 * d" "400 * d < 146097 * e" by (simp_all add: e_def)
  have "400 * days_before_year y \<le> 146097 * (y - 1) + 1000"
    "146097 * (y - 1) - 1000 \<le> 400 * days_before_year y" for y
  proof -
    have q: "k * ((y - 1) div k) \<le> y - 1" "y - 1 < k * ((y - 1) div k) + k" if "0 < k" for k :: int
      using that pos_mod_sign [OF that, of "y - 1"] pos_mod_bound [OF that, of "y - 1"]
      by (simp_all add: minus_mod_eq_mult_div [symmetric] algebra_simps)
    show "400 * days_before_year y \<le> 146097 * (y - 1) + 1000"
      "146097 * (y - 1) - 1000 \<le> 400 * days_before_year y"
      unfolding days_before_year_def using q [of 4] q [of 100] q [of 400] by simp_all
  qed
  from this [of "e - 1"] this [of "e"] this [of "e + 1"] this [of "e + 2"]
  have "400 * days_before_year (e - 1) \<le> 146097 * (e - 2) + 1000"
    "146097 * (e + 1) - 1000 \<le> 400 * days_before_year (e + 2)" by simp_all
  moreover have "year_of_day d = (if d < days_before_year e then e - 1
      else if days_before_year (e + 1) \<le> d then e + 1 else e)"
    by (simp only: year_of_day_def e_def Let_def)
  moreover have "e - 1 + 1 = e" "e + 1 + 1 = e + 2" by simp_all
  ultimately show "days_before_year (year_of_day d) \<le> d" "d < days_before_year (year_of_day d + 1)"
    using d by (simp_all add: add.commute split: if_splits)
qed

lemma days_before_year_mono: "a \<le> b \<Longrightarrow> days_before_year a \<le> days_before_year b"
proof (induction "nat (b - a)" arbitrary: b)
  case (Suc n)
  then have "days_before_year a \<le> days_before_year (b - 1)" by auto
  also have "\<dots> \<le> days_before_year b" using year_length [of "b - 1"] by (simp split: if_splits)
  finally show ?case .
qed simp

lemma year_range:
  assumes "0 \<le> d" and "d < 3652059"
  shows "1 \<le> year_of_day d" "year_of_day d \<le> 9999"
proof -
  have e: "days_before_year 1 = 0" "days_before_year 10000 = 3652059"
    by (simp_all add: days_before_year_def)
  show "1 \<le> year_of_day d"
    using year_of_day(2) [of d] days_before_year_mono [of "year_of_day d + 1" 1] assms(1) e by force
  show "year_of_day d \<le> 9999"
    using year_of_day(1) [of d] days_before_year_mono [of 10000 "year_of_day d"] assms(2) e by force
qed

lemma month_day_range:
  assumes "0 \<le> d" and "d < sum_list ls" and "month_day ls m d = (m', day)"
  shows "\<exists>k < length ls. m' = m + int k \<and> 1 \<le> day \<and> day \<le> ls ! k \<and> d = sum_list (take k ls) + day - 1"
  using assms
proof (induction ls m d rule: month_day.induct)
  case (2 l ls m d)
  show ?case
  proof (cases "d < l")
    case True
    with 2 show ?thesis by (intro exI [of _ 0]) auto
  next
    case False
    with 2 obtain k where "k < length ls" "m' = m + 1 + int k" "1 \<le> day" "day \<le> ls ! k"
      "d - l = sum_list (take k ls) + day - 1" by auto
    then show ?thesis by (intro exI [of _ "Suc k"]) auto
  qed
qed simp

section \<open>Formatting\<close>

definition padded_int :: "nat \<Rightarrow> int \<Rightarrow> string" where
  "padded_int k n = (if n < 0 then CHR ''-'' # zero_padded k (nat (- n)) else zero_padded k (nat n))"

definition trim_zeros :: "string \<Rightarrow> string" where
  "trim_zeros s = rev (dropWhile (\<lambda>c. c = CHR ''0'') (rev s))"

definition format_fraction :: "nat \<Rightarrow> string" where
  "format_fraction ns = (if ns = 0 then [] else CHR ''.'' # trim_zeros (zero_padded 9 ns))"

definition format_date :: "int \<Rightarrow> string" where
  "format_date d =
     (let y = year_of_day d; (m, day) = month_day (month_lengths y) 1 (d - days_before_year y)
      in padded_int 4 y @ ''-'' @ zero_padded 2 (nat m) @ ''-'' @ zero_padded 2 (nat day))"

definition format_clock :: "int \<Rightarrow> string" where
  "format_clock s =
     zero_padded 2 (nat (s div 3600)) @ '':'' @ zero_padded 2 (nat (s div 60 mod 60)) @ '':'' @
     zero_padded 2 (nat (s mod 60))"

definition encodeTime :: "time \<Rightarrow> string" where
  "encodeTime t =
     (let s = t div second in
      format_date (s div 86400) @ ''T'' @ format_clock (s mod 86400) @
      format_fraction (nat (t mod second)) @ ''Z'')"

section \<open>Parsing\<close>

text \<open>
  \<open>parse_rfc3339\<close> is the strict parser Go tries first. What it refuses goes to the general layout
  parser, which is more lenient; that parser is the parameter \<open>lenient\<close>.
\<close>

definition slice :: "string \<Rightarrow> nat \<Rightarrow> nat \<Rightarrow> string" where
  "slice s i j = take (j - i) (drop i s)"

definition parse_uint :: "string \<Rightarrow> nat \<Rightarrow> nat \<Rightarrow> nat option" where
  "parse_uint s lo hi =
     (if list_all is_digit s \<and> lo \<le> number_of s \<and> number_of s \<le> hi then Some (number_of s) else None)"

definition parse_nanos :: "string \<Rightarrow> nat" where
  "parse_nanos ds = (let ds = take 9 ds in number_of ds * 10 ^ (9 - length ds))"

text \<open>The fraction, if there is one, and the rest.\<close>

definition parse_fraction :: "string \<Rightarrow> nat \<times> string" where
  "parse_fraction s =
     (if 2 \<le> length s \<and> s ! 0 = CHR ''.'' \<and> is_digit (s ! 1)
      then (parse_nanos (takeWhile is_digit (tl s)), dropWhile is_digit (tl s)) else (0, s))"

text \<open>The offset of the zone in seconds.\<close>

definition parse_zone :: "string \<Rightarrow> int option" where
  "parse_zone s =
     (if s = ''Z'' then Some 0
      else if length s \<noteq> 6 then None
      else case parse_uint (slice s 1 3) 0 23 of
        None \<Rightarrow> None
      | Some hr \<Rightarrow>
          (case parse_uint (slice s 4 6) 0 59 of
             None \<Rightarrow> None
           | Some mm \<Rightarrow>
               if (s ! 0 = CHR ''-'' \<or> s ! 0 = CHR ''+'') \<and> s ! 3 = CHR '':''
               then Some (if s ! 0 = CHR ''-'' then - (int (hr * 60 + mm) * 60)
                          else int (hr * 60 + mm) * 60)
               else None))"

definition parse_date :: "string \<Rightarrow> int option" where
  "parse_date s =
     (case parse_uint (slice s 0 4) 0 9999 of
        None \<Rightarrow> None
      | Some y \<Rightarrow>
          (case parse_uint (slice s 5 7) 1 12 of
             None \<Rightarrow> None
           | Some m \<Rightarrow>
               (case parse_uint (slice s 8 10) 1 (nat (month_lengths (int y) ! (m - 1))) of
                  None \<Rightarrow> None
                | Some day \<Rightarrow>
                    Some (days_before_year (int y) + sum_list (take (m - 1) (month_lengths (int y))) +
                          int day - 1))))"

definition parse_clock :: "string \<Rightarrow> int option" where
  "parse_clock s =
     (case parse_uint (slice s 11 13) 0 23 of
        None \<Rightarrow> None
      | Some h \<Rightarrow>
          (case parse_uint (slice s 14 16) 0 59 of
             None \<Rightarrow> None
           | Some mi \<Rightarrow>
               (case parse_uint (slice s 17 19) 0 59 of
                  None \<Rightarrow> None
                | Some se \<Rightarrow> Some (int (h * 3600 + mi * 60 + se)))))"

definition parse_rfc3339 :: "string \<Rightarrow> time option" where
  "parse_rfc3339 s =
     (if length s < 19 then None
      else case parse_date s of
        None \<Rightarrow> None
      | Some d \<Rightarrow>
          (case parse_clock s of
             None \<Rightarrow> None
           | Some c \<Rightarrow>
               if s ! 4 = CHR ''-'' \<and> s ! 7 = CHR ''-'' \<and> s ! 10 = CHR ''T'' \<and> s ! 13 = CHR '':'' \<and>
                  s ! 16 = CHR '':''
               then (case parse_fraction (drop 19 s) of
                       (ns, rest) \<Rightarrow>
                         (case parse_zone rest of
                            None \<Rightarrow> None
                          | Some offset \<Rightarrow> Some ((d * 86400 + c - offset) * second + int ns)))
               else None))"

definition decodeTime :: "(string \<Rightarrow> time option) \<Rightarrow> string \<Rightarrow> time res" where
  "decodeTime lenient s =
     (case parse_rfc3339 s of
        Some t \<Rightarrow> Inr t
      | None \<Rightarrow>
          (case lenient s of
             Some t \<Rightarrow> Inr t
           | None \<Rightarrow> Inl (ErrExternal ''sqlite: parse timestamp'')))"

section \<open>What is stored is read back\<close>

lemma parse_uint_padded:
  "lo \<le> v \<Longrightarrow> v \<le> hi \<Longrightarrow> parse_uint (zero_padded k v) lo hi = Some v"
  using zero_padded_digits by (auto simp: parse_uint_def list_all_iff)

lemma two_digits:
  assumes "v < 100" obtains a b where "zero_padded 2 v = [a, b]"
proof -
  have "length (zero_padded 2 v) = 2" using assms by (intro length_zero_padded) simp_all
  then show ?thesis using that by (auto simp: numeral_2_eq_2 length_Suc_conv)
qed

lemma four_digits:
  assumes "v < 10000" obtains a b c d where "zero_padded 4 v = [a, b, c, d]"
proof -
  have "length (zero_padded 4 v) = 4" using assms by (intro length_zero_padded) simp_all
  then show ?thesis using that by (auto simp: numeral_eq_Suc length_Suc_conv)
qed

lemma month_lengths_bounds: "k < 12 \<Longrightarrow> 28 \<le> month_lengths y ! k \<and> month_lengths y ! k \<le> 31"
proof -
  assume "k < 12"
  then have "k < length (month_lengths y)" by (simp add: month_lengths_def)
  then have "month_lengths y ! k \<in> set (month_lengths y)" by (rule nth_mem)
  then show ?thesis by (auto simp: month_lengths_def split: if_splits)
qed

lemma sum_month_lengths: "sum_list (month_lengths y) = (if leap_year y then 366 else 365)"
  by (simp add: month_lengths_def)

lemma parse_date_format:
  assumes "0 \<le> d" and "d < 3652059"
  shows "parse_date (format_date d @ rest) = Some d \<and> length (format_date d) = 10 \<and>
    (format_date d) ! 4 = CHR ''-'' \<and> (format_date d) ! 7 = CHR ''-''"
proof -
  define y where "y = year_of_day d"
  have y: "1 \<le> y" "y \<le> 9999" using year_range [OF assms] by (simp_all add: y_def)
  obtain m day where md: "month_day (month_lengths y) 1 (d - days_before_year y) = (m, day)" by fastforce
  have "0 \<le> d - days_before_year y" "d - days_before_year y < sum_list (month_lengths y)"
    using year_of_day [of d] year_length [of y] by (simp_all add: y_def sum_month_lengths)
  from month_day_range [OF this md] obtain k where k: "k < 12" "m = 1 + int k" "1 \<le> day"
      "day \<le> month_lengths y ! k" "d - days_before_year y = sum_list (take k (month_lengths y)) + day - 1"
    by (auto simp: month_lengths_def)
  have day: "day \<le> 31" using k(4) month_lengths_bounds [OF k(1), of y] by simp
  have f: "format_date d = zero_padded 4 (nat y) @ ''-'' @ zero_padded 2 (nat m) @ ''-'' @ zero_padded 2 (nat day)"
    using y md by (simp add: format_date_def y_def [symmetric] padded_int_def)
  obtain y1 y2 y3 y4 where Y: "zero_padded 4 (nat y) = [y1, y2, y3, y4]"
    using y by (rule_tac four_digits [of "nat y"]) auto
  obtain m1 m2 where M: "zero_padded 2 (nat m) = [m1, m2]"
    using k by (rule_tac two_digits [of "nat m"]) auto
  obtain d1 d2 where D: "zero_padded 2 (nat day) = [d1, d2]"
    using day k(3) by (rule_tac two_digits [of "nat day"]) auto
  have slices: "slice (format_date d @ rest) 0 4 = zero_padded 4 (nat y)"
    "slice (format_date d @ rest) 5 7 = zero_padded 2 (nat m)"
    "slice (format_date d @ rest) 8 10 = zero_padded 2 (nat day)"
    by (simp_all add: f Y M D slice_def)
  have p: "parse_uint (zero_padded 4 (nat y)) 0 9999 = Some (nat y)"
    "parse_uint (zero_padded 2 (nat m)) 1 12 = Some (nat m)"
    "parse_uint (zero_padded 2 (nat day)) 1 (nat (month_lengths y ! (nat m - 1))) = Some (nat day)"
  proof -
    have "nat m = Suc k" using k(2) by simp
    then show "parse_uint (zero_padded 4 (nat y)) 0 9999 = Some (nat y)"
      "parse_uint (zero_padded 2 (nat m)) 1 12 = Some (nat m)"
      "parse_uint (zero_padded 2 (nat day)) 1 (nat (month_lengths y ! (nat m - 1))) = Some (nat day)"
      using y k by (auto intro!: parse_uint_padded)
  qed
  have "parse_date (format_date d @ rest) = Some d"
  proof -
    have "nat m = Suc k" using k(2) by simp
    moreover have "d = days_before_year y + sum_list (take k (month_lengths y)) + day - 1" using k(5) by simp
    ultimately show ?thesis
      unfolding parse_date_def slices p option.case using y k p by simp
  qed
  then show ?thesis by (simp add: f Y M D)
qed

lemma parse_clock_format:
  assumes "0 \<le> c" and "c < 86400" and "length a = 11"
  shows "parse_clock (a @ format_clock c @ rest) = Some c \<and> length (format_clock c) = 8 \<and>
    format_clock c ! 2 = CHR '':'' \<and> format_clock c ! 5 = CHR '':''"
proof -
  define h mi se where "h = nat (c div 3600)" and "mi = nat (c div 60 mod 60)" and "se = nat (c mod 60)"
  have lt: "h \<le> 23" "mi \<le> 59" "se \<le> 59"
    using assms by (auto simp: h_def mi_def se_def nat_le_iff)
  have c: "c = int (h * 3600 + mi * 60 + se)"
  proof -
    have "c = c div 60 * 60 + c mod 60" "c div 60 = c div 60 div 60 * 60 + c div 60 mod 60"
      by (rule div_mult_mod_eq [symmetric])+
    moreover have "c div 60 div 60 = c div 3600" using zdiv_zmult2_eq [of 60 c 60] by simp
    moreover have "int h = c div 3600" "int mi = c div 60 mod 60" "int se = c mod 60"
      using assms(1) by (simp_all add: h_def mi_def se_def pos_imp_zdiv_nonneg_iff)
    ultimately have "c = int h * 3600 + int mi * 60 + int se" by linarith
    then show ?thesis by simp
  qed
  obtain h1 h2 where H: "zero_padded 2 h = [h1, h2]" using lt by (rule_tac two_digits [of h]) auto
  obtain i1 i2 where I: "zero_padded 2 mi = [i1, i2]" using lt by (rule_tac two_digits [of mi]) auto
  obtain s1 s2 where S: "zero_padded 2 se = [s1, s2]" using lt by (rule_tac two_digits [of se]) auto
  have f: "format_clock c = [h1, h2, CHR '':'', i1, i2, CHR '':'', s1, s2]"
    using H I S by (simp add: format_clock_def h_def mi_def se_def)
  have slices: "slice (a @ format_clock c @ rest) 11 13 = zero_padded 2 h"
    "slice (a @ format_clock c @ rest) 14 16 = zero_padded 2 mi"
    "slice (a @ format_clock c @ rest) 17 19 = zero_padded 2 se"
    by (simp_all add: f H I S slice_def assms(3))
  have p: "parse_uint (zero_padded 2 h) 0 23 = Some h" "parse_uint (zero_padded 2 mi) 0 59 = Some mi"
    "parse_uint (zero_padded 2 se) 0 59 = Some se"
    using lt by (auto intro!: parse_uint_padded)
  have "parse_clock (a @ format_clock c @ rest) = Some c"
    unfolding parse_clock_def slices p option.case using c by simp
  then show ?thesis by (simp add: f)
qed

lemma trim_zeros_split: "\<exists>j. s = trim_zeros s @ replicate j (CHR ''0'')"
proof -
  define z where "z = takeWhile (\<lambda>c. c = CHR ''0'') (rev s)"
  have z: "z = replicate (length z) (CHR ''0'')"
    by (rule replicate_length_same [symmetric]) (auto simp: z_def dest: set_takeWhileD)
  have "rev s = z @ dropWhile (\<lambda>c. c = CHR ''0'') (rev s)" by (simp add: z_def)
  then have "s = rev (dropWhile (\<lambda>c. c = CHR ''0'') (rev s)) @ rev z"
    by (metis rev_append rev_rev_ident)
  moreover have "rev z = replicate (length z) (CHR ''0'')" by (subst z) simp
  ultimately show ?thesis unfolding trim_zeros_def by metis
qed

lemma number_of_append_zeros: "number_of (s @ replicate j (CHR ''0'')) = number_of s * 10 ^ j"
proof (induction j)
  case (Suc j)
  have "s @ replicate (Suc j) (CHR ''0'') = (s @ replicate j (CHR ''0'')) @ [CHR ''0'']"
    by (simp add: replicate_append_same)
  then have "number_of (s @ replicate (Suc j) (CHR ''0'')) = 10 * number_of (s @ replicate j (CHR ''0''))"
    by (simp only: number_of_snoc) (simp add: digit_value_def byte_def)
  with Suc show ?case by simp
qed simp

lemma parse_fraction_format:
  assumes "ns < 10 ^ 9"
  shows "parse_fraction (format_fraction ns @ ''Z'') = (ns, ''Z'')"
proof (cases "ns = 0")
  case True
  then show ?thesis by (simp add: format_fraction_def parse_fraction_def)
next
  case False
  let ?z = "zero_padded 9 ns" and ?t = "trim_zeros (zero_padded 9 ns)"
  have z: "length ?z = 9" by (rule length_zero_padded [OF assms]) simp
  obtain j where j: "?z = ?t @ replicate j (CHR ''0'')" using trim_zeros_split by blast
  have len: "length ?t + j = 9" using z by (subst (asm) j) simp
  have num: "number_of ?t * 10 ^ j = ns"
    using number_of_append_zeros [of ?t j] j by (metis number_of_zero_padded)
  have digits: "list_all is_digit ?t"
    unfolding list_all_iff
  proof
    fix c assume "c \<in> set ?t"
    then have "c \<in> set ?z" by (subst j) simp
    then show "is_digit c" by (rule zero_padded_digits)
  qed
  obtain c cs where t: "?t = c # cs"
    using num False by (cases ?t) (auto simp: number_of_def)
  have nz: "\<not> is_digit (CHR ''Z'')" by (simp add: is_digit_def byte_def)
  have mem: "is_digit x" if "x \<in> set ?t" for x using digits that by (simp only: list_all_iff)
  have "takeWhile is_digit (?t @ ''Z'') = ?t @ takeWhile is_digit ''Z''"
    by (rule takeWhile_append2) (rule mem)
  moreover have "dropWhile is_digit (?t @ ''Z'') = dropWhile is_digit ''Z''"
    by (rule dropWhile_append2) (rule mem)
  moreover have "takeWhile is_digit ''Z'' = []" "dropWhile is_digit ''Z'' = ''Z''" using nz by simp_all
  moreover have "parse_nanos ?t = ns"
  proof -
    have "9 - length ?t = j" "take 9 ?t = ?t" using len by simp_all
    then show ?thesis by (simp only: parse_nanos_def Let_def num)
  qed
  moreover have "is_digit c" using mem [of c] by (simp add: t)
  moreover have "format_fraction ns = CHR ''.'' # ?t" using False by (simp add: format_fraction_def)
  ultimately show ?thesis by (simp add: parse_fraction_def t)
qed

text \<open>The instants whose year has four digits.\<close>

definition storable_time :: "time \<Rightarrow> bool" where
  "storable_time t \<longleftrightarrow> 0 \<le> t \<and> t < 3652059 * 86400 * second"

lemma parse_encodeTime:
  assumes "storable_time t"
  shows "parse_rfc3339 (encodeTime t) = Some t"
proof -
  define s d c ns where "s = t div second" and "d = s div 86400" and "c = s mod 86400"
    and "ns = nat (t mod second)"
  have t: "0 \<le> t" "t < 3652059 * 86400 * second" using assms by (simp_all add: storable_time_def)
  have "0 \<le> s" using t by (simp add: s_def second_def pos_imp_zdiv_nonneg_iff)
  have "s < 3652059 * 86400" using t(2) by (simp add: s_def second_def div_less_iff_less_mult)
  then have d: "0 \<le> d" "d < 3652059"
    using \<open>0 \<le> s\<close> by (auto simp: d_def pos_imp_zdiv_nonneg_iff)
  have c: "0 \<le> c" "c < 86400" by (simp_all add: c_def)
  have ns: "ns < 10 ^ 9" "int ns = t mod second" by (simp_all add: ns_def second_def nat_less_iff)
  have sum: "(d * 86400 + c) * second + int ns = t" by (simp add: d_def c_def s_def ns(2))
  let ?f = "format_fraction ns @ ''Z''"
  have e: "encodeTime t = format_date d @ ''T'' @ format_clock c @ ?f"
    by (simp add: encodeTime_def Let_def s_def d_def c_def ns_def)
  note date = parse_date_format [OF d, of "''T'' @ format_clock c @ ?f"]
  then have lenT: "length (format_date d @ ''T'') = 11" by simp
  note clock = parse_clock_format [OF c lenT, of ?f]
  obtain x0 x1 x2 x3 x4 x5 x6 x7 x8 x9 where D: "format_date d = [x0, x1, x2, x3, x4, x5, x6, x7, x8, x9]"
    using date by (auto simp: numeral_eq_Suc length_Suc_conv)
  obtain z0 z1 z2 z3 z4 z5 z6 z7 where C: "format_clock c = [z0, z1, z2, z3, z4, z5, z6, z7]"
    using clock by (auto simp: numeral_eq_Suc length_Suc_conv)
  have pd: "parse_date (encodeTime t) = Some d" using date by (simp add: e)
  have pc: "parse_clock (encodeTime t) = Some c" using clock by (simp add: e)
  have rest: "drop 19 (encodeTime t) = ?f" "19 \<le> length (encodeTime t)" by (simp_all add: e D C)
  have marks: "encodeTime t ! 4 = CHR ''-''" "encodeTime t ! 7 = CHR ''-''" "encodeTime t ! 10 = CHR ''T''"
    "encodeTime t ! 13 = CHR '':''" "encodeTime t ! 16 = CHR '':''"
    using date clock by (simp_all add: e D C)
  show ?thesis
    using rest(2) sum unfolding parse_rfc3339_def pd pc option.case marks rest(1)
      parse_fraction_format [OF ns(1)] by (simp add: parse_zone_def)
qed

lemma decode_encodeTime [simp]: "storable_time t \<Longrightarrow> decodeTime lenient (encodeTime t) = Inr t"
  by (simp add: decodeTime_def parse_encodeTime)


section \<open>The order of the stored texts\<close>

text \<open>SQLite compares texts byte by byte (\<open>memcmp\<close>, the shorter first).\<close>

fun text_less :: "string \<Rightarrow> string \<Rightarrow> bool" where
  "text_less [] ys = (ys \<noteq> [])"
| "text_less (x # xs) [] = False"
| "text_less (x # xs) (y # ys) = (byte x < byte y \<or> byte x = byte y \<and> text_less xs ys)"

lemma text_less_irrefl [simp]: "\<not> text_less s s"
  by (induction s) auto

lemma text_less_append:
  "length a = length b \<Longrightarrow> text_less (a @ x) (b @ y) \<longleftrightarrow> text_less a b \<or> a = b \<and> text_less x y"
  by (induction a b rule: list_induct2) (auto simp: byte_def)

text \<open>Digit strings of one length are ordered like their numbers.\<close>

lemma digits_less:
  assumes "length a = length b" and "list_all is_digit a" and "list_all is_digit b"
  shows "foldl (\<lambda>n c. 10 * n + digit_value c) m a < foldl (\<lambda>n c. 10 * n + digit_value c) n b \<longleftrightarrow>
    m < n \<or> m = n \<and> text_less a b"
  using assms
proof (induction a b arbitrary: m n rule: list_induct2)
  case (Cons x xs y ys)
  have d: "digit_value x < 10" "digit_value y < 10" "byte x = digit_value x + 48"
    "byte y = digit_value y + 48"
    using Cons.prems by (auto simp: is_digit_def digit_value_def)
  have "10 * m + digit_value x < 10 * n + digit_value y \<longleftrightarrow>
      m < n \<or> m = n \<and> digit_value x < digit_value y"
    "10 * m + digit_value x = 10 * n + digit_value y \<longleftrightarrow> m = n \<and> digit_value x = digit_value y"
    using d(1,2) by presburger+
  with Cons d(3,4) show ?case by auto
qed simp

lemma zero_padded_less:
  assumes "0 < k" and "m < 10 ^ k" and "n < 10 ^ k"
  shows "text_less (zero_padded k m) (zero_padded k n) \<longleftrightarrow> m < n"
proof -
  let ?a = "zero_padded k m" and ?b = "zero_padded k n"
  have "length ?a = length ?b" using assms by (simp add: length_zero_padded)
  moreover have "list_all is_digit ?a" "list_all is_digit ?b"
    using zero_padded_digits by (auto simp: list_all_iff)
  ultimately have "number_of ?a < number_of ?b \<longleftrightarrow> text_less ?a ?b"
    unfolding number_of_def by (subst digits_less) auto
  then show ?thesis by simp
qed

lemma zero_padded_append_less:
  assumes "0 < k" and "m < 10 ^ k" and "n < 10 ^ k"
  shows "text_less (zero_padded k m @ x) (zero_padded k n @ y) \<longleftrightarrow> m < n \<or> m = n \<and> text_less x y"
  using assms by (simp add: text_less_append length_zero_padded zero_padded_less zero_padded_inject)

lemma month_day_ge: "month_day ls m d = (a, b) \<Longrightarrow> m \<le> a"
  by (induction ls m d rule: month_day.induct) (auto split: if_splits)

lemma month_day_less:
  assumes "d < e" and "month_day ls m d = (a, b)" and "month_day ls m e = (a', b')"
  shows "a < a' \<or> a = a' \<and> b < b'"
  using assms
proof (induction ls m d arbitrary: e rule: month_day.induct)
  case (2 l ls m d)
  show ?case
  proof (cases "e < l")
    case True
    with 2 show ?thesis by auto
  next
    case e: False
    show ?thesis
    proof (cases "d < l")
      case True
      with 2 e have "a = m" "month_day ls (m + 1) (e - l) = (a', b')" by auto
      with month_day_ge [OF this(2)] show ?thesis by simp
    next
      case False
      show ?thesis by (rule "2.IH" [OF False, of "e - l"]) (use 2 e False in auto)
    qed
  qed
qed auto

text \<open>Two fields of two digits, and the last one.\<close>

lemma two_digits_less:
  assumes "0 \<le> x" and "x < 60" and "0 \<le> z" and "z < 60"
  shows "text_less (zero_padded 2 (nat x) @ u) (zero_padded 2 (nat z) @ v) \<longleftrightarrow> x < z \<or> x = z \<and> text_less u v"
    and "text_less (zero_padded 2 (nat x)) (zero_padded 2 (nat z)) \<longleftrightarrow> x < z"
proof -
  have n: "nat x < 10 ^ 2" "nat z < 10 ^ 2" "nat x < nat z \<longleftrightarrow> x < z" "nat x = nat z \<longleftrightarrow> x = z"
    using assms by auto
  show "text_less (zero_padded 2 (nat x) @ u) (zero_padded 2 (nat z) @ v) \<longleftrightarrow> x < z \<or> x = z \<and> text_less u v"
    using zero_padded_append_less [OF _ n(1,2), of u v] n(3,4) by simp
  show "text_less (zero_padded 2 (nat x)) (zero_padded 2 (nat z)) \<longleftrightarrow> x < z"
    using zero_padded_less [OF _ n(1,2)] n(3) by simp
qed

lemma format_date_less:
  assumes "0 \<le> d" and "d < e" and "e < 3652059"
  shows "text_less (format_date d) (format_date e)"
proof -
  define y z where "y = year_of_day d" and "z = year_of_day e"
  have range: "1 \<le> y" "y \<le> 9999" "1 \<le> z" "z \<le> 9999"
    using year_range [of d] year_range [of e] assms by (simp_all add: y_def z_def)
  obtain m day where md: "month_day (month_lengths y) 1 (d - days_before_year y) = (m, day)" by fastforce
  obtain n eay where ne: "month_day (month_lengths z) 1 (e - days_before_year z) = (n, eay)" by fastforce
  have bounds: "1 \<le> a \<and> a \<le> 12 \<and> 1 \<le> b \<and> b \<le> 31"
    if md: "month_day (month_lengths (year_of_day x)) 1 (x - days_before_year (year_of_day x)) = (a, b)"
    for x a b
  proof -
    have "0 \<le> x - days_before_year (year_of_day x)"
      "x - days_before_year (year_of_day x) < sum_list (month_lengths (year_of_day x))"
      using year_of_day [of x] year_length [of "year_of_day x"] by (simp_all add: sum_month_lengths)
    from month_day_range [OF this md] obtain k where "k < 12" "a = 1 + int k" "1 \<le> b"
      "b \<le> month_lengths (year_of_day x) ! k" by (auto simp: month_lengths_def)
    with month_lengths_bounds [of k "year_of_day x"] show ?thesis by auto
  qed
  have b: "1 \<le> m" "m \<le> 12" "1 \<le> day" "day \<le> 31" "1 \<le> n" "n \<le> 12" "1 \<le> eay" "eay \<le> 31"
    using bounds [of d] bounds [of e] md ne by (auto simp: y_def z_def)
  have "\<not> z < y"
    using days_before_year_mono [of "z + 1" y] year_of_day [of d] year_of_day [of e] assms(2)
    by (auto simp: y_def z_def)
  moreover have "m < n \<or> m = n \<and> day < eay" if "y = z"
    using month_day_less [of "d - days_before_year y" "e - days_before_year y"] md ne that assms(2) by auto
  ultimately have less: "y < z \<or> y = z \<and> (m < n \<or> m = n \<and> day < eay)" by auto
  have f: "format_date d = zero_padded 4 (nat y) @ ''-'' @ zero_padded 2 (nat m) @ ''-'' @ zero_padded 2 (nat day)"
    "format_date e = zero_padded 4 (nat z) @ ''-'' @ zero_padded 2 (nat n) @ ''-'' @ zero_padded 2 (nat eay)"
    using range md ne by (simp_all add: format_date_def y_def [symmetric] z_def [symmetric] padded_int_def)
  have "nat y < 10 ^ 4" "nat z < 10 ^ 4" "nat y < nat z \<longleftrightarrow> y < z" "nat y = nat z \<longleftrightarrow> y = z"
    using range by auto
  then have y: "text_less (zero_padded 4 (nat y) @ u) (zero_padded 4 (nat z) @ v) \<longleftrightarrow> y < z \<or> y = z \<and> text_less u v"
    for u v using zero_padded_append_less [of 4 "nat y" "nat z" u v] by simp
  show ?thesis unfolding f y using less b by (auto simp: two_digits_less)
qed

lemma clock_lex:
  fixes c e :: int
  assumes "c < e" and "c = c60 * 60 + s" and "c60 = h * 60 + i" and "e = e60 * 60 + ss"
    and "e60 = hh * 60 + ii" and "0 \<le> s" and "s < 60" and "0 \<le> ss" and "ss < 60"
    and "0 \<le> i" and "i < 60" and "0 \<le> ii" and "ii < 60"
  shows "h < hh \<or> h = hh \<and> (i < ii \<or> i = ii \<and> s < ss)"
proof -
  have "\<not> hh < h" using assms by linarith
  moreover have "\<not> ii < i" if "h = hh" using that assms by linarith
  moreover have "s < ss" if "h = hh" "i = ii" using that assms by linarith
  ultimately show ?thesis by linarith
qed

lemma clock_fields:
  fixes c :: int
  assumes "0 \<le> c" and "c < 86400"
  obtains h i s c60 where "c div 3600 = h" and "c div 60 mod 60 = i" and "c mod 60 = s" and "c = c60 * 60 + s"
    and "c60 = h * 60 + i" and "0 \<le> h" and "h < 60" and "0 \<le> i" and "i < 60" and "0 \<le> s" and "s < 60"
proof (rule that [OF refl refl refl])
  show "c = c div 60 * 60 + c mod 60" by (rule div_mult_mod_eq [symmetric])
  have "c div 3600 = c div 60 div 60" using zdiv_zmult2_eq [of 60 c 60] by simp
  moreover have "c div 60 = c div 60 div 60 * 60 + c div 60 mod 60" by (rule div_mult_mod_eq [symmetric])
  ultimately show "c div 60 = c div 3600 * 60 + c div 60 mod 60" by (simp only:)
  show "0 \<le> c div 3600" "c div 3600 < 60"
    using assms by (simp_all add: pos_imp_zdiv_nonneg_iff div_less_iff_less_mult)
qed simp_all

lemma format_clock_less:
  assumes "0 \<le> c" and "c < e" and "e < 86400"
  shows "text_less (format_clock c) (format_clock e)"
proof -
  from assms have "0 \<le> c" "c < 86400" by simp_all
  then obtain h i s c60 where f: "c div 3600 = h" "c div 60 mod 60 = i" "c mod 60 = s"
    and c: "c = c60 * 60 + s" "c60 = h * 60 + i" and r: "0 \<le> h" "h < 60" "0 \<le> i" "i < 60" "0 \<le> s" "s < 60"
    by (rule clock_fields)
  from assms have "0 \<le> e" "e < 86400" by simp_all
  then obtain hh ii ss e60 where g: "e div 3600 = hh" "e div 60 mod 60 = ii" "e mod 60 = ss"
    and e: "e = e60 * 60 + ss" "e60 = hh * 60 + ii"
    and rr: "0 \<le> hh" "hh < 60" "0 \<le> ii" "ii < 60" "0 \<le> ss" "ss < 60"
    by (rule clock_fields)
  have less: "h < hh \<or> h = hh \<and> (i < ii \<or> i = ii \<and> s < ss)"
    by (rule clock_lex [OF assms(2) c e r(5,6) rr(5,6) r(3,4) rr(3,4)])
  show ?thesis
    unfolding format_clock_def f g
    using less r rr by (simp add: two_digits_less)
qed

lemma text_less_Nil [simp]: "\<not> text_less s []"
  by (cases s) auto

lemma text_less_asym: "text_less a b \<Longrightarrow> \<not> text_less b a"
  by (induction a b rule: text_less.induct) auto

lemma stamp_less:
  "length a = length b \<Longrightarrow> length c = length d \<Longrightarrow> text_less a b \<or> a = b \<and> text_less c d \<Longrightarrow>
   text_less (a @ m @ c @ x) (b @ m @ d @ y)"
  by (auto simp: text_less_append)

lemma encodeTime_less:
  assumes "storable_time t" and "storable_time u" and "t div second < u div second"
  shows "text_less (encodeTime t) (encodeTime u)"
proof -
  define s r where "s = t div second" and "r = u div second"
  have sr: "s < r" using assms(3) by (simp add: s_def r_def)
  have day: "0 \<le> x div second div 86400 \<and> x div second div 86400 < 3652059"
    if "storable_time x" for x
  proof -
    have "0 \<le> x div second" "x div second < 3652059 * 86400"
      using that by (auto simp: storable_time_def second_def pos_imp_zdiv_nonneg_iff div_less_iff_less_mult)
    then show ?thesis by (simp add: pos_imp_zdiv_nonneg_iff div_less_iff_less_mult)
  qed
  let ?d = "s div 86400" and ?e = "r div 86400" and ?c = "s mod 86400" and ?f = "r mod 86400"
  have d: "0 \<le> ?d" "?d < 3652059" "0 \<le> ?e" "?e < 3652059"
    using day [OF assms(1)] day [OF assms(2)] by (simp_all add: s_def r_def)
  have c: "0 \<le> ?c" "?c < 86400" "0 \<le> ?f" "?f < 86400" by simp_all
  have lex: "x < y \<or> x = y \<and> i < j"
    if "v = x * 86400 + i" "u = y * 86400 + j" "v < u" "0 \<le> i" "i < 86400" "0 \<le> j" "j < 86400"
    for u v x y i j :: int
  proof -
    have "\<not> y < x" using that by linarith
    moreover have "i < j" if "x = y" using that \<open>v = _\<close> \<open>u = _\<close> \<open>v < u\<close> by linarith
    ultimately show ?thesis by linarith
  qed
  have less: "?d < ?e \<or> ?d = ?e \<and> ?c < ?f"
    by (rule lex [OF div_mult_mod_eq [symmetric] div_mult_mod_eq [symmetric] sr c])
  have len: "length (format_date ?d) = length (format_date ?e)" "length (format_clock ?c) = length (format_clock ?f)"
    using parse_date_format [OF d(1,2), of "[]"] parse_date_format [OF d(3,4), of "[]"]
      parse_clock_format [OF c(1,2), of "replicate 11 (CHR ''x'')" "[]"]
      parse_clock_format [OF c(3,4), of "replicate 11 (CHR ''x'')" "[]"] by (simp_all only: length_replicate simp_thms)
  have "?d < ?e \<Longrightarrow> text_less (format_date ?d) (format_date ?e)"
    "?c < ?f \<Longrightarrow> text_less (format_clock ?c) (format_clock ?f)"
    by (rule format_date_less [OF d(1) _ d(4)], assumption,
        rule format_clock_less [OF c(1) _ c(4)], assumption)
  with less have "text_less (format_date ?d) (format_date ?e) \<or>
      format_date ?d = format_date ?e \<and> text_less (format_clock ?c) (format_clock ?f)"
    by (elim disjE conjE) (blast, metis)
  then show ?thesis
    unfolding encodeTime_def Let_def s_def [symmetric] r_def [symmetric]
    by (rule stamp_less [OF len])
qed

lemma stored_order:
  assumes "storable_time t" and "storable_time u" and "t div second \<noteq> u div second"
  shows "text_less (encodeTime t) (encodeTime u) \<longleftrightarrow> t < u"
proof -
  have mono: "x < y" if "x div second < y div second" for x y
  proof (rule ccontr)
    assume "\<not> x < y"
    then have "y div second \<le> x div second" by (intro zdiv_mono1) (simp_all add: second_def)
    with that show False by simp
  qed
  from assms(3) consider "t div second < u div second" | "u div second < t div second"
    by (meson linorder_neqE)
  then show ?thesis
  proof cases
    case 1
    then show ?thesis using encodeTime_less [OF assms(1,2) 1] mono [OF 1] by simp
  next
    case 2
    then show ?thesis using text_less_asym [OF encodeTime_less [OF assms(2,1) 2]] mono [OF 2] by simp
  qed
qed

text \<open>An instant of the years 1 to 9999 is read back as it was stored, and texts of
  instants in different seconds are ordered like the instants.\<close>

theorem stored_time_roundtrip:
  assumes "storable_time t" and "storable_time u"
  shows "decodeTime lenient (encodeTime t) = Inr t \<and>
    (t div second \<noteq> u div second \<longrightarrow> (text_less (encodeTime t) (encodeTime u) \<longleftrightarrow> t < u))"
  using assms stored_order by simp

theorem stored_time_roundtrip_witness:
  "text_less (encodeTime (63000000000 * second)) (encodeTime (63000000001 * second + 7))"
  using stored_time_roundtrip [of "63000000000 * second" "63000000001 * second + 7", THEN conjunct2]
  by (simp add: storable_time_def second_def)

text \<open>Within one second the order of the stored texts is not that of the instants: every
  instant inside a second is stored as a text that sorts before the text of the whole second.\<close>

theorem stored_times_unordered:
  assumes "t mod second = 0" and "0 < f" and "f < second"
  shows "t < t + f \<and> text_less (encodeTime (t + f)) (encodeTime t)"
proof -
  have e: "t + f = second * (t div second) + f"
    using assms(1) mult_div_mod_eq [of second t] by simp
  have "(t + f) div second = t div second"
    by (rule int_div_pos_eq [OF e]) (use assms in simp_all)
  moreover have "(t + f) mod second = f"
    by (rule int_mod_pos_eq [OF e]) (use assms in simp_all)
  moreover have "format_fraction (nat f) = CHR ''.'' # trim_zeros (zero_padded 9 (nat f))"
    using assms(2) by (simp add: format_fraction_def)
  ultimately show ?thesis
    using assms by (simp add: encodeTime_def Let_def text_less_append format_fraction_def byte_def)
qed

theorem stored_times_unordered_witness:
  "text_less (encodeTime (63000000000 * second + 500000000)) (encodeTime (63000000000 * second))"
  by (rule stored_times_unordered [THEN conjunct2]) (simp_all add: second_def)

end
