(* ===== verification/Sqlite.thy ===== *)
theory Sqlite
  imports SqlSessions GoTime Memory
begin

text \<open>
  \<open>src/adapters/sqlite\<close>: users, sessions, magic links and login attempts (the other two repositories
  are in \<open>SqliteKeys\<close> and \<open>SqliteFactors\<close>). A row has the columns of \<open>schema.sql\<close>, instants as
  text; \<open>decode_...\<close> is what a scan makes of it. The driver is the parameter \<open>sqlite\<close>: its error
  for a violated unique column, the code it reports with an error, the general time parser of Go
  and the wall clock.

  Every operation simulates the operation of the in-memory adapter on the decoded table, for
  instants of the years 1 to 9999. The rotation and issue swaps do so as one transaction.
\<close>

record sqlite =
  unique_error :: "string \<Rightarrow> error"
  error_code :: "error \<Rightarrow> int option"
  lenient :: "string \<Rightarrow> time option"
  wall :: "nat \<Rightarrow> time"

section \<open>Users\<close>

record user_row =
  user_row_id :: string
  user_row_tenant_id :: string
  user_row_email :: string
  user_row_created_at :: string
  user_row_updated_at :: string

definition encode_user :: "UserSnapshot \<Rightarrow> user_row" where
  "encode_user snap =
     \<lparr>user_row_id = UserSnapshot_ID snap, user_row_tenant_id = UserSnapshot_TenantID snap,
      user_row_email = UserSnapshot_Email snap,
      user_row_created_at = encodeTime (UserSnapshot_CreatedAt snap),
      user_row_updated_at = encodeTime (UserSnapshot_UpdatedAt snap)\<rparr>"

definition decode_user :: "sqlite \<Rightarrow> user_row \<Rightarrow> UserSnapshot res" where
  "decode_user q r =
     (case decodeTime (lenient q) (user_row_created_at r) of
        Inl e \<Rightarrow> Inl e
      | Inr created \<Rightarrow>
          (case decodeTime (lenient q) (user_row_updated_at r) of
             Inl e \<Rightarrow> Inl e
           | Inr updated \<Rightarrow>
               Inr \<lparr>UserSnapshot_ID = user_row_id r, UserSnapshot_TenantID = user_row_tenant_id r,
                    UserSnapshot_Email = user_row_email r, UserSnapshot_CreatedAt = created,
                    UserSnapshot_UpdatedAt = updated\<rparr>))"

definition sqlite_GetUser ::
  "sqlite \<Rightarrow> TenantID \<Rightarrow> UserID \<Rightarrow> user_row list world \<Rightarrow> User res \<times> user_row list world" where
  "sqlite_GetUser q tenantID i =
     checked (\<lambda>t. (fetched (decode_user q) UserFromSnapshot
       (select_row (\<lambda>r. user_row_id r = UserID_String i \<and>
          user_row_tenant_id r = TenantID_String tenantID) t), t))"

definition sqlite_UpsertUser ::
  "User \<Rightarrow> user_row list world \<Rightarrow> unit res \<times> user_row list world" where
  "sqlite_UpsertUser u = checked (\<lambda>t. dropping (upsert user_row_id (encode_user (User_Snapshot u)) t))"

section \<open>Sessions\<close>

record session_row =
  session_row_token :: string
  session_row_user_id :: string
  session_row_tenant_id :: string
  session_row_created_at :: string
  session_row_expires_at :: string

definition encode_session :: "SessionSnapshot \<Rightarrow> session_row" where
  "encode_session snap =
     \<lparr>session_row_token = SessionSnapshot_Token snap, session_row_user_id = SessionSnapshot_UserID snap,
      session_row_tenant_id = SessionSnapshot_TenantID snap,
      session_row_created_at = encodeTime (SessionSnapshot_CreatedAt snap),
      session_row_expires_at = encodeTime (SessionSnapshot_ExpiresAt snap)\<rparr>"

definition decode_session :: "sqlite \<Rightarrow> session_row \<Rightarrow> SessionSnapshot res" where
  "decode_session q r =
     (case decodeTime (lenient q) (session_row_created_at r) of
        Inl e \<Rightarrow> Inl e
      | Inr created \<Rightarrow>
          (case decodeTime (lenient q) (session_row_expires_at r) of
             Inl e \<Rightarrow> Inl e
           | Inr expires \<Rightarrow>
               Inr \<lparr>SessionSnapshot_Token = session_row_token r,
                    SessionSnapshot_UserID = session_row_user_id r,
                    SessionSnapshot_TenantID = session_row_tenant_id r,
                    SessionSnapshot_CreatedAt = created, SessionSnapshot_ExpiresAt = expires\<rparr>))"

definition sqlite_SessionSave ::
  "Session \<Rightarrow> session_row list world \<Rightarrow> unit res \<times> session_row list world" where
  "sqlite_SessionSave s =
     checked (\<lambda>t. dropping (upsert session_row_token (encode_session (Session_Snapshot s)) t))"

definition sqlite_FindByToken ::
  "sqlite \<Rightarrow> Token \<Rightarrow> session_row list world \<Rightarrow> Session res \<times> session_row list world" where
  "sqlite_FindByToken q token =
     checked (\<lambda>t. (fetched (decode_session q) SessionFromSnapshot
       (select_row (\<lambda>r. session_row_token r = Token_String token) t), t))"

definition sqlite_SessionDelete ::
  "Token \<Rightarrow> session_row list world \<Rightarrow> unit res \<times> session_row list world" where
  "sqlite_SessionDelete token =
     checked (\<lambda>t. dropping (delete_where (\<lambda>r. session_row_token r = Token_String token) t))"

definition sqlite_DeleteByUser ::
  "UserID \<Rightarrow> session_row list world \<Rightarrow> unit res \<times> session_row list world" where
  "sqlite_DeleteByUser userID =
     checked (\<lambda>t. dropping (delete_where (\<lambda>r. session_row_user_id r = UserID_String userID) t))"

definition session_unique :: "(string \<times> (session_row \<Rightarrow> string)) list" where
  "session_unique = [(''authgo_sessions.token'', session_row_token)]"

definition sqlite_sessionRotateSwap ::
  "sqlite \<Rightarrow> Token \<Rightarrow> Session \<Rightarrow> session_row list world \<Rightarrow> unit res \<times> session_row list world" where
  "sqlite_sessionRotateSwap q oldKey newSess w =
     and_then
       (checked (\<lambda>t. looking requireOneRow
          (delete_where (\<lambda>r. session_row_token r = Token_String oldKey) t)) w) (\<lambda>_.
     checked (\<lambda>t. dropping (insert_row (unique_error q) session_unique
       (encode_session (Session_Snapshot newSess)) t)))"

definition sqlite_SessionRotateAtomically ::
  "sqlite \<Rightarrow> executor \<Rightarrow> Token \<Rightarrow> Session \<Rightarrow> session_row list world \<Rightarrow>
   unit res \<times> session_row list world" where
  "sqlite_SessionRotateAtomically q db oldKey newSess =
     with_tx db (sqlite_sessionRotateSwap q oldKey newSess)"

section \<open>Magic links\<close>

record link_row =
  link_row_hash :: string
  link_row_email :: string
  link_row_tenant_id :: string
  link_row_expires_at :: string
  link_row_consumed :: int

definition boolToInt :: "bool \<Rightarrow> int" where "boolToInt b = (if b then 1 else 0)"

definition encode_link :: "MagicLinkSnapshot \<Rightarrow> link_row" where
  "encode_link snap =
     \<lparr>link_row_hash = MagicLinkSnapshot_Hash snap, link_row_email = MagicLinkSnapshot_Email snap,
      link_row_tenant_id = MagicLinkSnapshot_TenantID snap,
      link_row_expires_at = encodeTime (MagicLinkSnapshot_ExpiresAt snap),
      link_row_consumed = boolToInt (MagicLinkSnapshot_Consumed snap)\<rparr>"

definition decode_link :: "sqlite \<Rightarrow> link_row \<Rightarrow> MagicLinkSnapshot res" where
  "decode_link q r =
     (case decodeTime (lenient q) (link_row_expires_at r) of
        Inl e \<Rightarrow> Inl e
      | Inr expires \<Rightarrow>
          Inr \<lparr>MagicLinkSnapshot_Hash = link_row_hash r, MagicLinkSnapshot_Email = link_row_email r,
               MagicLinkSnapshot_TenantID = link_row_tenant_id r,
               MagicLinkSnapshot_ExpiresAt = expires,
               MagicLinkSnapshot_Consumed = (link_row_consumed r \<noteq> 0)\<rparr>)"

definition link_unique :: "(string \<times> (link_row \<Rightarrow> string)) list" where
  "link_unique = [(''authgo_magic_links.hash'', link_row_hash)]"

definition spend_rows :: "string \<Rightarrow> string \<Rightarrow> link_row list \<Rightarrow> Result res \<times> link_row list" where
  "spend_rows email tenant =
     update_where (\<lambda>r. link_row_email r = email \<and> link_row_tenant_id r = tenant \<and> link_row_consumed r = 0)
       (\<lambda>r. r\<lparr>link_row_consumed := 1\<rparr>)"

definition sqlite_LinkSave ::
  "sqlite \<Rightarrow> MagicLink \<Rightarrow> link_row list world \<Rightarrow> unit res \<times> link_row list world" where
  "sqlite_LinkSave q l =
     checked (\<lambda>t. dropping (insert_row (unique_error q) link_unique (encode_link (MagicLink_Snapshot l)) t))"

definition sqlite_FindByHash ::
  "sqlite \<Rightarrow> string \<Rightarrow> link_row list world \<Rightarrow> MagicLink res \<times> link_row list world" where
  "sqlite_FindByHash q hash =
     checked (\<lambda>t. (fetched (decode_link q) MagicLinkFromSnapshot
       (select_row (\<lambda>r. link_row_hash r = hash) t), t))"

definition sqlite_MarkConsumed ::
  "string \<Rightarrow> link_row list world \<Rightarrow> bool res \<times> link_row list world" where
  "sqlite_MarkConsumed hash =
     checked (\<lambda>t. looking affected
       (update_where (\<lambda>r. link_row_hash r = hash \<and> link_row_consumed r = 0)
          (\<lambda>r. r\<lparr>link_row_consumed := 1\<rparr>) t))"

definition sqlite_InvalidateOutstanding ::
  "Email \<Rightarrow> TenantID \<Rightarrow> link_row list world \<Rightarrow> unit res \<times> link_row list world" where
  "sqlite_InvalidateOutstanding email tenantID =
     checked (\<lambda>t. dropping (spend_rows (Email_String email) (TenantID_String tenantID) t))"

definition sqlite_magicIssueSwap ::
  "sqlite \<Rightarrow> MagicLink \<Rightarrow> link_row list world \<Rightarrow> unit res \<times> link_row list world" where
  "sqlite_magicIssueSwap q link w =
     (let snap = MagicLink_Snapshot link in
      and_then
        (checked (\<lambda>t. dropping
           (spend_rows (MagicLinkSnapshot_Email snap) (MagicLinkSnapshot_TenantID snap) t)) w) (\<lambda>_.
      checked (\<lambda>t. dropping (insert_row (unique_error q) link_unique (encode_link snap) t))))"

definition sqlite_IssueAtomically ::
  "sqlite \<Rightarrow> executor \<Rightarrow> MagicLink \<Rightarrow> link_row list world \<Rightarrow> unit res \<times> link_row list world" where
  "sqlite_IssueAtomically q db link = with_tx db (sqlite_magicIssueSwap q link)"

section \<open>Login attempts\<close>

record attempt_row =
  attempt_row_key :: string
  attempt_row_failure_count :: int
  attempt_row_locked_until :: "string option"
  attempt_row_updated_at :: string

definition decode_attempt :: "sqlite \<Rightarrow> attempt_row \<Rightarrow> LoginAttemptSnapshot res" where
  "decode_attempt q r =
     (case attempt_row_locked_until r of
        None \<Rightarrow>
          Inr \<lparr>LoginAttemptSnapshot_Key = attempt_row_key r,
               LoginAttemptSnapshot_FailureCount = attempt_row_failure_count r,
               LoginAttemptSnapshot_LockedUntil = 0\<rparr>
      | Some until \<Rightarrow>
          (case decodeTime (lenient q) until of
             Inl e \<Rightarrow> Inl e
           | Inr t \<Rightarrow>
               Inr \<lparr>LoginAttemptSnapshot_Key = attempt_row_key r,
                    LoginAttemptSnapshot_FailureCount = attempt_row_failure_count r,
                    LoginAttemptSnapshot_LockedUntil = t\<rparr>))"

definition sqlite_AttemptGet ::
  "sqlite \<Rightarrow> string \<Rightarrow> attempt_row list world \<Rightarrow> LoginAttemptSnapshot res \<times> attempt_row list world" where
  "sqlite_AttemptGet q key =
     checked (\<lambda>t. (fetched (decode_attempt q) id (select_row (\<lambda>r. attempt_row_key r = key) t), t))"

definition encode_attempt :: "LoginAttemptSnapshot \<Rightarrow> string \<Rightarrow> attempt_row" where
  "encode_attempt s updated =
     \<lparr>attempt_row_key = LoginAttemptSnapshot_Key s,
      attempt_row_failure_count = LoginAttemptSnapshot_FailureCount s,
      attempt_row_locked_until =
        (if time_is_zero (LoginAttemptSnapshot_LockedUntil s) then None
         else Some (encodeTime (LoginAttemptSnapshot_LockedUntil s))),
      attempt_row_updated_at = updated\<rparr>"

definition sqlite_AttemptSave ::
  "sqlite \<Rightarrow> LoginAttemptSnapshot \<Rightarrow> attempt_row list world \<Rightarrow> unit res \<times> attempt_row list world" where
  "sqlite_AttemptSave q s w =
     checked (\<lambda>t. dropping
       (upsert attempt_row_key (encode_attempt s (encodeTime (wall q (pos w)))) t)) w"

definition sqlite_AttemptDelete ::
  "string \<Rightarrow> attempt_row list world \<Rightarrow> unit res \<times> attempt_row list world" where
  "sqlite_AttemptDelete key = checked (\<lambda>t. dropping (delete_where (\<lambda>r. attempt_row_key r = key) t))"

text \<open>
  The statement of \<open>RecordFailureAtomically\<close>. SQLite compares the texts byte by byte;
  \<open>locked_by u nowS\<close> is \<open>u IS NOT NULL AND u > nowS\<close>, \<open>lapsed_by u nowS\<close> has \<open>u <= nowS\<close>.
\<close>

definition lapsed_by :: "string option \<Rightarrow> string \<Rightarrow> bool" where
  "lapsed_by u nowS = (case u of None \<Rightarrow> False | Some s \<Rightarrow> \<not> text_less nowS s)"

definition locked_by :: "string option \<Rightarrow> string \<Rightarrow> bool" where
  "locked_by u nowS = (case u of None \<Rightarrow> False | Some s \<Rightarrow> text_less nowS s)"

definition count_failure :: "int \<Rightarrow> string \<Rightarrow> string \<Rightarrow> attempt_row \<Rightarrow> attempt_row \<Rightarrow> attempt_row" where
  "count_failure maxFailures nowS lockS x r =
     (let count = (if lapsed_by (attempt_row_locked_until x) nowS then 1
                   else attempt_row_failure_count x + 1)
      in x\<lparr>attempt_row_failure_count := count,
           attempt_row_locked_until :=
             (if locked_by (attempt_row_locked_until x) nowS then attempt_row_locked_until x
              else if maxFailures \<le> count then Some lockS else None),
           attempt_row_updated_at := nowS\<rparr>)"

definition first_failure :: "string \<Rightarrow> int \<Rightarrow> string \<Rightarrow> string \<Rightarrow> attempt_row" where
  "first_failure key maxFailures nowS lockS =
     \<lparr>attempt_row_key = key, attempt_row_failure_count = 1,
      attempt_row_locked_until = (if maxFailures \<le> 1 then Some lockS else None),
      attempt_row_updated_at = nowS\<rparr>"

definition record_failure_row ::
  "string \<Rightarrow> int \<Rightarrow> string \<Rightarrow> string \<Rightarrow> attempt_row list \<Rightarrow> attempt_row list" where
  "record_failure_row key maxFailures nowS lockS t =
     snd (upsert_where attempt_row_key (\<lambda>x r. True) (count_failure maxFailures nowS lockS)
       (first_failure key maxFailures nowS lockS) t)"

text \<open>The \<open>RETURNING\<close> row is read back; the key of the snapshot is the argument.\<close>

definition sqlite_RecordFailureAtomically ::
  "sqlite \<Rightarrow> string \<Rightarrow> time \<Rightarrow> int \<Rightarrow> duration \<Rightarrow> attempt_row list world \<Rightarrow>
   (LoginAttemptSnapshot \<times> bool) res \<times> attempt_row list world" where
  "sqlite_RecordFailureAtomically q key now maxFailures window =
     (let nowS = encodeTime now; lockS = encodeTime (now + window) in
      checked (\<lambda>t.
        let t = record_failure_row key maxFailures nowS lockS t in
        (fetched (decode_attempt q)
           (\<lambda>snap. (snap, \<not> time_is_zero (LoginAttemptSnapshot_LockedUntil snap) \<and>
                          LoginAttemptSnapshot_FailureCount snap = maxFailures))
           (select_row (\<lambda>r. attempt_row_key r = key) t), t)))"

section \<open>The repositories\<close>

definition sqlite_UserRepo :: "sqlite \<Rightarrow> (user_row list world) UserRepository" where
  "sqlite_UserRepo q =
     \<lparr>UserRepository_GetUser = sqlite_GetUser q, UserRepository_UpsertUser = sqlite_UpsertUser\<rparr>"

definition sqlite_SessionRepo :: "sqlite \<Rightarrow> executor \<Rightarrow> (session_row list world) SessionRepository" where
  "sqlite_SessionRepo q db =
     \<lparr>SessionRepository_Save = sqlite_SessionSave,
      SessionRepository_FindByToken = sqlite_FindByToken q,
      SessionRepository_Delete = sqlite_SessionDelete,
      SessionRepository_DeleteByUser = sqlite_DeleteByUser,
      SessionRepository_RotateAtomically = Some (sqlite_SessionRotateAtomically q db)\<rparr>"

definition sqlite_MagicLinkRepo :: "sqlite \<Rightarrow> executor \<Rightarrow> (link_row list world) MagicLinkRepository" where
  "sqlite_MagicLinkRepo q db =
     \<lparr>MagicLinkRepository_Save = sqlite_LinkSave q,
      MagicLinkRepository_FindByHash = sqlite_FindByHash q,
      MagicLinkRepository_MarkConsumed = sqlite_MarkConsumed,
      MagicLinkRepository_InvalidateOutstanding = sqlite_InvalidateOutstanding,
      MagicLinkRepository_IssueAtomically = Some (sqlite_IssueAtomically q db)\<rparr>"

definition sqlite_LoginAttemptRepo :: "sqlite \<Rightarrow> (attempt_row list world) LoginAttemptStore" where
  "sqlite_LoginAttemptRepo q =
     \<lparr>LoginAttemptStore_Get = sqlite_AttemptGet q,
      LoginAttemptStore_Save = sqlite_AttemptSave q,
      LoginAttemptStore_Delete = sqlite_AttemptDelete,
      LoginAttemptStore_RecordFailureAtomically = Some (sqlite_RecordFailureAtomically q)\<rparr>"

section \<open>The tables as Go maps\<close>

definition users_of :: "sqlite \<Rightarrow> user_row list \<Rightarrow> user_map" where
  "users_of q = row_map user_row_id (decode_user q)"

definition users_ok :: "sqlite \<Rightarrow> user_row list \<Rightarrow> bool" where
  "users_ok q = rows_ok user_row_id (decode_user q)"

definition sessions_of :: "sqlite \<Rightarrow> session_row list \<Rightarrow> session_map" where
  "sessions_of q = row_map session_row_token (decode_session q)"

definition sessions_ok :: "sqlite \<Rightarrow> session_row list \<Rightarrow> bool" where
  "sessions_ok q = rows_ok session_row_token (decode_session q)"

definition links_of :: "sqlite \<Rightarrow> link_row list \<Rightarrow> link_map" where
  "links_of q = row_map link_row_hash (decode_link q)"

definition links_ok :: "sqlite \<Rightarrow> link_row list \<Rightarrow> bool" where
  "links_ok q = rows_ok link_row_hash (decode_link q)"

definition attempts_of :: "sqlite \<Rightarrow> attempt_row list \<Rightarrow> attempt_map" where
  "attempts_of q = row_map attempt_row_key (decode_attempt q)"

text \<open>A lock is stored as the text of an instant that is not Go's zero time.\<close>

definition lock_text :: "string option \<Rightarrow> bool" where
  "lock_text u = (case u of None \<Rightarrow> True | Some s \<Rightarrow> \<exists>t. storable_time t \<and> t \<noteq> 0 \<and> s = encodeTime t)"

definition attempts_ok :: "sqlite \<Rightarrow> attempt_row list \<Rightarrow> bool" where
  "attempts_ok q t \<longleftrightarrow> rows_ok attempt_row_key (decode_attempt q) t \<and>
     (\<forall>r \<in> set t. lock_text (attempt_row_locked_until r))"

interpretation qu: keyed_rows user_row_id "decode_user q" UserSnapshot_ID for q
  by unfold_locales (auto simp: decode_user_def split: sum.splits)

interpretation qs: keyed_rows session_row_token "decode_session q" SessionSnapshot_Token for q
  by unfold_locales (auto simp: decode_session_def split: sum.splits)

interpretation ql: keyed_rows link_row_hash "decode_link q" MagicLinkSnapshot_Hash for q
  by unfold_locales (auto simp: decode_link_def split: sum.splits)

interpretation qa: keyed_rows attempt_row_key "decode_attempt q" LoginAttemptSnapshot_Key for q
  by unfold_locales (auto simp: decode_attempt_def split: sum.splits option.splits)

lemmas table_views =
  users_of_def users_ok_def sessions_of_def sessions_ok_def links_of_def links_ok_def

lemma decode_encode_user [simp]:
  "storable_time (UserSnapshot_CreatedAt s) \<Longrightarrow> storable_time (UserSnapshot_UpdatedAt s) \<Longrightarrow>
   decode_user q (encode_user s) = Inr s"
  "user_row_id (encode_user s) = UserSnapshot_ID s"
  by (simp_all add: decode_user_def encode_user_def)

lemma decode_encode_session [simp]:
  "storable_time (SessionSnapshot_CreatedAt s) \<Longrightarrow> storable_time (SessionSnapshot_ExpiresAt s) \<Longrightarrow>
   decode_session q (encode_session s) = Inr s"
  "session_row_token (encode_session s) = SessionSnapshot_Token s"
  by (simp_all add: decode_session_def encode_session_def)

lemma decode_encode_link [simp]:
  "storable_time (MagicLinkSnapshot_ExpiresAt s) \<Longrightarrow> decode_link q (encode_link s) = Inr s"
  "link_row_hash (encode_link s) = MagicLinkSnapshot_Hash s"
  by (simp_all add: decode_link_def encode_link_def boolToInt_def)

section \<open>Users and sessions behave like the in-memory maps\<close>

lemma decode_user_tenant: "decode_user q r = Inr v \<Longrightarrow> UserSnapshot_TenantID v = user_row_tenant_id r"
  by (auto simp: decode_user_def split: sum.splits)

lemma decode_session_user: "decode_session q r = Inr v \<Longrightarrow> SessionSnapshot_UserID v = session_row_user_id r"
  by (auto simp: decode_session_def split: sum.splits)

lemma decode_new_user:
  "storable_time (User_createdAt u) \<Longrightarrow> storable_time (User_updatedAt u) \<Longrightarrow>
   decode_user q (encode_user (User_Snapshot u)) = Inr (User_Snapshot u)"
  by (rule decode_encode_user) (simp_all add: User_Snapshot_def)

lemma decode_new_session:
  "storable_time (Session_createdAt s) \<Longrightarrow> storable_time (Session_expiresAt s) \<Longrightarrow>
   decode_session q (encode_session (Session_Snapshot s)) = Inr (Session_Snapshot s)"
  by (rule decode_encode_session) (simp_all add: Session_Snapshot_def)

lemma sqlite_GetUser_mirrors:
  assumes "users_ok q (store w)"
  shows "mirrors (users_of q) (users_ok q) w (sqlite_GetUser q tenant i w) (UserRepo_GetUser tenant i)"
  using assms unfolding table_views sqlite_GetUser_def UserRepo_GetUser_def
  by (rule qu.find_and_mirrors) (simp add: decode_user_tenant)

lemma sqlite_UpsertUser_mirrors:
  assumes "users_ok q (store w)" and "storable_time (User_createdAt u)" and "storable_time (User_updatedAt u)"
  shows "mirrors (users_of q) (users_ok q) w (sqlite_UpsertUser u w) (UserRepo_UpsertUser u)"
  using qu.upsert_mirrors [of q w "encode_user (User_Snapshot u)" "User_Snapshot u"] assms
  by (simp add: table_views sqlite_UpsertUser_def UserRepo_UpsertUser_def Let_def decode_new_user)

lemma sqlite_SessionSave_mirrors:
  assumes "sessions_ok q (store w)" and "storable_time (Session_createdAt s)"
    and "storable_time (Session_expiresAt s)"
  shows "mirrors (sessions_of q) (sessions_ok q) w (sqlite_SessionSave s w) (SessionRepo_Save s)"
  using qs.upsert_mirrors [of q w "encode_session (Session_Snapshot s)" "Session_Snapshot s"] assms
  by (simp add: table_views sqlite_SessionSave_def SessionRepo_Save_def Let_def decode_new_session)

lemma sqlite_FindByToken_mirrors:
  assumes "sessions_ok q (store w)"
  shows "mirrors (sessions_of q) (sessions_ok q) w (sqlite_FindByToken q tok w) (SessionRepo_FindByToken tok)"
  using assms unfolding table_views sqlite_FindByToken_def SessionRepo_FindByToken_def
  by (rule qs.find_mirrors)

lemma sqlite_SessionDelete_mirrors:
  assumes "sessions_ok q (store w)"
  shows "mirrors (sessions_of q) (sessions_ok q) w (sqlite_SessionDelete tok w) (SessionRepo_Delete tok)"
  using assms unfolding table_views sqlite_SessionDelete_def SessionRepo_Delete_def
  by (rule qs.delete_key_mirrors)

lemma sqlite_DeleteByUser_mirrors:
  assumes "sessions_ok q (store w)"
  shows "mirrors (sessions_of q) (sessions_ok q) w (sqlite_DeleteByUser u w) (SessionRepo_DeleteByUser u)"
  using assms unfolding table_views sqlite_DeleteByUser_def SessionRepo_DeleteByUser_def
  by (rule qs.delete_where_mirrors) (simp add: decode_session_user)

text \<open>The statements of the rotation, as one step on the table.\<close>

definition rotate_rows ::
  "sqlite \<Rightarrow> Token \<Rightarrow> Session \<Rightarrow> session_row list \<Rightarrow> unit res \<times> session_row list" where
  "rotate_rows q tok s t =
     and_then (looking requireOneRow (delete_where (\<lambda>r. session_row_token r = Token_String tok) t))
       (\<lambda>_ t. dropping (insert_row (unique_error q) session_unique (encode_session (Session_Snapshot s)) t))"

lemma runs_sessionRotateSwap: "runs (rotate_rows q tok s) w (sqlite_sessionRotateSwap q tok s w)"
  unfolding rotate_rows_def sqlite_sessionRotateSwap_def
  by (intro runs_and_then runs_checked)

lemma sqlite_rotation_simulates:
  assumes "sessions_ok q (store w)"
    and "storable_time (Session_createdAt s)" and "storable_time (Session_expiresAt s)"
    and "gomap_get (sessions_of q (store w)) (SessionSnapshot_Token (Session_Snapshot s)) = None \<or>
      SessionSnapshot_Token (Session_Snapshot s) = Token_String tok"
  shows "simulates (sessions_of q) (sessions_ok q) w
    (sqlite_SessionRotateAtomically q SqlDB tok s w) (SessionRepo_RotateAtomically tok s)"
  using qs.delete_insert_simulates [OF runs_sessionRotateSwap [unfolded rotate_rows_def session_unique_def]]
    assms decode_new_session [OF assms(2,3)]
  unfolding sqlite_SessionRotateAtomically_def SessionRepo_RotateAtomically_def table_views Let_def
    decode_encode_session(2) [symmetric]
  by blast

section \<open>Magic links behave like the in-memory map\<close>

lemma decode_new_link:
  "storable_time (MagicLink_expiresAt l) \<Longrightarrow>
   decode_link q (encode_link (MagicLink_Snapshot l)) = Inr (MagicLink_Snapshot l)"
  by (rule decode_encode_link) (simp add: MagicLink_Snapshot_def)

lemma new_link_hash: "MagicLinkSnapshot_Hash (MagicLink_Snapshot l) = MagicLink_hash l"
  by (simp add: MagicLink_Snapshot_def)

lemma decode_spent:
  assumes "decode_link q r = Inr v"
  shows "decode_link q (r\<lparr>link_row_consumed := 1\<rparr>) = Inr (v\<lparr>MagicLinkSnapshot_Consumed := True\<rparr>)"
    and "MagicLinkSnapshot_Consumed v \<longleftrightarrow> link_row_consumed r \<noteq> 0"
    and "MagicLinkSnapshot_Email v = link_row_email r"
    and "MagicLinkSnapshot_TenantID v = link_row_tenant_id r"
  using assms by (auto simp: decode_link_def split: sum.splits)

lemma sqlite_LinkSave_mirrors:
  assumes "links_ok q (store w)" and "storable_time (MagicLink_expiresAt l)"
    and "gomap_get (links_of q (store w)) (MagicLink_hash l) = None"
  shows "mirrors (links_of q) (links_ok q) w (sqlite_LinkSave q l w) (MagicLinkRepo_Save l)"
  using ql.insert_mirrors [of q w "encode_link (MagicLink_Snapshot l)" "MagicLink_Snapshot l"] assms
  by (simp add: table_views sqlite_LinkSave_def MagicLinkRepo_Save_def Let_def decode_new_link
      new_link_hash link_unique_def)

lemma sqlite_FindByHash_mirrors:
  assumes "links_ok q (store w)"
  shows "mirrors (links_of q) (links_ok q) w (sqlite_FindByHash q h w) (MagicLinkRepo_FindByHash h)"
  using assms unfolding table_views sqlite_FindByHash_def MagicLinkRepo_FindByHash_def
  by (rule ql.find_mirrors)

lemma sqlite_InvalidateOutstanding_mirrors:
  assumes "links_ok q (store w)"
  shows "mirrors (links_of q) (links_ok q) w (sqlite_InvalidateOutstanding e n w)
    (MagicLinkRepo_InvalidateOutstanding e n)"
  using assms unfolding table_views sqlite_InvalidateOutstanding_def MagicLinkRepo_InvalidateOutstanding_def
    spend_rows_def invalidateLocked_def
  by (rule ql.update_where_mirrors) (auto simp: decode_spent)

lemma sqlite_MarkConsumed_mirrors:
  assumes "links_ok q (store w)"
  shows "mirrors (links_of q) (links_ok q) w (sqlite_MarkConsumed h w) (MagicLinkRepo_MarkConsumed h)"
  using assms unfolding table_views sqlite_MarkConsumed_def MagicLinkRepo_MarkConsumed_def
  by (rule ql.flip_mirrors) (auto simp: decode_spent)

definition issue_rows :: "sqlite \<Rightarrow> MagicLink \<Rightarrow> link_row list \<Rightarrow> unit res \<times> link_row list" where
  "issue_rows q l t =
     and_then (dropping (spend_rows (MagicLinkSnapshot_Email (MagicLink_Snapshot l))
          (MagicLinkSnapshot_TenantID (MagicLink_Snapshot l)) t))
       (\<lambda>_ t. dropping (insert_row (unique_error q) link_unique (encode_link (MagicLink_Snapshot l)) t))"

lemma runs_magicIssueSwap: "runs (issue_rows q l) w (sqlite_magicIssueSwap q l w)"
  unfolding issue_rows_def sqlite_magicIssueSwap_def Let_def
  by (intro runs_and_then runs_checked)

lemma sqlite_issue_simulates:
  assumes "links_ok q (store w)" and "storable_time (MagicLink_expiresAt l)"
    and "gomap_get (links_of q (store w)) (MagicLink_hash l) = None"
  shows "simulates (links_of q) (links_ok q) w
    (sqlite_IssueAtomically q SqlDB l w) (MagicLinkRepo_IssueAtomically l)"
proof -
  have "simulates (row_map link_row_hash (decode_link q)) (rows_ok link_row_hash (decode_link q)) w
    (with_tx SqlDB (sqlite_magicIssueSwap q l) w)
    (checked (\<lambda>m. (Inr (), gomap_set (link_row_hash (encode_link (MagicLink_Snapshot l))) (MagicLink_Snapshot l)
       (invalidateLocked (MagicLink_email l) (MagicLink_tenantID l) m))))"
    unfolding invalidateLocked_def
    by (rule ql.update_insert_simulates
         [OF runs_magicIssueSwap [unfolded issue_rows_def spend_rows_def link_unique_def]])
       (use assms decode_new_link [OF assms(2)] in \<open>auto simp: table_views decode_spent new_link_hash
          MagicLink_Snapshot_def\<close>)
  then show ?thesis
    by (simp add: table_views sqlite_IssueAtomically_def MagicLinkRepo_IssueAtomically_def Let_def)
qed

section \<open>Login attempts behave like the in-memory map\<close>

text \<open>What the statement needs of the clock: the end of a lock and the present instant agree, or lie
  in different seconds, where the order of the stored texts is that of the instants.\<close>

definition order_visible :: "time \<Rightarrow> attempt_map \<Rightarrow> bool" where
  "order_visible now m \<longleftrightarrow>
     (\<forall>k s. gomap_get m k = Some s \<longrightarrow>
        LoginAttemptSnapshot_LockedUntil s = now \<or>
        LoginAttemptSnapshot_LockedUntil s div second \<noteq> now div second)"

lemma decode_attempt_None:
  "attempt_row_locked_until r = None \<Longrightarrow> decode_attempt q r =
     Inr \<lparr>LoginAttemptSnapshot_Key = attempt_row_key r,
          LoginAttemptSnapshot_FailureCount = attempt_row_failure_count r,
          LoginAttemptSnapshot_LockedUntil = 0\<rparr>"
  by (simp add: decode_attempt_def)

lemma decode_attempt_Some:
  "attempt_row_locked_until r = Some (encodeTime t) \<Longrightarrow> storable_time t \<Longrightarrow> decode_attempt q r =
     Inr \<lparr>LoginAttemptSnapshot_Key = attempt_row_key r,
          LoginAttemptSnapshot_FailureCount = attempt_row_failure_count r,
          LoginAttemptSnapshot_LockedUntil = t\<rparr>"
  by (simp add: decode_attempt_def)

lemma text_order:
  assumes "storable_time t" and "storable_time now" and "t = now \<or> t div second \<noteq> now div second"
  shows "text_less (encodeTime now) (encodeTime t) \<longleftrightarrow> now < t"
  using stored_order [OF assms(2,1)] assms(3) by auto

text \<open>The row after a failure decodes to the snapshot the in-memory adapter computes.\<close>

lemma count_failure_decodes:
  assumes "lock_text (attempt_row_locked_until x)" and "decode_attempt q x = Inr s"
    and "storable_time now" and "storable_time (now + window)" and "now + window \<noteq> 0"
    and "LoginAttemptSnapshot_LockedUntil s = now \<or>
      LoginAttemptSnapshot_LockedUntil s div second \<noteq> now div second"
  shows "decode_attempt q (count_failure m (encodeTime now) (encodeTime (now + window)) x r) =
      Inr (record_body m window now s) \<and>
    lock_text (attempt_row_locked_until (count_failure m (encodeTime now) (encodeTime (now + window)) x r))"
proof (cases "attempt_row_locked_until x")
  case None
  then have "s = \<lparr>LoginAttemptSnapshot_Key = attempt_row_key x,
      LoginAttemptSnapshot_FailureCount = attempt_row_failure_count x,
      LoginAttemptSnapshot_LockedUntil = 0\<rparr>" using assms(2) by (simp add: decode_attempt_None)
  with None assms(4,5) show ?thesis
    by (auto simp: count_failure_def Let_def lapsed_by_def locked_by_def record_body_def
        time_is_zero_def decode_attempt_def lock_text_def)
next
  case (Some u)
  then obtain t where t: "storable_time t" "t \<noteq> 0" "u = encodeTime t"
    using assms(1) by (auto simp: lock_text_def)
  then have s: "s = \<lparr>LoginAttemptSnapshot_Key = attempt_row_key x,
      LoginAttemptSnapshot_FailureCount = attempt_row_failure_count x,
      LoginAttemptSnapshot_LockedUntil = t\<rparr>"
    using assms(2) Some by (simp add: decode_attempt_Some)
  then have order: "text_less (encodeTime now) u \<longleftrightarrow> now < t"
    using text_order [OF t(1) assms(3)] assms(6) t(3) by simp
  show ?thesis
  proof (cases "now < t")
    case True
    with Some s order t show ?thesis
      by (auto simp: count_failure_def Let_def lapsed_by_def locked_by_def record_body_def
          time_is_zero_def before_def decode_attempt_def lock_text_def)
  next
    case False
    with Some s order t assms(4,5) show ?thesis
      by (auto simp: count_failure_def Let_def lapsed_by_def locked_by_def record_body_def
          time_is_zero_def before_def decode_attempt_def lock_text_def)
  qed
qed

lemma first_failure_decodes:
  assumes "storable_time (now + window)" and "now + window \<noteq> 0"
  shows "decode_attempt q (first_failure key m nowS (encodeTime (now + window))) =
      Inr (record_body m window now \<lparr>LoginAttemptSnapshot_Key = key,
        LoginAttemptSnapshot_FailureCount = 0, LoginAttemptSnapshot_LockedUntil = 0\<rparr>) \<and>
    lock_text (attempt_row_locked_until (first_failure key m nowS (encodeTime (now + window))))"
  using assms
  by (auto simp: first_failure_def record_body_def time_is_zero_def decode_attempt_def lock_text_def)

lemma record_body_key [simp]:
  "LoginAttemptSnapshot_Key (record_body m window now s) = LoginAttemptSnapshot_Key s"
  by (simp add: record_body_def Let_def)

lemma record_failure_rows:
  fixes key :: string and m :: int
  assumes "attempts_ok q t" and "order_visible now (attempts_of q t)"
    and "storable_time now" and "storable_time (now + window)" and "now + window \<noteq> 0"
  defines "s \<equiv> record_body m window now
      ((case gomap_get (attempts_of q t) key of Some snap \<Rightarrow> snap
        | None \<Rightarrow> \<lparr>LoginAttemptSnapshot_Key = [], LoginAttemptSnapshot_FailureCount = 0,
                  LoginAttemptSnapshot_LockedUntil = 0\<rparr>)\<lparr>LoginAttemptSnapshot_Key := key\<rparr>)"
    and "t' \<equiv> record_failure_row key m (encodeTime now) (encodeTime (now + window)) t"
  shows "attempts_ok q t' \<and> attempts_of q t' = gomap_set key s (attempts_of q t)"
proof -
  let ?nowS = "encodeTime now" and ?lockS = "encodeTime (now + window)"
  let ?r = "first_failure key m ?nowS ?lockS" and ?f = "\<lambda>x. count_failure m ?nowS ?lockS x"
  have ok: "rows_ok attempt_row_key (decode_attempt q) t"
    and locks: "\<And>r. r \<in> set t \<Longrightarrow> lock_text (attempt_row_locked_until r)"
    using assms(1) by (auto simp: attempts_ok_def)
  have key [simp]: "attempt_row_key ?r = key" "attempt_row_key (?f x r) = attempt_row_key x" for x r
    by (simp_all add: first_failure_def count_failure_def Let_def)
  have old: "decode_attempt q (?f x r) = Inr s \<and> lock_text (attempt_row_locked_until (?f x r))"
    if x: "x \<in> set t" "attempt_row_key x = key" for x r
  proof -
    from qa.entry [OF ok x(1)] x(2) obtain v where d: "decode_attempt q x = Inr v"
      and v: "gomap_get (attempts_of q t) key = Some v" by (auto simp: attempts_of_def)
    have "LoginAttemptSnapshot_Key v = key" using qa.dec_key [OF d] x by simp
    with v have "s = record_body m window now v" by (cases v) (simp add: s_def)
    moreover have "LoginAttemptSnapshot_LockedUntil v = now \<or>
        LoginAttemptSnapshot_LockedUntil v div second \<noteq> now div second"
      using assms(2) v by (auto simp: order_visible_def)
    ultimately show ?thesis
      using count_failure_decodes [OF locks [OF x(1)] d assms(3,4,5)] by simp
  qed
  have new: "decode_attempt q ?r = Inr s" if "key \<notin> attempt_row_key ` set t"
  proof -
    have "gomap_get (attempts_of q t) key = None"
      using that unfolding qa.in_keys [of _ _ q] by (simp add: attempts_of_def)
    with first_failure_decodes [OF assms(4,5)] show ?thesis by (simp add: s_def)
  qed
  have "rows_ok attempt_row_key (decode_attempt q) t' \<and> attempts_of q t' = gomap_set key s (attempts_of q t)"
    unfolding t'_def record_failure_row_def attempts_of_def
    by (rule qa.upsert_where [OF ok]) (use old new in auto)
  moreover have "lock_text (attempt_row_locked_until r)" if "r \<in> set t'" for r
    using that locks old first_failure_decodes [OF assms(4,5)]
    by (auto simp: t'_def record_failure_row_def upsert_where_def update_where_def split: if_splits)
  ultimately show ?thesis by (simp add: attempts_ok_def)
qed

lemma sqlite_AttemptGet_mirrors:
  assumes "attempts_ok q (store w)"
  shows "mirrors (attempts_of q) (attempts_ok q) w (sqlite_AttemptGet q key w) (LoginAttemptRepo_Get key)"
  unfolding sqlite_AttemptGet_def LoginAttemptRepo_Get_def
  by (rule mirrors_checked)
     (use assms in \<open>auto simp: attempts_of_def attempts_ok_def qa.fetched_key split: option.splits\<close>)

lemma sqlite_AttemptDelete_mirrors:
  assumes "attempts_ok q (store w)"
  shows "mirrors (attempts_of q) (attempts_ok q) w (sqlite_AttemptDelete key w) (LoginAttemptRepo_Delete key)"
  unfolding sqlite_AttemptDelete_def LoginAttemptRepo_Delete_def
  by (rule mirrors_checked)
     (use assms qa.delete_key [of q "store w"] in \<open>auto simp: attempts_of_def attempts_ok_def\<close>)

lemma sqlite_AttemptSave_mirrors:
  assumes "attempts_ok q (store w)" and "storable_time (LoginAttemptSnapshot_LockedUntil s)"
  shows "mirrors (attempts_of q) (attempts_ok q) w (sqlite_AttemptSave q s w) (LoginAttemptRepo_Save s)"
proof -
  let ?r = "encode_attempt s (encodeTime (wall q (pos w)))"
  have r: "decode_attempt q ?r = Inr s" "attempt_row_key ?r = LoginAttemptSnapshot_Key s"
    "lock_text (attempt_row_locked_until ?r)"
    using assms(2) by (auto simp: encode_attempt_def decode_attempt_def time_is_zero_def lock_text_def)
  moreover have "lock_text (attempt_row_locked_until x)" if "x \<in> set (snd (upsert attempt_row_key ?r (store w)))" for x
    using that assms(1) r(3)
    by (auto simp: upsert_def upsert_where_def update_where_def attempts_ok_def split: if_splits)
  ultimately show ?thesis
    unfolding sqlite_AttemptSave_def LoginAttemptRepo_Save_def
    by (intro mirrors_checked)
       (use assms qa.upsert [of q "store w" ?r s] in \<open>auto simp: attempts_of_def attempts_ok_def\<close>)
qed

lemma sqlite_RecordFailure_mirrors:
  assumes "attempts_ok q (store w)" and "order_visible now (attempts_of q (store w))"
    and "storable_time now" and "storable_time (now + window)" and "now + window \<noteq> 0"
  shows "mirrors (attempts_of q) (attempts_ok q) w
    (sqlite_RecordFailureAtomically q key now m window w)
    (LoginAttemptRepo_RecordFailureAtomically key now m window)"
proof -
  let ?t = "record_failure_row key m (encodeTime now) (encodeTime (now + window)) (store w)"
  note row = record_failure_rows [OF assms, of key m]
  then have ok: "rows_ok attempt_row_key (decode_attempt q) ?t" by (simp add: attempts_ok_def)
  have "gomap_get (row_map attempt_row_key (decode_attempt q) ?t) key \<noteq> None"
    using row by (simp add: attempts_of_def)
  with row show ?thesis
    unfolding sqlite_RecordFailureAtomically_def LoginAttemptRepo_RecordFailureAtomically_def Let_def
    by (intro mirrors_checked)
       (use assms(1) in \<open>auto simp: qa.fetched_key [OF ok] attempts_of_def\<close>)
qed

section \<open>The services over SQLite\<close>

interpretation qsvc: mirrored_sessions "sqlite_SessionRepo q db" SessionRepo "sessions_of q" "sessions_ok q" storable_time
  for q db
  by unfold_locales
     (simp_all add: sqlite_SessionRepo_def SessionRepo_def sqlite_SessionSave_mirrors
        sqlite_FindByToken_mirrors sqlite_SessionDelete_mirrors sqlite_DeleteByUser_mirrors)

text \<open>C34: the session service over the SQLite repository does, call by call, what it does over the
  in-memory one with the decoded rows: the same result, the same rows left, the same errors.\<close>

theorem sqlite_session_service:
  fixes db :: executor and ttl :: duration
  assumes "sessions_ok q (store w)"
  defines "P \<equiv> NewSessionService (sqlite_SessionRepo q db) ttl" and "Q \<equiv> NewSessionService SessionRepo ttl"
  shows "mirrors (sessions_of q) (sessions_ok q) w (SessionService_Validate P tok w) (SessionService_Validate Q tok) \<and>
    mirrors (sessions_of q) (sessions_ok q) w (SessionService_Revoke P tok w) (SessionService_Revoke Q tok) \<and>
    mirrors (sessions_of q) (sessions_ok q) w (SessionService_RevokeAll P u w) (SessionService_RevokeAll Q u) \<and>
    (clock_fits storable_time ttl w \<longrightarrow>
       mirrors (sessions_of q) (sessions_ok q) w (SessionService_Issue P u t w) (SessionService_Issue Q u t))"
  unfolding P_def Q_def
  using qsvc.validate [OF assms(1), of db ttl tok] qsvc.revoke [OF assms(1), of db ttl tok]
    qsvc.revoke_all [OF assms(1), of db ttl u] qsvc.issue [OF assms(1), of ttl db u t] by blast

definition toy_sqlite :: sqlite where
  "toy_sqlite = \<lparr>unique_error = (\<lambda>c. ErrExternal (''constraint failed: UNIQUE constraint failed: '' @ c)),
     error_code = (\<lambda>_. Some 2067), lenient = (\<lambda>_. None), wall = (\<lambda>_. 63000000000 * second)\<rparr>"

definition toy_session :: Session where
  "toy_session = \<lparr>Session_token = Token ''t'', Session_tokenHash = ''h'', Session_userID = UserID ''u'',
     Session_tenantID = TenantID ''n'', Session_createdAt = 63000000000 * second,
     Session_expiresAt = 63000003600 * second\<rparr>"

lemma toy_session_times [simp]:
  "storable_time (Session_createdAt toy_session)" "storable_time (Session_expiresAt toy_session)"
  by (simp_all add: toy_session_def storable_time_def second_def)

lemma toy_session_stored [simp]:
  "sessions_ok q [encode_session (Session_Snapshot toy_session)]"
  "sessions_of q [encode_session (Session_Snapshot toy_session)] = [(''h'', Session_Snapshot toy_session)]"
proof -
  have d: "decode_session q (encode_session (Session_Snapshot toy_session)) = Inr (Session_Snapshot toy_session)"
    by (rule decode_encode_session) (simp_all add: toy_session_def Session_Snapshot_def storable_time_def second_def)
  then show "sessions_ok q [encode_session (Session_Snapshot toy_session)]"
    by (simp add: sessions_ok_def rows_ok_def)
  show "sessions_of q [encode_session (Session_Snapshot toy_session)] = [(''h'', Session_Snapshot toy_session)]"
    using d by (simp add: sessions_of_def row_map_def) (simp add: toy_session_def Session_Snapshot_def)
qed

theorem sqlite_session_service_witness:
  "mirrors (sessions_of toy_sqlite) (sessions_ok toy_sqlite)
    (calm (63000000000 * second) 0 [encode_session (Session_Snapshot toy_session)])
    (SessionService_Issue (NewSessionService (sqlite_SessionRepo toy_sqlite SqlDB) (60 * second))
      (UserID ''u'') (TenantID ''n'')
      (calm (63000000000 * second) 0 [encode_session (Session_Snapshot toy_session)]))
    (SessionService_Issue (NewSessionService SessionRepo (60 * second)) (UserID ''u'') (TenantID ''n''))"
proof -
  have "clock_fits storable_time (60 * second)
      (calm (63000000000 * second) 0 [encode_session (Session_Snapshot toy_session)])"
    by (simp add: clock_fits_def calm_def storable_time_def second_def)
  with sqlite_session_service [of toy_sqlite "calm (63000000000 * second) 0
      [encode_session (Session_Snapshot toy_session)]" SqlDB "60 * second"]
  show ?thesis by simp
qed

text \<open>Rotating a session in SQLite is atomic: a rotation that fails, for whatever reason and
  after whichever statement, leaves the table as it was; one that succeeds, or is refused because
  the old session is gone, is the in-memory rotation, provided the new key is not taken.\<close>

theorem sqlite_rotation_atomic:
  assumes "sessions_ok q (store w)"
    and "storable_time (Session_createdAt s)" and "storable_time (Session_expiresAt s)"
  shows "(isl (fst (sqlite_SessionRotateAtomically q SqlDB tok s w)) \<longrightarrow>
      store (snd (sqlite_SessionRotateAtomically q SqlDB tok s w)) = store w) \<and>
    (gomap_get (sessions_of q (store w)) (SessionSnapshot_Token (Session_Snapshot s)) = None \<longrightarrow>
      simulates (sessions_of q) (sessions_ok q) w
        (sqlite_SessionRotateAtomically q SqlDB tok s w) (SessionRepo_RotateAtomically tok s))"
  using with_tx_runs [OF runs_sessionRotateSwap, of q tok s w] sqlite_rotation_simulates [OF assms, of tok]
  by (simp add: sqlite_SessionRotateAtomically_def)

theorem sqlite_rotation_atomic_witness:
  "simulates (sessions_of toy_sqlite) (sessions_ok toy_sqlite) (calm 5 0 [])
    (sqlite_SessionRotateAtomically toy_sqlite SqlDB (Token ''h'') toy_session (calm 5 0 []))
    (SessionRepo_RotateAtomically (Token ''h'') toy_session)"
  using sqlite_rotation_atomic [of toy_sqlite "calm 5 0 []" toy_session "Token ''h''"] qs.empty_ok
  by (simp add: sessions_ok_def sessions_of_def)

text \<open>C35: the magic-link and login-attempt operations in SQLite are the in-memory ones on the decoded
  rows. Issuing, which spends the outstanding links and inserts the new one in one transaction, has
  that effect or none; recording a failure is one SQL statement, exact wherever the end of the
  stored lock and the present instant are not distinct instants of one second (there the stored
  texts are ordered the wrong way round).\<close>

theorem sqlite_links_attempts_refine:
  assumes "links_ok q (store w)" and "attempts_ok q (store v)"
  shows "mirrors (links_of q) (links_ok q) w (sqlite_FindByHash q h w) (MagicLinkRepo_FindByHash h) \<and>
    mirrors (links_of q) (links_ok q) w (sqlite_MarkConsumed h w) (MagicLinkRepo_MarkConsumed h) \<and>
    mirrors (links_of q) (links_ok q) w (sqlite_InvalidateOutstanding e n w)
      (MagicLinkRepo_InvalidateOutstanding e n) \<and>
    (storable_time (MagicLink_expiresAt l) \<longrightarrow> gomap_get (links_of q (store w)) (MagicLink_hash l) = None \<longrightarrow>
      simulates (links_of q) (links_ok q) w (sqlite_IssueAtomically q SqlDB l w) (MagicLinkRepo_IssueAtomically l)) \<and>
    (isl (fst (sqlite_IssueAtomically q SqlDB l w)) \<longrightarrow> store (snd (sqlite_IssueAtomically q SqlDB l w)) = store w) \<and>
    mirrors (attempts_of q) (attempts_ok q) v (sqlite_AttemptGet q key v) (LoginAttemptRepo_Get key) \<and>
    mirrors (attempts_of q) (attempts_ok q) v (sqlite_AttemptDelete key v) (LoginAttemptRepo_Delete key) \<and>
    (storable_time now \<longrightarrow> storable_time (now + window) \<longrightarrow> now + window \<noteq> 0 \<longrightarrow>
      order_visible now (attempts_of q (store v)) \<longrightarrow>
      mirrors (attempts_of q) (attempts_ok q) v (sqlite_RecordFailureAtomically q key now m window v)
        (LoginAttemptRepo_RecordFailureAtomically key now m window))"
  using assms with_tx_runs [OF runs_magicIssueSwap, of q l w]
  by (simp add: sqlite_FindByHash_mirrors sqlite_MarkConsumed_mirrors sqlite_InvalidateOutstanding_mirrors
      sqlite_issue_simulates sqlite_AttemptGet_mirrors sqlite_AttemptDelete_mirrors sqlite_RecordFailure_mirrors
      sqlite_IssueAtomically_def [symmetric])

definition toy_link :: MagicLink where
  "toy_link = \<lparr>MagicLink_hash = ''h'', MagicLink_email = Email ''a@b.c'', MagicLink_tenantID = TenantID ''n'',
     MagicLink_expiresAt = 63000003600 * second, MagicLink_consumed = False\<rparr>"

definition locked_row :: attempt_row where
  "locked_row = \<lparr>attempt_row_key = ''k'', attempt_row_failure_count = 3,
     attempt_row_locked_until = Some (encodeTime (63000000900 * second)), attempt_row_updated_at = []\<rparr>"

theorem sqlite_links_attempts_refine_witness:
  "simulates (links_of toy_sqlite) (links_ok toy_sqlite) (calm 5 0 [])
     (sqlite_IssueAtomically toy_sqlite SqlDB toy_link (calm 5 0 [])) (MagicLinkRepo_IssueAtomically toy_link) \<and>
   mirrors (attempts_of toy_sqlite) (attempts_ok toy_sqlite) (calm 5 0 [locked_row])
     (sqlite_RecordFailureAtomically toy_sqlite ''k'' (63000000000 * second) 3 (900 * second) (calm 5 0 [locked_row]))
     (LoginAttemptRepo_RecordFailureAtomically ''k'' (63000000000 * second) 3 (900 * second))"
proof -
  let ?t = "63000000900 * second"
  have t: "storable_time ?t" "?t \<noteq> 0" by (simp_all add: storable_time_def second_def)
  have d: "decode_attempt toy_sqlite locked_row = Inr \<lparr>LoginAttemptSnapshot_Key = ''k'',
      LoginAttemptSnapshot_FailureCount = 3, LoginAttemptSnapshot_LockedUntil = ?t\<rparr>"
    using decode_attempt_Some [of locked_row ?t toy_sqlite] t by (simp add: locked_row_def)
  have "lock_text (attempt_row_locked_until locked_row)"
    using t by (auto simp: locked_row_def lock_text_def)
  with d have a: "attempts_ok toy_sqlite (store (calm 5 0 [locked_row]))"
    by (simp add: attempts_ok_def rows_ok_def)
  have o: "order_visible (63000000000 * second) (attempts_of toy_sqlite (store (calm 5 0 [locked_row])))"
    using d by (simp add: order_visible_def attempts_of_def row_map_def gomap_get_def second_def)
  have l: "links_ok toy_sqlite (store (calm 5 0 []))" using ql.empty_ok by (simp add: links_ok_def)
  have "storable_time (MagicLink_expiresAt toy_link)" "storable_time (63000000000 * second)"
    "storable_time (63000000000 * second + 900 * second)" "63000000000 * second + 900 * second \<noteq> 0"
    "gomap_get (links_of toy_sqlite (store (calm 5 0 []))) (MagicLink_hash toy_link) = None"
    by (simp_all add: toy_link_def storable_time_def second_def links_of_def row_map_def gomap_get_def)
  with o show ?thesis using sqlite_links_attempts_refine [OF l a] by blast
qed

end
