(* ===== verification/SqlKeys.thy ===== *)
theory SqlKeys
  imports SqlTables MemoryKeys
begin

text \<open>
  The table of workload keys of the two SQL adapters. One table takes the place of the two Go maps
  of the in-memory adapter: its primary key is the identifier, and the hash is unique too. The
  locale \<open>key_table\<close> is the interface: the columns, what a row decodes to, the row of a key, and the
  driver's error for a violated unique column with the test that recognises it. Its lemmas say that
  the statements of either adapter are the operations on the two maps; both adapters interpret it.
  \<open>plain_faults\<close>: no other error of the driver looks like a violated column.
\<close>

definition conflicting :: "(error \<Rightarrow> bool) \<Rightarrow> 'a res \<times> 'w \<Rightarrow> 'a res \<times> 'w" where
  "conflicting violation out =
     (case out of
        (Inl e, w) \<Rightarrow> (Inl (if violation e then ErrConflict else e), w)
      | (Inr x, w) \<Rightarrow> (Inr x, w))"

definition plain_faults :: "(error \<Rightarrow> bool) \<Rightarrow> 'a env_scheme \<Rightarrow> bool" where
  "plain_faults violation w \<longleftrightarrow> (\<forall>n msg. fault w n = Some msg \<longrightarrow> \<not> violation (ErrExternal msg))"

lemma conflicting_simps [simp]:
  "conflicting v (Inr x, w) = (Inr x, w)"
  "conflicting v (Inl e, w) = (Inl (if v e then ErrConflict else e), w)"
  by (simp_all add: conflicting_def)

lemma conflicting_checked:
  assumes "plain_faults v w"
  shows "conflicting v (checked f w) = checked (\<lambda>s. conflicting v (f s)) w"
proof (cases "fault w (pos w)")
  case None
  then show ?thesis
    by (cases "f (store w)"; cases "fst (f (store w))") (auto simp: checked_def external_check_def)
next
  case (Some msg)
  with assms show ?thesis by (auto simp: checked_def external_check_def plain_faults_def)
qed

lemma plain_faults_mono: "plain_faults v w \<Longrightarrow> env_le w w' \<Longrightarrow> plain_faults v w'"
  by (auto simp: plain_faults_def env_le_def)

text \<open>The two maps a table stands for, and when it does.\<close>

definition key_views ::
  "('r \<Rightarrow> string) \<Rightarrow> ('r \<Rightarrow> string) \<Rightarrow> ('r \<Rightarrow> APIKeySnapshot res) \<Rightarrow> 'r list \<Rightarrow> key_maps" where
  "key_views rid rhash dec t = \<lparr>byID = row_map rid dec t, byHash = map (\<lambda>r. (rhash r, rid r)) t\<rparr>"

definition key_rows_ok ::
  "('r \<Rightarrow> string) \<Rightarrow> ('r \<Rightarrow> string) \<Rightarrow> ('r \<Rightarrow> APIKeySnapshot res) \<Rightarrow> 'r list \<Rightarrow> bool" where
  "key_rows_ok rid rhash dec t \<longleftrightarrow> rows_ok rid dec t \<and> distinct (map rhash t)"

locale key_table = keyed_rows rid dec APIKeySnapshot_ID
  for rid :: "'r \<Rightarrow> string" and dec :: "'r \<Rightarrow> APIKeySnapshot res" +
  fixes rhash rworker :: "'r \<Rightarrow> string" and enc :: "APIKeySnapshot \<Rightarrow> 'r" and good :: "APIKey \<Rightarrow> bool"
    and col_id col_hash :: string and uerr :: "string \<Rightarrow> error" and viol :: "error \<Rightarrow> bool"
  assumes dec_fields: "dec r = Inr v \<Longrightarrow> APIKeySnapshot_Hash v = rhash r \<and> APIKeySnapshot_WorkerID v = rworker r"
    and dec_enc: "good k \<Longrightarrow> dec (enc (APIKey_Snapshot k)) = Inr (APIKey_Snapshot k)"
    and enc_keys [simp]: "rid (enc s) = APIKeySnapshot_ID s" "rhash (enc s) = APIKeySnapshot_Hash s"
begin

abbreviation "view \<equiv> key_views rid rhash dec"
abbreviation "legal \<equiv> key_rows_ok rid rhash dec"
abbreviation "cols \<equiv> [(col_id, rid), (col_hash, rhash)]"
abbreviation "put_row k t \<equiv> dropping (insert_row uerr cols (enc (APIKey_Snapshot k)) t)"

lemma view_byID [simp]: "byID (view t) = row_map rid dec t"
  by (simp add: key_views_def)

lemma byHash: "gomap_get (byHash (view t)) h = map_option rid (select_row (\<lambda>r. rhash r = h) t)"
  by (induction t) (auto simp: key_views_def gomap_get_def select_row_def)

lemma byHash_None: "gomap_get (byHash (view t)) h = None \<longleftrightarrow> h \<notin> rhash ` set t"
  by (auto simp: byHash select_row_def find_None_iff)

lemma legal_rows: "legal t \<Longrightarrow> rows_ok rid dec t"
  by (simp add: key_rows_ok_def)

lemma violated_key:
  "violated cols t r =
     (if gomap_get (row_map rid dec t) (rid r) \<noteq> None then Some col_id
      else if gomap_get (byHash (view t)) (rhash r) \<noteq> None then Some col_hash
      else None)"
  unfolding in_keys [symmetric] byHash_None by simp

lemma append_key:
  assumes "legal t" and "good k"
    and "gomap_get (row_map rid dec t) (APIKey_id k) = None"
    and "gomap_get (byHash (view t)) (APIKey_hash k) = None"
  shows "legal (t @ [enc (APIKey_Snapshot k)]) \<and>
    view (t @ [enc (APIKey_Snapshot k)]) = insert_key (APIKey_Snapshot k) (view t)"
proof -
  let ?r = "enc (APIKey_Snapshot k)"
  have fresh: "rid ?r \<notin> rid ` set t" "rhash ?r \<notin> rhash ` set t"
    using assms(3,4) unfolding in_keys byHash_None by simp_all
  have "AList.update (rhash ?r) (rid ?r) (byHash (view t)) = byHash (view t) @ [(rhash ?r, rid ?r)]"
    using fresh(2) by (intro alist_update_absent) (auto simp: key_views_def)
  with append [OF _ dec_enc fresh(1)] assms(1,2) fresh(2) show ?thesis
    by (auto simp: key_rows_ok_def key_views_def insert_key_def gomap_set_def)
qed

lemma legal_filter: "legal t \<Longrightarrow> legal (filter p t)"
  by (auto simp: key_rows_ok_def rows_ok_def distinct_map_filter)

lemma remove_row:
  assumes "legal t" and "gomap_get (row_map rid dec t) i = Some sn"
  shows "view (filter (\<lambda>r. rid r \<noteq> i) t) = remove_key sn (view t)"
proof -
  have ok: "rows_ok rid dec t" and dist: "distinct (map rhash t)"
    using assms(1) by (auto simp: key_rows_ok_def)
  obtain r where r: "select_row (\<lambda>r. rid r = i) t = Some r" and sn: "sn = projr (dec r)"
    using assms(2) by (auto simp: get)
  obtain v where v: "dec r = Inr v" "rid r = i" "r \<in> set t" by (rule selected [OF ok r])
  have f: "APIKeySnapshot_ID sn = i" "APIKeySnapshot_Hash sn = rhash r"
    using v sn dec_fields [OF v(1)] dec_key [OF v(1)] by simp_all
  have "rid x \<noteq> i \<longleftrightarrow> rhash r \<noteq> rhash x" if "x \<in> set t" for x
    using that v(2,3) dist one_row [OF ok that v(3)] by (auto simp: distinct_map dest: inj_onD)
  then have "filter (\<lambda>x. rid x \<noteq> i) t = filter (\<lambda>x. rhash r \<noteq> rhash x) t"
    by (intro filter_cong) auto
  then have "map (\<lambda>r. (rhash r, rid r)) (filter (\<lambda>x. rid x \<noteq> i) t) =
      gomap_delete (rhash r) (byHash (view t))"
    by (simp add: key_views_def gomap_delete_def AList.delete_eq filter_map comp_def)
  with delete_key [OF ok, of i] show ?thesis
    by (simp add: key_views_def remove_key_def f)
qed

lemma insert_rows:
  assumes "\<forall>c. viol (uerr c)"
  shows "conflicting viol (put_row k t) =
    (if gomap_get (row_map rid dec t) (APIKey_id k) \<noteq> None \<or>
        gomap_get (byHash (view t)) (APIKey_hash k) \<noteq> None
     then (Inl ErrConflict, t) else (Inr (), t @ [enc (APIKey_Snapshot k)]))"
  using assms violated_key [of t "enc (APIKey_Snapshot k)"]
  by (auto simp: dropping_insert split: if_splits)

lemma create:
  assumes "legal (store w)" and "good k" and "\<forall>c. viol (uerr c)" and "plain_faults viol w"
  shows "mirrors view legal w (conflicting viol (checked (put_row k) w)) (WorkloadKeyRepo_CreateKey k)"
  unfolding conflicting_checked [OF assms(4)] WorkloadKeyRepo_CreateKey_def insert_rows [OF assms(3)]
  by (rule mirrors_checked) (use assms(1) append_key [OF assms(1,2)] in \<open>auto simp: Let_def\<close>)

lemma get_key:
  assumes "legal (store w)"
  shows "mirrors view legal w (checked (\<lambda>t. (fetched dec APIKeyFromSnapshot (select_row (\<lambda>r. rid r = i) t), t)) w)
    (WorkloadKeyRepo_GetKey i)"
  unfolding WorkloadKeyRepo_GetKey_def
  by (rule mirrors_checked)
     (use assms in \<open>auto simp: fetched_key [OF legal_rows [OF assms]] split: option.splits\<close>)

lemma get_by_hash:
  assumes "legal (store w)"
  shows "mirrors view legal w (checked (\<lambda>t. (fetched dec APIKeyFromSnapshot (select_row (\<lambda>r. rhash r = h) t), t)) w)
    (WorkloadKeyRepo_GetKeyByHash h)"
proof -
  have ok: "rows_ok rid dec (store w)" using assms by (rule legal_rows)
  have "fetched dec APIKeyFromSnapshot (select_row (\<lambda>r. rhash r = h) (store w)) =
    (case gomap_get (byHash (view (store w))) h of
       None \<Rightarrow> Inl ErrNotFound
     | Some i \<Rightarrow> Inr (APIKeyFromSnapshot
         (case gomap_get (byID (view (store w))) i of Some snap \<Rightarrow> snap | None \<Rightarrow> zero_key_snapshot)))"
  proof (cases "select_row (\<lambda>r. rhash r = h) (store w)")
    case (Some r)
    obtain v where v: "dec r = Inr v" "r \<in> set (store w)" by (rule selected [OF ok Some])
    from entry [OF ok v(2)] v(1)
    have "gomap_get (row_map rid dec (store w)) (rid r) = Some v" by auto
    with Some v(1) show ?thesis by (simp add: byHash fetched_def)
  qed (simp add: byHash fetched_def)
  then show ?thesis
    unfolding WorkloadKeyRepo_GetKeyByHash_def
    by (intro mirrors_checked) (use assms in \<open>auto split: option.splits\<close>)
qed

lemma delete_one:
  assumes "legal (store w)"
  shows "mirrors view legal w (checked (\<lambda>t. looking requireOneRow (delete_where (\<lambda>r. rid r = i) t)) w)
    (WorkloadKeyRepo_DeleteKey i)"
proof (cases "gomap_get (row_map rid dec (store w)) i")
  case None
  then have "filter (\<lambda>r. rid r = i) (store w) = []" using count_key [OF legal_rows [OF assms], of i] by simp
  moreover from this have "filter (\<lambda>r. rid r \<noteq> i) (store w) = store w"
    by (auto simp: filter_empty_conv filter_id_conv)
  ultimately show ?thesis
    using assms None unfolding WorkloadKeyRepo_DeleteKey_def by (intro mirrors_checked) auto
next
  case (Some sn)
  then have "length (filter (\<lambda>r. rid r = i) (store w)) \<noteq> 0"
    using count_key [OF legal_rows [OF assms], of i] by simp
  with Some remove_row [OF assms Some] legal_filter [OF assms] assms show ?thesis
    unfolding WorkloadKeyRepo_DeleteKey_def by (intro mirrors_checked) auto
qed

lemma list_keys:
  assumes "legal (store w)"
  shows "simulates view legal w
    (query_rows (\<lambda>r. rworker r = WorkerID_String v) (\<lambda>r. map_sum id APIKeyFromSnapshot (dec r)) id w)
    (WorkloadKeyRepo_ListKeysByWorker v)"
proof -
  have run: "runs (\<lambda>t. (Inr (map APIKeyFromSnapshot
        (filter (\<lambda>snap. APIKeySnapshot_WorkerID snap = WorkerID_String v) (gomap_values (row_map rid dec t)))), t)) w
      (query_rows (\<lambda>r. rworker r = WorkerID_String v) (\<lambda>r. map_sum id APIKeyFromSnapshot (dec r)) id w)"
    by (rule query_runs [OF legal_rows [OF assms]]) (auto dest: dec_fields)
  show ?thesis
    unfolding WorkloadKeyRepo_ListKeysByWorker_def
    by (intro simulates_runs [OF run]) (simp_all add: assms query_rows_store)
qed

lemma rotate:
  assumes "\<And>v. plain_faults viol v \<Longrightarrow> swap v =
      and_then (checked (\<lambda>t. looking requireOneRow (delete_where (\<lambda>r. rid r = i) t)) v)
        (\<lambda>_ v. conflicting viol (checked (put_row k) v))"
    and "legal (store w)" and "good k" and "\<forall>c. viol (uerr c)" and "plain_faults viol w"
    and "APIKey_id k \<noteq> i"
    and "\<And>sn. gomap_get (byID (view (store w))) i = Some sn \<Longrightarrow> APIKeySnapshot_Hash sn \<noteq> APIKey_hash k"
  shows "simulates view legal w (with_tx SqlDB swap w) (WorkloadKeyRepo_RotateAtomically i k)"
proof -
  let ?t = "store w" and ?rest = "filter (\<lambda>r. rid r \<noteq> i) (store w)"
  let ?f = "\<lambda>t. and_then (looking requireOneRow (delete_where (\<lambda>r. rid r = i) t))
      (\<lambda>_ t. conflicting viol (put_row k t))"
  have run: "runs ?f v (swap v)" if "env_le w v" for v
  proof -
    have p: "plain_faults viol v" using assms(5) that by (rule plain_faults_mono)
    show ?thesis
      unfolding assms(1) [OF p]
    proof (rule runs_and_then [OF runs_checked])
      fix v1 :: "'r list world"
      assume "env_le v v1"
      with p have "plain_faults viol v1" by (rule plain_faults_mono)
      then show "runs (\<lambda>t. conflicting viol (put_row k t)) v1 (conflicting viol (checked (put_row k) v1))"
        by (simp add: conflicting_checked runs_checked)
    qed
  qed
  let ?mem = "case gomap_get (byID (view ?t)) i of
        None \<Rightarrow> (Inl ErrNotFound, view ?t)
      | Some old \<Rightarrow>
          let snap = APIKey_Snapshot k in
          if gomap_get (byID (view ?t)) (APIKeySnapshot_ID snap) \<noteq> None then (Inl ErrConflict, view ?t)
          else if gomap_get (byHash (view ?t)) (APIKeySnapshot_Hash snap) \<noteq> None then (Inl ErrConflict, view ?t)
          else (Inr (), insert_key snap (remove_key old (view ?t)))"
  have step: "legal (snd (rolled_back ?f ?t)) \<and>
      ?mem = (fst (rolled_back ?f ?t), view (snd (rolled_back ?f ?t)))"
  proof (cases "gomap_get (row_map rid dec ?t) i")
    case None
    with count_key [OF legal_rows [OF assms(2)], of i] assms(2) show ?thesis by (simp add: rolled_back_def)
  next
    case (Some sn)
    have del: "view ?rest = remove_key sn (view ?t)" by (rule remove_row [OF assms(2) Some])
    then have delID: "row_map rid dec ?rest = byID (remove_key sn (view ?t))" by (metis view_byID)
    have rok: "legal ?rest" using assms(2) by (rule legal_filter)
    have id: "APIKeySnapshot_ID sn = i" using keyed [OF legal_rows [OF assms(2)] Some] .
    have get: "gomap_get (row_map rid dec ?rest) (APIKey_id k) = gomap_get (row_map rid dec ?t) (APIKey_id k)"
      "gomap_get (byHash (view ?rest)) (APIKey_hash k) = gomap_get (byHash (view ?t)) (APIKey_hash k)"
      using assms(6,7) Some id unfolding del delID by (auto simp: remove_key_get)
    have "length (filter (\<lambda>r. rid r = i) ?t) \<noteq> 0" using count_key [OF legal_rows [OF assms(2)], of i] Some by simp
    then have "rolled_back ?f ?t =
        (if gomap_get (row_map rid dec ?t) (APIKey_id k) \<noteq> None \<or>
            gomap_get (byHash (view ?t)) (APIKey_hash k) \<noteq> None
         then (Inl ErrConflict, ?t) else (Inr (), ?rest @ [enc (APIKey_Snapshot k)]))"
      by (simp add: rolled_back_def insert_rows [OF assms(4)] get)
    then show ?thesis
      using assms(2) Some append_key [OF rok assms(3)] unfolding get by (auto simp: del Let_def)
  qed
  show ?thesis
    unfolding WorkloadKeyRepo_RotateAtomically_def
  proof (rule simulates_tx [OF run])
    show "legal ?t" by (rule assms(2))
    show "legal (snd (rolled_back ?f ?t))" using step by (rule conjunct1)
    show "fst ?mem = fst (rolled_back ?f ?t)" using step [THEN conjunct2] by (rule arg_cong [where f = fst, THEN trans]) simp
    show "snd ?mem = view (snd (rolled_back ?f ?t))"
      using step [THEN conjunct2] by (rule arg_cong [where f = snd, THEN trans]) simp
  qed
qed

end

end
