(* ===== verification/SqliteKeys.thy ===== *)
theory SqliteKeys
  imports Sqlite SqlKeys
begin

text \<open>
  The \<open>WorkloadKeyRepo\<close> of \<open>src/adapters/sqlite\<close>: an interpretation of \<open>key_table\<close>. The scope is the
  text of its entries, one to a line. What the code relies on of the driver is \<open>driver_ok\<close>: the
  error of a violated constraint is recognisable.
\<close>

record key_row =
  key_row_id :: string
  key_row_hash :: string
  key_row_worker_id :: string
  key_row_scope :: string
  key_row_expires_at :: string
  key_row_created_at :: string

definition scopeSep :: char where "scopeSep = chr 10"

definition encodeScope :: "string list \<Rightarrow> string" where
  "encodeScope entries = join [scopeSep] entries"

definition decodeScope :: "string \<Rightarrow> string list" where
  "decodeScope s = (if s = [] then [] else split_on scopeSep s)"

fun contains :: "string \<Rightarrow> string \<Rightarrow> bool" where
  "contains p [] = (p = [])"
| "contains p (c # cs) = (has_prefix (c # cs) p \<or> contains p cs)"

text \<open>The text of an error of a driver; the library's own errors never reach the test.\<close>

definition error_text :: "error \<Rightarrow> string" where
  "error_text e = (case e of ErrExternal msg \<Rightarrow> msg | _ \<Rightarrow> [])"

definition sqliteConstraintPrimaryKey :: int where "sqliteConstraintPrimaryKey = 1555"
definition sqliteConstraintUnique :: int where "sqliteConstraintUnique = 2067"

definition isUniqueViolation :: "sqlite \<Rightarrow> error \<Rightarrow> bool" where
  "isUniqueViolation q err \<longleftrightarrow>
     (case error_code q err of
        Some c \<Rightarrow> c = sqliteConstraintUnique \<or> c = sqliteConstraintPrimaryKey
      | None \<Rightarrow> False) \<or>
     contains ''UNIQUE constraint failed'' (error_text err)"

definition encode_key :: "APIKeySnapshot \<Rightarrow> key_row" where
  "encode_key snap =
     \<lparr>key_row_id = APIKeySnapshot_ID snap, key_row_hash = APIKeySnapshot_Hash snap,
      key_row_worker_id = APIKeySnapshot_WorkerID snap,
      key_row_scope = encodeScope (APIKeySnapshot_Scope snap),
      key_row_expires_at = encodeTime (APIKeySnapshot_ExpiresAt snap),
      key_row_created_at = encodeTime (APIKeySnapshot_CreatedAt snap)\<rparr>"

definition decode_key :: "sqlite \<Rightarrow> key_row \<Rightarrow> APIKeySnapshot res" where
  "decode_key q r =
     (case decodeTime (lenient q) (key_row_expires_at r) of
        Inl e \<Rightarrow> Inl e
      | Inr expires \<Rightarrow>
          (case decodeTime (lenient q) (key_row_created_at r) of
             Inl e \<Rightarrow> Inl e
           | Inr created \<Rightarrow>
               Inr \<lparr>APIKeySnapshot_ID = key_row_id r, APIKeySnapshot_Hash = key_row_hash r,
                    APIKeySnapshot_WorkerID = key_row_worker_id r,
                    APIKeySnapshot_Scope = decodeScope (key_row_scope r),
                    APIKeySnapshot_ExpiresAt = expires, APIKeySnapshot_CreatedAt = created\<rparr>))"

definition key_unique :: "(string \<times> (key_row \<Rightarrow> string)) list" where
  "key_unique = [(''authgo_workload_keys.id'', key_row_id), (''authgo_workload_keys.hash'', key_row_hash)]"

definition sqlite_CreateKey :: "sqlite \<Rightarrow> APIKey \<Rightarrow> key_row list world \<Rightarrow> unit res \<times> key_row list world" where
  "sqlite_CreateKey q k w =
     conflicting (isUniqueViolation q)
       (checked (\<lambda>t. dropping (insert_row (unique_error q) key_unique (encode_key (APIKey_Snapshot k)) t)) w)"

definition sqlite_scanOne ::
  "sqlite \<Rightarrow> (key_row \<Rightarrow> bool) \<Rightarrow> key_row list world \<Rightarrow> APIKey res \<times> key_row list world" where
  "sqlite_scanOne q where_clause =
     checked (\<lambda>t. (fetched (decode_key q) APIKeyFromSnapshot (select_row where_clause t), t))"

definition sqlite_GetKeyByHash ::
  "sqlite \<Rightarrow> string \<Rightarrow> key_row list world \<Rightarrow> APIKey res \<times> key_row list world" where
  "sqlite_GetKeyByHash q hash = sqlite_scanOne q (\<lambda>r. key_row_hash r = hash)"

definition sqlite_GetKey :: "sqlite \<Rightarrow> KeyID \<Rightarrow> key_row list world \<Rightarrow> APIKey res \<times> key_row list world" where
  "sqlite_GetKey q i = sqlite_scanOne q (\<lambda>r. key_row_id r = i)"

definition sqlite_ListKeysByWorker ::
  "sqlite \<Rightarrow> WorkerID \<Rightarrow> key_row list world \<Rightarrow> APIKey list res \<times> key_row list world" where
  "sqlite_ListKeysByWorker q workerID =
     query_rows (\<lambda>r. key_row_worker_id r = WorkerID_String workerID)
       (\<lambda>r. map_sum id APIKeyFromSnapshot (decode_key q r)) id"

definition sqlite_DeleteKey :: "KeyID \<Rightarrow> key_row list world \<Rightarrow> unit res \<times> key_row list world" where
  "sqlite_DeleteKey i =
     checked (\<lambda>t. looking requireOneRow (delete_where (\<lambda>r. key_row_id r = i) t))"

definition sqlite_rotateSwap ::
  "sqlite \<Rightarrow> KeyID \<Rightarrow> APIKey \<Rightarrow> key_row list world \<Rightarrow> unit res \<times> key_row list world" where
  "sqlite_rotateSwap q oldID newKey w =
     and_then
       (checked (\<lambda>t. looking requireOneRow (delete_where (\<lambda>r. key_row_id r = oldID) t)) w) (\<lambda>_ w.
     conflicting (isUniqueViolation q)
       (checked (\<lambda>t. dropping (insert_row (unique_error q) key_unique
          (encode_key (APIKey_Snapshot newKey)) t)) w))"

definition sqlite_KeyRotateAtomically ::
  "sqlite \<Rightarrow> executor \<Rightarrow> KeyID \<Rightarrow> APIKey \<Rightarrow> key_row list world \<Rightarrow> unit res \<times> key_row list world" where
  "sqlite_KeyRotateAtomically q db oldID newKey = with_tx db (sqlite_rotateSwap q oldID newKey)"

definition sqlite_WorkloadKeyRepo :: "sqlite \<Rightarrow> executor \<Rightarrow> (key_row list world) WorkloadStore" where
  "sqlite_WorkloadKeyRepo q db =
     \<lparr>WorkloadStore_CreateKey = sqlite_CreateKey q,
      WorkloadStore_GetKeyByHash = sqlite_GetKeyByHash q,
      WorkloadStore_GetKey = sqlite_GetKey q,
      WorkloadStore_ListKeysByWorker = sqlite_ListKeysByWorker q,
      WorkloadStore_DeleteKey = sqlite_DeleteKey,
      WorkloadStore_RotateAtomically = Some (sqlite_KeyRotateAtomically q db)\<rparr>"

section \<open>The scope as text\<close>

lemma entry_no_sep:
  assumes "scope_ok sc" and "e \<in> set (Scope_Actions sc)"
  shows "e \<noteq> [] \<and> scopeSep \<notin> set e"
proof -
  from assms obtain r a where e: "segment r" "segment a" "e = entry r a" by (auto simp: scope_ok_def)
  have "byte scopeSep = 10" by (simp add: scopeSep_def)
  with entry_char [OF e(1,2)] e(3) show ?thesis by (auto simp: entry_def)
qed

lemma decode_encode_scope:
  assumes "scope_ok sc"
  shows "decodeScope (encodeScope (Scope_Actions sc)) = Scope_Actions sc"
proof -
  have ne: "Scope_Actions sc \<noteq> []" using assms by (simp add: scope_ok_def)
  have "split_on scopeSep (join [scopeSep] (Scope_Actions sc)) = Scope_Actions sc"
    using entry_no_sep [OF assms] by (intro split_on_join [OF ne]) auto
  moreover have "join [scopeSep] (Scope_Actions sc) \<noteq> []"
  proof
    assume "join [scopeSep] (Scope_Actions sc) = []"
    with calculation have "Scope_Actions sc = [[]]" by simp
    with entry_no_sep [OF assms] show False by auto
  qed
  ultimately show ?thesis by (simp add: decodeScope_def encodeScope_def)
qed

section \<open>The table as two maps\<close>

definition storable_key :: "APIKey \<Rightarrow> bool" where
  "storable_key k \<longleftrightarrow> scope_ok (APIKey_scope k) \<and> storable_time (APIKey_expiresAt k) \<and>
     storable_time (APIKey_createdAt k)"

definition driver_ok :: "sqlite \<Rightarrow> bool" where
  "driver_ok q \<longleftrightarrow> (\<forall>c. isUniqueViolation q (unique_error q c))"

interpretation qk: key_table key_row_id "decode_key q" key_row_hash key_row_worker_id encode_key
    storable_key "''authgo_workload_keys.id''" "''authgo_workload_keys.hash''" "unique_error q" "isUniqueViolation q"
  for q
  by unfold_locales
     (auto simp: decode_key_def encode_key_def storable_key_def APIKey_Snapshot_def decode_encode_scope
       split: sum.splits)

definition keys_of :: "sqlite \<Rightarrow> key_row list \<Rightarrow> key_maps" where
  "keys_of q = key_views key_row_id key_row_hash (decode_key q)"

definition keys_ok :: "sqlite \<Rightarrow> key_row list \<Rightarrow> bool" where
  "keys_ok q = key_rows_ok key_row_id key_row_hash (decode_key q)"

lemmas key_table_defs = keys_of_def keys_ok_def driver_ok_def key_unique_def

section \<open>The operations behave like the in-memory ones\<close>

lemma sqlite_CreateKey_mirrors:
  assumes "keys_ok q (store w)" and "storable_key k" and "driver_ok q"
    and "plain_faults (isUniqueViolation q) w"
  shows "mirrors (keys_of q) (keys_ok q) w (sqlite_CreateKey q k w) (WorkloadKeyRepo_CreateKey k)"
  using assms unfolding key_table_defs sqlite_CreateKey_def by (rule qk.create)

lemma sqlite_GetKey_mirrors:
  assumes "keys_ok q (store w)"
  shows "mirrors (keys_of q) (keys_ok q) w (sqlite_GetKey q i w) (WorkloadKeyRepo_GetKey i)"
  using assms unfolding key_table_defs sqlite_GetKey_def sqlite_scanOne_def by (rule qk.get_key)

lemma sqlite_GetKeyByHash_mirrors:
  assumes "keys_ok q (store w)"
  shows "mirrors (keys_of q) (keys_ok q) w (sqlite_GetKeyByHash q h w) (WorkloadKeyRepo_GetKeyByHash h)"
  using assms unfolding key_table_defs sqlite_GetKeyByHash_def sqlite_scanOne_def by (rule qk.get_by_hash)

lemma sqlite_DeleteKey_mirrors:
  assumes "keys_ok q (store w)"
  shows "mirrors (keys_of q) (keys_ok q) w (sqlite_DeleteKey i w) (WorkloadKeyRepo_DeleteKey i)"
  using assms unfolding key_table_defs sqlite_DeleteKey_def by (rule qk.delete_one)

lemma sqlite_ListKeys_simulates:
  assumes "keys_ok q (store w)"
  shows "simulates (keys_of q) (keys_ok q) w (sqlite_ListKeysByWorker q v w) (WorkloadKeyRepo_ListKeysByWorker v)"
  using assms unfolding key_table_defs sqlite_ListKeysByWorker_def by (rule qk.list_keys)

lemma sqlite_KeyRotate_simulates:
  assumes "keys_ok q (store w)" and "storable_key k" and "driver_ok q"
    and "plain_faults (isUniqueViolation q) w"
    and "APIKey_id k \<noteq> i"
    and "\<And>sn. gomap_get (byID (keys_of q (store w))) i = Some sn \<Longrightarrow> APIKeySnapshot_Hash sn \<noteq> APIKey_hash k"
  shows "simulates (keys_of q) (keys_ok q) w (sqlite_KeyRotateAtomically q SqlDB i k w)
    (WorkloadKeyRepo_RotateAtomically i k)"
  using assms unfolding key_table_defs sqlite_KeyRotateAtomically_def
  by (intro qk.rotate) (auto simp: sqlite_rotateSwap_def key_unique_def)

text \<open>C36: the workload-key operations in SQLite are the in-memory ones on the two maps the table
  stands for, the scope read back from its text; rotation has the in-memory effect as one
  transaction, or fails and changes nothing.\<close>

theorem sqlite_keys_refine:
  assumes "keys_ok q (store w)" and "storable_key k" and "driver_ok q"
    and "plain_faults (isUniqueViolation q) w"
  shows "mirrors (keys_of q) (keys_ok q) w (sqlite_CreateKey q k w) (WorkloadKeyRepo_CreateKey k) \<and>
    mirrors (keys_of q) (keys_ok q) w (sqlite_GetKeyByHash q h w) (WorkloadKeyRepo_GetKeyByHash h) \<and>
    mirrors (keys_of q) (keys_ok q) w (sqlite_GetKey q i w) (WorkloadKeyRepo_GetKey i) \<and>
    mirrors (keys_of q) (keys_ok q) w (sqlite_DeleteKey i w) (WorkloadKeyRepo_DeleteKey i) \<and>
    simulates (keys_of q) (keys_ok q) w (sqlite_ListKeysByWorker q v w) (WorkloadKeyRepo_ListKeysByWorker v) \<and>
    (APIKey_id k \<noteq> i \<longrightarrow>
      (\<forall>sn. gomap_get (byID (keys_of q (store w))) i = Some sn \<longrightarrow> APIKeySnapshot_Hash sn \<noteq> APIKey_hash k) \<longrightarrow>
      simulates (keys_of q) (keys_ok q) w (sqlite_KeyRotateAtomically q SqlDB i k w)
        (WorkloadKeyRepo_RotateAtomically i k))"
  using assms sqlite_KeyRotate_simulates [OF assms, of i]
  by (simp add: sqlite_CreateKey_mirrors sqlite_GetKeyByHash_mirrors sqlite_GetKey_mirrors
      sqlite_DeleteKey_mirrors sqlite_ListKeys_simulates)

definition toy_key :: APIKey where
  "toy_key = \<lparr>APIKey_id = ''k'', APIKey_hash = ''h'', APIKey_workerID = WorkerID ''w'',
     APIKey_scope = Scope [entry star star], APIKey_expiresAt = 63000003600 * second,
     APIKey_createdAt = 63000000000 * second\<rparr>"

lemma toy_key_storable [simp]: "storable_key toy_key"
  by (auto simp: storable_key_def toy_key_def scope_ok_def segment_def star_def storable_time_def second_def)

lemma toy_driver [simp]: "driver_ok toy_sqlite"
  by (simp add: driver_ok_def isUniqueViolation_def toy_sqlite_def sqliteConstraintUnique_def)

theorem sqlite_keys_refine_witness:
  "simulates (keys_of toy_sqlite) (keys_ok toy_sqlite) (calm 5 0 [encode_key (APIKey_Snapshot toy_key)])
    (sqlite_KeyRotateAtomically toy_sqlite SqlDB ''k'' (toy_key\<lparr>APIKey_id := ''k2'', APIKey_hash := ''h2''\<rparr>)
      (calm 5 0 [encode_key (APIKey_Snapshot toy_key)]))
    (WorkloadKeyRepo_RotateAtomically ''k'' (toy_key\<lparr>APIKey_id := ''k2'', APIKey_hash := ''h2''\<rparr>))"
proof -
  let ?w = "calm 5 0 [encode_key (APIKey_Snapshot toy_key)]" and ?k = "toy_key\<lparr>APIKey_id := ''k2'', APIKey_hash := ''h2''\<rparr>"
  have d: "decode_key toy_sqlite (encode_key (APIKey_Snapshot toy_key)) = Inr (APIKey_Snapshot toy_key)"
    by (rule qk.dec_enc) simp
  then have ok: "keys_ok toy_sqlite (store ?w)" by (simp add: keys_ok_def key_rows_ok_def rows_ok_def)
  have k: "storable_key ?k" using toy_key_storable by (simp add: storable_key_def)
  have p: "plain_faults (isUniqueViolation toy_sqlite) ?w" by (simp add: plain_faults_def calm_def)
  have id: "APIKey_id ?k \<noteq> ''k''" by simp
  have h: "\<forall>sn. gomap_get (byID (keys_of toy_sqlite (store ?w))) ''k'' = Some sn \<longrightarrow> APIKeySnapshot_Hash sn \<noteq> APIKey_hash ?k"
    using d by (simp add: keys_of_def row_map_def gomap_get_def) (simp add: toy_key_def)
  from sqlite_keys_refine [OF ok k toy_driver p, where i = "''k''"] id h show ?thesis by blast
qed

end
