(* ===== verification/Focus.thy ===== *)
theory Focus
  imports Prelude
begin

text \<open>
  Operations on a part of a store: a program that holds several stores runs an operation of one of them
  in its own environment. \<open>get\<close> and \<open>put\<close> find the part; the locale \<open>part\<close> states that they do, and that
  another part is not touched.
\<close>

definition with_store :: "'s \<Rightarrow> 't world \<Rightarrow> 's world" where
  "with_store s w = \<lparr>clk = clk w, rnd = rnd w, fault = fault w, pos = pos w, store = s\<rparr>"

definition on_part ::
  "('t \<Rightarrow> 's) \<Rightarrow> ('s \<Rightarrow> 't \<Rightarrow> 't) \<Rightarrow> ('s world \<Rightarrow> 'a \<times> 's world) \<Rightarrow> 't world \<Rightarrow> 'a \<times> 't world" where
  "on_part get put f w =
     (case f (with_store (get (store w)) w) of (r, v) \<Rightarrow> (r, w\<lparr>pos := pos v, store := put (store v) (store w)\<rparr>))"

lemma with_store_simps [simp]:
  "store (with_store s w) = s" "pos (with_store s w) = pos w" "clk (with_store s w) = clk w"
  "rnd (with_store s w) = rnd w" "fault (with_store s w) = fault w"
  "quiet (with_store s w) = quiet w" "rand_ok (with_store s w) = rand_ok w"
  by (simp_all add: with_store_def quiet_def rand_ok_def)

lemma on_part_eq:
  assumes "f (with_store (get (store w)) w) = (r, v)"
  shows "on_part get put f w = (r, w\<lparr>pos := pos v, store := put (store v) (store w)\<rparr>)"
  using assms by (simp add: on_part_def)

lemma on_partE:
  assumes "on_part get put f w = (r, w')"
  obtains v where "f (with_store (get (store w)) w) = (r, v)" and "w' = w\<lparr>pos := pos v, store := put (store v) (store w)\<rparr>"
  using assms by (cases "f (with_store (get (store w)) w)") (auto simp: on_part_def)

section \<open>Parts\<close>

text \<open>\<open>fixed\<close> is what the rest of the program keeps of its store.\<close>

locale part =
  fixes get :: "'t \<Rightarrow> 's" and put :: "'s \<Rightarrow> 't \<Rightarrow> 't" and fixed :: "'t \<Rightarrow> 'k"
  assumes get_put [simp]: "get (put s t) = s"
    and fixed_put [simp]: "fixed (put s t) = fixed t"
begin

text \<open>What an operation that keeps a contract does to the whole.\<close>

lemma on_part_run:
  assumes "f (with_store (get (store w)) w) = (r, v)" and "settled legal (with_store (get (store w)) w) v"
  obtains w' where "on_part get put f w = (r, w')" and "env_le w w'" and "pos w' = pos v"
    and "legal (get (store w'))" and "get (store w') = store v" and "fixed (store w') = fixed (store w)"
  by (rule that [OF on_part_eq [where get = get and put = put and f = f and w = w, OF assms(1)]])
     (use assms(2) in \<open>auto simp: settled_def env_le_def with_store_def\<close>)

end

end
