(* ===== verification/SqliteOpen.thy ===== *)
theory SqliteOpen
  imports Focus
begin

text \<open>
  Opening a database: \<open>Open\<close> and \<open>Migrate\<close> of \<open>src/adapters/sqlite/db.go\<close>, with the statements of
  \<open>schema.sql\<close>. A database is the rows of its tables and the names of its indexes; the driver runs the
  statements of a script one by one and stops at the first that fails. The directory that \<open>Open\<close>
  makes is not part of the state, making it may fail.
\<close>

datatype statement = CreateTable string | CreateIndex string string

record 'r database =
  tables :: "(string, 'r list) gomap"
  indexes :: "string list"

definition schema :: "statement list" where
  "schema =
     [CreateTable ''authgo_users'', CreateIndex ''authgo_users_tenant_idx'' ''authgo_users'',
      CreateTable ''authgo_sessions'', CreateIndex ''authgo_sessions_user_idx'' ''authgo_sessions'',
      CreateTable ''authgo_magic_links'', CreateTable ''authgo_totp_secrets'', CreateTable ''authgo_totp_used_steps'',
      CreateTable ''authgo_passkeys'', CreateIndex ''authgo_passkeys_user_idx'' ''authgo_passkeys'',
      CreateTable ''authgo_login_attempts'', CreateTable ''authgo_workload_keys'',
      CreateIndex ''authgo_workload_keys_worker_idx'' ''authgo_workload_keys'']"

text \<open>Every statement is \<open>CREATE ... IF NOT EXISTS\<close>; an index needs its table.\<close>

fun create :: "statement \<Rightarrow> 'r database \<Rightarrow> unit res \<times> 'r database" where
  "create (CreateTable t) d =
     (Inr (), case gomap_get (tables d) t of None \<Rightarrow> d\<lparr>tables := gomap_set t [] (tables d)\<rparr> | Some _ \<Rightarrow> d)"
| "create (CreateIndex i t) d =
     (if i \<in> set (indexes d) then (Inr (), d)
      else if gomap_get (tables d) t = None then (Inl (ErrExternal ''no such table''), d)
      else (Inr (), d\<lparr>indexes := i # indexes d\<rparr>))"

text \<open>\<open>db.Exec\<close> of a script.\<close>

fun exec_script :: "statement list \<Rightarrow> 'r database world \<Rightarrow> unit res \<times> 'r database world" where
  "exec_script [] w = (Inr (), w)"
| "exec_script (s # ss) w = and_then (checked (create s) w) (\<lambda>_ w. exec_script ss w)"

definition sqlite_Migrate :: "'r database world \<Rightarrow> unit res \<times> 'r database world" where
  "sqlite_Migrate w = exec_script schema w"

text \<open>
  The databases of a host by path. \<open>db_Close\<close> drops the handle; \<open>":memory:"\<close> names a new empty
  database each time.
\<close>

type_synonym 'r databases = "(string, 'r database) gomap"

record handle =
  handle_path :: string
  handle_dsn :: string

definition dsn_pragmas :: string where
  "dsn_pragmas = ''?_pragma=foreign_keys(1)&_pragma=journal_mode(WAL)&_pragma=busy_timeout(5000)''"

definition database_at :: "string \<Rightarrow> 'r databases \<Rightarrow> 'r database" where
  "database_at path ds =
     (if path = '':memory:'' then \<lparr>tables = [], indexes = []\<rparr>
      else case gomap_get ds path of None \<Rightarrow> \<lparr>tables = [], indexes = []\<rparr> | Some d \<Rightarrow> d)"

definition sqlite_Open :: "string \<Rightarrow> 'r databases world \<Rightarrow> handle res \<times> 'r databases world" where
  "sqlite_Open path w =
     (if path = [] then (Inl (ErrExternal ''sqlite: database path is required''), w)
      else
        and_then (if path \<noteq> '':memory:'' then external_check w else (Inr (), w)) (\<lambda>_ w.
        let dsn = path @ dsn_pragmas in
        and_then (external_check w) (\<lambda>_ w.
        and_then (on_part (database_at path) (gomap_set path) sqlite_Migrate w) (\<lambda>_ w.
          (Inr \<lparr>handle_path = path, handle_dsn = dsn\<rparr>, w)))))"

section \<open>Migrating\<close>

text \<open>\<open>grown d d'\<close>: \<open>d'\<close> has all that \<open>d\<close> has, its tables with the same rows, and what it has besides is empty.\<close>

definition grown :: "'r database \<Rightarrow> 'r database \<Rightarrow> bool" where
  "grown d d' \<longleftrightarrow>
     (\<forall>t rs. gomap_get (tables d) t = Some rs \<longrightarrow> gomap_get (tables d') t = Some rs) \<and>
     (\<forall>t rs. gomap_get (tables d') t = Some rs \<longrightarrow> gomap_get (tables d) t = Some rs \<or> rs = []) \<and>
     set (indexes d) \<subseteq> set (indexes d')"

fun present :: "statement \<Rightarrow> 'r database \<Rightarrow> bool" where
  "present (CreateTable t) d \<longleftrightarrow> gomap_get (tables d) t \<noteq> None"
| "present (CreateIndex i t) d \<longleftrightarrow> i \<in> set (indexes d)"

lemma grown_refl [simp]: "grown d d"
  by (simp add: grown_def)

lemma grown_trans:
  assumes "grown a b" and "grown b c"
  shows "grown a c"
  unfolding grown_def
proof (intro conjI allI impI)
  show "gomap_get (tables c) t = Some rs" if "gomap_get (tables a) t = Some rs" for t rs
    using assms that by (simp add: grown_def)
  show "gomap_get (tables a) t = Some rs \<or> rs = []" if "gomap_get (tables c) t = Some rs" for t rs
    using assms that unfolding grown_def by blast
  show "set (indexes a) \<subseteq> set (indexes c)" using assms unfolding grown_def by blast
qed

lemma present_grown: "present s d \<Longrightarrow> grown d d' \<Longrightarrow> present s d'"
  by (cases s) (auto simp: grown_def)

lemma create_grown: "grown d (snd (create s d))"
  by (cases s) (auto simp: grown_def split: option.splits)

lemma create_present: "fst (create s d) = Inr () \<Longrightarrow> present s (snd (create s d))"
  by (cases s) (auto split: if_splits option.splits)

lemma create_again: "present s d \<Longrightarrow> create s d = (Inr (), d)"
  by (cases s) auto

lemma checked_create:
  assumes "checked (create s) w = (r, w')"
  shows "grown (store w) (store w') \<and> (r = Inr () \<longrightarrow> present s (store w'))"
proof (cases "fault w (pos w)")
  case None
  obtain x d where c: "create s (store w) = (x, d)" by fastforce
  have "r = x" "store w' = d" using assms None c by (auto simp: checked_def external_check_def)
  then show ?thesis using create_grown [of "store w" s] create_present [of s "store w"] c by simp
next
  case (Some m)
  then show ?thesis using assms by (auto simp: checked_def external_check_def)
qed

lemma exec_script_grown:
  assumes "exec_script ss w = (r, w')"
  shows "grown (store w) (store w') \<and> (r = Inr () \<longrightarrow> (\<forall>s \<in> set ss. present s (store w')))"
  using assms
proof (induction ss arbitrary: w)
  case (Cons s ss)
  obtain x v where c: "checked (create s) w = (x, v)" by fastforce
  note k = checked_create [OF c]
  show ?case
  proof (cases x)
    case (Inl e)
    then show ?thesis using Cons.prems c k by auto
  next
    case (Inr u)
    then have "exec_script ss v = (r, w')" using Cons.prems c by simp
    from Cons.IH [OF this] k Inr show ?thesis
      by (auto intro: grown_trans present_grown)
  qed
qed simp

lemma exec_script_again: "\<forall>s \<in> set ss. present s (store w) \<Longrightarrow> store (snd (exec_script ss w)) = store w"
proof (induction ss arbitrary: w)
  case (Cons s ss)
  obtain x v where c: "checked (create s) w = (x, v)" by fastforce
  have "store v = store w"
    using c Cons.prems by (cases "fault w (pos w)") (auto simp: checked_def external_check_def create_again)
  moreover from this have "store (snd (exec_script ss v)) = store v" using Cons by simp
  ultimately show ?case using c by (cases x) auto
qed simp

text \<open>Migrating loses no row, succeeded or not; after a success every table and index of the schema is there,
  and migrating again changes nothing.\<close>

theorem migrate_idempotent:
  assumes "sqlite_Migrate w = (r, w')"
  shows "grown (store w) (store w')"
    and "r = Inr () \<Longrightarrow> (\<forall>s \<in> set schema. present s (store w')) \<and> store (snd (sqlite_Migrate w')) = store w'"
  using exec_script_grown [of schema w] exec_script_again [of schema w'] assms by (auto simp: sqlite_Migrate_def)

text \<open>Opening a path leaves every other database and the rows of its own as they were.\<close>

lemma migrate_at:
  assumes "on_part (database_at path) (gomap_set path) sqlite_Migrate v = (x, v')" and "path \<noteq> '':memory:''"
  shows "grown (database_at path (store v)) (database_at path (store v'))"
    and "x = Inr () \<Longrightarrow> \<forall>s \<in> set schema. present s (database_at path (store v'))"
proof -
  from assms(1) obtain u where u: "sqlite_Migrate (with_store (database_at path (store v)) v) = (x, u)"
    and v': "v' = v\<lparr>pos := pos u, store := gomap_set path (store u) (store v)\<rparr>" by (rule on_partE)
  have d: "database_at path (store v') = store u" using assms(2) by (simp add: database_at_def v')
  show "grown (database_at path (store v)) (database_at path (store v'))"
    "x = Inr () \<Longrightarrow> \<forall>s \<in> set schema. present s (database_at path (store v'))"
    using migrate_idempotent [OF u] d by simp_all
qed

theorem open_keeps:
  assumes "sqlite_Open path w = (r, w')"
  shows "q \<noteq> path \<Longrightarrow> database_at q (store w') = database_at q (store w)"
    and "path \<noteq> '':memory:'' \<Longrightarrow> grown (database_at path (store w)) (database_at path (store w'))"
    and "r = Inr h \<Longrightarrow> path \<noteq> [] \<and> handle_path h = path \<and>
      (path \<noteq> '':memory:'' \<longrightarrow> (\<forall>s \<in> set schema. present s (database_at path (store w'))))"
proof -
  let ?h = "\<lparr>handle_path = path, handle_dsn = path @ dsn_pragmas\<rparr>"
  have st: "store (snd (external_check v)) = store v" for v :: "'a databases world"
    by (auto simp: external_check_def split: option.splits)
  have "(store w' = store w \<and> isl r) \<or> (\<exists>v x v'. path \<noteq> [] \<and> store v = store w \<and> w' = v' \<and> r = map_sum (\<lambda>e. e) (\<lambda>_. ?h) x \<and>
      on_part (database_at path) (gomap_set path) sqlite_Migrate v = (x, v'))"
  proof (cases "path = []")
    case False
    obtain x1 w1 where 1: "(if path \<noteq> '':memory:'' then external_check w else (Inr (), w)) = (x1, w1)" by fastforce
    then have s1: "store w1 = store w" using st [of w] by (auto split: if_splits)
    obtain x2 w2 where 2: "external_check w1 = (x2, w2)" by fastforce
    then have s2: "store w2 = store w" using st [of w1] s1 by simp
    obtain x3 w3 where 3: "on_part (database_at path) (gomap_set path) sqlite_Migrate w2 = (x3, w3)" by fastforce
    have o: "sqlite_Open path w = and_then (x1, w1) (\<lambda>_ w. and_then (external_check w) (\<lambda>_ w.
        and_then (on_part (database_at path) (gomap_set path) sqlite_Migrate w) (\<lambda>_ w. (Inr ?h, w))))"
      using False 1 by (simp add: sqlite_Open_def Let_def)
    show ?thesis
    proof (cases x1)
      case (Inl e)
      then show ?thesis using o assms s1 by simp
    next
      case x1: (Inr u)
      show ?thesis
      proof (cases x2)
        case (Inl e)
        then show ?thesis using o x1 2 assms s2 by simp
      next
        case (Inr u)
        then have "(r, w') = (map_sum (\<lambda>e. e) (\<lambda>_. ?h) x3, w3)" using o x1 2 3 assms by (cases x3) simp_all
        then show ?thesis using False s2 3 by auto
      qed
    qed
  qed (use assms in \<open>auto simp: sqlite_Open_def\<close>)
  then consider "store w' = store w" "isl r"
    | v x v' where "path \<noteq> []" "store v = store w" "w' = v'" "r = map_sum (\<lambda>e. e) (\<lambda>_. ?h) x"
      "on_part (database_at path) (gomap_set path) sqlite_Migrate v = (x, v')" by blast
  note cases = this
  show "database_at q (store w') = database_at q (store w)" if "q \<noteq> path"
    using cases by cases (use that in \<open>auto simp: database_at_def elim!: on_partE\<close>)
  show "grown (database_at path (store w)) (database_at path (store w'))" if "path \<noteq> '':memory:''"
    using cases by cases (use that migrate_at(1) in \<open>fastforce+\<close>)
  show "path \<noteq> [] \<and> handle_path h = path \<and>
      (path \<noteq> '':memory:'' \<longrightarrow> (\<forall>s \<in> set schema. present s (database_at path (store w'))))" if r: "r = Inr h"
    using cases
  proof cases
    case (2 v x v')
    then have "x = Inr ()" "h = ?h" using r by (cases x; simp)+
    with 2 migrate_at(2) [OF 2(5)] show ?thesis by auto
  qed (use r in simp)
qed

end
