(* ===== verification/Pgstore.thy ===== *)
theory Pgstore
  imports SqlSessions Memory
begin

text \<open>
  \<open>src/adapters/pgstore\<close>: users, sessions, magic links and login attempts (workload keys are in
  \<open>PgstoreKeys\<close>, TOTP secrets and passkeys in \<open>PgstoreFactors\<close>). The columns of \<open>schema.sql\<close> are those
  of the snapshots, so a row is a snapshot, with its instants as the server keeps them. The driver
  and the server are the parameter \<open>pg\<close>: the \<open>TIMESTAMPTZ\<close> an instant becomes (Postgres keeps
  microseconds), \<open>now()\<close>, the error for a violated unique column and for an \<open>INTEGER\<close> out of range,
  the \<open>SQLState()\<close> of an error, and what a scan of an array column is given for a literal.

  Every operation simulates the operation of the in-memory adapter: those that store a user or a session
  for instants the server keeps exactly (\<open>pg_kept\<close>), those of links and login attempts for all
  instants, with the in-memory operation on the instants as kept. Instants are compared as instants,
  so recording a failed login needs no condition on how they lie to each other.
\<close>

text \<open>What \<open>Scan\<close> gets: SQL null, a string, bytes, or a value of another type.\<close>

datatype scan_src = ScanNull | ScanString string | ScanBytes string | ScanOther

record pg =
  pg_time :: "time \<Rightarrow> time"
  pg_now :: "nat \<Rightarrow> time"
  pg_unique_error :: "string \<Rightarrow> error"
  pg_range_error :: error
  pg_sql_state :: "error \<Rightarrow> string option"
  pg_column :: "string \<Rightarrow> scan_src"

definition pg_kept :: "pg \<Rightarrow> time \<Rightarrow> bool" where "pg_kept p t \<longleftrightarrow> pg_time p t = t"

section \<open>Users\<close>

definition pg_bind_user :: "pg \<Rightarrow> UserSnapshot \<Rightarrow> UserSnapshot" where
  "pg_bind_user p snap =
     snap\<lparr>UserSnapshot_CreatedAt := pg_time p (UserSnapshot_CreatedAt snap),
          UserSnapshot_UpdatedAt := pg_time p (UserSnapshot_UpdatedAt snap)\<rparr>"

definition pg_GetUser ::
  "TenantID \<Rightarrow> UserID \<Rightarrow> UserSnapshot list world \<Rightarrow> User res \<times> UserSnapshot list world" where
  "pg_GetUser tenantID i =
     checked (\<lambda>t. (fetched Inr UserFromSnapshot
       (select_row (\<lambda>r. UserSnapshot_ID r = UserID_String i \<and>
          UserSnapshot_TenantID r = TenantID_String tenantID) t), t))"

definition pg_UpsertUser ::
  "pg \<Rightarrow> User \<Rightarrow> UserSnapshot list world \<Rightarrow> unit res \<times> UserSnapshot list world" where
  "pg_UpsertUser p u =
     checked (\<lambda>t. dropping (upsert UserSnapshot_ID (pg_bind_user p (User_Snapshot u)) t))"

section \<open>Sessions\<close>

definition pg_bind_session :: "pg \<Rightarrow> SessionSnapshot \<Rightarrow> SessionSnapshot" where
  "pg_bind_session p snap =
     snap\<lparr>SessionSnapshot_CreatedAt := pg_time p (SessionSnapshot_CreatedAt snap),
          SessionSnapshot_ExpiresAt := pg_time p (SessionSnapshot_ExpiresAt snap)\<rparr>"

definition pg_SessionSave ::
  "pg \<Rightarrow> Session \<Rightarrow> SessionSnapshot list world \<Rightarrow> unit res \<times> SessionSnapshot list world" where
  "pg_SessionSave p s =
     checked (\<lambda>t. dropping (upsert SessionSnapshot_Token (pg_bind_session p (Session_Snapshot s)) t))"

definition pg_FindByToken ::
  "Token \<Rightarrow> SessionSnapshot list world \<Rightarrow> Session res \<times> SessionSnapshot list world" where
  "pg_FindByToken token =
     checked (\<lambda>t. (fetched Inr SessionFromSnapshot
       (select_row (\<lambda>r. SessionSnapshot_Token r = Token_String token) t), t))"

definition pg_SessionDelete ::
  "Token \<Rightarrow> SessionSnapshot list world \<Rightarrow> unit res \<times> SessionSnapshot list world" where
  "pg_SessionDelete token =
     checked (\<lambda>t. dropping (delete_where (\<lambda>r. SessionSnapshot_Token r = Token_String token) t))"

definition pg_DeleteByUser ::
  "UserID \<Rightarrow> SessionSnapshot list world \<Rightarrow> unit res \<times> SessionSnapshot list world" where
  "pg_DeleteByUser userID =
     checked (\<lambda>t. dropping (delete_where (\<lambda>r. SessionSnapshot_UserID r = UserID_String userID) t))"

definition pg_session_unique :: "(string \<times> (SessionSnapshot \<Rightarrow> string)) list" where
  "pg_session_unique = [(''authgo_sessions_pkey'', SessionSnapshot_Token)]"

definition pg_sessionRotateSwap ::
  "pg \<Rightarrow> Token \<Rightarrow> Session \<Rightarrow> SessionSnapshot list world \<Rightarrow> unit res \<times> SessionSnapshot list world" where
  "pg_sessionRotateSwap p oldKey newSess w =
     and_then
       (checked (\<lambda>t. looking requireOneRow
          (delete_where (\<lambda>r. SessionSnapshot_Token r = Token_String oldKey) t)) w) (\<lambda>_.
     checked (\<lambda>t. dropping (insert_row (pg_unique_error p) pg_session_unique
       (pg_bind_session p (Session_Snapshot newSess)) t)))"

definition pg_SessionRotateAtomically ::
  "pg \<Rightarrow> executor \<Rightarrow> Token \<Rightarrow> Session \<Rightarrow> SessionSnapshot list world \<Rightarrow>
   unit res \<times> SessionSnapshot list world" where
  "pg_SessionRotateAtomically p db oldKey newSess =
     with_tx db (pg_sessionRotateSwap p oldKey newSess)"

section \<open>Magic links\<close>

definition pg_bind_link :: "pg \<Rightarrow> MagicLinkSnapshot \<Rightarrow> MagicLinkSnapshot" where
  "pg_bind_link p snap =
     snap\<lparr>MagicLinkSnapshot_ExpiresAt := pg_time p (MagicLinkSnapshot_ExpiresAt snap)\<rparr>"

definition pg_link_unique :: "(string \<times> (MagicLinkSnapshot \<Rightarrow> string)) list" where
  "pg_link_unique = [(''authgo_magic_links_pkey'', MagicLinkSnapshot_Hash)]"

definition pg_spend_rows ::
  "string \<Rightarrow> string \<Rightarrow> MagicLinkSnapshot list \<Rightarrow> Result res \<times> MagicLinkSnapshot list" where
  "pg_spend_rows email tenant =
     update_where (\<lambda>r. MagicLinkSnapshot_Email r = email \<and> MagicLinkSnapshot_TenantID r = tenant \<and>
         \<not> MagicLinkSnapshot_Consumed r)
       (\<lambda>r. r\<lparr>MagicLinkSnapshot_Consumed := True\<rparr>)"

definition pg_LinkSave ::
  "pg \<Rightarrow> MagicLink \<Rightarrow> MagicLinkSnapshot list world \<Rightarrow> unit res \<times> MagicLinkSnapshot list world" where
  "pg_LinkSave p l =
     checked (\<lambda>t. dropping (insert_row (pg_unique_error p) pg_link_unique
       (pg_bind_link p (MagicLink_Snapshot l)) t))"

definition pg_FindByHash ::
  "string \<Rightarrow> MagicLinkSnapshot list world \<Rightarrow> MagicLink res \<times> MagicLinkSnapshot list world" where
  "pg_FindByHash hash =
     checked (\<lambda>t. (fetched Inr MagicLinkFromSnapshot
       (select_row (\<lambda>r. MagicLinkSnapshot_Hash r = hash) t), t))"

definition pg_MarkConsumed ::
  "string \<Rightarrow> MagicLinkSnapshot list world \<Rightarrow> bool res \<times> MagicLinkSnapshot list world" where
  "pg_MarkConsumed hash =
     checked (\<lambda>t. looking affected
       (update_where (\<lambda>r. MagicLinkSnapshot_Hash r = hash \<and> \<not> MagicLinkSnapshot_Consumed r)
          (\<lambda>r. r\<lparr>MagicLinkSnapshot_Consumed := True\<rparr>) t))"

definition pg_InvalidateOutstanding ::
  "Email \<Rightarrow> TenantID \<Rightarrow> MagicLinkSnapshot list world \<Rightarrow> unit res \<times> MagicLinkSnapshot list world" where
  "pg_InvalidateOutstanding email tenantID =
     checked (\<lambda>t. dropping (pg_spend_rows (Email_String email) (TenantID_String tenantID) t))"

definition pg_magicIssueSwap ::
  "pg \<Rightarrow> MagicLink \<Rightarrow> MagicLinkSnapshot list world \<Rightarrow> unit res \<times> MagicLinkSnapshot list world" where
  "pg_magicIssueSwap p link w =
     (let snap = MagicLink_Snapshot link in
      and_then
        (checked (\<lambda>t. dropping
           (pg_spend_rows (MagicLinkSnapshot_Email snap) (MagicLinkSnapshot_TenantID snap) t)) w) (\<lambda>_.
      checked (\<lambda>t. dropping (insert_row (pg_unique_error p) pg_link_unique (pg_bind_link p snap) t))))"

definition pg_IssueAtomically ::
  "pg \<Rightarrow> executor \<Rightarrow> MagicLink \<Rightarrow> MagicLinkSnapshot list world \<Rightarrow>
   unit res \<times> MagicLinkSnapshot list world" where
  "pg_IssueAtomically p db link = with_tx db (pg_magicIssueSwap p link)"

section \<open>Login attempts\<close>

record pg_attempt_row =
  pg_attempt_key :: string
  pg_attempt_failure_count :: int
  pg_attempt_locked_until :: "time option"
  pg_attempt_updated_at :: time

text \<open>The range of an \<open>INTEGER\<close> column; the server refuses a statement that leaves it.\<close>

definition pg_integer :: "int \<Rightarrow> bool" where "pg_integer n \<longleftrightarrow> - (2 ^ 31) \<le> n \<and> n < 2 ^ 31"

definition pg_decode_attempt :: "pg_attempt_row \<Rightarrow> LoginAttemptSnapshot res" where
  "pg_decode_attempt r =
     Inr \<lparr>LoginAttemptSnapshot_Key = pg_attempt_key r,
          LoginAttemptSnapshot_FailureCount = pg_attempt_failure_count r,
          LoginAttemptSnapshot_LockedUntil =
            (case pg_attempt_locked_until r of None \<Rightarrow> 0 | Some t \<Rightarrow> t)\<rparr>"

definition pg_AttemptGet ::
  "string \<Rightarrow> pg_attempt_row list world \<Rightarrow> LoginAttemptSnapshot res \<times> pg_attempt_row list world" where
  "pg_AttemptGet key =
     checked (\<lambda>t. (fetched pg_decode_attempt id (select_row (\<lambda>r. pg_attempt_key r = key) t), t))"

definition pg_bind_attempt :: "pg \<Rightarrow> LoginAttemptSnapshot \<Rightarrow> time \<Rightarrow> pg_attempt_row" where
  "pg_bind_attempt p s updated =
     \<lparr>pg_attempt_key = LoginAttemptSnapshot_Key s,
      pg_attempt_failure_count = LoginAttemptSnapshot_FailureCount s,
      pg_attempt_locked_until =
        (if time_is_zero (LoginAttemptSnapshot_LockedUntil s) then None
         else Some (pg_time p (LoginAttemptSnapshot_LockedUntil s))),
      pg_attempt_updated_at = updated\<rparr>"

definition pg_AttemptSave ::
  "pg \<Rightarrow> LoginAttemptSnapshot \<Rightarrow> pg_attempt_row list world \<Rightarrow> unit res \<times> pg_attempt_row list world" where
  "pg_AttemptSave p s w =
     checked (\<lambda>t.
       if pg_integer (LoginAttemptSnapshot_FailureCount s)
       then dropping (upsert pg_attempt_key (pg_bind_attempt p s (pg_now p (pos w))) t)
       else (Inl (pg_range_error p), t)) w"

definition pg_AttemptDelete ::
  "string \<Rightarrow> pg_attempt_row list world \<Rightarrow> unit res \<times> pg_attempt_row list world" where
  "pg_AttemptDelete key = checked (\<lambda>t. dropping (delete_where (\<lambda>r. pg_attempt_key r = key) t))"

text \<open>The statement of \<open>RecordFailureAtomically\<close>: \<open>until IS NOT NULL AND until <= now\<close>, and \<open>until > now\<close>.\<close>

definition pg_lapsed :: "time option \<Rightarrow> time \<Rightarrow> bool" where
  "pg_lapsed until now = (case until of None \<Rightarrow> False | Some t \<Rightarrow> t \<le> now)"

definition pg_locked :: "time option \<Rightarrow> time \<Rightarrow> bool" where
  "pg_locked until now = (case until of None \<Rightarrow> False | Some t \<Rightarrow> now < t)"

definition pg_count_failure ::
  "int \<Rightarrow> time \<Rightarrow> time \<Rightarrow> time \<Rightarrow> pg_attempt_row \<Rightarrow> pg_attempt_row \<Rightarrow> pg_attempt_row" where
  "pg_count_failure maxFailures now lockAt updated x r =
     (let count = (if pg_lapsed (pg_attempt_locked_until x) now then 1
                   else pg_attempt_failure_count x + 1)
      in x\<lparr>pg_attempt_failure_count := count,
           pg_attempt_locked_until :=
             (if pg_locked (pg_attempt_locked_until x) now then pg_attempt_locked_until x
              else if maxFailures \<le> count then Some lockAt else None),
           pg_attempt_updated_at := updated\<rparr>)"

definition pg_first_failure :: "string \<Rightarrow> int \<Rightarrow> time \<Rightarrow> time \<Rightarrow> pg_attempt_row" where
  "pg_first_failure key maxFailures lockAt updated =
     \<lparr>pg_attempt_key = key, pg_attempt_failure_count = 1,
      pg_attempt_locked_until = (if maxFailures \<le> 1 then Some lockAt else None),
      pg_attempt_updated_at = updated\<rparr>"

definition pg_record_row ::
  "string \<Rightarrow> int \<Rightarrow> time \<Rightarrow> time \<Rightarrow> time \<Rightarrow> pg_attempt_row list \<Rightarrow> pg_attempt_row list" where
  "pg_record_row key maxFailures now lockAt updated t =
     snd (upsert_where pg_attempt_key (\<lambda>x r. True) (pg_count_failure maxFailures now lockAt updated)
       (pg_first_failure key maxFailures lockAt updated) t)"

definition pg_RecordFailureAtomically ::
  "pg \<Rightarrow> string \<Rightarrow> time \<Rightarrow> int \<Rightarrow> duration \<Rightarrow> pg_attempt_row list world \<Rightarrow>
   (LoginAttemptSnapshot \<times> bool) res \<times> pg_attempt_row list world" where
  "pg_RecordFailureAtomically p key now maxFailures window w =
     (let lockAt = now + window in
      checked (\<lambda>t.
        let t' = pg_record_row key maxFailures (pg_time p now) (pg_time p lockAt) (pg_now p (pos w)) t in
        if pg_integer maxFailures \<and> (\<forall>r \<in> set t'. pg_integer (pg_attempt_failure_count r))
        then (fetched pg_decode_attempt
                (\<lambda>snap. (snap, \<not> time_is_zero (LoginAttemptSnapshot_LockedUntil snap) \<and>
                               LoginAttemptSnapshot_FailureCount snap = maxFailures))
                (select_row (\<lambda>r. pg_attempt_key r = key) t'), t')
        else (Inl (pg_range_error p), t)) w)"

section \<open>The repositories\<close>

definition pg_UserRepo :: "pg \<Rightarrow> (UserSnapshot list world) UserRepository" where
  "pg_UserRepo p =
     \<lparr>UserRepository_GetUser = pg_GetUser, UserRepository_UpsertUser = pg_UpsertUser p\<rparr>"

definition pg_SessionRepo :: "pg \<Rightarrow> executor \<Rightarrow> (SessionSnapshot list world) SessionRepository" where
  "pg_SessionRepo p db =
     \<lparr>SessionRepository_Save = pg_SessionSave p,
      SessionRepository_FindByToken = pg_FindByToken,
      SessionRepository_Delete = pg_SessionDelete,
      SessionRepository_DeleteByUser = pg_DeleteByUser,
      SessionRepository_RotateAtomically = Some (pg_SessionRotateAtomically p db)\<rparr>"

definition pg_MagicLinkRepo :: "pg \<Rightarrow> executor \<Rightarrow> (MagicLinkSnapshot list world) MagicLinkRepository" where
  "pg_MagicLinkRepo p db =
     \<lparr>MagicLinkRepository_Save = pg_LinkSave p,
      MagicLinkRepository_FindByHash = pg_FindByHash,
      MagicLinkRepository_MarkConsumed = pg_MarkConsumed,
      MagicLinkRepository_InvalidateOutstanding = pg_InvalidateOutstanding,
      MagicLinkRepository_IssueAtomically = Some (pg_IssueAtomically p db)\<rparr>"

definition pg_LoginAttemptRepo :: "pg \<Rightarrow> (pg_attempt_row list world) LoginAttemptStore" where
  "pg_LoginAttemptRepo p =
     \<lparr>LoginAttemptStore_Get = pg_AttemptGet,
      LoginAttemptStore_Save = pg_AttemptSave p,
      LoginAttemptStore_Delete = pg_AttemptDelete,
      LoginAttemptStore_RecordFailureAtomically = Some (pg_RecordFailureAtomically p)\<rparr>"

section \<open>The tables as Go maps\<close>

definition pg_users_of :: "UserSnapshot list \<Rightarrow> user_map" where
  "pg_users_of = row_map UserSnapshot_ID Inr"

definition pg_users_ok :: "UserSnapshot list \<Rightarrow> bool" where
  "pg_users_ok = rows_ok UserSnapshot_ID (Inr :: UserSnapshot \<Rightarrow> UserSnapshot res)"

definition pg_sessions_of :: "SessionSnapshot list \<Rightarrow> session_map" where
  "pg_sessions_of = row_map SessionSnapshot_Token Inr"

definition pg_sessions_ok :: "SessionSnapshot list \<Rightarrow> bool" where
  "pg_sessions_ok = rows_ok SessionSnapshot_Token (Inr :: SessionSnapshot \<Rightarrow> SessionSnapshot res)"

definition pg_links_of :: "MagicLinkSnapshot list \<Rightarrow> link_map" where
  "pg_links_of = row_map MagicLinkSnapshot_Hash Inr"

definition pg_links_ok :: "MagicLinkSnapshot list \<Rightarrow> bool" where
  "pg_links_ok = rows_ok MagicLinkSnapshot_Hash (Inr :: MagicLinkSnapshot \<Rightarrow> MagicLinkSnapshot res)"

definition pg_attempts_of :: "pg_attempt_row list \<Rightarrow> attempt_map" where
  "pg_attempts_of = row_map pg_attempt_key pg_decode_attempt"

text \<open>No lock ends at Go's zero time, which the code reads as no lock.\<close>

definition pg_attempts_ok :: "pg_attempt_row list \<Rightarrow> bool" where
  "pg_attempts_ok t \<longleftrightarrow> rows_ok pg_attempt_key pg_decode_attempt t \<and>
     (\<forall>r \<in> set t. pg_attempt_locked_until r \<noteq> Some 0)"

interpretation pu: keyed_rows UserSnapshot_ID "Inr :: UserSnapshot \<Rightarrow> UserSnapshot res" UserSnapshot_ID
  by unfold_locales simp

interpretation ps: keyed_rows SessionSnapshot_Token "Inr :: SessionSnapshot \<Rightarrow> SessionSnapshot res" SessionSnapshot_Token
  by unfold_locales simp

interpretation pl: keyed_rows MagicLinkSnapshot_Hash "Inr :: MagicLinkSnapshot \<Rightarrow> MagicLinkSnapshot res" MagicLinkSnapshot_Hash
  by unfold_locales simp

interpretation pa: keyed_rows pg_attempt_key pg_decode_attempt LoginAttemptSnapshot_Key
  by unfold_locales (auto simp: pg_decode_attempt_def)

lemmas pg_views = pg_users_of_def pg_users_ok_def pg_sessions_of_def pg_sessions_ok_def
  pg_links_of_def pg_links_ok_def

text \<open>Binding keeps the key, and changes nothing when the instants are kept.\<close>

lemma pg_bind_keys [simp]:
  "UserSnapshot_ID (pg_bind_user p u) = UserSnapshot_ID u"
  "SessionSnapshot_Token (pg_bind_session p s) = SessionSnapshot_Token s"
  "MagicLinkSnapshot_Hash (pg_bind_link p l) = MagicLinkSnapshot_Hash l"
  by (simp_all add: pg_bind_user_def pg_bind_session_def pg_bind_link_def)

lemma pg_bind_kept:
  "pg_kept p (User_createdAt u) \<Longrightarrow> pg_kept p (User_updatedAt u) \<Longrightarrow> pg_bind_user p (User_Snapshot u) = User_Snapshot u"
  "pg_kept p (Session_createdAt s) \<Longrightarrow> pg_kept p (Session_expiresAt s) \<Longrightarrow>
     pg_bind_session p (Session_Snapshot s) = Session_Snapshot s"
  "pg_kept p (MagicLink_expiresAt l) \<Longrightarrow> pg_bind_link p (MagicLink_Snapshot l) = MagicLink_Snapshot l"
  by (simp_all add: pg_kept_def pg_bind_user_def pg_bind_session_def pg_bind_link_def User_Snapshot_def
      Session_Snapshot_def MagicLink_Snapshot_def)

section \<open>Users, sessions and links behave like the in-memory maps\<close>

lemma pg_GetUser_mirrors:
  assumes "pg_users_ok (store w)"
  shows "mirrors pg_users_of pg_users_ok w (pg_GetUser n i w) (UserRepo_GetUser n i)"
  using assms unfolding pg_views pg_GetUser_def UserRepo_GetUser_def
  by (rule pu.find_and_mirrors) simp

lemma pg_UpsertUser_mirrors:
  assumes "pg_users_ok (store w)" and "pg_kept p (User_createdAt u)" and "pg_kept p (User_updatedAt u)"
  shows "mirrors pg_users_of pg_users_ok w (pg_UpsertUser p u w) (UserRepo_UpsertUser u)"
  using pu.upsert_mirrors [of w "User_Snapshot u" "User_Snapshot u"] assms
  by (simp add: pg_views pg_UpsertUser_def UserRepo_UpsertUser_def Let_def pg_bind_kept)

lemma pg_SessionSave_mirrors:
  assumes "pg_sessions_ok (store w)" and "pg_kept p (Session_createdAt s)" and "pg_kept p (Session_expiresAt s)"
  shows "mirrors pg_sessions_of pg_sessions_ok w (pg_SessionSave p s w) (SessionRepo_Save s)"
  using ps.upsert_mirrors [of w "Session_Snapshot s" "Session_Snapshot s"] assms
  by (simp add: pg_views pg_SessionSave_def SessionRepo_Save_def Let_def pg_bind_kept)

lemma pg_FindByToken_mirrors:
  assumes "pg_sessions_ok (store w)"
  shows "mirrors pg_sessions_of pg_sessions_ok w (pg_FindByToken tok w) (SessionRepo_FindByToken tok)"
  using assms unfolding pg_views pg_FindByToken_def SessionRepo_FindByToken_def
  by (rule ps.find_mirrors)

lemma pg_SessionDelete_mirrors:
  assumes "pg_sessions_ok (store w)"
  shows "mirrors pg_sessions_of pg_sessions_ok w (pg_SessionDelete tok w) (SessionRepo_Delete tok)"
  using assms unfolding pg_views pg_SessionDelete_def SessionRepo_Delete_def
  by (rule ps.delete_key_mirrors)

lemma pg_DeleteByUser_mirrors:
  assumes "pg_sessions_ok (store w)"
  shows "mirrors pg_sessions_of pg_sessions_ok w (pg_DeleteByUser u w) (SessionRepo_DeleteByUser u)"
  using assms unfolding pg_views pg_DeleteByUser_def SessionRepo_DeleteByUser_def
  by (rule ps.delete_where_mirrors) simp

lemma runs_pg_sessionRotateSwap:
  "runs (\<lambda>t. and_then (looking requireOneRow (delete_where (\<lambda>r. SessionSnapshot_Token r = Token_String tok) t))
      (\<lambda>_ t. dropping (insert_row (pg_unique_error p) [(''authgo_sessions_pkey'', SessionSnapshot_Token)]
         (pg_bind_session p (Session_Snapshot s)) t))) w (pg_sessionRotateSwap p tok s w)"
  unfolding pg_sessionRotateSwap_def pg_session_unique_def
  by (intro runs_and_then runs_checked)

lemma pg_rotation_simulates:
  assumes "pg_sessions_ok (store w)" and "pg_kept p (Session_createdAt s)" and "pg_kept p (Session_expiresAt s)"
    and "gomap_get (pg_sessions_of (store w)) (SessionSnapshot_Token (Session_Snapshot s)) = None \<or>
      SessionSnapshot_Token (Session_Snapshot s) = Token_String tok"
  shows "simulates pg_sessions_of pg_sessions_ok w
    (pg_SessionRotateAtomically p SqlDB tok s w) (SessionRepo_RotateAtomically tok s)"
  using ps.delete_insert_simulates [OF runs_pg_sessionRotateSwap, of w p s "Session_Snapshot s" tok]
    assms pg_bind_kept(2) [OF assms(2,3)]
  unfolding pg_SessionRotateAtomically_def SessionRepo_RotateAtomically_def pg_views Let_def
  by (simp cong: option.case_cong)

lemma pg_LinkSave_mirrors:
  assumes "pg_links_ok (store w)" and "pg_kept p (MagicLink_expiresAt l)"
    and "gomap_get (pg_links_of (store w)) (MagicLink_hash l) = None"
  shows "mirrors pg_links_of pg_links_ok w (pg_LinkSave p l w) (MagicLinkRepo_Save l)"
proof -
  have "MagicLinkSnapshot_Hash (MagicLink_Snapshot l) = MagicLink_hash l" by (simp add: MagicLink_Snapshot_def)
  with pl.insert_mirrors [of w "MagicLink_Snapshot l" "MagicLink_Snapshot l"] assms show ?thesis
    by (simp add: pg_views pg_LinkSave_def MagicLinkRepo_Save_def Let_def pg_bind_kept pg_link_unique_def)
qed

lemma pg_FindByHash_mirrors:
  assumes "pg_links_ok (store w)"
  shows "mirrors pg_links_of pg_links_ok w (pg_FindByHash h w) (MagicLinkRepo_FindByHash h)"
  using assms unfolding pg_views pg_FindByHash_def MagicLinkRepo_FindByHash_def
  by (rule pl.find_mirrors)

lemma pg_InvalidateOutstanding_mirrors:
  assumes "pg_links_ok (store w)"
  shows "mirrors pg_links_of pg_links_ok w (pg_InvalidateOutstanding e n w)
    (MagicLinkRepo_InvalidateOutstanding e n)"
  using assms unfolding pg_views pg_InvalidateOutstanding_def MagicLinkRepo_InvalidateOutstanding_def
    pg_spend_rows_def invalidateLocked_def
  by (rule pl.update_where_mirrors) auto

lemma pg_MarkConsumed_mirrors:
  assumes "pg_links_ok (store w)"
  shows "mirrors pg_links_of pg_links_ok w (pg_MarkConsumed h w) (MagicLinkRepo_MarkConsumed h)"
  using assms unfolding pg_views pg_MarkConsumed_def MagicLinkRepo_MarkConsumed_def
  by (rule pl.flip_mirrors) auto

lemma runs_pg_magicIssueSwap:
  "runs (\<lambda>t. and_then (dropping (update_where
        (\<lambda>r. MagicLinkSnapshot_Email r = MagicLinkSnapshot_Email (MagicLink_Snapshot l) \<and>
           MagicLinkSnapshot_TenantID r = MagicLinkSnapshot_TenantID (MagicLink_Snapshot l) \<and>
           \<not> MagicLinkSnapshot_Consumed r) (\<lambda>r. r\<lparr>MagicLinkSnapshot_Consumed := True\<rparr>) t))
      (\<lambda>_ t. dropping (insert_row (pg_unique_error p) [(''authgo_magic_links_pkey'', MagicLinkSnapshot_Hash)]
         (pg_bind_link p (MagicLink_Snapshot l)) t))) w (pg_magicIssueSwap p l w)"
  unfolding pg_magicIssueSwap_def Let_def pg_spend_rows_def pg_link_unique_def
  by (intro runs_and_then runs_checked)

text \<open>The link as the server keeps it.\<close>

definition pg_link :: "pg \<Rightarrow> MagicLink \<Rightarrow> MagicLink" where
  "pg_link p l = l\<lparr>MagicLink_expiresAt := pg_time p (MagicLink_expiresAt l)\<rparr>"

lemma pg_bind_link_kept: "pg_bind_link p (MagicLink_Snapshot l) = MagicLink_Snapshot (pg_link p l)"
  by (simp add: pg_bind_link_def MagicLink_Snapshot_def pg_link_def)

lemma pg_link_kept: "pg_kept p (MagicLink_expiresAt l) \<Longrightarrow> pg_link p l = l"
  by (simp add: pg_link_def pg_kept_def)

lemma pg_issue_simulates:
  assumes "pg_links_ok (store w)" and "gomap_get (pg_links_of (store w)) (MagicLink_hash l) = None"
  shows "simulates pg_links_of pg_links_ok w (pg_IssueAtomically p SqlDB l w) (MagicLinkRepo_IssueAtomically (pg_link p l))"
proof -
  have hash: "MagicLinkSnapshot_Hash (MagicLink_Snapshot l) = MagicLink_hash l" by (simp add: MagicLink_Snapshot_def)
  have "simulates (row_map MagicLinkSnapshot_Hash Inr) (rows_ok MagicLinkSnapshot_Hash (Inr :: MagicLinkSnapshot \<Rightarrow> MagicLinkSnapshot res)) w
    (with_tx SqlDB (pg_magicIssueSwap p l) w)
    (checked (\<lambda>m. (Inr (), gomap_set (MagicLinkSnapshot_Hash (pg_bind_link p (MagicLink_Snapshot l))) (MagicLink_Snapshot (pg_link p l))
       (invalidateLocked (MagicLink_email l) (MagicLink_tenantID l) m))))"
    unfolding invalidateLocked_def
    by (rule pl.update_insert_simulates [OF runs_pg_magicIssueSwap])
       (use assms hash in \<open>auto simp: pg_views MagicLink_Snapshot_def pg_bind_link_def pg_link_def\<close>)
  moreover have "MagicLinkSnapshot_Hash (pg_bind_link p (MagicLink_Snapshot l)) = MagicLinkSnapshot_Hash (MagicLink_Snapshot (pg_link p l))"
    by (simp only: pg_bind_link_kept)
  ultimately show ?thesis
    by (simp add: pg_views pg_IssueAtomically_def MagicLinkRepo_IssueAtomically_def Let_def pg_link_def)
qed

section \<open>Login attempts behave like the in-memory map\<close>

lemma pg_count_failure_decodes:
  assumes "pg_attempt_locked_until x \<noteq> Some 0" and "pg_decode_attempt x = Inr s" and "now + window \<noteq> 0"
  shows "pg_decode_attempt (pg_count_failure m now (now + window) upd x r) = Inr (record_body m window now s) \<and>
    pg_attempt_locked_until (pg_count_failure m now (now + window) upd x r) \<noteq> Some 0"
  using assms
  by (cases "pg_attempt_locked_until x")
     (auto simp: pg_decode_attempt_def pg_count_failure_def Let_def pg_lapsed_def pg_locked_def record_body_def
       time_is_zero_def before_def)

lemma pg_first_failure_decodes:
  assumes "now + window \<noteq> 0"
  shows "pg_decode_attempt (pg_first_failure key m (now + window) upd) =
      Inr (record_body m window now \<lparr>LoginAttemptSnapshot_Key = key,
        LoginAttemptSnapshot_FailureCount = 0, LoginAttemptSnapshot_LockedUntil = 0\<rparr>) \<and>
    pg_attempt_locked_until (pg_first_failure key m (now + window) upd) \<noteq> Some 0"
  using assms
  by (auto simp: pg_first_failure_def record_body_def time_is_zero_def pg_decode_attempt_def)

lemma pg_record_rows:
  fixes key :: string and m :: int and upd :: time
  assumes "pg_attempts_ok t" and "now + window \<noteq> 0"
  defines "s \<equiv> record_body m window now
      ((case gomap_get (pg_attempts_of t) key of Some snap \<Rightarrow> snap
        | None \<Rightarrow> \<lparr>LoginAttemptSnapshot_Key = [], LoginAttemptSnapshot_FailureCount = 0,
                  LoginAttemptSnapshot_LockedUntil = 0\<rparr>)\<lparr>LoginAttemptSnapshot_Key := key\<rparr>)"
    and "t' \<equiv> pg_record_row key m now (now + window) upd t"
  shows "pg_attempts_ok t' \<and> pg_attempts_of t' = gomap_set key s (pg_attempts_of t)"
proof -
  let ?r = "pg_first_failure key m (now + window) upd"
  let ?f = "\<lambda>x. pg_count_failure m now (now + window) upd x"
  have ok: "rows_ok pg_attempt_key pg_decode_attempt t"
    and locks: "\<And>r. r \<in> set t \<Longrightarrow> pg_attempt_locked_until r \<noteq> Some 0"
    using assms(1) by (auto simp: pg_attempts_ok_def)
  have key [simp]: "pg_attempt_key ?r = key" "pg_attempt_key (?f x r) = pg_attempt_key x" for x r
    by (simp_all add: pg_first_failure_def pg_count_failure_def Let_def)
  have old: "pg_decode_attempt (?f x r) = Inr s \<and> pg_attempt_locked_until (?f x r) \<noteq> Some 0"
    if x: "x \<in> set t" "pg_attempt_key x = key" for x r
  proof -
    from pa.entry [OF ok x(1)] x(2) obtain v where d: "pg_decode_attempt x = Inr v"
      and v: "gomap_get (pg_attempts_of t) key = Some v" by (auto simp: pg_attempts_of_def)
    have "LoginAttemptSnapshot_Key v = key" using pa.dec_key [OF d] x by simp
    with v have "s = record_body m window now v" by (cases v) (simp add: s_def)
    with pg_count_failure_decodes [OF locks [OF x(1)] d assms(2)] show ?thesis by simp
  qed
  have new: "pg_decode_attempt ?r = Inr s" if "key \<notin> pg_attempt_key ` set t"
  proof -
    have "gomap_get (pg_attempts_of t) key = None"
      using that unfolding pa.in_keys by (simp add: pg_attempts_of_def)
    with pg_first_failure_decodes [OF assms(2)] show ?thesis by (simp add: s_def)
  qed
  have "rows_ok pg_attempt_key pg_decode_attempt t' \<and> pg_attempts_of t' = gomap_set key s (pg_attempts_of t)"
    unfolding t'_def pg_record_row_def pg_attempts_of_def
    by (rule pa.upsert_where [OF ok]) (use old new in auto)
  moreover have "pg_attempt_locked_until r \<noteq> Some 0" if "r \<in> set t'" for r
    using that locks old pg_first_failure_decodes [OF assms(2)]
    by (auto simp: t'_def pg_record_row_def upsert_where_def update_where_def split: if_splits)
  ultimately show ?thesis by (simp add: pg_attempts_ok_def)
qed

lemma pg_AttemptGet_mirrors:
  assumes "pg_attempts_ok (store w)"
  shows "mirrors pg_attempts_of pg_attempts_ok w (pg_AttemptGet key w) (LoginAttemptRepo_Get key)"
  unfolding pg_AttemptGet_def LoginAttemptRepo_Get_def
  by (rule mirrors_checked)
     (use assms in \<open>auto simp: pg_attempts_of_def pg_attempts_ok_def pa.fetched_key split: option.splits\<close>)

lemma pg_AttemptDelete_mirrors:
  assumes "pg_attempts_ok (store w)"
  shows "mirrors pg_attempts_of pg_attempts_ok w (pg_AttemptDelete key w) (LoginAttemptRepo_Delete key)"
  unfolding pg_AttemptDelete_def LoginAttemptRepo_Delete_def
  by (rule mirrors_checked)
     (use assms pa.delete_key [of "store w"] in \<open>auto simp: pg_attempts_of_def pg_attempts_ok_def\<close>)

lemma pg_AttemptSave_mirrors:
  assumes "pg_attempts_ok (store w)" and "pg_kept p (LoginAttemptSnapshot_LockedUntil s)"
    and "pg_integer (LoginAttemptSnapshot_FailureCount s)"
  shows "mirrors pg_attempts_of pg_attempts_ok w (pg_AttemptSave p s w) (LoginAttemptRepo_Save s)"
proof -
  let ?r = "pg_bind_attempt p s (pg_now p (pos w))"
  have r: "pg_decode_attempt ?r = Inr s" "pg_attempt_key ?r = LoginAttemptSnapshot_Key s"
    "pg_attempt_locked_until ?r \<noteq> Some 0"
    using assms(2) by (auto simp: pg_bind_attempt_def pg_decode_attempt_def time_is_zero_def pg_kept_def)
  moreover have "pg_attempt_locked_until x \<noteq> Some 0" if "x \<in> set (snd (upsert pg_attempt_key ?r (store w)))" for x
    using that assms(1) r(3)
    by (auto simp: upsert_def upsert_where_def update_where_def pg_attempts_ok_def split: if_splits)
  ultimately show ?thesis
    unfolding pg_AttemptSave_def LoginAttemptRepo_Save_def
    by (intro mirrors_checked)
       (use assms pa.upsert [of "store w" ?r s] in \<open>auto simp: pg_attempts_of_def pg_attempts_ok_def\<close>)
qed

text \<open>Every stored count, and the one after another failure, fits its column.\<close>

definition pg_counts_fit :: "pg_attempt_row list \<Rightarrow> bool" where
  "pg_counts_fit t \<longleftrightarrow> (\<forall>r \<in> set t. pg_integer (pg_attempt_failure_count r) \<and>
     pg_integer (pg_attempt_failure_count r + 1))"

lemma pg_record_row_fits:
  "pg_counts_fit t \<Longrightarrow> r \<in> set (pg_record_row key m now lockAt upd t) \<Longrightarrow> pg_integer (pg_attempt_failure_count r)"
  by (auto simp: pg_record_row_def upsert_where_def update_where_def pg_counts_fit_def pg_first_failure_def
      pg_count_failure_def Let_def pg_integer_def split: if_splits)

lemma pg_RecordFailure_mirrors:
  assumes "pg_attempts_ok (store w)" and "pg_counts_fit (store w)" and "pg_integer m" and "pg_time p (now + window) \<noteq> 0"
  shows "mirrors pg_attempts_of pg_attempts_ok w
    (pg_RecordFailureAtomically p key now m window w)
    (LoginAttemptRepo_RecordFailureAtomically key (pg_time p now) m (pg_time p (now + window) - pg_time p now))"
proof -
  define now' window' where "now' = pg_time p now" and "window' = pg_time p (now + window) - pg_time p now"
  have sum: "pg_time p (now + window) = now' + window'" by (simp add: now'_def window'_def)
  let ?t = "pg_record_row key m now' (now' + window') (pg_now p (pos w)) (store w)"
  note row = pg_record_rows [OF assms(1), of now' window' key m "pg_now p (pos w)"] assms(4) [unfolded sum]
  then have ok: "rows_ok pg_attempt_key pg_decode_attempt ?t" by (simp add: pg_attempts_ok_def)
  have "gomap_get (row_map pg_attempt_key pg_decode_attempt ?t) key \<noteq> None"
    using row by (simp add: pg_attempts_of_def)
  with row show ?thesis
    unfolding pg_RecordFailureAtomically_def LoginAttemptRepo_RecordFailureAtomically_def Let_def sum
      now'_def [symmetric] window'_def [symmetric]
    by (intro mirrors_checked)
       (use assms(1,3) pg_record_row_fits [OF assms(2)] in \<open>auto simp: pa.fetched_key [OF ok] pg_attempts_of_def\<close>)
qed

section \<open>The services over Postgres\<close>

interpretation psvc: mirrored_sessions "pg_SessionRepo p db" SessionRepo pg_sessions_of pg_sessions_ok "pg_kept p"
  for p db
  by unfold_locales
     (simp_all add: pg_SessionRepo_def SessionRepo_def pg_SessionSave_mirrors
        pg_FindByToken_mirrors pg_SessionDelete_mirrors pg_DeleteByUser_mirrors)

text \<open>C30: the session service over the Postgres repository does, call by call, what it does over the
  in-memory one; issuing does for every clock whose instants, and their ends of life, the server keeps
  exactly. A rotation that fails leaves the table as it was, and one that succeeds is the in-memory
  rotation, provided the new key is not taken and the server keeps the new session's instants.\<close>

theorem pg_session_service:
  fixes p :: pg and db :: executor and ttl :: duration
  assumes "pg_sessions_ok (store w)"
  defines "P \<equiv> NewSessionService (pg_SessionRepo p db) ttl" and "Q \<equiv> NewSessionService SessionRepo ttl"
  shows "mirrors pg_sessions_of pg_sessions_ok w (SessionService_Validate P tok w) (SessionService_Validate Q tok) \<and>
    mirrors pg_sessions_of pg_sessions_ok w (SessionService_Revoke P tok w) (SessionService_Revoke Q tok) \<and>
    mirrors pg_sessions_of pg_sessions_ok w (SessionService_RevokeAll P u w) (SessionService_RevokeAll Q u) \<and>
    (clock_fits (pg_kept p) ttl w \<longrightarrow>
       mirrors pg_sessions_of pg_sessions_ok w (SessionService_Issue P u t w) (SessionService_Issue Q u t)) \<and>
    (isl (fst (pg_SessionRotateAtomically p SqlDB key s w)) \<longrightarrow>
       store (snd (pg_SessionRotateAtomically p SqlDB key s w)) = store w) \<and>
    (pg_kept p (Session_createdAt s) \<longrightarrow> pg_kept p (Session_expiresAt s) \<longrightarrow>
       gomap_get (pg_sessions_of (store w)) (SessionSnapshot_Token (Session_Snapshot s)) = None \<longrightarrow>
       simulates pg_sessions_of pg_sessions_ok w (pg_SessionRotateAtomically p SqlDB key s w)
         (SessionRepo_RotateAtomically key s))"
proof -
  have "isl (fst (pg_SessionRotateAtomically p SqlDB key s w)) \<longrightarrow>
      store (snd (pg_SessionRotateAtomically p SqlDB key s w)) = store w"
    using with_tx_runs [OF runs_pg_sessionRotateSwap, of key p s w] by (simp add: pg_SessionRotateAtomically_def)
  then show ?thesis
    unfolding P_def Q_def
    using psvc.validate [OF assms(1), of p db ttl tok] psvc.revoke [OF assms(1), of p db ttl tok]
      psvc.revoke_all [OF assms(1), of p db ttl u] psvc.issue [OF assms(1), of p ttl db u t]
      pg_rotation_simulates [OF assms(1), of p s key] by blast
qed

text \<open>A server that keeps microseconds, the instants counted in nanoseconds.\<close>

definition toy_pg :: pg where
  "toy_pg = \<lparr>pg_time = (\<lambda>t. t div 1000 * 1000), pg_now = (\<lambda>_. 63000000000 * second),
     pg_unique_error = (\<lambda>c. ErrExternal (''duplicate key value violates unique constraint '' @ c)),
     pg_range_error = ErrExternal ''integer out of range'',
     pg_sql_state = (\<lambda>e. if e = ErrExternal ''integer out of range'' then Some ''22003'' else Some ''23505''),
     pg_column = ScanString\<rparr>"

definition pg_toy_session :: Session where
  "pg_toy_session = \<lparr>Session_token = Token ''t'', Session_tokenHash = ''h'', Session_userID = UserID ''u'',
     Session_tenantID = TenantID ''n'', Session_createdAt = 63000000000 * second,
     Session_expiresAt = 63000003600 * second\<rparr>"

theorem pg_session_service_witness:
  "simulates pg_sessions_of pg_sessions_ok (calm 5 0 [])
     (pg_SessionRotateAtomically toy_pg SqlDB (Token ''h'') pg_toy_session (calm 5 0 []))
     (SessionRepo_RotateAtomically (Token ''h'') pg_toy_session) \<and>
   mirrors pg_sessions_of pg_sessions_ok (calm (63000000000 * second) 0 [])
     (SessionService_Issue (NewSessionService (pg_SessionRepo toy_pg SqlDB) (60 * second))
        (UserID ''u'') (TenantID ''n'') (calm (63000000000 * second) 0 []))
     (SessionService_Issue (NewSessionService SessionRepo (60 * second)) (UserID ''u'') (TenantID ''n''))"
proof -
  have ok: "pg_sessions_ok (store (calm t 0 []))" for t by (simp add: pg_sessions_ok_def ps.empty_ok)
  have kept: "pg_kept toy_pg (Session_createdAt pg_toy_session)" "pg_kept toy_pg (Session_expiresAt pg_toy_session)"
    by (simp_all add: pg_kept_def toy_pg_def pg_toy_session_def second_def)
  have fresh: "gomap_get (pg_sessions_of (store (calm 5 0 []))) k = None" for k
    by (simp add: pg_sessions_of_def ps.empty_ok)
  have fits: "clock_fits (pg_kept toy_pg) (60 * second) (calm (63000000000 * second) 0 [])"
    by (simp add: clock_fits_def calm_def pg_kept_def toy_pg_def second_def)
  show ?thesis
    using pg_session_service [OF ok [of 5], where p = toy_pg and s = pg_toy_session and key = "Token ''h''"]
      pg_session_service [OF ok [of "63000000000 * second"], where p = toy_pg and db = SqlDB and ttl = "60 * second"
        and u = "UserID ''u''" and t = "TenantID ''n''"] kept fresh fits
    by blast
qed

text \<open>C31: the magic-link and login-attempt operations in Postgres are the in-memory ones, at the instants the
  server keeps (it drops what is finer than a microsecond). Redeeming flips a link at most once. Issuing
  spends the outstanding links and inserts the new one, with its expiry as kept, in one transaction, or
  changes nothing. A failed login is counted, and the account locked, as in memory at the present
  instant as kept and with the end of a lock as kept, however stored lock and present instant lie to
  each other, as long as the counts and the limit fit the \<open>INTEGER\<close> column (and the end of a lock is
  not Go's zero time).\<close>

theorem pg_links_attempts_refine:
  assumes "pg_links_ok (store w)" and "pg_attempts_ok (store v)"
  shows "mirrors pg_links_of pg_links_ok w (pg_FindByHash h w) (MagicLinkRepo_FindByHash h) \<and>
    mirrors pg_links_of pg_links_ok w (pg_MarkConsumed h w) (MagicLinkRepo_MarkConsumed h) \<and>
    mirrors pg_links_of pg_links_ok w (pg_InvalidateOutstanding e n w) (MagicLinkRepo_InvalidateOutstanding e n) \<and>
    (isl (fst (pg_IssueAtomically p SqlDB l w)) \<longrightarrow> store (snd (pg_IssueAtomically p SqlDB l w)) = store w) \<and>
    (gomap_get (pg_links_of (store w)) (MagicLink_hash l) = None \<longrightarrow>
       simulates pg_links_of pg_links_ok w (pg_IssueAtomically p SqlDB l w)
         (MagicLinkRepo_IssueAtomically (l\<lparr>MagicLink_expiresAt := pg_time p (MagicLink_expiresAt l)\<rparr>))) \<and>
    mirrors pg_attempts_of pg_attempts_ok v (pg_AttemptGet key v) (LoginAttemptRepo_Get key) \<and>
    mirrors pg_attempts_of pg_attempts_ok v (pg_AttemptDelete key v) (LoginAttemptRepo_Delete key) \<and>
    (pg_counts_fit (store v) \<longrightarrow> pg_integer m \<longrightarrow> pg_time p (now + window) \<noteq> 0 \<longrightarrow>
       mirrors pg_attempts_of pg_attempts_ok v (pg_RecordFailureAtomically p key now m window v)
         (LoginAttemptRepo_RecordFailureAtomically key (pg_time p now) m (pg_time p (now + window) - pg_time p now)))"
  using assms with_tx_runs [OF runs_pg_magicIssueSwap, of l p w] pg_issue_simulates [of w l p, unfolded pg_link_def]
  by (simp add: pg_FindByHash_mirrors pg_MarkConsumed_mirrors pg_InvalidateOutstanding_mirrors
      pg_AttemptGet_mirrors pg_AttemptDelete_mirrors pg_RecordFailure_mirrors pg_IssueAtomically_def [symmetric])

definition pg_locked_rows :: "pg_attempt_row list" where
  "pg_locked_rows = [\<lparr>pg_attempt_key = ''k'', pg_attempt_failure_count = 3,
     pg_attempt_locked_until = Some (63000000900 * second), pg_attempt_updated_at = 0\<rparr>]"

text \<open>A failure seven nanoseconds past the second, which the server does not keep.\<close>

theorem pg_links_attempts_refine_witness:
  "mirrors pg_attempts_of pg_attempts_ok (calm 5 0 pg_locked_rows)
     (pg_RecordFailureAtomically toy_pg ''k'' (63000000000 * second + 7) 3 (900 * second) (calm 5 0 pg_locked_rows))
     (LoginAttemptRepo_RecordFailureAtomically ''k'' (63000000000 * second) 3 (900 * second))"
proof -
  let ?w = "calm 5 0 pg_locked_rows" and ?now = "63000000000 * second + 7 :: time"
  have l: "pg_links_ok (store (calm 5 0 []))" by (simp add: pg_links_ok_def pl.empty_ok)
  have a: "pg_attempts_ok (store ?w)"
    by (simp add: pg_attempts_ok_def rows_ok_def pg_decode_attempt_def pg_locked_rows_def second_def)
  have t: "pg_time toy_pg ?now = 63000000000 * second" "pg_time toy_pg (?now + 900 * second) = 63000000900 * second"
    by (simp_all add: toy_pg_def second_def)
  have "pg_counts_fit (store ?w) \<and> pg_integer 3 \<and> pg_time toy_pg (?now + 900 * second) \<noteq> 0"
    unfolding t by (simp add: pg_counts_fit_def pg_integer_def pg_locked_rows_def second_def)
  with pg_links_attempts_refine [OF l a, where p = toy_pg] have "mirrors pg_attempts_of pg_attempts_ok ?w
      (pg_RecordFailureAtomically toy_pg ''k'' ?now 3 (900 * second) ?w)
      (LoginAttemptRepo_RecordFailureAtomically ''k'' (pg_time toy_pg ?now) 3
        (pg_time toy_pg (?now + 900 * second) - pg_time toy_pg ?now))" by blast
  then show ?thesis unfolding t by (simp add: second_def)
qed

end
