(* ===== verification/PgstoreKeys.thy ===== *)
theory PgstoreKeys
  imports Pgstore SqlKeys
begin

text \<open>
  The \<open>WorkloadKeyRepo\<close> of \<open>src/adapters/pgstore\<close>: an interpretation of \<open>key_table\<close>. The scope is
  written as a Postgres array literal and read back from the text of the array. What the code
  relies on of the server: \<open>pg_array_ok\<close>, an array of plain elements is printed as it was written,
  without quotes; \<open>pg_driver_ok\<close>, the error of a violated constraint has SQLSTATE 23505.
\<close>

section \<open>The scope as an array literal\<close>

definition comma :: char where "comma = CHR '',''"
definition quote :: char where "quote = chr 34"
definition open_brace :: string where "open_brace = [chr 123]"
definition close_brace :: string where "close_brace = [chr 125]"

definition pgTextArray :: "string list \<Rightarrow> string" where
  "pgTextArray xs = open_brace @ join [comma] xs @ close_brace"

text \<open>\<open>strings.TrimPrefix\<close>, \<open>strings.TrimSuffix\<close>, and \<open>strings.Trim\<close> with one character.\<close>

definition trim_prefix :: "string \<Rightarrow> string \<Rightarrow> string" where
  "trim_prefix s p = (if has_prefix s p then drop (length p) s else s)"

definition trim_suffix :: "string \<Rightarrow> string \<Rightarrow> string" where
  "trim_suffix s p = (if has_prefix (rev s) (rev p) then take (length s - length p) s else s)"

definition trim_char :: "string \<Rightarrow> char \<Rightarrow> string" where
  "trim_char s c = rev (dropWhile (\<lambda>x. x = c) (rev (dropWhile (\<lambda>x. x = c) s)))"

definition errScopeScan :: error where
  "errScopeScan = ErrExternal ''pgstore: cannot scan scope column''"

text \<open>\<open>Scan\<close>, by the text it finds; a nil slice is the empty list.\<close>

definition scan_scope_text :: "string \<Rightarrow> string list" where
  "scan_scope_text raw =
     (let raw = trim_suffix (trim_prefix (trim_space raw) open_brace) close_brace in
      if raw = [] then []
      else map (\<lambda>p. trim_char (trim_space p) quote) (split_on comma raw))"

definition pgScope_Scan :: "scan_src \<Rightarrow> string list res" where
  "pgScope_Scan src =
     (case src of
        ScanNull \<Rightarrow> Inr []
      | ScanString raw \<Rightarrow> Inr (scan_scope_text raw)
      | ScanBytes raw \<Rightarrow> Inr (scan_scope_text raw)
      | ScanOther \<Rightarrow> Inl errScopeScan)"

section \<open>The repository\<close>

text \<open>The scope column holds the literal that was bound.\<close>

record pg_key_row =
  pg_key_id :: string
  pg_key_hash :: string
  pg_key_worker_id :: string
  pg_key_scope :: string
  pg_key_expires_at :: time
  pg_key_created_at :: time

definition pg_isUniqueViolation :: "pg \<Rightarrow> error \<Rightarrow> bool" where
  "pg_isUniqueViolation p err \<longleftrightarrow>
     (case pg_sql_state p err of Some st \<Rightarrow> st = ''23505'' | None \<Rightarrow> False)"

definition pg_bind_key :: "pg \<Rightarrow> APIKeySnapshot \<Rightarrow> pg_key_row" where
  "pg_bind_key p snap =
     \<lparr>pg_key_id = APIKeySnapshot_ID snap, pg_key_hash = APIKeySnapshot_Hash snap,
      pg_key_worker_id = APIKeySnapshot_WorkerID snap,
      pg_key_scope = pgTextArray (APIKeySnapshot_Scope snap),
      pg_key_expires_at = pg_time p (APIKeySnapshot_ExpiresAt snap),
      pg_key_created_at = pg_time p (APIKeySnapshot_CreatedAt snap)\<rparr>"

definition pg_decode_key :: "pg \<Rightarrow> pg_key_row \<Rightarrow> APIKeySnapshot res" where
  "pg_decode_key p r =
     (case pgScope_Scan (pg_column p (pg_key_scope r)) of
        Inl e \<Rightarrow> Inl e
      | Inr sc \<Rightarrow>
          Inr \<lparr>APIKeySnapshot_ID = pg_key_id r, APIKeySnapshot_Hash = pg_key_hash r,
               APIKeySnapshot_WorkerID = pg_key_worker_id r, APIKeySnapshot_Scope = sc,
               APIKeySnapshot_ExpiresAt = pg_key_expires_at r,
               APIKeySnapshot_CreatedAt = pg_key_created_at r\<rparr>)"

definition pg_key_unique :: "(string \<times> (pg_key_row \<Rightarrow> string)) list" where
  "pg_key_unique = [(''authgo_workload_keys_pkey'', pg_key_id), (''authgo_workload_keys_hash_key'', pg_key_hash)]"

definition pg_CreateKey :: "pg \<Rightarrow> APIKey \<Rightarrow> pg_key_row list world \<Rightarrow> unit res \<times> pg_key_row list world" where
  "pg_CreateKey p k w =
     conflicting (pg_isUniqueViolation p)
       (checked (\<lambda>t. dropping (insert_row (pg_unique_error p) pg_key_unique
          (pg_bind_key p (APIKey_Snapshot k)) t)) w)"

definition pg_scanOne ::
  "pg \<Rightarrow> (pg_key_row \<Rightarrow> bool) \<Rightarrow> pg_key_row list world \<Rightarrow> APIKey res \<times> pg_key_row list world" where
  "pg_scanOne p where_clause =
     checked (\<lambda>t. (fetched (pg_decode_key p) APIKeyFromSnapshot (select_row where_clause t), t))"

definition pg_GetKeyByHash ::
  "pg \<Rightarrow> string \<Rightarrow> pg_key_row list world \<Rightarrow> APIKey res \<times> pg_key_row list world" where
  "pg_GetKeyByHash p hash = pg_scanOne p (\<lambda>r. pg_key_hash r = hash)"

definition pg_GetKey :: "pg \<Rightarrow> KeyID \<Rightarrow> pg_key_row list world \<Rightarrow> APIKey res \<times> pg_key_row list world" where
  "pg_GetKey p i = pg_scanOne p (\<lambda>r. pg_key_id r = i)"

definition pg_ListKeysByWorker ::
  "pg \<Rightarrow> WorkerID \<Rightarrow> pg_key_row list world \<Rightarrow> APIKey list res \<times> pg_key_row list world" where
  "pg_ListKeysByWorker p workerID =
     query_rows (\<lambda>r. pg_key_worker_id r = WorkerID_String workerID)
       (\<lambda>r. map_sum id APIKeyFromSnapshot (pg_decode_key p r)) id"

definition pg_DeleteKey :: "KeyID \<Rightarrow> pg_key_row list world \<Rightarrow> unit res \<times> pg_key_row list world" where
  "pg_DeleteKey i =
     checked (\<lambda>t. looking requireOneRow (delete_where (\<lambda>r. pg_key_id r = i) t))"

definition pg_rotateSwap ::
  "pg \<Rightarrow> KeyID \<Rightarrow> APIKey \<Rightarrow> pg_key_row list world \<Rightarrow> unit res \<times> pg_key_row list world" where
  "pg_rotateSwap p oldID newKey w =
     and_then
       (checked (\<lambda>t. looking requireOneRow (delete_where (\<lambda>r. pg_key_id r = oldID) t)) w) (\<lambda>_ w.
     conflicting (pg_isUniqueViolation p)
       (checked (\<lambda>t. dropping (insert_row (pg_unique_error p) pg_key_unique
          (pg_bind_key p (APIKey_Snapshot newKey)) t)) w))"

definition pg_KeyRotateAtomically ::
  "pg \<Rightarrow> executor \<Rightarrow> KeyID \<Rightarrow> APIKey \<Rightarrow> pg_key_row list world \<Rightarrow> unit res \<times> pg_key_row list world" where
  "pg_KeyRotateAtomically p db oldID newKey = with_tx db (pg_rotateSwap p oldID newKey)"

definition pg_WorkloadKeyRepo :: "pg \<Rightarrow> executor \<Rightarrow> (pg_key_row list world) WorkloadStore" where
  "pg_WorkloadKeyRepo p db =
     \<lparr>WorkloadStore_CreateKey = pg_CreateKey p,
      WorkloadStore_GetKeyByHash = pg_GetKeyByHash p,
      WorkloadStore_GetKey = pg_GetKey p,
      WorkloadStore_ListKeysByWorker = pg_ListKeysByWorker p,
      WorkloadStore_DeleteKey = pg_DeleteKey,
      WorkloadStore_RotateAtomically = Some (pg_KeyRotateAtomically p db)\<rparr>"

section \<open>Reading the scope back\<close>

text \<open>An element that Postgres prints without quotes.\<close>

definition array_plain :: "string \<Rightarrow> bool" where
  "array_plain x \<longleftrightarrow> x \<noteq> [] \<and> map lower_byte x \<noteq> ''null'' \<and>
     (\<forall>c \<in> set x. c \<noteq> comma \<and> c \<noteq> quote \<and> byte c \<noteq> 92 \<and> byte c \<noteq> 123 \<and> byte c \<noteq> 125 \<and> \<not> is_space (byte c))"

definition pg_array_ok :: "pg \<Rightarrow> bool" where
  "pg_array_ok p \<longleftrightarrow>
     (\<forall>xs. (\<forall>x \<in> set xs. array_plain x) \<longrightarrow>
        pg_column p (pgTextArray xs) = ScanString (pgTextArray xs) \<or>
        pg_column p (pgTextArray xs) = ScanBytes (pgTextArray xs))"

lemma entry_plain:
  assumes "segment r" and "segment a"
  shows "array_plain (entry r a) \<and> ascii (entry r a)"
proof -
  have star_byte: "byte (CHR ''*'') = 42" by (simp add: byte_def)
  have b: "byte c = 58 \<or> segment_rune (byte c) \<or> byte c = 42" if "c \<in> set (entry r a)" for c
    using that assms star_byte by (auto simp: entry_def segment_def star_def colon_byte)
  have "colon \<in> set (entry r a)" by (simp add: entry_def)
  then have "lower_byte colon \<in> set (map lower_byte (entry r a))" by (metis image_eqI set_map)
  moreover have "lower_byte colon = colon" by (simp add: lower_byte_def upper_byte_def colon_byte)
  ultimately have n: "map lower_byte (entry r a) \<noteq> ''null''" by (auto simp: colon_def)
  have "c \<noteq> comma \<and> c \<noteq> quote \<and> byte c \<noteq> 92 \<and> byte c \<noteq> 123 \<and> byte c \<noteq> 125 \<and> \<not> is_space (byte c) \<and> byte c < 128"
    if "c \<in> set (entry r a)" for c
  proof -
    have "byte comma = 44" by (simp add: comma_def byte_def)
    moreover have "byte quote = 34" by (simp add: quote_def)
    ultimately have "byte comma = 44" "byte quote = 34" .
    with b [OF that] show ?thesis by (auto simp: segment_rune_def is_space_def)
  qed
  with n show ?thesis by (auto simp: array_plain_def entry_def ascii_def)
qed

lemma trim_char_id: "c \<notin> set s \<Longrightarrow> trim_char s c = s"
  by (simp add: trim_char_def dropWhile_eq_self_iff) (metis dropWhile_eq_self_iff hd_in_set rev_is_Nil_conv rev_rev_ident set_rev)

lemma set_join: "set (join [c] xs) \<subseteq> insert c (\<Union> (set ` set xs))"
  by (induction "[c]" xs rule: join.induct) auto

lemma scan_scope_text_array:
  assumes "\<forall>x \<in> set xs. array_plain x \<and> ascii x" and "xs \<noteq> []"
  shows "scan_scope_text (pgTextArray xs) = xs"
proof -
  let ?j = "join [comma] xs"
  have j: "c = comma \<or> (\<exists>x \<in> set xs. c \<in> set x)" if "c \<in> set ?j" for c
    using that set_join [of comma xs] by auto
  have jc: "byte c < 128 \<and> \<not> is_space (byte c)" if "c \<in> set ?j" for c
  proof -
    have "byte comma = 44" by (simp add: comma_def byte_def)
    then have "byte comma < 128 \<and> \<not> is_space (byte comma)" by (simp add: is_space_def)
    with j [OF that] assms(1) show ?thesis by (auto simp: array_plain_def ascii_def)
  qed
  have brace: "byte (chr 123) < 128 \<and> \<not> is_space (byte (chr 123))" "byte (chr 125) < 128 \<and> \<not> is_space (byte (chr 125))"
    by (simp_all add: is_space_def)
  have all: "byte c < 128 \<and> \<not> is_space (byte c)" if c: "c \<in> set (pgTextArray xs)" for c
  proof -
    consider "c = chr 123" | "c \<in> set ?j" | "c = chr 125"
      using c unfolding pgTextArray_def open_brace_def close_brace_def by auto
    then show ?thesis using brace jc by cases blast+
  qed
  have "trim_space (pgTextArray xs) = pgTextArray xs"
    by (rule trim_space_id) (use all in \<open>simp_all add: ascii_def\<close>)
  then have raw: "trim_suffix (trim_prefix (trim_space (pgTextArray xs)) open_brace) close_brace = ?j"
    by (simp add: pgTextArray_def open_brace_def close_brace_def trim_prefix_def trim_suffix_def has_prefix_def)
  have split: "split_on comma ?j = xs"
    using assms by (intro split_on_join) (auto simp: array_plain_def)
  have ne: "?j \<noteq> []"
  proof
    assume "?j = []"
    with split have "xs = [[]]" by simp
    with assms show False by (simp add: array_plain_def)
  qed
  have "trim_char (trim_space x) quote = x" if "x \<in> set xs" for x
  proof -
    have "trim_space x = x" by (rule trim_space_id) (use assms(1) that in \<open>auto simp: array_plain_def\<close>)
    moreover have "quote \<notin> set x" using assms(1) that by (auto simp: array_plain_def)
    ultimately show ?thesis by (simp add: trim_char_id)
  qed
  with raw split ne show ?thesis by (simp add: scan_scope_text_def map_idI)
qed

lemma pg_scope_read:
  assumes "pg_array_ok p" and "scope_ok sc"
  shows "pgScope_Scan (pg_column p (pgTextArray (Scope_Actions sc))) = Inr (Scope_Actions sc)"
proof -
  have plain: "\<forall>x \<in> set (Scope_Actions sc). array_plain x \<and> ascii x"
    using assms(2) entry_plain by (force simp: scope_ok_def)
  moreover have "Scope_Actions sc \<noteq> []" using assms(2) by (simp add: scope_ok_def)
  ultimately have "scan_scope_text (pgTextArray (Scope_Actions sc)) = Scope_Actions sc"
    by (rule scan_scope_text_array)
  moreover from assms(1) plain have "pg_column p (pgTextArray (Scope_Actions sc)) = ScanString (pgTextArray (Scope_Actions sc)) \<or>
      pg_column p (pgTextArray (Scope_Actions sc)) = ScanBytes (pgTextArray (Scope_Actions sc))"
    unfolding pg_array_ok_def by blast
  ultimately show ?thesis by (auto simp: pgScope_Scan_def)
qed

section \<open>The operations behave like the in-memory ones\<close>

definition pg_storable_key :: "pg \<Rightarrow> APIKey \<Rightarrow> bool" where
  "pg_storable_key p k \<longleftrightarrow> pg_array_ok p \<and> scope_ok (APIKey_scope k) \<and> pg_kept p (APIKey_expiresAt k) \<and>
     pg_kept p (APIKey_createdAt k)"

definition pg_driver_ok :: "pg \<Rightarrow> bool" where
  "pg_driver_ok p \<longleftrightarrow> (\<forall>c. pg_isUniqueViolation p (pg_unique_error p c))"

interpretation pk: key_table pg_key_id "pg_decode_key p" pg_key_hash pg_key_worker_id "pg_bind_key p"
    "pg_storable_key p" "''authgo_workload_keys_pkey''" "''authgo_workload_keys_hash_key''" "pg_unique_error p"
    "pg_isUniqueViolation p"
  for p
  by unfold_locales
     (auto simp: pg_decode_key_def pg_bind_key_def pg_storable_key_def APIKey_Snapshot_def pg_kept_def pg_scope_read
       split: sum.splits)

definition pg_keys_of :: "pg \<Rightarrow> pg_key_row list \<Rightarrow> key_maps" where
  "pg_keys_of p = key_views pg_key_id pg_key_hash (pg_decode_key p)"

definition pg_keys_ok :: "pg \<Rightarrow> pg_key_row list \<Rightarrow> bool" where
  "pg_keys_ok p = key_rows_ok pg_key_id pg_key_hash (pg_decode_key p)"

lemmas pg_key_defs = pg_keys_of_def pg_keys_ok_def pg_driver_ok_def pg_key_unique_def

lemma pg_CreateKey_mirrors:
  assumes "pg_keys_ok p (store w)" and "pg_storable_key p k" and "pg_driver_ok p"
    and "plain_faults (pg_isUniqueViolation p) w"
  shows "mirrors (pg_keys_of p) (pg_keys_ok p) w (pg_CreateKey p k w) (WorkloadKeyRepo_CreateKey k)"
  using assms unfolding pg_key_defs pg_CreateKey_def by (rule pk.create)

lemma pg_GetKey_mirrors:
  assumes "pg_keys_ok p (store w)"
  shows "mirrors (pg_keys_of p) (pg_keys_ok p) w (pg_GetKey p i w) (WorkloadKeyRepo_GetKey i)"
  using assms unfolding pg_key_defs pg_GetKey_def pg_scanOne_def by (rule pk.get_key)

lemma pg_GetKeyByHash_mirrors:
  assumes "pg_keys_ok p (store w)"
  shows "mirrors (pg_keys_of p) (pg_keys_ok p) w (pg_GetKeyByHash p h w) (WorkloadKeyRepo_GetKeyByHash h)"
  using assms unfolding pg_key_defs pg_GetKeyByHash_def pg_scanOne_def by (rule pk.get_by_hash)

lemma pg_DeleteKey_mirrors:
  assumes "pg_keys_ok p (store w)"
  shows "mirrors (pg_keys_of p) (pg_keys_ok p) w (pg_DeleteKey i w) (WorkloadKeyRepo_DeleteKey i)"
  using assms unfolding pg_key_defs pg_DeleteKey_def by (rule pk.delete_one)

lemma pg_ListKeys_simulates:
  assumes "pg_keys_ok p (store w)"
  shows "simulates (pg_keys_of p) (pg_keys_ok p) w (pg_ListKeysByWorker p v w) (WorkloadKeyRepo_ListKeysByWorker v)"
  using assms unfolding pg_key_defs pg_ListKeysByWorker_def by (rule pk.list_keys)

lemma pg_KeyRotate_simulates:
  assumes "pg_keys_ok p (store w)" and "pg_storable_key p k" and "pg_driver_ok p"
    and "plain_faults (pg_isUniqueViolation p) w"
    and "APIKey_id k \<noteq> i"
    and "\<And>sn. gomap_get (byID (pg_keys_of p (store w))) i = Some sn \<Longrightarrow> APIKeySnapshot_Hash sn \<noteq> APIKey_hash k"
  shows "simulates (pg_keys_of p) (pg_keys_ok p) w (pg_KeyRotateAtomically p SqlDB i k w)
    (WorkloadKeyRepo_RotateAtomically i k)"
  using assms unfolding pg_key_defs pg_KeyRotateAtomically_def
  by (intro pk.rotate) (auto simp: pg_rotateSwap_def pg_key_unique_def)

text \<open>C32: the workload-key operations in Postgres are the in-memory ones on the two maps the table
  stands for, the scope read back from the array literal, for keys whose instants the server keeps
  exactly; rotation has the in-memory effect as one transaction, or fails and changes nothing.\<close>

theorem pg_keys_refine:
  assumes "pg_keys_ok p (store w)" and "pg_storable_key p k" and "pg_driver_ok p"
    and "plain_faults (pg_isUniqueViolation p) w"
  shows "mirrors (pg_keys_of p) (pg_keys_ok p) w (pg_CreateKey p k w) (WorkloadKeyRepo_CreateKey k) \<and>
    mirrors (pg_keys_of p) (pg_keys_ok p) w (pg_GetKeyByHash p h w) (WorkloadKeyRepo_GetKeyByHash h) \<and>
    mirrors (pg_keys_of p) (pg_keys_ok p) w (pg_GetKey p i w) (WorkloadKeyRepo_GetKey i) \<and>
    mirrors (pg_keys_of p) (pg_keys_ok p) w (pg_DeleteKey i w) (WorkloadKeyRepo_DeleteKey i) \<and>
    simulates (pg_keys_of p) (pg_keys_ok p) w (pg_ListKeysByWorker p v w) (WorkloadKeyRepo_ListKeysByWorker v) \<and>
    (APIKey_id k \<noteq> i \<longrightarrow>
      (\<forall>sn. gomap_get (byID (pg_keys_of p (store w))) i = Some sn \<longrightarrow> APIKeySnapshot_Hash sn \<noteq> APIKey_hash k) \<longrightarrow>
      simulates (pg_keys_of p) (pg_keys_ok p) w (pg_KeyRotateAtomically p SqlDB i k w)
        (WorkloadKeyRepo_RotateAtomically i k))"
  using assms pg_KeyRotate_simulates [OF assms, of i]
  by (simp add: pg_CreateKey_mirrors pg_GetKeyByHash_mirrors pg_GetKey_mirrors
      pg_DeleteKey_mirrors pg_ListKeys_simulates)

definition pg_toy_key :: APIKey where
  "pg_toy_key = \<lparr>APIKey_id = ''k'', APIKey_hash = ''h'', APIKey_workerID = WorkerID ''w'',
     APIKey_scope = Scope [entry star star], APIKey_expiresAt = 63000003600 * second,
     APIKey_createdAt = 63000000000 * second\<rparr>"

lemma toy_pg_ok [simp]: "pg_storable_key toy_pg pg_toy_key" "pg_driver_ok toy_pg"
proof -
  show "pg_storable_key toy_pg pg_toy_key"
    by (auto simp: pg_storable_key_def pg_toy_key_def pg_array_ok_def toy_pg_def pg_kept_def scope_ok_def segment_def
        star_def second_def)
  show "pg_driver_ok toy_pg"
    by (auto simp: pg_driver_ok_def pg_isUniqueViolation_def toy_pg_def)
qed

theorem pg_keys_refine_witness:
  "simulates (pg_keys_of toy_pg) (pg_keys_ok toy_pg) (calm 5 0 [pg_bind_key toy_pg (APIKey_Snapshot pg_toy_key)])
    (pg_KeyRotateAtomically toy_pg SqlDB ''k'' (pg_toy_key\<lparr>APIKey_id := ''k2'', APIKey_hash := ''h2''\<rparr>)
      (calm 5 0 [pg_bind_key toy_pg (APIKey_Snapshot pg_toy_key)]))
    (WorkloadKeyRepo_RotateAtomically ''k'' (pg_toy_key\<lparr>APIKey_id := ''k2'', APIKey_hash := ''h2''\<rparr>))"
proof -
  let ?w = "calm 5 0 [pg_bind_key toy_pg (APIKey_Snapshot pg_toy_key)]"
  let ?k = "pg_toy_key\<lparr>APIKey_id := ''k2'', APIKey_hash := ''h2''\<rparr>"
  have d: "pg_decode_key toy_pg (pg_bind_key toy_pg (APIKey_Snapshot pg_toy_key)) = Inr (APIKey_Snapshot pg_toy_key)"
    by (rule pk.dec_enc) simp
  then have ok: "pg_keys_ok toy_pg (store ?w)" by (simp add: pg_keys_ok_def key_rows_ok_def rows_ok_def)
  have k: "pg_storable_key toy_pg ?k" using toy_pg_ok(1) by (simp add: pg_storable_key_def)
  have p: "plain_faults (pg_isUniqueViolation toy_pg) ?w" by (simp add: plain_faults_def calm_def)
  have id: "APIKey_id ?k \<noteq> ''k''" by simp
  have h: "\<forall>sn. gomap_get (byID (pg_keys_of toy_pg (store ?w))) ''k'' = Some sn \<longrightarrow> APIKeySnapshot_Hash sn \<noteq> APIKey_hash ?k"
    using d by (simp add: pg_keys_of_def row_map_def gomap_get_def) (simp add: pg_toy_key_def)
  from pg_keys_refine [OF ok k toy_pg_ok(2) p, where i = "''k''"] id h show ?thesis by blast
qed

end
