(* ===== verification/GoJson.thy ===== *)
theory GoJson
  imports GoTime GoCodec
begin

text \<open>
  What the code uses of \<open>encoding/json\<close>. A text is decoded to a value whose objects keep their
  members in order, duplicates included, and whose numbers keep their text (\<open>json.Number\<close>). The
  decoder is the recursive descent over the grammar of RFC 8259; its recursive calls are guarded by
  the length of what is left, which always shrinks (\<open>json_value_shorter\<close>), so it is total. On top of
  it: the way \<open>Unmarshal\<close> fills the fields of a struct, and the strings \<open>Marshal\<close> writes.
\<close>

section \<open>Values\<close>

datatype json =
    JNull
  | JBool bool
  | JNumber string
  | JString string
  | JArray "json list"
  | JObject "(string \<times> json) list"

definition json_space :: "char \<Rightarrow> bool" where
  "json_space c \<longleftrightarrow> byte c = 32 \<or> byte c = 9 \<or> byte c = 10 \<or> byte c = 13"

definition skip_blanks :: "string \<Rightarrow> string" where
  "skip_blanks s = dropWhile json_space s"

section \<open>Strings\<close>

definition dquote :: char where "dquote = chr 34"
definition backslash :: char where "backslash = chr 92"

fun hex4 :: "string \<Rightarrow> (nat \<times> string) option" where
  "hex4 (a # b # c # d # s) =
     (case (hex_value a, hex_value b, hex_value c, hex_value d) of
        (Some w, Some x, Some y, Some z) \<Rightarrow> Some (w * 4096 + x * 256 + y * 16 + z, s)
      | _ \<Rightarrow> None)"
| "hex4 s = None"

definition simple_escape :: "char \<Rightarrow> char option" where
  "simple_escape c =
     (if c = dquote \<or> c = backslash \<or> c = CHR ''/'' then Some c
      else if c = CHR ''b'' then Some (chr 8)
      else if c = CHR ''f'' then Some (chr 12)
      else if c = CHR ''n'' then Some (chr 10)
      else if c = CHR ''r'' then Some (chr 13)
      else if c = CHR ''t'' then Some (chr 9)
      else None)"

text \<open>The second half of a surrogate pair, if there is one; an unpaired half becomes U+FFFD.\<close>

definition join_surrogates :: "nat \<Rightarrow> string \<Rightarrow> nat \<times> string" where
  "join_surrogates r s =
     (if r < 55296 \<or> 57343 < r then (r, s)
      else case s of
        b # u # t \<Rightarrow>
          if b = backslash \<and> u = CHR ''u'' \<and> r < 56320 then
            (case hex4 t of
               Some (r2, t2) \<Rightarrow>
                 if 56320 \<le> r2 \<and> r2 \<le> 57343
                 then (65536 + (r - 55296) * 1024 + (r2 - 56320), t2) else (rune_error, s)
             | None \<Rightarrow> (rune_error, s))
          else (rune_error, s)
      | _ \<Rightarrow> (rune_error, s))"

lemma hex4_length: "hex4 s = Some (r, t) \<Longrightarrow> length s = length t + 4"
  by (induction s rule: hex4.induct) (auto split: option.splits)

lemma join_surrogates_length: "length (snd (join_surrogates r s)) \<le> length s"
  by (auto simp: join_surrogates_def dest: hex4_length split: list.splits option.splits)

text \<open>The rest of a string after its opening quote: the bytes it stands for, and what follows it.\<close>

definition prefixed :: "string \<Rightarrow> (string \<times> string) option \<Rightarrow> (string \<times> string) option" where
  "prefixed p = map_option (\<lambda>(d, t). (p @ d, t))"

lemma prefixed_simps [simp]:
  "prefixed p None = None" "prefixed p (Some (d, t)) = Some (p @ d, t)"
  by (simp_all add: prefixed_def)

function json_string :: "string \<Rightarrow> (string \<times> string) option" where
  "json_string s =
     (case s of
        [] \<Rightarrow> None
      | c # cs \<Rightarrow>
          if c = dquote then Some ([], cs)
          else if c = backslash then
            (case cs of
               [] \<Rightarrow> None
             | e # es \<Rightarrow>
                 if e = CHR ''u'' then
                   (case hex4 es of
                      None \<Rightarrow> None
                    | Some (r, t) \<Rightarrow>
                        prefixed (encode_rune (fst (join_surrogates r t)))
                          (json_string (snd (join_surrogates r t))))
                 else (case simple_escape e of
                         None \<Rightarrow> None
                       | Some x \<Rightarrow> prefixed [x] (json_string es)))
          else if byte c < 32 then None
          else prefixed (encode_rune (fst (decode_rune s))) (json_string (drop (snd (decode_rune s)) s)))"
  by pat_completeness auto
termination
proof (relation "measure length")
  fix s :: string and c cs e es p r t
  assume "s = c # cs" "cs = e # es" "hex4 es = Some p" "(r, t) = p"
  then show "(snd (join_surrogates r t), s) \<in> measure length"
    using join_surrogates_length [of r t] by (auto dest: hex4_length)
next
  fix s :: string and c cs
  assume "s = c # cs"
  then show "(drop (snd (decode_rune s)) s, s) \<in> measure length"
    using decode_rune_width(1) [of s] by simp
qed auto

declare json_string.simps [simp del]

section \<open>Numbers\<close>

definition span_digits :: "string \<Rightarrow> string \<times> string" where
  "span_digits s = (takeWhile is_digit s, dropWhile is_digit s)"

definition number_integer :: "string \<Rightarrow> (string \<times> string) option" where
  "number_integer s =
     (case s of
        [] \<Rightarrow> None
      | c # cs \<Rightarrow>
          if c = CHR ''0'' then Some ([c], cs)
          else if is_digit c then Some (span_digits s) else None)"

definition number_fraction :: "string \<Rightarrow> (string \<times> string) option" where
  "number_fraction s =
     (case s of
        c # cs \<Rightarrow>
          if c = CHR ''.'' then
            (let (ds, t) = span_digits cs in if ds = [] then None else Some (c # ds, t))
          else Some ([], s)
      | [] \<Rightarrow> Some ([], s))"

definition number_exponent :: "string \<Rightarrow> (string \<times> string) option" where
  "number_exponent s =
     (case s of
        c # cs \<Rightarrow>
          if c = CHR ''e'' \<or> c = CHR ''E'' then
            (let (sg, u) = (case cs of
                              d # ds \<Rightarrow> if d = CHR ''+'' \<or> d = CHR ''-'' then ([d], ds) else ([], cs)
                            | [] \<Rightarrow> ([], cs));
                 (ds, t) = span_digits u
             in if ds = [] then None else Some (c # sg @ ds, t))
          else Some ([], s)
      | [] \<Rightarrow> Some ([], s))"

definition json_number :: "string \<Rightarrow> (string \<times> string) option" where
  "json_number s =
     (let (sg, s1) = (case s of c # cs \<Rightarrow> if c = CHR ''-'' then ([c], cs) else ([], s) | [] \<Rightarrow> ([], s)) in
      case number_integer s1 of
        None \<Rightarrow> None
      | Some (i, s2) \<Rightarrow>
          (case number_fraction s2 of
             None \<Rightarrow> None
           | Some (f, s3) \<Rightarrow>
               (case number_exponent s3 of
                  None \<Rightarrow> None
                | Some (e, s4) \<Rightarrow> Some (sg @ i @ f @ e, s4))))"

section \<open>The decoder\<close>

definition keeping :: "('a \<Rightarrow> 'b) \<Rightarrow> ('a \<times> string) option \<Rightarrow> ('b \<times> string) option" where
  "keeping f = map_option (\<lambda>(x, r). (f x, r))"

lemma keeping_simps [simp]: "keeping f None = None" "keeping f (Some (x, r)) = Some (f x, r)"
  by (simp_all add: keeping_def)

lemma skip_blanks_length: "length (skip_blanks s) \<le> length s"
  by (simp add: skip_blanks_def length_dropWhile_le)

text \<open>A value starts where its text starts; elements and members start after white space.\<close>

function json_value :: "string \<Rightarrow> (json \<times> string) option"
  and json_elements :: "string \<Rightarrow> (json list \<times> string) option"
  and json_members :: "string \<Rightarrow> ((string \<times> json) list \<times> string) option"
where
  "json_value s =
     (case s of
        [] \<Rightarrow> None
      | c # cs \<Rightarrow>
          if c = CHR ''{'' then
            (case skip_blanks cs of
               d # r \<Rightarrow> if d = CHR ''}'' then Some (JObject [], r)
                        else keeping JObject (json_members (skip_blanks cs))
             | [] \<Rightarrow> None)
          else if c = CHR ''['' then
            (case skip_blanks cs of
               d # r \<Rightarrow> if d = CHR '']'' then Some (JArray [], r)
                        else keeping JArray (json_elements (skip_blanks cs))
             | [] \<Rightarrow> None)
          else if c = dquote then keeping JString (json_string cs)
          else if has_prefix s ''true'' then Some (JBool True, drop 4 s)
          else if has_prefix s ''false'' then Some (JBool False, drop 5 s)
          else if has_prefix s ''null'' then Some (JNull, drop 4 s)
          else keeping JNumber (json_number s))"
| "json_elements s =
     (case json_value s of
        None \<Rightarrow> None
      | Some (v, r) \<Rightarrow>
          (case skip_blanks r of
             [] \<Rightarrow> None
           | c # t \<Rightarrow>
               if c = CHR '']'' then Some ([v], t)
               else if c = CHR '','' \<and> length t < length s
               then keeping (\<lambda>vs. v # vs) (json_elements (skip_blanks t)) else None))"
| "json_members s =
     (case s of
        [] \<Rightarrow> None
      | q # cs \<Rightarrow>
          if q \<noteq> dquote then None
          else case json_string cs of
            None \<Rightarrow> None
          | Some (k, r) \<Rightarrow>
              (case skip_blanks r of
                 [] \<Rightarrow> None
               | c # t \<Rightarrow>
                   if c \<noteq> CHR '':'' \<or> length s \<le> length t then None
                   else case json_value (skip_blanks t) of
                     None \<Rightarrow> None
                   | Some (v, r2) \<Rightarrow>
                       (case skip_blanks r2 of
                          [] \<Rightarrow> None
                        | d # u \<Rightarrow>
                            if d = CHR ''}'' then Some ([(k, v)], u)
                            else if d = CHR '','' \<and> length u < length s
                            then keeping (\<lambda>ms. (k, v) # ms) (json_members (skip_blanks u)) else None)))"
  by pat_completeness auto
termination
proof (relation "measure (\<lambda>x. case x of
    Inl s \<Rightarrow> 2 * length s | Inr (Inl s) \<Rightarrow> 2 * length s + 1 | Inr (Inr s) \<Rightarrow> 2 * length s + 1)", goal_cases)
  case (2 s c cs d r)
  then show ?case using skip_blanks_length [of cs] by simp
next
  case (3 s c cs d r)
  then show ?case using skip_blanks_length [of cs] by simp
next
  case (5 s v p r c t)
  then show ?case using skip_blanks_length [of t] by simp
next
  case (6 s q cs p k r c t)
  then show ?case using skip_blanks_length [of t] by simp
next
  case (7 s q cs p k r c t p2 v r2 d u)
  then show ?case using skip_blanks_length [of u] by simp
qed auto

declare json_value.simps [simp del] json_elements.simps [simp del] json_members.simps [simp del]

section \<open>The decoder consumes what it reads\<close>

lemma json_string_step:
  assumes "json_string s = Some (d, t)"
  shows "length t < length s \<or>
    (\<exists>d' s'. length s' < length s \<and> json_string s' = Some (d', t))"
proof (cases s)
  case Nil
  with assms show ?thesis by (simp add: json_string.simps)
next
  case (Cons c cs)
  have rest: "length (drop (snd (decode_rune s)) s) < length s"
    using decode_rune_width(1) [of s] Cons by simp
  have hex: "length (snd (join_surrogates r u)) < length s" if "cs = e # es" "hex4 es = Some (r, u)" for e es r u
    using hex4_length [OF that(2)] join_surrogates_length [of r u] Cons that(1) by simp
  note eq = assms [unfolded json_string.simps [of s], unfolded Cons list.case]
  show ?thesis
  proof (cases "c = dquote \<or> c = backslash \<or> byte c < 32")
    case False
    with eq rest show ?thesis unfolding Cons by (auto simp: prefixed_def simp del: decode_rune.simps)
  next
    case True
    with eq hex Cons show ?thesis
      by (fastforce simp: prefixed_def simp del: decode_rune.simps split: list.splits if_splits option.splits)
  qed
qed

lemma json_string_shorter: "json_string s = Some (d, t) \<Longrightarrow> length t < length s"
proof (induction s arbitrary: d t rule: length_induct)
  case (1 s)
  from json_string_step [OF 1(2)] 1(1) show ?case by (meson less_trans)
qed

lemma number_part_length:
  "number_integer s = Some (i, t) \<Longrightarrow> length t < length s"
  "number_fraction s = Some (i, t) \<Longrightarrow> length t \<le> length s"
  "number_exponent s = Some (i, t) \<Longrightarrow> length t \<le> length s"
proof -
  have drop: "length (dropWhile is_digit u) \<le> length u" for u by (rule length_dropWhile_le)
  show "number_integer s = Some (i, t) \<Longrightarrow> length t < length s"
    using drop by (auto simp: number_integer_def span_digits_def le_imp_less_Suc split: list.splits if_splits)
  show "number_fraction s = Some (i, t) \<Longrightarrow> length t \<le> length s"
    using drop by (auto simp: number_fraction_def span_digits_def le_SucI split: list.splits if_splits)
  show "number_exponent s = Some (i, t) \<Longrightarrow> length t \<le> length s"
    using drop by (auto simp: number_exponent_def span_digits_def le_SucI Let_def split: list.splits if_splits)
qed

lemma json_number_shorter: "json_number s = Some (n, t) \<Longrightarrow> length t < length s"
  by (fastforce simp: json_number_def Let_def split: list.splits if_splits option.splits
      dest!: number_part_length)

lemma skip_blanks_Cons: "skip_blanks r = c # t \<Longrightarrow> length t < length r"
  using skip_blanks_length [of r] by simp

lemma keeping_Some: "keeping f x = Some (y, r) \<longleftrightarrow> (\<exists>v. x = Some (v, r) \<and> y = f v)"
  by (auto simp: keeping_def)

lemma json_shorter:
  "json_value s = Some (v, r) \<Longrightarrow> length r < length s"
  "json_elements s = Some (vs, r) \<Longrightarrow> length r < length s"
  "json_members s = Some (ms, r) \<Longrightarrow> length r < length s"
proof (induction s and s and s arbitrary: v r and vs r and ms r
    rule: json_value_json_elements_json_members.induct)
  case (1 s)
  show ?case
  proof (cases s)
    case Nil
    with 1(3) show ?thesis by (simp add: json_value.simps)
  next
    case (Cons c cs)
    have sp: "length (skip_blanks cs) < length s" using skip_blanks_length [of cs] Cons by simp
    note eq = 1(3) [unfolded json_value.simps [of s], unfolded Cons list.case]
    have str: "length t < length s" if "json_string cs = Some (d, t)" for d t
      using json_string_shorter [OF that] Cons by simp
    have num: "length t < length s" if "json_number (c # cs) = Some (d, t)" for d t
      using json_number_shorter [OF that] Cons by simp
    have members: "length r < length s" if "c = CHR ''{''" "skip_blanks cs = d # u" "d \<noteq> CHR ''}''"
      "json_members (skip_blanks cs) = Some (ms, r)" for d u ms
      using 1(1) [OF Cons that(1,2,3)] that sp by fastforce
    have elements: "length r < length s" if "c = CHR ''[''" "skip_blanks cs = d # u" "d \<noteq> CHR '']''"
      "json_elements (skip_blanks cs) = Some (vs, r)" for d u vs
      using 1(2) [OF Cons _ that(1,2,3)] that sp by fastforce
    show ?thesis
      using eq sp str num members elements Cons
      by (auto simp: keeping_Some has_prefix_def split: list.splits if_splits)
  qed
next
  case (2 s)
  from 2(3) obtain v1 r1 c t where e: "json_value s = Some (v1, r1)" "skip_blanks r1 = c # t"
    "c = CHR '']'' \<and> r = t \<or> c \<noteq> CHR '']'' \<and> c = CHR '','' \<and> length t < length s \<and>
      (\<exists>us. json_elements (skip_blanks t) = Some (us, r))"
    by (auto simp: json_elements.simps [of s] keeping_Some split: list.splits if_splits option.splits)
  have t: "length t < length s" using 2(1) [OF e(1)] skip_blanks_Cons [OF e(2)] by simp
  from e(3) show ?case
  proof
    assume c: "c \<noteq> CHR '']'' \<and> c = CHR '','' \<and> length t < length s \<and> (\<exists>us. json_elements (skip_blanks t) = Some (us, r))"
    then obtain us where "json_elements (skip_blanks t) = Some (us, r)" by blast
    with 2(2) [OF e(1) _ e(2)] c have "length r < length (skip_blanks t)" by auto
    with t skip_blanks_length [of t] show ?thesis by simp
  qed (use t in simp)
next
  case (3 s)
  from 3(3) obtain q cs k r1 c t v1 r2 d u where e: "s = q # cs" "q = dquote" "json_string cs = Some (k, r1)"
    "skip_blanks r1 = c # t" "c = CHR '':''" "length t < length s" "json_value (skip_blanks t) = Some (v1, r2)"
    "skip_blanks r2 = d # u"
    "d = CHR ''}'' \<and> r = u \<or> d \<noteq> CHR ''}'' \<and> d = CHR '','' \<and> length u < length s \<and>
      (\<exists>us. json_members (skip_blanks u) = Some (us, r))"
    by (auto simp: json_members.simps [of s] keeping_Some not_le split: list.splits if_splits option.splits)
  have "length r2 < length (skip_blanks t)" using 3(1) [OF e(1) _ e(3) _ e(4)] e by auto
  then have u: "length u < length s" using skip_blanks_length [of t] skip_blanks_Cons [OF e(8)] e(6) by simp
  from e(9) show ?case
  proof
    assume c: "d \<noteq> CHR ''}'' \<and> d = CHR '','' \<and> length u < length s \<and> (\<exists>us. json_members (skip_blanks u) = Some (us, r))"
    then obtain us where "json_members (skip_blanks u) = Some (us, r)" by blast
    with 3(2) [OF e(1) _ e(3) _ e(4) _ e(7) _ e(8)] c e have "length r < length (skip_blanks u)" by auto
    with u skip_blanks_length [of u] show ?thesis by simp
  qed (use u in simp)
qed

section \<open>Documents\<close>

lemma json_elements_eq:
  "json_elements s =
     (case json_value s of
        None \<Rightarrow> None
      | Some (v, r) \<Rightarrow>
          (case skip_blanks r of
             [] \<Rightarrow> None
           | c # t \<Rightarrow>
               if c = CHR '']'' then Some ([v], t)
               else if c = CHR '','' then keeping (\<lambda>vs. v # vs) (json_elements (skip_blanks t)) else None))"
  by (auto simp: json_elements.simps [of s] split: option.splits list.splits
      dest!: json_shorter(1) skip_blanks_Cons)

lemma json_members_eq:
  "json_members s =
     (case s of
        [] \<Rightarrow> None
      | q # cs \<Rightarrow>
          if q \<noteq> dquote then None
          else case json_string cs of
            None \<Rightarrow> None
          | Some (k, r) \<Rightarrow>
              (case skip_blanks r of
                 [] \<Rightarrow> None
               | c # t \<Rightarrow>
                   if c \<noteq> CHR '':'' then None
                   else case json_value (skip_blanks t) of
                     None \<Rightarrow> None
                   | Some (v, r2) \<Rightarrow>
                       (case skip_blanks r2 of
                          [] \<Rightarrow> None
                        | d # u \<Rightarrow>
                            if d = CHR ''}'' then Some ([(k, v)], u)
                            else if d = CHR '','' then keeping (\<lambda>ms. (k, v) # ms) (json_members (skip_blanks u))
                            else None)))"
proof (cases s)
  case (Cons q cs)
  show ?thesis
  proof (cases "json_string cs")
    case None
    with Cons show ?thesis by (simp add: json_members.simps [of "q # cs"])
  next
    case (Some kr)
    then obtain k r where kr: "json_string cs = Some (k, r)" by (cases kr) auto
    show ?thesis
    proof (cases "skip_blanks r")
      case Nil
      with Cons kr show ?thesis by (simp add: json_members.simps [of "q # cs"])
    next
      case (Cons c t)
      have t: "length t < length s"
        using json_string_shorter [OF kr] skip_blanks_Cons [OF Cons] \<open>s = q # cs\<close> by simp
      have "length u < length s" if "json_value (skip_blanks t) = Some (v, r2)" "skip_blanks r2 = d # u" for v r2 d u
        using t json_shorter(1) [OF that(1)] skip_blanks_length [of t] skip_blanks_Cons [OF that(2)] by simp
      with t kr Cons \<open>s = q # cs\<close> show ?thesis
        by (cases "json_value (skip_blanks t)")
           (auto simp: json_members.simps [of "q # cs"] split: list.splits)
    qed
  qed
qed (simp add: json_members.simps)

text \<open>A whole text: one value, white space around it. \<open>Unmarshal\<close> refuses more than 10000 levels.\<close>

definition json_parse :: "string \<Rightarrow> json option" where
  "json_parse s =
     (case json_value (skip_blanks s) of
        Some (v, r) \<Rightarrow> if skip_blanks r = [] then Some v else None
      | None \<Rightarrow> None)"

fun json_depth :: "json \<Rightarrow> nat" where
  "json_depth (JArray vs) = Suc (foldr max (map json_depth vs) 0)"
| "json_depth (JObject ms) = Suc (foldr max (map (\<lambda>m. json_depth (snd m)) ms) 0)"
| "json_depth v = 0"

definition maxNestingDepth :: nat where "maxNestingDepth = 10000"

definition json_unmarshal :: "string \<Rightarrow> json option" where
  "json_unmarshal s =
     (case json_parse s of
        Some v \<Rightarrow> if json_depth v \<le> maxNestingDepth then Some v else None
      | None \<Rightarrow> None)"

text \<open>
  A field of a struct is filled from every member whose name is the field's after folding case
  (\<open>fr\<close> folds the runes outside ASCII), the last one winning; a null leaves it as it is, and a
  value of another type is an error. \<open>fill conv\<close> is this loop.
\<close>

fun fill ::
  "(json \<Rightarrow> 'a \<Rightarrow> 'a option) \<Rightarrow> (nat \<Rightarrow> nat) \<Rightarrow> string \<Rightarrow> 'a \<Rightarrow> (string \<times> json) list \<Rightarrow> 'a option" where
  "fill conv fr name x [] = Some x"
| "fill conv fr name x ((k, v) # ms) =
     (if to_upper fr k = to_upper fr name
      then (case conv v x of None \<Rightarrow> None | Some y \<Rightarrow> fill conv fr name y ms)
      else fill conv fr name x ms)"

definition take_string :: "json \<Rightarrow> string \<Rightarrow> string option" where
  "take_string v x = (case v of JString s \<Rightarrow> Some s | JNull \<Rightarrow> Some x | _ \<Rightarrow> None)"

definition take_bool :: "json \<Rightarrow> bool \<Rightarrow> bool option" where
  "take_bool v x = (case v of JBool b \<Rightarrow> Some b | JNull \<Rightarrow> Some x | _ \<Rightarrow> None)"

text \<open>\<open>strconv.ParseInt(s, 10, 64)\<close> on the text of a number.\<close>

definition parse_int64 :: "string \<Rightarrow> int option" where
  "parse_int64 s =
     (let (neg, ds) = (case s of
           c # cs \<Rightarrow> if c = CHR ''-'' then (True, cs) else if c = CHR ''+'' then (False, cs) else (False, s)
         | [] \<Rightarrow> (False, [])) in
      if ds = [] \<or> \<not> list_all is_digit ds then None
      else let n = (if neg then - int (number_of ds) else int (number_of ds)) in
        if n < - (2 ^ 63) \<or> 2 ^ 63 \<le> n then None else Some n)"

definition take_int64 :: "json \<Rightarrow> int \<Rightarrow> int option" where
  "take_int64 v x = (case v of JNumber s \<Rightarrow> parse_int64 s | JNull \<Rightarrow> Some x | _ \<Rightarrow> None)"

lemma fill_only:
  assumes "\<And>k v. (k, v) \<in> set ms \<Longrightarrow> to_upper fr k \<noteq> to_upper fr name"
  shows "fill conv fr name x ms = Some x"
  using assms
proof (induction ms)
  case (Cons m ms)
  have "to_upper fr (fst m) \<noteq> to_upper fr name" by (rule Cons.prems [of _ "snd m"]) simp
  moreover have "fill conv fr name x ms = Some x" by (rule Cons.IH) (use Cons.prems in auto)
  ultimately show ?case by (cases m) simp
qed simp

text \<open>Names in ASCII are compared letter by letter.\<close>

lemma upper_rune_small: "r < 128 \<Longrightarrow> upper_rune fr r < 128"
  by (auto simp: upper_rune_def)

lemma to_upper_ascii_runes: "ascii s \<Longrightarrow> to_upper fr s = map (\<lambda>c. chr (upper_rune fr (byte c))) s"
proof (induction s)
  case (Cons c s)
  then have "byte c < 128" by simp
  then have "encode_rune (upper_rune fr (byte c)) = [chr (upper_rune fr (byte c))]"
    using upper_rune_small [of "byte c" fr] by (simp add: encode_rune_def)
  with Cons show ?case by (simp add: to_upper_def runes_ascii_Cons)
qed (simp add: to_upper_def)

lemma fold_eq:
  assumes "ascii a" and "ascii b"
  shows "to_upper fr a = to_upper fr b \<longleftrightarrow> map (\<lambda>c. upper_rune fr (byte c)) a = map (\<lambda>c. upper_rune fr (byte c)) b"
proof -
  have "map byte (to_upper fr s) = map (\<lambda>c. upper_rune fr (byte c)) s" if "ascii s" for s
    using that upper_rune_small [of _ fr] by (auto simp: to_upper_ascii_runes ascii_def less_trans [of _ 128 256])
  moreover have "map byte x = map byte y \<longleftrightarrow> x = y" for x y
    by (rule inj_map_eq_map) (metis injI chr_byte)
  ultimately show ?thesis using assms by metis
qed

section \<open>Runes and their bytes\<close>

lemma rune2:
  assumes "194 \<le> byte c" "byte c < 224" "128 \<le> byte d" "byte d \<le> 191"
  shows "encode_rune ((byte c - 192) * 64 + (byte d - 128)) = [c, d]"
proof -
  let ?x = "byte c - 192" and ?y = "byte d - 128"
  have b: "2 \<le> ?x" "?x < 32" "?y < 64" using assms by auto
  then have "?x * 64 + ?y < 2048" "128 \<le> ?x * 64 + ?y" by linarith+
  moreover have "(?x * 64 + ?y) div 64 = ?x" "(?x * 64 + ?y) mod 64 = ?y"
    using b by (simp_all only: pack_div pack_mod)
  ultimately show ?thesis
    using assms by (simp add: encode_rune_def Let_def chr_eqI)
qed

lemma rune3:
  assumes "224 \<le> byte c" "byte c < 240" "second_range (byte c) d" "continuation e"
  shows "encode_rune ((byte c - 224) * 4096 + (byte d - 128) * 64 + (byte e - 128)) = [c, d, e]"
proof -
  let ?x = "byte c - 224" and ?y = "byte d - 128" and ?z = "byte e - 128"
  define r where "r = ?x * 4096 + ?y * 64 + ?z"
  have d: "128 \<le> byte d" "byte d \<le> 191" using assms(3) by (auto simp: second_range_def split: if_splits)
  have e: "128 \<le> byte e" "byte e \<le> 191" using assms(4) by (auto simp: continuation_def)
  have b: "?x < 16" "?y < 64" "?z < 64" using assms d e by auto
  have lo: "2048 \<le> r"
  proof (cases "?x = 0")
    case True
    then have "32 \<le> ?y" using assms(1,3) by (auto simp: second_range_def)
    then show ?thesis unfolding r_def by linarith
  qed (unfold r_def, linarith)
  have hi: "r < 65536" using b unfolding r_def by linarith
  have sur: "\<not> (55296 \<le> r \<and> r \<le> 57343)"
  proof (cases "?x = 13")
    case True
    then have "byte c = 237" using assms(1) by linarith
    then have "?y < 32" using assms(3) d by (simp add: second_range_def)
    with True b show ?thesis unfolding r_def by linarith
  next
    case False
    then have "?x \<le> 12 \<or> 14 \<le> ?x" by linarith
    then show ?thesis using b unfolding r_def by (elim disjE) linarith+
  qed
  have "r = (?x * 64 + ?y) * 64 + ?z" by (simp add: r_def)
  then have q: "r div 64 = ?x * 64 + ?y" "r mod 64 = ?z" using b by (simp_all only: pack_div pack_mod)
  have "r div 4096 = r div 64 div 64" by (simp add: div_mult2_eq [symmetric])
  then have q2: "r div 4096 = ?x" "r div 64 mod 64 = ?y" using b q by (simp_all only: pack_div pack_mod)
  have bytes: "chr (224 + r div 4096) = c" "chr (128 + r div 64 mod 64) = d" "chr (128 + r mod 64) = e"
    unfolding q2 q(2) using assms(1) d e by (simp_all add: chr_eqI)
  have range: "\<not> (1114111 < r \<or> 55296 \<le> r \<and> r \<le> 57343)" "\<not> r < 128" "\<not> r < 2048"
    using sur lo hi by linarith+
  show ?thesis
    unfolding r_def [symmetric] encode_rune_def Let_def by (simp only: range hi bytes if_False if_True)
qed

lemma rune4:
  assumes "240 \<le> byte c" "byte c \<le> 244" "second_range (byte c) d" "continuation e" "continuation f"
  shows "encode_rune ((byte c - 240) * 262144 + (byte d - 128) * 4096 + (byte e - 128) * 64 + (byte f - 128)) = [c, d, e, f]"
proof -
  let ?x = "byte c - 240" and ?y = "byte d - 128" and ?z = "byte e - 128" and ?u = "byte f - 128"
  define r where "r = ?x * 262144 + ?y * 4096 + ?z * 64 + ?u"
  have d: "128 \<le> byte d" "byte d \<le> 191" using assms(3) by (auto simp: second_range_def split: if_splits)
  have e: "128 \<le> byte e" "byte e \<le> 191" "128 \<le> byte f" "byte f \<le> 191" using assms(4,5) by (auto simp: continuation_def)
  have b: "?x \<le> 4" "?y < 64" "?z < 64" "?u < 64" using assms d e by auto
  have lo: "65536 \<le> r"
  proof (cases "?x = 0")
    case True
    then have "16 \<le> ?y" using assms(1,3) by (auto simp: second_range_def)
    then show ?thesis unfolding r_def by linarith
  qed (unfold r_def, linarith)
  have hi: "r \<le> 1114111"
  proof (cases "?x = 4")
    case True
    then have "byte c = 244" using assms(1) by linarith
    then have "?y < 16" using assms(3) d by (simp add: second_range_def)
    with True b show ?thesis unfolding r_def by linarith
  next
    case False
    then have "?x \<le> 3" using b by linarith
    then show ?thesis using b unfolding r_def by linarith
  qed
  have "r = ((?x * 64 + ?y) * 64 + ?z) * 64 + ?u" by (simp add: r_def)
  then have q: "r div 64 = (?x * 64 + ?y) * 64 + ?z" "r mod 64 = ?u" using b by (simp_all only: pack_div pack_mod)
  have "r div 4096 = r div 64 div 64" by (simp add: div_mult2_eq [symmetric])
  then have q2: "r div 4096 = ?x * 64 + ?y" "r div 64 mod 64 = ?z" using b q by (simp_all only: pack_div pack_mod)
  have "r div 262144 = r div 4096 div 64" by (simp add: div_mult2_eq [symmetric])
  then have q3: "r div 262144 = ?x" "r div 4096 mod 64 = ?y" using b q2 by (simp_all only: pack_div pack_mod)
  show ?thesis
    unfolding r_def [symmetric] encode_rune_def Let_def using lo hi q q2 q3 assms(1) d e by (simp add: chr_eqI)
qed

text \<open>A rune that decodes is encoded again as the bytes it was decoded from, whatever follows.\<close>

lemma decode_rune_encode:
  assumes "decode_rune s = (r, n)" and "(r, n) \<noteq> (rune_error, 1)" and "s \<noteq> []" and "128 \<le> byte (hd s)"
  shows "encode_rune r = take n s \<and> decode_rune (take n s @ t) = (r, n)"
proof (cases s)
  case (Cons c cs)
  have c: "194 \<le> byte c" "byte c \<le> 244" using assms Cons by (auto simp: Let_def split: if_splits)
  then obtain d ds where ds: "cs = d # ds" and d: "second_range (byte c) d"
    using assms Cons by (cases cs) (auto simp: Let_def split: if_splits)
  consider "byte c < 224" | "224 \<le> byte c" "byte c < 240" | "240 \<le> byte c" by linarith
  then show ?thesis
  proof cases
    case 1
    then have "128 \<le> byte d" "byte d \<le> 191" using d by (auto simp: second_range_def split: if_splits)
    with 1 c d ds Cons assms(1) rune2 [of c d] show ?thesis by (auto simp: Let_def)
  next
    case 2
    then obtain e es where es: "ds = e # es" and e: "continuation e"
      using assms Cons ds d c by (cases ds) (auto simp: Let_def split: if_splits)
    with 2 c d ds Cons assms(1) rune3 [of c d e] show ?thesis by (auto simp: Let_def numeral_3_eq_3)
  next
    case 3
    then obtain e es where es: "ds = e # es" and e: "continuation e"
      using assms Cons ds d c by (cases ds) (auto simp: Let_def split: if_splits)
    from 3 es e obtain f fs where fs: "es = f # fs" and f: "continuation f"
      using assms Cons ds d c by (cases es) (auto simp: Let_def split: if_splits)
    with 3 c d e es ds Cons assms(1) rune4 [of c d e f] show ?thesis by (auto simp: Let_def)
  qed
qed (use assms in simp)

section \<open>Marshal\<close>

text \<open>\<open>Marshal\<close> escapes quotes, backslashes, control bytes, the characters of HTML, U+2028 and U+2029,
  and writes U+FFFD for a byte that is not UTF-8.\<close>

definition unicode_escape :: "nat \<Rightarrow> string" where
  "unicode_escape r =
     [backslash, CHR ''u'', hex_digit (r div 4096), hex_digit (r div 256 mod 16),
      hex_digit (r div 16 mod 16), hex_digit (r mod 16)]"

definition escape_byte :: "char \<Rightarrow> string" where
  "escape_byte c =
     (if c = dquote \<or> c = backslash then [backslash, c]
      else if byte c = 8 then [backslash, CHR ''b'']
      else if byte c = 12 then [backslash, CHR ''f'']
      else if byte c = 10 then [backslash, CHR ''n'']
      else if byte c = 13 then [backslash, CHR ''r'']
      else if byte c = 9 then [backslash, CHR ''t'']
      else if byte c < 32 \<or> c = CHR ''<'' \<or> c = CHR ''>'' \<or> c = CHR ''&'' then unicode_escape (byte c)
      else [c])"

function quote_body :: "string \<Rightarrow> string" where
  "quote_body s =
     (case s of
        [] \<Rightarrow> []
      | c # cs \<Rightarrow>
          if byte c < 128 then escape_byte c @ quote_body cs
          else (let (r, n) = decode_rune s in
                (if (r, n) = (rune_error, 1) then unicode_escape rune_error
                 else if r = 8232 \<or> r = 8233 then unicode_escape r
                 else take n s) @ quote_body (drop n s)))"
  by pat_completeness auto
termination
proof (relation "measure length")
  fix s :: string and c cs p r n
  assume "s = c # cs" "p = decode_rune s" "(r, n) = p"
  then show "(drop n s, s) \<in> measure length"
    using decode_rune_width(1) [of s] by (metis in_measure diff_less length_drop length_greater_0_conv
        list.distinct(1) snd_conv)
qed auto

declare quote_body.simps [simp del]

definition json_quote :: "string \<Rightarrow> string" where
  "json_quote s = dquote # quote_body s @ [dquote]"

fun json_print :: "json \<Rightarrow> string" where
  "json_print JNull = ''null''"
| "json_print (JBool b) = (if b then ''true'' else ''false'')"
| "json_print (JNumber n) = n"
| "json_print (JString s) = json_quote s"
| "json_print (JArray vs) = CHR ''['' # join '','' (map json_print vs) @ '']''"
| "json_print (JObject ms) =
     CHR ''{'' # join '','' (map (\<lambda>m. json_quote (fst m) @ CHR '':'' # json_print (snd m)) ms) @ ''}''"

section \<open>What Marshal writes is read back\<close>

lemma quote_bytes [simp]: "byte dquote = 34" "byte backslash = 92"
  by (simp_all add: dquote_def backslash_def)

lemma quote_eq_iff [simp]:
  "c = dquote \<longleftrightarrow> byte c = 34" "dquote = c \<longleftrightarrow> byte c = 34"
  "c = backslash \<longleftrightarrow> byte c = 92" "backslash = c \<longleftrightarrow> byte c = 92"
  by (metis chr_byte quote_bytes)+

lemma json_string_escape:
  assumes "simple_escape d = Some c"
  shows "json_string (backslash # d # t) = prefixed [c] (json_string t)"
proof -
  have "d \<noteq> CHR ''u''" using assms by (auto simp: simple_escape_def byte_def split: if_splits)
  with assms show ?thesis by (simp add: json_string.simps [of "backslash # d # t"])
qed

lemma simple_escape_byte:
  "byte c = 34 \<or> byte c = 92 \<Longrightarrow> simple_escape c = Some c"
  "byte c = 8 \<Longrightarrow> simple_escape (CHR ''b'') = Some c"
  "byte c = 12 \<Longrightarrow> simple_escape (CHR ''f'') = Some c"
  "byte c = 10 \<Longrightarrow> simple_escape (CHR ''n'') = Some c"
  "byte c = 13 \<Longrightarrow> simple_escape (CHR ''r'') = Some c"
  "byte c = 9 \<Longrightarrow> simple_escape (CHR ''t'') = Some c"
proof -
  have b: "byte (CHR ''b'') = 98" "byte (CHR ''f'') = 102" "byte (CHR ''n'') = 110" "byte (CHR ''r'') = 114"
    "byte (CHR ''t'') = 116" by (simp_all add: byte_def)
  show "byte c = 34 \<or> byte c = 92 \<Longrightarrow> simple_escape c = Some c" by (auto simp: simple_escape_def)
  show "byte c = 8 \<Longrightarrow> simple_escape (CHR ''b'') = Some c" by (simp add: simple_escape_def b chr_eqI)
  show "byte c = 12 \<Longrightarrow> simple_escape (CHR ''f'') = Some c" by (simp add: simple_escape_def b chr_eqI)
  show "byte c = 10 \<Longrightarrow> simple_escape (CHR ''n'') = Some c" by (simp add: simple_escape_def b chr_eqI)
  show "byte c = 13 \<Longrightarrow> simple_escape (CHR ''r'') = Some c" by (simp add: simple_escape_def b chr_eqI)
  show "byte c = 9 \<Longrightarrow> simple_escape (CHR ''t'') = Some c" by (simp add: simple_escape_def b chr_eqI)
qed

lemma json_string_unicode:
  assumes "r < 65536" and "r < 55296 \<or> 57343 < r"
  shows "json_string (unicode_escape r @ t) = prefixed (encode_rune r) (json_string t)"
proof -
  have d: "r div 4096 < 16" "r div 256 mod 16 < 16" "r div 16 mod 16 < 16" "r mod 16 < 16"
    using assms(1) by (auto simp: less_mult_imp_div_less)
  have "r div 16 * 16 + r mod 16 = r" "r div 256 * 16 + r div 16 mod 16 = r div 16"
    "r div 4096 * 16 + r div 256 mod 16 = r div 256"
    using div_mult_mod_eq [of r 16] div_mult_mod_eq [of "r div 16" 16] div_mult_mod_eq [of "r div 256" 16]
    by (simp_all only: div_mult2_eq [symmetric]) simp_all
  then have r: "r div 4096 * 4096 + r div 256 mod 16 * 256 + r div 16 mod 16 * 16 + r mod 16 = r"
    by linarith
  have "hex4 (hex_digit (r div 4096) # hex_digit (r div 256 mod 16) # hex_digit (r div 16 mod 16) #
      hex_digit (r mod 16) # t) = Some (r, t)"
    using d r by simp
  moreover have "join_surrogates r t = (r, t)" using assms(2) by (auto simp: join_surrogates_def)
  ultimately show ?thesis
    by (simp add: unicode_escape_def json_string.simps [of "backslash # CHR ''u'' # x" for x])
qed

lemma json_string_byte:
  assumes "byte c < 128"
  shows "json_string (escape_byte c @ t) = prefixed [c] (json_string t)"
proof -
  have rest: "escape_byte c = unicode_escape (byte c) \<or> \<not> byte c < 32 \<and> escape_byte c = [c]"
    if "byte c \<notin> {34, 92, 8, 12, 10, 13, 9}"
    using that by (auto simp: escape_byte_def)
  consider d where "escape_byte c = [backslash, d]" "simple_escape d = Some c"
    | "escape_byte c = unicode_escape (byte c)"
    | "byte c \<noteq> 34" "byte c \<noteq> 92" "\<not> byte c < 32" "escape_byte c = [c]"
  proof (cases "byte c \<in> {34, 92, 8, 12, 10, 13, 9}")
    case True
    then have "\<exists>d. escape_byte c = [backslash, d] \<and> simple_escape d = Some c"
      by (auto simp: escape_byte_def simple_escape_byte)
    with that(1) show ?thesis by blast
  qed (use rest that(2,3) in auto)
  then show ?thesis
  proof cases
    case 1
    then show ?thesis by (simp add: json_string_escape)
  next
    case 2
    then show ?thesis using assms json_string_unicode [of "byte c" t] by (simp add: encode_rune_byte)
  next
    case 3
    then show ?thesis using assms by (simp add: json_string.simps [of "c # t"] encode_rune_byte)
  qed
qed

lemma json_string_rune:
  assumes "decode_rune s = (r, n)" and "(r, n) \<noteq> (rune_error, 1)" and "s = c # cs" and "128 \<le> byte c"
  shows "json_string (take n s @ t) = prefixed (take n s) (json_string t)"
proof -
  have n: "0 < n" "n \<le> length s" using decode_rune_width [of s] assms(1,3) by auto
  have enc: "encode_rune r = take n s" "decode_rune (take n s @ t) = (r, n)"
    using decode_rune_encode [OF assms(1,2), of t] assms(3,4) by auto
  obtain m where m: "take n s = c # m" using n(1) assms(3) by (cases n) auto
  have "c \<noteq> dquote" "c \<noteq> backslash" "\<not> byte c < 32" using assms(4) by auto
  moreover have "drop n (c # m @ t) = t" using m n(2) by (metis append_Cons append_eq_conv_conj length_take min.absorb2)
  ultimately show ?thesis
    using enc unfolding m by (simp add: json_string.simps [of "c # m @ t"] del: decode_rune.simps)
qed

lemma json_string_quote_body:
  "utf8_valid s \<Longrightarrow> json_string (quote_body s @ dquote # t) = Some (s, t)"
proof (induction s rule: quote_body.induct)
  case (1 s)
  show ?case
  proof (cases s)
    case Nil
    then show ?thesis by (simp add: quote_body.simps json_string.simps)
  next
    case (Cons c cs)
    obtain r n where d: "decode_rune s = (r, n)" by fastforce
    have ok: "(r, n) \<noteq> (rune_error, 1)" "utf8_valid (drop n s)"
      using 1(3) d unfolding Cons by (auto simp: utf8_valid.simps [of "c # cs"] simp del: decode_rune.simps)
    show ?thesis
    proof (cases "byte c < 128")
      case True
      then have "n = 1" using d Cons by simp
      with ok(2) Cons have "utf8_valid cs" by simp
      with 1(1) [OF Cons True] True Cons show ?thesis
        by (simp add: quote_body.simps [of "c # cs"] json_string_byte)
    next
      case False
      have ih: "json_string (quote_body (drop n s) @ dquote # t) = Some (drop n s, t)"
        using 1(2) [OF Cons False d [symmetric] refl ok(2)] .
      have enc: "encode_rune r = take n s"
        using decode_rune_encode [OF d ok(1)] Cons False by simp
      have "json_string ((if r = 8232 \<or> r = 8233 then unicode_escape r else take n s) @ quote_body (drop n s) @ dquote # t) =
          prefixed (take n s) (json_string (quote_body (drop n s) @ dquote # t))"
        using json_string_rune [OF d ok(1) Cons] json_string_unicode [of r] False enc by auto
      moreover have "quote_body s = (if r = 8232 \<or> r = 8233 then unicode_escape r else take n s) @ quote_body (drop n s)"
        unfolding quote_body.simps [of s] using ok(1) d [unfolded Cons] False
        by (simp only: Cons list.case if_False Let_def prod.case)
      ultimately show ?thesis using ih by simp
    qed
  qed
qed

text \<open>A number is read back as far as it goes, when what follows cannot continue it.\<close>

definition number_ends :: "string \<Rightarrow> bool" where
  "number_ends t \<longleftrightarrow>
     (case t of [] \<Rightarrow> True | c # _ \<Rightarrow> \<not> is_digit c \<and> c \<noteq> CHR ''.'' \<and> c \<noteq> CHR ''e'' \<and> c \<noteq> CHR ''E'')"

lemma span_digits_append:
  "span_digits s = (ds, r) \<Longrightarrow> number_ends t \<Longrightarrow> span_digits (s @ t) = (ds, r @ t)"
  by (induction s arbitrary: ds r) (auto simp: span_digits_def number_ends_def split: list.splits)

lemma number_integer_append:
  assumes "number_integer s = Some (i, r)" and "number_ends t"
  shows "number_integer (s @ t) = Some (i, r @ t)"
proof (cases s)
  case (Cons c cs)
  with assms span_digits_append [of s i r t] show ?thesis
    by (auto simp: number_integer_def split: if_splits)
qed (use assms in \<open>simp add: number_integer_def\<close>)

lemma number_fraction_append:
  assumes "number_fraction s = Some (i, r)" and "number_ends t"
  shows "number_fraction (s @ t) = Some (i, r @ t)"
proof (cases s)
  case Nil
  with assms show ?thesis by (auto simp: number_fraction_def number_ends_def split: list.splits)
next
  case (Cons c cs)
  obtain ds u where d: "span_digits cs = (ds, u)" by fastforce
  from assms(1) Cons d span_digits_append [OF d assms(2)] show ?thesis
    by (auto simp: number_fraction_def split: if_splits)
qed

lemma number_exponent_append:
  assumes "number_exponent s = Some (i, r)" and "number_ends t"
  shows "number_exponent (s @ t) = Some (i, r @ t)"
proof (cases s)
  case Nil
  with assms show ?thesis by (auto simp: number_exponent_def number_ends_def split: list.splits)
next
  case (Cons c cs)
  show ?thesis
  proof (cases cs)
    case Nil
    with assms Cons show ?thesis by (auto simp: number_exponent_def span_digits_def split: if_splits)
  next
    case (Cons d us)
    obtain ds u where 1: "span_digits (d # us) = (ds, u)" by fastforce
    obtain ds2 u2 where 2: "span_digits us = (ds2, u2)" by fastforce
    from assms(1) Cons \<open>s = c # cs\<close> 1 2 span_digits_append [OF 1 assms(2)] span_digits_append [OF 2 assms(2)]
    show ?thesis by (auto simp: number_exponent_def split: if_splits)
  qed
qed

lemma json_number_append:
  assumes "json_number s = Some (n, r)" and "number_ends t"
  shows "json_number (s @ t) = Some (n, r @ t)"
proof (cases s)
  case Nil
  with assms show ?thesis by (simp add: json_number_def number_integer_def)
next
  case (Cons c cs)
  define s1 where "s1 = (if c = CHR ''-'' then cs else s)"
  obtain i s2 f s3 e where p: "number_integer s1 = Some (i, s2)" "number_fraction s2 = Some (f, s3)"
    "number_exponent s3 = Some (e, r)" "n = (if c = CHR ''-'' then [c] else []) @ i @ f @ e"
    using assms(1) Cons by (auto simp: json_number_def s1_def Let_def split: if_splits option.splits)
  show ?thesis
    using p number_integer_append [OF p(1) assms(2)] number_fraction_append [OF p(2) assms(2)]
      number_exponent_append [OF p(3) assms(2)] Cons
    by (cases "c = CHR ''-''") (simp_all add: json_number_def s1_def)
qed

fun printable :: "json \<Rightarrow> bool" where
  "printable (JNumber n) \<longleftrightarrow> json_number n = Some (n, [])"
| "printable (JString s) \<longleftrightarrow> utf8_valid s"
| "printable (JArray vs) \<longleftrightarrow> list_all printable vs"
| "printable (JObject ms) \<longleftrightarrow> list_all (\<lambda>m. utf8_valid (fst m) \<and> printable (snd m)) ms"
| "printable v \<longleftrightarrow> True"

lemma json_value_string: "utf8_valid s \<Longrightarrow> json_value (json_quote s @ t) = Some (JString s, t)"
  by (simp add: json_quote_def json_value.simps [of "dquote # x" for x] json_string_quote_body) (simp add: byte_def)

lemma skip_blanks_cons: "\<not> json_space c \<Longrightarrow> skip_blanks (c # s) = c # s"
  by (simp add: skip_blanks_def)

lemma json_number_start:
  assumes "json_number s = Some (n, r)"
  shows "\<exists>c cs. s = c # cs \<and> (c = CHR ''-'' \<or> is_digit c)"
proof (cases s)
  case (Cons c cs)
  have "is_digit c" if "c \<noteq> CHR ''-''" "c \<noteq> CHR ''0''"
    using assms Cons that by (auto simp: json_number_def number_integer_def split: if_splits)
  moreover have "is_digit (CHR ''0'')" by (simp add: is_digit_def byte_def)
  ultimately show ?thesis using Cons by blast
qed (use assms in \<open>simp add: json_number_def number_integer_def\<close>)

text \<open>The first byte of a printed value: no white space, and no closing bracket.\<close>

lemma json_print_start:
  assumes "printable v"
  obtains c cs where "json_print v = c # cs" "\<not> json_space c" "c \<noteq> CHR '']''" "c \<noteq> CHR ''}''"
proof (cases v)
  case (JNumber n)
  then obtain c cs where c: "n = c # cs" "c = CHR ''-'' \<or> is_digit c"
    using assms json_number_start [of n n "[]"] by auto
  then have "\<not> json_space c \<and> c \<noteq> CHR '']'' \<and> c \<noteq> CHR ''}''"
    by (auto simp: json_space_def is_digit_def byte_def)
  then show ?thesis using that JNumber c(1) by simp
next
  case (JBool b)
  show ?thesis
    by (rule that [of "if b then CHR ''t'' else CHR ''f''" "if b then ''rue'' else ''alse''"])
       (use JBool in \<open>simp_all add: json_space_def byte_def\<close>)
next
  case JNull
  show ?thesis by (rule that [of "CHR ''n''" "''ull''"]) (use JNull in \<open>simp_all add: json_space_def byte_def\<close>)
next
  case (JString s)
  have "byte dquote \<noteq> byte (CHR '']'')" "byte dquote \<noteq> byte (CHR ''}'')" unfolding quote_bytes by (simp_all add: byte_def)
  then show ?thesis
    by (intro that [of dquote "quote_body s @ [dquote]"]) (use JString in \<open>auto simp: json_quote_def json_space_def\<close>)
next
  case (JArray vs)
  show ?thesis by (rule that [of "CHR ''[''"]) (use JArray in \<open>simp_all add: json_space_def byte_def\<close>)
next
  case (JObject ms)
  show ?thesis by (rule that [of "CHR ''{''"]) (use JObject in \<open>simp_all add: json_space_def byte_def\<close>)
qed

lemma bracket_spaces:
  "skip_blanks (CHR '','' # t) = CHR '','' # t" "skip_blanks (CHR '']'' # t) = CHR '']'' # t"
  "skip_blanks (CHR ''}'' # t) = CHR ''}'' # t" "skip_blanks (CHR '':'' # t) = CHR '':'' # t"
  by (simp_all add: skip_blanks_def json_space_def byte_def)

lemma bracket_ends:
  "number_ends (CHR '','' # t)" "number_ends (CHR '']'' # t)" "number_ends (CHR ''}'' # t)"
  by (simp_all add: number_ends_def is_digit_def byte_def)

lemma json_print_skip: "printable v \<Longrightarrow> skip_blanks (json_print v @ t) = json_print v @ t"
  by (erule json_print_start [of v]) (simp add: skip_blanks_cons)

lemma json_elements_print:
  assumes "\<And>v u. v \<in> set vs \<Longrightarrow> number_ends u \<Longrightarrow> json_value (json_print v @ u) = Some (v, u)"
    and "list_all printable vs" and "vs \<noteq> []"
  shows "json_elements (join '','' (map json_print vs) @ CHR '']'' # t) = Some (vs, t)"
  using assms
proof (induction vs rule: induct_list012)
  case (2 v)
  then show ?case
    by (simp add: json_elements_eq [of "json_print v @ CHR '']'' # t"] bracket_spaces bracket_ends)
next
  case (3 v w vs)
  let ?rest = "join '','' (map json_print (w # vs)) @ CHR '']'' # t"
  have sp: "skip_blanks ?rest = ?rest"
    using 3(4) json_print_skip [of w] by (cases vs) simp_all
  have ih: "json_elements ?rest = Some (w # vs, t)"
    by (rule 3(2)) (use 3(3,4) in auto)
  have v: "json_value (json_print v @ CHR '','' # ?rest) = Some (v, CHR '','' # ?rest)"
    by (rule 3(3)) (simp_all add: bracket_ends)
  have "join '','' (map json_print (v # w # vs)) @ CHR '']'' # t = json_print v @ CHR '','' # ?rest" by simp
  then show ?case
    unfolding json_elements_eq [of "join '','' (map json_print (v # w # vs)) @ CHR '']'' # t"]
    using v ih sp by (simp add: bracket_spaces del: join.simps list.map)
qed simp

lemma json_members_step:
  assumes "utf8_valid k" and "printable v" and "json_value (json_print v @ d # u) = Some (v, d # u)"
    and "d = CHR '','' \<or> d = CHR ''}''"
  shows "json_members (json_quote k @ CHR '':'' # json_print v @ d # u) =
    (if d = CHR ''}'' then Some ([(k, v)], u) else keeping (\<lambda>ms. (k, v) # ms) (json_members (skip_blanks u)))"
proof -
  have "skip_blanks (d # u) = d # u" using assms(4) bracket_spaces by auto
  with assms show ?thesis
    unfolding json_quote_def json_members_eq [of "(dquote # quote_body k @ [dquote]) @ x" for x]
    by (simp add: json_string_quote_body bracket_spaces json_print_skip) (auto simp: assms(3) bracket_spaces)
qed

lemma json_members_print:
  assumes "\<And>k v u. (k, v) \<in> set ms \<Longrightarrow> number_ends u \<Longrightarrow> json_value (json_print v @ u) = Some (v, u)"
    and "list_all (\<lambda>m. utf8_valid (fst m) \<and> printable (snd m)) ms" and "ms \<noteq> []"
  shows "json_members (join '','' (map (\<lambda>m. json_quote (fst m) @ CHR '':'' # json_print (snd m)) ms) @ CHR ''}'' # t) =
    Some (ms, t)"
  using assms
proof (induction ms rule: induct_list012)
  case (2 m)
  then show ?case
    using json_members_step [of "fst m" "snd m" "CHR ''}''" t] 2(1) [of "fst m" "snd m"]
    by (simp add: bracket_ends)
next
  case (3 m n ms)
  let ?show = "\<lambda>m. json_quote (fst m) @ CHR '':'' # json_print (snd m)"
  let ?rest = "join '','' (map ?show (n # ms)) @ CHR ''}'' # t"
  obtain r where r: "?rest = dquote # r" by (cases ms) (auto simp: json_quote_def)
  have sp: "skip_blanks ?rest = ?rest" unfolding r by (rule skip_blanks_cons) (simp add: json_space_def)
  have ih: "json_members ?rest = Some (n # ms, t)"
    by (rule 3(2)) (use 3(3,4) in auto)
  have v: "json_value (json_print (snd m) @ CHR '','' # ?rest) = Some (snd m, CHR '','' # ?rest)"
    by (rule 3(3) [of "fst m"]) (simp_all add: bracket_ends)
  have "join '','' (map ?show (m # n # ms)) @ CHR ''}'' # t =
      json_quote (fst m) @ CHR '':'' # json_print (snd m) @ CHR '','' # ?rest" by simp
  then show ?case
    using json_members_step [OF _ _ v] 3(4) ih sp by (simp del: join.simps list.map)
qed simp

text \<open>Printing a value and decoding the text gives the value back.\<close>

lemma json_value_print:
  "printable v \<Longrightarrow> number_ends t \<Longrightarrow> json_value (json_print v @ t) = Some (v, t)"
proof (induction v arbitrary: t)
  case (JString s)
  then show ?case by (simp add: json_value_string)
next
  case (JArray vs)
  show ?case
  proof (cases vs)
    case Nil
    then show ?thesis by (simp add: json_value.simps [of "CHR ''['' # x" for x] bracket_spaces)
  next
    case (Cons w ws)
    have el: "json_elements (join '','' (map json_print vs) @ CHR '']'' # t) = Some (vs, t)"
      by (rule json_elements_print) (use JArray Cons in \<open>auto simp: list_all_iff\<close>)
    have "printable w" using JArray(2) Cons by simp
    then obtain c cs where c: "json_print w = c # cs" "\<not> json_space c" "c \<noteq> CHR '']''"
      by (rule json_print_start)
    then obtain r where r: "join '','' (map json_print vs) = c # r" by (cases ws) (auto simp: Cons)
    show ?thesis
      using el c(2,3) by (simp add: json_value.simps [of "CHR ''['' # x" for x] r skip_blanks_cons)
  qed
next
  case (JObject ms)
  let ?show = "\<lambda>m. json_quote (fst m) @ CHR '':'' # json_print (snd m)"
  show ?case
  proof (cases ms)
    case Nil
    then show ?thesis by (simp add: json_value.simps [of "CHR ''{'' # x" for x] bracket_spaces)
  next
    case (Cons m ns)
    have el: "json_members (join '','' (map ?show ms) @ CHR ''}'' # t) = Some (ms, t)"
      by (rule json_members_print) (use JObject Cons in \<open>fastforce simp: list_all_iff\<close>)+
    obtain r where r: "join '','' (map ?show ms) = dquote # r" by (cases ns) (auto simp: Cons json_quote_def)
    have "dquote \<noteq> CHR ''}''" "\<not> json_space dquote" by (simp_all add: json_space_def) (simp add: byte_def)
    with el show ?thesis
      by (simp add: json_value.simps [of "CHR ''{'' # x" for x] r skip_blanks_cons del: quote_eq_iff)
  qed
next
  case (JNumber n)
  then obtain c cs where c: "n = c # cs" "c = CHR ''-'' \<or> is_digit c"
    using json_number_start [of n n "[]"] by auto
  then have "c \<noteq> CHR ''{''" "c \<noteq> CHR ''[''" "c \<noteq> dquote" "c \<noteq> CHR ''t''" "c \<noteq> CHR ''f''" "c \<noteq> CHR ''n''"
    by (auto simp: is_digit_def byte_def)
  with JNumber json_number_append [of n n "[]" t] c show ?case
    by (simp add: json_value.simps [of "c # x" for x] has_prefix_def)
qed (simp_all add: json_value.simps has_prefix_def byte_def)

theorem json_parse_print: "printable v \<Longrightarrow> json_parse (json_print v) = Some v"
  using json_value_print [of v "[]"] json_print_skip [of v "[]"]
  by (simp add: json_parse_def number_ends_def) (simp add: skip_blanks_def)

section \<open>What Marshal writes is UTF-8\<close>

lemma utf8_step:
  assumes "utf8_valid s" and "s \<noteq> []" and "decode_rune s = (r, n)"
  shows "(r, n) \<noteq> (rune_error, 1)" "utf8_valid (drop n s)"
  using assms by (auto simp: utf8_valid.simps [of s] simp del: decode_rune.simps)

lemma utf8_valid_Nil [simp]: "utf8_valid []"
  by (simp add: utf8_valid.simps)

lemma utf8_validI:
  "decode_rune s = (r, n) \<Longrightarrow> (r, n) \<noteq> (rune_error, 1) \<Longrightarrow> utf8_valid (drop n s) \<Longrightarrow> utf8_valid s"
  by (cases "s = []") (simp_all add: utf8_valid.simps [of s] del: decode_rune.simps)

lemma decode_rune_append:
  assumes "decode_rune s = (r, n)" and "(r, n) \<noteq> (rune_error, 1)" and "s \<noteq> []"
  shows "decode_rune (s @ t) = (r, n)"
proof (cases "byte (hd s) < 128")
  case True
  with assms obtain c cs where "s = c # cs" by (cases s) auto
  with assms True show ?thesis by (simp add: decode_rune_ascii del: decode_rune.simps)
next
  case False
  then have "decode_rune (take n s @ drop n s @ t) = (r, n)"
    using decode_rune_encode [OF assms] by simp
  then show ?thesis by (metis append.assoc append_take_drop_id)
qed

lemma utf8_valid_append: "utf8_valid s \<Longrightarrow> utf8_valid t \<Longrightarrow> utf8_valid (s @ t)"
proof (induction s rule: utf8_valid.induct)
  case (1 s)
  show ?case
  proof (cases "s = []")
    case False
    obtain r n where d: "decode_rune s = (r, n)" by fastforce
    note ok = utf8_step [OF 1(2) False d]
    have n: "n \<le> length s" using decode_rune_width [of s] False d by auto
    have "utf8_valid (drop n s @ t)" using 1(1) [OF False] ok 1(3) d by simp
    with n have "utf8_valid (drop n (s @ t))" by simp
    with decode_rune_append [OF d ok(1) False] ok(1) show ?thesis by (rule utf8_validI)
  qed (use 1 in simp)
qed

lemma utf8_valid_ascii: "ascii s \<Longrightarrow> utf8_valid s"
proof (induction s)
  case (Cons c s)
  then have "byte c < 128" "ascii s" by auto
  moreover have "byte c \<noteq> rune_error" using byte_lt [of c] unfolding rune_error_def by linarith
  ultimately show ?case
    using Cons decode_rune_ascii [of c s] by (intro utf8_validI [of "c # s" "byte c" 1]) auto
qed simp

lemma utf8_valid_rune:
  assumes "decode_rune s = (r, n)" and "(r, n) \<noteq> (rune_error, 1)" and "s \<noteq> []" and "128 \<le> byte (hd s)"
  shows "utf8_valid (take n s)"
proof (rule utf8_validI)
  show "decode_rune (take n s) = (r, n)" using decode_rune_encode [OF assms, of "[]"] by simp
qed (use assms(2) in simp_all)

lemma hex_digit_ascii: "n < 16 \<Longrightarrow> byte (hex_digit n) < 128"
  by (auto simp: hex_digit_def)

lemma ascii_unicode_escape: "r < 65536 \<Longrightarrow> ascii (unicode_escape r)"
  using hex_digit_ascii [of "r div 4096"]
  by (simp add: unicode_escape_def hex_digit_ascii less_mult_imp_div_less) (simp add: byte_def)

lemma ascii_escape_byte: "byte c < 128 \<Longrightarrow> ascii (escape_byte c)"
  by (auto simp: escape_byte_def ascii_unicode_escape) (auto simp: byte_def)

lemma utf8_quote_body: "utf8_valid s \<Longrightarrow> utf8_valid (quote_body s)"
proof (induction s rule: quote_body.induct)
  case (1 s)
  show ?case
  proof (cases s)
    case Nil
    then show ?thesis by (simp add: quote_body.simps)
  next
    case (Cons c cs)
    obtain r n where d: "decode_rune s = (r, n)" by fastforce
    have ne: "s \<noteq> []" using Cons by simp
    note ok = utf8_step [OF 1(3) ne d]
    show ?thesis
    proof (cases "byte c < 128")
      case True
      then have "n = 1" using d Cons by simp
      with ok(2) Cons have "utf8_valid cs" by simp
      with 1(1) [OF Cons True] True Cons show ?thesis
        by (simp add: quote_body.simps [of "c # cs"] utf8_valid_append utf8_valid_ascii ascii_escape_byte)
    next
      case False
      have "utf8_valid (quote_body (drop n s))" using 1(2) [OF Cons False d [symmetric] refl ok(2)] .
      moreover have "utf8_valid (if r = 8232 \<or> r = 8233 then unicode_escape r else take n s)"
        using utf8_valid_rune [OF d ok(1) ne] False Cons utf8_valid_ascii [OF ascii_unicode_escape [of r]]
        by (cases "r < 65536") auto
      moreover have "quote_body s = (if r = 8232 \<or> r = 8233 then unicode_escape r else take n s) @ quote_body (drop n s)"
        unfolding quote_body.simps [of s] using ok(1) d [unfolded Cons] False
        by (simp only: Cons list.case if_False Let_def prod.case)
      ultimately show ?thesis by (simp add: utf8_valid_append)
    qed
  qed
qed

lemma utf8_json_quote: "utf8_valid s \<Longrightarrow> utf8_valid (json_quote s)"
  using utf8_valid_append [of "[dquote]" "quote_body s @ [dquote]"] utf8_valid_append [of "quote_body s" "[dquote]"]
  by (simp add: json_quote_def utf8_quote_body utf8_valid_ascii)

definition number_char :: "char \<Rightarrow> bool" where
  "number_char c \<longleftrightarrow> is_digit c \<or> c \<in> set ''-+.eE''"

lemma span_number_chars: "span_digits s = (ds, t) \<Longrightarrow> list_all number_char ds"
  by (auto simp: span_digits_def number_char_def list_all_iff dest: set_takeWhileD)

lemma number_part_chars:
  "number_integer s = Some (i, t) \<Longrightarrow> list_all number_char i"
  "number_fraction s = Some (i, t) \<Longrightarrow> list_all number_char i"
  "number_exponent s = Some (i, t) \<Longrightarrow> list_all number_char i"
proof -
  have z: "number_char (CHR ''0'')" by (simp add: number_char_def is_digit_def byte_def)
  show "number_integer s = Some (i, t) \<Longrightarrow> list_all number_char i"
    using z by (auto simp: number_integer_def dest: span_number_chars split: list.splits if_splits)
  show "number_fraction s = Some (i, t) \<Longrightarrow> list_all number_char i"
    by (auto simp: number_fraction_def number_char_def [of "CHR ''.''"] dest: span_number_chars
        split: list.splits if_splits prod.splits)
  show "number_exponent s = Some (i, t) \<Longrightarrow> list_all number_char i"
    by (auto simp: number_exponent_def number_char_def [of "CHR ''e''"] number_char_def [of "CHR ''E''"]
        number_char_def [of "CHR ''+''"] number_char_def [of "CHR ''-''"] Let_def dest: span_number_chars
        split: list.splits if_splits prod.splits)
qed

lemma number_ascii: "json_number s = Some (n, t) \<Longrightarrow> ascii n"
proof -
  assume "json_number s = Some (n, t)"
  then have "list_all number_char n"
    by (auto simp: json_number_def Let_def number_char_def [of "CHR ''-''"] dest!: number_part_chars
        split: list.splits if_splits option.splits)
  moreover have "number_char c \<Longrightarrow> byte c < 128" for c by (auto simp: number_char_def is_digit_def byte_def)
  ultimately show ?thesis by (auto simp: ascii_def list_all_iff)
qed

lemma utf8_join: "(\<And>x. x \<in> set xs \<Longrightarrow> utf8_valid x) \<Longrightarrow> utf8_valid sep \<Longrightarrow> utf8_valid (join sep xs)"
  by (induction sep xs rule: join.induct) (auto intro!: utf8_valid_append)

lemma comma_utf8: "utf8_valid '',''"
  by (rule utf8_valid_ascii) (simp add: byte_def)

lemma utf8_json_print: "printable v \<Longrightarrow> utf8_valid (json_print v)"
proof (induction v)
  case (JArray vs)
  then have "utf8_valid (join '','' (map json_print vs))"
    by (intro utf8_join) (auto simp: list_all_iff comma_utf8)
  then have "utf8_valid (''['' @ join '','' (map json_print vs) @ '']'')"
    by (intro utf8_valid_append) (simp_all add: utf8_valid_ascii byte_def)
  then show ?case by simp
next
  case (JObject ms)
  have "utf8_valid (json_quote (fst m) @ '':'' @ json_print (snd m))" if "m \<in> set ms" for m
    using JObject(2) that JObject(1) [OF that, of "snd m"]
    by (intro utf8_valid_append utf8_json_quote) (auto simp: list_all_iff utf8_valid_ascii byte_def snds.simps)
  then have "utf8_valid (join '','' (map (\<lambda>m. json_quote (fst m) @ CHR '':'' # json_print (snd m)) ms))"
    by (intro utf8_join) (auto simp: utf8_valid_ascii byte_def)
  then have "utf8_valid (''{'' @ join '','' (map (\<lambda>m. json_quote (fst m) @ CHR '':'' # json_print (snd m)) ms) @ ''}'')"
    by (intro utf8_valid_append) (simp_all add: utf8_valid_ascii byte_def)
  then show ?case by simp
qed (auto simp: utf8_json_quote utf8_valid_ascii number_ascii, auto simp: utf8_valid_ascii byte_def)

end
