(* ===== verification/GoFloat.thy ===== *)
theory GoFloat
  imports GoJson
begin

text \<open>
  \<open>strconv.ParseFloat(s, 64)\<close> on the text of a JSON number, exactly: the decimal fraction the text
  denotes, rounded to the nearest IEEE 754 double (ties to even). A finite double is a mantissa times
  a power of two; a value too large for one is an error. Last, the conversion to \<open>int64\<close>, which
  drops the fraction.
\<close>

section \<open>The value of a text\<close>

text \<open>The digits before the exponent, the number of them behind the point, and the exponent.\<close>

definition number_sign :: "string \<Rightarrow> bool \<times> string" where
  "number_sign s =
     (case s of c # cs \<Rightarrow> if c = CHR ''-'' then (True, cs) else if c = CHR ''+'' then (False, cs) else (False, s)
      | [] \<Rightarrow> (False, []))"

definition exponent_value :: "string \<Rightarrow> int" where
  "exponent_value s =
     (case s of
        [] \<Rightarrow> 0
      | _ # t \<Rightarrow> (case number_sign t of (neg, ds) \<Rightarrow> if neg then - int (number_of ds) else int (number_of ds)))"

definition decimal_value :: "string \<Rightarrow> bool \<times> nat \<times> int" where
  "decimal_value s =
     (let (neg, t) = number_sign s;
          (ip, t1) = span_digits t;
          (fp, t2) = (case t1 of c # cs \<Rightarrow> if c = CHR ''.'' then span_digits cs else ([], t1) | [] \<Rightarrow> ([], []))
      in (neg, number_of (ip @ fp), exponent_value t2 - int (length fp)))"

text \<open>As a fraction of natural numbers.\<close>

definition decimal_fraction :: "nat \<Rightarrow> int \<Rightarrow> nat \<times> nat" where
  "decimal_fraction m e = (if 0 \<le> e then (m * 10 ^ nat e, 1) else (m, 10 ^ nat (- e)))"

section \<open>Rounding\<close>

text \<open>The length of a number in binary, also \<open>big.Int.BitLen\<close>.\<close>

fun bitLen :: "nat \<Rightarrow> nat" where
  "bitLen n = (if n = 0 then 0 else Suc (bitLen (n div 2)))"

declare bitLen.simps [simp del]

definition round_half_even :: "nat \<Rightarrow> nat \<Rightarrow> nat" where
  "round_half_even a b =
     (let q = a div b; r = a mod b in if 2 * r < b \<or> 2 * r = b \<and> even q then q else q + 1)"

text \<open>\<open>num / den\<close> divided by \<open>2 ^ e\<close>.\<close>

definition scaled :: "nat \<Rightarrow> nat \<Rightarrow> int \<Rightarrow> nat \<times> nat" where
  "scaled num den e = (if 0 \<le> e then (num, den * 2 ^ nat e) else (num * 2 ^ nat (- e), den))"

text \<open>The exponent that leaves a mantissa of 53 bits, or the smallest there is.\<close>

definition float_exponent :: "nat \<Rightarrow> nat \<Rightarrow> int" where
  "float_exponent num den =
     (let e = int (bitLen num) - int (bitLen den) - 53;
          e' = (case scaled num den e of (a, b) \<Rightarrow> if 2 ^ 53 * b \<le> a then e + 1 else e)
      in max e' (- 1074))"

definition float64 :: "nat \<Rightarrow> nat \<Rightarrow> nat \<times> int" where
  "float64 num den =
     (let e = float_exponent num den in
      case scaled num den e of (a, b) \<Rightarrow> (round_half_even a b, e))"

text \<open>\<open>f > k\<close>, and \<open>int64(f)\<close>, for the double \<open>mant * 2 ^ e\<close>.\<close>

definition float_above :: "nat \<times> int \<Rightarrow> nat \<Rightarrow> bool" where
  "float_above f k = (case f of (m, e) \<Rightarrow> if 0 \<le> e then k < m * 2 ^ nat e else k * 2 ^ nat (- e) < m)"

definition float_trunc :: "nat \<times> int \<Rightarrow> nat" where
  "float_trunc f = (case f of (m, e) \<Rightarrow> if 0 \<le> e then m * 2 ^ nat e else m div 2 ^ nat (- e))"

text \<open>The sign and the absolute value; none when it is out of range.\<close>

definition ParseFloat :: "string \<Rightarrow> (bool \<times> nat \<times> int) option" where
  "ParseFloat s =
     (case decimal_value s of
        (neg, m, e10) \<Rightarrow>
          (case decimal_fraction m e10 of
             (num, den) \<Rightarrow>
               (let f = float64 num den in
                if float_above f (2 ^ 1024 - 1) then None else Some (neg, f))))"

lemma bitLen_bounds: "0 < n \<Longrightarrow> 2 ^ (bitLen n - 1) \<le> n \<and> n < 2 ^ bitLen n"
proof (induction n rule: bitLen.induct)
  case (1 n)
  show ?case
  proof (cases "n = 1")
    case True
    then show ?thesis by (simp add: bitLen.simps)
  next
    case False
    with 1 have ih: "2 ^ (bitLen (n div 2) - 1) \<le> n div 2 \<and> n div 2 < 2 ^ bitLen (n div 2)" by simp
    have "bitLen (n div 2) = Suc (bitLen (n div 2) - 1)"
      using 1(2) False by (subst bitLen.simps) (simp add: bitLen.simps [of "n div 2"])
    then obtain k where k: "bitLen (n div 2) = Suc k" by blast
    with ih have "2 * 2 ^ k \<le> n" "n < 2 * 2 ^ Suc k" by auto
    then show ?thesis using 1(2) k by (simp add: bitLen.simps [of n])
  qed
qed

lemma bitLen_le: "n < 2 ^ k \<Longrightarrow> bitLen n \<le> k"
proof (cases "n = 0")
  case False
  assume "n < 2 ^ k"
  with False bitLen_bounds [of n] have "(2 :: nat) ^ (bitLen n - 1) < 2 ^ k" by linarith
  then have "bitLen n - 1 < k" by simp
  then show ?thesis by simp
qed (simp add: bitLen.simps)

lemma round_half_even_bounds:
  assumes "0 < b"
  shows "a div b \<le> round_half_even a b" "round_half_even a b \<le> (a + b - 1) div b"
proof -
  show "a div b \<le> round_half_even a b" by (simp add: round_half_even_def Let_def)
  show "round_half_even a b \<le> (a + b - 1) div b"
  proof (cases "a mod b = 0")
    case True
    then have "round_half_even a b = a div b" using assms by (simp add: round_half_even_def)
    then show ?thesis using assms by (simp add: div_le_mono)
  next
    case False
    define q x where "q = a div b" and "x = a mod b + b - 1"
    have "a + b - 1 = x + q * b" using False div_mult_mod_eq [of a b] unfolding q_def x_def by linarith
    moreover have "x div b = 1"
      using False assms mod_less_divisor [OF assms, of a] unfolding x_def by (intro div_nat_eqI) auto
    moreover have "(x + q * b) div b = q + x div b" using assms by (intro div_mult_self1) simp
    ultimately have "(a + b - 1) div b = a div b + 1" by (simp only: q_def)
    then show ?thesis by (simp add: round_half_even_def Let_def)
  qed
qed

text \<open>
  For an exponent that is not positive, the truncated double is the floor of the number or the
  ceiling: rounding moves a number by less than the distance to the next integer.
\<close>

lemma float_trunc_bounds:
  assumes "0 < den" and "e \<le> 0" and "scaled num den e = (a, b)"
  shows "num div den \<le> float_trunc (round_half_even a b, e)"
    and "float_trunc (round_half_even a b, e) \<le> (num + den - 1) div den"
proof -
  define k where "k = nat (- e)"
  have ab: "a = num * 2 ^ k" "b = den" using assms(2,3) by (auto simp: scaled_def k_def split: if_splits)
  have tr: "float_trunc (round_half_even a b, e) = round_half_even a b div 2 ^ k"
    using assms(2) by (auto simp: float_trunc_def k_def)
  have "num div den * 2 ^ k \<le> num * 2 ^ k div den"
    unfolding less_eq_div_iff_mult_less_eq [OF assms(1)]
    using mult_le_mono1 [OF div_times_less_eq_dividend [of num den], of "2 ^ k"] by (simp only: ac_simps)
  then have "num div den * 2 ^ k \<le> round_half_even a b"
    using round_half_even_bounds(1) [of b a] assms(1) ab by simp
  then show "num div den \<le> float_trunc (round_half_even a b, e)"
    unfolding tr by (simp add: less_eq_div_iff_mult_less_eq)
  let ?c = "(num + den - 1) div den"
  have "num \<le> ?c * den"
  proof -
    have "num + den - 1 < (?c + 1) * den" using assms(1) by (metis Suc_eq_plus1 dividend_less_div_times add.commute mult_Suc)
    then show ?thesis using assms(1) by simp
  qed
  then have "a \<le> ?c * 2 ^ k * den" unfolding ab by (metis mult.assoc mult.commute mult_le_mono1)
  then have "(a + b - 1) div b \<le> ?c * 2 ^ k"
    using assms(1) unfolding ab(2) by (intro less_Suc_eq_le [THEN iffD1]) (simp add: div_less_iff_less_mult add.commute)
  then have "round_half_even a b \<le> ?c * 2 ^ k" using round_half_even_bounds(2) [of b a] assms(1) ab by simp
  then show "float_trunc (round_half_even a b, e) \<le> ?c"
    unfolding tr by (metis div_le_mono nonzero_mult_div_cancel_right power_not_zero zero_neq_numeral)
qed

text \<open>A positive exponent belongs to a number of at least \<open>2 ^ 52\<close>.\<close>

lemma float_exponent_large:
  assumes "0 < num" and "0 < den" and "0 < float_exponent num den"
  shows "2 ^ 52 \<le> fst (float64 num den)"
proof -
  define e0 where "e0 = int (bitLen num) - int (bitLen den) - 53"
  define e where "e = float_exponent num den"
  obtain a b where ab: "scaled num den e0 = (a, b)" by fastforce
  have e: "e = (if 2 ^ 53 * b \<le> a then e0 + 1 else e0)" "0 < e"
    using assms(3) ab by (auto simp: e_def float_exponent_def Let_def e0_def [symmetric] split: if_splits)
  have large: "2 ^ 52 * (den * 2 ^ nat e) \<le> num"
  proof (cases "2 ^ 53 * b \<le> a")
    case True
    then have "0 \<le> e0" "nat e = Suc (nat e0)" using e by auto
    with True ab show ?thesis by (simp add: scaled_def algebra_simps)
  next
    case False
    then have e0: "0 < e0" "e = e0" using e by auto
    then have "bitLen num - 1 = 52 + (bitLen den + nat e0)" by (simp add: e0_def)
    then have "2 ^ (52 + (bitLen den + nat e0)) \<le> num" using bitLen_bounds [OF assms(1)] by simp
    moreover have "den * 2 ^ nat e0 \<le> 2 ^ (bitLen den + nat e0)"
      using bitLen_bounds [OF assms(2)] by (simp add: power_add)
    then have "2 ^ 52 * (den * 2 ^ nat e0) \<le> 2 ^ (52 + (bitLen den + nat e0))"
      unfolding power_add [of 2 52] by (rule mult_le_mono2)
    ultimately show ?thesis unfolding e0(2) by (rule order_trans [rotated])
  qed
  have "2 ^ 52 \<le> num div (den * 2 ^ nat e)"
    using large assms(2) by (simp add: less_eq_div_iff_mult_less_eq)
  also have "\<dots> \<le> round_half_even num (den * 2 ^ nat e)"
    using assms(2) by (intro round_half_even_bounds(1)) simp
  finally show ?thesis using e(2) by (simp add: float64_def e_def [symmetric] scaled_def)
qed

lemma float64_trunc:
  assumes "0 < den" and "\<not> float_above (float64 num den) (2 ^ 52 - 1)"
  shows "num div den \<le> float_trunc (float64 num den)" "float_trunc (float64 num den) \<le> (num + den - 1) div den"
proof -
  have e: "float_exponent num den \<le> 0"
  proof (rule ccontr)
    assume pos: "\<not> float_exponent num den \<le> 0"
    show False
    proof (cases "num = 0")
      case True
      moreover have "bitLen 0 = 0" by (simp add: bitLen.simps)
      ultimately show False using pos assms(1) by (simp add: float_exponent_def scaled_def Let_def)
    next
      case False
      with pos assms(1) have m: "2 ^ 52 \<le> fst (float64 num den)" by (intro float_exponent_large) auto
      obtain m where f: "float64 num den = (m, float_exponent num den)"
        using that [of "fst (float64 num den)"] by (simp add: float64_def Let_def case_prod_beta)
      have "2 ^ 52 \<le> m * 2 ^ nat (float_exponent num den)" using m f mult_le_mono [of "2 ^ 52" m 1 "2 ^ nat (float_exponent num den)"] by simp
      with assms(2) pos show False by (simp add: float_above_def f not_less split: if_splits)
    qed
  qed
  obtain a b where ab: "scaled num den (float_exponent num den) = (a, b)" by fastforce
  have f: "float64 num den = (round_half_even a b, float_exponent num den)" by (simp add: float64_def Let_def ab)
  show "num div den \<le> float_trunc (float64 num den)" "float_trunc (float64 num den) \<le> (num + den - 1) div den"
    unfolding f using float_trunc_bounds [OF assms(1) e ab] .
qed

lemma decimal_fraction_den: "decimal_fraction m e = (num, den) \<Longrightarrow> 0 < den"
  by (auto simp: decimal_fraction_def split: if_splits)

text \<open>Whole numbers written without a fraction or exponent.\<close>

lemma span_decimal: "span_digits (decimal n) = (decimal n, [])"
  by (auto simp: span_digits_def takeWhile_eq_all_conv dropWhile_eq_Nil_conv dest: decimal_digits)

lemma decimal_start: "\<exists>c cs. decimal n = c # cs \<and> is_digit c"
  by (metis decimal_digits decimal_nonempty list.exhaust list.set_intros(1))

lemma decimal_value_decimal: "decimal_value (decimal n) = (False, n, 0)"
proof -
  obtain c cs where c: "decimal n = c # cs" "is_digit c" using decimal_start by blast
  then have "c \<noteq> CHR ''-''" "c \<noteq> CHR ''+''" by (auto simp: is_digit_def byte_def)
  then have "number_sign (decimal n) = (False, decimal n)" by (simp add: number_sign_def c)
  then show ?thesis by (simp add: decimal_value_def span_decimal exponent_value_def)
qed


text \<open>A text of digits without a leading zero is how its number is written.\<close>

lemma digit_chr: "is_digit c \<Longrightarrow> chr (48 + digit_value c) = c"
  by (rule chr_eqI) (simp add: is_digit_def digit_value_def)

lemma chr_zero: "chr 48 = CHR ''0''"
  by (rule chr_eqI) (simp add: byte_def)

lemma zero_digit: "is_digit c \<Longrightarrow> c = CHR ''0'' \<longleftrightarrow> digit_value c = 0"
proof
  assume "is_digit c" "digit_value c = 0"
  then have "c = chr 48" by (metis add_0_right digit_chr)
  then show "c = CHR ''0''" by (simp only: chr_zero)
qed (simp add: digit_value_def byte_def)

lemma decimal_number_of:
  assumes "s \<noteq> []" and "list_all is_digit s" and "hd s \<noteq> CHR ''0''"
  shows "decimal (number_of s) = s"
  using assms
proof (induction s rule: rev_induct)
  case (snoc c t)
  then have c: "is_digit c" "digit_value c < 10" by (auto simp: is_digit_def digit_value_def)
  show ?case
  proof (cases "t = []")
    case True
    with c show ?thesis by (simp add: number_of_def decimal.simps digit_chr)
  next
    case False
    with snoc have ih: "decimal (number_of t) = t" "hd t \<noteq> CHR ''0''" by (auto simp: hd_append)
    have "number_of t \<noteq> 0"
    proof
      assume "number_of t = 0"
      with ih(1) have "t = [chr 48]" by (simp add: decimal.simps)
      with ih(2) show False by (simp add: chr_zero)
    qed
    then have "\<not> number_of (t @ [c]) < 10" by (simp add: number_of_snoc)
    with c ih(1) show ?thesis by (simp add: decimal.simps [of "10 * number_of t + digit_value c"] number_of_snoc digit_chr)
  qed
qed simp

lemma decimal_hd: "0 < n \<Longrightarrow> hd (decimal n) \<noteq> CHR ''0''"
proof (induction n rule: decimal.induct)
  case (1 n)
  show ?case
  proof (cases "n < 10")
    case True
    have "byte (chr (48 + n)) \<noteq> byte (chr 48)" using True 1(2) by simp
    then have "chr (48 + n) \<noteq> CHR ''0''" using chr_zero by metis
    then show ?thesis using True by (simp add: decimal.simps [of n])
  next
    case False
    with 1 show ?thesis by (simp add: decimal.simps [of n])
  qed
qed

lemma json_number_decimal: "0 < n \<Longrightarrow> json_number (decimal n) = Some (decimal n, [])"
proof -
  assume "0 < n"
  then have "hd (decimal n) \<noteq> CHR ''0''" by (rule decimal_hd)
  moreover obtain c cs where c: "decimal n = c # cs" "is_digit c" using decimal_start by blast
  moreover have "c \<noteq> CHR ''-''" using c(2) by (auto simp: is_digit_def byte_def)
  moreover have "span_digits (c # cs) = (c # cs, [])" using span_decimal [of n] c by simp
  ultimately show ?thesis
    by (simp add: json_number_def number_integer_def number_fraction_def number_exponent_def)
qed

text \<open>A whole number below \<open>2 ^ 52\<close> is a double.\<close>

lemma ParseFloat_whole:
  assumes "0 < n" and "n < 2 ^ 52"
  obtains f where "ParseFloat (decimal n) = Some (False, f)" and "float_trunc f = n" and "fst f \<noteq> 0"
    and "\<And>k. n \<le> k \<Longrightarrow> \<not> float_above f k"
proof -
  define e where "e = float_exponent n 1"
  define k where "k = nat (- e)"
  have "bitLen n \<le> 52" using assms(2) by (rule bitLen_le)
  moreover have "bitLen 1 = 1" by (simp add: bitLen.simps)
  ultimately have e: "e \<le> 0" by (auto simp: e_def float_exponent_def Let_def split: prod.splits)
  then have sc: "scaled n 1 e = (n * 2 ^ k, 1)" by (auto simp: scaled_def k_def)
  have "round_half_even (n * 2 ^ k) 1 = n * 2 ^ k" by (simp add: round_half_even_def)
  with sc have f: "float64 n 1 = (n * 2 ^ k, e)"
    by (simp only: float64_def Let_def e_def [symmetric] prod.case)
  have above: "\<not> float_above (n * 2 ^ k, e) m" if "n \<le> m" for m
    using that e by (auto simp: float_above_def k_def not_less)
  have "ParseFloat (decimal n) = Some (False, n * 2 ^ k, e)"
  proof -
    have "n \<le> 2 ^ 1024 - 1" using assms(2) by (rule order_trans [OF less_imp_le]) simp
    then have "\<not> float_above (n * 2 ^ k, e) (2 ^ 1024 - 1)" by (rule above)
    then show ?thesis
      unfolding ParseFloat_def decimal_value_decimal by (simp only: prod.case decimal_fraction_def) (simp add: f del: One_nat_def)
  qed
  moreover have "float_trunc (n * 2 ^ k, e) = n" using e by (auto simp: float_trunc_def k_def)
  ultimately show ?thesis using that above assms(1) by simp
qed

end
