(* ===== verification/Jws.thy ===== *)
theory Jws
  imports GoFloat
begin

text \<open>
  \<open>src/oidc/errors.go\<close> and \<open>src/oidc/jws.go\<close>: the errors of the OIDC verifier, the algorithms it
  knows, the strict reading of a compact JWS and the check of its signature. An error keeps its
  sentinel and drops the detail text. The arithmetic of \<open>crypto/rsa\<close>, \<open>crypto/ecdsa\<close> and the SHA-2
  hashes is a parameter, a record \<open>signatures\<close> of functions; that the verifier asks them the right
  question is what is modelled.
\<close>

section \<open>Errors\<close>

text \<open>\<open>ErrExpired\<close> is called \<open>ErrTokenExpired\<close> here, beside the domain error of that name.\<close>

datatype oidc_error =
    ErrMalformed
  | ErrAlgorithm
  | ErrUnknownKey
  | ErrSignature
  | ErrIssuer
  | ErrAudience
  | ErrTokenExpired
  | ErrNotYetValid
  | ErrMissingClaim
  | ErrKeySetUnavailable
  | ErrInvalidConfig

type_synonym 'a oidc = "oidc_error + 'a"

text \<open>\<open>x, err := r; if err != nil { return err }; k(x)\<close> where no state is touched.\<close>

definition ok_then :: "'e + 'a \<Rightarrow> ('a \<Rightarrow> 'e + 'b) \<Rightarrow> 'e + 'b" where
  "ok_then r k = (case r of Inl e \<Rightarrow> Inl e | Inr x \<Rightarrow> k x)"

lemma ok_then_simps [simp]: "ok_then (Inl e) k = Inl e" "ok_then (Inr x) k = k x"
  by (simp_all add: ok_then_def)

lemma ok_then_Inr: "ok_then r k = Inr y \<longleftrightarrow> (\<exists>x. r = Inr x \<and> k x = Inr y)"
  by (cases r) auto

lemma ok_then_InrE:
  assumes "ok_then r k = Inr y"
  obtains x where "r = Inr x" and "k x = Inr y"
  using assms by (auto simp: ok_then_Inr)

lemma ok_then_cong [fundef_cong]: "r = r' \<Longrightarrow> (\<And>x. r' = Inr x \<Longrightarrow> k x = k' x) \<Longrightarrow> ok_then r k = ok_then r' k'"
  by (cases r') auto

section \<open>Algorithms\<close>

definition MaxTokenBytes :: nat where "MaxTokenBytes = 16384"
definition maxJSONDepth :: nat where "maxJSONDepth = 32"

datatype hash = SHA256 | SHA384 | SHA512

record algorithm =
  alg_kty :: string
  alg_hash :: hash
  alg_pss :: bool
  alg_crv :: string
  alg_size :: nat

definition supportedAlgorithms :: "(string, algorithm) gomap" where
  "supportedAlgorithms =
     [(''RS256'', \<lparr>alg_kty = ''RSA'', alg_hash = SHA256, alg_pss = False, alg_crv = '''', alg_size = 0\<rparr>),
      (''RS384'', \<lparr>alg_kty = ''RSA'', alg_hash = SHA384, alg_pss = False, alg_crv = '''', alg_size = 0\<rparr>),
      (''RS512'', \<lparr>alg_kty = ''RSA'', alg_hash = SHA512, alg_pss = False, alg_crv = '''', alg_size = 0\<rparr>),
      (''PS256'', \<lparr>alg_kty = ''RSA'', alg_hash = SHA256, alg_pss = True, alg_crv = '''', alg_size = 0\<rparr>),
      (''PS384'', \<lparr>alg_kty = ''RSA'', alg_hash = SHA384, alg_pss = True, alg_crv = '''', alg_size = 0\<rparr>),
      (''PS512'', \<lparr>alg_kty = ''RSA'', alg_hash = SHA512, alg_pss = True, alg_crv = '''', alg_size = 0\<rparr>),
      (''ES256'', \<lparr>alg_kty = ''EC'', alg_hash = SHA256, alg_pss = False, alg_crv = ''P-256'', alg_size = 32\<rparr>),
      (''ES384'', \<lparr>alg_kty = ''EC'', alg_hash = SHA384, alg_pss = False, alg_crv = ''P-384'', alg_size = 48\<rparr>),
      (''ES512'', \<lparr>alg_kty = ''EC'', alg_hash = SHA512, alg_pss = False, alg_crv = ''P-521'', alg_size = 66\<rparr>)]"

record Header =
  Algorithm :: string
  KeyID :: string
  Type :: string

record compactJWS =
  header :: Header
  signingInput :: string
  payload :: string
  signature :: string

section \<open>Strict JSON objects\<close>

text \<open>
  \<open>checkJSONObject\<close> walks the token stream of a \<open>json.Decoder\<close>; the walk over the decoded value
  visits the same names and the same brackets. \<open>seen\<close> is the set of names met in the object so far.
\<close>

fun walkObject :: "nat \<Rightarrow> string list \<Rightarrow> (string \<times> json) list \<Rightarrow> bool"
  and walkValue :: "nat \<Rightarrow> json \<Rightarrow> bool"
  and walkArray :: "nat \<Rightarrow> json list \<Rightarrow> bool"
where
  "walkObject depth seen [] = True"
| "walkObject depth seen ((key, v) # ms) =
     (if key \<in> set seen then False
      else walkValue depth v \<and> walkObject depth (key # seen) ms)"
| "walkValue depth (JObject ms) = (if maxJSONDepth \<le> depth then False else walkObject (depth + 1) [] ms)"
| "walkValue depth (JArray vs) = (if maxJSONDepth \<le> depth then False else walkArray (depth + 1) vs)"
| "walkValue depth v = True"
| "walkArray depth [] = True"
| "walkArray depth (v # vs) = (walkValue depth v \<and> walkArray depth vs)"

definition checkJSONObject :: "string \<Rightarrow> bool" where
  "checkJSONObject b =
     (if \<not> utf8_valid b then False
      else case json_parse b of
        Some (JObject ms) \<Rightarrow> walkObject 1 [] ms
      | _ \<Rightarrow> False)"

text \<open>What the walk is for: every object has distinct names, and brackets nest at most 32 deep.\<close>

fun distinct_names :: "json \<Rightarrow> bool" where
  "distinct_names (JObject ms) \<longleftrightarrow> distinct (map fst ms) \<and> list_all (\<lambda>m. distinct_names (snd m)) ms"
| "distinct_names (JArray vs) \<longleftrightarrow> list_all distinct_names vs"
| "distinct_names v \<longleftrightarrow> True"

lemma foldr_max_le: "foldr max xs 0 \<le> n \<longleftrightarrow> (\<forall>x \<in> set xs. x \<le> n)" for n :: nat
  by (induction xs) auto

lemma walk_spec:
  "1 \<le> depth \<Longrightarrow> depth \<le> maxJSONDepth \<Longrightarrow> walkObject depth seen ms \<longleftrightarrow>
     distinct (map fst ms) \<and> set (map fst ms) \<inter> set seen = {} \<and>
     (\<forall>m \<in> set ms. distinct_names (snd m) \<and> json_depth (snd m) + depth \<le> maxJSONDepth)"
  "1 \<le> depth \<Longrightarrow> depth \<le> maxJSONDepth \<Longrightarrow>
     walkValue depth v \<longleftrightarrow> distinct_names v \<and> json_depth v + depth \<le> maxJSONDepth"
  "1 \<le> depth \<Longrightarrow> depth \<le> maxJSONDepth \<Longrightarrow> walkArray depth vs \<longleftrightarrow>
     (\<forall>v \<in> set vs. distinct_names v \<and> json_depth v + depth \<le> maxJSONDepth)"
proof (induction depth seen ms and depth v and depth vs rule: walkObject_walkValue_walkArray.induct)
  case (3 depth ms)
  have "foldr max (map (\<lambda>m. json_depth (snd m)) ms) 0 + Suc depth \<le> maxJSONDepth \<longleftrightarrow>
      (\<forall>m \<in> set ms. json_depth (snd m) + Suc depth \<le> maxJSONDepth)" if "Suc depth \<le> maxJSONDepth"
    using foldr_max_le [of "map (\<lambda>m. json_depth (snd m)) ms" "maxJSONDepth - Suc depth"] that by fastforce
  with 3 show ?case by (auto simp: list_all_iff not_le Suc_le_eq)
next
  case (4 depth vs)
  have "foldr max (map json_depth vs) 0 + Suc depth \<le> maxJSONDepth \<longleftrightarrow>
      (\<forall>v \<in> set vs. json_depth v + Suc depth \<le> maxJSONDepth)" if "Suc depth \<le> maxJSONDepth"
    using foldr_max_le [of "map json_depth vs" "maxJSONDepth - Suc depth"] that by fastforce
  with 4 show ?case by (auto simp: list_all_iff not_le Suc_le_eq)
qed auto

lemma checkJSONObject_iff:
  "checkJSONObject b \<longleftrightarrow> utf8_valid b \<and>
     (\<exists>ms. json_parse b = Some (JObject ms) \<and> distinct_names (JObject ms) \<and> json_depth (JObject ms) \<le> maxJSONDepth)"
proof -
  have "walkObject 1 [] ms \<longleftrightarrow> distinct_names (JObject ms) \<and> json_depth (JObject ms) \<le> maxJSONDepth" for ms
    using walk_spec(1) [of 1 "[]" ms] foldr_max_le [of "map (\<lambda>m. json_depth (snd m)) ms" "maxJSONDepth - 1"]
    by (auto simp: list_all_iff maxJSONDepth_def)
  then show ?thesis by (auto simp: checkJSONObject_def split: option.splits json.splits)
qed

lemma checkJSONObject_unmarshal:
  assumes "checkJSONObject b"
  obtains ms where "json_unmarshal b = Some (JObject ms)" and "distinct (map fst ms)"
  using assms by (auto simp: checkJSONObject_iff json_unmarshal_def maxJSONDepth_def maxNestingDepth_def)

section \<open>Segments\<close>

definition isBase64URLChar :: "char \<Rightarrow> bool" where
  "isBase64URLChar c \<longleftrightarrow>
     byte (CHR ''A'') \<le> byte c \<and> byte c \<le> byte (CHR ''Z'') \<or>
     byte (CHR ''a'') \<le> byte c \<and> byte c \<le> byte (CHR ''z'') \<or>
     byte (CHR ''0'') \<le> byte c \<and> byte c \<le> byte (CHR ''9'') \<or> c = CHR ''-'' \<or> c = CHR ''_''"

definition decodeSegment :: "string \<Rightarrow> string option" where
  "decodeSegment s =
     (if s = [] then None
      else if \<not> list_all isBase64URLChar s then None
      else base64_decode True True s)"

lemma isBase64URLChar_sym64: "isBase64URLChar c \<longleftrightarrow> sym64_ok True c"
proof -
  have b: "byte (CHR ''A'') = 65" "byte (CHR ''Z'') = 90" "byte (CHR ''a'') = 97" "byte (CHR ''z'') = 122"
    "byte (CHR ''0'') = 48" "byte (CHR ''9'') = 57" "byte (CHR ''-'') = 45" "byte (CHR ''_'') = 95"
    by (simp_all add: byte_def)
  have "c = CHR ''-'' \<longleftrightarrow> byte c = 45" "c = CHR ''_'' \<longleftrightarrow> byte c = 95"
    using b by (metis chr_byte)+
  then show ?thesis by (auto simp: isBase64URLChar_def sym64_ok_def val64_def Let_def b)
qed

text \<open>A segment decodes exactly when it is the encoding of what it decodes to.\<close>

lemma decodeSegment_iff: "decodeSegment s = Some b \<longleftrightarrow> b \<noteq> [] \<and> s = base64_encode True b"
proof
  assume "decodeSegment s = Some b"
  then have s: "s \<noteq> []" "list_all (sym64_ok True) s" "base64_decode True True s = Some b"
    by (auto simp: decodeSegment_def isBase64URLChar_sym64 list_all_iff split: if_splits)
  from s(3,2) have "s = base64_encode True b" by (rule base64_strict_canonical)
  with s(1) show "b \<noteq> [] \<and> s = base64_encode True b" by (auto simp: base64_encode_def)
next
  assume b: "b \<noteq> [] \<and> s = base64_encode True b"
  then have "s \<noteq> []" using length_base64_encode [of True b] by (cases b) auto
  moreover have "list_all isBase64URLChar s"
    using b base64_encode_alphabet by (auto simp: list_all_iff isBase64URLChar_sym64)
  ultimately show "decodeSegment s = Some b" using b by (simp add: decodeSegment_def)
qed

lemma segment_no_dot: "CHR ''.'' \<notin> set (base64_encode True b)"
proof
  assume "CHR ''.'' \<in> set (base64_encode True b)"
  then have "sym64_ok True (CHR ''.'')" by (rule base64_encode_alphabet)
  moreover have "byte (CHR ''.'') = 46" by (simp add: byte_def)
  ultimately show False by (simp add: sym64_ok_def val64_def)
qed

section \<open>The header\<close>

text \<open>A decoded Go map: the last of the members with a name.\<close>

definition member :: "(string \<times> json) list \<Rightarrow> string \<Rightarrow> json option" where
  "member ms name = map_of (rev ms) name"

definition headerString :: "(string \<times> json) list \<Rightarrow> string \<Rightarrow> bool \<Rightarrow> string oidc" where
  "headerString raw name required =
     (case member raw name of
        None \<Rightarrow> if required then Inl ErrMalformed else Inr []
      | Some v \<Rightarrow>
          (case take_string v [] of
             None \<Rightarrow> Inl ErrMalformed
           | Some s \<Rightarrow> if required \<and> s = [] then Inl ErrMalformed else Inr s))"

definition parseHeader :: "string \<Rightarrow> Header oidc" where
  "parseHeader b =
     (if \<not> checkJSONObject b then Inl ErrMalformed
      else case json_unmarshal b of
        Some (JObject raw) \<Rightarrow>
          if member raw ''crit'' \<noteq> None then Inl ErrMalformed
          else ok_then (headerString raw ''alg'' True) (\<lambda>alg.
               ok_then (headerString raw ''kid'' True) (\<lambda>kid.
               ok_then (headerString raw ''typ'' False) (\<lambda>typ.
               Inr \<lparr>Algorithm = alg, KeyID = kid, Type = typ\<rparr>)))
      | _ \<Rightarrow> Inl ErrMalformed)"

definition parseCompact :: "string \<Rightarrow> compactJWS oidc" where
  "parseCompact raw =
     (if MaxTokenBytes < length raw then Inl ErrMalformed
      else case split_on (CHR ''.'') raw of
        [p0, p1, p2] \<Rightarrow>
          (case (decodeSegment p0, decodeSegment p1, decodeSegment p2) of
             (Some s0, Some s1, Some s2) \<Rightarrow>
               ok_then (parseHeader s0) (\<lambda>h.
                 if \<not> checkJSONObject s1 then Inl ErrMalformed
                 else Inr \<lparr>header = h, signingInput = p0 @ ''.'' @ p1, payload = s1, signature = s2\<rparr>)
           | _ \<Rightarrow> Inl ErrMalformed)
      | _ \<Rightarrow> Inl ErrMalformed)"

text \<open>The compact serialization of three byte strings.\<close>

definition compact :: "string \<Rightarrow> string \<Rightarrow> string \<Rightarrow> string" where
  "compact h p s = base64_encode True h @ ''.'' @ base64_encode True p @ ''.'' @ base64_encode True s"

lemma split_compact:
  "split_on (CHR ''.'') (compact h p s) = [base64_encode True h, base64_encode True p, base64_encode True s]"
  by (simp add: compact_def split_on_append split_on_notin segment_no_dot)

lemma parseCompact_compact:
  assumes "length (compact h p s) \<le> MaxTokenBytes" and "h \<noteq> []" and "s \<noteq> []"
  shows "parseCompact (compact h p s) =
    (if p = [] then Inl ErrMalformed
     else ok_then (parseHeader h) (\<lambda>hd. if \<not> checkJSONObject p then Inl ErrMalformed
       else Inr \<lparr>header = hd, signingInput = base64_encode True h @ ''.'' @ base64_encode True p,
                 payload = p, signature = s\<rparr>))"
proof -
  have seg: "decodeSegment (base64_encode True b) = (if b = [] then None else Some b)" for b
    using decodeSegment_iff [of "base64_encode True b" b] by (auto simp: decodeSegment_def base64_encode_def)
  show ?thesis using assms by (simp add: parseCompact_def split_compact seg not_less)
qed

lemma parseCompact_inverse:
  assumes "parseCompact raw = Inr j"
  obtains h where "raw = compact h (payload j) (signature j)" and "parseHeader h = Inr (header j)"
    and "signingInput j = base64_encode True h @ ''.'' @ base64_encode True (payload j)"
    and "checkJSONObject (payload j)" and "length raw \<le> MaxTokenBytes" and "signature j \<noteq> []"
proof -
  from assms obtain p0 p1 p2 s0 hd where *: "length raw \<le> MaxTokenBytes" "split_on (CHR ''.'') raw = [p0, p1, p2]"
    "decodeSegment p0 = Some s0" "decodeSegment p1 = Some (payload j)" "decodeSegment p2 = Some (signature j)"
    "parseHeader s0 = Inr hd" "checkJSONObject (payload j)" "header j = hd" "signingInput j = p0 @ ''.'' @ p1"
    by (auto simp: parseCompact_def ok_then_Inr split: if_splits list.splits option.splits)
  have "raw = join ''.'' (split_on (CHR ''.'') raw)" by simp
  also have "\<dots> = p0 @ ''.'' @ p1 @ ''.'' @ p2" unfolding *(2) by simp
  finally have "raw = compact s0 (payload j) (signature j)"
    using *(3-5) by (simp add: decodeSegment_iff compact_def)
  then show ?thesis using * that [of s0] by (simp add: decodeSegment_iff)
qed

section \<open>Signatures\<close>

text \<open>\<open>big.Int.SetBytes\<close>: an unsigned number in big-endian order.\<close>

definition be_nat :: "string \<Rightarrow> nat" where
  "be_nat b = foldl (\<lambda>n c. 256 * n + byte c) 0 b"

text \<open>A value of the interface type \<open>crypto.PublicKey\<close>: a modulus and an exponent, a curve and a point,
  or something else.\<close>

datatype PublicKey = RSAKey nat int | ECKey string nat nat | OtherKey

record signatures =
  digest_of :: "hash \<Rightarrow> string \<Rightarrow> string"
  verify_pkcs1 :: "nat \<Rightarrow> int \<Rightarrow> hash \<Rightarrow> string \<Rightarrow> string \<Rightarrow> bool"
  verify_pss :: "nat \<Rightarrow> int \<Rightarrow> hash \<Rightarrow> string \<Rightarrow> string \<Rightarrow> bool"
  verify_ecdsa :: "string \<Rightarrow> nat \<Rightarrow> nat \<Rightarrow> string \<Rightarrow> nat \<Rightarrow> nat \<Rightarrow> bool"

definition verifySignature :: "signatures \<Rightarrow> algorithm \<Rightarrow> PublicKey \<Rightarrow> string \<Rightarrow> string \<Rightarrow> unit oidc" where
  "verifySignature sg alg key input sig =
     (let digest = digest_of sg (alg_hash alg) input in
      case key of
        RSAKey n e \<Rightarrow>
          if alg_pss alg then
            (if verify_pss sg n e (alg_hash alg) digest sig then Inr () else Inl ErrSignature)
          else if verify_pkcs1 sg n e (alg_hash alg) digest sig then Inr () else Inl ErrSignature
      | ECKey crv x y \<Rightarrow>
          if length sig \<noteq> 2 * alg_size alg then Inl ErrSignature
          else
            (let r = be_nat (take (alg_size alg) sig); s = be_nat (drop (alg_size alg) sig) in
             if \<not> verify_ecdsa sg crv x y digest r s then Inl ErrSignature else Inr ())
      | OtherKey \<Rightarrow> Inl ErrAlgorithm)"

text \<open>\<open>signed sg alg key input sig\<close>: what an accepted signature is.\<close>

definition signed :: "signatures \<Rightarrow> algorithm \<Rightarrow> PublicKey \<Rightarrow> string \<Rightarrow> string \<Rightarrow> bool" where
  "signed sg alg key input sig \<longleftrightarrow>
     (let d = digest_of sg (alg_hash alg) input in
      case key of
        RSAKey n e \<Rightarrow> (if alg_pss alg then verify_pss else verify_pkcs1) sg n e (alg_hash alg) d sig
      | ECKey crv x y \<Rightarrow> (\<exists>r s. length r = alg_size alg \<and> length s = alg_size alg \<and> sig = r @ s \<and>
          verify_ecdsa sg crv x y d (be_nat r) (be_nat s))
      | OtherKey \<Rightarrow> False)"

lemma verifySignature_iff: "verifySignature sg alg key input sig = Inr () \<longleftrightarrow> signed sg alg key input sig"
proof (cases key)
  case (ECKey crv x y)
  have "length sig = 2 * alg_size alg \<longleftrightarrow>
      (\<exists>r s. length r = alg_size alg \<and> length s = alg_size alg \<and> sig = r @ s)"
  proof
    assume "length sig = 2 * alg_size alg"
    then show "\<exists>r s. length r = alg_size alg \<and> length s = alg_size alg \<and> sig = r @ s"
      by (intro exI [of _ "take (alg_size alg) sig"] exI [of _ "drop (alg_size alg) sig"]) simp
  qed auto
  with ECKey show ?thesis by (auto simp: verifySignature_def signed_def Let_def)
qed (auto simp: verifySignature_def signed_def Let_def)

lemma verifySignature_error:
  "verifySignature sg alg key input sig = Inl e \<Longrightarrow> e = ErrSignature \<or> e = ErrAlgorithm \<and> key = OtherKey"
  by (auto simp: verifySignature_def Let_def split: PublicKey.splits if_splits)

end
