(* ===== verification/GoNet.thy ===== *)
theory GoNet
  imports GoStrings
begin

text \<open>
  The surroundings the OIDC verifier and the OAuth client run in, as a record of functions: what
  \<open>url.Parse\<close> and \<open>URL.String\<close> do, what the HTTP client answers, and Unicode's case tables outside
  ASCII. Nothing is assumed of them unless a theorem says so.
\<close>

text \<open>A parsed URL: the fields the code looks at.\<close>

record URL =
  Scheme :: string
  Opaque :: string
  HasUser :: bool
  Host :: string
  Hostname :: string
  RawQuery :: string
  ForceQuery :: bool
  Fragment :: string

record HttpRequest =
  Method :: string
  Target :: string
  RequestBody :: string
  RequestHeaders :: "(string \<times> string) list"

text \<open>An answer: its status, the bytes of its body, whether reading the body fails after them, and its
  \<open>Cache-Control\<close> header.\<close>

record HttpResponse =
  StatusCode :: int
  Body :: string
  BodyFails :: bool
  CacheControl :: string

text \<open>
  \<open>http_do p n r\<close> is what \<open>client.Do\<close> gives for the request \<open>r\<close> sent at point \<open>n\<close> of the run, none if
  it fails; building the request is part of it. The client is the one \<open>noRedirectClient\<close> makes: a
  redirect it would have to follow is a failure. \<open>url_text u query\<close> is \<open>URL.String\<close> of \<open>u\<close> with its
  query replaced. \<open>lenient_time\<close> is what \<open>time.Time\<close> still reads from a JSON string that the strict
  parser refuses.
\<close>

record platform =
  url_parse :: "string \<Rightarrow> URL option"
  url_text :: "URL \<Rightarrow> string \<Rightarrow> string"
  http_do :: "nat \<Rightarrow> HttpRequest \<Rightarrow> HttpResponse option"
  lower_of :: "nat \<Rightarrow> nat"
  fold_of :: "nat \<Rightarrow> nat"
  lenient_time :: "string \<Rightarrow> time option"

end
