(* ===== verification/Jwks.thy ===== *)
theory Jwks
  imports Jws GoNet
begin

text \<open>
  The first half of \<open>src/oidc/jwks.go\<close>: reading a JWK Set into usable keys, the URL policy, fetching
  the discovery document and the key set, and the time a set stays fresh. What lies outside the
  repository is the record \<open>platform\<close>. The elliptic curves are the NIST curves, with their equations.
\<close>

section \<open>Keys\<close>

definition MaxDocumentBytes :: nat where "MaxDocumentBytes = 1048576"
definition MinRefreshInterval :: duration where "MinRefreshInterval = 30 * second"
definition MinKeySetTTL :: duration where "MinKeySetTTL = 5 * minute"
definition MaxKeySetTTL :: duration where "MaxKeySetTTL = 24 * (60 * minute)"
definition DefaultKeySetTTL :: duration where "DefaultKeySetTTL = 60 * minute"
definition DefaultMaxStale :: duration where "DefaultMaxStale = 24 * (60 * minute)"
definition minRSABits :: nat where "minRSABits = 2048"
definition maxRSABits :: nat where "maxRSABits = 8192"

record jwk =
  jwk_kid :: string
  jwk_kty :: string
  jwk_crv :: string
  jwk_alg :: string
  jwk_key :: PublicKey

definition usableWith :: "jwk \<Rightarrow> string \<Rightarrow> algorithm \<Rightarrow> bool" where
  "usableWith k name a =
     (if jwk_alg k \<noteq> [] \<and> jwk_alg k \<noteq> name then False
      else jwk_kty k = alg_kty a \<and> jwk_crv k = alg_crv a)"

record rawJWK =
  Kty :: string
  Kid :: string
  Use :: string
  Alg :: string
  KeyOps :: "string list option"
  RawN :: string
  RawE :: string
  Crv :: string
  RawX :: string
  RawY :: string

text \<open>
  \<open>json.Unmarshal\<close> into a \<open>rawJWK\<close>. A slice of strings is nil (\<open>None\<close>) when absent or null; a null
  in the array leaves the string that is there, which is empty unless the slice was filled before.
\<close>

fun take_strings_from :: "json list \<Rightarrow> string list \<Rightarrow> string list option" where
  "take_strings_from [] old = Some []"
| "take_strings_from (v # vs) old =
     (case (take_string v (case old of [] \<Rightarrow> [] | x # _ \<Rightarrow> x), take_strings_from vs (tl old)) of
        (Some s, Some ss) \<Rightarrow> Some (s # ss)
      | _ \<Rightarrow> None)"

definition take_strings :: "json \<Rightarrow> string list option \<Rightarrow> string list option option" where
  "take_strings v x =
     (case v of
        JArray vs \<Rightarrow> map_option Some (take_strings_from vs (case x of None \<Rightarrow> [] | Some ss \<Rightarrow> ss))
      | JNull \<Rightarrow> Some None
      | _ \<Rightarrow> None)"

definition unmarshal_rawJWK :: "platform \<Rightarrow> json \<Rightarrow> rawJWK option" where
  "unmarshal_rawJWK p v =
     (let str = (\<lambda>ms name. fill take_string (fold_of p) name [] ms) in
      case v of
        JObject ms \<Rightarrow>
          (case (str ms ''kty'', str ms ''kid'', str ms ''use'', str ms ''alg'',
                 fill take_strings (fold_of p) ''key_ops'' None ms, str ms ''n'', str ms ''e'',
                 str ms ''crv'', str ms ''x'', str ms ''y'') of
             (Some kty, Some kid, Some use, Some alg, Some ops, Some n, Some e, Some crv, Some x, Some y) \<Rightarrow>
               Some \<lparr>Kty = kty, Kid = kid, Use = use, Alg = alg, KeyOps = ops, RawN = n, RawE = e,
                     Crv = crv, RawX = x, RawY = y\<rparr>
           | _ \<Rightarrow> None)
      | JNull \<Rightarrow>
          Some \<lparr>Kty = [], Kid = [], Use = [], Alg = [], KeyOps = None, RawN = [], RawE = [],
                Crv = [], RawX = [], RawY = []\<rparr>
      | _ \<Rightarrow> None)"

definition rsaKey :: "rawJWK \<Rightarrow> PublicKey option" where
  "rsaKey rk =
     (case decodeSegment (RawN rk) of
        None \<Rightarrow> None
      | Some n \<Rightarrow>
          (case decodeSegment (RawE rk) of
             None \<Rightarrow> None
           | Some e \<Rightarrow>
               if 4 < length e then None
               else
                 (let md = be_nat n; ex = int (be_nat e) in
                  if bitLen md < minRSABits \<or> maxRSABits < bitLen md then None
                  else if ex < 3 \<or> 2 ^ 31 - 1 < ex \<or> ex mod 2 = 0 then None
                  else Some (RSAKey md ex))))"

record curve =
  BitSize :: nat
  FieldPrime :: int
  CurveB :: int

definition P256 :: curve where
  "P256 = \<lparr>BitSize = 256, FieldPrime = 2 ^ 256 - 2 ^ 224 + 2 ^ 192 + 2 ^ 96 - 1,
     CurveB = 0x5ac635d8aa3a93e7b3ebbd55769886bc651d06b0cc53b0f63bce3c3e27d2604b\<rparr>"

definition P384 :: curve where
  "P384 = \<lparr>BitSize = 384, FieldPrime = 2 ^ 384 - 2 ^ 128 - 2 ^ 96 + 2 ^ 32 - 1,
     CurveB = 0xb3312fa7e23ee7e4988e056be3f82d19181d9c6efe8141120314088f5013875ac656398d8a2ed19d2a85c8edd3ec2aef\<rparr>"

definition P521 :: curve where
  "P521 = \<lparr>BitSize = 521, FieldPrime = 2 ^ 521 - 1,
     CurveB = 0x0051953eb9618e1c9a1f929a21a0b68540eea2da725b99b315f3b8b489918ef109e156193951ec7e937b1652c0bd3bb1bf073573df883d2c34f1ef451fd46b503f00\<rparr>"

text \<open>\<open>ecdsa.ParseUncompressedPublicKey\<close> on the bytes 4, x, y of the curve's size.\<close>

definition on_curve :: "curve \<Rightarrow> nat \<Rightarrow> nat \<Rightarrow> bool" where
  "on_curve cv x y \<longleftrightarrow>
     int x < FieldPrime cv \<and> int y < FieldPrime cv \<and>
     (int y * int y) mod FieldPrime cv =
       (int x * int x * int x - 3 * int x + CurveB cv) mod FieldPrime cv"

definition curve_named :: "string \<Rightarrow> curve option" where
  "curve_named name =
     (if name = ''P-256'' then Some P256
      else if name = ''P-384'' then Some P384
      else if name = ''P-521'' then Some P521
      else None)"

definition ecKey :: "rawJWK \<Rightarrow> PublicKey option" where
  "ecKey rk =
     (case curve_named (Crv rk) of
        None \<Rightarrow> None
      | Some cv \<Rightarrow>
          (let sz = (BitSize cv + 7) div 8 in
           case (decodeSegment (RawX rk), decodeSegment (RawY rk)) of
             (Some x, Some y) \<Rightarrow>
               if length x \<noteq> sz \<or> length y \<noteq> sz then None
               else if \<not> on_curve cv (be_nat x) (be_nat y) then None
               else Some (ECKey (Crv rk) (be_nat x) (be_nat y))
           | _ \<Rightarrow> None))"

definition toKey :: "rawJWK \<Rightarrow> jwk option" where
  "toKey rk =
     (if Kid rk = [] \<or> (Use rk \<noteq> [] \<and> Use rk \<noteq> ''sig'') then None
      else if (case KeyOps rk of None \<Rightarrow> False | Some ops \<Rightarrow> ''verify'' \<notin> set ops) then None
      else
        (let crv = (if Kty rk = ''EC'' then Crv rk else []) in
         case (if Kty rk = ''RSA'' then rsaKey rk else if Kty rk = ''EC'' then ecKey rk else None) of
           None \<Rightarrow> None
         | Some key \<Rightarrow>
             if Alg rk \<noteq> [] \<and>
                (case gomap_get supportedAlgorithms (Alg rk) of
                   None \<Rightarrow> True
                 | Some a \<Rightarrow> alg_kty a \<noteq> Kty rk \<or> alg_crv a \<noteq> crv)
             then None
             else Some \<lparr>jwk_kid = Kid rk, jwk_kty = Kty rk, jwk_crv = crv, jwk_alg = Alg rk, jwk_key = key\<rparr>))"

section \<open>Key sets\<close>

type_synonym keySet = "(string, jwk list) gomap"

definition keys_with :: "keySet \<Rightarrow> string \<Rightarrow> jwk list" where
  "keys_with keys kid = (case gomap_get keys kid of None \<Rightarrow> [] | Some ks \<Rightarrow> ks)"

definition take_raw_list :: "json \<Rightarrow> json list \<Rightarrow> json list option" where
  "take_raw_list v x = (case v of JArray vs \<Rightarrow> Some vs | JNull \<Rightarrow> Some [] | _ \<Rightarrow> None)"

fun collect_keys :: "platform \<Rightarrow> json list \<Rightarrow> keySet \<Rightarrow> keySet" where
  "collect_keys p [] keys = keys"
| "collect_keys p (raw # raws) keys =
     (case unmarshal_rawJWK p raw of
        None \<Rightarrow> collect_keys p raws keys
      | Some rk \<Rightarrow>
          (case toKey rk of
             None \<Rightarrow> collect_keys p raws keys
           | Some k \<Rightarrow> collect_keys p raws (gomap_set (jwk_kid k) (keys_with keys (jwk_kid k) @ [k]) keys)))"

definition parseJWKS :: "platform \<Rightarrow> string \<Rightarrow> keySet option" where
  "parseJWKS p b =
     (if \<not> checkJSONObject b then None
      else case json_unmarshal b of
        Some (JObject ms) \<Rightarrow>
          (case fill take_raw_list (fold_of p) ''keys'' [] ms of
             None \<Rightarrow> None
           | Some raws \<Rightarrow>
               (let keys = collect_keys p raws [] in if keys = [] then None else Some keys))
      | _ \<Rightarrow> None)"

text \<open>
  What a key of a parsed set satisfies: it has the kid it is filed under, its type and curve fit its
  value, an RSA modulus has 2048 to 8192 bits and an odd exponent in range, a point lies on its
  curve, and an algorithm it pins is a supported one of its type and curve.
\<close>

definition key_ok :: "string \<Rightarrow> jwk \<Rightarrow> bool" where
  "key_ok kid k \<longleftrightarrow>
     kid \<noteq> [] \<and> jwk_kid k = kid \<and>
     (case jwk_key k of
        RSAKey n e \<Rightarrow> jwk_kty k = ''RSA'' \<and> jwk_crv k = [] \<and> minRSABits \<le> bitLen n \<and> bitLen n \<le> maxRSABits \<and>
          3 \<le> e \<and> e < 2 ^ 31 \<and> odd e
      | ECKey crv x y \<Rightarrow> jwk_kty k = ''EC'' \<and> jwk_crv k = crv \<and> (\<exists>cv. curve_named crv = Some cv \<and> on_curve cv x y)
      | OtherKey \<Rightarrow> False) \<and>
     (jwk_alg k = [] \<or>
      (\<exists>a. gomap_get supportedAlgorithms (jwk_alg k) = Some a \<and> alg_kty a = jwk_kty k \<and> alg_crv a = jwk_crv k))"

definition key_set_ok :: "keySet \<Rightarrow> bool" where
  "key_set_ok keys \<longleftrightarrow> keys \<noteq> [] \<and> (\<forall>kid ks. gomap_get keys kid = Some ks \<longrightarrow> ks \<noteq> [] \<and> (\<forall>k \<in> set ks. key_ok kid k))"

lemma rsaKey_ok:
  assumes "rsaKey rk = Some key"
  obtains n e where "key = RSAKey n e" "minRSABits \<le> bitLen n" "bitLen n \<le> maxRSABits" "3 \<le> e" "e < 2 ^ 31" "odd e"
  using assms
  by (auto simp: rsaKey_def Let_def not_less even_iff_mod_2_eq_zero split: option.splits if_splits)

lemma ecKey_ok:
  assumes "ecKey rk = Some key"
  obtains x y cv where "key = ECKey (Crv rk) x y" "curve_named (Crv rk) = Some cv" "on_curve cv x y"
  using assms by (auto simp: ecKey_def Let_def split: option.splits if_splits)

lemma guarded_Some:
  "(if a then None else if b then None else case s of None \<Rightarrow> None | Some x \<Rightarrow> if c then None else Some (f x)) = Some k \<Longrightarrow>
   \<exists>x. \<not> a \<and> \<not> b \<and> s = Some x \<and> \<not> c \<and> k = f x"
  by (auto split: if_splits option.splits)

lemma toKey_ok:
  assumes "toKey rk = Some k"
  shows "key_ok (jwk_kid k) k"
proof -
  let ?crv = "if Kty rk = ''EC'' then Crv rk else []"
  obtain key where g: "\<not> (Kid rk = [] \<or> (Use rk \<noteq> [] \<and> Use rk \<noteq> ''sig''))"
    and k2: "(if Kty rk = ''RSA'' then rsaKey rk else if Kty rk = ''EC'' then ecKey rk else None) = Some key"
    and c: "\<not> (Alg rk \<noteq> [] \<and> (case gomap_get supportedAlgorithms (Alg rk) of None \<Rightarrow> True
        | Some a \<Rightarrow> alg_kty a \<noteq> Kty rk \<or> alg_crv a \<noteq> ?crv))"
    and k4: "k = \<lparr>jwk_kid = Kid rk, jwk_kty = Kty rk, jwk_crv = ?crv, jwk_alg = Alg rk, jwk_key = key\<rparr>"
    using guarded_Some [OF assms [unfolded toKey_def Let_def]] by blast
  have alg: "Alg rk = [] \<or> (\<exists>a. gomap_get supportedAlgorithms (Alg rk) = Some a \<and> alg_kty a = Kty rk \<and> alg_crv a = ?crv)"
    using c by (cases "gomap_get supportedAlgorithms (Alg rk)") auto
  from k2 consider "Kty rk = ''RSA''" "rsaKey rk = Some key" | "Kty rk = ''EC''" "ecKey rk = Some key"
    by (auto split: if_splits)
  then show ?thesis
  proof cases
    case 1
    from 1(2) obtain n e where "key = RSAKey n e" "minRSABits \<le> bitLen n" "bitLen n \<le> maxRSABits"
      "3 \<le> e" "e < 2 ^ 31" "odd e" by (rule rsaKey_ok)
    with g alg 1(1) show ?thesis unfolding k4 key_ok_def by simp
  next
    case 2
    from 2(2) obtain x y cv where "key = ECKey (Crv rk) x y" "curve_named (Crv rk) = Some cv" "on_curve cv x y"
      by (rule ecKey_ok)
    with g alg 2(1) show ?thesis unfolding k4 key_ok_def by simp
  qed
qed

text \<open>The keys filed under a kid are the usable ones of the document with it, in its order.\<close>

definition usable_keys :: "platform \<Rightarrow> json list \<Rightarrow> jwk list" where
  "usable_keys p raws =
     List.map_filter (\<lambda>raw. case unmarshal_rawJWK p raw of None \<Rightarrow> None | Some rk \<Rightarrow> toKey rk) raws"

lemma collect_keys_get:
  "gomap_get (collect_keys p raws keys) kid =
     (case filter (\<lambda>k. jwk_kid k = kid) (usable_keys p raws) of
        [] \<Rightarrow> gomap_get keys kid
      | k # ks \<Rightarrow> Some (keys_with keys kid @ k # ks))"
proof (induction raws arbitrary: keys)
  case (Cons raw raws)
  show ?case
  proof (cases "case unmarshal_rawJWK p raw of None \<Rightarrow> None | Some rk \<Rightarrow> toKey rk")
    case None
    with Cons show ?thesis by (auto simp: usable_keys_def map_filter_simps split: option.splits)
  next
    case (Some k)
    then obtain rk where rk: "unmarshal_rawJWK p raw = Some rk" "toKey rk = Some k" by (auto split: option.splits)
    with Cons show ?thesis
      by (auto simp: usable_keys_def map_filter_simps keys_with_def split: list.splits option.splits)
  qed
qed (simp add: usable_keys_def map_filter_simps)

lemma set_map_filter_iff: "y \<in> set (List.map_filter f xs) \<longleftrightarrow> (\<exists>x \<in> set xs. f x = Some y)"
  by (force simp: map_filter_def)

lemma usable_keys_ok: "k \<in> set (usable_keys p raws) \<Longrightarrow> key_ok (jwk_kid k) k"
  by (auto simp: usable_keys_def set_map_filter_iff intro: toKey_ok split: option.splits)

lemma parseJWKS_ok:
  assumes "parseJWKS p b = Some keys"
  shows "key_set_ok keys"
proof -
  from assms obtain raws where raws: "keys = collect_keys p raws []" "keys \<noteq> []"
    by (auto simp: parseJWKS_def Let_def split: if_splits option.splits json.splits)
  have "ks \<noteq> [] \<and> (\<forall>k \<in> set ks. key_ok kid k)" if "gomap_get keys kid = Some ks" for kid ks
  proof -
    have "ks = filter (\<lambda>k. jwk_kid k = kid) (usable_keys p raws)" "ks \<noteq> []"
      using that unfolding raws(1) collect_keys_get by (auto simp: keys_with_def split: list.splits)
    then show ?thesis using usable_keys_ok by auto
  qed
  with raws(2) show ?thesis by (auto simp: key_set_ok_def)
qed

section \<open>Freshness\<close>

text \<open>\<open>strings.Trim\<close> with the cutset of the double quote.\<close>

definition trim_quotes :: "string \<Rightarrow> string" where
  "trim_quotes s = rev (dropWhile (\<lambda>c. c = dquote) (rev (dropWhile (\<lambda>c. c = dquote) s)))"

fun cache_directives :: "platform \<Rightarrow> string list \<Rightarrow> duration \<Rightarrow> duration" where
  "cache_directives p [] ttl = min (max ttl MinKeySetTTL) MaxKeySetTTL"
| "cache_directives p (d0 # ds) ttl =
     (let d = to_lower (lower_of p) (trim_space d0) in
      if d = ''no-store'' \<or> d = ''no-cache'' then MinKeySetTTL
      else if has_prefix d ''max-age='' then
        (case parse_int64 (trim_quotes (drop 8 d)) of
           Some secs \<Rightarrow>
             if 0 \<le> secs then cache_directives p ds (min secs (MaxKeySetTTL div second) * second)
             else cache_directives p ds ttl
         | None \<Rightarrow> cache_directives p ds ttl)
      else cache_directives p ds ttl)"

definition cacheTTL :: "platform \<Rightarrow> string \<Rightarrow> duration" where
  "cacheTTL p cacheControl = cache_directives p (split_on (CHR '','') cacheControl) DefaultKeySetTTL"

lemma ttl_constants:
  "MinKeySetTTL = 300000000000" "MaxKeySetTTL = 86400000000000" "DefaultKeySetTTL = 3600000000000"
  "DefaultMaxStale = 86400000000000" "MinRefreshInterval = 30000000000"
  by (simp_all add: MinKeySetTTL_def MaxKeySetTTL_def DefaultKeySetTTL_def DefaultMaxStale_def
      MinRefreshInterval_def minute_def second_def)

lemma cache_directives_bounds:
  "MinKeySetTTL \<le> cache_directives p ds ttl \<and> cache_directives p ds ttl \<le> MaxKeySetTTL"
  by (induction p ds ttl rule: cache_directives.induct)
     (auto simp: ttl_constants Let_def split: option.splits)

section \<open>The URL policy\<close>

datatype fetch_error =
    ErrURL | ErrTransport | ErrStatus int | ErrBody | ErrTooLarge | ErrDocument | ErrIssuerMismatch

type_synonym urlPolicy = "string list"

definition url_check :: "platform \<Rightarrow> urlPolicy \<Rightarrow> string \<Rightarrow> fetch_error + URL" where
  "url_check p insecureHosts raw =
     (case url_parse p raw of
        None \<Rightarrow> Inl ErrURL
      | Some u \<Rightarrow>
          if Host u = [] \<or> Opaque u \<noteq> [] \<or> HasUser u \<or> Fragment u \<noteq> [] then Inl ErrURL
          else if Scheme u = ''https'' then Inr u
          else if Scheme u = ''http'' \<and> Hostname u \<in> set insecureHosts then Inr u
          else Inl ErrURL)"

text \<open>A URL that passes is https, or http to a host that is explicitly allowed.\<close>

definition secure_url :: "urlPolicy \<Rightarrow> URL \<Rightarrow> bool" where
  "secure_url insecureHosts u \<longleftrightarrow>
     Host u \<noteq> [] \<and> \<not> HasUser u \<and> Fragment u = [] \<and>
     (Scheme u = ''https'' \<or> Scheme u = ''http'' \<and> Hostname u \<in> set insecureHosts)"

lemma url_check_secure: "url_check p hosts raw = Inr u \<Longrightarrow> url_parse p raw = Some u \<and> secure_url hosts u"
  by (auto simp: url_check_def secure_url_def split: option.splits if_splits)

section \<open>Fetching\<close>

record keySource =
  src_issuer :: string
  discoveryURL :: string
  urls :: urlPolicy

text \<open>The request asks for JSON; \<open>io.ReadAll\<close> of at most \<open>MaxDocumentBytes + 1\<close> bytes: a body that fails does so after the bytes it
  delivered, which a longer body hides.\<close>

definition GET_request :: "string \<Rightarrow> HttpRequest" where
  "GET_request target =
     \<lparr>Method = ''GET'', Target = target, RequestBody = [], RequestHeaders = [(''Accept'', ''application/json'')]\<rparr>"

definition get_document :: "platform \<Rightarrow> string \<Rightarrow> 'a env_scheme \<Rightarrow> (fetch_error + string \<times> string) \<times> 'a env_scheme" where
  "get_document p target w =
     (case http_do p (pos w) (GET_request target) of
        None \<Rightarrow> (Inl ErrTransport, tick w)
      | Some resp \<Rightarrow>
          if StatusCode resp \<noteq> 200 then (Inl (ErrStatus (StatusCode resp)), tick w)
          else
            (let body = take (MaxDocumentBytes + 1) (Body resp) in
             if BodyFails resp \<and> length (Body resp) < MaxDocumentBytes + 1 then (Inl ErrBody, tick w)
             else if MaxDocumentBytes < length body then (Inl ErrTooLarge, tick w)
             else (Inr (body, CacheControl resp), tick w)))"

definition discover :: "platform \<Rightarrow> keySource \<Rightarrow> 'a env_scheme \<Rightarrow> (fetch_error + string) \<times> 'a env_scheme" where
  "discover p src w =
     and_then (get_document p (discoveryURL src) w) (\<lambda>(body, _) w.
       if \<not> checkJSONObject body then (Inl ErrDocument, w)
       else case json_unmarshal body of
         Some (JObject ms) \<Rightarrow>
           (case (fill take_string (fold_of p) ''issuer'' [] ms, fill take_string (fold_of p) ''jwks_uri'' [] ms) of
              (Some issuer, Some uri) \<Rightarrow>
                if issuer \<noteq> src_issuer src then (Inl ErrIssuerMismatch, w)
                else (case url_check p (urls src) uri of
                        Inl e \<Rightarrow> (Inl e, w)
                      | Inr _ \<Rightarrow> (Inr uri, w))
            | _ \<Rightarrow> (Inl ErrDocument, w))
       | _ \<Rightarrow> (Inl ErrDocument, w))"

definition fetchKeys ::
  "platform \<Rightarrow> string \<Rightarrow> 'a env_scheme \<Rightarrow> (fetch_error + keySet \<times> duration) \<times> 'a env_scheme" where
  "fetchKeys p jwksURI w =
     and_then (get_document p jwksURI w) (\<lambda>(body, cc) w.
       case parseJWKS p body of
         None \<Rightarrow> (Inl ErrDocument, w)
       | Some keys \<Rightarrow> (Inr (keys, cacheTTL p cc), w))"

lemma get_document_env: "env_le w (snd (get_document p t w))" "snd (get_document p t w) = tick w"
  by (auto simp: get_document_def Let_def split: option.splits)

lemma get_document_ok:
  assumes "get_document p t w = (Inr (body, cc), w')"
  obtains resp where "http_do p (pos w) (GET_request t) = Some resp" "StatusCode resp = 200" "body = Body resp"
    "length body \<le> MaxDocumentBytes" "cc = CacheControl resp" "w' = tick w"
  using assms by (auto simp: get_document_def Let_def split: option.splits if_splits)

lemma discover_ok:
  assumes "discover p src w = (Inr uri, w')"
  obtains u where "url_parse p uri = Some u" "secure_url (urls src) u" "w' = tick w"
  using assms get_document_env(2) [of p "discoveryURL src" w]
  by (fastforce simp: discover_def split: if_splits option.splits json.splits sum.splits
      elim!: and_then_InrE dest!: url_check_secure)

lemma fetchKeys_ok:
  assumes "fetchKeys p uri w = (Inr (keys, ttl), w')"
  shows "key_set_ok keys" "MinKeySetTTL \<le> ttl" "ttl \<le> MaxKeySetTTL" "w' = tick w"
  using assms get_document_env(2) [of p uri w] cache_directives_bounds
  by (auto simp: fetchKeys_def cacheTTL_def split: option.splits elim!: and_then_InrE dest!: parseJWKS_ok)

lemma source_env:
  "snd (discover p src w) = tick w" "snd (fetchKeys p uri w) = tick w"
  using get_document_env(2) [of p "discoveryURL src" w] get_document_env(2) [of p uri w]
  by (auto simp: discover_def fetchKeys_def and_then_def split: sum.splits prod.splits option.splits json.splits)

end
