(* ===== verification/KeyCache.thy ===== *)
theory KeyCache
  imports Jwks
begin

text \<open>
  The second half of \<open>src/oidc/jwks.go\<close>: \<open>keyCache\<close>. Its critical sections are functions on the
  cache: \<open>lookup_section\<close> is what a caller does between \<open>c.mu.Lock()\<close> and \<open>c.mu.Unlock()\<close>,
  \<open>finishLocked\<close> what the fetching goroutine does when it is back. \<open>lookup\<close> composes them for one
  caller, the fetch it waits for running while it waits; the relation \<open>cache_step\<close> interleaves any
  number of callers with the goroutine they share.
\<close>

section \<open>The cache\<close>

text \<open>\<open>inflight\<close> names the channel the running fetch will close, by a number.\<close>

record keyCache =
  kc_src :: keySource
  maxStale :: duration
  jwksURI :: string
  cached :: "keySet option"
  fetchedAt :: time
  expiresAt :: time
  lastAttempt :: time
  lastErr :: "fetch_error option"
  inflight :: "nat option"

definition new_cache :: "keySource \<Rightarrow> duration \<Rightarrow> keyCache" where
  "new_cache src stale =
     \<lparr>kc_src = src, maxStale = stale, jwksURI = [], cached = None, fetchedAt = 0, expiresAt = 0,
      lastAttempt = 0, lastErr = None, inflight = None\<rparr>"

definition mayFetchLocked :: "keyCache \<Rightarrow> time \<Rightarrow> bool" where
  "mayFetchLocked c now \<longleftrightarrow> time_is_zero (lastAttempt c) \<or> MinRefreshInterval \<le> now - lastAttempt c"

definition usableLocked :: "keyCache \<Rightarrow> time \<Rightarrow> bool" where
  "usableLocked c now \<longleftrightarrow> cached c \<noteq> None \<and> before now (fetchedAt c + maxStale c)"

definition missLocked :: "bool \<Rightarrow> oidc_error" where
  "missLocked usable = (if usable then ErrUnknownKey else ErrKeySetUnavailable)"

text \<open>\<open>c.keys[kid]\<close>, which is empty when the map is nil or has no such kid.\<close>

definition cached_keys :: "keyCache \<Rightarrow> string \<Rightarrow> jwk list" where
  "cached_keys c kid = (case cached c of None \<Rightarrow> [] | Some keys \<Rightarrow> keys_with keys kid)"

definition startFetchLocked :: "nat \<Rightarrow> time \<Rightarrow> keyCache \<Rightarrow> keyCache" where
  "startFetchLocked ch now c = c\<lparr>inflight := Some ch, lastAttempt := now\<rparr>"

datatype lookup_outcome = Answer "jwk list oidc" | Wait nat

text \<open>One pass of the loop in \<open>lookup\<close> under the lock; \<open>ch\<close> is the channel it makes if it starts a fetch.\<close>

definition lookup_section :: "nat \<Rightarrow> time \<Rightarrow> string \<Rightarrow> bool \<Rightarrow> keyCache \<Rightarrow> lookup_outcome \<times> keyCache" where
  "lookup_section ch now kid fetched c =
     (let usable = usableLocked c now;
          found = (if usable then cached_keys c kid else []);
          fresh = (usable \<and> before now (expiresAt c)) in
      if found \<noteq> [] \<and> (fresh \<or> fetched) then (Answer (Inr found), c)
      else case inflight c of
        Some d \<Rightarrow> (Wait d, c)
      | None \<Rightarrow>
          if fetched \<or> \<not> mayFetchLocked c now then
            (if found \<noteq> [] then (Answer (Inr found), c) else (Answer (Inl (missLocked usable)), c))
          else (Wait ch, startFetchLocked ch now c))"

text \<open>
  The goroutine: it reads \<open>jwksURI\<close> when it is started, discovers the URI if there is none, fetches
  the keys, and takes the lock. \<open>fetch\<close> is the part outside the lock: the URI it ends with, and
  the keys or the error.
\<close>

definition fetch ::
  "platform \<Rightarrow> keySource \<Rightarrow> string \<Rightarrow> 'a env_scheme \<Rightarrow>
   (string \<times> (fetch_error + keySet \<times> duration)) \<times> 'a env_scheme" where
  "fetch p src uri w =
     (case (if uri \<noteq> [] then (Inr uri, w) else discover p src w) of
        (Inl e, w1) \<Rightarrow> (([], Inl e), w1)
      | (Inr uri1, w1) \<Rightarrow> (case fetchKeys p uri1 w1 of (r, w2) \<Rightarrow> ((uri1, r), w2)))"

definition finishLocked ::
  "bool \<Rightarrow> string \<Rightarrow> fetch_error + keySet \<times> duration \<Rightarrow> time \<Rightarrow> keyCache \<Rightarrow> keyCache" where
  "finishLocked discovered uri r at c =
     (let c1 = (if \<not> discovered \<and> uri \<noteq> [] then c\<lparr>jwksURI := uri\<rparr> else c);
          c2 = (case r of
                  Inr (keys, ttl) \<Rightarrow>
                    c1\<lparr>cached := Some keys, fetchedAt := at, lastErr := None,
                       expiresAt := at + min ttl (maxStale c1)\<rparr>
                | Inl e \<Rightarrow> c1\<lparr>lastErr := Some e\<rparr>)
      in c2\<lparr>inflight := None\<rparr>)"

definition run_fetch :: "platform \<Rightarrow> keyCache world \<Rightarrow> keyCache world" where
  "run_fetch p w =
     (let uri0 = jwksURI (store w) in
      case fetch p (kc_src (store w)) uri0 w of
        ((uri, r), w1) \<Rightarrow>
          (case read_clock w1 of
             (at, w2) \<Rightarrow> put_store (finishLocked (uri0 \<noteq> []) uri r at (store w2)) w2))"

lemma finishLocked_fields [simp]:
  "inflight (finishLocked d uri r at c) = None" "maxStale (finishLocked d uri r at c) = maxStale c"
  "kc_src (finishLocked d uri r at c) = kc_src c" "lastAttempt (finishLocked d uri r at c) = lastAttempt c"
  by (auto simp: finishLocked_def Let_def split: sum.splits)

lemma fetch_store:
  assumes "fetch p src uri w = (x, w')"
  shows "store w' = store w" "env_le w w'"
proof -
  have *: "w' \<in> {tick w, tick (tick w)}"
    using assms source_env(1) [of p src w] source_env(2) [of p "fst x" "tick w"] source_env(2) [of p uri w]
    by (auto simp: fetch_def source_env prod_eq_iff split: if_splits prod.splits sum.splits)
  show "store w' = store w" using * by auto
  show "env_le w w'" using * by (auto intro: env_le_tickI)
qed

lemma run_fetch_store:
  obtains uri r at where "store (run_fetch p w) = finishLocked (jwksURI (store w) \<noteq> []) uri r at (store w)"
    and "\<exists>w1. fetch p (kc_src (store w)) (jwksURI (store w)) w = ((uri, r), w1)"
    and "read_between w at (run_fetch p w)" and "env_le w (run_fetch p w)"
proof -
  obtain uri r w1 where f: "fetch p (kc_src (store w)) (jwksURI (store w)) w = ((uri, r), w1)" by (metis surj_pair)
  obtain at w2 where c: "read_clock w1 = (at, w2)" by fastforce
  note w1 = fetch_store [OF f]
  have run: "run_fetch p w = put_store (finishLocked (jwksURI (store w) \<noteq> []) uri r at (store w2)) w2"
    by (simp add: run_fetch_def f c)
  have "store w2 = store w" using read_clock_store [OF c] w1(1) by simp
  moreover have "read_between w at (run_fetch p w)"
    unfolding run by (rule read_between_clock [OF w1(2) c]) simp
  moreover have "env_le w (run_fetch p w)"
    unfolding run using w1(2) read_clock_later [OF c] by (auto intro: env_le_trans)
  ultimately show ?thesis using that run f by simp
qed

text \<open>
  The loop. A caller waits at most for the fetch that was running when it came and for none it did
  not start itself afterwards, so two passes that wait are the most: \<open>waits\<close> counts those left.
\<close>

definition waits :: "bool \<Rightarrow> keyCache \<Rightarrow> nat" where
  "waits fetched c = (if \<not> fetched then 2 else if inflight c \<noteq> None then 1 else 0)"

lemma lookup_section_waits:
  "lookup_section ch now kid fetched c = (Wait d, c') \<Longrightarrow> \<not> fetched \<or> inflight c \<noteq> None"
  by (auto simp: lookup_section_def Let_def split: if_splits option.splits)

function lookup_from ::
  "platform \<Rightarrow> bool \<Rightarrow> string \<Rightarrow> keyCache world \<Rightarrow> jwk list oidc \<times> keyCache world" where
  "lookup_from p fetched kid w =
     (case read_clock w of
        (now, w1) \<Rightarrow>
          (case lookup_section (pos w) now kid fetched (store w1) of
             (Answer r, c) \<Rightarrow> (r, put_store c w1)
           | (Wait d, c) \<Rightarrow>
               (case external_check (put_store c w1) of
                  (Inl _, w2) \<Rightarrow> (Inl ErrKeySetUnavailable, w2)
                | (Inr _, w2) \<Rightarrow> lookup_from p True kid (run_fetch p w2))))"
  by pat_completeness auto
termination
proof (relation "measure (\<lambda>(p, fetched, kid, w). waits fetched (store w))")
  fix p :: platform and fetched kid now d c oc and w w1 w2 :: "keyCache world"
  assume c: "(now, w1) = read_clock w"
    and s: "(oc, c) = lookup_section (pos w) now kid fetched (store w1)" "oc = Wait d"
  have "store w1 = store w" using c [symmetric] by (rule read_clock_store)
  with s have "\<not> fetched \<or> inflight (store w) \<noteq> None" using lookup_section_waits [of "pos w" now kid fetched "store w" d c] by auto
  moreover have "inflight (store (run_fetch p w2)) = None" by (rule run_fetch_store [of p w2]) simp
  ultimately show "((p, True, kid, run_fetch p w2), p, fetched, kid, w)
      \<in> measure (\<lambda>(p, fetched, kid, w). waits fetched (store w))"
    by (auto simp: waits_def)
qed simp

declare lookup_from.simps [simp del]

definition lookup :: "platform \<Rightarrow> string \<Rightarrow> keyCache world \<Rightarrow> jwk list oidc \<times> keyCache world" where
  "lookup p kid w = lookup_from p False kid w"

section \<open>One caller\<close>

text \<open>A cached set is one \<open>parseJWKS\<close> returned, and is never fresh past the point where it is unusable.\<close>

definition cache_ok :: "keyCache \<Rightarrow> bool" where
  "cache_ok c \<longleftrightarrow>
     (case cached c of
        None \<Rightarrow> True
      | Some keys \<Rightarrow> key_set_ok keys \<and> expiresAt c \<le> fetchedAt c + maxStale c)"

lemma new_cache_ok [simp]: "cache_ok (new_cache src stale)"
  by (simp add: cache_ok_def new_cache_def)

lemma fetch_keys_ok:
  assumes "fetch p src uri w = ((uri', Inr (keys, ttl)), w')"
  shows "key_set_ok keys" "MinKeySetTTL \<le> ttl" "ttl \<le> MaxKeySetTTL"
  using assms by (auto simp: fetch_def split: prod.splits sum.splits if_splits dest: fetchKeys_ok)

lemma finish_ok:
  assumes "cache_ok c" and "\<And>keys ttl. r = Inr (keys, ttl) \<Longrightarrow> key_set_ok keys"
  shows "cache_ok (finishLocked d uri r at c)"
  using assms by (auto simp: finishLocked_def cache_ok_def Let_def split: sum.splits option.splits)

lemma run_fetch_ok: "cache_ok (store w) \<Longrightarrow> cache_ok (store (run_fetch p w))"
  by (rule run_fetch_store [of p w]) (auto intro!: finish_ok dest: fetch_keys_ok)

lemma section_keeps:
  assumes "lookup_section ch now kid fetched c = (oc, c')"
  shows "cache_ok c' = cache_ok c" "cached c' = cached c" "kc_src c' = kc_src c" "maxStale c' = maxStale c"
    "fetchedAt c' = fetchedAt c" "jwksURI c' = jwksURI c" "expiresAt c' = expiresAt c" "lastErr c' = lastErr c"
  using assms
  by (auto simp: lookup_section_def startFetchLocked_def cache_ok_def Let_def split: if_splits option.splits)

lemma section_answer:
  assumes "lookup_section ch now kid fetched c = (Answer r, c')"
  shows "c' = c"
    and "r = Inr ks \<Longrightarrow> ks = cached_keys c kid \<and> ks \<noteq> [] \<and> usableLocked c now"
    and "r = Inl e \<Longrightarrow> e = missLocked (usableLocked c now) \<and> (usableLocked c now \<longrightarrow> cached_keys c kid = [])"
  using assms by (auto simp: lookup_section_def Let_def split: if_splits option.splits)

text \<open>What a lookup that ends in the world \<open>w'\<close> may return: keys of the set cached there, at a moment
  less than \<open>maxStale\<close> after its fetch; or one of two errors.\<close>

definition lookup_result :: "keyCache world \<Rightarrow> string \<Rightarrow> jwk list oidc \<Rightarrow> keyCache world \<Rightarrow> bool" where
  "lookup_result w kid r w' \<longleftrightarrow>
     (case r of
        Inr ks \<Rightarrow> ks \<noteq> [] \<and> ks = cached_keys (store w') kid \<and>
          (\<exists>now. read_between w now w' \<and> now < fetchedAt (store w') + maxStale (store w'))
      | Inl e \<Rightarrow> e = ErrUnknownKey \<and> cached_keys (store w') kid = [] \<or> e = ErrKeySetUnavailable)"

lemma lookup_result_mono: "lookup_result v kid r w' \<Longrightarrow> env_le w v \<Longrightarrow> lookup_result w kid r w'"
  by (auto simp: lookup_result_def split: sum.splits intro: read_between_mono)

lemma lookup_from_pass:
  assumes "read_clock w = (now, w1)" and "lookup_section (pos w) now kid fetched (store w1) = (oc, c)"
  shows "oc = Answer r \<Longrightarrow> lookup_from p fetched kid w = (r, put_store c w1)"
    and "oc = Wait d \<Longrightarrow> external_check (put_store c w1) = (Inl e, w2) \<Longrightarrow>
      lookup_from p fetched kid w = (Inl ErrKeySetUnavailable, w2)"
    and "oc = Wait d \<Longrightarrow> external_check (put_store c w1) = (Inr u, w2) \<Longrightarrow>
      lookup_from p fetched kid w = lookup_from p True kid (run_fetch p w2)"
  unfolding lookup_from.simps [of p fetched kid w] assms(1) prod.case assms(2) by simp_all

lemma lookup_from_spec:
  assumes "lookup_from p fetched kid w = (r, w')"
  shows "lookup_result w kid r w'" "env_le w w'" "cache_ok (store w) \<Longrightarrow> cache_ok (store w')"
    "kc_src (store w') = kc_src (store w)" "maxStale (store w') = maxStale (store w)"
proof -
  have "lookup_result w kid r w' \<and> env_le w w' \<and> (cache_ok (store w) \<longrightarrow> cache_ok (store w')) \<and>
    kc_src (store w') = kc_src (store w) \<and> maxStale (store w') = maxStale (store w)"
    using assms
  proof (induction p fetched kid w arbitrary: r w' rule: lookup_from.induct)
    case (1 p fetched kid w)
    obtain now w1 where c: "read_clock w = (now, w1)" by fastforce
    have w1: "store w1 = store w" "env_le w w1" using read_clock_store [OF c] read_clock_later [OF c] by auto
    obtain oc c' where s: "lookup_section (pos w) now kid fetched (store w1) = (oc, c')" by fastforce
    note keeps = section_keeps [OF s, unfolded w1]
    show ?case
    proof (cases oc)
      case (Answer x)
      with 1(2) lookup_from_pass(1) [OF c s] have rw: "r = x" "w' = put_store c' w1" by auto
      have "env_le w w'" "store w' = store w" using rw w1 section_answer(1) [OF s [unfolded Answer]] by auto
      moreover have "read_between w now w'"
        by (rule read_between_clock [OF env_le_refl c]) (simp add: rw)
      moreover have "lookup_result w kid r w'"
      proof (cases x)
        case (Inl e)
        then have "e = missLocked (usableLocked (store w) now)" "usableLocked (store w) now \<longrightarrow> cached_keys (store w) kid = []"
          using section_answer(3) [OF s [unfolded Answer]] w1 by auto
        then show ?thesis using Inl rw(1) \<open>store w' = store w\<close> by (simp add: lookup_result_def missLocked_def)
      next
        case (Inr ks)
        then have "ks = cached_keys (store w) kid" "ks \<noteq> []" "usableLocked (store w) now"
          using section_answer(2) [OF s [unfolded Answer]] w1 by auto
        then show ?thesis using Inr rw(1) \<open>store w' = store w\<close> \<open>read_between w now w'\<close>
          by (auto simp: lookup_result_def usableLocked_def before_def)
      qed
      ultimately show ?thesis by simp
    next
      case (Wait d)
      obtain x w2 where x: "external_check (put_store c' w1) = (x, w2)" by fastforce
      have w2: "store w2 = c'" "env_le w w2"
        using x w1(2) by (auto simp: external_check_def env_le_tickI split: option.splits)
      show ?thesis
      proof (cases x)
        case (Inl e)
        with 1(2) lookup_from_pass(2) [OF c s Wait] x have "r = Inl ErrKeySetUnavailable" "w' = w2" by auto
        with w2 keeps show ?thesis by (simp add: lookup_result_def)
      next
        case (Inr u)
        have rest: "lookup_from p True kid (run_fetch p w2) = (r, w')"
          using 1(2) lookup_from_pass(3) [OF c s Wait] x Inr by auto
        have "lookup_result (run_fetch p w2) kid r w' \<and> env_le (run_fetch p w2) w' \<and>
            (cache_ok (store (run_fetch p w2)) \<longrightarrow> cache_ok (store w')) \<and>
            kc_src (store w') = kc_src (store (run_fetch p w2)) \<and> maxStale (store w') = maxStale (store (run_fetch p w2))"
          using 1(1) [OF c [symmetric] s [symmetric] Wait x [symmetric] Inr] rest by simp
        moreover have "env_le w2 (run_fetch p w2)" by (rule run_fetch_store [of p w2])
        moreover have "kc_src (store (run_fetch p w2)) = kc_src c'" "maxStale (store (run_fetch p w2)) = maxStale c'"
          by (rule run_fetch_store [of p w2]; simp add: w2(1))+
        ultimately show ?thesis
          using keeps w2 run_fetch_ok [of w2 p] by (auto intro: lookup_result_mono env_le_trans)
      qed
    qed
  qed
  then show "lookup_result w kid r w'" "env_le w w'" "cache_ok (store w) \<Longrightarrow> cache_ok (store w')"
    "kc_src (store w') = kc_src (store w)" "maxStale (store w') = maxStale (store w)" by auto
qed

text \<open>Every lookup ends after at most one fetch.\<close>

lemma run_fetch_pos: "pos (run_fetch p w) \<le> pos w + 3"
proof -
  obtain x w1 where f: "fetch p (kc_src (store w)) (jwksURI (store w)) w = (x, w1)" by fastforce
  have "pos w1 \<le> pos w + 2"
  proof (cases "jwksURI (store w) \<noteq> []")
    case True
    with f show ?thesis
      using source_env(2) [of p "jwksURI (store w)" w] by (auto simp: fetch_def tick_def split: prod.splits)
  next
    case False
    obtain r v where d: "discover p (kc_src (store w)) w = (r, v)" by fastforce
    have "v = tick w" using source_env(1) [of p "kc_src (store w)" w] d by simp
    with f False d source_env(2) [of p "projr r" v] show ?thesis
      by (cases r) (auto simp: fetch_def tick_def split: prod.splits)
  qed
  then show ?thesis
    using f by (simp add: run_fetch_def read_clock_def put_store_def tick_def split: prod.splits)
qed

lemma lookup_second_pass:
  assumes "inflight (store w) = None"
  shows "pos (snd (lookup_from p True kid w)) = Suc (pos w)"
proof -
  obtain now w1 where c: "read_clock w = (now, w1)" by fastforce
  obtain oc c' where s: "lookup_section (pos w) now kid True (store w1) = (oc, c')" by fastforce
  have "\<not> (\<exists>d. oc = Wait d)"
    using lookup_section_waits [of "pos w" now kid True "store w1"] s assms read_clock_store [OF c] by auto
  then obtain r where "oc = Answer r" by (cases oc) auto
  then have "lookup_from p True kid w = (r, put_store c' w1)" by (rule lookup_from_pass(1) [OF c s])
  then show ?thesis using read_clock_later [OF c] by (simp add: put_store_def)
qed

lemma lookup_pos: "pos (snd (lookup p kid w)) \<le> pos w + 6"
proof -
  obtain now w1 where c: "read_clock w = (now, w1)" by fastforce
  have w1: "pos w1 = Suc (pos w)" using read_clock_later [OF c] by simp
  obtain oc c' where s: "lookup_section (pos w) now kid False (store w1) = (oc, c')" by fastforce
  show ?thesis
  proof (cases oc)
    case (Answer r)
    from lookup_from_pass(1) [OF c s this] w1 show ?thesis by (simp add: lookup_def put_store_def)
  next
    case (Wait d)
    obtain x w2 where x: "external_check (put_store c' w1) = (x, w2)" by fastforce
    have w2: "pos w2 = pos w + 2" using x w1 by (auto simp: external_check_def tick_def put_store_def split: option.splits)
    show ?thesis
    proof (cases x)
      case (Inl e)
      from lookup_from_pass(2) [OF c s Wait x [unfolded Inl]] w2 show ?thesis by (simp add: lookup_def)
    next
      case (Inr u)
      have "inflight (store (run_fetch p w2)) = None" by (rule run_fetch_store [of p w2]) simp
      from lookup_second_pass [OF this, of p kid] run_fetch_pos [of p w2]
        lookup_from_pass(3) [OF c s Wait x [unfolded Inr]] w2 show ?thesis by (simp add: lookup_def)
    qed
  qed
qed

lemma put_store_tick: "put_store (store w) (tick w) = tick w"
  by (metis put_store_same store_tick)

text \<open>A fresh key is answered from the cache, without a fetch.\<close>

lemma lookup_fresh:
  assumes "cached_keys (store w) kid \<noteq> []" and "clk w (pos w) < expiresAt (store w)" and "cache_ok (store w)"
  shows "lookup p kid w = (Inr (cached_keys (store w) kid), tick w)"
proof -
  have "usableLocked (store w) (clk w (pos w))"
    using assms by (auto simp: usableLocked_def cached_keys_def cache_ok_def before_def split: option.splits)
  with assms(1,2) show ?thesis
    by (simp add: lookup_def lookup_from.simps [of p False] read_clock_def lookup_section_def before_def put_store_tick)
qed

text \<open>Inside the rate limit, with no fetch running, no request is sent.\<close>

lemma lookup_limited:
  assumes "inflight (store w) = None" and "lastAttempt (store w) \<noteq> 0"
    and "clk w (pos w) - lastAttempt (store w) < MinRefreshInterval"
  shows "snd (lookup p kid w) = tick w"
  using assms
  by (auto simp: lookup_def lookup_from.simps [of p False] read_clock_def lookup_section_def Let_def
      mayFetchLocked_def time_is_zero_def put_store_tick split: prod.splits lookup_outcome.splits)

end
