(* ===== verification/Oidc.thy ===== *)
theory Oidc
  imports KeyCache
begin

text \<open>
  \<open>src/oidc/verifier.go\<close> and \<open>src/oidc/github.go\<close>: building a verifier, verifying a token against
  the issuer's keys, the registered claims, and the claims of GitHub Actions. A verifier is the
  record of its settings; the key cache it holds is the store of the world. \<open>Config.Now\<close> is the
  clock of the world, \<open>Config.HTTPClient\<close> the platform's.
\<close>

section \<open>Configuration\<close>

definition DefaultClockSkew :: duration where "DefaultClockSkew = 60 * second"

record Config =
  cfg_Issuer :: string
  cfg_Audiences :: "string list"
  cfg_Algorithms :: "string list"
  cfg_ClockSkew :: duration
  cfg_RequireSubject :: bool
  cfg_RequireJTI :: bool
  cfg_MaxStale :: duration
  cfg_InsecureHosts :: "string list"

record Verifier =
  ver_issuer :: string
  ver_audiences :: "string list"
  ver_algs :: "(string, algorithm) gomap"
  ver_skew :: duration
  ver_requireSubject :: bool
  ver_requireJTI :: bool

fun allow_algs :: "string list \<Rightarrow> (string, algorithm) gomap \<Rightarrow> (string, algorithm) gomap oidc" where
  "allow_algs [] algs = Inr algs"
| "allow_algs (n # ns) algs =
     (case gomap_get supportedAlgorithms n of
        None \<Rightarrow> Inl ErrInvalidConfig
      | Some a \<Rightarrow> allow_algs ns (gomap_set n a algs))"

definition allowList :: "string list \<Rightarrow> (string, algorithm) gomap oidc" where
  "allowList names = allow_algs (if names = [] then [''RS256''] else names) []"

text \<open>\<open>strings.TrimSuffix(s, "/")\<close>.\<close>

definition trim_slash :: "string \<Rightarrow> string" where
  "trim_slash s = (if s \<noteq> [] \<and> last s = CHR ''/'' then butlast s else s)"

definition NewVerifier :: "platform \<Rightarrow> Config \<Rightarrow> (Verifier \<times> keyCache) oidc" where
  "NewVerifier p cfg =
     (case url_check p (cfg_InsecureHosts cfg) (cfg_Issuer cfg) of
        Inl _ \<Rightarrow> Inl ErrInvalidConfig
      | Inr u \<Rightarrow>
          if RawQuery u \<noteq> [] \<or> ForceQuery u then Inl ErrInvalidConfig
          else if cfg_Audiences cfg = [] \<or> [] \<in> set (cfg_Audiences cfg) then Inl ErrInvalidConfig
          else if cfg_ClockSkew cfg < 0 then Inl ErrInvalidConfig
          else if cfg_MaxStale cfg \<noteq> 0 \<and> cfg_MaxStale cfg \<le> MinKeySetTTL then Inl ErrInvalidConfig
          else
            ok_then (allowList (cfg_Algorithms cfg)) (\<lambda>algs.
              Inr
                (\<lparr>ver_issuer = cfg_Issuer cfg, ver_audiences = cfg_Audiences cfg, ver_algs = algs,
                  ver_skew = (if cfg_ClockSkew cfg \<noteq> 0 then cfg_ClockSkew cfg else DefaultClockSkew),
                  ver_requireSubject = cfg_RequireSubject cfg, ver_requireJTI = cfg_RequireJTI cfg\<rparr>,
                 new_cache
                   \<lparr>src_issuer = cfg_Issuer cfg,
                    discoveryURL = trim_slash (cfg_Issuer cfg) @ ''/.well-known/openid-configuration'',
                    urls = cfg_InsecureHosts cfg\<rparr>
                   (if cfg_MaxStale cfg \<noteq> 0 then cfg_MaxStale cfg else DefaultMaxStale))))"

section \<open>Claims\<close>

text \<open>A decoded payload is the list of its members; a value of type \<open>any\<close> is the JSON value.\<close>

record Claims =
  claim_iss :: string
  claim_sub :: string
  claim_aud :: "string list"
  claim_exp :: time
  claim_iat :: time
  claim_nbf :: time
  claim_jti :: string

record VerifiedToken =
  tok_header :: Header
  tok_claims :: Claims
  tok_raw :: "(string \<times> json) list"

definition stringClaim :: "(string \<times> json) list \<Rightarrow> string \<Rightarrow> string oidc" where
  "stringClaim raw name =
     (case member raw name of
        None \<Rightarrow> Inr []
      | Some (JString s) \<Rightarrow> Inr s
      | Some _ \<Rightarrow> Inl ErrMalformed)"

fun string_elements :: "json list \<Rightarrow> string list oidc" where
  "string_elements [] = Inr []"
| "string_elements (JString s # vs) = ok_then (string_elements vs) (\<lambda>ss. Inr (s # ss))"
| "string_elements (v # vs) = Inl ErrMalformed"

definition audienceClaim :: "(string \<times> json) list \<Rightarrow> string list oidc" where
  "audienceClaim raw =
     (case member raw ''aud'' of
        None \<Rightarrow> Inr []
      | Some JNull \<Rightarrow> Inr []
      | Some (JString s) \<Rightarrow> Inr [s]
      | Some (JArray vs) \<Rightarrow> string_elements vs
      | Some _ \<Rightarrow> Inl ErrMalformed)"

definition maxNumericDate :: nat where "maxNumericDate = 10 ^ 11"

text \<open>\<open>time.Unix(secs, 0)\<close>.\<close>

definition unix_time :: "int \<Rightarrow> time" where
  "unix_time secs = (secs + 62135596800) * second"

definition numericDate :: "(string \<times> json) list \<Rightarrow> string \<Rightarrow> time oidc" where
  "numericDate raw name =
     (case member raw name of
        None \<Rightarrow> Inr 0
      | Some (JNumber n) \<Rightarrow>
          (case ParseFloat n of
             None \<Rightarrow> Inl ErrMalformed
           | Some (neg, f) \<Rightarrow>
               if neg \<or> fst f = 0 \<or> float_above f maxNumericDate then Inl ErrMalformed
               else Inr (unix_time (int (float_trunc f))))
      | Some _ \<Rightarrow> Inl ErrMalformed)"

definition decodeClaims :: "string \<Rightarrow> ((string \<times> json) list \<times> Claims) oidc" where
  "decodeClaims b =
     (case json_unmarshal b of
        Some (JObject raw) \<Rightarrow>
          ok_then (stringClaim raw ''iss'') (\<lambda>iss.
          ok_then (stringClaim raw ''sub'') (\<lambda>sub.
          ok_then (stringClaim raw ''jti'') (\<lambda>jti.
          ok_then (audienceClaim raw) (\<lambda>aud.
          ok_then (numericDate raw ''exp'') (\<lambda>exp.
          ok_then (numericDate raw ''iat'') (\<lambda>iat.
          ok_then (numericDate raw ''nbf'') (\<lambda>nbf.
            Inr (raw, \<lparr>claim_iss = iss, claim_sub = sub, claim_aud = aud, claim_exp = exp,
                       claim_iat = iat, claim_nbf = nbf, claim_jti = jti\<rparr>))))))))
      | _ \<Rightarrow> Inl ErrMalformed)"

section \<open>Verification\<close>

definition validate :: "Verifier \<Rightarrow> Claims \<Rightarrow> 'a env_scheme \<Rightarrow> unit oidc \<times> 'a env_scheme" where
  "validate v c w =
     (if claim_iss c \<noteq> ver_issuer v then (Inl ErrIssuer, w)
      else if \<not> list_ex (\<lambda>a. a \<in> set (ver_audiences v)) (claim_aud c) then (Inl ErrAudience, w)
      else if time_is_zero (claim_exp c) then (Inl ErrMissingClaim, w)
      else if time_is_zero (claim_iat c) then (Inl ErrMissingClaim, w)
      else case read_clock w of
        (now, w1) \<Rightarrow>
          (if \<not> before now (claim_exp c + ver_skew v) then Inl ErrTokenExpired
           else if before (now + ver_skew v) (claim_iat c) then Inl ErrNotYetValid
           else if \<not> time_is_zero (claim_nbf c) \<and> before (now + ver_skew v) (claim_nbf c) then Inl ErrNotYetValid
           else if ver_requireSubject v \<and> claim_sub c = [] then Inl ErrMissingClaim
           else if ver_requireJTI v \<and> claim_jti c = [] then Inl ErrMissingClaim
           else Inr (), w1))"

text \<open>\<open>Verify\<close> over the operation that finds the keys of a kid; the verifier's own is the cache's \<open>lookup\<close>.\<close>

definition verify_with ::
  "(string \<Rightarrow> 'a env_scheme \<Rightarrow> jwk list oidc \<times> 'a env_scheme) \<Rightarrow> signatures \<Rightarrow> Verifier \<Rightarrow> string \<Rightarrow>
   'a env_scheme \<Rightarrow> VerifiedToken oidc \<times> 'a env_scheme" where
  "verify_with find_keys sg v rawToken w =
     (case parseCompact rawToken of
        Inl e \<Rightarrow> (Inl e, w)
      | Inr jws \<Rightarrow>
          (case gomap_get (ver_algs v) (Algorithm (header jws)) of
             None \<Rightarrow> (Inl ErrAlgorithm, w)
           | Some alg \<Rightarrow>
               and_then (find_keys (KeyID (header jws)) w) (\<lambda>candidates w.
                 case find (\<lambda>k. usableWith k (Algorithm (header jws)) alg) candidates of
                   None \<Rightarrow> (Inl ErrAlgorithm, w)
                 | Some key \<Rightarrow>
                     and_then (verifySignature sg alg (jwk_key key) (signingInput jws) (signature jws), w) (\<lambda>_ w.
                     and_then (decodeClaims (payload jws), w) (\<lambda>(raw, claims) w.
                     and_then (validate v claims w) (\<lambda>_ w.
                       (Inr \<lparr>tok_header = header jws, tok_claims = claims, tok_raw = raw\<rparr>, w)))))))"

definition Verify ::
  "platform \<Rightarrow> signatures \<Rightarrow> Verifier \<Rightarrow> string \<Rightarrow> keyCache world \<Rightarrow> VerifiedToken oidc \<times> keyCache world" where
  "Verify p sg v rawToken w = verify_with (lookup p) sg v rawToken w"

section \<open>Configured algorithms\<close>

lemma allow_algs_get:
  "allow_algs ns algs = Inr m \<Longrightarrow> gomap_get m n = Some a \<Longrightarrow>
   n \<in> set ns \<and> gomap_get supportedAlgorithms n = Some a \<or> gomap_get algs n = Some a"
  by (induction ns arbitrary: algs) (fastforce split: option.splits if_splits)+

lemma NewVerifier_InrE:
  assumes "NewVerifier p cfg = Inr (v, c)"
  obtains u where "url_parse p (cfg_Issuer cfg) = Some u" and "secure_url (cfg_InsecureHosts cfg) u"
    and "allowList (cfg_Algorithms cfg) = Inr (ver_algs v)" and "ver_issuer v = cfg_Issuer cfg"
    and "ver_audiences v = cfg_Audiences cfg" and "[] \<notin> set (cfg_Audiences cfg)" and "cfg_Audiences cfg \<noteq> []"
    and "0 < ver_skew v" and "MinKeySetTTL < maxStale c" and "cache_ok c"
  using assms url_check_secure [of p "cfg_InsecureHosts cfg" "cfg_Issuer cfg"]
  by (auto simp: NewVerifier_def ok_then_Inr DefaultClockSkew_def ttl_constants second_def new_cache_def cache_ok_def
      split: sum.splits if_splits)

lemma NewVerifier_algs:
  assumes "NewVerifier p cfg = Inr (v, c)" and "gomap_get (ver_algs v) n = Some a"
  shows "gomap_get supportedAlgorithms n = Some a"
    and "n \<in> set (if cfg_Algorithms cfg = [] then [''RS256''] else cfg_Algorithms cfg)"
proof -
  from assms(1) have "allow_algs (if cfg_Algorithms cfg = [] then [''RS256''] else cfg_Algorithms cfg) [] = Inr (ver_algs v)"
    by (rule NewVerifier_InrE) (simp add: allowList_def)
  from allow_algs_get [OF this assms(2)]
  show "gomap_get supportedAlgorithms n = Some a"
    "n \<in> set (if cfg_Algorithms cfg = [] then [''RS256''] else cfg_Algorithms cfg)" by auto
qed

section \<open>Numeric dates\<close>

lemma numericDate_number:
  assumes "numericDate raw name = Inr t" and "member raw name = Some v"
  obtains n e10 m num den where "v = JNumber n" and "decimal_value n = (False, m, e10)"
    and "decimal_fraction m e10 = (num, den)" and "t = unix_time (int (float_trunc (float64 num den)))"
    and "num div den \<le> float_trunc (float64 num den)"
    and "float_trunc (float64 num den) \<le> (num + den - 1) div den"
    and "float_trunc (float64 num den) \<le> maxNumericDate"
proof -
  from assms obtain n neg f where n: "v = JNumber n" "ParseFloat n = Some (neg, f)" "\<not> neg"
    "\<not> float_above f maxNumericDate" "t = unix_time (int (float_trunc f))"
    by (auto simp: numericDate_def split: json.splits option.splits if_splits)
  obtain m e10 where d: "decimal_value n = (neg, m, e10)"
    using n(2) by (auto simp: ParseFloat_def Let_def split: prod.splits if_splits)
  obtain num den where q: "decimal_fraction m e10 = (num, den)" by fastforce
  have f: "f = float64 num den" using n(2) d q by (auto simp: ParseFloat_def Let_def split: if_splits)
  have le: "float_trunc f \<le> maxNumericDate"
  proof (cases f)
    case (Pair a e)
    with n(4) show ?thesis
      by (auto simp: float_above_def float_trunc_def not_less split: if_splits)
         (metis div_le_mono nonzero_mult_div_cancel_right power_not_zero zero_neq_numeral)
  qed
  have "\<not> float_above f (2 ^ 52 - 1)"
    using n(4) by (cases f) (auto simp: float_above_def maxNumericDate_def not_less split: if_splits
        intro: order_trans mult_le_mono1)
  with float64_trunc [OF decimal_fraction_den [OF q]] n d q le f show ?thesis
    by (intro that [of n m e10 num den]) auto
qed

lemma numericDate_whole:
  assumes "0 < n" and "n \<le> maxNumericDate" and "member raw name = Some (JNumber (decimal n))"
  shows "numericDate raw name = Inr (unix_time (int n))"
proof -
  have "n < 2 ^ 52" using assms(2) by (simp add: maxNumericDate_def)
  with assms(1) obtain f where "ParseFloat (decimal n) = Some (False, f)" "float_trunc f = n" "fst f \<noteq> 0"
    "\<not> float_above f maxNumericDate"
    using ParseFloat_whole [of n] assms(2) by metis
  with assms(3) show ?thesis by (simp add: numericDate_def)
qed

lemma numericDate_absent: "member raw name = None \<Longrightarrow> numericDate raw name = Inr 0"
  by (simp add: numericDate_def)

lemma unix_time_seconds [simp]: "unix_seconds (unix_time n) = n"
  by (simp add: unix_seconds_def unix_time_def second_def)

section \<open>Valid claims\<close>

definition claims_valid :: "Verifier \<Rightarrow> Claims \<Rightarrow> time \<Rightarrow> bool" where
  "claims_valid v c now \<longleftrightarrow>
     claim_iss c = ver_issuer v \<and> set (claim_aud c) \<inter> set (ver_audiences v) \<noteq> {} \<and>
     claim_exp c \<noteq> 0 \<and> claim_iat c \<noteq> 0 \<and>
     now < claim_exp c + ver_skew v \<and> claim_iat c \<le> now + ver_skew v \<and>
     (claim_nbf c \<noteq> 0 \<longrightarrow> claim_nbf c \<le> now + ver_skew v) \<and>
     (ver_requireSubject v \<longrightarrow> claim_sub c \<noteq> []) \<and> (ver_requireJTI v \<longrightarrow> claim_jti c \<noteq> [])"

lemma validate_Inr: "validate v c w = (Inr u, w') \<longleftrightarrow> claims_valid v c (clk w (pos w)) \<and> w' = tick w"
  by (auto simp: validate_def claims_valid_def list_ex_iff read_clock_def time_is_zero_def before_def split: if_splits)

definition claim_error :: "oidc_error \<Rightarrow> bool" where
  "claim_error e \<longleftrightarrow> e \<in> {ErrIssuer, ErrAudience, ErrTokenExpired, ErrNotYetValid, ErrMissingClaim}"

lemma validate_Inl: "validate v c w = (Inl e, w') \<Longrightarrow> claim_error e \<and> env_le w w'"
  by (auto simp: validate_def read_clock_def claim_error_def split: if_splits)

lemma numericDate_error: "numericDate raw n = Inl e \<Longrightarrow> e = ErrMalformed"
  by (auto simp: numericDate_def split: option.splits json.splits if_splits prod.splits)

lemma string_elements_error: "string_elements vs = Inl e \<Longrightarrow> e = ErrMalformed"
proof (induction vs)
  case (Cons v vs)
  then show ?case by (cases v) (auto simp: ok_then_def split: sum.splits)
qed simp

lemma claim_errors:
  "stringClaim raw n = Inl e \<Longrightarrow> e = ErrMalformed" "audienceClaim raw = Inl e \<Longrightarrow> e = ErrMalformed"
  "numericDate raw n = Inl e \<Longrightarrow> e = ErrMalformed"
  by (auto simp: stringClaim_def audienceClaim_def dest: string_elements_error numericDate_error
      split: option.splits json.splits)

lemma ok_then_error: "ok_then r k = Inl e \<longleftrightarrow> r = Inl e \<or> (\<exists>x. r = Inr x \<and> k x = Inl e)"
  by (cases r) auto

lemma decodeClaims_error: "decodeClaims b = Inl e \<Longrightarrow> e = ErrMalformed"
  by (auto simp: decodeClaims_def ok_then_error dest: claim_errors split: option.splits json.splits)

section \<open>What verification rests on\<close>

text \<open>\<open>authentic sg v raw k tok\<close>: the token was read from a text whose signature the key \<open>k\<close> verifies,
  under an algorithm the verifier allows and the key fits.\<close>

definition authentic :: "signatures \<Rightarrow> Verifier \<Rightarrow> string \<Rightarrow> jwk \<Rightarrow> VerifiedToken \<Rightarrow> bool" where
  "authentic sg v raw k tok \<longleftrightarrow>
     (\<exists>h body sig alg.
        raw = compact h body sig \<and> length raw \<le> MaxTokenBytes \<and>
        parseHeader h = Inr (tok_header tok) \<and> checkJSONObject body \<and>
        gomap_get (ver_algs v) (Algorithm (tok_header tok)) = Some alg \<and>
        usableWith k (Algorithm (tok_header tok)) alg \<and>
        signed sg alg (jwk_key k) (base64_encode True h @ ''.'' @ base64_encode True body) sig \<and> sig \<noteq> [] \<and>
        decodeClaims body = Inr (tok_raw tok, tok_claims tok))"

text \<open>The end of a verification, once the signature is verified.\<close>

lemma claims_outcome:
  assumes "(out, w') = and_then (decodeClaims b, w1) (\<lambda>(raw, claims) w.
      and_then (validate v claims w) (\<lambda>_ w. (Inr \<lparr>tok_header = jh, tok_claims = claims, tok_raw = raw\<rparr>, w)))"
  obtains (accepted) rw cl where "decodeClaims b = Inr (rw, cl)" and "claims_valid v cl (clk w1 (pos w1))"
      and "out = Inr \<lparr>tok_header = jh, tok_claims = cl, tok_raw = rw\<rparr>" and "w' = tick w1"
  | (rejected) e where "out = Inl e" and "e = ErrMalformed \<or> claim_error e"
proof (cases "decodeClaims b")
  case (Inl e)
  with assms rejected decodeClaims_error [OF Inl] show ?thesis by simp
next
  case (Inr x)
  obtain rw cl where x: "x = (rw, cl)" by fastforce
  obtain r w2 where v: "validate v cl w1 = (r, w2)" by fastforce
  show ?thesis
  proof (cases r)
    case (Inl e)
    with assms Inr x v rejected validate_Inl [of v cl w1 e w2] show ?thesis by simp
  next
    case (Inr u)
    with assms \<open>decodeClaims b = Inr x\<close> x v accepted validate_Inr [of v cl w1 u w2] show ?thesis by simp
  qed
qed

text \<open>The contract of the operation that finds keys, as verification uses it.\<close>

locale key_finder =
  fixes find_keys :: "string \<Rightarrow> 'a env_scheme \<Rightarrow> jwk list oidc \<times> 'a env_scheme"
    and legal :: "'a env_scheme \<Rightarrow> bool"
    and trusted :: "'a env_scheme \<Rightarrow> 'a env_scheme \<Rightarrow> string \<Rightarrow> jwk \<Rightarrow> bool"
  assumes found: "find_keys kid w = (Inr ks, w') \<Longrightarrow> legal w \<Longrightarrow> k \<in> set ks \<Longrightarrow> trusted w w' kid k"
    and lawful: "find_keys kid w = (r, w') \<Longrightarrow> legal w \<Longrightarrow> legal w' \<and> env_le w w'"
    and legal_tick: "legal w \<Longrightarrow> legal (tick w)"
    and refused: "find_keys kid w = (Inl e, w') \<Longrightarrow> e = ErrUnknownKey \<or> e = ErrKeySetUnavailable"
begin

lemma verify_found:
  assumes "verify_with find_keys sg v raw w = (out, w')"
  shows "(\<exists>e. out = Inl e \<and> e \<in> {ErrMalformed, ErrAlgorithm, ErrUnknownKey, ErrKeySetUnavailable, ErrSignature}) \<or>
    (\<exists>jws alg ks w1 k. parseCompact raw = Inr jws \<and> gomap_get (ver_algs v) (Algorithm (header jws)) = Some alg \<and>
       find_keys (KeyID (header jws)) w = (Inr ks, w1) \<and> k \<in> set ks \<and> usableWith k (Algorithm (header jws)) alg \<and>
       signed sg alg (jwk_key k) (signingInput jws) (signature jws) \<and>
       (out, w') = and_then (decodeClaims (payload jws), w1) (\<lambda>(raw, claims) w.
           and_then (validate v claims w) (\<lambda>_ w.
             (Inr \<lparr>tok_header = header jws, tok_claims = claims, tok_raw = raw\<rparr>, w))))"
proof -
  have malformed: "parseCompact raw = Inl e \<Longrightarrow> e = ErrMalformed" for e
    by (auto simp: parseCompact_def parseHeader_def headerString_def ok_then_error
        split: if_splits list.splits option.splits json.splits)
  show ?thesis
  proof (cases "parseCompact raw")
    case (Inl e)
    with assms malformed show ?thesis by (auto simp: verify_with_def)
  next
    case (Inr jws)
    show ?thesis
    proof (cases "gomap_get (ver_algs v) (Algorithm (header jws))")
      case None
      with assms Inr show ?thesis by (auto simp: verify_with_def)
    next
      case (Some alg)
      obtain r w1 where f: "find_keys (KeyID (header jws)) w = (r, w1)" by fastforce
      show ?thesis
      proof (cases r)
        case (Inl e)
        with assms \<open>parseCompact raw = Inr jws\<close> Some f refused [OF f [unfolded Inl]] show ?thesis
          by (auto simp: verify_with_def)
      next
        case (Inr ks)
        let ?p = "\<lambda>k. usableWith k (Algorithm (header jws)) alg"
        show ?thesis
        proof (cases "find ?p ks")
          case None
          with assms \<open>parseCompact raw = Inr jws\<close> Some f Inr show ?thesis by (auto simp: verify_with_def)
        next
          case (Some k)
          note k = Some
          have mem: "k \<in> set ks" "?p k" using k by (auto simp: find_Some_iff)
          show ?thesis
          proof (cases "verifySignature sg alg (jwk_key k) (signingInput jws) (signature jws)")
            case (Inl e)
            with assms \<open>parseCompact raw = Inr jws\<close> \<open>gomap_get _ _ = Some alg\<close> f Inr k verifySignature_error [OF Inl]
            show ?thesis by (auto simp: verify_with_def)
          next
            case (Inr u)
            then have "signed sg alg (jwk_key k) (signingInput jws) (signature jws)" by (simp add: verifySignature_iff [symmetric])
            with assms \<open>parseCompact raw = Inr jws\<close> \<open>gomap_get _ _ = Some alg\<close> f \<open>r = Inr ks\<close> k mem Inr
            show ?thesis by (simp add: verify_with_def) blast
          qed
        qed
      qed
    qed
  qed
qed

lemma verify_sound:
  assumes "verify_with find_keys sg v raw w = (Inr tok, w')" and "legal w"
  obtains k w1 where "trusted w w1 (KeyID (tok_header tok)) k" and "authentic sg v raw k tok"
    and "claims_valid v (tok_claims tok) (clk w (pos w1))" and "env_le w w1" and "w' = tick w1"
proof -
  from verify_found [OF assms(1)] obtain jws alg ks w1 k where *: "parseCompact raw = Inr jws"
    "gomap_get (ver_algs v) (Algorithm (header jws)) = Some alg" "find_keys (KeyID (header jws)) w = (Inr ks, w1)"
    "k \<in> set ks" "usableWith k (Algorithm (header jws)) alg" "signed sg alg (jwk_key k) (signingInput jws) (signature jws)"
    and rest: "(Inr tok, w') = and_then (decodeClaims (payload jws), w1) (\<lambda>(raw, claims) w.
           and_then (validate v claims w) (\<lambda>_ w.
             (Inr \<lparr>tok_header = header jws, tok_claims = claims, tok_raw = raw\<rparr>, w)))"
    by auto
  from rest obtain rw cl where d: "decodeClaims (payload jws) = Inr (rw, cl)" "claims_valid v cl (clk w1 (pos w1))"
    "tok = \<lparr>tok_header = header jws, tok_claims = cl, tok_raw = rw\<rparr>" "w' = tick w1"
    by (rule claims_outcome) auto
  have le: "env_le w w1" using lawful [OF *(3) assms(2)] by simp
  obtain h where h: "raw = compact h (payload jws) (signature jws)" "parseHeader h = Inr (header jws)"
    "signingInput jws = base64_encode True h @ ''.'' @ base64_encode True (payload jws)"
    "checkJSONObject (payload jws)" "length raw \<le> MaxTokenBytes" "signature jws \<noteq> []"
    by (rule parseCompact_inverse [OF *(1)])
  have "authentic sg v raw k tok"
    unfolding authentic_def d(3) using h * d(1)
    by (intro exI [of _ h] exI [of _ "payload jws"] exI [of _ "signature jws"] exI [of _ alg]) simp
  moreover have "clk w1 = clk w" using le by (simp add: env_le_def)
  ultimately show ?thesis using that found [OF *(3) assms(2) *(4)] d le by simp
qed

text \<open>An error about a claim is only ever reported for a token whose signature was verified.\<close>

lemma verify_claim_error:
  assumes "verify_with find_keys sg v raw w = (Inl e, w')" and "legal w" and "claim_error e"
  shows "\<exists>jws alg w1 k. parseCompact raw = Inr jws \<and> gomap_get (ver_algs v) (Algorithm (header jws)) = Some alg \<and>
    trusted w w1 (KeyID (header jws)) k \<and> usableWith k (Algorithm (header jws)) alg \<and>
    signed sg alg (jwk_key k) (signingInput jws) (signature jws)"
proof -
  have "e \<notin> {ErrMalformed, ErrAlgorithm, ErrUnknownKey, ErrKeySetUnavailable, ErrSignature}"
    using assms(3) by (auto simp: claim_error_def)
  with verify_found [OF assms(1)] show ?thesis using found [OF _ assms(2)] by blast
qed

lemma verify_lawful:
  assumes "verify_with find_keys sg v raw w = (r, w')" and "legal w"
  shows "legal w'"
proof -
  have rest: "legal w2" if "verify_with find_keys sg v raw w = (r, w2)" for w2
    using that assms(2) lawful legal_tick
    by (auto simp: verify_with_def and_then_def validate_def read_clock_def
        split: sum.splits option.splits prod.splits if_splits)
  from rest [OF assms(1)] show ?thesis .
qed

lemma verify_errors:
  assumes "verify_with find_keys sg v raw w = (Inl e, w')"
  shows "e \<noteq> ErrInvalidConfig"
  using verify_found [OF assms]
proof (elim disjE exE conjE)
  fix jws w1
  assume "(Inl e, w') = and_then (decodeClaims (payload jws), w1) (\<lambda>(raw, claims) w.
      and_then (validate v claims w) (\<lambda>_ w. (Inr \<lparr>tok_header = header jws, tok_claims = claims, tok_raw = raw\<rparr>, w)))"
  then show ?thesis by (rule claims_outcome) (auto simp: claim_error_def)
qed auto

end

text \<open>The cache keeps the contract: the keys it returns are in the set it holds, which is not too old.\<close>

definition cache_trusts :: "keyCache world \<Rightarrow> keyCache world \<Rightarrow> string \<Rightarrow> jwk \<Rightarrow> bool" where
  "cache_trusts w w' kid k \<longleftrightarrow>
     k \<in> set (cached_keys (store w') kid) \<and> key_ok kid k \<and>
     (\<exists>t. read_between w t w' \<and> t < fetchedAt (store w') + maxStale (store w'))"

lemma cached_key_ok: "cache_ok c \<Longrightarrow> k \<in> set (cached_keys c kid) \<Longrightarrow> key_ok kid k"
  by (cases "cached c"; cases "gomap_get (the (cached c)) kid")
     (auto simp: cache_ok_def cached_keys_def keys_with_def key_set_ok_def)

interpretation kc: key_finder "lookup p" "\<lambda>w. cache_ok (store w)" cache_trusts
proof
  fix kid k and ks :: "jwk list" and w w' :: "keyCache world"
  assume "lookup p kid w = (Inr ks, w')" "cache_ok (store w)" "k \<in> set ks"
  with lookup_from_spec [of p False kid w "Inr ks" w'] cached_key_ok [of "store w'" k kid]
  show "cache_trusts w w' kid k" by (auto simp: lookup_def lookup_result_def cache_trusts_def)
next
  fix kid r and w w' :: "keyCache world"
  assume "lookup p kid w = (r, w')" "cache_ok (store w)"
  with lookup_from_spec [of p False kid w r w'] show "cache_ok (store w') \<and> env_le w w'" by (simp add: lookup_def)
next
  fix kid e and w w' :: "keyCache world"
  assume "lookup p kid w = (Inl e, w')"
  with lookup_from_spec(1) [of p False kid w "Inl e" w'] show "e = ErrUnknownKey \<or> e = ErrKeySetUnavailable"
    by (auto simp: lookup_def lookup_result_def)
qed simp

text \<open>With a fresh key in the cache, verification comes down to the claims.\<close>

lemma verify_fresh:
  assumes "parseCompact raw = Inr jws" and "gomap_get (ver_algs v) (Algorithm (header jws)) = Some alg"
    and "find (\<lambda>k. usableWith k (Algorithm (header jws)) alg) (cached_keys (store w) (KeyID (header jws))) = Some k"
    and "clk w (pos w) < expiresAt (store w)" and "cache_ok (store w)"
    and "signed sg alg (jwk_key k) (signingInput jws) (signature jws)"
    and "decodeClaims (payload jws) = Inr (rw, cl)"
  shows "Verify p sg v raw w =
    and_then (validate v cl (tick w)) (\<lambda>_ w. (Inr \<lparr>tok_header = header jws, tok_claims = cl, tok_raw = rw\<rparr>, w))"
proof -
  have "cached_keys (store w) (KeyID (header jws)) \<noteq> []" using assms(3) by auto
  then have "lookup p (KeyID (header jws)) w = (Inr (cached_keys (store w) (KeyID (header jws))), tick w)"
    using assms(4,5) by (rule lookup_fresh)
  moreover have "verifySignature sg alg (jwk_key k) (signingInput jws) (signature jws) = Inr ()"
    using assms(6) by (simp add: verifySignature_iff)
  ultimately show ?thesis using assms(1-3,7) by (simp add: Verify_def verify_with_def)
qed

lemma authentic_parsed:
  assumes "authentic sg v raw k tok"
  obtains jws alg where "parseCompact raw = Inr jws" and "header jws = tok_header tok"
    and "gomap_get (ver_algs v) (Algorithm (tok_header tok)) = Some alg"
    and "signed sg alg (jwk_key k) (signingInput jws) (signature jws)"
    and "decodeClaims (payload jws) = Inr (tok_raw tok, tok_claims tok)"
proof -
  from assms obtain h body sig alg where a: "raw = compact h body sig" "length raw \<le> MaxTokenBytes"
    "parseHeader h = Inr (tok_header tok)" "checkJSONObject body"
    "gomap_get (ver_algs v) (Algorithm (tok_header tok)) = Some alg"
    "signed sg alg (jwk_key k) (base64_encode True h @ ''.'' @ base64_encode True body) sig" "sig \<noteq> []"
    "decodeClaims body = Inr (tok_raw tok, tok_claims tok)" by (auto simp: authentic_def)
  have "\<not> checkJSONObject []" by (simp add: checkJSONObject_def json_parse_def skip_blanks_def json_value.simps)
  then have ne: "h \<noteq> []" "body \<noteq> []" using a(3,4) by (auto simp: parseHeader_def)
  then show ?thesis using that parseCompact_compact [of h body sig] a by simp
qed

section \<open>GitHub Actions\<close>

definition GitHubActionsIssuer :: string where
  "GitHubActionsIssuer = ''https://token.actions.githubusercontent.com''"

definition GitHubActions :: "string \<Rightarrow> Config" where
  "GitHubActions audience =
     \<lparr>cfg_Issuer = GitHubActionsIssuer, cfg_Audiences = [audience], cfg_Algorithms = [''RS256''],
      cfg_ClockSkew = 0, cfg_RequireSubject = True, cfg_RequireJTI = True, cfg_MaxStale = 0,
      cfg_InsecureHosts = []\<rparr>"

record GitHubActionsClaims =
  gh_RepositoryID :: int
  gh_RepositoryOwnerID :: int
  gh_Repository :: string
  gh_Ref :: string
  gh_SHA :: string
  gh_EventName :: string
  gh_JobWorkflowRef :: string
  gh_RunnerEnvironment :: string

definition isCanonicalDecimal :: "string \<Rightarrow> bool" where
  "isCanonicalDecimal s \<longleftrightarrow>
     (case s of [] \<Rightarrow> False | c # _ \<Rightarrow> if c = CHR ''0'' then False else list_all is_digit s)"

definition numericIDClaim :: "(string \<times> json) list \<Rightarrow> string \<Rightarrow> int oidc" where
  "numericIDClaim raw name =
     (let from = (\<lambda>s. if \<not> isCanonicalDecimal s then Inl ErrMalformed
                      else case parse_int64 s of
                        None \<Rightarrow> Inl ErrMalformed
                      | Some n \<Rightarrow> if n \<le> 0 then Inl ErrMalformed else Inr n) in
      case member raw name of
        None \<Rightarrow> Inl ErrMissingClaim
      | Some JNull \<Rightarrow> Inl ErrMissingClaim
      | Some (JString s) \<Rightarrow> from s
      | Some (JNumber s) \<Rightarrow> from s
      | Some _ \<Rightarrow> Inl ErrMalformed)"

definition ParseGitHubActionsClaims :: "VerifiedToken option \<Rightarrow> GitHubActionsClaims oidc" where
  "ParseGitHubActionsClaims t =
     (case t of
        None \<Rightarrow> Inl ErrMalformed
      | Some tok \<Rightarrow>
          ok_then (numericIDClaim (tok_raw tok) ''repository_id'') (\<lambda>rid.
          ok_then (numericIDClaim (tok_raw tok) ''repository_owner_id'') (\<lambda>oid.
          ok_then (stringClaim (tok_raw tok) ''repository'') (\<lambda>repo.
          ok_then (stringClaim (tok_raw tok) ''ref'') (\<lambda>ref.
          ok_then (stringClaim (tok_raw tok) ''sha'') (\<lambda>sha.
          ok_then (stringClaim (tok_raw tok) ''event_name'') (\<lambda>event.
          ok_then (stringClaim (tok_raw tok) ''job_workflow_ref'') (\<lambda>job.
          ok_then (stringClaim (tok_raw tok) ''runner_environment'') (\<lambda>env.
            Inr \<lparr>gh_RepositoryID = rid, gh_RepositoryOwnerID = oid, gh_Repository = repo, gh_Ref = ref,
                 gh_SHA = sha, gh_EventName = event, gh_JobWorkflowRef = job,
                 gh_RunnerEnvironment = env\<rparr>)))))))))"

lemma canonical_iff: "isCanonicalDecimal s \<longleftrightarrow> (\<exists>n > 0. s = decimal n)"
proof
  assume "isCanonicalDecimal s"
  then have s: "s \<noteq> []" "list_all is_digit s" "hd s \<noteq> CHR ''0''"
    by (auto simp: isCanonicalDecimal_def split: list.splits if_splits)
  then have eq: "decimal (number_of s) = s" by (rule decimal_number_of)
  have "number_of s \<noteq> 0"
  proof
    assume "number_of s = 0"
    with eq have "s = [chr 48]" by (simp add: decimal.simps)
    with s(3) show False by (simp add: chr_zero)
  qed
  with eq show "\<exists>n > 0. s = decimal n" by (intro exI [of _ "number_of s"]) simp
next
  assume "\<exists>n > 0. s = decimal n"
  then obtain n where n: "0 < n" "s = decimal n" by blast
  obtain c cs where c: "decimal n = c # cs" using decimal_start by blast
  then have "c \<noteq> CHR ''0''" using decimal_hd [OF n(1)] by simp
  moreover have "list_all is_digit (decimal n)" using decimal_digits by (auto simp: list_all_iff)
  ultimately show "isCanonicalDecimal s" unfolding n(2) by (simp add: isCanonicalDecimal_def c)
qed

lemma parse_int64_decimal: "parse_int64 (decimal n) = (if n < 2 ^ 63 then Some (int n) else None)"
proof -
  obtain c cs where c: "decimal n = c # cs" "is_digit c" using decimal_start by blast
  have "c \<noteq> CHR ''-''" "c \<noteq> CHR ''+''" using c(2) by (auto simp: is_digit_def byte_def)
  moreover have "list_all is_digit (decimal n)" using decimal_digits by (auto simp: list_all_iff)
  ultimately have "parse_int64 (decimal n) =
      (let k = int (number_of (decimal n)) in if k < - (2 ^ 63) \<or> 2 ^ 63 \<le> k then None else Some k)"
    by (simp add: parse_int64_def c Let_def)
  then show ?thesis by (auto simp: Let_def)
qed

text \<open>An ID has one spelling: the claim is the number in decimal, as a string or as a number.\<close>

lemma numericIDClaim_iff:
  "numericIDClaim raw name = Inr i \<longleftrightarrow>
     0 < i \<and> i < 2 ^ 63 \<and>
     (member raw name = Some (JString (decimal (nat i))) \<or> member raw name = Some (JNumber (decimal (nat i))))"
proof -
  have *: "(if \<not> isCanonicalDecimal s then Inl ErrMalformed
      else case parse_int64 s of None \<Rightarrow> Inl ErrMalformed
        | Some n \<Rightarrow> if n \<le> 0 then Inl ErrMalformed else Inr n) = Inr i \<longleftrightarrow>
     0 < i \<and> i < 2 ^ 63 \<and> s = decimal (nat i)" for s
  proof (cases "isCanonicalDecimal s")
    case True
    then obtain n where n: "0 < n" "s = decimal n" by (auto simp: canonical_iff)
    then show ?thesis using True by (auto simp: parse_int64_decimal)
  next
    case False
    then show ?thesis using canonical_iff [of s] by fastforce
  qed
  show ?thesis
    by (cases "member raw name"; cases "the (member raw name)") (simp_all add: numericIDClaim_def Let_def *)
qed

lemma ParseGitHubActionsClaims_ok:
  assumes "ParseGitHubActionsClaims t = Inr c"
  shows "\<exists>tok. t = Some tok \<and> numericIDClaim (tok_raw tok) ''repository_id'' = Inr (gh_RepositoryID c) \<and>
    numericIDClaim (tok_raw tok) ''repository_owner_id'' = Inr (gh_RepositoryOwnerID c) \<and>
    stringClaim (tok_raw tok) ''repository'' = Inr (gh_Repository c)"
  using assms by (auto simp: ParseGitHubActionsClaims_def ok_then_Inr split: option.splits)

end
