(* ===== verification/KeyCacheRun.thy ===== *)
theory KeyCacheRun
  imports KeyCache
begin

text \<open>
  Any number of callers of \<open>lookup\<close> in \<open>src/oidc/jwks.go\<close> sharing one \<open>keyCache\<close>, as a step
  relation: a step is one critical section, a channel closing, or the clock moving (it may move
  either way). The goroutine's requests may have any outcome the network can give them. \<open>fetch_times\<close>
  records when fetches were started, \<open>Returned\<close> when a caller got its answer and when the set it
  came from was fetched.
\<close>

section \<open>Steps\<close>

datatype caller =
    Looking string bool
  | Waiting string nat
  | Returned string "jwk list oidc" time time

record system =
  cache :: keyCache
  clock :: time
  running :: "(nat \<times> string) list"
  fresh :: nat
  callers :: "nat \<Rightarrow> caller option"
  fetch_times :: "time list"

definition start_system :: "keySource \<Rightarrow> duration \<Rightarrow> time \<Rightarrow> system" where
  "start_system src stale t =
     \<lparr>cache = new_cache src stale, clock = t, running = [], fresh = 0, callers = Map.empty, fetch_times = []\<rparr>"

definition now_caller :: "nat \<Rightarrow> caller \<Rightarrow> system \<Rightarrow> system" where
  "now_caller i x s = s\<lparr>callers := (callers s)(i \<mapsto> x)\<rparr>"

inductive cache_step :: "platform \<Rightarrow> system \<Rightarrow> system \<Rightarrow> bool" for p where
  answers:
    "callers s i = Some (Looking kid fetched) \<Longrightarrow>
     lookup_section (fresh s) (clock s) kid fetched (cache s) = (Answer r, c) \<Longrightarrow>
     cache_step p s (now_caller i (Returned kid r (clock s) (fetchedAt c)) s)"
| waits:
    "callers s i = Some (Looking kid fetched) \<Longrightarrow> inflight (cache s) = Some d \<Longrightarrow>
     lookup_section (fresh s) (clock s) kid fetched (cache s) = (Wait d, c) \<Longrightarrow>
     cache_step p s (now_caller i (Waiting kid d) s)"
| starts:
    "callers s i = Some (Looking kid fetched) \<Longrightarrow> inflight (cache s) = None \<Longrightarrow>
     lookup_section (fresh s) (clock s) kid fetched (cache s) = (Wait d, c) \<Longrightarrow>
     cache_step p s (now_caller i (Waiting kid d)
       (s\<lparr>cache := c, running := (d, jwksURI (cache s)) # running s, fresh := Suc (fresh s),
          fetch_times := clock s # fetch_times s\<rparr>))"
| wakes:
    "callers s i = Some (Waiting kid d) \<Longrightarrow> d \<notin> fst ` set (running s) \<Longrightarrow>
     cache_step p s (now_caller i (Looking kid True) s)"
| finishes:
    "(d, uri) \<in> set (running s) \<Longrightarrow> fetch p (kc_src (cache s)) uri (w :: env) = ((uri', r), w') \<Longrightarrow>
     cache_step p s
       (s\<lparr>cache := finishLocked (uri \<noteq> []) uri' r (clock s) (cache s),
          running := filter (\<lambda>x. fst x \<noteq> d) (running s)\<rparr>)"

text \<open>What the surroundings may do at any moment: call, cancel a waiting caller, move the clock.\<close>

inductive system_step :: "platform \<Rightarrow> system \<Rightarrow> system \<Rightarrow> bool" for p where
  inner: "cache_step p s s' \<Longrightarrow> system_step p s s'"
| enters:
    "\<forall>kid' d. callers s i \<noteq> Some (Waiting kid' d) \<Longrightarrow> \<forall>kid' f. callers s i \<noteq> Some (Looking kid' f) \<Longrightarrow>
     system_step p s (now_caller i (Looking kid False) s)"
| cancelled:
    "callers s i = Some (Waiting kid d) \<Longrightarrow>
     system_step p s (now_caller i (Returned kid (Inl ErrKeySetUnavailable) (clock s) (fetchedAt (cache s))) s)"
| moves: "0 < t \<Longrightarrow> system_step p s (s\<lparr>clock := t\<rparr>)"

inductive reachable :: "platform \<Rightarrow> system \<Rightarrow> bool" for p where
  initial: "0 < t \<Longrightarrow> reachable p (start_system src stale t)"
| further: "reachable p s \<Longrightarrow> system_step p s s' \<Longrightarrow> reachable p s'"

section \<open>The invariant\<close>

fun spaced :: "time list \<Rightarrow> bool" where
  "spaced (t # u # ts) \<longleftrightarrow> MinRefreshInterval \<le> t - u \<and> spaced (u # ts)"
| "spaced ts \<longleftrightarrow> True"

definition running_ok :: "system \<Rightarrow> bool" where
  "running_ok s \<longleftrightarrow>
     running s = (case inflight (cache s) of None \<Rightarrow> [] | Some d \<Rightarrow> [(d, jwksURI (cache s))]) \<and>
     (\<forall>d. inflight (cache s) = Some d \<longrightarrow> d < fresh s) \<and>
     (\<forall>i kid d. callers s i = Some (Waiting kid d) \<longrightarrow> d < fresh s)"

definition fetch_times_ok :: "system \<Rightarrow> bool" where
  "fetch_times_ok s \<longleftrightarrow>
     0 < clock s \<and> spaced (fetch_times s) \<and> (\<forall>t \<in> set (fetch_times s). 0 < t) \<and>
     lastAttempt (cache s) = (case fetch_times s of [] \<Rightarrow> 0 | t # _ \<Rightarrow> t)"

text \<open>An answer with keys: keys of that kid, fetched less than \<open>maxStale\<close> before.\<close>

definition answer_ok :: "duration \<Rightarrow> caller \<Rightarrow> bool" where
  "answer_ok stale x \<longleftrightarrow>
     (case x of
        Returned kid (Inr ks) now at \<Rightarrow> ks \<noteq> [] \<and> (\<forall>k \<in> set ks. key_ok kid k) \<and> now < at + stale
      | Returned kid (Inl e) now at \<Rightarrow> e = ErrUnknownKey \<or> e = ErrKeySetUnavailable
      | _ \<Rightarrow> True)"

definition system_ok :: "system \<Rightarrow> bool" where
  "system_ok s \<longleftrightarrow> cache_ok (cache s) \<and> running_ok s \<and> fetch_times_ok s \<and>
     (\<forall>i x. callers s i = Some x \<longrightarrow> answer_ok (maxStale (cache s)) x)"

lemma start_system_ok: "0 < t \<Longrightarrow> system_ok (start_system src stale t)"
  by (simp add: system_ok_def start_system_def running_ok_def fetch_times_ok_def new_cache_def
      cache_ok_def)

lemma now_caller_simps [simp]:
  "cache (now_caller i x s) = cache s" "clock (now_caller i x s) = clock s"
  "running (now_caller i x s) = running s" "fresh (now_caller i x s) = fresh s"
  "fetch_times (now_caller i x s) = fetch_times s" "callers (now_caller i x s) = (callers s)(i \<mapsto> x)"
  by (simp_all add: now_caller_def)

text \<open>Changing what one caller does keeps the invariant when the new state of it is in order.\<close>

lemma now_caller_ok:
  assumes "system_ok s" and "answer_ok (maxStale (cache s)) x" and "\<And>kid d. x = Waiting kid d \<Longrightarrow> d < fresh s"
  shows "system_ok (now_caller i x s)"
  using assms by (auto simp: system_ok_def running_ok_def fetch_times_ok_def cong: option.case_cong)

lemma cached_keys_ok: "cache_ok c \<Longrightarrow> k \<in> set (cached_keys c kid) \<Longrightarrow> key_ok kid k"
  by (cases "cached c"; cases "gomap_get (the (cached c)) kid")
     (auto simp: cache_ok_def cached_keys_def keys_with_def key_set_ok_def)

lemma section_wait:
  assumes "lookup_section ch now kid fetched c = (Wait d, c')"
  shows "inflight c = Some d \<and> c' = c \<or>
    inflight c = None \<and> d = ch \<and> c' = startFetchLocked ch now c \<and> mayFetchLocked c now \<and> \<not> fetched"
  using assms by (auto simp: lookup_section_def Let_def split: if_splits option.splits)

lemma cache_step_ok: "cache_step p s s' \<Longrightarrow> system_ok s \<Longrightarrow> system_ok s'"
proof (induction rule: cache_step.induct)
  case (answers s i kid fetched r c)
  have "answer_ok (maxStale (cache s)) (Returned kid r (clock s) (fetchedAt c))"
    using section_answer [OF answers(2)] answers(3) cached_keys_ok [of "cache s"]
    by (cases r) (auto simp: answer_ok_def missLocked_def usableLocked_def before_def system_ok_def)
  with answers(3) show ?case by (auto intro: now_caller_ok)
next
  case (waits s i kid fetched d c)
  then show ?case by (intro now_caller_ok) (auto simp: answer_ok_def system_ok_def running_ok_def)
next
  case (starts s i kid fetched d c)
  let ?s = "s\<lparr>cache := c, running := (d, jwksURI (cache s)) # running s, fresh := Suc (fresh s),
          fetch_times := clock s # fetch_times s\<rparr>"
  have c: "d = fresh s" "c = startFetchLocked d (clock s) (cache s)" "mayFetchLocked (cache s) (clock s)"
    using section_wait [OF starts(3)] starts(2) by auto
  have "spaced (clock s # fetch_times s)"
    using starts(4) c(3)
    by (cases "fetch_times s") (auto simp: system_ok_def fetch_times_ok_def mayFetchLocked_def time_is_zero_def)
  moreover have "cache_ok c" using section_keeps(1) [OF starts(3)] starts(4) by (simp add: system_ok_def)
  ultimately have "system_ok ?s"
    using starts(4,2)
    by (fastforce simp: system_ok_def running_ok_def fetch_times_ok_def c(1,2) startFetchLocked_def less_SucI)
  then show ?case by (rule now_caller_ok) (auto simp: answer_ok_def c(1))
next
  case (wakes s i kid d)
  then show ?case by (auto intro!: now_caller_ok simp: answer_ok_def)
next
  case (finishes d uri s w uri' r w')
  have "cache_ok (finishLocked (uri \<noteq> []) uri' r (clock s) (cache s))"
    using finishes(2,3) by (intro finish_ok) (auto simp: system_ok_def dest: fetch_keys_ok)
  moreover have "filter (\<lambda>x. fst x \<noteq> d) (running s) = []"
    using finishes(1,3) by (auto simp: system_ok_def running_ok_def split: option.splits)
  ultimately show ?case
    using finishes(3) by (auto simp: system_ok_def running_ok_def fetch_times_ok_def)
qed

lemma system_step_ok: "system_step p s s' \<Longrightarrow> system_ok s \<Longrightarrow> system_ok s'"
proof (induction rule: system_step.induct)
  case (inner s s')
  then show ?case by (rule cache_step_ok)
next
  case (moves t s)
  then show ?case by (simp add: system_ok_def running_ok_def fetch_times_ok_def cong: option.case_cong)
qed (auto intro!: now_caller_ok simp: answer_ok_def)

lemma reachable_ok: "reachable p s \<Longrightarrow> system_ok s"
  by (induction rule: reachable.induct) (auto intro: start_system_ok system_step_ok)

section \<open>Every caller can be answered\<close>

definition answered :: "nat \<Rightarrow> system \<Rightarrow> bool" where
  "answered i s \<longleftrightarrow> (\<exists>kid r now at. callers s i = Some (Returned kid r now at))"

definition answerable :: "platform \<Rightarrow> nat \<Rightarrow> system \<Rightarrow> bool" where
  "answerable p i s \<longleftrightarrow> (\<exists>s'. (cache_step p)\<^sup>*\<^sup>* s s' \<and> answered i s')"

lemma answerable_step: "cache_step p s s' \<Longrightarrow> answerable p i s' \<Longrightarrow> answerable p i s"
  by (auto simp: answerable_def intro: converse_rtranclp_into_rtranclp)

lemma looking_answers:
  assumes "callers s i = Some (Looking kid fetched)"
    and "lookup_section (fresh s) (clock s) kid fetched (cache s) = (Answer r, c)"
  shows "answerable p i s"
  using cache_step.answers [OF assms, of p] by (auto simp: answerable_def answered_def)

lemma looked_again:
  assumes "callers s i = Some (Looking kid True)" and "inflight (cache s) = None"
  shows "answerable p i s"
proof -
  obtain oc c where sec: "lookup_section (fresh s) (clock s) kid True (cache s) = (oc, c)" by fastforce
  with section_wait [of "fresh s" "clock s" kid True "cache s"] assms(2) obtain r where "oc = Answer r"
    by (cases oc) auto
  with looking_answers [OF assms(1)] sec show ?thesis by blast
qed

lemma waiting_inflight:
  assumes "callers s i = Some (Waiting kid d)" and "running_ok s" and "inflight (cache s) = Some d"
  shows "answerable p i s"
proof -
  have run: "running s = [(d, jwksURI (cache s))]" using assms(2,3) by (simp add: running_ok_def)
  obtain uri r w' where f: "fetch p (kc_src (cache s)) (jwksURI (cache s)) (undefined :: env) = ((uri, r), w')"
    by (metis surj_pair)
  let ?s = "s\<lparr>cache := finishLocked (jwksURI (cache s) \<noteq> []) uri r (clock s) (cache s),
          running := filter (\<lambda>x. fst x \<noteq> d) (running s)\<rparr>"
  have "cache_step p s ?s" by (rule cache_step.finishes [OF _ f]) (simp add: run)
  moreover have "cache_step p ?s (now_caller i (Looking kid True) ?s)"
    by (rule cache_step.wakes [where d = d]) (use assms(1) in \<open>auto simp: run\<close>)
  moreover have "answerable p i (now_caller i (Looking kid True) ?s)"
    by (rule looked_again) simp_all
  ultimately show ?thesis by (blast intro: answerable_step)
qed

lemma looking_answerable:
  assumes "callers s i = Some (Looking kid fetched)" and "running_ok s"
  shows "answerable p i s"
proof -
  obtain oc c where sec: "lookup_section (fresh s) (clock s) kid fetched (cache s) = (oc, c)" by fastforce
  show ?thesis
  proof (cases oc)
    case (Answer r)
    with looking_answers [OF assms(1)] sec show ?thesis by blast
  next
    case (Wait d)
    note wait = sec [unfolded Wait]
    show ?thesis
    proof (cases "inflight (cache s)")
      case None
      let ?s = "now_caller i (Waiting kid d) (s\<lparr>cache := c, running := (d, jwksURI (cache s)) # running s,
          fresh := Suc (fresh s), fetch_times := clock s # fetch_times s\<rparr>)"
      have c: "d = fresh s" "c = startFetchLocked d (clock s) (cache s)" using section_wait [OF wait] None by auto
      have "answerable p i ?s"
        by (rule waiting_inflight)
           (use assms(2) None in \<open>auto simp: running_ok_def c startFetchLocked_def less_SucI\<close>)
      with cache_step.starts [OF assms(1) None wait] show ?thesis by (rule answerable_step)
    next
      case (Some e)
      then have d: "inflight (cache s) = Some d" using section_wait [OF wait] by auto
      have "answerable p i (now_caller i (Waiting kid d) s)"
        by (rule waiting_inflight)
           (use assms(2) d in \<open>auto simp: running_ok_def cong: option.case_cong\<close>)
      with cache_step.waits [OF assms(1) d wait] show ?thesis by (rule answerable_step)
    qed
  qed
qed

lemma waiting_answerable:
  assumes "callers s i = Some (Waiting kid d)" and "running_ok s"
  shows "answerable p i s"
proof (cases "inflight (cache s) = Some d")
  case True
  with waiting_inflight [OF assms] show ?thesis .
next
  case False
  then have "d \<notin> fst ` set (running s)" using assms(2) by (auto simp: running_ok_def split: option.splits)
  then have "cache_step p s (now_caller i (Looking kid True) s)" by (rule cache_step.wakes [OF assms(1)])
  moreover have "answerable p i (now_caller i (Looking kid True) s)"
    by (rule looking_answerable)
       (use assms(2) in \<open>auto simp: running_ok_def cong: option.case_cong\<close>)
  ultimately show ?thesis by (rule answerable_step)
qed

lemma callers_answerable:
  assumes "reachable p s" and "callers s i = Some x"
  shows "answerable p i s"
proof (cases x)
  case (Returned kid r now at)
  with assms(2) show ?thesis by (auto simp: answerable_def answered_def)
next
  case (Looking kid fetched)
  with assms reachable_ok [OF assms(1)] show ?thesis by (auto simp: system_ok_def intro: looking_answerable)
next
  case (Waiting kid d)
  with assms reachable_ok [OF assms(1)] show ?thesis by (auto simp: system_ok_def intro: waiting_answerable)
qed

end
