(* ===== verification/OidcProps.thy ===== *)
theory OidcProps
  imports Oidc KeyCacheRun
begin

text \<open>
  The properties of the OIDC verifier: what an accepted token proves and which tokens are accepted,
  the one text a token has, the key cache under concurrent callers, the end of every lookup, and
  the claims that are numbers.
\<close>

section \<open>A world in which a token is accepted\<close>

definition demo_signatures :: signatures where
  "demo_signatures =
     \<lparr>digest_of = \<lambda>h m. take 4 m, verify_pkcs1 = \<lambda>n e h d sig. sig = d, verify_pss = \<lambda>n e h d sig. False,
      verify_ecdsa = \<lambda>crv x y d r s. False\<rparr>"

definition demo_key :: jwk where
  "demo_key = \<lparr>jwk_kid = ''k1'', jwk_kty = ''RSA'', jwk_crv = [], jwk_alg = [], jwk_key = RSAKey (2 ^ 2047) 65537\<rparr>"

definition demo_source :: keySource where
  "demo_source = \<lparr>src_issuer = ''https://i'', discoveryURL = ''https://i/.well-known/openid-configuration'', urls = []\<rparr>"

definition demo_cache :: keyCache where
  "demo_cache = (new_cache demo_source DefaultMaxStale)
     \<lparr>cached := Some [(''k1'', [demo_key])], fetchedAt := unix_time 1700000000,
      expiresAt := unix_time 1700000000 + DefaultKeySetTTL, lastAttempt := unix_time 1700000000\<rparr>"

definition demo_verifier :: Verifier where
  "demo_verifier =
     \<lparr>ver_issuer = ''https://i'', ver_audiences = [''me''],
      ver_algs = [(''RS256'', \<lparr>alg_kty = ''RSA'', alg_hash = SHA256, alg_pss = False, alg_crv = '''', alg_size = 0\<rparr>)],
      ver_skew = DefaultClockSkew, ver_requireSubject = False, ver_requireJTI = False\<rparr>"

definition demo_platform :: platform where
  "demo_platform = \<lparr>url_parse = \<lambda>_. None, url_text = \<lambda>_ q. q, http_do = \<lambda>_ _. None, lower_of = \<lambda>r. r, fold_of = \<lambda>r. r,
     lenient_time = \<lambda>_. None\<rparr>"

definition demo_header :: json where
  "demo_header = JObject [(''alg'', JString ''RS256''), (''kid'', JString ''k1'')]"

definition demo_members :: "(string \<times> json) list" where
  "demo_members =
     [(''iss'', JString ''https://i''), (''aud'', JString ''me''),
      (''exp'', JNumber (decimal 1700000600)), (''iat'', JNumber (decimal 1700000000))]"

definition demo_signature :: string where
  "demo_signature = take 4 (base64_encode True (json_print demo_header) @ ''.'' @ base64_encode True (json_print (JObject demo_members)))"

definition demo_id_token :: string where
  "demo_id_token = compact (json_print demo_header) (json_print (JObject demo_members)) demo_signature"

definition demo_accepted :: VerifiedToken where
  "demo_accepted =
     \<lparr>tok_header = \<lparr>Algorithm = ''RS256'', KeyID = ''k1'', Type = []\<rparr>,
      tok_claims = \<lparr>claim_iss = ''https://i'', claim_sub = [], claim_aud = [''me''], claim_exp = unix_time 1700000600,
        claim_iat = unix_time 1700000000, claim_nbf = 0, claim_jti = []\<rparr>,
      tok_raw = demo_members\<rparr>"

abbreviation demo_world :: "keyCache world" where
  "demo_world \<equiv> calm (unix_time 1700000060) 0 demo_cache"

lemma plain_utf8: "list_all (\<lambda>c. byte c < 128) s \<Longrightarrow> utf8_valid s"
  by (rule utf8_valid_ascii) (simp add: ascii_def list_all_iff)

lemma demo_printable: "printable demo_header" "printable (JObject demo_members)"
  by (simp_all add: demo_header_def demo_members_def json_number_decimal) (intro conjI plain_utf8; simp add: byte_def)+

lemma printed_object:
  assumes "printable (JObject ms)" and "distinct_names (JObject ms)" and "json_depth (JObject ms) \<le> maxJSONDepth"
  shows "checkJSONObject (json_print (JObject ms))" "json_unmarshal (json_print (JObject ms)) = Some (JObject ms)"
  using assms utf8_json_print [OF assms(1)] json_parse_print [OF assms(1)]
  by (auto simp: checkJSONObject_iff json_unmarshal_def maxJSONDepth_def maxNestingDepth_def)

lemma demo_documents:
  "checkJSONObject (json_print demo_header)" "json_unmarshal (json_print demo_header) = Some demo_header"
  "checkJSONObject (json_print (JObject demo_members))"
  "json_unmarshal (json_print (JObject demo_members)) = Some (JObject demo_members)"
proof -
  have "distinct_names demo_header" "json_depth demo_header \<le> maxJSONDepth"
    "distinct_names (JObject demo_members)" "json_depth (JObject demo_members) \<le> maxJSONDepth"
    by (simp_all add: demo_header_def demo_members_def maxJSONDepth_def)
  then show "checkJSONObject (json_print demo_header)" "json_unmarshal (json_print demo_header) = Some demo_header"
    "checkJSONObject (json_print (JObject demo_members))"
    "json_unmarshal (json_print (JObject demo_members)) = Some (JObject demo_members)"
    using demo_printable unfolding demo_header_def by (blast intro: printed_object)+
qed

lemma demo_parsed:
  "parseHeader (json_print demo_header) = Inr (tok_header demo_accepted)"
  "decodeClaims (json_print (JObject demo_members)) = Inr (demo_members, tok_claims demo_accepted)"
proof -
  show "parseHeader (json_print demo_header) = Inr (tok_header demo_accepted)"
    by (simp only: parseHeader_def demo_documents option.case if_False not_True_eq_False)
       (simp add: demo_header_def demo_accepted_def headerString_def member_def take_string_def)
  have m: "member demo_members ''exp'' = Some (JNumber (decimal 1700000600))"
    "member demo_members ''iat'' = Some (JNumber (decimal 1700000000))"
    by (simp_all add: member_def demo_members_def)
  have "numericDate demo_members ''exp'' = Inr (unix_time (int 1700000600))"
    by (rule numericDate_whole [OF _ _ m(1)]) (simp_all add: maxNumericDate_def)
  moreover have "numericDate demo_members ''iat'' = Inr (unix_time (int 1700000000))"
    by (rule numericDate_whole [OF _ _ m(2)]) (simp_all add: maxNumericDate_def)
  ultimately show "decodeClaims (json_print (JObject demo_members)) = Inr (demo_members, tok_claims demo_accepted)"
    unfolding decodeClaims_def demo_documents
    by (simp add: stringClaim_def audienceClaim_def numericDate_absent demo_accepted_def)
       (simp add: member_def demo_members_def numericDate_absent)
qed

lemma bitLen_power: "bitLen (2 ^ k) = Suc k"
  by (induction k) (simp_all add: bitLen.simps [of "2 * _"] bitLen.simps [of "Suc 0"] bitLen.simps [of 0])

lemma exponent_limit: "(65537 :: int) < 2 ^ 31" "\<not> (2 :: int) ^ 31 < 65538"
  by simp_all

lemma demo_cache_ok: "cache_ok demo_cache"
proof -
  have "key_ok ''k1'' demo_key"
    using bitLen_power [of 2047] exponent_limit
    by (simp add: key_ok_def demo_key_def minRSABits_def maxRSABits_def del: power_numeral)
  moreover have "expiresAt demo_cache \<le> fetchedAt demo_cache + maxStale demo_cache"
    by (simp add: demo_cache_def new_cache_def ttl_constants)
  ultimately show ?thesis
    by (simp add: cache_ok_def demo_cache_def key_set_ok_def gomap_get_def)
qed

lemma quote_plain: "list_all (\<lambda>c. byte c < 128 \<and> escape_byte c = [c]) s \<Longrightarrow> quote_body s = s"
  by (induction s) (simp_all add: quote_body.simps)

lemma demo_quotes:
  "quote_body ''alg'' = ''alg''" "quote_body ''RS256'' = ''RS256''" "quote_body ''kid'' = ''kid''" "quote_body ''k1'' = ''k1''"
  "quote_body ''iss'' = ''iss''" "quote_body ''https://i'' = ''https://i''" "quote_body ''aud'' = ''aud''"
  "quote_body ''me'' = ''me''" "quote_body ''exp'' = ''exp''" "quote_body ''iat'' = ''iat''"
  by (rule quote_plain; simp add: escape_byte_def byte_def)+

lemma demo_lengths:
  "length (json_print demo_header) = 26" "length (json_print (JObject demo_members)) \<le> 67"
proof -
  show "length (json_print demo_header) = 26" by (simp add: demo_header_def json_quote_def demo_quotes)
  have "length (decimal 1700000600) \<le> 10" "length (decimal 1700000000) \<le> 10"
    by (rule decimal_length_le; simp)+
  then show "length (json_print (JObject demo_members)) \<le> 67"
    by (simp add: demo_members_def json_quote_def demo_quotes)
qed

lemma demo_authentic: "authentic demo_signatures demo_verifier demo_id_token demo_key demo_accepted"
proof -
  let ?in = "base64_encode True (json_print demo_header) @ ''.'' @ base64_encode True (json_print (JObject demo_members))"
  have "length demo_id_token \<le> MaxTokenBytes"
    using demo_lengths by (simp add: demo_id_token_def compact_def length_base64_encode demo_signature_def MaxTokenBytes_def)
  moreover have "signed demo_signatures (the (gomap_get (ver_algs demo_verifier) ''RS256'')) (jwk_key demo_key) ?in demo_signature"
    by (simp add: signed_def demo_signatures_def demo_key_def demo_verifier_def gomap_get_def demo_signature_def)
  moreover have "demo_signature \<noteq> []"
    using demo_lengths(1) length_base64_encode [of True "json_print demo_header"] by (auto simp: demo_signature_def)
  ultimately show ?thesis
    using demo_parsed demo_documents
    unfolding authentic_def demo_id_token_def
    by (intro exI [of _ "json_print demo_header"] exI [of _ "json_print (JObject demo_members)"]
        exI [of _ demo_signature] exI [of _ "the (gomap_get (ver_algs demo_verifier) ''RS256'')"])
       (simp add: demo_verifier_def gomap_get_def demo_accepted_def usableWith_def demo_key_def del: json_print.simps)
qed

lemma demo_verified: "Verify demo_platform demo_signatures demo_verifier demo_id_token demo_world =
    (Inr demo_accepted, tick (tick demo_world))"
proof -
  obtain jws alg where j: "parseCompact demo_id_token = Inr jws" "header jws = tok_header demo_accepted"
    "gomap_get (ver_algs demo_verifier) (Algorithm (tok_header demo_accepted)) = Some alg"
    "signed demo_signatures alg (jwk_key demo_key) (signingInput jws) (signature jws)"
    "decodeClaims (payload jws) = Inr (tok_raw demo_accepted, tok_claims demo_accepted)"
    by (rule authentic_parsed [OF demo_authentic])
  have "find (\<lambda>k. usableWith k (Algorithm (header jws)) alg) (cached_keys (store demo_world) (KeyID (header jws))) = Some demo_key"
    using j(3) by (auto simp: j(2) demo_accepted_def demo_cache_def cached_keys_def keys_with_def gomap_get_def
        usableWith_def demo_key_def demo_verifier_def)
  moreover have "clk demo_world (pos demo_world) < expiresAt (store demo_world)"
    by (simp add: calm_def demo_cache_def unix_time_def second_def ttl_constants)
  moreover have "claims_valid demo_verifier (tok_claims demo_accepted) (unix_time 1700000060)"
    by (simp add: claims_valid_def demo_verifier_def demo_accepted_def unix_time_def second_def DefaultClockSkew_def)
  then have "validate demo_verifier (tok_claims demo_accepted) (tick demo_world) = (Inr (), tick (tick demo_world))"
    by (simp add: validate_Inr) (simp add: calm_def)
  ultimately show ?thesis
    using verify_fresh [OF j(1) _ _ _ _ j(4,5), of demo_verifier demo_world demo_platform] j(2,3) demo_cache_ok
    by simp
qed

section \<open>Verification\<close>

text \<open>C3: an accepted token was signed, under an algorithm the verifier allows and the key fits, by a
  well-formed key of the issuer's key set that has the token's kid and was fetched less than
  \<open>MaxStale\<close> before; its text decodes strictly to its header and claims; and its issuer, audience
  and times are the ones the verifier requires at a moment of the call.\<close>

theorem oidc_verify_sound:
  assumes "Verify p sg v raw w = (Inr tok, w')" and "cache_ok (store w)"
  shows "\<exists>k t now. k \<in> set (cached_keys (store w') (KeyID (tok_header tok))) \<and> key_ok (KeyID (tok_header tok)) k \<and>
    read_between w t w' \<and> t < fetchedAt (store w') + maxStale (store w') \<and>
    authentic sg v raw k tok \<and> read_between w now w' \<and> claims_valid v (tok_claims tok) now"
proof -
  obtain k w1 where *: "cache_trusts w w1 (KeyID (tok_header tok)) k" "authentic sg v raw k tok"
    "claims_valid v (tok_claims tok) (clk w (pos w1))" "env_le w w1" "w' = tick w1"
    by (rule kc.verify_sound [OF assms [unfolded Verify_def]])
  have "read_between w (clk w (pos w1)) w'"
    using *(4,5) by (auto simp: read_between_def env_le_def tick_def)
  moreover have "read_between w t w'" if "read_between w t w1" for t
    using that *(5) by (auto intro: read_between_mono)
  moreover have "store w' = store w1" using *(5) by simp
  ultimately show ?thesis using *(1-3) unfolding cache_trusts_def by metis
qed

lemma oidc_verify_sound_witness:
  "\<exists>k t now. k \<in> set (cached_keys demo_cache ''k1'') \<and> key_ok ''k1'' k \<and>
    read_between demo_world t (tick (tick demo_world)) \<and> t < fetchedAt demo_cache + maxStale demo_cache \<and>
    authentic demo_signatures demo_verifier demo_id_token k demo_accepted \<and>
    read_between demo_world now (tick (tick demo_world)) \<and>
    claims_valid demo_verifier (tok_claims demo_accepted) now"
  using oidc_verify_sound [OF demo_verified] demo_cache_ok by (simp add: demo_accepted_def)

text \<open>The algorithms of RFC 7518, section 3.1, written out: what a signature under the name \<open>name\<close> is,
  without the table of the code. Nothing verifies under another name, \<open>none\<close> and \<open>HS256\<close> among them.\<close>

definition rfc7518_verifies :: "signatures \<Rightarrow> string \<Rightarrow> PublicKey \<Rightarrow> string \<Rightarrow> string \<Rightarrow> bool" where
  "rfc7518_verifies sg name key input sig \<longleftrightarrow>
     (\<exists>n e h. key = RSAKey n e \<and> 2048 \<le> bitLen n \<and>
        ((name, h) \<in> {(''RS256'', SHA256), (''RS384'', SHA384), (''RS512'', SHA512)} \<and>
           verify_pkcs1 sg n e h (digest_of sg h input) sig \<or>
         (name, h) \<in> {(''PS256'', SHA256), (''PS384'', SHA384), (''PS512'', SHA512)} \<and>
           verify_pss sg n e h (digest_of sg h input) sig)) \<or>
     (\<exists>crv cv x y h size r s. key = ECKey crv x y \<and>
        (name, crv, cv, h, size) \<in> {(''ES256'', ''P-256'', P256, SHA256, 32), (''ES384'', ''P-384'', P384, SHA384, 48),
           (''ES512'', ''P-521'', P521, SHA512, 66)} \<and>
        on_curve cv x y \<and> sig = r @ s \<and> length r = size \<and> length s = size \<and>
        verify_ecdsa sg crv x y (digest_of sg h input) (be_nat r) (be_nat s))"

lemma supported_cases [consumes 1, case_names rsa ec]:
  assumes "gomap_get supportedAlgorithms name = Some a"
  obtains h pss where "a = \<lparr>alg_kty = ''RSA'', alg_hash = h, alg_pss = pss, alg_crv = [], alg_size = 0\<rparr>"
      and "(name, h) \<in> (if pss then {(''PS256'', SHA256), (''PS384'', SHA384), (''PS512'', SHA512)}
        else {(''RS256'', SHA256), (''RS384'', SHA384), (''RS512'', SHA512)})"
  | h crv cv size where "a = \<lparr>alg_kty = ''EC'', alg_hash = h, alg_pss = False, alg_crv = crv, alg_size = size\<rparr>"
      and "(name, crv, cv, h, size) \<in> {(''ES256'', ''P-256'', P256, SHA256, 32), (''ES384'', ''P-384'', P384, SHA384, 48),
        (''ES512'', ''P-521'', P521, SHA512, 66)}" and "curve_named crv = Some cv"
proof -
  have curves: "curve_named ''P-256'' = Some P256" "curve_named ''P-384'' = Some P384" "curve_named ''P-521'' = Some P521"
    by (simp_all add: curve_named_def)
  have "(name, a) \<in> set supportedAlgorithms" using assms by (simp add: gomap_get_map_of map_of_SomeD)
  then show thesis
    unfolding supportedAlgorithms_def list.set insert_iff empty_iff prod.inject
    by (elim disjE conjE FalseE) (rule that(1), assumption, simp | rule that(2), assumption, simp, simp add: curves)+
qed

lemma signed_rfc7518:
  assumes "key_ok kid k" and "usableWith k name a" and "gomap_get supportedAlgorithms name = Some a"
    and "signed sg a (jwk_key k) input sig"
  shows "rfc7518_verifies sg name (jwk_key k) input sig"
  using assms(3)
proof (cases rule: supported_cases)
  case (rsa h pss)
  have kty: "jwk_kty k = ''RSA''" using assms(2) rsa(1) by (simp add: usableWith_def split: if_splits)
  obtain n e where k: "jwk_key k = RSAKey n e" "2048 \<le> bitLen n"
    using assms(1) kty by (cases "jwk_key k") (simp_all add: key_ok_def minRSABits_def)
  have "(if pss then verify_pss else verify_pkcs1) sg n e h (digest_of sg h input) sig"
    using assms(4) by (simp add: signed_def k(1) rsa(1))
  with k rsa(2) show ?thesis unfolding rfc7518_verifies_def
    by (intro disjI1 exI [of _ n] exI [of _ e] exI [of _ h]) (simp split: if_splits)
next
  case (ec h crv cv size)
  have kty: "jwk_kty k = ''EC''" "jwk_crv k = crv" using assms(2) ec(1) by (simp_all add: usableWith_def split: if_splits)
  obtain x y where k: "jwk_key k = ECKey crv x y" "on_curve cv x y"
    using assms(1) kty ec(3) by (cases "jwk_key k") (auto simp: key_ok_def)
  obtain r s where "length r = size" "length s = size" "sig = r @ s"
    "verify_ecdsa sg crv x y (digest_of sg h input) (be_nat r) (be_nat s)"
    using assms(4) by (auto simp: signed_def k(1) ec(1))
  then show ?thesis unfolding rfc7518_verifies_def using k ec(2) by (intro disjI2 exI conjI) assumption+
qed

text \<open>C4: a token that a configured verifier accepts carries one of the algorithms it was configured with
  (RS256 if none was named), and its signature is one of RFC 7518 under that very name, by a key of the
  issuer's set: for an RS or PS name an RSA key of at least 2048 bits with the name's padding and digest,
  for ES256, ES384 and ES512 a point of P-256, P-384 and P-521 with the name's digest and length of
  signature. If the key names an algorithm of its own, it is the token's.\<close>

theorem oidc_no_confusion:
  assumes "NewVerifier p cfg = Inr (v, c)" and "Verify q sg v raw w = (Inr tok, w')" and "cache_ok (store w)"
  shows "Algorithm (tok_header tok) \<in> set (if cfg_Algorithms cfg = [] then [''RS256''] else cfg_Algorithms cfg) \<and>
    (\<exists>k h body sig. k \<in> set (cached_keys (store w') (KeyID (tok_header tok))) \<and> raw = compact h body sig \<and>
      parseHeader h = Inr (tok_header tok) \<and> decodeClaims body = Inr (tok_raw tok, tok_claims tok) \<and>
      (jwk_alg k = [] \<or> jwk_alg k = Algorithm (tok_header tok)) \<and>
      rfc7518_verifies sg (Algorithm (tok_header tok)) (jwk_key k) (base64_encode True h @ ''.'' @ base64_encode True body) sig)"
proof -
  obtain k w1 where *: "cache_trusts w w1 (KeyID (tok_header tok)) k" "authentic sg v raw k tok" "w' = tick w1"
    by (rule kc.verify_sound [OF assms(2,3) [unfolded Verify_def]])
  then have k: "k \<in> set (cached_keys (store w') (KeyID (tok_header tok)))" "key_ok (KeyID (tok_header tok)) k"
    by (auto simp: cache_trusts_def)
  obtain h body sig alg where a: "raw = compact h body sig" "parseHeader h = Inr (tok_header tok)"
    "gomap_get (ver_algs v) (Algorithm (tok_header tok)) = Some alg" "usableWith k (Algorithm (tok_header tok)) alg"
    "signed sg alg (jwk_key k) (base64_encode True h @ ''.'' @ base64_encode True body) sig"
    "decodeClaims body = Inr (tok_raw tok, tok_claims tok)"
    using *(2) by (auto simp: authentic_def)
  note n = NewVerifier_algs [OF assms(1) a(3)]
  have own: "jwk_alg k = [] \<or> jwk_alg k = Algorithm (tok_header tok)" using a(4) by (auto simp: usableWith_def split: if_splits)
  show ?thesis using n(2) k(1) a(1,2,6) own signed_rfc7518 [OF k(2) a(4) n(1) a(5)] by blast
qed

text \<open>C5: every token that is authentic under the first fitting key of a fresh cached key set, and whose
  claims are valid when they are checked, is accepted with those claims.\<close>

theorem oidc_verify_accepts:
  assumes "authentic sg v raw k tok"
    and "gomap_get (ver_algs v) (Algorithm (tok_header tok)) = Some alg"
    and "find (\<lambda>k. usableWith k (Algorithm (tok_header tok)) alg) (cached_keys (store w) (KeyID (tok_header tok))) = Some k"
    and "clk w (pos w) < expiresAt (store w)" and "cache_ok (store w)"
    and "claims_valid v (tok_claims tok) (clk w (Suc (pos w)))"
  shows "Verify p sg v raw w = (Inr tok, tick (tick w))"
proof -
  obtain jws where j: "parseCompact raw = Inr jws" "header jws = tok_header tok"
    "signed sg alg (jwk_key k) (signingInput jws) (signature jws)"
    "decodeClaims (payload jws) = Inr (tok_raw tok, tok_claims tok)"
    by (rule authentic_parsed [OF assms(1)]) (use assms(2) in simp)
  have "validate v (tok_claims tok) (tick w) = (Inr (), tick (tick w))"
    using assms(6) by (simp add: validate_Inr tick_def)
  with verify_fresh [OF j(1) _ _ assms(4,5) j(3,4)] j(2) assms(2,3) show ?thesis by simp
qed

lemma oidc_verify_accepts_witness:
  "Verify demo_platform demo_signatures demo_verifier demo_id_token demo_world = (Inr demo_accepted, tick (tick demo_world))"
proof (rule oidc_verify_accepts [OF demo_authentic])
  show "gomap_get (ver_algs demo_verifier) (Algorithm (tok_header demo_accepted)) =
      Some \<lparr>alg_kty = ''RSA'', alg_hash = SHA256, alg_pss = False, alg_crv = [], alg_size = 0\<rparr>"
    by (simp add: demo_verifier_def demo_accepted_def gomap_get_def)
  show "find (\<lambda>k. usableWith k (Algorithm (tok_header demo_accepted))
        \<lparr>alg_kty = ''RSA'', alg_hash = SHA256, alg_pss = False, alg_crv = [], alg_size = 0\<rparr>)
      (cached_keys (store demo_world) (KeyID (tok_header demo_accepted))) = Some demo_key"
    by (simp add: demo_accepted_def demo_cache_def cached_keys_def keys_with_def gomap_get_def usableWith_def demo_key_def)
  show "clk demo_world (pos demo_world) < expiresAt (store demo_world)"
    by (simp add: calm_def demo_cache_def unix_time_def second_def ttl_constants)
  show "cache_ok (store demo_world)" using demo_cache_ok by simp
  show "claims_valid demo_verifier (tok_claims demo_accepted) (clk demo_world (Suc (pos demo_world)))"
    by (simp add: calm_def claims_valid_def demo_verifier_def demo_accepted_def unix_time_def second_def DefaultClockSkew_def)
qed

definition demo_oidc_config :: Config where
  "demo_oidc_config = \<lparr>cfg_Issuer = ''https://i'', cfg_Audiences = [''me''], cfg_Algorithms = [], cfg_ClockSkew = 0,
     cfg_RequireSubject = False, cfg_RequireJTI = False, cfg_MaxStale = 0, cfg_InsecureHosts = []\<rparr>"

definition https_platform :: platform where
  "https_platform = demo_platform\<lparr>url_parse := \<lambda>s. Some \<lparr>Scheme = ''https'', Opaque = [], HasUser = False,
     Host = ''i'', Hostname = ''i'', RawQuery = [], ForceQuery = False, Fragment = []\<rparr>\<rparr>"

lemma demo_configured: "NewVerifier https_platform demo_oidc_config = Inr (demo_verifier, new_cache demo_source DefaultMaxStale)"
  by (simp add: NewVerifier_def url_check_def https_platform_def demo_oidc_config_def demo_verifier_def demo_source_def
      allowList_def supportedAlgorithms_def gomap_get_def gomap_set_def trim_slash_def)

lemma oidc_no_confusion_witness:
  "Verify demo_platform demo_signatures demo_verifier demo_id_token demo_world = (Inr demo_accepted, tick (tick demo_world)) \<and>
   Algorithm (tok_header demo_accepted) = ''RS256'' \<and>
   (\<exists>k input sig. k \<in> set (cached_keys demo_cache ''k1'') \<and> rfc7518_verifies demo_signatures ''RS256'' (jwk_key k) input sig)"
proof -
  have "cache_ok (store demo_world)" using demo_cache_ok by simp
  from oidc_no_confusion [OF demo_configured demo_verified this] have
    "Algorithm (tok_header demo_accepted) = ''RS256''"
    "\<exists>k input sig. k \<in> set (cached_keys demo_cache ''k1'') \<and> rfc7518_verifies demo_signatures ''RS256'' (jwk_key k) input sig"
    by (auto simp: demo_oidc_config_def demo_accepted_def)
  with demo_verified show ?thesis by blast
qed

text \<open>C22: an error about a claim (issuer, audience, expiry, validity, a missing claim) is only reported
  for a token whose signature was verified with a trusted key: the claims of a forged token are not
  even looked at.\<close>

theorem oidc_claims_after_signature:
  assumes "Verify p sg v raw w = (Inl e, w')" and "cache_ok (store w)" and "claim_error e"
  shows "\<exists>jws alg w1 k. parseCompact raw = Inr jws \<and> gomap_get (ver_algs v) (Algorithm (header jws)) = Some alg \<and>
    cache_trusts w w1 (KeyID (header jws)) k \<and> usableWith k (Algorithm (header jws)) alg \<and>
    signed sg alg (jwk_key k) (signingInput jws) (signature jws)"
  using assms unfolding Verify_def by (rule kc.verify_claim_error)

definition late_world :: "keyCache world" where
  "late_world = calm (unix_time 1700003000) 0 demo_cache"

lemma late_token: "Verify demo_platform demo_signatures demo_verifier demo_id_token late_world =
    (Inl ErrTokenExpired, tick (tick late_world))"
proof -
  obtain jws alg where j: "parseCompact demo_id_token = Inr jws" "header jws = tok_header demo_accepted"
    "gomap_get (ver_algs demo_verifier) (Algorithm (tok_header demo_accepted)) = Some alg"
    "signed demo_signatures alg (jwk_key demo_key) (signingInput jws) (signature jws)"
    "decodeClaims (payload jws) = Inr (tok_raw demo_accepted, tok_claims demo_accepted)"
    by (rule authentic_parsed [OF demo_authentic])
  have "find (\<lambda>k. usableWith k (Algorithm (header jws)) alg) (cached_keys (store late_world) (KeyID (header jws))) = Some demo_key"
    using j(3) by (auto simp: j(2) late_world_def demo_accepted_def demo_cache_def cached_keys_def keys_with_def gomap_get_def
        usableWith_def demo_key_def demo_verifier_def)
  moreover have "clk late_world (pos late_world) < expiresAt (store late_world)"
    by (simp add: late_world_def calm_def demo_cache_def unix_time_def second_def ttl_constants)
  moreover have "validate demo_verifier (tok_claims demo_accepted) (tick late_world) = (Inl ErrTokenExpired, tick (tick late_world))"
    by (simp add: validate_def late_world_def demo_verifier_def demo_accepted_def time_is_zero_def before_def
        unix_time_def second_def DefaultClockSkew_def)
  ultimately show ?thesis
    using verify_fresh [OF j(1) _ _ _ _ j(4,5), of demo_verifier late_world demo_platform] j(2,3) demo_cache_ok
    by (simp add: late_world_def)
qed

lemma oidc_claims_after_signature_witness:
  "\<exists>jws alg w1 k. parseCompact demo_id_token = Inr jws \<and> gomap_get (ver_algs demo_verifier) (Algorithm (header jws)) = Some alg \<and>
    cache_trusts late_world w1 (KeyID (header jws)) k \<and> usableWith k (Algorithm (header jws)) alg \<and>
    signed demo_signatures alg (jwk_key k) (signingInput jws) (signature jws)"
  by (rule oidc_claims_after_signature [OF late_token])
     (simp_all add: late_world_def demo_cache_ok claim_error_def)

section \<open>Strict parsing\<close>

text \<open>C20: a token has one text: two texts that parse with the same signing input and the same signature
  are equal, and a text parses to the bytes it is the canonical encoding of.\<close>

theorem oidc_one_serialization:
  assumes "parseCompact a = Inr i" and "parseCompact b = Inr j"
    and "signingInput i = signingInput j" and "signature i = signature j"
  shows "a = b \<and> i = j \<and> (\<exists>h. a = compact h (payload i) (signature i) \<and> parseHeader h = Inr (header i))"
proof -
  obtain h where h: "a = compact h (payload i) (signature i)" "parseHeader h = Inr (header i)"
    "signingInput i = base64_encode True h @ ''.'' @ base64_encode True (payload i)"
    by (rule parseCompact_inverse [OF assms(1)])
  obtain k where k: "b = compact k (payload j) (signature j)" "parseHeader k = Inr (header j)"
    "signingInput j = base64_encode True k @ ''.'' @ base64_encode True (payload j)"
    by (rule parseCompact_inverse [OF assms(2)])
  have "a = signingInput i @ ''.'' @ base64_encode True (signature i)"
    "b = signingInput j @ ''.'' @ base64_encode True (signature j)" using h k by (simp_all add: compact_def)
  then have "a = b" using assms(3,4) by simp
  with assms h show ?thesis by auto
qed

lemma oidc_one_serialization_witness:
  "\<exists>jws h. parseCompact demo_id_token = Inr jws \<and> demo_id_token = compact h (payload jws) (signature jws)"
proof -
  obtain jws where "parseCompact demo_id_token = Inr jws" by (rule authentic_parsed [OF demo_authentic])
  with oidc_one_serialization [OF this this] show ?thesis by blast
qed

text \<open>C21: the walk over the tokens of a JSON text accepts exactly the UTF-8 objects without a repeated name at
  any depth and with at most 32 levels.\<close>

theorem oidc_strict_objects:
  "checkJSONObject b = (utf8_valid b \<and>
     (\<exists>ms. json_parse b = Some (JObject ms) \<and> distinct_names (JObject ms) \<and> json_depth (JObject ms) \<le> 32))"
  by (simp only: checkJSONObject_iff maxJSONDepth_def)

section \<open>The key cache\<close>

text \<open>C15: however callers and fetches interleave and however the clock moves: at most one fetch runs, two
  fetches start at least \<open>MinRefreshInterval\<close> apart, a set is never fresh after it stopped being
  usable, and keys are only returned less than \<open>MaxStale\<close> after their set was fetched, for their own
  kid, and each of them well-formed.\<close>

theorem oidc_cache_invariant:
  assumes "reachable p s"
  shows "length (running s) \<le> 1 \<and> spaced (fetch_times s) \<and>
    (\<forall>keys. cached (cache s) = Some keys \<longrightarrow> key_set_ok keys \<and> expiresAt (cache s) \<le> fetchedAt (cache s) + maxStale (cache s)) \<and>
    (\<forall>i kid ks now at. callers s i = Some (Returned kid (Inr ks) now at) \<longrightarrow>
       ks \<noteq> [] \<and> (\<forall>k \<in> set ks. key_ok kid k) \<and> now < at + maxStale (cache s))"
  using reachable_ok [OF assms]
  by (fastforce simp: system_ok_def running_ok_def fetch_times_ok_def cache_ok_def answer_ok_def split: option.splits)

definition one_caller :: system where
  "one_caller = now_caller 0 (Looking ''k1'' False) (start_system demo_source DefaultMaxStale 1)"

lemma one_caller_reachable: "reachable p one_caller"
  unfolding one_caller_def
  by (rule reachable.further [OF reachable.initial system_step.enters]) (simp_all add: start_system_def)

definition one_fetch :: system where
  "one_fetch = now_caller 0 (Waiting ''k1'' 0)
     (one_caller\<lparr>cache := startFetchLocked 0 1 (new_cache demo_source DefaultMaxStale), running := [(0, [])],
        fresh := 1, fetch_times := [1]\<rparr>)"

lemma one_fetch_reachable: "reachable p one_fetch"
proof (rule reachable.further [OF one_caller_reachable system_step.inner])
  have sec: "lookup_section (fresh one_caller) (clock one_caller) ''k1'' False (cache one_caller) =
      (Wait 0, startFetchLocked 0 1 (new_cache demo_source DefaultMaxStale))"
    by (simp add: one_caller_def start_system_def lookup_section_def new_cache_def usableLocked_def mayFetchLocked_def
        time_is_zero_def)
  show "cache_step p one_caller one_fetch"
    using cache_step.starts [OF _ _ sec, of 0 p]
    by (simp add: one_fetch_def one_caller_def start_system_def new_cache_def)
qed

lemma oidc_cache_invariant_witness: "length (running one_fetch) \<le> 1 \<and> spaced (fetch_times one_fetch)"
  using oidc_cache_invariant [OF one_fetch_reachable] by blast

text \<open>C23: no caller is stuck: from every reachable state each caller that has not been answered can be, by
  steps of the callers and the fetch alone, whatever the issuer answers.\<close>

theorem oidc_callers_answered:
  assumes "reachable p s" and "callers s i = Some x"
  shows "\<exists>s'. (cache_step p)\<^sup>*\<^sup>* s s' \<and> (\<exists>kid r now at. callers s' i = Some (Returned kid r now at))"
  using callers_answerable [OF assms] by (simp add: answerable_def answered_def)

lemma oidc_callers_answered_witness:
  "\<exists>s'. (cache_step demo_platform)\<^sup>*\<^sup>* one_fetch s' \<and> (\<exists>kid r now at. callers s' 0 = Some (Returned kid r now at))"
  by (rule oidc_callers_answered [OF one_fetch_reachable]) (simp add: one_fetch_def)

text \<open>C24: a lookup always ends, after at most one fetch: whatever the cache holds and the issuer answers, it
  takes at most six readings of the surroundings, two of the clock by the caller, one of its
  context, two requests and the clock at the end of the fetch.\<close>

theorem oidc_lookup_terminates: "pos (snd (lookup p kid w)) \<le> pos w + 6"
  by (rule lookup_pos)

section \<open>Key sets\<close>

text \<open>C39: the keys a JWK Set gives a kid are the usable ones among its members with that kid, in the order
  of the document, and every key used later is well-formed: filed under its own kid, of a type that
  fits its value, an RSA modulus of 2048 to 8192 bits with an odd exponent of at least 3, or a point
  on its curve, and with no algorithm pinned that does not fit.\<close>

theorem oidc_key_sets:
  assumes "parseJWKS p b = Some keys"
  shows "key_set_ok keys \<and>
    (\<exists>ms raws. checkJSONObject b \<and> json_unmarshal b = Some (JObject ms) \<and>
       fill take_raw_list (fold_of p) ''keys'' [] ms = Some raws \<and>
       (\<forall>kid. keys_with keys kid = filter (\<lambda>k. jwk_kid k = kid) (usable_keys p raws)))"
proof -
  from assms obtain ms raws where *: "checkJSONObject b" "json_unmarshal b = Some (JObject ms)"
    "fill take_raw_list (fold_of p) ''keys'' [] ms = Some raws" "keys = collect_keys p raws []"
    by (auto simp: parseJWKS_def Let_def split: if_splits option.splits json.splits)
  have "keys_with keys kid = filter (\<lambda>k. jwk_kid k = kid) (usable_keys p raws)" for kid
    unfolding *(4) keys_with_def collect_keys_get by (simp split: list.splits)
  with parseJWKS_ok [OF assms] * show ?thesis by blast
qed

definition demo_modulus :: string where
  "demo_modulus = chr 128 # replicate 255 (chr 0)"

definition demo_jwk :: "(string \<times> json) list" where
  "demo_jwk =
     [(''kty'', JString ''RSA''), (''kid'', JString ''k1''), (''n'', JString (base64_encode True demo_modulus)),
      (''e'', JString (base64_encode True [chr 1, chr 0, chr 1]))]"

definition demo_key_set :: "(string \<times> json) list" where
  "demo_key_set = [(''keys'', JArray [JObject demo_jwk, JObject [(''kty'', JString ''oct'')]])]"

lemma be_nat_zeros: "be_nat (c # replicate k (chr 0)) = byte c * 256 ^ k"
proof -
  have "foldl (\<lambda>n c. 256 * n + byte c) m (replicate k (chr 0)) = m * 256 ^ k" for m
    by (induction k arbitrary: m) simp_all
  then show ?thesis by (simp add: be_nat_def)
qed

lemma base64_utf8: "utf8_valid (base64_encode url b)"
proof (rule utf8_valid_ascii)
  show "ascii (base64_encode url b)"
    using base64_encode_alphabet [of _ url b] by (fastforce simp: ascii_def sym64_ok_def val64_def Let_def split: if_splits)
qed

lemma demo_jwk_key: "unmarshal_rawJWK demo_platform (JObject demo_jwk) =
    Some \<lparr>Kty = ''RSA'', Kid = ''k1'', Use = [], Alg = [], KeyOps = None, RawN = base64_encode True demo_modulus,
      RawE = base64_encode True [chr 1, chr 0, chr 1], Crv = [], RawX = [], RawY = []\<rparr>"
  by (simp add: unmarshal_rawJWK_def demo_jwk_def fold_eq upper_rune_def byte_def take_string_def del: base64_encode_inject)

lemma demo_usable: "usable_keys demo_platform [JObject demo_jwk, JObject [(''kty'', JString ''oct'')]] = [demo_key]"
proof -
  have n: "be_nat demo_modulus = 2 ^ 2047" unfolding demo_modulus_def be_nat_zeros by simp
  have "decodeSegment (base64_encode True demo_modulus) = Some demo_modulus"
    "decodeSegment (base64_encode True [chr 1, chr 0, chr 1]) = Some [chr 1, chr 0, chr 1]"
    by (simp_all add: decodeSegment_iff demo_modulus_def)
  moreover have "be_nat [chr 1, chr 0, chr 1] = 65537" by (simp add: be_nat_def)
  ultimately have "toKey \<lparr>Kty = ''RSA'', Kid = ''k1'', Use = [], Alg = [], KeyOps = None, RawN = base64_encode True demo_modulus,
      RawE = base64_encode True [chr 1, chr 0, chr 1], Crv = [], RawX = [], RawY = []\<rparr> = Some demo_key"
    using bitLen_power [of 2047] exponent_limit
    by (simp add: toKey_def rsaKey_def n demo_key_def minRSABits_def maxRSABits_def Let_def del: power_numeral)
  moreover have "toKey rk = None" if "unmarshal_rawJWK demo_platform (JObject [(''kty'', JString ''oct'')]) = Some rk" for rk
    using that by (auto simp: unmarshal_rawJWK_def toKey_def fold_eq upper_rune_def byte_def take_string_def)
  ultimately show ?thesis
    by (auto simp: usable_keys_def map_filter_simps demo_jwk_key split: option.splits)
qed

lemma demo_key_set_parsed: "\<exists>keys. parseJWKS demo_platform (json_print (JObject demo_key_set)) = Some keys"
proof -
  have pr: "printable (JObject demo_key_set)" unfolding demo_key_set_def demo_jwk_def
    by (simp add: base64_utf8) (intro conjI plain_utf8; simp add: byte_def)
  have doc: "checkJSONObject (json_print (JObject demo_key_set))"
    "json_unmarshal (json_print (JObject demo_key_set)) = Some (JObject demo_key_set)"
    by (rule printed_object [OF pr]; simp add: demo_key_set_def demo_jwk_def maxJSONDepth_def)+
  have "fill take_raw_list (fold_of demo_platform) ''keys'' [] demo_key_set =
      Some [JObject demo_jwk, JObject [(''kty'', JString ''oct'')]]"
    by (simp add: demo_key_set_def take_raw_list_def)
  moreover have "collect_keys demo_platform [JObject demo_jwk, JObject [(''kty'', JString ''oct'')]] [] \<noteq> []"
    using collect_keys_get [of demo_platform "[JObject demo_jwk, JObject [(''kty'', JString ''oct'')]]" "[]" "''k1''"]
    unfolding demo_usable by (auto simp: demo_key_def)
  ultimately show ?thesis using doc by (simp add: parseJWKS_def Let_def)
qed

lemma oidc_key_sets_witness:
  "\<exists>keys. parseJWKS demo_platform (json_print (JObject demo_key_set)) = Some keys \<and> key_set_ok keys"
proof -
  obtain keys where "parseJWKS demo_platform (json_print (JObject demo_key_set)) = Some keys"
    using demo_key_set_parsed by blast
  with oidc_key_sets [OF this] show ?thesis by blast
qed

section \<open>Numbers in claims\<close>

text \<open>C40: a date that is accepted is within a second of the number in the claim, however it is written, and at
  most 10^11, the limit itself included (in the year 5138); a whole number is taken exactly.\<close>

theorem oidc_numeric_dates:
  assumes "numericDate raw name = Inr t" and "member raw name = Some v"
  shows "\<exists>n m e10 num den. v = JNumber n \<and> decimal_value n = (False, m, e10) \<and> decimal_fraction m e10 = (num, den) \<and>
    int (num div den) \<le> unix_seconds t \<and> unix_seconds t \<le> int ((num + den - 1) div den) \<and> unix_seconds t \<le> 10 ^ 11 \<and>
    (n = decimal m \<longrightarrow> unix_seconds t = int m)"
proof -
  obtain n e10 m num den where *: "v = JNumber n" "decimal_value n = (False, m, e10)"
    "decimal_fraction m e10 = (num, den)" "t = unix_time (int (float_trunc (float64 num den)))"
    "num div den \<le> float_trunc (float64 num den)" "float_trunc (float64 num den) \<le> (num + den - 1) div den"
    "float_trunc (float64 num den) \<le> maxNumericDate"
    by (rule numericDate_number [OF assms])
  have "unix_seconds t = int m" if "n = decimal m"
    using *(2-6) that by (auto simp: decimal_value_decimal decimal_fraction_def)
  moreover have "int (float_trunc (float64 num den)) \<le> 10 ^ 11" using *(7) by (simp add: maxNumericDate_def)
  ultimately show ?thesis using *(1-6) by auto
qed

lemma demo_date: "numericDate demo_members ''exp'' = Inr (unix_time 1700000600)"
proof -
  have "member demo_members ''exp'' = Some (JNumber (decimal 1700000600))" by (simp add: member_def demo_members_def)
  from numericDate_whole [OF _ _ this] show ?thesis by (simp add: maxNumericDate_def)
qed

lemma oidc_numeric_dates_witness:
  "numericDate demo_members ''exp'' = Inr (unix_time 1700000600) \<and>
   member demo_members ''exp'' = Some (JNumber (decimal 1700000600)) \<and> unix_seconds (unix_time 1700000600) = int 1700000600"
proof -
  have m: "member demo_members ''exp'' = Some (JNumber (decimal 1700000600))" by (simp add: member_def demo_members_def)
  from oidc_numeric_dates [OF demo_date m] obtain n k e10 where "JNumber (decimal 1700000600) = JNumber n"
    "decimal_value n = (False, k, e10)" "n = decimal k \<longrightarrow> unix_seconds (unix_time 1700000600) = int k" by blast
  with m demo_date show ?thesis by (simp add: decimal_value_decimal)
qed

text \<open>Rounding to a double comes first, so a fraction close enough to the next second is rounded up to it,
  not truncated.\<close>

lemma bitLen_eq: "2 ^ k \<le> n \<Longrightarrow> n < 2 ^ Suc k \<Longrightarrow> bitLen n = Suc k"
proof (rule antisym)
  assume n: "2 ^ k \<le> n" "n < 2 ^ Suc k"
  show "bitLen n \<le> Suc k" using n(2) by (rule bitLen_le)
  have "0 < n" using n(1) by (metis less_le_trans zero_less_numeral zero_less_power)
  then have "(2 :: nat) ^ k < 2 ^ bitLen n" using n(1) bitLen_bounds [of n] by linarith
  then show "Suc k \<le> bitLen n" by simp
qed

text \<open>The check for repeated names compares them as they are, the decoder of a struct after folding case: a
  document with two spellings of a field passes, and the last one wins.\<close>

lemma folded_names_pass:
  "distinct_names (JObject [(''issuer'', JString a), (''Issuer'', JString b)]) \<and>
   fill take_string fr ''issuer'' [] [(''issuer'', JString a), (''Issuer'', JString b)] = Some b"
  using fold_eq [of "''Issuer''" "''issuer''" fr]
  by (simp add: byte_def upper_rune_def take_string_def)

lemma numeric_date_rounds_up:
  "numericDate [(''exp'', JNumber ''1700000000.99999999'')] ''exp'' = Inr (unix_time 1700000001)"
proof -
  have v: "decimal_value ''1700000000.99999999'' = (False, 170000000099999999, - 8)"
    by (simp add: decimal_value_def number_sign_def span_digits_def is_digit_def byte_def number_of_def digit_value_def
        exponent_value_def)
  have "bitLen 170000000099999999 = Suc 57" "bitLen 100000000 = Suc 26" by (rule bitLen_eq; simp)+
  then have e: "float_exponent 170000000099999999 100000000 = - 22"
    by (simp add: float_exponent_def scaled_def)
  have f: "float64 170000000099999999 100000000 = (7130316804194304, - 22)"
    unfolding float64_def Let_def e by (simp add: scaled_def round_half_even_def Let_def)
  show ?thesis
    unfolding numericDate_def ParseFloat_def
    by (simp add: member_def v decimal_fraction_def f float_above_def float_trunc_def maxNumericDate_def)
qed

text \<open>An ID claim is accepted exactly if it is the canonical decimal text of a positive 64-bit number, as a
  string or as a JSON number, so an ID has one spelling; and the claims of an Actions token carry the
  two IDs its payload has.\<close>

theorem oidc_github_ids:
  assumes "ParseGitHubActionsClaims (Some tok) = Inr c"
  shows "0 < gh_RepositoryID c \<and> gh_RepositoryID c < 2 ^ 63 \<and> 0 < gh_RepositoryOwnerID c \<and> gh_RepositoryOwnerID c < 2 ^ 63 \<and>
    member (tok_raw tok) ''repository_id'' \<in>
      {Some (JString (decimal (nat (gh_RepositoryID c)))), Some (JNumber (decimal (nat (gh_RepositoryID c))))} \<and>
    member (tok_raw tok) ''repository_owner_id'' \<in>
      {Some (JString (decimal (nat (gh_RepositoryOwnerID c)))), Some (JNumber (decimal (nat (gh_RepositoryOwnerID c))))}"
  using ParseGitHubActionsClaims_ok [OF assms] by (auto simp: numericIDClaim_iff)

definition actions_token :: VerifiedToken where
  "actions_token = demo_accepted\<lparr>tok_raw :=
     [(''repository_id'', JString (decimal 42)), (''repository_owner_id'', JString (decimal 7))]\<rparr>"

lemma oidc_github_ids_witness:
  "\<exists>c. ParseGitHubActionsClaims (Some actions_token) = Inr c \<and> 0 < gh_RepositoryID c \<and>
     member (tok_raw actions_token) ''repository_id'' \<in>
      {Some (JString (decimal (nat (gh_RepositoryID c)))), Some (JNumber (decimal (nat (gh_RepositoryID c))))}"
proof -
  have ids: "numericIDClaim (tok_raw actions_token) ''repository_id'' = Inr 42"
    "numericIDClaim (tok_raw actions_token) ''repository_owner_id'' = Inr 7"
    by (simp_all add: numericIDClaim_iff actions_token_def member_def)
  then obtain c where "ParseGitHubActionsClaims (Some actions_token) = Inr c"
    by (simp add: ParseGitHubActionsClaims_def stringClaim_def actions_token_def member_def)
  with oidc_github_ids [OF this] show ?thesis by blast
qed

end
