(* ===== verification/AesGcm.thy ===== *)
theory AesGcm
  imports Prelude
begin

text \<open>
  \<open>src/aesgcm/aesgcm.go\<close> and the port \<open>SecretCipher\<close> of \<open>src/domain/cipher.go\<close>. The AES block
  cipher and the GCM construction of Go's \<open>crypto\<close> are parameters: \<open>Ciphers\<close> holds their two
  constructors, an \<open>AEAD\<close> their result. What the code relies on is the hypothesis \<open>aead_ok\<close>: opening
  what was sealed under the same nonce gives the plaintext back.
\<close>

record 'w SecretCipher =
  SecretCipher_Encrypt :: "string \<Rightarrow> 'w \<Rightarrow> string res \<times> 'w"
  SecretCipher_Decrypt :: "string \<Rightarrow> string res"

record AEAD =
  AEAD_NonceSize :: nat
  AEAD_Seal :: "string \<Rightarrow> string \<Rightarrow> string"
  AEAD_Open :: "string \<Rightarrow> string \<Rightarrow> string option"

record 'b Ciphers =
  NewCipher :: "string \<Rightarrow> string + 'b"
  NewGCM :: "'b \<Rightarrow> string + AEAD"

datatype Cipher = Cipher (Cipher_aead: AEAD)

definition KeySize :: nat where "KeySize = 32"

definition ErrInvalidKey :: error where
  "ErrInvalidKey = ErrExternal ''aesgcm: key must be 32 bytes''"

definition ErrMalformedCiphertext :: error where
  "ErrMalformedCiphertext = ErrExternal ''aesgcm: malformed or tampered ciphertext''"

definition Cipher_New :: "'b Ciphers \<Rightarrow> string \<Rightarrow> Cipher res" where
  "Cipher_New C key =
     (if length key \<noteq> KeySize then Inl ErrInvalidKey
      else case NewCipher C key of
        Inl e \<Rightarrow> Inl (ErrExternal (''aesgcm: new cipher: '' @ e))
      | Inr block \<Rightarrow>
          (case NewGCM C block of
             Inl e \<Rightarrow> Inl (ErrExternal (''aesgcm: new gcm: '' @ e))
           | Inr aead \<Rightarrow> Inr (Cipher aead)))"

text \<open>\<open>Seal(nonce, nonce, plaintext, nil)\<close> appends the sealed text to the nonce.\<close>

definition Cipher_Encrypt :: "Cipher \<Rightarrow> string \<Rightarrow> 'a env_scheme \<Rightarrow> string res \<times> 'a env_scheme" where
  "Cipher_Encrypt c plaintext w =
     and_then (rand_read (AEAD_NonceSize (Cipher_aead c)) w) (\<lambda>nonce w.
       (Inr (nonce @ AEAD_Seal (Cipher_aead c) nonce plaintext), w))"

definition Cipher_Decrypt :: "Cipher \<Rightarrow> string \<Rightarrow> string res" where
  "Cipher_Decrypt c ciphertext =
     (let ns = AEAD_NonceSize (Cipher_aead c) in
      if length ciphertext < ns then Inl ErrMalformedCiphertext
      else case AEAD_Open (Cipher_aead c) (take ns ciphertext) (drop ns ciphertext) of
        None \<Rightarrow> Inl ErrMalformedCiphertext
      | Some plaintext \<Rightarrow> Inr plaintext)"

definition Cipher_SecretCipher :: "Cipher \<Rightarrow> ('a env_scheme) SecretCipher" where
  "Cipher_SecretCipher c =
     \<lparr>SecretCipher_Encrypt = Cipher_Encrypt c, SecretCipher_Decrypt = Cipher_Decrypt c\<rparr>"

definition aead_ok :: "AEAD \<Rightarrow> bool" where
  "aead_ok A \<longleftrightarrow> (\<forall>nonce plaintext. length nonce = AEAD_NonceSize A \<longrightarrow>
     AEAD_Open A nonce (AEAD_Seal A nonce plaintext) = Some plaintext)"

text \<open>\<open>cipher_ok\<close>: the contract of the port, decryption reverses encryption.\<close>

definition cipher_ok :: "('a env_scheme) SecretCipher \<Rightarrow> bool" where
  "cipher_ok C \<longleftrightarrow> (\<forall>plaintext ct w w'. SecretCipher_Encrypt C plaintext w = (Inr ct, w') \<longrightarrow>
     SecretCipher_Decrypt C ct = Inr plaintext)"

lemma aesgcm_cipher_ok:
  assumes "aead_ok (Cipher_aead c)"
  shows "cipher_ok (Cipher_SecretCipher c :: ('a env_scheme) SecretCipher)"
proof -
  have "Cipher_Decrypt c ct = Inr plaintext" if e: "Cipher_Encrypt c plaintext w = (Inr ct, w')"
    for plaintext ct and w w' :: "'a env_scheme"
  proof -
    obtain r v where rr: "rand_read (AEAD_NonceSize (Cipher_aead c)) w = (r, v)" by fastforce
    from rr show ?thesis
      by (rule rand_read_cases) (use e rr assms in
        \<open>auto simp: Cipher_Encrypt_def Cipher_Decrypt_def aead_ok_def Let_def\<close>)
  qed
  then show ?thesis
    by (auto simp: cipher_ok_def Cipher_SecretCipher_def)
qed

text \<open>What was encrypted decrypts to itself, so the AES-GCM cipher satisfies the contract of
  the port; and what decrypts is a nonce followed by a text that authenticates under it.\<close>

theorem aesgcm_roundtrip:
  assumes "Cipher_New C key = Inr c" and "aead_ok (Cipher_aead c)"
  shows "cipher_ok (Cipher_SecretCipher c :: ('a env_scheme) SecretCipher) \<and> length key = 32 \<and>
    (\<forall>ct plaintext. Cipher_Decrypt c ct = Inr plaintext \<longrightarrow>
       (\<exists>nonce sealed. ct = nonce @ sealed \<and> length nonce = AEAD_NonceSize (Cipher_aead c) \<and>
          AEAD_Open (Cipher_aead c) nonce sealed = Some plaintext))"
proof (intro conjI allI impI)
  show "length key = 32"
    using assms(1) by (auto simp: Cipher_New_def KeySize_def split: if_splits)
  show "cipher_ok (Cipher_SecretCipher c :: ('a env_scheme) SecretCipher)"
    using assms(2) by (rule aesgcm_cipher_ok)
next
  fix ct plaintext
  assume d: "Cipher_Decrypt c ct = Inr plaintext"
  let ?n = "AEAD_NonceSize (Cipher_aead c)"
  from d have "?n \<le> length ct" and "AEAD_Open (Cipher_aead c) (take ?n ct) (drop ?n ct) = Some plaintext"
    by (auto simp: Cipher_Decrypt_def Let_def split: if_splits option.splits)
  then show "\<exists>nonce sealed. ct = nonce @ sealed \<and> length nonce = ?n \<and>
      AEAD_Open (Cipher_aead c) nonce sealed = Some plaintext"
    by (intro exI [of _ "take ?n ct"] exI [of _ "drop ?n ct"]) simp
qed

definition toy_aead :: AEAD where
  "toy_aead = \<lparr>AEAD_NonceSize = 12, AEAD_Seal = (\<lambda>n p. rev p @ n),
     AEAD_Open = (\<lambda>n s. if drop (length s - length n) s = n
        then Some (rev (take (length s - length n) s)) else None)\<rparr>"

definition toy_ciphers :: "unit Ciphers" where
  "toy_ciphers = \<lparr>NewCipher = (\<lambda>_. Inr ()), NewGCM = (\<lambda>_. Inr toy_aead)\<rparr>"

lemma toy_aead_ok [simp]: "aead_ok toy_aead"
  by (simp add: aead_ok_def toy_aead_def)

theorem aesgcm_roundtrip_witness:
  "cipher_ok (Cipher_SecretCipher (Cipher toy_aead) :: (unit env_scheme) SecretCipher)"
proof -
  have "Cipher_New toy_ciphers (replicate 32 (CHR ''k'')) = Inr (Cipher toy_aead)"
    by (simp add: Cipher_New_def KeySize_def toy_ciphers_def)
  then show ?thesis by (rule aesgcm_roundtrip [THEN conjunct1]) simp
qed

end
