(* ===== verification/OAuth.thy ===== *)
theory OAuth
  imports GoNet GoUrl GoJson AesGcm Values
begin

text \<open>
  \<open>src/oauth/oauth.go\<close> and \<open>src/oauth/github.go\<close>: the relying party of a browser sign-in. A login
  state is minted, sealed into a cookie and opened on the callback; the code is exchanged with the
  state's PKCE verifier, and the account and its verified primary e-mail address are read. AES-GCM
  with additional data is a function from that data to an \<open>AEAD\<close>. Error values keep their sentinel
  and drop the detail text.
\<close>

section \<open>Errors\<close>

text \<open>\<open>ErrInvalidConfig\<close> of this package is \<open>ErrOAuthConfig\<close>; \<open>ErrOther\<close> is an error passed on unwrapped.\<close>

datatype oauth_error =
    ErrOAuthConfig
  | ErrState
  | ErrDenied
  | ErrExchange
  | ErrUnverifiedEmail
  | ErrProvider
  | ErrOther error

type_synonym 'a oauth = "oauth_error + 'a"

definition passed_on :: "'a res \<times> 'w \<Rightarrow> 'a oauth \<times> 'w" where
  "passed_on out = (map_sum ErrOther (\<lambda>x. x) (fst out), snd out)"

lemma passed_on_simps [simp]:
  "passed_on (Inl e, w) = (Inl (ErrOther e), w)" "passed_on (Inr x, w) = (Inr x, w)"
  by (simp_all add: passed_on_def)

section \<open>Login states\<close>

definition MaxResponseBytes :: nat where "MaxResponseBytes = 1048576"
definition DefaultStateTTL :: duration where "DefaultStateTTL = 10 * minute"

record LoginState =
  ls_State :: string
  ls_Verifier :: string
  ls_Extra :: string
  ls_IssuedAt :: time

definition randomString :: "'a env_scheme \<Rightarrow> string oauth \<times> 'a env_scheme" where
  "randomString w = and_then (passed_on (rand_read 32 w)) (\<lambda>b w. (Inr (base64_encode True b), w))"

definition NewLoginState :: "string \<Rightarrow> time \<Rightarrow> 'a env_scheme \<Rightarrow> LoginState oauth \<times> 'a env_scheme" where
  "NewLoginState extra now w =
     and_then (randomString w) (\<lambda>st w.
     and_then (randomString w) (\<lambda>v w.
       (Inr \<lparr>ls_State = st, ls_Verifier = v, ls_Extra = extra, ls_IssuedAt = now\<rparr>, w)))"

definition PKCEChallenge :: "string \<Rightarrow> string" where
  "PKCEChallenge verifier = base64_encode True (sha256 verifier)"

text \<open>
  The JSON form of a login state. An instant is written in RFC 3339; a year outside 0 to 9999 is an
  error. It is read from the text between its quotes: a time spelled with an escape, which Go refuses
  and \<open>Marshal\<close> never writes, is not told apart from the plain one.
\<close>

definition marshal_time :: "time \<Rightarrow> json option" where
  "marshal_time t =
     (let y = year_of_day (t div second div 86400) in
      if 0 \<le> y \<and> y \<le> 9999 then Some (JString (encodeTime t)) else None)"

definition marshal_LoginState :: "LoginState \<Rightarrow> string option" where
  "marshal_LoginState st =
     (case marshal_time (ls_IssuedAt st) of
        None \<Rightarrow> None
      | Some t \<Rightarrow>
          Some (json_print (JObject
            ([(''s'', JString (ls_State st)), (''v'', JString (ls_Verifier st))] @
             (if ls_Extra st = [] then [] else [(''x'', JString (ls_Extra st))]) @ [(''t'', t)]))))"

definition take_time :: "platform \<Rightarrow> json \<Rightarrow> time \<Rightarrow> time option" where
  "take_time p v x =
     (case v of
        JString s \<Rightarrow> (case parse_rfc3339 s of Some t \<Rightarrow> Some t | None \<Rightarrow> lenient_time p s)
      | JNull \<Rightarrow> Some x
      | _ \<Rightarrow> None)"

definition unmarshal_LoginState :: "platform \<Rightarrow> json \<Rightarrow> LoginState option" where
  "unmarshal_LoginState p v =
     (case v of
        JObject ms \<Rightarrow>
          (case (fill take_string (fold_of p) ''s'' [] ms, fill take_string (fold_of p) ''v'' [] ms,
                 fill take_string (fold_of p) ''x'' [] ms, fill (take_time p) (fold_of p) ''t'' 0 ms) of
             (Some s, Some ver, Some x, Some t) \<Rightarrow>
               Some \<lparr>ls_State = s, ls_Verifier = ver, ls_Extra = x, ls_IssuedAt = t\<rparr>
           | _ \<Rightarrow> None)
      | JNull \<Rightarrow> Some \<lparr>ls_State = [], ls_Verifier = [], ls_Extra = [], ls_IssuedAt = 0\<rparr>
      | _ \<Rightarrow> None)"

section \<open>The sealer\<close>

text \<open>\<open>NewAadGCM b\<close> gives the AEAD of a block cipher for each additional data.\<close>

record 'b AadCiphers =
  NewBlock :: "string \<Rightarrow> string + 'b"
  NewAadGCM :: "'b \<Rightarrow> string + (string \<Rightarrow> AEAD)"

record StateSealer =
  sealer_aead :: "string \<Rightarrow> AEAD"
  sealer_ttl :: duration

definition NewStateSealer :: "'b AadCiphers \<Rightarrow> string \<Rightarrow> duration \<Rightarrow> StateSealer oauth" where
  "NewStateSealer C key ttl =
     (if length key \<noteq> 32 then Inl ErrOAuthConfig
      else if ttl < 0 then Inl ErrOAuthConfig
      else
        (case NewBlock C key of
           Inl _ \<Rightarrow> Inl ErrOAuthConfig
         | Inr block \<Rightarrow>
             (case NewAadGCM C block of
                Inl _ \<Rightarrow> Inl ErrOAuthConfig
              | Inr aead \<Rightarrow>
                  Inr \<lparr>sealer_aead = aead, sealer_ttl = (if ttl = 0 then DefaultStateTTL else ttl)\<rparr>)))"

definition StateSealer_TTL :: "StateSealer \<Rightarrow> duration" where
  "StateSealer_TTL s = sealer_ttl s"

definition sealedAAD :: string where "sealedAAD = ''auth-go/oauth login state v1''"

definition StateSealer_Seal :: "StateSealer \<Rightarrow> LoginState \<Rightarrow> 'a env_scheme \<Rightarrow> string oauth \<times> 'a env_scheme" where
  "StateSealer_Seal s st w =
     (case marshal_LoginState st of
        None \<Rightarrow> (Inl (ErrOther (ErrExternal ''json: year outside of range'')), w)
      | Some plain \<Rightarrow>
          (let A = sealer_aead s sealedAAD in
           and_then (passed_on (rand_read (AEAD_NonceSize A) w)) (\<lambda>nonce w.
             (Inr (base64_encode True (nonce @ AEAD_Seal A nonce plain)), w))))"

definition maxSealedLen :: nat where "maxSealedLen = 4096"

definition StateSealer_Open :: "platform \<Rightarrow> StateSealer \<Rightarrow> string \<Rightarrow> string \<Rightarrow> time \<Rightarrow> LoginState oauth" where
  "StateSealer_Open p s sealed state now =
     (if sealed = [] \<or> state = [] \<or> maxSealedLen < length sealed then Inl ErrState
      else case base64_decode True False sealed of
        None \<Rightarrow> Inl ErrState
      | Some raw \<Rightarrow>
          (let A = sealer_aead s sealedAAD; ns = AEAD_NonceSize A in
           if length raw < ns then Inl ErrState
           else case AEAD_Open A (take ns raw) (drop ns raw) of
             None \<Rightarrow> Inl ErrState
           | Some plain \<Rightarrow>
               (case json_unmarshal plain of
                  None \<Rightarrow> Inl ErrState
                | Some v \<Rightarrow>
                    (case unmarshal_LoginState p v of
                       None \<Rightarrow> Inl ErrState
                     | Some st \<Rightarrow>
                         if ls_State st = [] \<or> ls_Verifier st = [] then Inl ErrState
                         else if constant_time_compare (ls_State st) state \<noteq> 1 then Inl ErrState
                         else if before now (ls_IssuedAt st - minute) \<or> \<not> before now (ls_IssuedAt st + sealer_ttl s)
                         then Inl ErrState
                         else Inr st))))"

definition CallbackError :: "url_values \<Rightarrow> oauth_error option" where
  "CallbackError q =
     (let e = values_get q ''error'' in
      if e = [] then None else if e = ''access_denied'' then Some ErrDenied else Some ErrProvider)"

section \<open>GitHub\<close>

definition GitHubAuthorizeURL :: string where "GitHubAuthorizeURL = ''https://github.com/login/oauth/authorize''"
definition GitHubTokenURL :: string where "GitHubTokenURL = ''https://github.com/login/oauth/access_token''"
definition GitHubAPIURL :: string where "GitHubAPIURL = ''https://api.github.com''"
definition GitHubScopes :: "string list" where "GitHubScopes = [''read:user'', ''user:email'']"

definition oauth_url_check :: "platform \<Rightarrow> string list \<Rightarrow> string \<Rightarrow> URL option" where
  "oauth_url_check p insecureHosts raw =
     (case url_parse p raw of
        None \<Rightarrow> None
      | Some u \<Rightarrow>
          if Host u = [] \<or> Opaque u \<noteq> [] \<or> HasUser u \<or> Fragment u \<noteq> [] then None
          else if Scheme u = ''https'' then Some u
          else if Scheme u = ''http'' \<and> Hostname u \<in> set insecureHosts then Some u
          else None)"

record GitHubConfig =
  gc_ClientID :: string
  gc_ClientSecret :: string
  gc_RedirectURL :: string
  gc_Scopes :: "string list"
  gc_AuthorizeURL :: string
  gc_TokenURL :: string
  gc_APIURL :: string
  gc_InsecureHosts :: "string list"

record GitHub =
  GitHub_cfg :: GitHubConfig
  GitHub_authorize :: URL

text \<open>The defaults of a configuration; \<open>strings.TrimRight(s, "/")\<close>.\<close>

definition trim_slashes :: "string \<Rightarrow> string" where
  "trim_slashes s = rev (dropWhile (\<lambda>c. c = CHR ''/'') (rev s))"

definition with_defaults :: "GitHubConfig \<Rightarrow> GitHubConfig" where
  "with_defaults cfg =
     cfg\<lparr>gc_AuthorizeURL := (if gc_AuthorizeURL cfg = [] then GitHubAuthorizeURL else gc_AuthorizeURL cfg),
         gc_TokenURL := (if gc_TokenURL cfg = [] then GitHubTokenURL else gc_TokenURL cfg),
         gc_APIURL := trim_slashes (if gc_APIURL cfg = [] then GitHubAPIURL else gc_APIURL cfg),
         gc_Scopes := (if gc_Scopes cfg = [] then GitHubScopes else gc_Scopes cfg)\<rparr>"

definition NewGitHub :: "platform \<Rightarrow> GitHubConfig \<Rightarrow> GitHub oauth" where
  "NewGitHub p cfg0 =
     (if gc_ClientID cfg0 = [] \<or> gc_ClientSecret cfg0 = [] then Inl ErrOAuthConfig
      else
        (let cfg = with_defaults cfg0; check = oauth_url_check p (gc_InsecureHosts cfg) in
         case check (gc_AuthorizeURL cfg) of
           None \<Rightarrow> Inl ErrOAuthConfig
         | Some auth \<Rightarrow>
             if list_all (\<lambda>raw. check raw \<noteq> None) [gc_TokenURL cfg, gc_APIURL cfg, gc_RedirectURL cfg]
             then Inr \<lparr>GitHub_cfg = cfg, GitHub_authorize = auth\<rparr> else Inl ErrOAuthConfig))"

definition authorize_query :: "GitHub \<Rightarrow> LoginState \<Rightarrow> url_values" where
  "authorize_query g st =
     values_set ''code_challenge_method'' ''S256''
       (values_set ''code_challenge'' (PKCEChallenge (ls_Verifier st))
         (values_set ''state'' (ls_State st)
           (values_set ''scope'' (join '' '' (gc_Scopes (GitHub_cfg g)))
             (values_set ''redirect_uri'' (gc_RedirectURL (GitHub_cfg g))
               (values_set ''client_id'' (gc_ClientID (GitHub_cfg g))
                 (parse_query (RawQuery (GitHub_authorize g))))))))"

definition AuthCodeURL :: "platform \<Rightarrow> GitHub \<Rightarrow> LoginState \<Rightarrow> string" where
  "AuthCodeURL p g st = url_text p (GitHub_authorize g) (values_encode (authorize_query g st))"

definition GitHub_Begin ::
  "platform \<Rightarrow> GitHub \<Rightarrow> string \<Rightarrow> time \<Rightarrow> 'a env_scheme \<Rightarrow> (LoginState \<times> string) oauth \<times> 'a env_scheme" where
  "GitHub_Begin p g extra now w =
     and_then (NewLoginState extra now w) (\<lambda>st w. (Inr (st, AuthCodeURL p g st), w))"

section \<open>Requests\<close>

definition oauth_do :: "platform \<Rightarrow> HttpRequest \<Rightarrow> 'a env_scheme \<Rightarrow> (string \<times> int) oauth \<times> 'a env_scheme" where
  "oauth_do p req w =
     (case http_do p (pos w) req of
        None \<Rightarrow> (Inl ErrProvider, tick w)
      | Some resp \<Rightarrow>
          (let body = take (MaxResponseBytes + 1) (Body resp) in
           if BodyFails resp \<and> length (Body resp) < MaxResponseBytes + 1 then (Inl ErrProvider, tick w)
           else if MaxResponseBytes < length body then (Inl ErrProvider, tick w)
           else (Inr (body, StatusCode resp), tick w)))"

definition token_request :: "GitHub \<Rightarrow> string \<Rightarrow> string \<Rightarrow> HttpRequest" where
  "token_request g code verifier =
     (let cfg = GitHub_cfg g in
      \<lparr>Method = ''POST'', Target = gc_TokenURL cfg,
       RequestBody = values_encode
         [(''client_id'', [gc_ClientID cfg]), (''client_secret'', [gc_ClientSecret cfg]), (''code'', [code]),
          (''redirect_uri'', [gc_RedirectURL cfg]), (''code_verifier'', [verifier])],
       RequestHeaders = [(''Content-Type'', ''application/x-www-form-urlencoded''),
         (''Accept'', ''application/json'')]\<rparr>)"

record TokenAnswer =
  ta_AccessToken :: string
  ta_TokenType :: string
  ta_Error :: string

definition unmarshal_token :: "platform \<Rightarrow> json \<Rightarrow> TokenAnswer option" where
  "unmarshal_token p v =
     (case v of
        JObject ms \<Rightarrow>
          (case (fill take_string (fold_of p) ''access_token'' [] ms, fill take_string (fold_of p) ''token_type'' [] ms,
                 fill take_string (fold_of p) ''error'' [] ms) of
             (Some a, Some t, Some e) \<Rightarrow> Some \<lparr>ta_AccessToken = a, ta_TokenType = t, ta_Error = e\<rparr>
           | _ \<Rightarrow> None)
      | JNull \<Rightarrow> Some \<lparr>ta_AccessToken = [], ta_TokenType = [], ta_Error = []\<rparr>
      | _ \<Rightarrow> None)"

text \<open>\<open>json.Unmarshal\<close> of a body into a value that \<open>decode\<close> builds.\<close>

definition unmarshal_as :: "(json \<Rightarrow> 'b option) \<Rightarrow> string \<Rightarrow> 'b option" where
  "unmarshal_as decode body = (case json_unmarshal body of None \<Rightarrow> None | Some v \<Rightarrow> decode v)"

text \<open>\<open>strings.EqualFold\<close> on decoded JSON strings.\<close>

definition EqualFold :: "platform \<Rightarrow> string \<Rightarrow> string \<Rightarrow> bool" where
  "EqualFold p a b \<longleftrightarrow> to_upper (fold_of p) a = to_upper (fold_of p) b"

definition GitHub_exchange ::
  "platform \<Rightarrow> GitHub \<Rightarrow> string \<Rightarrow> string \<Rightarrow> 'a env_scheme \<Rightarrow> string oauth \<times> 'a env_scheme" where
  "GitHub_exchange p g code verifier w =
     and_then (oauth_do p (token_request g code verifier) w) (\<lambda>(body, status) w.
       case unmarshal_as (unmarshal_token p) body of
         None \<Rightarrow> (Inl ErrProvider, w)
       | Some tok \<Rightarrow>
           (if ta_Error tok \<noteq> [] then Inl ErrExchange
            else if status \<noteq> 200 then Inl ErrProvider
            else if ta_AccessToken tok = [] \<or> \<not> EqualFold p (ta_TokenType tok) ''bearer'' then Inl ErrProvider
            else Inr (ta_AccessToken tok), w))"

definition api_request :: "GitHub \<Rightarrow> string \<Rightarrow> string \<Rightarrow> HttpRequest" where
  "api_request g token path =
     \<lparr>Method = ''GET'', Target = gc_APIURL (GitHub_cfg g) @ path, RequestBody = [],
      RequestHeaders = [(''Authorization'', ''Bearer '' @ token), (''Accept'', ''application/vnd.github+json''),
        (''X-GitHub-Api-Version'', ''2022-11-28'')]\<rparr>"

definition GitHub_api ::
  "platform \<Rightarrow> GitHub \<Rightarrow> string \<Rightarrow> string \<Rightarrow> (json \<Rightarrow> 'b option) \<Rightarrow> 'a env_scheme \<Rightarrow> 'b oauth \<times> 'a env_scheme" where
  "GitHub_api p g token path decode w =
     and_then (oauth_do p (api_request g token path) w) (\<lambda>(body, status) w.
       if status \<noteq> 200 then (Inl ErrProvider, w)
       else case unmarshal_as decode body of
         None \<Rightarrow> (Inl ErrProvider, w)
       | Some x \<Rightarrow> (Inr x, w))"

record GitHubUser =
  gu_ID :: int
  gu_Login :: string
  gu_Name :: string

definition unmarshal_user :: "platform \<Rightarrow> json \<Rightarrow> GitHubUser option" where
  "unmarshal_user p v =
     (case v of
        JObject ms \<Rightarrow>
          (case (fill take_int64 (fold_of p) ''id'' 0 ms, fill take_string (fold_of p) ''login'' [] ms,
                 fill take_string (fold_of p) ''name'' [] ms) of
             (Some i, Some l, Some n) \<Rightarrow> Some \<lparr>gu_ID = i, gu_Login = l, gu_Name = n\<rparr>
           | _ \<Rightarrow> None)
      | JNull \<Rightarrow> Some \<lparr>gu_ID = 0, gu_Login = [], gu_Name = []\<rparr>
      | _ \<Rightarrow> None)"

record githubEmail =
  ge_Email :: string
  ge_Primary :: bool
  ge_Verified :: bool

definition unmarshal_email :: "platform \<Rightarrow> json \<Rightarrow> githubEmail option" where
  "unmarshal_email p v =
     (case v of
        JObject ms \<Rightarrow>
          (case (fill take_string (fold_of p) ''email'' [] ms, fill take_bool (fold_of p) ''primary'' False ms,
                 fill take_bool (fold_of p) ''verified'' False ms) of
             (Some e, Some pr, Some ver) \<Rightarrow> Some \<lparr>ge_Email = e, ge_Primary = pr, ge_Verified = ver\<rparr>
           | _ \<Rightarrow> None)
      | JNull \<Rightarrow> Some \<lparr>ge_Email = [], ge_Primary = False, ge_Verified = False\<rparr>
      | _ \<Rightarrow> None)"

fun unmarshal_all :: "(json \<Rightarrow> 'b option) \<Rightarrow> json list \<Rightarrow> 'b list option" where
  "unmarshal_all decode [] = Some []"
| "unmarshal_all decode (v # vs) =
     (case (decode v, unmarshal_all decode vs) of
        (Some x, Some xs) \<Rightarrow> Some (x # xs)
      | _ \<Rightarrow> None)"

definition unmarshal_emails :: "platform \<Rightarrow> json \<Rightarrow> githubEmail list option" where
  "unmarshal_emails p v =
     (case v of JArray vs \<Rightarrow> unmarshal_all (unmarshal_email p) vs | JNull \<Rightarrow> Some [] | _ \<Rightarrow> None)"

record GitHubIdentity =
  gi_UserID :: int
  gi_Login :: string
  gi_Name :: string
  gi_Email :: Email

definition GitHub_Complete ::
  "platform \<Rightarrow> GitHub \<Rightarrow> LoginState \<Rightarrow> string \<Rightarrow> 'a env_scheme \<Rightarrow> GitHubIdentity oauth \<times> 'a env_scheme" where
  "GitHub_Complete p g st code w =
     (if code = [] \<or> 512 < length code then (Inl ErrExchange, w)
      else
        and_then (GitHub_exchange p g code (ls_Verifier st) w) (\<lambda>token w.
        and_then (GitHub_api p g token ''/user'' (unmarshal_user p) w) (\<lambda>user w.
          if gu_ID user \<le> 0 \<or> gu_Login user = [] then (Inl ErrProvider, w)
          else
            and_then (GitHub_api p g token ''/user/emails'' (unmarshal_emails p) w) (\<lambda>emails w.
              case find ge_Primary emails of
                None \<Rightarrow> (Inl ErrUnverifiedEmail, w)
              | Some e \<Rightarrow>
                  (if \<not> ge_Verified e then Inl ErrUnverifiedEmail
                   else case NewEmail (lower_of p) (ge_Email e) of
                     Inl _ \<Rightarrow> Inl ErrProvider
                   | Inr email \<Rightarrow>
                       Inr \<lparr>gi_UserID = gu_ID user, gi_Login = gu_Login user, gi_Name = gu_Name user,
                            gi_Email = email\<rparr>, w)))))"

section \<open>What the requests give\<close>

text \<open>\<open>answers p n req body status\<close>: the request sent at point \<open>n\<close> was answered with that body, whole.\<close>

definition answers :: "platform \<Rightarrow> nat \<Rightarrow> HttpRequest \<Rightarrow> string \<Rightarrow> int \<Rightarrow> bool" where
  "answers p n req body status \<longleftrightarrow>
     (\<exists>resp. http_do p n req = Some resp \<and> Body resp = body \<and> StatusCode resp = status \<and>
        length body \<le> MaxResponseBytes \<and> \<not> BodyFails resp)"

lemma oauth_do_tick: "snd (oauth_do p req w) = tick w"
  by (auto simp: oauth_do_def Let_def split: option.splits)

lemma oauth_do_Inr: "oauth_do p req w = (Inr (body, status), w') \<longleftrightarrow> answers p (pos w) req body status \<and> w' = tick w"
  by (auto simp: oauth_do_def answers_def Let_def split: option.splits)

lemma oauth_do_Inl: "oauth_do p req w = (Inl e, w') \<Longrightarrow> e = ErrProvider \<and> w' = tick w"
  by (auto simp: oauth_do_def Let_def split: option.splits if_splits)

lemma exchange_iff:
  "GitHub_exchange p g code verifier w = (Inr token, w') \<longleftrightarrow> w' = tick w \<and>
     (\<exists>body tok. answers p (pos w) (token_request g code verifier) body 200 \<and>
        unmarshal_as (unmarshal_token p) body = Some tok \<and> ta_Error tok = [] \<and> token = ta_AccessToken tok \<and>
        token \<noteq> [] \<and> EqualFold p (ta_TokenType tok) ''bearer'')"
proof
  assume "GitHub_exchange p g code verifier w = (Inr token, w')"
  then show "w' = tick w \<and> (\<exists>body tok. answers p (pos w) (token_request g code verifier) body 200 \<and>
      unmarshal_as (unmarshal_token p) body = Some tok \<and> ta_Error tok = [] \<and> token = ta_AccessToken tok \<and>
      token \<noteq> [] \<and> EqualFold p (ta_TokenType tok) ''bearer'')"
    by (auto simp: GitHub_exchange_def oauth_do_Inr split: option.splits if_splits elim!: and_then_InrE)
next
  assume "w' = tick w \<and> (\<exists>body tok. answers p (pos w) (token_request g code verifier) body 200 \<and>
      unmarshal_as (unmarshal_token p) body = Some tok \<and> ta_Error tok = [] \<and> token = ta_AccessToken tok \<and>
      token \<noteq> [] \<and> EqualFold p (ta_TokenType tok) ''bearer'')"
  then obtain body tok where t: "w' = tick w" "unmarshal_as (unmarshal_token p) body = Some tok" "ta_Error tok = []"
    "token = ta_AccessToken tok" "token \<noteq> []" "EqualFold p (ta_TokenType tok) ''bearer''"
    "oauth_do p (token_request g code verifier) w = (Inr (body, 200), tick w)"
    by (auto simp: oauth_do_Inr)
  then show "GitHub_exchange p g code verifier w = (Inr token, w')" by (simp add: GitHub_exchange_def)
qed

lemma api_iff:
  "GitHub_api p g token path decode w = (Inr x, w') \<longleftrightarrow> w' = tick w \<and>
     (\<exists>body. answers p (pos w) (api_request g token path) body 200 \<and> unmarshal_as decode body = Some x)"
proof
  assume "GitHub_api p g token path decode w = (Inr x, w')"
  then show "w' = tick w \<and> (\<exists>body. answers p (pos w) (api_request g token path) body 200 \<and> unmarshal_as decode body = Some x)"
    by (auto simp: GitHub_api_def oauth_do_Inr split: option.splits if_splits elim!: and_then_InrE)
next
  assume "w' = tick w \<and> (\<exists>body. answers p (pos w) (api_request g token path) body 200 \<and> unmarshal_as decode body = Some x)"
  then obtain body where t: "w' = tick w" "unmarshal_as decode body = Some x"
    "oauth_do p (api_request g token path) w = (Inr (body, 200), tick w)"
    by (auto simp: oauth_do_Inr)
  then show "GitHub_api p g token path decode w = (Inr x, w')" by (simp add: GitHub_api_def)
qed

text \<open>What \<open>Complete\<close> makes of the account and its addresses; the rest of it are the three requests.\<close>

definition identity_of :: "platform \<Rightarrow> GitHubUser \<Rightarrow> githubEmail list \<Rightarrow> GitHubIdentity oauth" where
  "identity_of p user emails =
     (if gu_ID user \<le> 0 \<or> gu_Login user = [] then Inl ErrProvider
      else case find ge_Primary emails of
        None \<Rightarrow> Inl ErrUnverifiedEmail
      | Some e \<Rightarrow>
          if \<not> ge_Verified e then Inl ErrUnverifiedEmail
          else map_sum (\<lambda>_. ErrProvider) (\<lambda>email.
            \<lparr>gi_UserID = gu_ID user, gi_Login = gu_Login user, gi_Name = gu_Name user, gi_Email = email\<rparr>)
            (NewEmail (lower_of p) (ge_Email e)))"

lemma complete_iff:
  "GitHub_Complete p g st code w = (Inr i, w') \<longleftrightarrow>
     code \<noteq> [] \<and> length code \<le> 512 \<and>
     (\<exists>token user emails w1 w2. GitHub_exchange p g code (ls_Verifier st) w = (Inr token, w1) \<and>
        GitHub_api p g token ''/user'' (unmarshal_user p) w1 = (Inr user, w2) \<and>
        GitHub_api p g token ''/user/emails'' (unmarshal_emails p) w2 = (Inr emails, w') \<and>
        identity_of p user emails = Inr i)"
  (is "?l \<longleftrightarrow> ?r")
proof
  assume ?l
  then obtain token w1 user w2 where c: "code \<noteq> []" "length code \<le> 512"
    and 1: "GitHub_exchange p g code (ls_Verifier st) w = (Inr token, w1)"
    and 2: "GitHub_api p g token ''/user'' (unmarshal_user p) w1 = (Inr user, w2)"
    and u: "0 < gu_ID user" "gu_Login user \<noteq> []"
    and r: "and_then (GitHub_api p g token ''/user/emails'' (unmarshal_emails p) w2) (\<lambda>emails w.
              case find ge_Primary emails of
                None \<Rightarrow> (Inl ErrUnverifiedEmail, w)
              | Some e \<Rightarrow>
                  (if \<not> ge_Verified e then Inl ErrUnverifiedEmail
                   else case NewEmail (lower_of p) (ge_Email e) of
                     Inl _ \<Rightarrow> Inl ErrProvider
                   | Inr email \<Rightarrow>
                       Inr \<lparr>gi_UserID = gu_ID user, gi_Login = gu_Login user, gi_Name = gu_Name user,
                            gi_Email = email\<rparr>, w)) = (Inr i, w')"
    by (auto simp: GitHub_Complete_def not_less split: if_splits elim!: and_then_InrE)
  from r u show ?r
    by (intro conjI c, elim and_then_InrE)
       (auto simp: identity_of_def 1 2 split: option.splits if_splits sum.splits)
next
  assume ?r
  then obtain token user emails w1 w2 where c: "code \<noteq> []" "length code \<le> 512"
    "GitHub_exchange p g code (ls_Verifier st) w = (Inr token, w1)"
    "GitHub_api p g token ''/user'' (unmarshal_user p) w1 = (Inr user, w2)"
    "GitHub_api p g token ''/user/emails'' (unmarshal_emails p) w2 = (Inr emails, w')"
    "identity_of p user emails = Inr i" by blast
  then show ?l
    by (auto simp: GitHub_Complete_def identity_of_def and_then_simps split: option.splits if_splits sum.splits)
qed

end
