(* ===== verification/OAuthProps.thy ===== *)
theory OAuthProps
  imports OAuth
begin

text \<open>
  The properties of the OAuth client: a login state survives its cookie, and only a state that was
  sealed comes out of one; the requests of a sign-in carry what \<open>Begin\<close> minted; and an identity
  rests on three complete answers of the provider.
\<close>

section \<open>Text in ASCII\<close>

lemma val64_ascii: "sym64_ok url c \<Longrightarrow> byte c < 128"
  by (auto simp: sym64_ok_def val64_def Let_def split: if_splits)

lemma ascii_base64 [simp]: "ascii (base64_encode url bs)"
  unfolding ascii_def by (blast dest: base64_encode_alphabet val64_ascii)

lemma digit_ascii: "is_digit c \<Longrightarrow> byte c < 128"
  by (simp add: is_digit_def)

lemma ascii_zero_padded [simp]: "ascii (zero_padded k n)"
  using zero_padded_digits by (auto simp: ascii_def dest!: digit_ascii)

lemma set_trim_zeros: "set (trim_zeros s) \<subseteq> set s"
  by (auto simp: trim_zeros_def dest: set_dropWhileD)

lemma ascii_encodeTime [simp]: "ascii (encodeTime t)"
proof -
  have "ascii (trim_zeros s)" if "ascii s" for s
    using that set_trim_zeros [of s] by (auto simp: ascii_def)
  moreover have "byte CHR ''-'' < 128" "byte CHR ''.'' < 128" "byte CHR '':'' < 128" "byte CHR ''T'' < 128"
    "byte CHR ''Z'' < 128" by (simp_all add: byte_def)
  ultimately show ?thesis
    by (simp add: encodeTime_def Let_def format_date_def format_clock_def format_fraction_def padded_int_def
        split: prod.split)
qed

definition plain_platform :: platform where
  "plain_platform = \<lparr>url_parse = \<lambda>_. None, url_text = \<lambda>_ q. q, http_do = \<lambda>_ _. None, lower_of = \<lambda>r. r, fold_of = \<lambda>r. r,
     lenient_time = \<lambda>_. None\<rparr>"

section \<open>Minting\<close>

lemma randomString_Inr:
  assumes "randomString w = (Inr s, w')"
  obtains b where "s = base64_encode True b" and "length b = 32"
proof -
  from assms obtain b w1 where "passed_on (rand_read 32 w) = (Inr b, w1)" and s: "s = base64_encode True b"
    by (auto simp: randomString_def elim!: and_then_InrE)
  then have "rand_read 32 w = (Inr b, w1)" by (cases "rand_read 32 w"; cases "fst (rand_read 32 w)") auto
  then have "length b = 32" by (rule rand_read_cases) auto
  with s show ?thesis by (rule that)
qed

text \<open>A state value or verifier: 43 characters of the base64url alphabet, inside RFC 7636's 43 to 128.\<close>

definition minted_text :: "string \<Rightarrow> bool" where
  "minted_text s \<longleftrightarrow> length s = 43 \<and> list_all (sym64_ok True) s"

lemma minted_randomString: "randomString w = (Inr s, w') \<Longrightarrow> minted_text s"
  by (erule randomString_Inr) (auto simp: minted_text_def length_base64_encode list_all_iff dest: base64_encode_alphabet)

lemma minted_ascii: "minted_text s \<Longrightarrow> ascii s"
  by (auto simp: minted_text_def ascii_def list_all_iff dest: val64_ascii)

lemma minted_nonempty: "minted_text s \<Longrightarrow> s \<noteq> []"
  by (auto simp: minted_text_def)

lemma NewLoginState_Inr:
  assumes "NewLoginState extra now w = (Inr st, w')"
  shows "minted_text (ls_State st) \<and> minted_text (ls_Verifier st) \<and> ls_Extra st = extra \<and> ls_IssuedAt st = now"
  using assms by (auto simp: NewLoginState_def dest: minted_randomString elim!: and_then_InrE)

section \<open>The cookie\<close>

text \<open>\<open>state_ok\<close>: a login state whose JSON form \<open>json.Marshal\<close> does not repair.\<close>

definition state_ok :: "LoginState \<Rightarrow> bool" where
  "state_ok st \<longleftrightarrow> utf8_valid (ls_State st) \<and> utf8_valid (ls_Verifier st) \<and> utf8_valid (ls_Extra st) \<and>
     storable_time (ls_IssuedAt st)"

definition state_json :: "LoginState \<Rightarrow> json" where
  "state_json st = JObject ([(''s'', JString (ls_State st)), (''v'', JString (ls_Verifier st))] @
     (if ls_Extra st = [] then [] else [(''x'', JString (ls_Extra st))]) @
     [(''t'', JString (encodeTime (ls_IssuedAt st)))])"

lemma marshal_state:
  assumes "state_ok st"
  shows "marshal_LoginState st = Some (json_print (state_json st))"
proof -
  have d: "0 \<le> ls_IssuedAt st div second div 86400" "ls_IssuedAt st div second div 86400 < 3652059"
    using assms by (simp_all add: state_ok_def storable_time_def second_def pos_imp_zdiv_nonneg_iff) linarith
  from year_range [OF d] show ?thesis
    by (simp add: marshal_LoginState_def marshal_time_def state_json_def Let_def)
qed

lemma one_letter_fold:
  "to_upper fr [a] = to_upper fr [b] \<longleftrightarrow> upper_rune fr (byte a) = upper_rune fr (byte b)" if "byte a < 128" "byte b < 128"
  using fold_eq [of "[a]" "[b]" fr] that by simp

lemma unmarshal_state: "storable_time (ls_IssuedAt st) \<Longrightarrow> unmarshal_LoginState p (state_json st) = Some st"
  by (simp add: unmarshal_LoginState_def state_json_def one_letter_fold byte_def upper_rune_def take_string_def
      take_time_def parse_encodeTime)

lemma open_marshalled:
  assumes "state_ok st" and "marshal_LoginState st = Some plain"
  shows "\<exists>v. json_unmarshal plain = Some v \<and> unmarshal_LoginState p v = Some st"
proof -
  have "utf8_valid ''s'' \<and> utf8_valid ''v'' \<and> utf8_valid ''x'' \<and> utf8_valid ''t''"
    by (simp add: utf8_valid_ascii byte_def)
  then have "printable (state_json st)"
    using assms(1) by (simp add: state_json_def state_ok_def utf8_valid_ascii)
  then have "json_parse (json_print (state_json st)) = Some (state_json st)" by (rule json_parse_print)
  then have "json_parse plain = Some (state_json st)" using assms by (simp add: marshal_state)
  moreover have "json_depth (state_json st) \<le> maxNestingDepth" by (simp add: state_json_def maxNestingDepth_def)
  ultimately show ?thesis using assms(1) by (simp add: json_unmarshal_def unmarshal_state state_ok_def)
qed

lemma Seal_Inr:
  assumes "StateSealer_Seal s st w = (Inr c, w')"
  obtains plain nonce where "marshal_LoginState st = Some plain"
    and "length nonce = AEAD_NonceSize (sealer_aead s sealedAAD)"
    and "c = base64_encode True (nonce @ AEAD_Seal (sealer_aead s sealedAAD) nonce plain)"
proof -
  let ?A = "sealer_aead s sealedAAD"
  from assms obtain plain where m: "marshal_LoginState st = Some plain"
    by (auto simp: StateSealer_Seal_def split: option.splits)
  with assms obtain nonce w1 where "passed_on (rand_read (AEAD_NonceSize ?A) w) = (Inr nonce, w1)"
    and c: "c = base64_encode True (nonce @ AEAD_Seal ?A nonce plain)"
    by (auto simp: StateSealer_Seal_def Let_def elim!: and_then_InrE)
  then have "rand_read (AEAD_NonceSize ?A) w = (Inr nonce, w1)"
    by (cases "rand_read (AEAD_NonceSize ?A) w"; cases "fst (rand_read (AEAD_NonceSize ?A) w)") auto
  then have "length nonce = AEAD_NonceSize ?A" by (rule rand_read_cases) auto
  with m c show ?thesis by (intro that)
qed

text \<open>\<open>in_time\<close>: the instants at which a state is accepted, a minute of clock skew before its issue included.\<close>

definition in_time :: "StateSealer \<Rightarrow> LoginState \<Rightarrow> time \<Rightarrow> bool" where
  "in_time s st now \<longleftrightarrow> ls_IssuedAt st - minute \<le> now \<and> now < ls_IssuedAt st + sealer_ttl s"

lemma Open_Inr:
  assumes "StateSealer_Open p s c state now = Inr st"
  obtains raw plain v where "length c \<le> maxSealedLen" and "base64_decode True False c = Some raw"
    and "AEAD_NonceSize (sealer_aead s sealedAAD) \<le> length raw"
    and "AEAD_Open (sealer_aead s sealedAAD) (take (AEAD_NonceSize (sealer_aead s sealedAAD)) raw)
      (drop (AEAD_NonceSize (sealer_aead s sealedAAD)) raw) = Some plain"
    and "json_unmarshal plain = Some v" and "unmarshal_LoginState p v = Some st"
    and "state = ls_State st" and "state \<noteq> []" and "ls_Verifier st \<noteq> []" and "in_time s st now"
  using assms
  by (auto simp: StateSealer_Open_def Let_def in_time_def before_def split: if_splits option.splits)

lemma Open_Inl: "StateSealer_Open p s c state now = Inl e \<Longrightarrow> e = ErrState"
  by (auto simp: StateSealer_Open_def Let_def split: if_splits option.splits)

section \<open>The length of the cookie\<close>

lemma length_escape_byte: "length (escape_byte c) \<le> 6"
  by (simp add: escape_byte_def unicode_escape_def)

lemma length_quote_body: "length (quote_body s) \<le> 6 * length s"
proof (induction s rule: quote_body.induct)
  case (1 s)
  show ?case
  proof (cases s)
    case (Cons c cs)
    show ?thesis
    proof (cases "byte c < 128")
      case True
      then show ?thesis
        using 1(1) [OF Cons True] Cons length_escape_byte [of c] by (simp add: quote_body.simps [of "c # x" for x])
    next
      case False
      obtain r n where rn: "decode_rune s = (r, n)" by fastforce
      have n: "0 < n" "n \<le> length s" using decode_rune_width [of s] Cons rn by auto
      let ?x = "if (r, n) = (rune_error, 1) then unicode_escape rune_error
        else if r = 8232 \<or> r = 8233 then unicode_escape r else take n s"
      have "length ?x \<le> 6 * n" using n by (auto simp: unicode_escape_def)
      moreover have "length (quote_body (drop n s)) \<le> 6 * length (drop n s)"
        using 1(2) [OF Cons False] rn by simp
      moreover have "quote_body s = ?x @ quote_body (drop n s)"
        unfolding quote_body.simps [of s] using Cons False rn by (simp del: decode_rune.simps)
      ultimately show ?thesis using n by simp
    qed
  qed (simp add: quote_body.simps)
qed

lemma length_json_quote: "length (json_quote s) \<le> 6 * length s + 2"
  using length_quote_body [of s] by (simp add: json_quote_def)

lemma length_encodeTime:
  assumes "storable_time t"
  shows "length (encodeTime t) \<le> 30"
proof -
  define s where "s = t div second"
  have t: "0 \<le> t" "t < 3652059 * 86400 * second" using assms by (simp_all add: storable_time_def)
  then have d: "0 \<le> s div 86400" "s div 86400 < 3652059"
    by (simp_all add: s_def second_def pos_imp_zdiv_nonneg_iff)
  have date: "length (format_date (s div 86400)) = 10" using parse_date_format [OF d] by blast
  have clock: "length (format_clock c) = 8" if "0 \<le> c" "c < 86400" for c
    using that by (simp add: format_clock_def length_zero_padded nat_less_iff)
  have "length (trim_zeros x) \<le> length x" for x
    by (simp add: trim_zeros_def) (metis length_dropWhile_le length_rev)
  then have "length (format_fraction n) \<le> 10" if "n < 1000000000" for n
    using that length_zero_padded [of n 9] by (simp add: format_fraction_def) metis
  then have "length (format_fraction (nat (t mod second))) \<le> 10" by (simp add: nat_less_iff second_def)
  then show ?thesis
    unfolding encodeTime_def Let_def s_def [symmetric] using date clock [of "s mod 86400"] by simp
qed

lemma length_state_json:
  assumes "minted_text (ls_State st)" and "minted_text (ls_Verifier st)" and "storable_time (ls_IssuedAt st)"
  shows "length (json_print (state_json st)) \<le> 770 + 6 * length (ls_Extra st)"
proof -
  have k: "length (json_quote [c]) \<le> 8" for c using length_json_quote [of "[c]"] by simp
  show ?thesis
    using assms length_json_quote [of "ls_State st"] length_json_quote [of "ls_Verifier st"]
      length_json_quote [of "ls_Extra st"] length_json_quote [of "encodeTime (ls_IssuedAt st)"]
      length_encodeTime [OF assms(3)] k [of "CHR ''s''"] k [of "CHR ''v''"] k [of "CHR ''x''"] k [of "CHR ''t''"]
    by (auto simp: state_json_def minted_text_def)
qed

text \<open>What \<open>cipher.NewGCM\<close> promises for each additional data: nonces of 12 bytes, sealed texts 16 bytes
  longer, and opening reverses sealing.\<close>

definition gcm_ok :: "(string \<Rightarrow> AEAD) \<Rightarrow> bool" where
  "gcm_ok A \<longleftrightarrow> (\<forall>ad. AEAD_NonceSize (A ad) = 12 \<and> aead_ok (A ad) \<and>
     (\<forall>nonce plain. length (AEAD_Seal (A ad) nonce plain) = length plain + 16))"

text \<open>Opening a cookie that was sealed, and its length.\<close>

lemma Open_sealed:
  assumes "StateSealer_Seal s st w = (Inr c, w')" and "state_ok st" and "aead_ok (sealer_aead s sealedAAD)" and "c \<noteq> []"
  shows "StateSealer_Open p s c state now =
    (if length c \<le> maxSealedLen \<and> ls_State st \<noteq> [] \<and> ls_Verifier st \<noteq> [] \<and> state = ls_State st \<and> in_time s st now
     then Inr st else Inl ErrState)"
proof -
  let ?A = "sealer_aead s sealedAAD"
  obtain plain nonce where c: "marshal_LoginState st = Some plain" "length nonce = AEAD_NonceSize ?A"
    "c = base64_encode True (nonce @ AEAD_Seal ?A nonce plain)"
    using assms(1) by (rule Seal_Inr)
  obtain v where v: "json_unmarshal plain = Some v" "unmarshal_LoginState p v = Some st"
    using open_marshalled [OF assms(2) c(1)] by blast
  have "AEAD_Open ?A nonce (AEAD_Seal ?A nonce plain) = Some plain" using assms(3) c(2) by (simp add: aead_ok_def)
  moreover have "base64_decode True False c = Some (nonce @ AEAD_Seal ?A nonce plain)" using c(3) by simp
  ultimately show ?thesis
    using assms(4) v c(2) by (auto simp: StateSealer_Open_def Let_def before_def in_time_def)
qed

lemma sealed_length:
  assumes "NewLoginState extra issued w = (Inr st, w1)" and "StateSealer_Seal s st w2 = (Inr c, w3)"
    and "gcm_ok (sealer_aead s)" and "utf8_valid extra" and "storable_time issued"
  shows "state_ok st" and "c \<noteq> []" and "length extra \<le> 375 \<Longrightarrow> length c \<le> maxSealedLen"
proof -
  let ?A = "sealer_aead s sealedAAD"
  note st = NewLoginState_Inr [OF assms(1)]
  then show ok: "state_ok st"
    using assms(4,5) by (simp add: state_ok_def utf8_valid_ascii minted_ascii)
  obtain plain nonce where c: "marshal_LoginState st = Some plain" "length nonce = AEAD_NonceSize ?A"
    "c = base64_encode True (nonce @ AEAD_Seal ?A nonce plain)"
    using assms(2) by (rule Seal_Inr)
  have "length nonce = 12" "length (AEAD_Seal ?A nonce plain) = length plain + 16"
    using assms(3) c(2) by (simp_all add: gcm_ok_def)
  then have len: "length c = (8 * (length plain + 28) + 5) div 6"
    unfolding c(3) length_base64_encode by simp
  have "length plain \<le> 770 + 6 * length extra"
    using length_state_json [of st] st assms(5) c(1) marshal_state [OF ok] by simp
  then show "length c \<le> maxSealedLen" if "length extra \<le> 375"
    using div_le_mono [of "8 * (length plain + 28) + 5" "8 * 3048 + 5" 6] that by (simp add: len maxSealedLen_def)
  have "0 < length c" unfolding len by simp
  then show "c \<noteq> []" by simp
qed

text \<open>C12: a login state survives its cookie. The cookie of a freshly minted state, of any UTF-8 extra
  value, opens at the instants from a minute before its issue until its lifetime has passed, for the
  state value the provider must echo; for any other value and at any other instant it is refused.
  It opens only if it is at most 4096 characters long, and an extra value of at most 375 bytes keeps
  it so.\<close>

theorem oauth_cookie_roundtrip:
  assumes "NewLoginState extra issued w = (Inr st, w1)" and "StateSealer_Seal s st w2 = (Inr c, w3)"
    and "gcm_ok (sealer_aead s)" and "utf8_valid extra" and "storable_time issued"
  shows "StateSealer_Open p s c state now =
      (if length c \<le> maxSealedLen \<and> state = ls_State st \<and> issued - minute \<le> now \<and> now < issued + sealer_ttl s
       then Inr st else Inl ErrState) \<and>
    (length extra \<le> 375 \<longrightarrow> length c \<le> maxSealedLen)"
proof -
  note sealed = sealed_length [OF assms]
  have "aead_ok (sealer_aead s sealedAAD)" using assms(3) by (simp add: gcm_ok_def)
  from Open_sealed [OF assms(2) sealed(1) this sealed(2), of p state now] show ?thesis
    using NewLoginState_Inr [OF assms(1)] sealed(3) by (auto simp: in_time_def minted_nonempty)
qed

definition toy_gcm :: "string \<Rightarrow> AEAD" where
  "toy_gcm ad = \<lparr>AEAD_NonceSize = 12, AEAD_Seal = (\<lambda>n p. rev p @ take 8 (sha256 (n @ ad)) @ take 8 (sha256 n)),
     AEAD_Open = (\<lambda>n s. if drop (length s - 16) s = take 8 (sha256 (n @ ad)) @ take 8 (sha256 n)
        then Some (rev (take (length s - 16) s)) else None)\<rparr>"

definition toy_sealer :: StateSealer where
  "toy_sealer = \<lparr>sealer_aead = toy_gcm, sealer_ttl = DefaultStateTTL\<rparr>"

lemma toy_gcm_ok: "gcm_ok toy_gcm"
  by (simp add: gcm_ok_def aead_ok_def toy_gcm_def)

theorem oauth_cookie_roundtrip_witness:
  "\<exists>st c. fst (NewLoginState ''/home'' 0 (calm 0 0 ())) = Inr st \<and>
     fst (StateSealer_Seal toy_sealer st (calm 0 2 ())) = Inr c \<and>
     StateSealer_Open plain_platform toy_sealer c (ls_State st) 0 = Inr st \<and>
     StateSealer_Open plain_platform toy_sealer c (ls_State st) (10 * minute) = Inl ErrState"
proof -
  obtain st where n: "NewLoginState ''/home'' 0 (calm 0 0 ()) = (Inr st, calm 0 2 ())"
    by (simp add: NewLoginState_def randomString_def numeral_2_eq_2)
  have t: "storable_time 0" by (simp add: storable_time_def second_def)
  have u: "utf8_valid ''/home''" by (rule utf8_valid_ascii) (simp add: byte_def)
  have "state_ok st" using NewLoginState_Inr [OF n] t u by (simp add: state_ok_def utf8_valid_ascii minted_ascii)
  then obtain c where c: "StateSealer_Seal toy_sealer st (calm 0 2 ()) = (Inr c, calm 0 3 ())"
    by (simp add: StateSealer_Seal_def marshal_state Let_def)
  have g: "gcm_ok (sealer_aead toy_sealer)" by (simp add: toy_sealer_def toy_gcm_ok)
  have s: "0 - minute \<le> 0" "0 < 0 + sealer_ttl toy_sealer" "\<not> 10 * minute < 0 + sealer_ttl toy_sealer" "length ''/home'' \<le> 375"
    by (simp_all add: toy_sealer_def DefaultStateTTL_def minute_def second_def)
  show ?thesis
    by (intro exI [of _ st] exI [of _ c])
       (use n c s oauth_cookie_roundtrip [OF n c g u t, of plain_platform] in simp)
qed

text \<open>
  \<open>forged s given c\<close>: \<open>c\<close> authenticates under the sealer's key although it carries the bytes of no cookie
  in \<open>given\<close>. That nobody without the key finds such a text is the promise of AES-256-GCM; it is a
  statement about effort, so it stays visible below as the one way past the cookies given out.
\<close>

definition forged :: "StateSealer \<Rightarrow> string set \<Rightarrow> string \<Rightarrow> bool" where
  "forged s given c \<longleftrightarrow>
     (\<exists>nonce sealed. base64_decode True False c = Some (nonce @ sealed) \<and> length nonce = AEAD_NonceSize (sealer_aead s sealedAAD) \<and>
        AEAD_Open (sealer_aead s sealedAAD) nonce sealed \<noteq> None \<and>
        (\<forall>c0 \<in> given. base64_decode True False c0 \<noteq> Some (nonce @ sealed)))"

text \<open>What the bytes of a sealed cookie open to is the plaintext that was sealed.\<close>

lemma sealed_bytes_open:
  assumes "StateSealer_Seal s st w = (Inr c, w')" and "aead_ok (sealer_aead s sealedAAD)"
    and "base64_decode True False c = Some (nonce @ sealed)" and "length nonce = AEAD_NonceSize (sealer_aead s sealedAAD)"
  shows "AEAD_Open (sealer_aead s sealedAAD) nonce sealed = marshal_LoginState st"
proof -
  obtain plain n where "marshal_LoginState st = Some plain" "length n = AEAD_NonceSize (sealer_aead s sealedAAD)"
    "c = base64_encode True (n @ AEAD_Seal (sealer_aead s sealedAAD) n plain)"
    using assms(1) by (rule Seal_Inr)
  with assms(2-4) show ?thesis by (auto simp: aead_ok_def)
qed

text \<open>C11: only a state that was sealed comes out of a cookie. Let \<open>given\<close> be the states sealed so far, each
  with its cookie. Whatever text and whatever echoed value \<open>Open\<close> accepts, the text is a forgery under
  the sealer's key or has the bytes of a cookie given out, and then the state is the very one sealed in
  it. In both cases the state is complete, is the one the provider echoed, and is returned inside
  its time only.\<close>

theorem oauth_cookie_sound:
  assumes "StateSealer_Open p s c state now = Inr st" and "aead_ok (sealer_aead s sealedAAD)"
    and "\<forall>(st0, c0) \<in> given. state_ok st0 \<and> (\<exists>(w :: 'e env_scheme) w'. StateSealer_Seal s st0 w = (Inr c0, w'))"
  shows "(forged s (snd ` given) c \<or>
      (\<exists>c0. (st, c0) \<in> given \<and> base64_decode True False c0 = base64_decode True False c)) \<and>
    ls_State st = state \<and> state \<noteq> [] \<and> ls_Verifier st \<noteq> [] \<and>
    ls_IssuedAt st - minute \<le> now \<and> now < ls_IssuedAt st + sealer_ttl s"
proof -
  let ?A = "sealer_aead s sealedAAD"
  obtain nonce sealed plain v where o: "base64_decode True False c = Some (nonce @ sealed)" "length nonce = AEAD_NonceSize ?A"
    "AEAD_Open ?A nonce sealed = Some plain" "json_unmarshal plain = Some v" "unmarshal_LoginState p v = Some st"
    "state = ls_State st" "state \<noteq> []" "ls_Verifier st \<noteq> []" "in_time s st now"
    using assms(1)
  proof (rule Open_Inr)
    fix raw plain v
    assume a: "base64_decode True False c = Some raw" "AEAD_NonceSize ?A \<le> length raw"
      "AEAD_Open ?A (take (AEAD_NonceSize ?A) raw) (drop (AEAD_NonceSize ?A) raw) = Some plain"
      "json_unmarshal plain = Some v" "unmarshal_LoginState p v = Some st" "state = ls_State st" "state \<noteq> []"
      "ls_Verifier st \<noteq> []" "in_time s st now"
    show thesis by (rule that [OF _ _ a(3-9)]) (use a(1,2) in simp_all)
  qed
  have "\<exists>c0. (st, c0) \<in> given \<and> base64_decode True False c0 = base64_decode True False c" if "\<not> forged s (snd ` given) c"
  proof -
    from that o(1-3) obtain c0 where "c0 \<in> snd ` given" and d: "base64_decode True False c0 = Some (nonce @ sealed)"
      unfolding forged_def by fastforce
    then obtain st0 where g: "(st0, c0) \<in> given" by auto
    with assms(3) obtain w w' :: "'e env_scheme" where st0: "state_ok st0" and "StateSealer_Seal s st0 w = (Inr c0, w')" by blast
    from sealed_bytes_open [OF this(2) assms(2) d o(2)] o(3) have "marshal_LoginState st0 = Some plain" by simp
    from open_marshalled [OF st0 this, of p] o(4,5) have "st = st0" by auto
    with g d o(1) show ?thesis by auto
  qed
  with o show ?thesis by (auto simp: in_time_def)
qed

theorem oauth_cookie_sound_witness:
  "\<exists>st c. fst (StateSealer_Seal toy_sealer st (calm 0 2 ())) = Inr c \<and> aead_ok (sealer_aead toy_sealer sealedAAD) \<and>
     StateSealer_Open plain_platform toy_sealer c (ls_State st) 0 = Inr st \<and> ls_Verifier st \<noteq> [] \<and>
     forged toy_sealer {} c \<and> \<not> forged toy_sealer {c} c"
proof -
  obtain st where n: "NewLoginState ''/home'' 0 (calm 0 0 ()) = (Inr st, calm 0 2 ())"
    by (simp add: NewLoginState_def randomString_def numeral_2_eq_2)
  have u: "utf8_valid ''/home''" by (rule utf8_valid_ascii) (simp add: byte_def)
  then have ok: "state_ok st" and st: "ls_IssuedAt st = 0" "ls_State st \<noteq> []" "ls_Verifier st \<noteq> []"
    using NewLoginState_Inr [OF n]
    by (simp_all add: state_ok_def utf8_valid_ascii minted_ascii storable_time_def second_def minted_nonempty)
  then obtain c where c: "StateSealer_Seal toy_sealer st (calm 0 2 ()) = (Inr c, calm 0 3 ())"
    by (simp add: StateSealer_Seal_def marshal_state Let_def)
  have g: "gcm_ok (sealer_aead toy_sealer)" by (simp add: toy_sealer_def toy_gcm_ok)
  then have A: "aead_ok (sealer_aead toy_sealer sealedAAD)" by (simp add: gcm_ok_def)
  have t: "storable_time 0" "in_time toy_sealer st 0" "length ''/home'' \<le> 375"
    using st(1) by (simp_all add: storable_time_def in_time_def toy_sealer_def DefaultStateTTL_def minute_def second_def)
  note sealed = sealed_length [OF n c g u t(1)]
  have "StateSealer_Open plain_platform toy_sealer c (ls_State st) 0 = Inr st"
    using sealed(3) [OF t(3)] st t(2) by (simp add: Open_sealed [OF c sealed(1) A sealed(2)])
  moreover from oauth_cookie_sound [OF this A, of "{}"] have "forged toy_sealer {} c" by auto
  moreover have "\<not> forged toy_sealer {c} c" by (auto simp: forged_def)
  moreover from oauth_cookie_sound [OF \<open>StateSealer_Open _ _ _ _ _ = _\<close> A, of "{(st, c)}"] c ok
  have "ls_Verifier st \<noteq> []" by auto
  ultimately show ?thesis using c A by (intro exI [of _ st] exI [of _ c]) simp
qed

section \<open>The requests\<close>

lemma add_piece_ok: "gomap_ok q \<Longrightarrow> gomap_ok (add_piece q x)"
  by (simp add: add_piece_def add_value_def Let_def split: option.splits prod.splits)

lemma parse_query_ok: "gomap_ok (parse_query s)"
proof -
  have "gomap_ok q \<Longrightarrow> gomap_ok (foldl add_piece q xs)" for q xs
    by (induction xs arbitrary: q) (simp_all add: add_piece_ok)
  then show ?thesis by (simp add: parse_query_def)
qed

lemma authorize_query_ok: "gomap_ok (authorize_query g st)"
  by (simp add: authorize_query_def values_ok_set parse_query_ok)

lemma token_form_ok:
  "gomap_ok [(''client_id'', [a]), (''client_secret'', [b]), (''code'', [c]), (''redirect_uri'', [d]), (''code_verifier'', [e])]"
  by (simp add: gomap_ok_def)

lemma NewGitHub_Inr:
  assumes "NewGitHub p cfg = Inr g"
  shows "GitHub_cfg g = with_defaults cfg \<and> gc_ClientID cfg \<noteq> [] \<and> gc_ClientSecret cfg \<noteq> [] \<and>
    oauth_url_check p (gc_InsecureHosts cfg) (gc_AuthorizeURL (GitHub_cfg g)) = Some (GitHub_authorize g) \<and>
    (\<forall>raw \<in> {gc_TokenURL (GitHub_cfg g), gc_APIURL (GitHub_cfg g), gc_RedirectURL (GitHub_cfg g)}.
       \<exists>u. oauth_url_check p (gc_InsecureHosts cfg) raw = Some u)"
  using assms by (auto simp: NewGitHub_def Let_def with_defaults_def split: if_splits option.splits)

lemma Begin_Inr:
  assumes "GitHub_Begin p g extra now w = (Inr (st, url), w')"
  shows "url = AuthCodeURL p g st \<and> NewLoginState extra now w = (Inr st, w')"
  using assms by (auto simp: GitHub_Begin_def elim!: and_then_InrE)

text \<open>C13: the requests of a sign-in carry what \<open>Begin\<close> minted. The URL it gives is the configured
  authorize URL with a query that a decoder reads as the client's id, redirect URL and scopes, the
  state, and the S256 challenge of the verifier, each of them once; the other parameters the
  configured URL had are kept. The form of the code exchange decodes to the same client id and redirect
  URL, the code, and a verifier whose challenge is the one the provider was given.\<close>

theorem oauth_requests:
  assumes "GitHub_Begin p g extra now w = (Inr (st, url), w')"
  shows "\<exists>query. url = url_text p (GitHub_authorize g) query \<and>
    (let q = values_list (parse_query query);
         form = values_list (parse_query (RequestBody (token_request g code (ls_Verifier st)))) in
     q ''client_id'' = [gc_ClientID (GitHub_cfg g)] \<and> q ''redirect_uri'' = [gc_RedirectURL (GitHub_cfg g)] \<and>
     q ''scope'' = [join '' '' (gc_Scopes (GitHub_cfg g))] \<and> q ''state'' = [ls_State st] \<and>
     q ''code_challenge_method'' = [''S256''] \<and>
     (\<forall>n. n \<notin> {''client_id'', ''redirect_uri'', ''scope'', ''state'', ''code_challenge'', ''code_challenge_method''} \<longrightarrow>
        q n = values_list (parse_query (RawQuery (GitHub_authorize g))) n) \<and>
     form ''client_id'' = q ''client_id'' \<and> form ''redirect_uri'' = q ''redirect_uri'' \<and> form ''code'' = [code] \<and>
     map (\<lambda>v. base64_encode True (sha256 v)) (form ''code_verifier'') = q ''code_challenge'' \<and>
     form ''code_verifier'' = [ls_Verifier st] \<and> minted_text (ls_Verifier st) \<and> minted_text (ls_State st))"
proof (intro exI conjI)
  note b = Begin_Inr [OF assms]
  show "url = url_text p (GitHub_authorize g) (values_encode (authorize_query g st))"
    using b by (simp add: AuthCodeURL_def)
  have m: "minted_text (ls_Verifier st)" "minted_text (ls_State st)" using b NewLoginState_Inr by blast+
  have f: "values_list (parse_query (RequestBody (token_request g code (ls_Verifier st)))) n =
    values_list [(''client_id'', [gc_ClientID (GitHub_cfg g)]), (''client_secret'', [gc_ClientSecret (GitHub_cfg g)]),
      (''code'', [code]), (''redirect_uri'', [gc_RedirectURL (GitHub_cfg g)]), (''code_verifier'', [ls_Verifier st])] n"
    for n
    by (simp add: token_request_def Let_def parse_query_encode token_form_ok)
  show "let q = values_list (parse_query (values_encode (authorize_query g st)));
         form = values_list (parse_query (RequestBody (token_request g code (ls_Verifier st)))) in
     q ''client_id'' = [gc_ClientID (GitHub_cfg g)] \<and> q ''redirect_uri'' = [gc_RedirectURL (GitHub_cfg g)] \<and>
     q ''scope'' = [join '' '' (gc_Scopes (GitHub_cfg g))] \<and> q ''state'' = [ls_State st] \<and>
     q ''code_challenge_method'' = [''S256''] \<and>
     (\<forall>n. n \<notin> {''client_id'', ''redirect_uri'', ''scope'', ''state'', ''code_challenge'', ''code_challenge_method''} \<longrightarrow>
        q n = values_list (parse_query (RawQuery (GitHub_authorize g))) n) \<and>
     form ''client_id'' = q ''client_id'' \<and> form ''redirect_uri'' = q ''redirect_uri'' \<and> form ''code'' = [code] \<and>
     map (\<lambda>v. base64_encode True (sha256 v)) (form ''code_verifier'') = q ''code_challenge'' \<and>
     form ''code_verifier'' = [ls_Verifier st] \<and> minted_text (ls_Verifier st) \<and> minted_text (ls_State st)"
    unfolding Let_def f parse_query_encode [OF authorize_query_ok]
    using m by (simp add: authorize_query_def values_list_set PKCEChallenge_def) (simp add: values_list_def gomap_get_def)
qed

definition toy_github :: GitHub where
  "toy_github = \<lparr>GitHub_cfg = with_defaults \<lparr>gc_ClientID = ''me'', gc_ClientSecret = ''secret'',
       gc_RedirectURL = ''https://a/cb'', gc_Scopes = [], gc_AuthorizeURL = [], gc_TokenURL = [], gc_APIURL = [],
       gc_InsecureHosts = []\<rparr>,
     GitHub_authorize = \<lparr>Scheme = ''https'', Opaque = [], HasUser = False, Host = ''h'', Hostname = ''h'',
       RawQuery = [], ForceQuery = False, Fragment = []\<rparr>\<rparr>"

theorem oauth_requests_witness:
  "\<exists>st url query. fst (GitHub_Begin plain_platform toy_github [] 0 (calm 0 0 ())) = Inr (st, url) \<and> url = query \<and>
     values_list (parse_query query) ''client_id'' = [''me''] \<and>
     values_list (parse_query query) ''scope'' = [''read:user user:email''] \<and>
     values_list (parse_query query) ''state'' = [ls_State st]"
proof -
  obtain st where n: "NewLoginState [] 0 (calm 0 0 ()) = (Inr st, calm 0 2 ())"
    by (simp add: NewLoginState_def randomString_def numeral_2_eq_2)
  obtain url where b: "GitHub_Begin plain_platform toy_github [] 0 (calm 0 0 ()) = (Inr (st, url), calm 0 2 ())"
    by (simp add: GitHub_Begin_def n)
  have g: "gc_ClientID (GitHub_cfg toy_github) = ''me''" "gc_Scopes (GitHub_cfg toy_github) = [''read:user'', ''user:email'']"
    by (simp_all add: toy_github_def with_defaults_def GitHubScopes_def)
  have "url_text plain_platform u q = q" for u q by (simp add: plain_platform_def)
  with oauth_requests [OF b, of "[]"] show ?thesis
    by (intro exI [of _ st] exI [of _ url]) (auto simp: b g Let_def)
qed

section \<open>The identity\<close>

text \<open>C10: an identity rests on three complete answers of the provider. \<open>Complete\<close> gives one exactly
  if the code has a plausible length, the token endpoint answered the exchange with a bearer token and no error,
  the account read with that token has a positive id and a login, and the first address the provider
  calls primary is verified and well formed; the identity is that account with that address.\<close>

theorem oauth_identity:
  "GitHub_Complete p g st code w = (Inr i, w') \<longleftrightarrow>
     w' = tick (tick (tick w)) \<and> code \<noteq> [] \<and> length code \<le> 512 \<and>
     (\<exists>b1 b2 b3 tok user emails e.
        answers p (pos w) (token_request g code (ls_Verifier st)) b1 200 \<and>
        unmarshal_as (unmarshal_token p) b1 = Some tok \<and> ta_Error tok = [] \<and> ta_AccessToken tok \<noteq> [] \<and>
        EqualFold p (ta_TokenType tok) ''bearer'' \<and>
        answers p (Suc (pos w)) (api_request g (ta_AccessToken tok) ''/user'') b2 200 \<and>
        unmarshal_as (unmarshal_user p) b2 = Some user \<and> 0 < gu_ID user \<and> gu_Login user \<noteq> [] \<and>
        answers p (Suc (Suc (pos w))) (api_request g (ta_AccessToken tok) ''/user/emails'') b3 200 \<and>
        unmarshal_as (unmarshal_emails p) b3 = Some emails \<and>
        find ge_Primary emails = Some e \<and> ge_Verified e \<and> NewEmail (lower_of p) (ge_Email e) = Inr (gi_Email i) \<and>
        gi_UserID i = gu_ID user \<and> gi_Login i = gu_Login user \<and> gi_Name i = gu_Name user)"
proof -
  have t: "pos (tick v) = Suc (pos v)" for v :: "'a env_scheme" by (simp add: tick_def)
  have i: "identity_of p user emails = Inr i \<longleftrightarrow> 0 < gu_ID user \<and> gu_Login user \<noteq> [] \<and>
      (\<exists>e. find ge_Primary emails = Some e \<and> ge_Verified e \<and> NewEmail (lower_of p) (ge_Email e) = Inr (gi_Email i)) \<and>
      gi_UserID i = gu_ID user \<and> gi_Login i = gu_Login user \<and> gi_Name i = gu_Name user" for user emails
    by (cases i; cases "find ge_Primary emails"; cases "NewEmail (lower_of p) (ge_Email (the (find ge_Primary emails)))")
       (auto simp: identity_of_def)
  show ?thesis
    unfolding complete_iff exchange_iff api_iff i
    by (rule iffI; elim conjE exE; hypsubst?; (intro conjI exI)?; (simp add: t)?) (auto simp: t)
qed

end
