(* ===== verification/Webauthn.thy ===== *)
theory Webauthn
  imports Passkey GoHash GoCodec
begin

text \<open>
  \<open>src/adapters/webauthn/webauthn.go\<close>: the ceremonies of passkeys over the go-webauthn library. The
  library is a record of functions, with types of its own for the relying party, the session, the
  options and the parsed responses; what it draws and reads on the way is the point of the run it is
  called at. The code's own part is all here: the signed ceremony state, the users it builds from the
  stored credentials, the order of its checks and the update of the sign count.
\<close>

section \<open>The library\<close>

record TimeoutConfig =
  tc_Enforce :: bool
  tc_Timeout :: duration
  tc_TimeoutUVD :: duration

record RPConfig =
  rp_RPDisplayName :: string
  rp_RPID :: string
  rp_RPOrigins :: "string list"
  rp_Login :: TimeoutConfig
  rp_Registration :: TimeoutConfig

record waCredential =
  wa_ID :: string
  wa_PublicKey :: string
  wa_SignCount :: u32
  wa_CloneWarning :: bool

record waUser =
  waUser_id :: string
  waUser_name :: string
  waUser_displayName :: string
  waUser_creds :: "waCredential list"

record ('rp, 'sess, 'opts, 'creation, 'assertion) webauthn =
  wa_New :: "RPConfig \<Rightarrow> string + 'rp"
  wa_BeginRegistration :: "'rp \<Rightarrow> nat \<Rightarrow> waUser \<Rightarrow> string \<Rightarrow> string + 'opts \<times> 'sess"
  wa_CreateCredential :: "'rp \<Rightarrow> nat \<Rightarrow> waUser \<Rightarrow> 'sess \<Rightarrow> 'creation \<Rightarrow> string + waCredential"
  wa_BeginLogin :: "'rp \<Rightarrow> nat \<Rightarrow> waUser \<Rightarrow> string \<Rightarrow> string + 'opts \<times> 'sess"
  wa_ValidateLogin :: "'rp \<Rightarrow> nat \<Rightarrow> waUser \<Rightarrow> 'sess \<Rightarrow> 'assertion \<Rightarrow> string + waCredential"
  ParseCreation :: "string \<Rightarrow> string + 'creation"
  ParseAssertion :: "string \<Rightarrow> string + 'assertion"
  marshal_options :: "'opts \<Rightarrow> string + string"
  marshal_session :: "'sess \<Rightarrow> string + string"
  unmarshal_session :: "string \<Rightarrow> 'sess option"
  session_UserID :: "'sess \<Rightarrow> string"

section \<open>Errors and calls\<close>

datatype webauthn_error =
    ErrNoPasskeys
  | ErrCredentialCloned
  | ErrInvalidStateKey
  | ErrInvalidState
  | ErrPassed error

type_synonym 'a wa = "webauthn_error + 'a"

text \<open>A result handed on: of a port, and of a library call at the current point of the run.\<close>

definition handed_on :: "'a res \<times> 'w \<Rightarrow> 'a wa \<times> 'w" where
  "handed_on out = (map_sum ErrPassed (\<lambda>x. x) (fst out), snd out)"

definition library_call :: "(nat \<Rightarrow> string + 'a) \<Rightarrow> 's world \<Rightarrow> 'a wa \<times> 's world" where
  "library_call f w = (map_sum (\<lambda>m. ErrPassed (ErrExternal m)) (\<lambda>x. x) (f (pos w)), tick w)"

definition pure_call :: "string + 'a \<Rightarrow> 'a wa" where
  "pure_call r = map_sum (\<lambda>m. ErrPassed (ErrExternal m)) (\<lambda>x. x) r"

lemma handed_on_simps [simp]:
  "handed_on (Inl e, w) = (Inl (ErrPassed e), w)" "handed_on (Inr x, w) = (Inr x, w)"
  by (simp_all add: handed_on_def)

section \<open>The authenticator\<close>

definition defaultCeremonyTimeout :: duration where "defaultCeremonyTimeout = 5 * minute"
definition defaultCeremonyTimeoutUVD :: duration where "defaultCeremonyTimeoutUVD = 2 * minute"
definition StateKeyMinBytes :: nat where "StateKeyMinBytes = 32"

record waConfig =
  RPDisplayName :: string
  RPID :: string
  RPOrigins :: "string list"
  StateKey :: string
  UserVerification :: string

record ('rp, 'w) waAuthenticator =
  auth_wa :: 'rp
  auth_repo :: "'w PasskeyRepository"
  auth_uv :: string
  auth_stateKey :: string

definition Authenticator_New ::
  "('rp, 'sess, 'opts, 'cr, 'as) webauthn \<Rightarrow> waConfig \<Rightarrow> 'w PasskeyRepository \<Rightarrow> ('rp, 'w) waAuthenticator wa" where
  "Authenticator_New L cfg repo =
     (if length (StateKey cfg) < StateKeyMinBytes then Inl ErrInvalidStateKey
      else
        (let uv = (if UserVerification cfg = [] then ''required'' else UserVerification cfg);
             timeouts = \<lparr>tc_Enforce = True, tc_Timeout = defaultCeremonyTimeout, tc_TimeoutUVD = defaultCeremonyTimeoutUVD\<rparr>
         in
         case wa_New L \<lparr>rp_RPDisplayName = RPDisplayName cfg, rp_RPID = RPID cfg, rp_RPOrigins = RPOrigins cfg,
             rp_Login = timeouts, rp_Registration = timeouts\<rparr> of
           Inl m \<Rightarrow> Inl (ErrPassed (ErrExternal m))
         | Inr rp \<Rightarrow> Inr \<lparr>auth_wa = rp, auth_repo = repo, auth_uv = uv, auth_stateKey = StateKey cfg\<rparr>))"

definition stored_credential :: "PasskeyCredential \<Rightarrow> waCredential" where
  "stored_credential c =
     \<lparr>wa_ID = PasskeyCredential_ID c, wa_PublicKey = PasskeyCredential_PublicKey c,
      wa_SignCount = PasskeyCredential_SignCount c, wa_CloneWarning = False\<rparr>"

definition user_with :: "UserID \<Rightarrow> string \<Rightarrow> PasskeyCredential list \<Rightarrow> waUser" where
  "user_with userID displayName stored =
     (let name = (if displayName = [] then UserID_String userID else displayName) in
      \<lparr>waUser_id = UserID_String userID, waUser_name = name, waUser_displayName = name,
       waUser_creds = map stored_credential stored\<rparr>)"

definition loadUser :: "('rp, 'w) waAuthenticator \<Rightarrow> UserID \<Rightarrow> string \<Rightarrow> 'w \<Rightarrow> waUser wa \<times> 'w" where
  "loadUser a userID displayName w =
     and_then (handed_on (PasskeyRepository_ListByUser (auth_repo a) userID w)) (\<lambda>stored w.
       (Inr (user_with userID displayName stored), w))"

section \<open>Ceremony state\<close>

definition sealState :: "('rp, 'sess, 'opts, 'cr, 'as) webauthn \<Rightarrow> ('rp, 'w) waAuthenticator \<Rightarrow> 'sess \<Rightarrow> string wa" where
  "sealState L a session =
     map_sum (\<lambda>e. e) (\<lambda>raw. base64_encode True raw @ ''.'' @ base64_encode True (hmac_sha256 (auth_stateKey a) raw))
       (pure_call (marshal_session L session))"

definition openState :: "('rp, 'sess, 'opts, 'cr, 'as) webauthn \<Rightarrow> ('rp, 'w) waAuthenticator \<Rightarrow> string \<Rightarrow> 'sess wa" where
  "openState L a state =
     (case split_on (CHR ''.'') state of
        [p, q] \<Rightarrow>
          if p = [] \<or> q = [] then Inl ErrInvalidState
          else
            (case (base64_decode True False p, base64_decode True False q) of
               (Some raw, Some want) \<Rightarrow>
                 if constant_time_compare (hmac_sha256 (auth_stateKey a) raw) want \<noteq> 1 then Inl ErrInvalidState
                 else (case unmarshal_session L raw of None \<Rightarrow> Inl ErrInvalidState | Some s \<Rightarrow> Inr s)
             | _ \<Rightarrow> Inl ErrInvalidState)
      | _ \<Rightarrow> Inl ErrInvalidState)"

definition marshalPair ::
  "('rp, 'sess, 'opts, 'cr, 'as) webauthn \<Rightarrow> ('rp, 'w) waAuthenticator \<Rightarrow> 'opts \<Rightarrow> 'sess \<Rightarrow> (string \<times> string) wa" where
  "marshalPair L a options session =
     (case pure_call (marshal_options L options) of
        Inl e \<Rightarrow> Inl e
      | Inr ob \<Rightarrow> map_sum (\<lambda>e. e) (Pair ob) (sealState L a session))"

section \<open>Ceremonies\<close>

definition BeginRegistration ::
  "('rp, 'sess, 'opts, 'cr, 'as) webauthn \<Rightarrow> ('rp, 's world) waAuthenticator \<Rightarrow> UserID \<Rightarrow> string \<Rightarrow> 's world \<Rightarrow>
     (string \<times> string) wa \<times> 's world" where
  "BeginRegistration L a userID displayName w =
     and_then (loadUser a userID displayName w) (\<lambda>user w.
     and_then (library_call (\<lambda>n. wa_BeginRegistration L (auth_wa a) n user (auth_uv a)) w) (\<lambda>(creation, session) w.
       (marshalPair L a creation session, w)))"

definition FinishRegistration ::
  "('rp, 'sess, 'opts, 'cr, 'as) webauthn \<Rightarrow> ('rp, 's world) waAuthenticator \<Rightarrow> string \<Rightarrow> string \<Rightarrow> 's world \<Rightarrow>
     PasskeyCredential wa \<times> 's world" where
  "FinishRegistration L a state response w =
     and_then (openState L a state, w) (\<lambda>session w.
     and_then (pure_call (ParseCreation L response), w) (\<lambda>parsed w.
       let i = session_UserID L session;
           user = \<lparr>waUser_id = i, waUser_name = i, waUser_displayName = i, waUser_creds = []\<rparr> in
     and_then (library_call (\<lambda>n. wa_CreateCredential L (auth_wa a) n user session parsed) w) (\<lambda>cred w.
     and_then (handed_on (NewUserID i, w)) (\<lambda>uid w.
       (Inr \<lparr>PasskeyCredential_ID = wa_ID cred, PasskeyCredential_UserID = uid,
             PasskeyCredential_PublicKey = wa_PublicKey cred, PasskeyCredential_SignCount = wa_SignCount cred,
             PasskeyCredential_Name = []\<rparr>, w)))))"

definition BeginLogin ::
  "('rp, 'sess, 'opts, 'cr, 'as) webauthn \<Rightarrow> ('rp, 's world) waAuthenticator \<Rightarrow> UserID \<Rightarrow> 's world \<Rightarrow>
     (string \<times> string) wa \<times> 's world" where
  "BeginLogin L a userID w =
     and_then (loadUser a userID [] w) (\<lambda>user w.
       if waUser_creds user = [] then (Inl ErrNoPasskeys, w)
       else
         and_then (library_call (\<lambda>n. wa_BeginLogin L (auth_wa a) n user (auth_uv a)) w) (\<lambda>(assertion, session) w.
           (marshalPair L a assertion session, w)))"

text \<open>\<open>FinishLogin\<close>, in the two parts another caller can come between: the checks, and the update.\<close>

definition login_checks ::
  "('rp, 'sess, 'opts, 'cr, 'as) webauthn \<Rightarrow> ('rp, 's world) waAuthenticator \<Rightarrow> string \<Rightarrow> string \<Rightarrow> 's world \<Rightarrow>
     waCredential wa \<times> 's world" where
  "login_checks L a state response w =
     and_then (openState L a state, w) (\<lambda>session w.
     and_then (handed_on (NewUserID (session_UserID L session), w)) (\<lambda>uid w.
     and_then (loadUser a uid [] w) (\<lambda>user w.
     and_then (pure_call (ParseAssertion L response), w) (\<lambda>parsed w.
     and_then (library_call (\<lambda>n. wa_ValidateLogin L (auth_wa a) n user session parsed) w) (\<lambda>cred w.
       (if wa_CloneWarning cred then Inl ErrCredentialCloned else Inr cred, w))))))"

definition login_update :: "('rp, 's world) waAuthenticator \<Rightarrow> waCredential \<Rightarrow> 's world \<Rightarrow> string wa \<times> 's world" where
  "login_update a cred w =
     and_then (handed_on (PasskeyRepository_UpdateSignCount (auth_repo a) (wa_ID cred) (wa_SignCount cred) w)) (\<lambda>_ w.
       (Inr (wa_ID cred), w))"

definition FinishLogin ::
  "('rp, 'sess, 'opts, 'cr, 'as) webauthn \<Rightarrow> ('rp, 's world) waAuthenticator \<Rightarrow> string \<Rightarrow> string \<Rightarrow> 's world \<Rightarrow>
     string wa \<times> 's world" where
  "FinishLogin L a state response w =
     and_then (login_checks L a state response w) (\<lambda>cred w. login_update a cred w)"

section \<open>What the pieces do\<close>

lemma pure_call_Inr [simp]: "pure_call r = Inr x \<longleftrightarrow> r = Inr x"
  by (cases r) (simp_all add: pure_call_def)

lemma library_call_Inr [simp]: "library_call f w = (Inr x, w') \<longleftrightarrow> f (pos w) = Inr x \<and> w' = tick w"
  by (cases "f (pos w)") (auto simp: library_call_def)

lemma library_call_world [simp]: "snd (library_call f w) = tick w"
  by (simp add: library_call_def)

lemma handed_on_Inr [simp]: "handed_on out = (Inr x, w') \<longleftrightarrow> out = (Inr x, w')"
  by (cases out; cases "fst out") (auto simp: handed_on_def)

lemma handed_on_world [simp]: "snd (handed_on out) = snd out"
  by (simp add: handed_on_def)

lemma base64url_dot: "CHR ''.'' \<notin> set (base64_encode True bs)"
proof
  assume "CHR ''.'' \<in> set (base64_encode True bs)"
  then have "sym64_ok True (CHR ''.'')" by (rule base64_encode_alphabet)
  then show False by (simp add: sym64_ok_def val64_def byte_def)
qed

lemma openState_iff:
  "openState L a state = Inr s \<longleftrightarrow>
     (\<exists>p q raw. split_on (CHR ''.'') state = [p, q] \<and> p \<noteq> [] \<and> q \<noteq> [] \<and> base64_decode True False p = Some raw \<and>
        base64_decode True False q = Some (hmac_sha256 (auth_stateKey a) raw) \<and> unmarshal_session L raw = Some s)"
  by (auto simp: openState_def split: list.splits option.splits if_splits)

lemma openState_Inl: "openState L a state = Inl e \<Longrightarrow> e = ErrInvalidState"
  by (auto simp: openState_def split: list.splits option.splits if_splits)

lemma openState_sealed_by:
  assumes "sealState L a s = Inr blob" and "marshal_session L s = Inr raw" and "raw \<noteq> []"
  shows "openState L b blob =
    (if hmac_sha256 (auth_stateKey b) raw \<noteq> hmac_sha256 (auth_stateKey a) raw then Inl ErrInvalidState
     else case unmarshal_session L raw of None \<Rightarrow> Inl ErrInvalidState | Some s' \<Rightarrow> Inr s')"
proof -
  let ?m = "hmac_sha256 (auth_stateKey a) raw"
  have blob: "blob = base64_encode True raw @ CHR ''.'' # base64_encode True ?m"
    using assms(1,2) by (simp add: sealState_def pure_call_def)
  have sp: "split_on (CHR ''.'') blob = [base64_encode True raw, base64_encode True ?m]"
    unfolding blob by (simp add: split_on_append split_on_notin base64url_dot)
  have "length (base64_encode True raw) \<noteq> 0" "length (base64_encode True ?m) \<noteq> 0"
    using assms(3) unfolding length_base64_encode by (auto simp: neq_Nil_conv)
  then have ne: "base64_encode True raw \<noteq> []" "base64_encode True ?m \<noteq> []" by auto
  show ?thesis unfolding openState_def sp by (simp add: ne)
qed

lemmas openState_sealed = openState_sealed_by [where b = a and a = a for a, simplified]

lemma loadUser_Inr:
  "loadUser a u d w = (Inr user, w') \<longleftrightarrow>
     (\<exists>cs. PasskeyRepository_ListByUser (auth_repo a) u w = (Inr cs, w') \<and> user = user_with u d cs)"
  by (cases "PasskeyRepository_ListByUser (auth_repo a) u w"; cases "fst (PasskeyRepository_ListByUser (auth_repo a) u w)")
     (auto simp: loadUser_def handed_on_def)

lemma login_checks_Inr:
  assumes "login_checks L a state response w = (Inr cred, w')"
  obtains s u cs w1 parsed where "openState L a state = Inr s" and "NewUserID (session_UserID L s) = Inr u"
    and "PasskeyRepository_ListByUser (auth_repo a) u w = (Inr cs, w1)" and "ParseAssertion L response = Inr parsed"
    and "wa_ValidateLogin L (auth_wa a) (pos w1) (user_with u [] cs) s parsed = Inr cred" and "\<not> wa_CloneWarning cred"
    and "w' = tick w1"
  using assms
  by (auto simp: login_checks_def loadUser_Inr split: if_splits elim!: and_then_InrE)

lemma login_checks_world:
  "snd (login_checks L a state response w) = w \<or>
   (\<exists>u. snd (login_checks L a state response w) \<in>
      {snd (PasskeyRepository_ListByUser (auth_repo a) u w), tick (snd (PasskeyRepository_ListByUser (auth_repo a) u w))})"
proof (cases "openState L a state")
  case (Inr s)
  show ?thesis
  proof (cases "NewUserID (session_UserID L s)")
    case u: (Inr u)
    obtain x v where l: "PasskeyRepository_ListByUser (auth_repo a) u w = (x, v)" by fastforce
    have "snd (login_checks L a state response w) \<in> {v, tick v}"
    proof (cases x)
      case (Inr cs)
      show ?thesis
        by (cases "ParseAssertion L response")
           (use \<open>openState L a state = Inr s\<close> u l Inr in
             \<open>auto simp: login_checks_def loadUser_def pure_call_def library_call_def and_then_def split: sum.splits\<close>)
    qed (use \<open>openState L a state = Inr s\<close> u l in \<open>simp add: login_checks_def loadUser_def\<close>)
    then show ?thesis using l by (intro disjI2 exI [of _ u]) simp
  qed (use Inr in \<open>simp add: login_checks_def\<close>)
qed (simp add: login_checks_def)

section \<open>What the library promises\<close>

text \<open>Sessions survive \<open>encoding/json\<close>, and name the user they were made for.\<close>

definition sessions_kept :: "('rp, 'sess, 'opts, 'cr, 'as) webauthn \<Rightarrow> bool" where
  "sessions_kept L \<longleftrightarrow>
     (\<forall>s raw. marshal_session L s = Inr raw \<longrightarrow> raw \<noteq> [] \<and> unmarshal_session L raw = Some s) \<and>
     (\<forall>rp n us uv out s. wa_BeginLogin L rp n us uv = Inr (out, s) \<longrightarrow> session_UserID L s = waUser_id us) \<and>
     (\<forall>rp n us uv out s. wa_BeginRegistration L rp n us uv = Inr (out, s) \<longrightarrow> session_UserID L s = waUser_id us)"

text \<open>A validated login is one of a credential of the user; without a clone warning its count is ahead of
  the stored one, or the authenticator keeps none.\<close>

definition counts_advance :: "('rp, 'sess, 'opts, 'cr, 'as) webauthn \<Rightarrow> bool" where
  "counts_advance L \<longleftrightarrow>
     (\<forall>rp n us s r cred. wa_ValidateLogin L rp n us s r = Inr cred \<longrightarrow>
        (\<exists>d \<in> set (waUser_creds us). wa_ID d = wa_ID cred \<and>
           (wa_CloneWarning cred \<or> wa_SignCount d < wa_SignCount cred \<or> wa_SignCount d = 0 \<and> wa_SignCount cred = 0)))"

lemma counts_advanceD:
  assumes "counts_advance L" and "wa_ValidateLogin L rp n (user_with u d cs) s r = Inr cred"
    and "\<not> wa_CloneWarning cred"
  shows "\<exists>c \<in> set cs. PasskeyCredential_ID c = wa_ID cred \<and>
    (PasskeyCredential_SignCount c < wa_SignCount cred \<or> PasskeyCredential_SignCount c = 0 \<and> wa_SignCount cred = 0)"
proof -
  from assms obtain x where "x \<in> set (waUser_creds (user_with u d cs))" "wa_ID x = wa_ID cred"
    "wa_SignCount x < wa_SignCount cred \<or> wa_SignCount x = 0 \<and> wa_SignCount cred = 0"
    unfolding counts_advance_def by blast
  then show ?thesis by (auto simp: user_with_def Let_def stored_credential_def)
qed

section \<open>Ceremonies over a passkey store\<close>

text \<open>
  \<open>login_effect\<close>: what a login that returned \<open>out\<close> may have done. A credential it returned was presented with a
  state that carries a valid code for the session of a user, and is stored for that user; its stored
  count becomes a count ahead of the old one, or both are zero, and the rest of the store is as it
  was. A login that failed left the store as it was.
\<close>

definition login_effect ::
  "('s \<Rightarrow> passkeys) \<Rightarrow> ('s \<Rightarrow> bool) \<Rightarrow> ('rp, 'sess, 'opts, 'cr, 'as) webauthn \<Rightarrow> ('rp, 's world) waAuthenticator \<Rightarrow>
     string \<Rightarrow> 's world \<Rightarrow> string wa \<times> 's world \<Rightarrow> bool" where
  "login_effect view legal L a state w out \<longleftrightarrow>
     legal (store (snd out)) \<and>
     (case fst out of
        Inl e \<Rightarrow> view (store (snd out)) = view (store w)
      | Inr i \<Rightarrow> (\<exists>s c n. openState L a state = Inr s \<and> view (store w) i = Some c \<and>
          UserID_String (PasskeyCredential_UserID c) = session_UserID L s \<and>
          (PasskeyCredential_SignCount c < n \<or> PasskeyCredential_SignCount c = 0 \<and> n = 0) \<and>
          view (store (snd out)) = (view (store w))(i \<mapsto> c\<lparr>PasskeyCredential_SignCount := n\<rparr>)))"

text \<open>What the ceremonies do to any store that keeps the contract of the port.\<close>

locale passkey_logins = passkey_counts
begin

lemma checks_keep:
  assumes "legal (store w)" and "auth_repo a = P" and "login_checks L a state response w = (r, w')"
  shows "legal (store w')" and "view (store w') = view (store w)"
proof -
  have "legal (store (snd (PasskeyRepository_ListByUser P u w)))"
    "view (store (snd (PasskeyRepository_ListByUser P u w))) = view (store w)" for u
    using list_by_user [OF assms(1), of u] by (auto simp: reads_def settled_def)
  then show "legal (store w')" "view (store w') = view (store w)"
    using login_checks_world [of L a state response w] assms by fastforce+
qed

lemma update_effect:
  assumes "legal (store w)" and "auth_repo a = P" and "login_update a cred w = (r, w')"
  shows "legal (store w')" and "(case r of
      Inl e \<Rightarrow> view (store w') = view (store w)
    | Inr i \<Rightarrow> i = wa_ID cred \<and> (\<exists>c. view (store w) i = Some c \<and>
        view (store w') = (view (store w))(i \<mapsto> PasskeyCredential_WithSignCount c (wa_SignCount cred))))"
proof -
  obtain x v where u: "PasskeyRepository_UpdateSignCount P (wa_ID cred) (wa_SignCount cred) w = (x, v)" by fastforce
  with assms have r: "w' = v" "r = map_sum ErrPassed (\<lambda>_. wa_ID cred) x"
    by (cases x; auto simp: login_update_def)+
  from update [OF assms(1), of "wa_ID cred" "wa_SignCount cred"] u
  show "legal (store w')" "(case r of Inl e \<Rightarrow> view (store w') = view (store w)
      | Inr i \<Rightarrow> i = wa_ID cred \<and> (\<exists>c. view (store w) i = Some c \<and>
          view (store w') = (view (store w))(i \<mapsto> PasskeyCredential_WithSignCount c (wa_SignCount cred))))"
    by (cases x; auto simp: r reads_def writes_def settled_def split: option.splits)+
qed

lemma finish_login:
  assumes "legal (store w)" and "auth_repo a = P" and "FinishLogin L a state response w = (r, w')"
  shows "legal (store w') \<and> (case r of
      Inl e \<Rightarrow> view (store w') = view (store w)
    | Inr i \<Rightarrow> (\<exists>s u cs parsed n cred c. openState L a state = Inr s \<and> NewUserID (session_UserID L s) = Inr u \<and>
        set cs = user_passkeys (view (store w)) u \<and> ParseAssertion L response = Inr parsed \<and>
        wa_ValidateLogin L (auth_wa a) n (user_with u [] cs) s parsed = Inr cred \<and> \<not> wa_CloneWarning cred \<and>
        i = wa_ID cred \<and> view (store w) i = Some c \<and>
        view (store w') = (view (store w))(i \<mapsto> PasskeyCredential_WithSignCount c (wa_SignCount cred))))"
proof -
  obtain x v where ch: "login_checks L a state response w = (x, v)" by fastforce
  note keep = checks_keep [OF assms(1,2) ch]
  show ?thesis
  proof (cases x)
    case (Inl e)
    then show ?thesis using keep ch assms(3) by (auto simp: FinishLogin_def)
  next
    case (Inr cred)
    from ch [unfolded Inr] obtain s u cs w1 parsed where o: "openState L a state = Inr s"
      "NewUserID (session_UserID L s) = Inr u" "PasskeyRepository_ListByUser (auth_repo a) u w = (Inr cs, w1)"
      "ParseAssertion L response = Inr parsed"
      "wa_ValidateLogin L (auth_wa a) (pos w1) (user_with u [] cs) s parsed = Inr cred" "\<not> wa_CloneWarning cred"
      by (rule login_checks_Inr)
    have cs: "set cs = user_passkeys (view (store w)) u"
      using list_by_user [OF assms(1), of u] o(3) assms(2) by (auto simp: reads_def)
    have up: "login_update a cred v = (r, w')" using assms(3) ch Inr by (simp add: FinishLogin_def)
    from update_effect [OF keep(1) assms(2) up] show ?thesis
      unfolding keep(2) using o cs by (cases r) (simp, fastforce)
  qed
qed

lemma login_sound:
  assumes "legal (store w)" and "auth_repo a = P" and "counts_advance L"
  shows "login_effect view legal L a state w (FinishLogin L a state response w)"
proof (cases "FinishLogin L a state response w")
  case (Pair r w')
  note f = finish_login [OF assms(1,2) Pair]
  show ?thesis
  proof (cases r)
    case (Inl e)
    then show ?thesis using f Pair by (simp add: login_effect_def)
  next
    case (Inr i)
    with f obtain s u cs parsed n cred c where
      o: "openState L a state = Inr s" "NewUserID (session_UserID L s) = Inr u"
      "set cs = user_passkeys (view (store w)) u"
      "wa_ValidateLogin L (auth_wa a) n (user_with u [] cs) s parsed = Inr cred" "\<not> wa_CloneWarning cred"
      "i = wa_ID cred" "view (store w) i = Some c"
      "view (store w') = (view (store w))(i \<mapsto> PasskeyCredential_WithSignCount c (wa_SignCount cred))"
      and ok: "legal (store w')" by auto
    from counts_advanceD [OF assms(3) o(4,5)] obtain d where d: "d \<in> set cs" "PasskeyCredential_ID d = wa_ID cred"
      "PasskeyCredential_SignCount d < wa_SignCount cred \<or> PasskeyCredential_SignCount d = 0 \<and> wa_SignCount cred = 0"
      by blast
    then have "d = c" "PasskeyCredential_UserID d = u" using o(3,6,7) by (simp_all add: user_passkeys_def)
    moreover have "UserID_String u = session_UserID L s" using NewUserID_Inr [OF o(2)] by simp
    ultimately show ?thesis
      unfolding login_effect_def Pair fst_conv snd_conv Inr sum.case using o(1,7,8) ok d(3)
      by (intro conjI exI [of _ s] exI [of _ c] exI [of _ "wa_SignCount cred"])
         (simp_all add: PasskeyCredential_WithSignCount_def)
  qed
qed

end

end
