(* ===== verification/SqliteFactors.thy ===== *)
theory SqliteFactors
  imports Sqlite MemoryFactors AesGcm
begin

text \<open>
  The \<open>TOTPRepo\<close> and the \<open>PasskeyRepo\<close> of \<open>src/adapters/sqlite\<close>. A TOTP secret is stored as the
  base64 text of its encryption when the repository has a \<open>SecretCipher\<close>, else as it is. Over the
  plaintext constructor the repository is an interpretation of the contract of the TOTP port; the
  encrypted one gives back what was stored for every cipher that meets the contract of its port,
  AES-GCM in particular.
\<close>

section \<open>TOTP secrets and used steps\<close>

record secret_row =
  secret_row_user_id :: string
  secret_row_secret :: string

record step_row =
  step_row_user_id :: string
  step_row_last_step :: int

record totp_rows =
  secret_rows :: "secret_row list"
  step_rows :: "step_row list"

type_synonym cipher = "(totp_rows world) SecretCipher"

text \<open>A repository is its cipher; \<open>NewTOTPRepo\<close> panics without one.\<close>

definition sqlite_NewTOTPRepo :: "'c option \<Rightarrow> 'c option res" where
  "sqlite_NewTOTPRepo cipher =
     (case cipher of
        None \<Rightarrow> Inl (GoPanic ''sqlite: NewTOTPRepo requires a non-nil SecretCipher; use NewPlaintextTOTPRepo for tests'')
      | Some c \<Rightarrow> Inr (Some c))"

definition sqlite_NewPlaintextTOTPRepo :: "'c option" where
  "sqlite_NewPlaintextTOTPRepo = None"

definition sqlite_encodeSecret ::
  "('w SecretCipher) option \<Rightarrow> TOTPSecret \<Rightarrow> 'w \<Rightarrow> string res \<times> 'w" where
  "sqlite_encodeSecret cipher secret w =
     (case cipher of
        None \<Rightarrow> (Inr (TOTPSecret_String secret), w)
      | Some c \<Rightarrow>
          and_then (SecretCipher_Encrypt c (TOTPSecret_String secret) w) (\<lambda>ct w.
            (Inr (base64_std_encode ct), w)))"

definition sqlite_decodeSecret ::
  "(nat \<Rightarrow> nat) \<Rightarrow> ('w SecretCipher) option \<Rightarrow> string \<Rightarrow> TOTPSecret res" where
  "sqlite_decodeSecret uu cipher stored =
     (case cipher of
        None \<Rightarrow> TOTPSecretFromString uu stored
      | Some c \<Rightarrow>
          (case base64_std_decode stored of
             None \<Rightarrow> Inl (ErrExternal ''illegal base64 data'')
           | Some ct \<Rightarrow>
               (case SecretCipher_Decrypt c ct of
                  Inl e \<Rightarrow> Inl e
                | Inr pt \<Rightarrow> TOTPSecretFromString uu pt)))"

definition sqlite_GetSecret ::
  "(nat \<Rightarrow> nat) \<Rightarrow> cipher option \<Rightarrow> UserID \<Rightarrow> totp_rows world \<Rightarrow> TOTPSecret res \<times> totp_rows world" where
  "sqlite_GetSecret uu cipher userID =
     checked (\<lambda>s. (fetched (\<lambda>r. sqlite_decodeSecret uu cipher (secret_row_secret r)) id
       (select_row (\<lambda>r. secret_row_user_id r = UserID_String userID) (secret_rows s)), s))"

definition on_secrets ::
  "(secret_row list \<Rightarrow> 'a \<times> secret_row list) \<Rightarrow> totp_rows \<Rightarrow> 'a \<times> totp_rows" where
  "on_secrets f s = (case f (secret_rows s) of (r, t) \<Rightarrow> (r, s\<lparr>secret_rows := t\<rparr>))"

definition on_steps ::
  "(step_row list \<Rightarrow> 'a \<times> step_row list) \<Rightarrow> totp_rows \<Rightarrow> 'a \<times> totp_rows" where
  "on_steps f s = (case f (step_rows s) of (r, t) \<Rightarrow> (r, s\<lparr>step_rows := t\<rparr>))"

definition sqlite_SetSecret ::
  "cipher option \<Rightarrow> UserID \<Rightarrow> TOTPSecret \<Rightarrow> totp_rows world \<Rightarrow> unit res \<times> totp_rows world" where
  "sqlite_SetSecret cipher userID secret w =
     and_then (sqlite_encodeSecret cipher secret w) (\<lambda>stored.
       checked (on_secrets (\<lambda>t. dropping (upsert secret_row_user_id
         \<lparr>secret_row_user_id = UserID_String userID, secret_row_secret = stored\<rparr> t))))"

definition sqlite_DeleteSecret ::
  "UserID \<Rightarrow> totp_rows world \<Rightarrow> unit res \<times> totp_rows world" where
  "sqlite_DeleteSecret userID =
     checked (on_secrets (\<lambda>t. looking requireOneRow
       (delete_where (\<lambda>r. secret_row_user_id r = UserID_String userID) t)))"

definition sqlite_ConsumeStep ::
  "UserID \<Rightarrow> int \<Rightarrow> totp_rows world \<Rightarrow> bool res \<times> totp_rows world" where
  "sqlite_ConsumeStep userID step =
     checked (on_steps (\<lambda>t. looking affected
       (upsert_where step_row_user_id (\<lambda>x r. step_row_last_step x < step_row_last_step r)
          (\<lambda>x r. x\<lparr>step_row_last_step := step_row_last_step r\<rparr>)
          \<lparr>step_row_user_id = UserID_String userID, step_row_last_step = step\<rparr> t)))"

definition sqlite_TOTPRepo ::
  "(nat \<Rightarrow> nat) \<Rightarrow> cipher option \<Rightarrow> (totp_rows world) TOTPRepository" where
  "sqlite_TOTPRepo uu cipher =
     \<lparr>TOTPRepository_GetSecret = sqlite_GetSecret uu cipher,
      TOTPRepository_SetSecret = sqlite_SetSecret cipher,
      TOTPRepository_DeleteSecret = sqlite_DeleteSecret,
      TOTPRepository_ConsumeStep = Some sqlite_ConsumeStep\<rparr>"

section \<open>Passkeys\<close>

record passkey_row =
  passkey_row_id :: string
  passkey_row_user_id :: string
  passkey_row_public_key :: string
  passkey_row_sign_count :: int
  passkey_row_name :: string

definition uint32SignCount :: "int \<Rightarrow> u32 res" where
  "uint32SignCount count =
     (if count < 0 \<or> count > 2 ^ 32 - 1
      then Inl (ErrExternal (''sqlite: sign_count out of range: '' @ decimal_int count))
      else Inr (word_of_int count))"

definition encode_passkey :: "PasskeyCredential \<Rightarrow> passkey_row" where
  "encode_passkey c =
     \<lparr>passkey_row_id = PasskeyCredential_ID c,
      passkey_row_user_id = UserID_String (PasskeyCredential_UserID c),
      passkey_row_public_key = PasskeyCredential_PublicKey c,
      passkey_row_sign_count = uint (PasskeyCredential_SignCount c),
      passkey_row_name = PasskeyCredential_Name c\<rparr>"

definition decode_passkey :: "passkey_row \<Rightarrow> PasskeyCredential res" where
  "decode_passkey r =
     (case NewUserID (passkey_row_user_id r) of
        Inl e \<Rightarrow> Inl e
      | Inr u \<Rightarrow>
          (case uint32SignCount (passkey_row_sign_count r) of
             Inl e \<Rightarrow> Inl e
           | Inr sc \<Rightarrow>
               Inr \<lparr>PasskeyCredential_ID = passkey_row_id r, PasskeyCredential_UserID = u,
                    PasskeyCredential_PublicKey = passkey_row_public_key r,
                    PasskeyCredential_SignCount = sc, PasskeyCredential_Name = passkey_row_name r\<rparr>))"

definition passkey_unique :: "(string \<times> (passkey_row \<Rightarrow> string)) list" where
  "passkey_unique = [(''authgo_passkeys.id'', passkey_row_id)]"

definition sqlite_PasskeyAdd ::
  "sqlite \<Rightarrow> PasskeyCredential \<Rightarrow> passkey_row list world \<Rightarrow> unit res \<times> passkey_row list world" where
  "sqlite_PasskeyAdd q c =
     checked (\<lambda>t. dropping (insert_row (unique_error q) passkey_unique (encode_passkey c) t))"

definition sqlite_PasskeyListByUser ::
  "UserID \<Rightarrow> passkey_row list world \<Rightarrow> PasskeyCredential list res \<times> passkey_row list world" where
  "sqlite_PasskeyListByUser userID =
     query_rows (\<lambda>r. passkey_row_user_id r = UserID_String userID) decode_passkey id"

definition sqlite_PasskeyUpdateSignCount ::
  "string \<Rightarrow> u32 \<Rightarrow> passkey_row list world \<Rightarrow> unit res \<times> passkey_row list world" where
  "sqlite_PasskeyUpdateSignCount i count =
     checked (\<lambda>t. looking requireOneRow
       (update_where (\<lambda>r. passkey_row_id r = i) (\<lambda>r. r\<lparr>passkey_row_sign_count := uint count\<rparr>) t))"

definition sqlite_PasskeyDelete ::
  "string \<Rightarrow> passkey_row list world \<Rightarrow> unit res \<times> passkey_row list world" where
  "sqlite_PasskeyDelete i = checked (\<lambda>t. dropping (delete_where (\<lambda>r. passkey_row_id r = i) t))"

definition sqlite_PasskeyRepo :: "sqlite \<Rightarrow> (passkey_row list world) PasskeyRepository" where
  "sqlite_PasskeyRepo q =
     \<lparr>PasskeyRepository_Add = sqlite_PasskeyAdd q,
      PasskeyRepository_ListByUser = sqlite_PasskeyListByUser,
      PasskeyRepository_UpdateSignCount = sqlite_PasskeyUpdateSignCount,
      PasskeyRepository_Delete = sqlite_PasskeyDelete\<rparr>"

section \<open>The plaintext repository meets the contract of the TOTP port\<close>

definition secrets_of :: "secret_row list \<Rightarrow> (string, string) gomap" where
  "secrets_of = row_map secret_row_user_id (\<lambda>r. Inr (secret_row_secret r))"

definition used_steps_of :: "step_row list \<Rightarrow> (string, int) gomap" where
  "used_steps_of = row_map step_row_user_id (\<lambda>r. Inr (step_row_last_step r))"

definition totp_rows_view :: "totp_rows \<Rightarrow> totp_tables" where
  "totp_rows_view s = (gomap_get (secrets_of (secret_rows s)), gomap_get (used_steps_of (step_rows s)))"

definition totp_rows_ok :: "totp_rows \<Rightarrow> bool" where
  "totp_rows_ok s \<longleftrightarrow> rows_ok secret_row_user_id (\<lambda>r. Inr (secret_row_secret r) :: string res) (secret_rows s) \<and>
     rows_ok step_row_user_id (\<lambda>r. Inr (step_row_last_step r) :: int res) (step_rows s)"

interpretation qsec: row_table secret_row_user_id "\<lambda>r. Inr (secret_row_secret r) :: string res" .

interpretation qstep: row_table step_row_user_id "\<lambda>r. Inr (step_row_last_step r) :: int res" .

lemma select_secret:
  "select_row (\<lambda>r. secret_row_user_id r = u) t = None \<longleftrightarrow> gomap_get (secrets_of t) u = None"
  "select_row (\<lambda>r. secret_row_user_id r = u) t = Some r \<Longrightarrow> gomap_get (secrets_of t) u = Some (secret_row_secret r)"
  by (auto simp: secrets_of_def qsec.get)

text \<open>The conditional upsert accepts a step exactly if it is past the last one.\<close>

lemma consume_rows:
  fixes u :: string and step :: int
  assumes "rows_ok step_row_user_id (\<lambda>r. Inr (step_row_last_step r) :: int res) t"
  defines "out \<equiv> upsert_where step_row_user_id (\<lambda>x r. step_row_last_step x < step_row_last_step r)
      (\<lambda>x r. x\<lparr>step_row_last_step := step_row_last_step r\<rparr>)
      \<lparr>step_row_user_id = u, step_row_last_step = step\<rparr> t"
  shows "fst (looking affected out) = Inr (fresh_step (gomap_get (used_steps_of t)) u step) \<and>
    rows_ok step_row_user_id (\<lambda>r. Inr (step_row_last_step r) :: int res) (snd out) \<and>
    used_steps_of (snd out) = (if fresh_step (gomap_get (used_steps_of t)) u step
       then gomap_set u step (used_steps_of t) else used_steps_of t) \<and>
    (\<not> fresh_step (gomap_get (used_steps_of t)) u step \<longrightarrow> snd out = t)"
proof (cases "u \<in> step_row_user_id ` set t")
  case False
  let ?r = "\<lparr>step_row_user_id = u, step_row_last_step = step\<rparr>"
  have "gomap_get (used_steps_of t) u = None"
    using False unfolding qstep.in_keys by (simp add: used_steps_of_def)
  moreover have "out = (rows 1, t @ [?r])" using False by (simp add: out_def upsert_where_def)
  moreover note qstep.append [OF assms(1), of ?r step]
  ultimately show ?thesis
    using False by (simp add: fresh_step_def used_steps_of_def affected_def)
next
  case True
  then obtain x where x: "x \<in> set t" "step_row_user_id x = u" by auto
  have only: "y = x" if "y \<in> set t" "step_row_user_id y = u" for y
    using qstep.one_row [OF assms(1) that(1) x(1)] that(2) x(2) by simp
  have get: "gomap_get (used_steps_of t) u = Some (step_row_last_step x)"
    using qstep.entry [OF assms(1) x(1)] x(2) by (auto simp: used_steps_of_def)
  let ?p = "\<lambda>y. step_row_user_id y = u \<and> step_row_last_step y < step"
  let ?f = "\<lambda>y. y\<lparr>step_row_last_step := step\<rparr>"
  have out: "out = update_where ?p ?f t" using True by (simp add: out_def upsert_where_def)
  show ?thesis
  proof (cases "step_row_last_step x < step")
    case True
    then have "length (filter ?p t) \<noteq> 0" using x by (auto simp: filter_empty_conv)
    moreover have same: "map (\<lambda>y. if ?p y then ?f y else y) t = map (\<lambda>y. if step_row_user_id y = u then ?f y else y) t"
      using only True by auto
    moreover have "u \<in> step_row_user_id ` set t" using x by auto
    note qstep.replace [OF assms(1) this, of ?f step]
    ultimately show ?thesis
      using True get unfolding out update_where_def same by (simp add: fresh_step_def used_steps_of_def)
  next
    case False
    then have "filter ?p t = []" "map (\<lambda>y. if ?p y then ?f y else y) t = t"
      using only by (auto simp: filter_empty_conv intro!: map_idI)
    then show ?thesis
      using False get assms(1) by (simp add: out fresh_step_def update_where_def affected_def)
  qed
qed

lemma sqlite_ConsumeStep_run:
  assumes "totp_rows_ok (store w)"
  shows "if fresh_step (snd (totp_rows_view (store w))) (UserID_String u) step
    then writes totp_rows_view totp_rows_ok w
      (fst (totp_rows_view (store w)), (snd (totp_rows_view (store w)))(UserID_String u \<mapsto> step)) True
      (sqlite_ConsumeStep u step w)
    else reads totp_rows_view totp_rows_ok w (Inr False) (sqlite_ConsumeStep u step w)"
proof -
  let ?f = "\<lambda>t. looking affected
       (upsert_where step_row_user_id (\<lambda>x r. step_row_last_step x < step_row_last_step r)
          (\<lambda>x r. x\<lparr>step_row_last_step := step_row_last_step r\<rparr>)
          \<lparr>step_row_user_id = UserID_String u, step_row_last_step = step\<rparr> t)"
  note rows = consume_rows [of "step_rows (store w)" "UserID_String u" step]
  have "rows_ok step_row_user_id (\<lambda>r. Inr (step_row_last_step r) :: int res) (step_rows (store w))"
    using assms by (simp add: totp_rows_ok_def)
  note rows = rows [OF this]
  show ?thesis
  proof (cases "fresh_step (snd (totp_rows_view (store w))) (UserID_String u) step")
    case True
    have "writes totp_rows_view totp_rows_ok w
      (fst (totp_rows_view (store w)), (snd (totp_rows_view (store w)))(UserID_String u \<mapsto> step)) True
      (sqlite_ConsumeStep u step w)"
      unfolding sqlite_ConsumeStep_def
      by (rule checked_writes)
         (use assms rows True in \<open>auto simp: on_steps_def totp_rows_view_def totp_rows_ok_def
            prod.case_eq_if\<close>)
    with True show ?thesis by simp
  next
    case False
    have "reads totp_rows_view totp_rows_ok w (Inr False) (sqlite_ConsumeStep u step w)"
      unfolding sqlite_ConsumeStep_def
      by (rule checked_reads)
         (use assms rows False in \<open>auto simp: on_steps_def totp_rows_view_def prod.case_eq_if\<close>)
    with False show ?thesis by simp
  qed
qed

lemma sqlite_plain_GetSecret:
  assumes "totp_rows_ok (store w)"
  shows "reads totp_rows_view totp_rows_ok w (secret_at uu (fst (totp_rows_view (store w))) (UserID_String u))
    (sqlite_GetSecret uu None u w)"
  unfolding sqlite_GetSecret_def
  by (rule checked_reads)
     (use assms select_secret [of "UserID_String u" "secret_rows (store w)"] in
       \<open>auto simp: secret_at_def totp_rows_view_def fetched_def sqlite_decodeSecret_def
          split: option.splits sum.splits\<close>)

lemma set_secret_rows:
  fixes u x :: string
  assumes "totp_rows_ok s"
  defines "out \<equiv> on_secrets (\<lambda>t. dropping (upsert secret_row_user_id
      \<lparr>secret_row_user_id = u, secret_row_secret = x\<rparr> t)) s"
  shows "fst out = Inr () \<and> totp_rows_ok (snd out) \<and>
    totp_rows_view (snd out) = ((fst (totp_rows_view s))(u \<mapsto> x), snd (totp_rows_view s))"
  using assms qsec.upsert [of "secret_rows s" "\<lparr>secret_row_user_id = u, secret_row_secret = x\<rparr>" x]
  by (auto simp: on_secrets_def totp_rows_ok_def totp_rows_view_def secrets_of_def prod.case_eq_if)

interpretation qt: totp_store uu "sqlite_TOTPRepo uu None" totp_rows_view totp_rows_ok sqlite_ConsumeStep
  for uu
proof
  show "TOTPRepository_ConsumeStep (sqlite_TOTPRepo uu None) = Some sqlite_ConsumeStep"
    by (simp add: sqlite_TOTPRepo_def)
  fix w :: "totp_rows world"
  assume ok: "totp_rows_ok (store w)"
  show "reads totp_rows_view totp_rows_ok w
      (secret_at uu (fst (totp_rows_view (store w))) (UserID_String u))
      (TOTPRepository_GetSecret (sqlite_TOTPRepo uu None) u w)" for u
    using sqlite_plain_GetSecret [OF ok] by (simp add: sqlite_TOTPRepo_def)
  show "writes totp_rows_view totp_rows_ok w
      ((fst (totp_rows_view (store w)))(UserID_String u \<mapsto> TOTPSecret_String sec), snd (totp_rows_view (store w))) ()
      (TOTPRepository_SetSecret (sqlite_TOTPRepo uu None) u sec w)" for u sec
    unfolding sqlite_TOTPRepo_def TOTPRepository.simps sqlite_SetSecret_def sqlite_encodeSecret_def
      option.case and_then_simps
    by (rule checked_writes)
       (use ok set_secret_rows [OF ok, of "UserID_String u" "TOTPSecret_String sec"] in auto)
  show "(if fresh_step (snd (totp_rows_view (store w))) (UserID_String u) step
       then writes totp_rows_view totp_rows_ok w
              (fst (totp_rows_view (store w)), (snd (totp_rows_view (store w)))(UserID_String u \<mapsto> step)) True
       else reads totp_rows_view totp_rows_ok w (Inr False)) (sqlite_ConsumeStep u step w)" for u step
    using sqlite_ConsumeStep_run [OF ok, of u step] by (simp split: if_splits)
qed

section \<open>Passkeys behave like the in-memory map\<close>

interpretation qp: keyed_rows passkey_row_id decode_passkey PasskeyCredential_ID
  by unfold_locales (auto simp: decode_passkey_def split: sum.splits)

definition passkeys_of :: "passkey_row list \<Rightarrow> passkey_map" where
  "passkeys_of = row_map passkey_row_id decode_passkey"

definition passkeys_ok :: "passkey_row list \<Rightarrow> bool" where
  "passkeys_ok = rows_ok passkey_row_id decode_passkey"

text \<open>A credential whose user would be accepted again by \<open>NewUserID\<close>.\<close>

definition user_accepted :: "PasskeyCredential \<Rightarrow> bool" where
  "user_accepted c \<longleftrightarrow> NewUserID (UserID_String (PasskeyCredential_UserID c)) = Inr (PasskeyCredential_UserID c)"

lemma uint32SignCount_uint [simp]: "uint32SignCount (uint (n :: u32)) = Inr n"
  using uint_lt2p [of n] by (simp add: uint32SignCount_def)

lemma decode_encode_passkey [simp]:
  "user_accepted c \<Longrightarrow> decode_passkey (encode_passkey c) = Inr c"
  "passkey_row_id (encode_passkey c) = PasskeyCredential_ID c"
  by (simp_all add: decode_passkey_def encode_passkey_def user_accepted_def)

lemma decode_passkey_user:
  "decode_passkey r = Inr c \<Longrightarrow> UserID_String (PasskeyCredential_UserID c) = passkey_row_user_id r"
  by (auto simp: decode_passkey_def NewUserID_def split: sum.splits if_splits)

lemma decode_passkey_count:
  "decode_passkey r = Inr c \<Longrightarrow>
   decode_passkey (r\<lparr>passkey_row_sign_count := uint n\<rparr>) = Inr (PasskeyCredential_WithSignCount c n)"
  by (auto simp: decode_passkey_def PasskeyCredential_WithSignCount_def split: sum.splits)

lemma map_clonePasskey [simp]: "map clonePasskey cs = cs"
  by (rule map_idI) (simp add: clonePasskey_def)

lemma sqlite_PasskeyAdd_mirrors:
  assumes "passkeys_ok (store w)" and "user_accepted c"
    and "gomap_get (passkeys_of (store w)) (PasskeyCredential_ID c) = None"
  shows "mirrors passkeys_of passkeys_ok w (sqlite_PasskeyAdd q c w) (PasskeyRepo_Add c)"
  using qp.insert_mirrors [of w "encode_passkey c" c] assms
  by (simp add: sqlite_PasskeyAdd_def PasskeyRepo_Add_def passkeys_of_def passkeys_ok_def passkey_unique_def
      clonePasskey_def)

lemma sqlite_PasskeyUpdateSignCount_mirrors:
  assumes "passkeys_ok (store w)"
  shows "mirrors passkeys_of passkeys_ok w (sqlite_PasskeyUpdateSignCount i n w) (PasskeyRepo_UpdateSignCount i n)"
  using assms unfolding sqlite_PasskeyUpdateSignCount_def PasskeyRepo_UpdateSignCount_def passkeys_of_def
    passkeys_ok_def
  by (rule qp.update_one_mirrors) (simp add: decode_passkey_count)

lemma sqlite_PasskeyDelete_mirrors:
  assumes "passkeys_ok (store w)"
  shows "mirrors passkeys_of passkeys_ok w (sqlite_PasskeyDelete i w) (PasskeyRepo_Delete i)"
  using assms unfolding sqlite_PasskeyDelete_def PasskeyRepo_Delete_def passkeys_of_def passkeys_ok_def
  by (rule qp.delete_key_mirrors)

lemma sqlite_PasskeyList_simulates:
  assumes "passkeys_ok (store w)"
  shows "simulates passkeys_of passkeys_ok w (sqlite_PasskeyListByUser u w) (PasskeyRepo_ListByUser u)"
  using qp.list_simulates [of w "\<lambda>r. passkey_row_user_id r = UserID_String u"
      "\<lambda>c. UserID_String (PasskeyCredential_UserID c) = UserID_String u" id] assms
  by (simp add: sqlite_PasskeyListByUser_def PasskeyRepo_ListByUser_def passkeys_of_def passkeys_ok_def
      decode_passkey_user sum.map_id)

section \<open>Secrets through a cipher\<close>

text \<open>Encrypting touches no table.\<close>

definition cipher_apart :: "cipher \<Rightarrow> bool" where
  "cipher_apart c \<longleftrightarrow> (\<forall>pt w. store (snd (SecretCipher_Encrypt c pt w)) = store w)"

lemma aesgcm_apart: "cipher_apart (Cipher_SecretCipher c)"
proof -
  have "store (snd (Cipher_Encrypt c pt w)) = store w" for pt and w :: "totp_rows world"
  proof -
    obtain r v where rr: "rand_read (AEAD_NonceSize (Cipher_aead c)) w = (r, v)" by fastforce
    from rr show ?thesis
      by (rule rand_read_cases) (use rr in \<open>auto simp: Cipher_Encrypt_def\<close>)
  qed
  then show ?thesis by (simp add: cipher_apart_def Cipher_SecretCipher_def)
qed

lemma decode_encode_secret:
  assumes "\<And>c. cipher = Some c \<Longrightarrow> cipher_ok c"
    and "TOTPSecretFromString uu (TOTPSecret_String sec) = Inr sec"
    and "sqlite_encodeSecret cipher sec w = (Inr x, w')"
  shows "sqlite_decodeSecret uu cipher x = Inr sec"
proof (cases cipher)
  case None
  with assms(2,3) show ?thesis by (simp add: sqlite_encodeSecret_def sqlite_decodeSecret_def)
next
  case (Some c)
  with assms(3) have "and_then (SecretCipher_Encrypt c (TOTPSecret_String sec) w) (\<lambda>ct w.
      (Inr (base64_std_encode ct), w)) = (Inr x, w')" by (simp add: sqlite_encodeSecret_def)
  then obtain ct v where e: "SecretCipher_Encrypt c (TOTPSecret_String sec) w = (Inr ct, v)"
    and x: "x = base64_std_encode ct" by (rule and_then_InrE) simp
  from e assms(1) [OF Some] have "SecretCipher_Decrypt c ct = Inr (TOTPSecret_String sec)"
    by (auto simp: cipher_ok_def)
  with Some x assms(2) show ?thesis by (simp add: sqlite_decodeSecret_def)
qed

lemma encode_secret_store:
  assumes "\<And>c. cipher = Some c \<Longrightarrow> cipher_apart c" and "sqlite_encodeSecret cipher sec w = (r, w')"
  shows "store w' = store w"
proof (cases cipher)
  case None
  with assms(2) show ?thesis by (simp add: sqlite_encodeSecret_def)
next
  case (Some c)
  obtain e v where e: "SecretCipher_Encrypt c (TOTPSecret_String sec) w = (e, v)" by fastforce
  with assms(1) [OF Some] have "store v = store w" unfolding cipher_apart_def by (metis snd_conv)
  with Some e assms(2) show ?thesis by (cases e) (auto simp: sqlite_encodeSecret_def)
qed

text \<open>An enrolled secret is read back by the repository that stored it, through the encryption
  and the base64 text, for every cipher that meets the contract of its port.\<close>

theorem sqlite_secret_roundtrip:
  assumes "\<And>c. cipher = Some c \<Longrightarrow> cipher_ok c \<and> cipher_apart c"
    and "totp_rows_ok (store w)" and "TOTPSecretFromString uu (TOTPSecret_String sec) = Inr sec"
    and "sqlite_SetSecret cipher u sec w = (Inr (), w1)" and "sqlite_GetSecret uu cipher u w1 = (r, w2)"
    and "quiet w1"
  shows "r = Inr sec \<and> store w2 = store w1"
proof -
  let ?row = "\<lambda>x. \<lparr>secret_row_user_id = UserID_String u, secret_row_secret = x\<rparr>"
  obtain x w0 where e: "sqlite_encodeSecret cipher sec w = (Inr x, w0)"
    and c: "checked (on_secrets (\<lambda>t. dropping (upsert secret_row_user_id (?row x) t))) w0 = (Inr (), w1)"
    using assms(4) unfolding sqlite_SetSecret_def by (rule and_then_InrE)
  have dec: "sqlite_decodeSecret uu cipher x = Inr sec"
    by (rule decode_encode_secret [OF _ assms(3) e]) (simp add: assms(1))
  have "store w0 = store w" by (rule encode_secret_store [OF _ e]) (simp add: assms(1))
  with assms(2) have ok: "totp_rows_ok (store w0)" by simp
  have "runs (on_secrets (\<lambda>t. dropping (upsert secret_row_user_id (?row x) t))) w0 (Inr (), w1)"
    using runs_checked c by metis
  with set_secret_rows [OF ok, of "UserID_String u" x]
  have "gomap_get (secrets_of (secret_rows (store w1))) (UserID_String u) = Some x"
    by (auto simp: runs_def totp_rows_view_def dest!: sym [of "(Inr (), store w1)"])
  then obtain row where "select_row (\<lambda>r. secret_row_user_id r = UserID_String u) (secret_rows (store w1)) = Some row"
    and "secret_row_secret row = x"
    using select_secret [of "UserID_String u" "secret_rows (store w1)"] by fastforce
  with dec assms(5) show ?thesis
    unfolding sqlite_GetSecret_def by (auto simp: fetched_def prod_eq_iff checked_quiet [OF assms(6)])
qed

theorem sqlite_secret_roundtrip_witness:
  "fst (sqlite_GetSecret id (Some (Cipher_SecretCipher (Cipher toy_aead))) (UserID ''u'')
     (snd (sqlite_SetSecret (Some (Cipher_SecretCipher (Cipher toy_aead))) (UserID ''u'')
        (TOTPSecret (base32_encode ''12345'')) (calm 5 0 \<lparr>secret_rows = [], step_rows = []\<rparr>)))) =
   Inr (TOTPSecret (base32_encode ''12345''))"
proof -
  let ?c = "Some (Cipher_SecretCipher (Cipher toy_aead))" and ?sec = "TOTPSecret (base32_encode ''12345'')"
  let ?w = "calm 5 0 \<lparr>secret_rows = [], step_rows = []\<rparr> :: totp_rows world"
  have s: "\<exists>x. sqlite_SetSecret ?c (UserID ''u'') ?sec ?w = (Inr (), calm 5 (Suc (Suc 0)) x)"
    by (auto simp: sqlite_SetSecret_def sqlite_encodeSecret_def Cipher_SecretCipher_def
        Cipher_Encrypt_def on_secrets_def upsert_def upsert_where_def)
  then obtain x where x: "sqlite_SetSecret ?c (UserID ''u'') ?sec ?w = (Inr (), calm 5 (Suc (Suc 0)) x)" ..
  have f: "TOTPSecretFromString id (TOTPSecret_String ?sec) = Inr ?sec" by (simp add: generated_secret_accepted)
  have ok: "totp_rows_ok (store ?w)" by (simp add: totp_rows_ok_def rows_ok_def)
  obtain r w2 where g: "sqlite_GetSecret id ?c (UserID ''u'') (calm 5 (Suc (Suc 0)) x) = (r, w2)" by fastforce
  have "r = Inr ?sec"
    by (rule sqlite_secret_roundtrip [OF _ ok f x g, THEN conjunct1])
       (simp_all add: aesgcm_cipher_ok aesgcm_apart)
  with x g show ?thesis by simp
qed

end
