(* ===== verification/PgstoreFactors.thy ===== *)
theory PgstoreFactors
  imports Pgstore SqliteFactors
begin

text \<open>
  The \<open>TOTPRepo\<close> and the \<open>PasskeyRepo\<close> of \<open>src/adapters/pgstore\<close>. The tables have the columns of
  their SQLite counterparts (\<open>SqliteFactors\<close>), \<open>BIGINT\<close> and \<open>BYTEA\<close> taking the place of \<open>INTEGER\<close>
  and \<open>BLOB\<close>. The TOTP statements are the same statements, so the plaintext repository is an
  interpretation of the contract of the port, and secrets survive every cipher that meets its own.
\<close>

section \<open>TOTP secrets and used steps\<close>

definition pg_NewTOTPRepo :: "'c option \<Rightarrow> 'c option res" where
  "pg_NewTOTPRepo cipher =
     (case cipher of
        None \<Rightarrow> Inl (GoPanic ''pgstore: NewTOTPRepo requires a non-nil SecretCipher; use NewPlaintextTOTPRepo for tests'')
      | Some c \<Rightarrow> Inr (Some c))"

definition pg_NewPlaintextTOTPRepo :: "'c option" where
  "pg_NewPlaintextTOTPRepo = None"

definition pg_encodeSecret ::
  "('w SecretCipher) option \<Rightarrow> TOTPSecret \<Rightarrow> 'w \<Rightarrow> string res \<times> 'w" where
  "pg_encodeSecret cipher secret w =
     (case cipher of
        None \<Rightarrow> (Inr (TOTPSecret_String secret), w)
      | Some c \<Rightarrow>
          and_then (SecretCipher_Encrypt c (TOTPSecret_String secret) w) (\<lambda>ct w.
            (Inr (base64_std_encode ct), w)))"

definition pg_decodeSecret ::
  "(nat \<Rightarrow> nat) \<Rightarrow> ('w SecretCipher) option \<Rightarrow> string \<Rightarrow> TOTPSecret res" where
  "pg_decodeSecret uu cipher stored =
     (case cipher of
        None \<Rightarrow> TOTPSecretFromString uu stored
      | Some c \<Rightarrow>
          (case base64_std_decode stored of
             None \<Rightarrow> Inl (ErrExternal ''illegal base64 data'')
           | Some ct \<Rightarrow>
               (case SecretCipher_Decrypt c ct of
                  Inl e \<Rightarrow> Inl e
                | Inr pt \<Rightarrow> TOTPSecretFromString uu pt)))"

definition pg_GetSecret ::
  "(nat \<Rightarrow> nat) \<Rightarrow> cipher option \<Rightarrow> UserID \<Rightarrow> totp_rows world \<Rightarrow> TOTPSecret res \<times> totp_rows world" where
  "pg_GetSecret uu cipher userID =
     checked (\<lambda>s. (fetched (\<lambda>r. pg_decodeSecret uu cipher (secret_row_secret r)) id
       (select_row (\<lambda>r. secret_row_user_id r = UserID_String userID) (secret_rows s)), s))"

definition pg_SetSecret ::
  "cipher option \<Rightarrow> UserID \<Rightarrow> TOTPSecret \<Rightarrow> totp_rows world \<Rightarrow> unit res \<times> totp_rows world" where
  "pg_SetSecret cipher userID secret w =
     and_then (pg_encodeSecret cipher secret w) (\<lambda>stored.
       checked (on_secrets (\<lambda>t. dropping (upsert secret_row_user_id
         \<lparr>secret_row_user_id = UserID_String userID, secret_row_secret = stored\<rparr> t))))"

definition pg_DeleteSecret ::
  "UserID \<Rightarrow> totp_rows world \<Rightarrow> unit res \<times> totp_rows world" where
  "pg_DeleteSecret userID =
     checked (on_secrets (\<lambda>t. looking requireOneRow
       (delete_where (\<lambda>r. secret_row_user_id r = UserID_String userID) t)))"

definition pg_ConsumeStep ::
  "UserID \<Rightarrow> int \<Rightarrow> totp_rows world \<Rightarrow> bool res \<times> totp_rows world" where
  "pg_ConsumeStep userID step =
     checked (on_steps (\<lambda>t. looking affected
       (upsert_where step_row_user_id (\<lambda>x r. step_row_last_step x < step_row_last_step r)
          (\<lambda>x r. x\<lparr>step_row_last_step := step_row_last_step r\<rparr>)
          \<lparr>step_row_user_id = UserID_String userID, step_row_last_step = step\<rparr> t)))"

definition pg_TOTPRepo ::
  "(nat \<Rightarrow> nat) \<Rightarrow> cipher option \<Rightarrow> (totp_rows world) TOTPRepository" where
  "pg_TOTPRepo uu cipher =
     \<lparr>TOTPRepository_GetSecret = pg_GetSecret uu cipher,
      TOTPRepository_SetSecret = pg_SetSecret cipher,
      TOTPRepository_DeleteSecret = pg_DeleteSecret,
      TOTPRepository_ConsumeStep = Some pg_ConsumeStep\<rparr>"

section \<open>Passkeys\<close>

definition pg_uint32SignCount :: "int \<Rightarrow> u32 res" where
  "pg_uint32SignCount count =
     (if count < 0 \<or> count > 2 ^ 32 - 1
      then Inl (ErrExternal (''pgstore: sign_count out of range: '' @ decimal_int count))
      else Inr (word_of_int count))"

definition pg_decode_passkey :: "passkey_row \<Rightarrow> PasskeyCredential res" where
  "pg_decode_passkey r =
     (case NewUserID (passkey_row_user_id r) of
        Inl e \<Rightarrow> Inl e
      | Inr u \<Rightarrow>
          (case pg_uint32SignCount (passkey_row_sign_count r) of
             Inl e \<Rightarrow> Inl e
           | Inr sc \<Rightarrow>
               Inr \<lparr>PasskeyCredential_ID = passkey_row_id r, PasskeyCredential_UserID = u,
                    PasskeyCredential_PublicKey = passkey_row_public_key r,
                    PasskeyCredential_SignCount = sc, PasskeyCredential_Name = passkey_row_name r\<rparr>))"

definition pg_passkey_unique :: "(string \<times> (passkey_row \<Rightarrow> string)) list" where
  "pg_passkey_unique = [(''authgo_passkeys_pkey'', passkey_row_id)]"

definition pg_PasskeyAdd ::
  "pg \<Rightarrow> PasskeyCredential \<Rightarrow> passkey_row list world \<Rightarrow> unit res \<times> passkey_row list world" where
  "pg_PasskeyAdd p c =
     checked (\<lambda>t. dropping (insert_row (pg_unique_error p) pg_passkey_unique (encode_passkey c) t))"

definition pg_PasskeyListByUser ::
  "UserID \<Rightarrow> passkey_row list world \<Rightarrow> PasskeyCredential list res \<times> passkey_row list world" where
  "pg_PasskeyListByUser userID =
     query_rows (\<lambda>r. passkey_row_user_id r = UserID_String userID) pg_decode_passkey id"

definition pg_PasskeyUpdateSignCount ::
  "string \<Rightarrow> u32 \<Rightarrow> passkey_row list world \<Rightarrow> unit res \<times> passkey_row list world" where
  "pg_PasskeyUpdateSignCount i count =
     checked (\<lambda>t. looking requireOneRow
       (update_where (\<lambda>r. passkey_row_id r = i) (\<lambda>r. r\<lparr>passkey_row_sign_count := uint count\<rparr>) t))"

definition pg_PasskeyDelete ::
  "string \<Rightarrow> passkey_row list world \<Rightarrow> unit res \<times> passkey_row list world" where
  "pg_PasskeyDelete i = checked (\<lambda>t. dropping (delete_where (\<lambda>r. passkey_row_id r = i) t))"

definition pg_PasskeyRepo :: "pg \<Rightarrow> (passkey_row list world) PasskeyRepository" where
  "pg_PasskeyRepo p =
     \<lparr>PasskeyRepository_Add = pg_PasskeyAdd p,
      PasskeyRepository_ListByUser = pg_PasskeyListByUser,
      PasskeyRepository_UpdateSignCount = pg_PasskeyUpdateSignCount,
      PasskeyRepository_Delete = pg_PasskeyDelete\<rparr>"

section \<open>The same statements as SQLite\<close>

lemma pg_totp_same [simp]:
  "pg_encodeSecret cipher sec w = sqlite_encodeSecret cipher sec w"
  "pg_decodeSecret uu cipher x = sqlite_decodeSecret uu cipher x"
  "pg_GetSecret uu c u v = sqlite_GetSecret uu c u v"
  "pg_SetSecret c u sec v = sqlite_SetSecret c u sec v"
  "pg_ConsumeStep u step v = sqlite_ConsumeStep u step v"
proof -
  show e: "pg_encodeSecret cipher sec w = sqlite_encodeSecret cipher sec w" for cipher and w :: 'a
    by (simp add: pg_encodeSecret_def sqlite_encodeSecret_def)
  show d: "pg_decodeSecret uu cipher x = sqlite_decodeSecret uu cipher x" for cipher :: "('w SecretCipher) option" and x
    by (simp add: pg_decodeSecret_def sqlite_decodeSecret_def)
  show "pg_GetSecret uu c u v = sqlite_GetSecret uu c u v" by (simp add: pg_GetSecret_def sqlite_GetSecret_def d)
  have "pg_encodeSecret c sec v = sqlite_encodeSecret c sec v"
    by (simp add: pg_encodeSecret_def sqlite_encodeSecret_def)
  then show "pg_SetSecret c u sec v = sqlite_SetSecret c u sec v" by (simp add: pg_SetSecret_def sqlite_SetSecret_def)
  show "pg_ConsumeStep u step v = sqlite_ConsumeStep u step v"
    by (simp add: pg_ConsumeStep_def sqlite_ConsumeStep_def)
qed

interpretation pt: totp_store uu "pg_TOTPRepo uu None" totp_rows_view totp_rows_ok pg_ConsumeStep for uu
proof
  show "TOTPRepository_ConsumeStep (pg_TOTPRepo uu None) = Some pg_ConsumeStep" by (simp add: pg_TOTPRepo_def)
  fix w :: "totp_rows world"
  assume ok: "totp_rows_ok (store w)"
  show "reads totp_rows_view totp_rows_ok w
      (secret_at uu (fst (totp_rows_view (store w))) (UserID_String u))
      (TOTPRepository_GetSecret (pg_TOTPRepo uu None) u w)" for u
    using qt.get_secret [OF ok, of uu u] by (simp add: pg_TOTPRepo_def sqlite_TOTPRepo_def)
  show "writes totp_rows_view totp_rows_ok w
      ((fst (totp_rows_view (store w)))(UserID_String u \<mapsto> TOTPSecret_String sec), snd (totp_rows_view (store w))) ()
      (TOTPRepository_SetSecret (pg_TOTPRepo uu None) u sec w)" for u sec
    using qt.set_secret [OF ok, of u sec uu] by (simp add: pg_TOTPRepo_def sqlite_TOTPRepo_def)
  show "(if fresh_step (snd (totp_rows_view (store w))) (UserID_String u) step
       then writes totp_rows_view totp_rows_ok w
              (fst (totp_rows_view (store w)), (snd (totp_rows_view (store w)))(UserID_String u \<mapsto> step)) True
       else reads totp_rows_view totp_rows_ok w (Inr False)) (pg_ConsumeStep u step w)" for u step
    using qt.consume [OF ok, of u step] by simp
qed

section \<open>Passkeys behave like the in-memory map\<close>

interpretation pp: keyed_rows passkey_row_id pg_decode_passkey PasskeyCredential_ID
  by unfold_locales (auto simp: pg_decode_passkey_def split: sum.splits)

definition pg_passkeys_of :: "passkey_row list \<Rightarrow> passkey_map" where
  "pg_passkeys_of = row_map passkey_row_id pg_decode_passkey"

definition pg_passkeys_ok :: "passkey_row list \<Rightarrow> bool" where
  "pg_passkeys_ok = rows_ok passkey_row_id pg_decode_passkey"

lemma pg_uint32SignCount_uint [simp]: "pg_uint32SignCount (uint (n :: u32)) = Inr n"
  using uint_lt2p [of n] by (simp add: pg_uint32SignCount_def)

lemma pg_decode_encode_passkey [simp]:
  "user_accepted c \<Longrightarrow> pg_decode_passkey (encode_passkey c) = Inr c"
  by (simp add: pg_decode_passkey_def encode_passkey_def user_accepted_def)

lemma pg_decode_passkey_user:
  "pg_decode_passkey r = Inr c \<Longrightarrow> UserID_String (PasskeyCredential_UserID c) = passkey_row_user_id r"
  by (auto simp: pg_decode_passkey_def NewUserID_def split: sum.splits if_splits)

lemma pg_decode_passkey_count:
  "pg_decode_passkey r = Inr c \<Longrightarrow>
   pg_decode_passkey (r\<lparr>passkey_row_sign_count := uint n\<rparr>) = Inr (PasskeyCredential_WithSignCount c n)"
  by (auto simp: pg_decode_passkey_def PasskeyCredential_WithSignCount_def split: sum.splits)

lemma pg_PasskeyAdd_mirrors:
  assumes "pg_passkeys_ok (store w)" and "user_accepted c"
    and "gomap_get (pg_passkeys_of (store w)) (PasskeyCredential_ID c) = None"
  shows "mirrors pg_passkeys_of pg_passkeys_ok w (pg_PasskeyAdd p c w) (PasskeyRepo_Add c)"
  using pp.insert_mirrors [of w "encode_passkey c" c] assms
  by (simp add: pg_PasskeyAdd_def PasskeyRepo_Add_def pg_passkeys_of_def pg_passkeys_ok_def pg_passkey_unique_def
      clonePasskey_def)

text \<open>A taken ID: Postgres refuses the row and keeps the table, the in-memory map overwrites the credential,
  whoever owns it.\<close>

lemma pg_PasskeyAdd_taken:
  assumes "pg_passkeys_ok (store w)" and "gomap_get (pg_passkeys_of (store w)) (PasskeyCredential_ID c) \<noteq> None"
  shows "pg_PasskeyAdd p c w = (case external_check w of (Inl e, w1) \<Rightarrow> (Inl e, w1)
    | (Inr _, w1) \<Rightarrow> (Inl (pg_unique_error p ''authgo_passkeys_pkey''), w1))"
proof -
  have "passkey_row_id (encode_passkey c) \<in> passkey_row_id ` set (store w)"
    using assms by (simp add: pp.in_keys pg_passkeys_of_def pg_passkeys_ok_def encode_passkey_def)
  then have "insert_row (pg_unique_error p) pg_passkey_unique (encode_passkey c) (store w) =
      (Inl (pg_unique_error p ''authgo_passkeys_pkey''), store w)"
    by (auto simp: insert_row_def pg_passkey_unique_def)
  moreover have "put_store (store w) (tick w) = tick w" using put_store_same [of "tick w"] by simp
  ultimately show ?thesis
    by (simp add: pg_PasskeyAdd_def checked_def dropping_def looking_def external_check_def get_store_def split: option.split)
qed

lemma memory_PasskeyAdd_overwrites:
  "quiet w \<Longrightarrow> \<exists>m. PasskeyRepo_Add c w = (Inr (), m) \<and> gomap_get (store m) (PasskeyCredential_ID c) = Some c"
  by (simp add: PasskeyRepo_Add_def checked_def external_check_def quiet_def clonePasskey_def)

lemma passkey_id_taken:
  assumes "pg_passkeys_ok (store w)" and "gomap_get (pg_passkeys_of (store w)) (PasskeyCredential_ID c) \<noteq> None"
  shows "isl (fst (pg_PasskeyAdd p c w)) \<and> store (snd (pg_PasskeyAdd p c w)) = store w \<and>
    (quiet w \<longrightarrow> fst (pg_PasskeyAdd p c w) = Inl (pg_unique_error p ''authgo_passkeys_pkey'') \<and>
      (\<exists>m. PasskeyRepo_Add c (seen_as pg_passkeys_of w) = (Inr (), m) \<and> gomap_get (store m) (PasskeyCredential_ID c) = Some c))"
proof -
  have "quiet w \<Longrightarrow> quiet (seen_as pg_passkeys_of w)" by (simp add: quiet_def seen_as_def)
  from this [THEN memory_PasskeyAdd_overwrites, of c] show ?thesis
    by (auto simp: pg_PasskeyAdd_taken [OF assms] external_check_def quiet_def split: option.split)
qed

lemma pg_PasskeyUpdateSignCount_mirrors:
  assumes "pg_passkeys_ok (store w)"
  shows "mirrors pg_passkeys_of pg_passkeys_ok w (pg_PasskeyUpdateSignCount i n w) (PasskeyRepo_UpdateSignCount i n)"
  using assms unfolding pg_PasskeyUpdateSignCount_def PasskeyRepo_UpdateSignCount_def pg_passkeys_of_def
    pg_passkeys_ok_def
  by (rule pp.update_one_mirrors) (simp add: pg_decode_passkey_count)

lemma pg_PasskeyDelete_mirrors:
  assumes "pg_passkeys_ok (store w)"
  shows "mirrors pg_passkeys_of pg_passkeys_ok w (pg_PasskeyDelete i w) (PasskeyRepo_Delete i)"
  using assms unfolding pg_PasskeyDelete_def PasskeyRepo_Delete_def pg_passkeys_of_def pg_passkeys_ok_def
  by (rule pp.delete_key_mirrors)

lemma pg_PasskeyList_simulates:
  assumes "pg_passkeys_ok (store w)"
  shows "simulates pg_passkeys_of pg_passkeys_ok w (pg_PasskeyListByUser u w) (PasskeyRepo_ListByUser u)"
  using pp.list_simulates [of w "\<lambda>r. passkey_row_user_id r = UserID_String u"
      "\<lambda>c. UserID_String (PasskeyCredential_UserID c) = UserID_String u" id] assms
  by (simp add: pg_PasskeyListByUser_def PasskeyRepo_ListByUser_def pg_passkeys_of_def pg_passkeys_ok_def
      pg_decode_passkey_user sum.map_id)

text \<open>C33: the second factors in Postgres. Listing, deleting and counting passkeys are the in-memory operations
  on the decoded rows, sign counts of the full 32-bit range included. Adding one is the in-memory
  operation if its ID is new; on an ID that is taken the adapters differ: Postgres answers with the
  driver's unique violation and keeps its table, the in-memory map overwrites the credential, whoever
  owns it. A TOTP step is accepted exactly if it is past the last one accepted for the user, and is
  then recorded; a verification that succeeds has consumed a step of its window that was not consumed
  before.\<close>

theorem pg_factors_refine:
  assumes "pg_passkeys_ok (store w)" and "totp_rows_ok (store v)"
  shows "mirrors pg_passkeys_of pg_passkeys_ok w (pg_PasskeyUpdateSignCount i n w) (PasskeyRepo_UpdateSignCount i n) \<and>
    mirrors pg_passkeys_of pg_passkeys_ok w (pg_PasskeyDelete i w) (PasskeyRepo_Delete i) \<and>
    simulates pg_passkeys_of pg_passkeys_ok w (pg_PasskeyListByUser u w) (PasskeyRepo_ListByUser u) \<and>
    (user_accepted c \<longrightarrow> gomap_get (pg_passkeys_of (store w)) (PasskeyCredential_ID c) = None \<longrightarrow>
       mirrors pg_passkeys_of pg_passkeys_ok w (pg_PasskeyAdd p c w) (PasskeyRepo_Add c)) \<and>
    (gomap_get (pg_passkeys_of (store w)) (PasskeyCredential_ID c) \<noteq> None \<longrightarrow>
       isl (fst (pg_PasskeyAdd p c w)) \<and> store (snd (pg_PasskeyAdd p c w)) = store w \<and>
       (quiet w \<longrightarrow> fst (pg_PasskeyAdd p c w) = Inl (pg_unique_error p ''authgo_passkeys_pkey'') \<and>
          (\<exists>m. PasskeyRepo_Add c (seen_as pg_passkeys_of w) = (Inr (), m) \<and> gomap_get (store m) (PasskeyCredential_ID c) = Some c))) \<and>
    (if fresh_step (snd (totp_rows_view (store v))) (UserID_String u) step
     then writes totp_rows_view totp_rows_ok v
            (fst (totp_rows_view (store v)), (snd (totp_rows_view (store v)))(UserID_String u \<mapsto> step)) True
     else reads totp_rows_view totp_rows_ok v (Inr False)) (pg_ConsumeStep u step v) \<and>
    (NewTOTPService (pg_TOTPRepo uu None) cfg = Inr s \<longrightarrow>
       (case TOTPService_Verify s u code v of
          (Inr _, v') \<Rightarrow> (\<exists>sec now step. secret_at uu (fst (totp_rows_view (store v))) (UserID_String u) = Inr sec \<and>
             read_between v now v' \<and> TOTPConfig_validateStep cfg sec code now = Inr step \<and>
             fresh_step (snd (totp_rows_view (store v))) (UserID_String u) step \<and>
             snd (totp_rows_view (store v')) = (snd (totp_rows_view (store v)))(UserID_String u \<mapsto> step))
        | (Inl _, v') \<Rightarrow> totp_rows_view (store v') = totp_rows_view (store v)))"
proof -
  have "case TOTPService_Verify s u code v of
          (Inr _, v') \<Rightarrow> (\<exists>sec now step. secret_at uu (fst (totp_rows_view (store v))) (UserID_String u) = Inr sec \<and>
             read_between v now v' \<and> TOTPConfig_validateStep cfg sec code now = Inr step \<and>
             fresh_step (snd (totp_rows_view (store v))) (UserID_String u) step \<and>
             snd (totp_rows_view (store v')) = (snd (totp_rows_view (store v)))(UserID_String u \<mapsto> step))
        | (Inl _, v') \<Rightarrow> totp_rows_view (store v') = totp_rows_view (store v)"
    if "NewTOTPService (pg_TOTPRepo uu None) cfg = Inr s"
  proof (cases "TOTPService_Verify s u code v")
    case (Pair r v')
    with pt.verify_effect [OF assms(2) that Pair] show ?thesis by (cases r) fastforce+
  qed
  then show ?thesis
    using assms pt.consume [OF assms(2), of u step] passkey_id_taken [OF assms(1), of c p]
    by (simp only: pg_PasskeyUpdateSignCount_mirrors pg_PasskeyDelete_mirrors pg_PasskeyList_simulates
        pg_PasskeyAdd_mirrors simp_thms) (simp add: pg_PasskeyAdd_mirrors)
qed

definition pg_toy_passkey :: "string \<Rightarrow> PasskeyCredential" where
  "pg_toy_passkey u = \<lparr>PasskeyCredential_ID = ''c'', PasskeyCredential_UserID = UserID u, PasskeyCredential_PublicKey = ''k'',
     PasskeyCredential_SignCount = 4294967295, PasskeyCredential_Name = ''n''\<rparr>"

text \<open>The first credential of an ID is added, a second one, of another user, is refused.\<close>

theorem pg_factors_refine_witness:
  "mirrors pg_passkeys_of pg_passkeys_ok (calm 5 0 []) (pg_PasskeyAdd toy_pg (pg_toy_passkey ''u'') (calm 5 0 []))
     (PasskeyRepo_Add (pg_toy_passkey ''u'')) \<and>
   (let t = [encode_passkey (pg_toy_passkey ''u'')] in
    store (snd (pg_PasskeyAdd toy_pg (pg_toy_passkey ''v'') (calm 5 0 t))) = t)"
proof -
  let ?c = "pg_toy_passkey ''u''" and ?d = "pg_toy_passkey ''v''" and ?t = "[encode_passkey (pg_toy_passkey ''u'')]"
  have a: "pg_passkeys_ok (store (calm 5 0 []))" by (simp add: pg_passkeys_ok_def pp.empty_ok)
  have b: "totp_rows_ok (store (calm 5 0 \<lparr>secret_rows = [], step_rows = []\<rparr>))" by (simp add: totp_rows_ok_def rows_ok_def)
  have "trim_space ''u'' = ''u''" by (rule trim_space_id) (auto simp: ascii_def byte_def is_space_def)
  then have c: "user_accepted ?c" by (simp add: user_accepted_def NewUserID_def maxUserIDLen_def pg_toy_passkey_def)
  have d: "gomap_get (pg_passkeys_of (store (calm 5 0 []))) (PasskeyCredential_ID ?c) = None"
    by (simp add: pg_passkeys_of_def pp.empty_ok)
  have e: "pg_passkeys_ok (store (calm 5 0 ?t))"
    using c by (simp add: pg_passkeys_ok_def rows_ok_def)
  have "row_map passkey_row_id pg_decode_passkey ?t = [(''c'', ?c)]"
    using c by (simp add: row_map_def encode_passkey_def [of ?c] pg_toy_passkey_def)
  then have f: "gomap_get (pg_passkeys_of (store (calm 5 0 ?t))) (PasskeyCredential_ID ?d) \<noteq> None"
    by (simp add: pg_passkeys_of_def gomap_get_def pg_toy_passkey_def)
  from pg_factors_refine [OF a b, where c = ?c and p = toy_pg] c d
    pg_factors_refine [OF e b, where c = ?d and p = toy_pg] f
  show ?thesis unfolding Let_def by simp
qed

end
