(* ===== verification/WebauthnProps.thy ===== *)
theory WebauthnProps
  imports Webauthn PgstoreFactors
begin

text \<open>
  The properties of the passkey ceremonies: the signed state, what a finished login proves and
  changes, that a login that was begun is decided by the library on the session it made, and what two
  logins of one credential do to its count.
\<close>

section \<open>A small library, and a run with it\<close>

definition toy_webauthn :: "(unit, string, unit, string, string) webauthn" where
  "toy_webauthn =
     \<lparr>wa_New = \<lambda>c. if rp_RPID c = [] \<or> rp_RPOrigins c = [] then Inl ''refused'' else Inr (), wa_BeginRegistration = \<lambda>rp n us uv. Inr ((), waUser_id us),
      wa_CreateCredential = \<lambda>rp n us s r. Inl ''refused'',
      wa_BeginLogin = \<lambda>rp n us uv. Inr ((), waUser_id us),
      wa_ValidateLogin = \<lambda>rp n us s r. (case find (\<lambda>d. wa_ID d = r) (waUser_creds us) of
          None \<Rightarrow> Inl ''unknown credential''
        | Some d \<Rightarrow> Inr (d\<lparr>wa_SignCount := wa_SignCount d + 1,
            wa_CloneWarning := \<not> wa_SignCount d < wa_SignCount d + 1\<rparr>)),
      ParseCreation = Inr, ParseAssertion = Inr, marshal_options = \<lambda>_. Inr ''o'',
      marshal_session = \<lambda>s. Inr (CHR ''s'' # s), unmarshal_session = \<lambda>raw. Some (tl raw),
      session_UserID = \<lambda>s. s\<rparr>"

definition toy_config :: waConfig where
  "toy_config = \<lparr>RPDisplayName = ''n'', RPID = ''d'', RPOrigins = [''https://d''], StateKey = replicate 32 (CHR ''k''), UserVerification = []\<rparr>"

definition toy_authenticator :: "(unit, passkey_map world) waAuthenticator" where
  "toy_authenticator = \<lparr>auth_wa = (), auth_repo = PasskeyRepo, auth_uv = ''required'', auth_stateKey = replicate 32 (CHR ''k'')\<rparr>"

definition toy_passkey :: PasskeyCredential where
  "toy_passkey = \<lparr>PasskeyCredential_ID = ''i'', PasskeyCredential_UserID = UserID ''u'',
     PasskeyCredential_PublicKey = ''k'', PasskeyCredential_SignCount = 4, PasskeyCredential_Name = ''n''\<rparr>"

abbreviation toy_world :: "passkey_map world" where
  "toy_world \<equiv> calm 0 0 [(''i'', toy_passkey)]"

definition toy_blob :: string where
  "toy_blob = base64_encode True ''su'' @ ''.'' @ base64_encode True (hmac_sha256 (replicate 32 (CHR ''k'')) ''su'')"

lemma toy_new: "Authenticator_New toy_webauthn toy_config PasskeyRepo = Inr toy_authenticator"
  by (simp add: Authenticator_New_def toy_webauthn_def toy_config_def toy_authenticator_def StateKeyMinBytes_def)

lemma toy_sessions: "sessions_kept toy_webauthn"
  by (simp add: sessions_kept_def toy_webauthn_def)

lemma toy_counts: "counts_advance toy_webauthn"
  by (auto simp: counts_advance_def toy_webauthn_def find_Some_iff split: option.splits)

lemma toy_seal: "sealState toy_webauthn toy_authenticator ''u'' = Inr toy_blob"
  by (simp add: sealState_def toy_webauthn_def toy_authenticator_def pure_call_def toy_blob_def)

lemma toy_open: "openState toy_webauthn toy_authenticator toy_blob = Inr ''u''"
  using openState_sealed [OF toy_seal, of "''su''"] by (simp add: toy_webauthn_def)

lemma toy_map_ok: "passkey_map_ok (store toy_world)"
  by (simp add: passkey_map_ok_def gomap_ok_def gomap_get_def toy_passkey_def)

lemma toy_user: "NewUserID ''u'' = Inr (UserID ''u'')"
proof -
  have "trim_space ''u'' = ''u''" by (rule trim_space_id) (auto simp: ascii_def byte_def is_space_def)
  then show ?thesis by (simp add: NewUserID_def length_bounds)
qed

lemma toy_list: "PasskeyRepo_ListByUser (UserID ''u'') toy_world = (Inr [toy_passkey], calm 0 1 [(''i'', toy_passkey)])"
  by (simp add: PasskeyRepo_ListByUser_def gomap_values_def toy_passkey_def clonePasskey_def)

lemma toy_user_with:
  "user_with (UserID ''u'') [] cs =
     \<lparr>waUser_id = ''u'', waUser_name = ''u'', waUser_displayName = ''u'', waUser_creds = map stored_credential cs\<rparr>"
  by (simp add: user_with_def Let_def)

lemma toy_finish: "fst (FinishLogin toy_webauthn toy_authenticator toy_blob ''i'' toy_world) = Inr ''i''"
proof -
  have repo: "auth_repo toy_authenticator = PasskeyRepo" by (simp add: toy_authenticator_def)
  have u: "NewUserID (session_UserID toy_webauthn ''u'') = Inr (UserID ''u'')"
    by (simp add: toy_webauthn_def toy_user)
  have l: "loadUser toy_authenticator (UserID ''u'') [] toy_world =
      (Inr (user_with (UserID ''u'') [] [toy_passkey]), calm 0 1 [(''i'', toy_passkey)])"
    by (simp add: loadUser_Inr repo PasskeyRepo_def toy_list)
  let ?c = "(stored_credential toy_passkey)\<lparr>wa_SignCount := 5\<rparr>"
  have v: "wa_ValidateLogin toy_webauthn rp n (user_with (UserID ''u'') [] [toy_passkey]) s ''i'' = Inr ?c" for rp n s
    by (simp add: toy_webauthn_def toy_user_with stored_credential_def toy_passkey_def)
  have p: "ParseAssertion toy_webauthn ''i'' = Inr ''i''" by (simp add: toy_webauthn_def)
  have c: "\<not> wa_CloneWarning ?c" "wa_ID ?c = ''i''" by (simp_all add: stored_credential_def toy_passkey_def)
  have "login_checks toy_webauthn toy_authenticator toy_blob ''i'' toy_world = (Inr ?c, calm 0 (Suc (Suc 0)) [(''i'', toy_passkey)])"
    by (simp add: login_checks_def toy_open u l p v c pure_call_def library_call_def)
  then show ?thesis
    by (simp add: FinishLogin_def login_update_def repo PasskeyRepo_def c PasskeyRepo_UpdateSignCount_def gomap_get_def)
qed

section \<open>The signed state\<close>

lemma New_Inr:
  assumes "Authenticator_New L cfg repo = Inr a"
  shows "32 \<le> length (auth_stateKey a) \<and> auth_stateKey a = StateKey cfg \<and> auth_repo a = repo \<and>
    auth_uv a = (if UserVerification cfg = [] then ''required'' else UserVerification cfg)"
  using assms by (auto simp: Authenticator_New_def StateKeyMinBytes_def Let_def not_less split: if_splits sum.splits)

text \<open>C25: the ceremony state is what was signed. Under a key of at least 32 bytes, the blob made of a
  session opens to that session, and to nothing under a key that gives its payload another code; whatever
  opens carries a payload and its HMAC-SHA256, and everything else is refused as invalid.\<close>

theorem webauthn_state:
  assumes "Authenticator_New L cfg repo = Inr a" and "sessions_kept L" and "sealState L a s = Inr blob"
  shows "32 \<le> length (auth_stateKey a) \<and> openState L a blob = Inr s \<and>
    (\<forall>b raw. marshal_session L s = Inr raw \<longrightarrow> openState L b blob =
       (if hmac_sha256 (auth_stateKey b) raw = hmac_sha256 (auth_stateKey a) raw then Inr s else Inl ErrInvalidState)) \<and>
    (\<forall>other. case openState L a other of
       Inl e \<Rightarrow> e = ErrInvalidState
     | Inr t \<Rightarrow> (\<exists>p q raw. other = p @ ''.'' @ q \<and> base64_decode True False p = Some raw \<and>
         base64_decode True False q = Some (hmac_sha256 (auth_stateKey a) raw) \<and> unmarshal_session L raw = Some t))"
proof (intro conjI allI impI)
  obtain raw where m: "marshal_session L s = Inr raw"
    using assms(3) by (cases "marshal_session L s") (auto simp: sealState_def pure_call_def)
  then have r: "raw \<noteq> []" "unmarshal_session L raw = Some s" using assms(2) by (auto simp: sessions_kept_def)
  show "32 \<le> length (auth_stateKey a)" using New_Inr [OF assms(1)] by blast
  show "openState L a blob = Inr s" using openState_sealed [OF assms(3) m r(1)] r(2) by simp
  show "openState L b blob =
      (if hmac_sha256 (auth_stateKey b) raw' = hmac_sha256 (auth_stateKey a) raw' then Inr s else Inl ErrInvalidState)"
    if "marshal_session L s = Inr raw'" for b raw'
    using openState_sealed_by [OF assms(3) m r(1), of b] r(2) m that by simp
  show "case openState L a other of Inl e \<Rightarrow> e = ErrInvalidState
     | Inr t \<Rightarrow> (\<exists>p q raw. other = p @ ''.'' @ q \<and> base64_decode True False p = Some raw \<and>
         base64_decode True False q = Some (hmac_sha256 (auth_stateKey a) raw) \<and> unmarshal_session L raw = Some t)"
    for other
  proof (cases "openState L a other")
    case (Inr t)
    then obtain p q raw where o: "split_on (CHR ''.'') other = [p, q]" "base64_decode True False p = Some raw"
      "base64_decode True False q = Some (hmac_sha256 (auth_stateKey a) raw)" "unmarshal_session L raw = Some t"
      unfolding openState_iff by blast
    have "other = p @ ''.'' @ q" using join_split_on [of "CHR ''.''" other] o(1) by simp
    then show ?thesis using o Inr by auto
  qed (auto dest: openState_Inl)
qed

theorem webauthn_state_witness:
  "openState toy_webauthn toy_authenticator toy_blob = Inr ''u'' \<and> 32 \<le> length (auth_stateKey toy_authenticator)"
  using webauthn_state [OF toy_new toy_sessions toy_seal] by blast

text \<open>What a ceremony hands out opens to its session.\<close>

lemma marshalled_opens:
  assumes "marshalPair L a out s = Inr (options, blob)" and "sessions_kept L"
  shows "openState L a blob = Inr s"
proof -
  have seal: "sealState L a s = Inr blob"
    using assms(1) by (cases "sealState L a s") (auto simp: marshalPair_def split: sum.splits)
  then obtain raw where r: "marshal_session L s = Inr raw"
    by (cases "marshal_session L s") (auto simp: sealState_def pure_call_def)
  then have "raw \<noteq> [] \<and> unmarshal_session L raw = Some s" using assms(2) by (auto simp: sessions_kept_def)
  then show ?thesis using openState_sealed [OF seal r] by simp
qed

text \<open>The signature does not say which ceremony a state was made for: a state of a registration
  passes the check of a login.\<close>

lemma registration_state_opens:
  assumes "BeginRegistration L a u d w = (Inr (options, blob), w')" and "sessions_kept L"
  shows "\<exists>n us out s. wa_BeginRegistration L (auth_wa a) n us (auth_uv a) = Inr (out, s) \<and>
    openState L a blob = Inr s \<and> session_UserID L s = UserID_String u"
proof -
  from assms(1) obtain us w1 out s where l: "loadUser a u d w = (Inr us, w1)"
    and b: "wa_BeginRegistration L (auth_wa a) (pos w1) us (auth_uv a) = Inr (out, s)"
    and m: "marshalPair L a out s = Inr (options, blob)"
    by (auto simp: BeginRegistration_def elim!: and_then_InrE)
  from m assms(2) have "openState L a blob = Inr s" by (rule marshalled_opens)
  moreover have "session_UserID L s = waUser_id us" using assms(2) b by (auto simp: sessions_kept_def)
  moreover have "waUser_id us = UserID_String u" using l by (auto simp: loadUser_Inr user_with_def Let_def)
  ultimately show ?thesis using b by metis
qed

section \<open>Finishing a login\<close>

text \<open>A table that mirrors the in-memory map keeps the part of the contract.\<close>

lemma mirrored_counts:
  assumes "\<And>t. legal t \<Longrightarrow> passkey_map_ok (ab t)"
    and "\<And>w u. legal (store w) \<Longrightarrow>
      simulates ab legal w (PasskeyRepository_ListByUser P u w) (PasskeyRepo_ListByUser u)"
    and "\<And>w i n. legal (store w) \<Longrightarrow>
      mirrors ab legal w (PasskeyRepository_UpdateSignCount P i n w) (PasskeyRepo_UpdateSignCount i n)"
  shows "passkey_counts P (\<lambda>t. gomap_get (ab t)) legal"
proof
  fix w :: "'a world" and u
  assume l: "legal (store w)"
  let ?v = "calm 0 0 (ab (store w))"
  have v: "quiet ?v" "store ?v = ab (store w)" by simp_all
  from l have "passkey_map_ok (store ?v)" using assms(1) by simp
  from mp.list_by_user [OF this, of u] obtain cs where
    cs: "set cs = user_passkeys (gomap_get (ab (store w))) u"
    "fst (PasskeyRepo_ListByUser u ?v) = Inr cs"
    "gomap_get (store (snd (PasskeyRepo_ListByUser u ?v))) = gomap_get (ab (store w))"
    by (auto simp: reads_def PasskeyRepo_def)
  show "\<exists>cs. set cs = user_passkeys (gomap_get (ab (store w))) u \<and>
      reads (\<lambda>t. gomap_get (ab t)) legal w (Inr cs) (PasskeyRepository_ListByUser P u w)"
    using assms(2) [OF l, of u] cs v unfolding simulates_def reads_def by (metis (no_types, lifting))
next
  fix w :: "'a world" and i n
  assume l: "legal (store w)"
  obtain r w' where o: "PasskeyRepository_UpdateSignCount P i n w = (r, w')" by fastforce
  with assms(3) [OF l, of i n] have m: "PasskeyRepo_UpdateSignCount i n (seen_as ab w) = (r, seen_as ab w')"
    "settled legal w w'" by (auto simp: mirrors_def)
  have "passkey_map_ok (store (seen_as ab w))" using assms(1) [OF l] by simp
  from mp.update [OF this, of i n] show "(case gomap_get (ab (store w)) i of
         None \<Rightarrow> reads (\<lambda>t. gomap_get (ab t)) legal w (Inl ErrNotFound)
       | Some c \<Rightarrow> writes (\<lambda>t. gomap_get (ab t)) legal w
           ((gomap_get (ab (store w)))(i \<mapsto> PasskeyCredential_WithSignCount c n)) ())
        (PasskeyRepository_UpdateSignCount P i n w)"
    using m by (auto simp: o reads_def writes_def PasskeyRepo_def split: option.splits sum.splits)
qed

lemma sql_maps_ok:
  "passkeys_ok t \<Longrightarrow> passkey_map_ok (passkeys_of t)" "pg_passkeys_ok t \<Longrightarrow> passkey_map_ok (pg_passkeys_of t)"
  using qp.keyed qp.map_ok pp.keyed pp.map_ok
  by (auto simp: passkey_map_ok_def passkeys_of_def passkeys_ok_def pg_passkeys_of_def pg_passkeys_ok_def)

interpretation logins: passkey_logins PasskeyRepo gomap_get passkey_map_ok
  by unfold_locales

interpretation qlogins: passkey_logins "sqlite_PasskeyRepo q" "\<lambda>t. gomap_get (passkeys_of t)" passkeys_ok for q
  unfolding passkey_logins_def
  by (rule mirrored_counts)
     (simp_all add: sql_maps_ok sqlite_PasskeyRepo_def sqlite_PasskeyList_simulates sqlite_PasskeyUpdateSignCount_mirrors)

interpretation plogins: passkey_logins "pg_PasskeyRepo p" "\<lambda>t. gomap_get (pg_passkeys_of t)" pg_passkeys_ok for p
  unfolding passkey_logins_def
  by (rule mirrored_counts)
     (simp_all add: sql_maps_ok pg_PasskeyRepo_def pg_PasskeyList_simulates pg_PasskeyUpdateSignCount_mirrors)

text \<open>C14: what a finished login proves and changes, over each of the three repositories. A login that
  returns a credential presented a state with a valid code for the session of a user, and the credential is
  stored for that user; its stored count moves to the one the library took from the assertion, ahead of
  the old one unless the authenticator counts nothing, and nothing else in the store changes. A login
  that fails, a suspected clone among them, changes nothing.\<close>

theorem webauthn_login_sound:
  assumes "counts_advance L"
    and "passkey_map_ok (store wm)" and "auth_repo am = PasskeyRepo"
    and "passkeys_ok (store wq)" and "auth_repo aq = sqlite_PasskeyRepo q"
    and "pg_passkeys_ok (store wp)" and "auth_repo ap = pg_PasskeyRepo p"
  shows "login_effect gomap_get passkey_map_ok L am state wm (FinishLogin L am state response wm) \<and>
    login_effect (\<lambda>t. gomap_get (passkeys_of t)) passkeys_ok L aq state wq (FinishLogin L aq state response wq) \<and>
    login_effect (\<lambda>t. gomap_get (pg_passkeys_of t)) pg_passkeys_ok L ap state wp (FinishLogin L ap state response wp)"
  using assms logins.login_sound qlogins.login_sound plogins.login_sound by blast

theorem webauthn_login_sound_witness:
  "\<exists>w' n. FinishLogin toy_webauthn toy_authenticator toy_blob ''i'' toy_world = (Inr ''i'', w') \<and> 4 < (n :: u32) \<and>
     gomap_get (store w') ''i'' = Some (toy_passkey\<lparr>PasskeyCredential_SignCount := n\<rparr>)"
proof -
  obtain w' where f: "FinishLogin toy_webauthn toy_authenticator toy_blob ''i'' toy_world = (Inr ''i'', w')"
    using toy_finish by (metis prod.collapse)
  have repo: "auth_repo toy_authenticator = PasskeyRepo" by (simp add: toy_authenticator_def)
  have c: "gomap_get (store toy_world) ''i'' = Some toy_passkey" by (simp add: gomap_get_def)
  have n: "PasskeyCredential_SignCount toy_passkey = 4" by (simp add: toy_passkey_def)
  have e: "passkeys_ok (store (calm 0 0 []))" "pg_passkeys_ok (store (calm 0 0 []))"
    by (simp_all add: passkeys_ok_def pg_passkeys_ok_def qp.empty_ok pp.empty_ok)
  let ?q = "\<lparr>auth_wa = (), auth_repo = sqlite_PasskeyRepo toy_sqlite, auth_uv = [], auth_stateKey = []\<rparr>"
  let ?p = "\<lparr>auth_wa = (), auth_repo = pg_PasskeyRepo toy_pg, auth_uv = [], auth_stateKey = []\<rparr>"
  have r: "auth_repo ?q = sqlite_PasskeyRepo toy_sqlite" "auth_repo ?p = pg_PasskeyRepo toy_pg" by simp_all
  from webauthn_login_sound [OF toy_counts toy_map_ok repo e(1) r(1) e(2) r(2), of toy_blob "''i''"] f
  have "login_effect gomap_get passkey_map_ok toy_webauthn toy_authenticator toy_blob toy_world (Inr ''i'', w')"
    by simp
  then obtain m where
    "4 < (m :: u32)" "gomap_get (store w') ''i'' = Some (toy_passkey\<lparr>PasskeyCredential_SignCount := m\<rparr>)"
    unfolding login_effect_def by (auto simp: c n simp del: calm_simps)
  with f show ?thesis by blast
qed

lemma run_checked: "quiet v \<Longrightarrow> checked f v = (case f (store v) of (r, s) \<Rightarrow> (r, put_store s (tick v)))"
  by (simp add: checked_def external_check_def quiet_def)

lemma memory_list:
  assumes "PasskeyRepo_ListByUser u w = (Inr cs, w1)" and "store v = store w" and "quiet v"
  shows "PasskeyRepo_ListByUser u v = (Inr cs, tick v)"
proof -
  have "fst (PasskeyRepo_ListByUser u w) = Inr (map clonePasskey
      (filter (\<lambda>c. UserID_String (PasskeyCredential_UserID c) = UserID_String u) (gomap_values (store w))))"
    using assms(1) by (cases "fault w (pos w)") (auto simp: PasskeyRepo_ListByUser_def checked_def external_check_def)
  then have "cs = map clonePasskey
      (filter (\<lambda>c. UserID_String (PasskeyCredential_UserID c) = UserID_String u) (gomap_values (store v)))"
    using assms(1,2) by simp
  moreover have "put_store (store v) (tick v) = tick v" using put_store_same [of "tick v"] by simp
  ultimately show ?thesis by (simp add: PasskeyRepo_ListByUser_def run_checked [OF assms(3)])
qed

lemma memory_update:
  assumes "gomap_get (store v) i = Some c" and "quiet v"
  shows "fst (PasskeyRepo_UpdateSignCount i n v) = Inr ()"
  using assms(1) by (simp add: PasskeyRepo_UpdateSignCount_def run_checked [OF assms(2)])

text \<open>The count of an accepted assertion is stored: its credential is one of the user's.\<close>

lemma accepted_update:
  assumes "counts_advance L" and "wa_ValidateLogin L rp n (user_with u d cs) s p = Inr cred" and "\<not> wa_CloneWarning cred"
    and "set cs = user_passkeys (gomap_get (store v)) u" and "quiet v" and "auth_repo a = PasskeyRepo"
  shows "login_update a cred v = (Inr (wa_ID cred), snd (login_update a cred v))"
proof -
  obtain c where "c \<in> set cs" "PasskeyCredential_ID c = wa_ID cred"
    using counts_advanceD [OF assms(1,2)] assms(3) by blast
  then have "gomap_get (store v) (wa_ID cred) = Some c"
    using assms(4) by (auto simp: user_passkeys_def)
  from memory_update [OF this assms(5), of "wa_SignCount cred"] show ?thesis
    by (cases "PasskeyRepo_UpdateSignCount (wa_ID cred) (wa_SignCount cred) v")
       (simp add: login_update_def assms(6) PasskeyRepo_def)
qed

text \<open>C26: a login that was begun is decided on the session it made. If the passkeys are those of its
  begin and nothing external fails, \<open>FinishLogin\<close> shows the library the very session its own
  \<open>BeginLogin\<close> made, with a user built of the same credentials; an accepted assertion returns the
  credential, a clone warning refuses it, and any other verdict is handed on.\<close>

theorem webauthn_login_decided:
  assumes "passkey_map_ok (store w)" and "auth_repo a = PasskeyRepo" and "sessions_kept L" and "counts_advance L"
    and "NewUserID (UserID_String u) = Inr u" and "BeginLogin L a u w = (Inr (options, blob), w1)"
    and "store v = store w" and "quiet v" and "ParseAssertion L response = Inr parsed"
  shows "\<exists>cs n out s m. cs \<noteq> [] \<and> set cs = user_passkeys (gomap_get (store w)) u \<and>
    wa_BeginLogin L (auth_wa a) n (user_with u [] cs) (auth_uv a) = Inr (out, s) \<and>
    fst (FinishLogin L a blob response v) =
      (case wa_ValidateLogin L (auth_wa a) m (user_with u [] cs) s parsed of
         Inl e \<Rightarrow> Inl (ErrPassed (ErrExternal e))
       | Inr cred \<Rightarrow> if wa_CloneWarning cred then Inl ErrCredentialCloned else Inr (wa_ID cred))"
proof -
  from assms(6) obtain cs w2 out s where l: "PasskeyRepo_ListByUser u w = (Inr cs, w2)" "waUser_creds (user_with u [] cs) \<noteq> []"
    and b: "wa_BeginLogin L (auth_wa a) (pos w2) (user_with u [] cs) (auth_uv a) = Inr (out, s)"
    and m: "marshalPair L a out s = Inr (options, blob)"
    by (auto simp: BeginLogin_def loadUser_Inr assms(2) PasskeyRepo_def split: if_splits elim!: and_then_InrE)
  have cs: "cs \<noteq> []" "set cs = user_passkeys (gomap_get (store w)) u"
    using l mp.list_by_user [OF assms(1), of u] by (auto simp: user_with_def Let_def reads_def PasskeyRepo_def)
  from m assms(3) have op: "openState L a blob = Inr s" by (rule marshalled_opens)
  have "session_UserID L s = UserID_String u"
    using assms(3) b by (auto simp: sessions_kept_def user_with_def Let_def)
  then have u: "NewUserID (session_UserID L s) = Inr u" using assms(5) by simp
  define v1 where "v1 = tick v"
  have v1: "PasskeyRepo_ListByUser u v = (Inr cs, v1)" "store v1 = store w" "quiet v1"
    using memory_list [OF l(1) assms(7,8)] assms(7) quiet_mono [OF assms(8), of v1] by (simp_all add: v1_def)
  have load: "loadUser a u [] v = (Inr (user_with u [] cs), v1)"
    using v1(1) by (simp add: loadUser_Inr assms(2) PasskeyRepo_def)
  let ?v = "wa_ValidateLogin L (auth_wa a) (pos v1) (user_with u [] cs) s parsed"
  have "fst (FinishLogin L a blob response v) = (case ?v of
         Inl e \<Rightarrow> Inl (ErrPassed (ErrExternal e))
       | Inr cred \<Rightarrow> if wa_CloneWarning cred then Inl ErrCredentialCloned else Inr (wa_ID cred))"
  proof (cases ?v)
    case (Inr cred)
    have q: "quiet (tick v1)" using v1(3) by (rule quiet_mono) simp
    have "set cs = user_passkeys (gomap_get (store (tick v1))) u" using cs(2) v1(2) by simp
    from accepted_update [OF assms(4) Inr _ this q assms(2)]
    have "login_update a cred (tick v1) = (Inr (wa_ID cred), snd (login_update a cred (tick v1)))"
      if "\<not> wa_CloneWarning cred" using that .
    then show ?thesis
      using Inr by (auto simp: FinishLogin_def login_checks_def op u load assms(9) pure_call_def library_call_def fst_def
          split: prod.splits)
  qed (simp add: FinishLogin_def login_checks_def op u load assms(9) pure_call_def library_call_def)
  with cs b show ?thesis by blast
qed

theorem webauthn_login_decided_witness:
  "\<exists>cs m. cs \<noteq> [] \<and> set cs = {toy_passkey} \<and>
     fst (FinishLogin toy_webauthn toy_authenticator toy_blob ''i'' (calm 0 9 [(''i'', toy_passkey)])) =
       (case wa_ValidateLogin toy_webauthn () m (user_with (UserID ''u'') [] cs) ''u'' ''i'' of
          Inl e \<Rightarrow> Inl (ErrPassed (ErrExternal e))
        | Inr cred \<Rightarrow> if wa_CloneWarning cred then Inl ErrCredentialCloned else Inr (wa_ID cred))"
proof -
  have repo: "auth_repo toy_authenticator = PasskeyRepo" by (simp add: toy_authenticator_def)
  have us: "waUser_id (user_with (UserID ''u'') [] cs) = ''u''" "waUser_creds (user_with (UserID ''u'') [] [toy_passkey]) \<noteq> []"
    for cs by (simp_all add: toy_user_with)
  have bl: "wa_BeginLogin toy_webauthn rp n us uv = Inr ((), waUser_id us)" "marshal_options toy_webauthn x = Inr ''o''"
    for rp n us uv x by (simp_all add: toy_webauthn_def)
  have b: "BeginLogin toy_webauthn toy_authenticator (UserID ''u'') toy_world =
      (Inr (''o'', toy_blob), calm 0 (Suc (Suc 0)) [(''i'', toy_passkey)])"
    unfolding BeginLogin_def loadUser_def repo
    by (simp add: PasskeyRepo_def toy_list us bl library_call_def marshalPair_def pure_call_def toy_seal)
  have p: "ParseAssertion toy_webauthn ''i'' = Inr ''i''" by (simp add: toy_webauthn_def)
  have s: "store (calm 0 9 [(''i'', toy_passkey)]) = store toy_world" "quiet (calm 0 9 [(''i'', toy_passkey)])" by simp_all
  have e: "user_passkeys (gomap_get (store toy_world)) (UserID ''u'') = {toy_passkey}"
    by (auto simp: user_passkeys_def gomap_get_def toy_passkey_def split: if_splits)
  from webauthn_login_decided [OF toy_map_ok repo toy_sessions toy_counts _ b s p] toy_user show ?thesis
    unfolding e by (auto simp: bl us toy_authenticator_def)
qed

section \<open>Two logins of one credential\<close>

text \<open>The checks of a login and its update are two steps of the store. Two logins that both pass the
  checks leave the count of the one that writes last, even where the other's is ahead.\<close>

lemma interleaved_counts:
  assumes "passkey_map_ok (store w)" and "auth_repo a = PasskeyRepo"
    and "login_checks L a state1 response1 w = (Inr c1, w1)" and "login_checks L a state2 response2 w1 = (Inr c2, w2)"
    and "login_update a c2 w2 = (Inr i, w3)" and "login_update a c1 w3 = (Inr i, w4)"
  shows "\<exists>c. gomap_get (store w) i = Some c \<and>
    gomap_get (store w4) i = Some (c\<lparr>PasskeyCredential_SignCount := wa_SignCount c1\<rparr>)"
proof -
  note k1 = logins.checks_keep [OF assms(1,2,3)]
  note k2 = logins.checks_keep [OF k1(1) assms(2,4)]
  note u3 = logins.update_effect [OF k2(1) assms(2,5)]
  note u4 = logins.update_effect [OF u3(1) assms(2,6)]
  from u3(2) u4(2) show ?thesis by (auto simp: k1(2) k2(2) PasskeyCredential_WithSignCount_def)
qed

end
