(* ===== verification/ExampleWorkload.thy ===== *)
theory ExampleWorkload
  imports KeyProps Focus
begin

text \<open>
  \<open>src/example/workload/main.go\<close>: the walkthrough of the workload keys over the in-memory adapter, with
  what it prints. \<open>must(err)\<close> ends the run with the error (\<open>log.Fatal\<close>); an error that is only looked at
  is \<open>examined\<close>. The lemmas in the context of \<open>key_store\<close> decide each call of the service when nothing
  external fails, for every key store.
\<close>

section \<open>Printing\<close>

record console =
  printed :: "string list"

definition println :: "string \<Rightarrow> 'a console_scheme world \<Rightarrow> 'a console_scheme world" where
  "println line w = w\<lparr>store := (store w)\<lparr>printed := printed (store w) @ [line]\<rparr>\<rparr>"

definition ellipsis :: string where "ellipsis = [CHR 0xE2, CHR 0x80, CHR 0xA6]"

text \<open>The verb \<open>%v\<close> of a slice of strings, and \<open>s[:n]\<close>.\<close>

definition show_strings :: "string list \<Rightarrow> string" where
  "show_strings xs = ''['' @ join '' '' xs @ '']''"

definition sliced :: "nat \<Rightarrow> string \<Rightarrow> string res" where
  "sliced n s = (if length s < n then Inl (GoPanic ''slice bounds out of range'') else Inr (take n s))"

text \<open>A call whose error the program looks at; a panic ends it all the same.\<close>

fun is_panic :: "error \<Rightarrow> bool" where
  "is_panic (GoPanic _) = True"
| "is_panic _ = False"

definition examined :: "'a res \<times> 'w \<Rightarrow> ('a res \<Rightarrow> 'w \<Rightarrow> 'b res \<times> 'w) \<Rightarrow> 'b res \<times> 'w" where
  "examined out k =
     (case out of
        (Inl e, w) \<Rightarrow> if is_panic e then (Inl e, w) else k (Inl e) w
      | (Inr x, w) \<Rightarrow> k (Inr x) w)"

lemma examined_simps [simp]:
  "examined (Inr x, w) k = k (Inr x) w"
  "examined (Inl e, w) k = (if is_panic e then (Inl e, w) else k (Inl e) w)"
  by (simp_all add: examined_def)

section \<open>The program\<close>

record key_desk = console +
  desk_keys :: key_maps

abbreviation at_keys :: "(key_maps world \<Rightarrow> 'a \<times> key_maps world) \<Rightarrow> key_desk world \<Rightarrow> 'a \<times> key_desk world" where
  "at_keys \<equiv> on_part desk_keys (\<lambda>m d. d\<lparr>desk_keys := m\<rparr>)"

text \<open>From the rotation on.\<close>

definition workload_rotation ::
  "WorkerID \<Rightarrow> WorkloadToken \<Rightarrow> APIKey \<Rightarrow> key_desk world \<Rightarrow> unit res \<times> key_desk world" where
  "workload_rotation worker token key w =
     (let wl = WorkloadKeyRepo in
      and_then (at_keys (WorkloadKeyService_RotateKey wl (APIKey_id key)) w) (\<lambda>(newKey, newToken) w.
      and_then (sliced 12 (WorkloadToken_String newToken), w) (\<lambda>start w.
      let w = println (''rotated to key '' @ APIKey_id newKey @ ''; new token='' @ start @ ellipsis) w in
      examined (at_keys (WorkloadKeyService_ValidateKey wl token) w) (\<lambda>r w.
      let w = (if r = Inl ErrKeyNotFound then println ''old token rejected after rotation, as expected'' w else w) in
      and_then (at_keys (WorkloadKeyService_ListKeys wl worker) w) (\<lambda>keys w.
      let w = println (''worker has '' @ decimal (length keys) @ '' active key(s)'') w in
      and_then (at_keys (WorkloadKeyService_RevokeAllKeys wl worker) w) (\<lambda>_ w.
      (Inr (), println ''revoked all keys for worker'' w)))))))"

definition workload_walk :: "(nat \<Rightarrow> nat) \<Rightarrow> key_desk world \<Rightarrow> unit res \<times> key_desk world" where
  "workload_walk ul w =
     (let wl = WorkloadKeyRepo in
      and_then (NewWorkerID ''worker-abc123'', w) (\<lambda>worker w.
      and_then (NewScope ul [''memory:read'', ''memory:write'', ''browser:read''], w) (\<lambda>scope w.
      let (now, w) = read_clock w in
      and_then (at_keys (WorkloadKeyService_IssueKey wl
          \<lparr>KeyRequest_WorkerID = worker, KeyRequest_Scope = scope, KeyRequest_ExpiresAt = now + 30 * 24 * (60 * minute)\<rparr>) w)
        (\<lambda>(key, token) w.
      and_then (sliced 12 (WorkloadToken_String token), w) (\<lambda>start w.
      let w = println (''issued key '' @ APIKey_id key @ ''; hand this token to the worker once: '' @ start @ ellipsis) w in
      and_then (at_keys (WorkloadKeyService_ValidateKey wl token) w) (\<lambda>claims w.
      let w = println (''validated: worker='' @ WorkerID_String (KeyClaims_WorkerID claims) @ '' scope='' @
          show_strings (Scope_Actions (KeyClaims_Scope claims))) w in
      and_then (at_keys (WorkloadKeyService_Authorize ul wl token ''memory:write'') w) (\<lambda>_ w.
      let w = println ''authorized memory:write'' w in
      examined (at_keys (WorkloadKeyService_Authorize ul wl token ''email:send'') w) (\<lambda>r w.
      let w = (if r = Inl ErrScopeDenied then println ''denied email:send (not in scope), as expected'' w else w) in
      workload_rotation worker token key w))))))))"

definition workload_main :: "(nat \<Rightarrow> nat) \<Rightarrow> 's world \<Rightarrow> unit res \<times> key_desk world" where
  "workload_main ul w = workload_walk ul (with_store \<lparr>printed = [], desk_keys = NewWorkloadKeyRepo\<rparr> w)"

section \<open>The calls of the service when nothing external fails\<close>

context key_store
begin

lemma validate_stored:
  assumes "legal (store w)" and "view (store w) i = Some sn" and "APIKeySnapshot_Hash sn = HashWorkloadToken tok"
    and "quiet w" and "clock_before w (APIKeySnapshot_ExpiresAt sn)"
  obtains w' where "WorkloadKeyService_ValidateKey P tok w =
      (Inr \<lparr>KeyClaims_WorkerID = WorkerID (APIKeySnapshot_WorkerID sn), KeyClaims_Scope = Scope (APIKeySnapshot_Scope sn)\<rparr>, w')"
    and "settled legal w w'" and "view (store w') = view (store w)"
proof -
  obtain r w' where v: "WorkloadKeyService_ValidateKey P tok w = (r, w')" by fastforce
  note eff = validate_key_effect [OF assms(1) v]
  have only: "j = i \<and> sn' = sn" if "view (store w) j = Some sn'" "APIKeySnapshot_Hash sn' = HashWorkloadToken tok" for j sn'
    using one_hash [OF assms(1) that(1) assms(2)] that assms(2,3) by auto
  have "\<not> APIKeySnapshot_ExpiresAt sn \<le> now" if "read_between w now w'" for now
    using assms(5) that by (auto simp: clock_before_def read_between_def)
  note late = this
  have "r = Inr \<lparr>KeyClaims_WorkerID = WorkerID (APIKeySnapshot_WorkerID sn), KeyClaims_Scope = Scope (APIKeySnapshot_Scope sn)\<rparr>"
  proof (cases r)
    case (Inl e)
    have "hash_taken (view (store w)) (HashWorkloadToken tok)" using assms(2,3) by (auto simp: hash_taken_def)
    with eff Inl assms(4) obtain j sn' now where "view (store w) j = Some sn'"
      "APIKeySnapshot_Hash sn' = HashWorkloadToken tok" "read_between w now w'" "APIKeySnapshot_ExpiresAt sn' \<le> now"
      by fastforce
    with only late show ?thesis by blast
  next
    case (Inr claims)
    with eff only show ?thesis by fastforce
  qed
  then show ?thesis using v eff by (intro that [of w']) auto
qed

lemma validate_unknown:
  assumes "legal (store w)" and "\<not> hash_taken (view (store w)) (HashWorkloadToken tok)" and "quiet w"
  obtains w' where "WorkloadKeyService_ValidateKey P tok w = (Inl ErrKeyNotFound, w')"
    and "settled legal w w'" and "view (store w') = view (store w)"
proof -
  obtain r w' where v: "WorkloadKeyService_ValidateKey P tok w = (r, w')" by fastforce
  note eff = validate_key_effect [OF assms(1) v]
  then have "r = Inl ErrKeyNotFound" using assms(2,3) by (cases r) (auto simp: hash_taken_def)
  then show ?thesis using v eff by (intro that [of w']) auto
qed

lemma authorize_stored:
  assumes "legal (store w)" and "view (store w) i = Some sn" and "APIKeySnapshot_Hash sn = HashWorkloadToken tok"
    and "quiet w" and "clock_before w (APIKeySnapshot_ExpiresAt sn)" and "NewPermission ul permission = Inr p"
  obtains w' where "WorkloadKeyService_Authorize ul P tok permission w =
      (if Scope_Allows (Scope (APIKeySnapshot_Scope sn)) p then Inr () else Inl ErrScopeDenied, w')"
    and "settled legal w w'" and "view (store w') = view (store w)"
proof (rule validate_stored [OF assms(1-5)])
  fix w'
  assume v: "WorkloadKeyService_ValidateKey P tok w = (Inr \<lparr>KeyClaims_WorkerID = WorkerID (APIKeySnapshot_WorkerID sn),
      KeyClaims_Scope = Scope (APIKeySnapshot_Scope sn)\<rparr>, w')"
    and e: "settled legal w w'" "view (store w') = view (store w)"
  show ?thesis by (rule that [OF _ e]) (simp add: WorkloadKeyService_Authorize_def assms(6) v)
qed

lemma issue_decided:
  assumes "legal (store w)" and "quiet w" and "rand_ok w" and "clock_before w (KeyRequest_ExpiresAt req)"
    and "\<not> WorkerID_IsZero (KeyRequest_WorkerID req)" and "\<not> Scope_IsZero (KeyRequest_Scope req)"
  obtains (issued) key raw w' where "WorkloadKeyService_IssueKey P req w = (Inr (key, raw), w')"
      and "settled legal w w'" and "key_for req w key raw w'"
      and "view (store w') = (view (store w))(APIKey_id key \<mapsto> APIKey_Snapshot key)"
  | (collision) key raw w' where "WorkloadKeyService_IssueKey P req w = (Inl ErrConflict, w')"
      and "settled legal w w'" and "view (store w') = view (store w)"
      and "key_for req w key raw w'" and "taken (view (store w)) (APIKey_Snapshot key)"
proof -
  obtain r1 w1 where iss: "WorkloadKeyService_issue req w = (r1, w1)" by fastforce
  then show ?thesis
  proof (cases rule: issue_cases)
    case (refused e)
    then have False
      using assms(3-6) by (auto simp: clock_before_def read_between_def not_le)
    then show ?thesis ..
  next
    case (made key raw)
    have l: "legal (store w1)" using made assms(1) by simp
    have q: "quiet w1" using assms(2) made(2) by (rule quiet_mono)
    obtain r2 w2 where c: "WorkloadStore_CreateKey P key w1 = (r2, w2)" by fastforce
    have run: "WorkloadKeyService_IssueKey P req w = (map_sum (\<lambda>e. e) (\<lambda>_. (key, raw)) r2, w2)"
      using iss made(1) c by (cases r2) (simp_all add: WorkloadKeyService_IssueKey_def)
    from create [OF l, of key, unfolded c] show ?thesis
    proof (cases rule: attemptsE)
      case (written x)
      have "settled legal w w2" using made(2) written(3) by (auto simp: settled_def intro: env_le_trans)
      moreover have "key_for req w key raw w2"
        using key_for_mono [OF made(4) env_le_refl] written(3) by (auto simp: settled_def)
      ultimately show ?thesis using run written made(3) by (intro issued [of key raw w2]) simp_all
    next
      case (refused e)
      have "settled legal w w2" using made(2) refused(4) by (auto simp: settled_def intro: env_le_trans)
      moreover have "key_for req w key raw w2"
        using key_for_mono [OF made(4) env_le_refl] refused(4) by (auto simp: settled_def)
      ultimately show ?thesis using run refused q made(3) by (intro collision [of w2 key raw]) simp_all
    qed
  qed
qed

lemma rotate_decided:
  fixes sn :: APIKeySnapshot
  defines "req \<equiv> \<lparr>KeyRequest_WorkerID = WorkerID (APIKeySnapshot_WorkerID sn), KeyRequest_Scope = Scope (APIKeySnapshot_Scope sn),
      KeyRequest_ExpiresAt = APIKeySnapshot_ExpiresAt sn\<rparr>"
  assumes "legal (store w)" and "view (store w) i = Some sn" and "quiet w" and "rand_ok w"
    and "clock_before w (APIKeySnapshot_ExpiresAt sn)" and "APIKeySnapshot_WorkerID sn \<noteq> []" and "APIKeySnapshot_Scope sn \<noteq> []"
    and "WorkloadStore_RotateAtomically P = Some swap"
  obtains (rotated) key raw w' where "WorkloadKeyService_RotateKey P i w = (Inr (key, raw), w')"
  | (collision) key raw w' where "WorkloadKeyService_RotateKey P i w = (Inl ErrConflict, w')"
      and "settled legal w w'" and "view (store w') = view (store w)"
      and "key_for req w key raw w'" and "taken (view (store w)) (APIKey_Snapshot key)"
proof -
  obtain r1 w1 where g: "WorkloadStore_GetKey P i w = (r1, w1)" by fastforce
  from get [OF assms(2), of i] g have r1: "r1 = Inr (APIKeyFromSnapshot sn)" and v1: "view (store w1) = view (store w)"
    and s1: "settled legal w w1" using assms(3,4) by (auto simp: reads_def key_at_def)
  have id: "APIKey_id (APIKeyFromSnapshot sn) = i" using keyed [OF assms(2,3)] by simp
  note le1 = settledD(1) [OF s1]
  obtain r2 w2 where iss: "WorkloadKeyService_issue req w1 = (r2, w2)" by fastforce
  then show ?thesis
  proof (cases rule: issue_cases)
    case (refused e)
    have "clock_before w1 (APIKeySnapshot_ExpiresAt sn)" "rand_ok w1"
      using assms(5,6) le1 by (auto intro: clock_before_mono rand_ok_mono)
    with refused(4) assms(7,8) have False
      by (auto simp: req_def clock_before_def read_between_def not_le WorkerID_IsZero_def Scope_IsZero_def)
    then show ?thesis ..
  next
    case (made key raw)
    have l2: "legal (store w2)" and v2: "view (store w2) = view (store w)" using made(3) s1 v1 by (auto simp: settled_def)
    have le2: "env_le w w2" using le1 made(2) by (rule env_le_trans)
    obtain r3 w3 where sw: "swap i key w2 = (r3, w3)" by fastforce
    have run: "WorkloadKeyService_RotateKey P i w = (map_sum key_error (\<lambda>_. (key, raw)) r3, w3)"
      using g r1 iss made(1) sw assms(9) id by (cases r3) (simp_all add: WorkloadKeyService_RotateKey_def req_def)
    from rotate [OF assms(9) l2, of i key, unfolded sw] show ?thesis
    proof (cases rule: attemptsE)
      case (written x)
      with run show ?thesis by (intro rotated) simp
    next
      case (refused e)
      have "quiet w2" using assms(4) le2 by (rule quiet_mono)
      with refused(2) assms(3) have e: "e = ErrConflict" "taken (view (store w)) (APIKey_Snapshot key)" by (auto simp: v2)
      have "settled legal w w3" using le2 refused(4) by (auto simp: settled_def intro: env_le_trans)
      moreover have "key_for req w key raw w3"
        using key_for_mono [OF made(4) le1 settledD(1) [OF refused(4)]] .
      ultimately show ?thesis
        using run refused(1,3) e v2 by (intro collision [of w3 key raw]) (simp_all add: key_error_def)
    qed
  qed
qed

lemma delete_keys_quiet:
  assumes "legal (store w)" and "quiet w"
  shows "fst (delete_keys P ks w) = Inr ()"
  using assms
proof (induction ks arbitrary: w)
  case (Cons k ks)
  obtain r w1 where d: "WorkloadStore_DeleteKey P (APIKey_id k) w = (r, w1)" by fastforce
  have "settled legal w w1 \<and> (\<not> isl r \<or> r = Inl ErrNotFound)"
    using delete [OF Cons.prems(1), of "APIKey_id k"] d Cons.prems(2)
    by (cases "view (store w) (APIKey_id k)") (auto elim!: readsE writesE)
  then show ?case
    using Cons.IH [of w1] d quiet_mono [OF Cons.prems(2), of w1] by (cases r) (auto simp: settled_def)
qed simp

lemma revoke_all_decided:
  assumes "legal (store w)" and "quiet w"
  obtains w' where "WorkloadKeyService_RevokeAllKeys P v w = (Inr (), w')"
proof -
  obtain r w1 where l: "WorkloadStore_ListKeysByWorker P v w = (r, w1)" by fastforce
  with list [OF assms(1), of v] assms(2) obtain ks where "r = Inr ks" and s: "settled legal w w1"
    by (auto simp: reads_def)
  moreover obtain x w2 where d: "delete_keys P ks w1 = (x, w2)" by fastforce
  moreover have "x = Inr ()"
    using delete_keys_quiet [of w1 ks] s quiet_mono [OF assms(2)] d by (auto simp: settled_def)
  ultimately show ?thesis using l by (intro that [of w2]) (simp add: WorkloadKeyService_RevokeAllKeys_def)
qed

end

section \<open>The walkthrough\<close>

interpretation desk: part desk_keys "\<lambda>m d. d\<lparr>desk_keys := m\<rparr>" printed
  by unfold_locales simp_all

definition walk_scope :: Scope where
  "walk_scope = Scope [''browser:read'', ''memory:read'', ''memory:write'']"

text \<open>\<open>desk_at w key ls v\<close>: at \<open>v\<close> the run has printed \<open>ls\<close> and the store holds just \<open>key\<close>.\<close>

definition desk_at :: "key_desk world \<Rightarrow> APIKey \<Rightarrow> string list \<Rightarrow> key_desk world \<Rightarrow> bool" where
  "desk_at w key ls v \<longleftrightarrow> env_le w v \<and> key_maps_ok (desk_keys (store v)) \<and> printed (store v) = ls \<and>
     keys_view (desk_keys (store v)) = [APIKey_id key \<mapsto> APIKey_Snapshot key]"

definition walk_key :: "key_desk world \<Rightarrow> APIKey \<Rightarrow> WorkloadToken \<Rightarrow> bool" where
  "walk_key w key tok \<longleftrightarrow> APIKey_hash key = HashWorkloadToken tok \<and> length (WorkloadToken_String tok) = 64 \<and>
     APIKey_workerID key = WorkerID ''worker-abc123'' \<and> APIKey_scope key = walk_scope \<and>
     APIKey_expiresAt key = clk w (pos w) + 30 * 24 * (60 * minute)"

lemma desk_at_println: "desk_at w key ls v \<Longrightarrow> desk_at w key (ls @ [l]) (println l v)"
  by (simp add: desk_at_def println_def env_le_def)

lemma desk_run:
  assumes "desk_at w key ls v" and "f (with_store (desk_keys (store v)) v) = (r, u)"
    and "settled key_maps_ok (with_store (desk_keys (store v)) v) u"
    and "keys_view (store u) = [APIKey_id key' \<mapsto> APIKey_Snapshot key']"
  obtains v' where "at_keys f v = (r, v')" and "desk_at w key' ls v'"
proof (rule desk.on_part_run [where f = f and w = v, OF assms(2,3)])
  fix v'
  assume "at_keys f v = (r, v')" "env_le v v'" "key_maps_ok (desk_keys (store v'))" "desk_keys (store v') = store u"
    "printed (store v') = printed (store v)"
  with assms(1,4) show ?thesis by (intro that [of v']) (auto simp: desk_at_def intro: env_le_trans)
qed

text \<open>The calls of the walkthrough on a desk with one key.\<close>

lemma seen_key:
  assumes "walk_key w key tok" and "desk_at w key ls v"
  shows "key_maps_ok (store (with_store (desk_keys (store v)) v))"
    and "keys_view (store (with_store (desk_keys (store v)) v)) (APIKey_id key) = Some (APIKey_Snapshot key)"
    and "APIKeySnapshot_Hash (APIKey_Snapshot key) = HashWorkloadToken tok"
    and "clock_before w t \<Longrightarrow> clock_before (with_store (desk_keys (store v)) v) t"
    and "quiet w \<Longrightarrow> quiet (with_store (desk_keys (store v)) v)"
    and "rand_ok w \<Longrightarrow> rand_ok (with_store (desk_keys (store v)) v)"
  using assms
  by (auto simp: desk_at_def walk_key_def APIKey_Snapshot_def clock_before_def env_le_def quiet_def rand_ok_def with_store_def)

lemma walk_validates:
  assumes "walk_key w key tok" and "desk_at w key ls v" and "quiet w" and "clock_before w (APIKey_expiresAt key)"
  obtains v' where "at_keys (WorkloadKeyService_ValidateKey WorkloadKeyRepo tok) v =
      (Inr \<lparr>KeyClaims_WorkerID = WorkerID ''worker-abc123'', KeyClaims_Scope = walk_scope\<rparr>, v')" and "desk_at w key ls v'"
proof -
  note k = seen_key [OF assms(1,2)]
  have c: "clock_before (with_store (desk_keys (store v)) v) (APIKeySnapshot_ExpiresAt (APIKey_Snapshot key))"
    using k(4) assms(4) by (simp add: APIKey_Snapshot_def)
  show ?thesis
  proof (rule mk.validate_stored [OF k(1,2,3) k(5) [OF assms(3)] c])
    fix u
    assume u: "WorkloadKeyService_ValidateKey WorkloadKeyRepo tok (with_store (desk_keys (store v)) v) =
        (Inr \<lparr>KeyClaims_WorkerID = WorkerID (APIKeySnapshot_WorkerID (APIKey_Snapshot key)),
          KeyClaims_Scope = Scope (APIKeySnapshot_Scope (APIKey_Snapshot key))\<rparr>, u)"
      and s: "settled key_maps_ok (with_store (desk_keys (store v)) v) u"
      and e: "keys_view (store u) = keys_view (store (with_store (desk_keys (store v)) v))"
    have "keys_view (store u) = [APIKey_id key \<mapsto> APIKey_Snapshot key]" using e assms(2) by (simp add: desk_at_def)
    moreover have "WorkloadKeyService_ValidateKey WorkloadKeyRepo tok (with_store (desk_keys (store v)) v) =
        (Inr \<lparr>KeyClaims_WorkerID = WorkerID ''worker-abc123'', KeyClaims_Scope = walk_scope\<rparr>, u)"
      using u assms(1) by (simp add: walk_key_def APIKey_Snapshot_def)
    ultimately show ?thesis
      using desk_run [where f = "WorkloadKeyService_ValidateKey WorkloadKeyRepo tok", OF assms(2) _ s] that by blast
  qed
qed

lemma walk_authorizes:
  assumes "walk_key w key tok" and "desk_at w key ls v" and "quiet w" and "clock_before w (APIKey_expiresAt key)"
    and "NewPermission ul permission = Inr p"
  obtains v' where "at_keys (WorkloadKeyService_Authorize ul WorkloadKeyRepo tok permission) v =
      (if Scope_Allows walk_scope p then Inr () else Inl ErrScopeDenied, v')" and "desk_at w key ls v'"
proof -
  note k = seen_key [OF assms(1,2)]
  have c: "clock_before (with_store (desk_keys (store v)) v) (APIKeySnapshot_ExpiresAt (APIKey_Snapshot key))"
    using k(4) assms(4) by (simp add: APIKey_Snapshot_def)
  show ?thesis
  proof (rule mk.authorize_stored [OF k(1,2,3) k(5) [OF assms(3)] c assms(5)])
    fix u
    assume u: "WorkloadKeyService_Authorize ul WorkloadKeyRepo tok permission (with_store (desk_keys (store v)) v) =
        (if Scope_Allows (Scope (APIKeySnapshot_Scope (APIKey_Snapshot key))) p then Inr () else Inl ErrScopeDenied, u)"
      and s: "settled key_maps_ok (with_store (desk_keys (store v)) v) u"
      and e: "keys_view (store u) = keys_view (store (with_store (desk_keys (store v)) v))"
    have "keys_view (store u) = [APIKey_id key \<mapsto> APIKey_Snapshot key]" using e assms(2) by (simp add: desk_at_def)
    moreover have "WorkloadKeyService_Authorize ul WorkloadKeyRepo tok permission (with_store (desk_keys (store v)) v) =
        (if Scope_Allows walk_scope p then Inr () else Inl ErrScopeDenied, u)"
      using u assms(1) by (simp add: walk_key_def APIKey_Snapshot_def)
    ultimately show ?thesis
      using desk_run [where f = "WorkloadKeyService_Authorize ul WorkloadKeyRepo tok permission", OF assms(2) _ s] that by blast
  qed
qed

lemma walk_rejects:
  assumes "walk_key w key tok" and "desk_at w key ls v" and "quiet w" and "HashWorkloadToken old \<noteq> APIKey_hash key"
  obtains v' where "at_keys (WorkloadKeyService_ValidateKey WorkloadKeyRepo old) v = (Inl ErrKeyNotFound, v')"
    and "desk_at w key ls v'"
proof -
  note k = seen_key [OF assms(1,2)]
  have "\<not> hash_taken (keys_view (store (with_store (desk_keys (store v)) v))) (HashWorkloadToken old)"
    using assms(2,4) by (auto simp: desk_at_def hash_taken_def APIKey_Snapshot_def)
  from k(1) this k(5) [OF assms(3)] show ?thesis
  proof (rule mk.validate_unknown)
    fix u
    assume u: "WorkloadKeyService_ValidateKey WorkloadKeyRepo old (with_store (desk_keys (store v)) v) = (Inl ErrKeyNotFound, u)"
      and s: "settled key_maps_ok (with_store (desk_keys (store v)) v) u"
      and e: "keys_view (store u) = keys_view (store (with_store (desk_keys (store v)) v))"
    have "keys_view (store u) = [APIKey_id key \<mapsto> APIKey_Snapshot key]" using e assms(2) by (simp add: desk_at_def)
    from desk_run [where f = "WorkloadKeyService_ValidateKey WorkloadKeyRepo old", OF assms(2) u s this] that
    show ?thesis by blast
  qed
qed

lemma walk_issues:
  assumes "env_le w v" and "desk_keys (store v) = NewWorkloadKeyRepo" and "quiet w" and "rand_ok w"
    and "clock_before w (clk w (pos w) + 30 * 24 * (60 * minute))"
  obtains key tok v' where "at_keys (WorkloadKeyService_IssueKey WorkloadKeyRepo
        \<lparr>KeyRequest_WorkerID = WorkerID ''worker-abc123'', KeyRequest_Scope = walk_scope,
         KeyRequest_ExpiresAt = clk w (pos w) + 30 * 24 * (60 * minute)\<rparr>) v = (Inr (key, tok), v')"
    and "desk_at w key (printed (store v)) v'" and "walk_key w key tok"
proof -
  let ?u = "with_store (desk_keys (store v)) v"
  let ?req = "\<lparr>KeyRequest_WorkerID = WorkerID ''worker-abc123'', KeyRequest_Scope = walk_scope,
      KeyRequest_ExpiresAt = clk w (pos w) + 30 * 24 * (60 * minute)\<rparr>"
  have emp: "keys_view (store ?u) = Map.empty" "key_maps_ok (store ?u)"
    using assms(2) key_maps_empty by (simp_all add: NewWorkloadKeyRepo_def keys_view_def)
  have env: "quiet ?u" "rand_ok ?u" "clock_before ?u (KeyRequest_ExpiresAt ?req)"
    using assms(1,3-5) by (auto simp: env_le_def quiet_def rand_ok_def clock_before_def with_store_def)
  have req: "\<not> WorkerID_IsZero (KeyRequest_WorkerID ?req)" "\<not> Scope_IsZero (KeyRequest_Scope ?req)"
    by (simp_all add: WorkerID_IsZero_def Scope_IsZero_def walk_scope_def)
  from emp(2) env req show ?thesis
  proof (cases rule: mk.issue_decided)
    case (issued key tok u)
    have v: "keys_view (store u) = [APIKey_id key \<mapsto> APIKey_Snapshot key]" using issued(4) emp(1) by simp
    show ?thesis
    proof (rule desk.on_part_run [where f = "WorkloadKeyService_IssueKey WorkloadKeyRepo ?req" and w = v, OF issued(1,2)])
      fix v'
      assume r: "at_keys (WorkloadKeyService_IssueKey WorkloadKeyRepo ?req) v = (Inr (key, tok), v')" "env_le v v'"
        "key_maps_ok (desk_keys (store v'))" "desk_keys (store v') = store u" "printed (store v') = printed (store v)"
      have "desk_at w key (printed (store v)) v'" using r v assms(1) by (auto simp: desk_at_def intro: env_le_trans)
      moreover have "walk_key w key tok" using issued(3)
        by (auto simp: key_for_def walk_key_def WorkloadTokenFromString_def workloadTokenBytes_def split: if_splits)
      ultimately show ?thesis by (rule that [OF r(1)])
    qed
  next
    case (collision key tok u)
    then show ?thesis using emp(1) by (simp add: taken_def hash_taken_def)
  qed
qed

lemma walk_rotates:
  assumes "walk_key w key tok" and "desk_at w key ls v" and "quiet w" and "rand_ok w" and "clock_before w (APIKey_expiresAt key)"
  obtains (swapped) key' tok' v' where "at_keys (WorkloadKeyService_RotateKey WorkloadKeyRepo (APIKey_id key)) v = (Inr (key', tok'), v')"
      and "desk_at w key' ls v'" and "walk_key w key' tok'" and "APIKey_id key' \<noteq> APIKey_id key" and "APIKey_hash key' \<noteq> APIKey_hash key"
  | (clash) key' tok' v' where "at_keys (WorkloadKeyService_RotateKey WorkloadKeyRepo (APIKey_id key)) v = (Inl ErrConflict, v')"
      and "desk_at w key ls v'" and "walk_key w key' tok'" and "APIKey_id key' = APIKey_id key \<or> APIKey_hash key' = APIKey_hash key"
proof -
  let ?u = "with_store (desk_keys (store v)) v"
  let ?req = "\<lparr>KeyRequest_WorkerID = WorkerID (APIKeySnapshot_WorkerID (APIKey_Snapshot key)),
      KeyRequest_Scope = Scope (APIKeySnapshot_Scope (APIKey_Snapshot key)),
      KeyRequest_ExpiresAt = APIKeySnapshot_ExpiresAt (APIKey_Snapshot key)\<rparr>"
  note k = seen_key [OF assms(1,2)]
  have one: "keys_view (store ?u) = [APIKey_id key \<mapsto> APIKey_Snapshot key]" using assms(2) by (simp add: desk_at_def)
  have c: "clock_before ?u (APIKeySnapshot_ExpiresAt (APIKey_Snapshot key))"
    using k(4) assms(5) by (simp add: APIKey_Snapshot_def)
  have n: "APIKeySnapshot_WorkerID (APIKey_Snapshot key) \<noteq> []" "APIKeySnapshot_Scope (APIKey_Snapshot key) \<noteq> []"
    using assms(1) by (simp_all add: walk_key_def APIKey_Snapshot_def walk_scope_def)
  have sw: "WorkloadStore_RotateAtomically WorkloadKeyRepo = Some WorkloadKeyRepo_RotateAtomically"
    by (simp add: WorkloadKeyRepo_def)
  have wk: "walk_key w key' tok'" if "key_for ?req x key' tok' y" for key' tok' x y
    using that assms(1)
    by (auto simp: key_for_def walk_key_def APIKey_Snapshot_def WorkloadTokenFromString_def workloadTokenBytes_def split: if_splits)
  from k(1,2) k(5) [OF assms(3)] k(6) [OF assms(4)] c n sw show ?thesis
  proof (cases rule: mk.rotate_decided)
    case (rotated key' tok' u)
    from mk.rotate_key_effect [OF k(1) rotated] one
    have s: "settled key_maps_ok ?u u" and kf: "key_for ?req ?u key' tok' u"
      and free: "\<not> taken [APIKey_id key \<mapsto> APIKey_Snapshot key] (APIKey_Snapshot key')"
      and v: "keys_view (store u) = [APIKey_id key' \<mapsto> APIKey_Snapshot key']" by auto
    have "APIKey_id key' \<noteq> APIKey_id key" "APIKey_hash key' \<noteq> APIKey_hash key"
      using free by (auto simp: taken_def hash_taken_def APIKey_Snapshot_def split: if_splits)
    with desk_run [where f = "WorkloadKeyService_RotateKey WorkloadKeyRepo (APIKey_id key)", OF assms(2) rotated s v] wk [OF kf] show ?thesis by (metis swapped)
  next
    case (collision key' tok' u)
    have "APIKey_id key' = APIKey_id key \<or> APIKey_hash key' = APIKey_hash key"
      using collision(5) one by (auto simp: taken_def hash_taken_def APIKey_Snapshot_def split: if_splits)
    moreover have "keys_view (store u) = [APIKey_id key \<mapsto> APIKey_Snapshot key]" using collision(3) one by simp
    ultimately show ?thesis
      using desk_run [where f = "WorkloadKeyService_RotateKey WorkloadKeyRepo (APIKey_id key)", OF assms(2) collision(1,2)] wk [OF collision(4)] by (metis clash)
  qed
qed

lemma single_entry:
  assumes "gomap_ok m" and "gomap_get m = [i \<mapsto> x]"
  shows "m = [(i, x)]"
proof -
  have m: "map_of m = [i \<mapsto> x]" and d: "distinct (map fst m)"
    using assms by (simp_all add: gomap_get_map_of gomap_ok_def)
  then have "set m = {(i, x)}" by (auto simp: map_of_eq_Some_iff [symmetric] split: if_splits)
  with d show ?thesis
    by (cases m; cases "tl m") (auto simp: distinct_map)
qed

lemma walk_lists:
  assumes "walk_key w key tok" and "desk_at w key ls v" and "quiet w"
  obtains v' where "at_keys (WorkloadKeyService_ListKeys WorkloadKeyRepo (WorkerID ''worker-abc123'')) v = (Inr [key], v')"
    and "desk_at w key ls v'"
proof -
  let ?u = "with_store (desk_keys (store v)) v"
  note k = seen_key [OF assms(1,2)]
  have one: "keys_view (store ?u) = [APIKey_id key \<mapsto> APIKey_Snapshot key]" using assms(2) by (simp add: desk_at_def)
  have "byID (store ?u) = [(APIKey_id key, APIKey_Snapshot key)]"
    using one k(1) by (intro single_entry) (simp_all add: keys_view_def key_maps_ok_def)
  then have l: "WorkloadKeyService_ListKeys WorkloadKeyRepo (WorkerID ''worker-abc123'') ?u = (Inr [key], tick ?u)"
    using k(5) [OF assms(3)] assms(1)
    by (simp add: WorkloadKeyService_ListKeys_def WorkloadKeyRepo_def WorkloadKeyRepo_ListKeysByWorker_def
        checked_def external_check_def quiet_def gomap_values_def walk_key_def)
  have s: "settled key_maps_ok ?u (tick ?u)" using k(1) by (simp add: settled_def)
  have "keys_view (store (tick ?u)) = [APIKey_id key \<mapsto> APIKey_Snapshot key]" using one by simp
  from desk_run [where f = "WorkloadKeyService_ListKeys WorkloadKeyRepo (WorkerID ''worker-abc123'')", OF assms(2) l s this] that
  show ?thesis by blast
qed

lemma walk_revokes:
  assumes "walk_key w key tok" and "desk_at w key ls v" and "quiet w"
  obtains v' where "at_keys (WorkloadKeyService_RevokeAllKeys WorkloadKeyRepo (WorkerID ''worker-abc123'')) v = (Inr (), v')"
    and "keys_view (desk_keys (store v')) = Map.empty" and "printed (store v') = ls"
proof -
  let ?u = "with_store (desk_keys (store v)) v" and ?f = "WorkloadKeyService_RevokeAllKeys WorkloadKeyRepo (WorkerID ''worker-abc123'')"
  note k = seen_key [OF assms(1,2)]
  obtain u where f: "?f ?u = (Inr (), u)" by (rule mk.revoke_all_decided [OF k(1) k(5) [OF assms(3)]])
  note eff = mk.revoke_all_keys_effect [OF k(1) f]
  have "keys_view (store u) i = None" for i
  proof (cases "i = APIKey_id key")
    case True
    with eff k(2) show ?thesis
      using assms(1) by (force simp: worker_keys_def walk_key_def APIKey_Snapshot_def)
  next
    case False
    with eff assms(2) show ?thesis by (metis desk_at_def fun_upd_apply with_store_simps(1))
  qed
  then have e: "keys_view (store u) = Map.empty" by auto
  from eff have s: "settled key_maps_ok ?u u" by simp
  show ?thesis
    by (rule desk.on_part_run [where f = ?f and w = v, OF f s]) (use e assms(2) that in \<open>auto simp: desk_at_def\<close>)
qed

lemma NewPermission_entry:
  assumes "segment r" and "segment a" and "r \<noteq> star" and "a \<noteq> star"
  shows "NewPermission ul (entry r a) = Inr \<lparr>Permission_resource = r, Permission_action = a\<rparr>"
  using assms entry_normal [OF assms(1,2)] by (simp add: NewPermission_iff) (simp add: Permission_String_def entry_def)

lemma walk_segments [simp]:
  "segment ''write''" "segment ''browser''" "segment ''email''" "segment ''send''"
  by (auto simp: segment_def star_def segment_rune_def byte_def)

lemma walk_texts:
  "''memory:read'' = entry ''memory'' ''read''" "''memory:write'' = entry ''memory'' ''write''"
  "''browser:read'' = entry ''browser'' ''read''" "''email:send'' = entry ''email'' ''send''"
  by (simp_all add: entry_def colon_def)

lemma walk_permissions:
  "NewPermission ul ''memory:write'' = Inr \<lparr>Permission_resource = ''memory'', Permission_action = ''write''\<rparr>"
  "NewPermission ul ''email:send'' = Inr \<lparr>Permission_resource = ''email'', Permission_action = ''send''\<rparr>"
  unfolding walk_texts by (rule NewPermission_entry; simp add: star_def)+

lemma walk_worker: "NewWorkerID ''worker-abc123'' = Inr (WorkerID ''worker-abc123'')"
proof -
  have "trim_space ''worker-abc123'' = ''worker-abc123''"
    by (rule trim_space_id) (auto simp: ascii_def byte_def is_space_def)
  then show ?thesis by (simp add: NewWorkerID_def maxWorkerIDLen_def)
qed

lemma walk_entries:
  "splitScopeEntryAllowWildcard ul ''memory:read'' = Inr (''memory'', ''read'')"
  "splitScopeEntryAllowWildcard ul ''memory:write'' = Inr (''memory'', ''write'')"
  "splitScopeEntryAllowWildcard ul ''browser:read'' = Inr (''browser'', ''read'')"
  unfolding walk_texts by simp_all

lemma walk_NewScope: "NewScope ul [''memory:read'', ''memory:write'', ''browser:read''] = Inr walk_scope"
proof -
  have "sort [''browser:read'', ''memory:write'', ''memory:read''] = [''browser:read'', ''memory:read'', ''memory:write'']"
    by code_simp
  moreover have "scope_set ul [''memory:read'', ''memory:write'', ''browser:read''] [] =
      Inr [''browser:read'', ''memory:write'', ''memory:read'']"
    by (simp add: walk_entries colon_def)
  ultimately show ?thesis by (simp add: NewScope_def walk_scope_def)
qed

lemma walk_scope_allows:
  "Scope_Allows walk_scope \<lparr>Permission_resource = ''memory'', Permission_action = ''write''\<rparr>"
  "\<not> Scope_Allows walk_scope \<lparr>Permission_resource = ''email'', Permission_action = ''send''\<rparr>"
  by code_simp+

text \<open>What the walkthrough prints, with the two keys it makes and their tokens.\<close>

definition walk_start :: "APIKey \<Rightarrow> WorkloadToken \<Rightarrow> string list" where
  "walk_start key tok =
     [''issued key '' @ APIKey_id key @ ''; hand this token to the worker once: '' @
        take 12 (WorkloadToken_String tok) @ ellipsis,
      ''validated: worker=worker-abc123 scope=[browser:read memory:read memory:write]'',
      ''authorized memory:write'',
      ''denied email:send (not in scope), as expected'']"

definition walk_end :: "APIKey \<Rightarrow> WorkloadToken \<Rightarrow> string list" where
  "walk_end key tok =
     [''rotated to key '' @ APIKey_id key @ ''; new token='' @ take 12 (WorkloadToken_String tok) @ ellipsis,
      ''old token rejected after rotation, as expected'',
      ''worker has 1 active key(s)'',
      ''revoked all keys for worker'']"

lemma sliced_token: "walk_key w key tok \<Longrightarrow> sliced 12 (WorkloadToken_String tok) = Inr (take 12 (WorkloadToken_String tok))"
  by (simp add: sliced_def walk_key_def)

lemma walk_until_rotation:
  assumes "quiet w" and "rand_ok w" and "clock_before w (clk w (pos w) + 30 * 24 * (60 * minute))"
    and "desk_keys (store w) = NewWorkloadKeyRepo" and "printed (store w) = []"
  obtains key tok v where "walk_key w key tok" and "desk_at w key (walk_start key tok) v"
    and "workload_walk ul w = workload_rotation (WorkerID ''worker-abc123'') tok key v"
proof -
  let ?R = WorkloadKeyRepo
  have start: "env_le w (tick w)" "desk_keys (store (tick w)) = NewWorkloadKeyRepo" using assms(4) by simp_all
  obtain key tok v1 where 1: "at_keys (WorkloadKeyService_IssueKey ?R
        \<lparr>KeyRequest_WorkerID = WorkerID ''worker-abc123'', KeyRequest_Scope = walk_scope,
         KeyRequest_ExpiresAt = clk w (pos w) + 30 * 24 * (60 * minute)\<rparr>) (tick w) = (Inr (key, tok), v1)"
    and d1: "desk_at w key (printed (store (tick w))) v1" and k: "walk_key w key tok"
    by (rule walk_issues [OF start assms(1-3)]) (rule that)
  have late: "clock_before w (APIKey_expiresAt key)" using assms(3) k by (simp add: walk_key_def)
  obtain l0 l1 l2 l3 where l: "walk_start key tok = [l0, l1, l2, l3]" by (simp add: walk_start_def)
  note d1 = d1 [simplified assms(5) store_tick, THEN desk_at_println [where l = "l0"], simplified]
  obtain v2 where 2: "at_keys (WorkloadKeyService_ValidateKey ?R tok) (println l0 v1) =
      (Inr \<lparr>KeyClaims_WorkerID = WorkerID ''worker-abc123'', KeyClaims_Scope = walk_scope\<rparr>, v2)" and d2: "desk_at w key [l0] v2"
    by (rule walk_validates [OF k d1 assms(1) late]) (rule that)
  note d2 = d2 [THEN desk_at_println [where l = "l1"], simplified]
  obtain v3 where "at_keys (WorkloadKeyService_Authorize ul ?R tok ''memory:write'') (println l1 v2) =
      (if Scope_Allows walk_scope \<lparr>Permission_resource = ''memory'', Permission_action = ''write''\<rparr> then Inr () else Inl ErrScopeDenied, v3)"
    and d3: "desk_at w key [l0, l1] v3"
    by (rule walk_authorizes [OF k d2 assms(1) late walk_permissions(1) [of ul]]) (rule that)
  then have 3: "at_keys (WorkloadKeyService_Authorize ul ?R tok ''memory:write'') (println l1 v2) = (Inr (), v3)"
    by (simp add: walk_scope_allows)
  note d3 = d3 [THEN desk_at_println [where l = "l2"], simplified]
  obtain v4 where "at_keys (WorkloadKeyService_Authorize ul ?R tok ''email:send'') (println l2 v3) =
      (if Scope_Allows walk_scope \<lparr>Permission_resource = ''email'', Permission_action = ''send''\<rparr> then Inr () else Inl ErrScopeDenied, v4)"
    and d4: "desk_at w key [l0, l1, l2] v4"
    by (rule walk_authorizes [OF k d3 assms(1) late walk_permissions(2) [of ul]]) (rule that)
  then have 4: "at_keys (WorkloadKeyService_Authorize ul ?R tok ''email:send'') (println l2 v3) = (Inl ErrScopeDenied, v4)"
    by (simp add: walk_scope_allows)
  note d4 = d4 [THEN desk_at_println [where l = "l3"], simplified]
  have "workload_walk ul w = workload_rotation (WorkerID ''worker-abc123'') tok key (println l3 v4)"
    using 1 2 3 4 l
    by (auto simp: workload_walk_def Let_def walk_worker walk_NewScope read_clock_def sliced_token [OF k]
        walk_start_def show_strings_def walk_scope_def)
  then show ?thesis using k d4 l by (intro that [of key tok "println l3 v4"]) simp_all
qed

lemma walk_after_rotation:
  assumes "walk_key w key tok" and "desk_at w key (walk_start key tok) v" and "quiet w" and "rand_ok w"
    and "clock_before w (APIKey_expiresAt key)"
  shows "\<exists>key' tok' r v'. workload_rotation (WorkerID ''worker-abc123'') tok key v = (r, v') \<and> walk_key w key' tok' \<and>
    (if APIKey_id key' = APIKey_id key \<or> APIKey_hash key' = APIKey_hash key
     then r = Inl ErrConflict \<and> desk_at w key (walk_start key tok) v'
     else r = Inr () \<and> printed (store v') = walk_start key tok @ walk_end key' tok' \<and> keys_view (desk_keys (store v')) = Map.empty)"
proof (rule walk_rotates [OF assms])
  fix key' tok' v'
  assume "at_keys (WorkloadKeyService_RotateKey WorkloadKeyRepo (APIKey_id key)) v = (Inl ErrConflict, v')"
    "desk_at w key (walk_start key tok) v'" "walk_key w key' tok'"
    "APIKey_id key' = APIKey_id key \<or> APIKey_hash key' = APIKey_hash key"
  then show ?thesis
    by (intro exI [of _ key'] exI [of _ tok'] exI [of _ "Inl ErrConflict"] exI [of _ v'])
       (simp add: workload_rotation_def)
next
  fix key' tok' v1
  let ?R = WorkloadKeyRepo and ?W = "WorkerID ''worker-abc123''"
  assume 1: "at_keys (WorkloadKeyService_RotateKey ?R (APIKey_id key)) v = (Inr (key', tok'), v1)"
    and d1: "desk_at w key' (walk_start key tok) v1" and k: "walk_key w key' tok'"
    and ne: "APIKey_id key' \<noteq> APIKey_id key" "APIKey_hash key' \<noteq> APIKey_hash key"
  obtain ls l4 l5 l6 l7 where l: "walk_end key' tok' = [l4, l5, l6, l7]" and ls: "walk_start key tok = ls"
    by (simp add: walk_end_def)
  note d1 = d1 [unfolded ls, THEN desk_at_println [where l = l4], simplified]
  have "HashWorkloadToken tok \<noteq> APIKey_hash key'" using assms(1) ne(2) by (simp add: walk_key_def)
  obtain v2 where 2: "at_keys (WorkloadKeyService_ValidateKey ?R tok) (println l4 v1) = (Inl ErrKeyNotFound, v2)"
    and d2: "desk_at w key' (ls @ [l4]) v2" by (rule walk_rejects [OF k d1 assms(3) \<open>_ \<noteq> APIKey_hash key'\<close>]) (rule that)
  note d2 = d2 [THEN desk_at_println [where l = l5], simplified]
  obtain v3 where 3: "at_keys (WorkloadKeyService_ListKeys ?R ?W) (println l5 v2) = (Inr [key'], v3)"
    and d3: "desk_at w key' (ls @ [l4, l5]) v3" by (rule walk_lists [OF k d2 assms(3)]) (rule that)
  note d3 = d3 [THEN desk_at_println [where l = l6], simplified]
  obtain v4 where 4: "at_keys (WorkloadKeyService_RevokeAllKeys ?R ?W) (println l6 v3) = (Inr (), v4)"
    and e: "keys_view (desk_keys (store v4)) = Map.empty" "printed (store v4) = ls @ [l4, l5, l6]"
    by (rule walk_revokes [OF k d3 assms(3)]) (rule that)
  have one: "decimal 1 = ''1''" by code_simp
  have "workload_rotation ?W tok key v = (Inr (), println l7 v4)"
    using 1 2 3 4 l ls one by (auto simp: workload_rotation_def Let_def sliced_token [OF k] walk_end_def)
  then show ?thesis
    using k ne e l ls by (intro exI [of _ key'] exI [of _ tok'] exI [of _ "Inr ()"] exI [of _ "println l7 v4"]) (simp add: println_def)
qed

text \<open>The walkthrough does what its comments say. If nothing external fails and the month has not passed, it
  prints its eight lines and leaves no key; only if the two keys it draws collide does it stop at the rotation.\<close>

theorem workload_walkthrough:
  assumes "quiet w" and "rand_ok w" and "clock_before w (clk w (pos w) + 30 * 24 * (60 * minute))"
  shows "\<exists>key tok key' tok' r w'. workload_main ul w = (r, w') \<and>
    APIKey_hash key = HashWorkloadToken tok \<and> APIKey_hash key' = HashWorkloadToken tok' \<and>
    (if APIKey_id key' = APIKey_id key \<or> APIKey_hash key' = APIKey_hash key
     then r = Inl ErrConflict \<and> printed (store w') = walk_start key tok \<and>
       keys_view (desk_keys (store w')) = [APIKey_id key \<mapsto> APIKey_Snapshot key]
     else r = Inr () \<and> printed (store w') = walk_start key tok @ walk_end key' tok' \<and> keys_view (desk_keys (store w')) = Map.empty)"
proof -
  let ?w = "with_store \<lparr>printed = [], desk_keys = NewWorkloadKeyRepo\<rparr> w"
  have c: "clock_before ?w (clk ?w (pos ?w) + 30 * 24 * (60 * minute))" using assms(3) by (simp add: clock_before_def)
  have env: "quiet ?w" "rand_ok ?w" "desk_keys (store ?w) = NewWorkloadKeyRepo" "printed (store ?w) = []"
    using assms(1,2) by simp_all
  obtain key tok v where k: "walk_key ?w key tok" and d: "desk_at ?w key (walk_start key tok) v"
    and "workload_walk ul ?w = workload_rotation (WorkerID ''worker-abc123'') tok key v"
    by (rule walk_until_rotation [OF env(1,2) c env(3,4)]) (rule that)
  then have r: "workload_main ul w = workload_rotation (WorkerID ''worker-abc123'') tok key v" by (simp add: workload_main_def)
  have "clock_before ?w (APIKey_expiresAt key)" using c k by (simp add: walk_key_def)
  with walk_after_rotation [OF k d] assms(1,2) obtain key' tok' x v' where
    "workload_main ul w = (x, v')" "walk_key ?w key' tok'"
    "if APIKey_id key' = APIKey_id key \<or> APIKey_hash key' = APIKey_hash key
     then x = Inl ErrConflict \<and> desk_at ?w key (walk_start key tok) v'
     else x = Inr () \<and> printed (store v') = walk_start key tok @ walk_end key' tok' \<and> keys_view (desk_keys (store v')) = Map.empty"
    unfolding r by auto
  with k show ?thesis
    by (intro exI [of _ key] exI [of _ tok] exI [of _ key'] exI [of _ tok'] exI [of _ x] exI [of _ v'])
       (simp add: walk_key_def desk_at_def split: if_splits)
qed

theorem workload_walkthrough_witness:
  "\<exists>key tok ls r w'. workload_main (\<lambda>r. r) (calm 1000 0 ()) = (r, w') \<and> (r = Inr () \<or> r = Inl ErrConflict) \<and>
     printed (store w') = walk_start key tok @ ls"
proof -
  have "clock_before (calm 1000 0 ()) (clk (calm 1000 0 ()) (pos (calm 1000 0 ())) + 30 * 24 * (60 * minute))"
    by (simp add: calm_def clock_before_def minute_def second_def)
  from workload_walkthrough [OF _ _ this, of "\<lambda>r. r"] show ?thesis
    by (auto split: if_splits) (metis append_Nil2)+
qed

end
