(* ===== verification/ExampleHuman.thy ===== *)
theory ExampleHuman
  imports ExampleWorkload TotpProps EdgeProps Password MemoryFactors WebauthnProps
begin

text \<open>
  \<open>src/example/human/main.go\<close>: the walkthrough of the flows of a human user over the in-memory adapters,
  one definition per section of \<open>main\<close>, with what it prints. Unicode's case tables, argon2 and the
  go-webauthn library are parameters, as everywhere.
\<close>

section \<open>Error texts\<close>

fun Error_text :: "error \<Rightarrow> string" where
  "Error_text ErrNotFound = ''authgo: not found''"
| "Error_text ErrConflict = ''authgo: already exists''"
| "Error_text ErrExpired = ''authgo: expired''"
| "Error_text ErrConsumed = ''authgo: already consumed''"
| "Error_text ErrPasswordMismatch = ''authgo: password mismatch''"
| "Error_text ErrInvalidPassword = ''authgo: invalid password''"
| "Error_text ErrInvalidArgon2Params = ''authgo: invalid argon2id params''"
| "Error_text ErrInvalidTOTP = ''authgo: invalid TOTP code''"
| "Error_text ErrTOTPReused = ''authgo: TOTP code already used''"
| "Error_text ErrTOTPNoReplayProtection = ''authgo: TOTP repository does not support replay protection''"
| "Error_text ErrAccountLocked = ''authgo: account locked''"
| "Error_text ErrInvalidLockoutCfg = ''authgo: invalid lockout policy''"
| "Error_text ErrInvalidLockoutKey = ''authgo: invalid lockout key''"
| "Error_text ErrInvalidUserID = ''authgo: invalid user id''"
| "Error_text ErrInvalidTenantID = ''authgo: invalid tenant id''"
| "Error_text ErrInvalidEmail = ''authgo: invalid email''"
| "Error_text ErrInvalidToken = ''authgo: invalid token''"
| "Error_text ErrInvalidSecret = ''authgo: invalid TOTP secret''"
| "Error_text ErrInvalidHash = ''authgo: invalid password hash''"
| "Error_text ErrInvalidWorkerID = ''authgo: invalid worker id''"
| "Error_text ErrInvalidScope = ''authgo: invalid scope''"
| "Error_text ErrInvalidExpiry = ''authgo: invalid key expiry''"
| "Error_text ErrInvalidKeyToken = ''authgo: invalid key token''"
| "Error_text ErrKeyNotFound = ''authgo: key not found''"
| "Error_text ErrKeyExpired = ''authgo: key expired''"
| "Error_text ErrScopeDenied = ''authgo: scope denied''"
| "Error_text (ErrExternal msg) = msg"
| "Error_text (GoPanic msg) = msg"

section \<open>The program\<close>

record human_desk = console +
  desk_users :: user_map
  desk_sessions :: session_map
  desk_totp :: totp_maps
  desk_links :: link_map
  desk_passkeys :: passkey_map

abbreviation at_users :: "(user_map world \<Rightarrow> 'a \<times> user_map world) \<Rightarrow> human_desk world \<Rightarrow> 'a \<times> human_desk world" where
  "at_users \<equiv> on_part desk_users (\<lambda>m d. d\<lparr>desk_users := m\<rparr>)"

abbreviation at_sessions :: "(session_map world \<Rightarrow> 'a \<times> session_map world) \<Rightarrow> human_desk world \<Rightarrow> 'a \<times> human_desk world" where
  "at_sessions \<equiv> on_part desk_sessions (\<lambda>m d. d\<lparr>desk_sessions := m\<rparr>)"

abbreviation at_totp :: "(totp_maps world \<Rightarrow> 'a \<times> totp_maps world) \<Rightarrow> human_desk world \<Rightarrow> 'a \<times> human_desk world" where
  "at_totp \<equiv> on_part desk_totp (\<lambda>m d. d\<lparr>desk_totp := m\<rparr>)"

abbreviation at_links :: "(link_map world \<Rightarrow> 'a \<times> link_map world) \<Rightarrow> human_desk world \<Rightarrow> 'a \<times> human_desk world" where
  "at_links \<equiv> on_part desk_links (\<lambda>m d. d\<lparr>desk_links := m\<rparr>)"

abbreviation at_passkeys :: "(passkey_map world \<Rightarrow> 'a \<times> passkey_map world) \<Rightarrow> human_desk world \<Rightarrow> 'a \<times> human_desk world" where
  "at_passkeys \<equiv> on_part desk_passkeys (\<lambda>m d. d\<lparr>desk_passkeys := m\<rparr>)"

text \<open>\<open>if err != nil { fmt.Printf(...) }\<close> after a call.\<close>

definition print_error :: "string \<Rightarrow> 'a res \<Rightarrow> 'b console_scheme world \<Rightarrow> 'b console_scheme world" where
  "print_error what r w = (case r of Inl e \<Rightarrow> println (what @ Error_text e) w | Inr _ \<Rightarrow> w)"

definition human_users :: "UserID \<Rightarrow> TenantID \<Rightarrow> Email \<Rightarrow> human_desk world \<Rightarrow> unit res \<times> human_desk world" where
  "human_users uid tid email w =
     (let (created, w) = read_clock w; (updated, w) = read_clock w in
      and_then (NewUser uid tid email created updated, w) (\<lambda>u w.
      and_then (at_users (UserRepository_UpsertUser UserRepo u) w) (\<lambda>_ w.
      and_then (at_users (UserRepository_GetUser UserRepo tid uid) w) (\<lambda>got w.
      (Inr (), println (''user: '' @ UserID_String (User_id got) @ '' <'' @ Email_String (User_email got) @
          ''> in tenant '' @ TenantID_String (User_tenantID got)) w)))))"

definition session_service :: "(session_map world) SessionService" where
  "session_service = NewSessionService SessionRepo (24 * (60 * minute))"

definition link_service :: "(link_map world) MagicLinkService" where
  "link_service = NewMagicLinkService MagicLinkRepo (15 * minute)"

definition human_sessions :: "UserID \<Rightarrow> TenantID \<Rightarrow> human_desk world \<Rightarrow> unit res \<times> human_desk world" where
  "human_sessions uid tid w =
     (let sessions = session_service in
      and_then (at_sessions (SessionService_Issue sessions uid tid) w) (\<lambda>s w.
      and_then (sliced 12 (Token_String (Session_token s)), w) (\<lambda>start w.
      let w = println (''session issued: token='' @ start @ ellipsis) w in
      and_then (at_sessions (SessionService_Validate sessions (Session_token s)) w) (\<lambda>sess w.
      let w = println (''session validates for user '' @ UserID_String (Session_userID sess) @ '' (Token empty after Validate: '' @
          (if Token_String (Session_token sess) = [] then ''true'' else ''false'') @ '')'') w in
      and_then (at_sessions (SessionService_Rotate sessions (Session_token s)) w) (\<lambda>fresh w.
      and_then (sliced 12 (Token_String (Session_token fresh)), w) (\<lambda>start w.
      let w = println (''session rotated: new token='' @ start @ ellipsis @ '', old token now invalid'') w in
      examined (at_sessions (SessionService_Validate sessions (Session_token s)) w) (\<lambda>r w.
      let w = print_error ''old token rejected: '' r w in
      and_then (at_sessions (SessionService_Revoke sessions (Session_token fresh)) w) (\<lambda>_ w.
      at_sessions (SessionService_RevokeAll sessions uid) w))))))))"

definition human_password :: "Argon2 \<Rightarrow> human_desk world \<Rightarrow> unit res \<times> human_desk world" where
  "human_password A w =
     and_then (HashPassword A ''correct horse battery staple'' DefaultArgon2idParams w) (\<lambda>hash w.
     and_then (PasswordHash_Verify A hash ''correct horse battery staple'', w) (\<lambda>_ w.
     (Inr (), println ''password verified'' w)))"

definition human_totp :: "(nat \<Rightarrow> nat) \<Rightarrow> UserID \<Rightarrow> Email \<Rightarrow> human_desk world \<Rightarrow> unit res \<times> human_desk world" where
  "human_totp uu uid email w =
     (let repo = TOTPRepo uu; cfg = DefaultTOTPConfig ''Klarlabs'' in
      and_then (NewTOTPSecret uu w) (\<lambda>secret w.
      and_then (at_totp (TOTPRepository_SetSecret repo uid secret) w) (\<lambda>_ w.
      let w = println (''totp provisioning URI: '' @ TOTPConfig_ProvisioningURI cfg secret (Email_String email)) w in
      and_then (NewTOTPService repo cfg, w) (\<lambda>totp w.
      let (now, w) = read_clock w in
      and_then (TOTPConfig_Generate cfg secret now, w) (\<lambda>code w.
      and_then (at_totp (TOTPService_Verify totp uid code) w) (\<lambda>_ w.
      examined (at_totp (TOTPService_Verify totp uid code) w) (\<lambda>r w.
      (Inr (), print_error ''totp replay rejected: '' r w))))))))"

definition human_links :: "TenantID \<Rightarrow> Email \<Rightarrow> human_desk world \<Rightarrow> unit res \<times> human_desk world" where
  "human_links tid email w =
     (let magic = link_service in
      and_then (at_links (MagicLinkService_Issue magic email tid) w) (\<lambda>raw w.
      and_then (at_links (MagicLinkService_Issue magic email tid) w) (\<lambda>stale w.
      examined (at_links (MagicLinkService_Consume magic raw) w) (\<lambda>r w.
      let w = print_error ''prior magic link rejected after re-issue: '' r w in
      and_then (at_links (MagicLinkService_Consume magic stale) w) (\<lambda>link w.
      (Inr (), println (''magic link consumed for '' @ Email_String (MagicLink_email link)) w))))))"

definition human_passkeys ::
  "('rp, 'sess, 'opts, 'cr, 'as) webauthn \<Rightarrow> UserID \<Rightarrow> human_desk world \<Rightarrow> unit wa \<times> human_desk world" where
  "human_passkeys L uid w =
     and_then (handed_on (rand_read StateKeyMinBytes w)) (\<lambda>stateKey w.
     and_then (Authenticator_New L \<lparr>RPDisplayName = ''Klarlabs'', RPID = ''localhost'', RPOrigins = [''http://localhost:8080''],
         StateKey = stateKey, UserVerification = []\<rparr> PasskeyRepo, w) (\<lambda>a w.
     and_then (at_passkeys (BeginRegistration L a uid ''Demo User'') w) (\<lambda>(opts, state) w.
     (Inr (), println (''passkey begin: options='' @ decimal (length opts) @ ''B sealed-state='' @ decimal (length state) @ ''B'') w))))"

definition human_walk ::
  "(nat \<Rightarrow> nat) \<Rightarrow> (nat \<Rightarrow> nat) \<Rightarrow> Argon2 \<Rightarrow> ('rp, 'sess, 'opts, 'cr, 'as) webauthn \<Rightarrow> human_desk world \<Rightarrow>
     unit wa \<times> human_desk world" where
  "human_walk ul uu A L w =
     and_then (handed_on (NewUserID ''user-1'', w)) (\<lambda>uid w.
     and_then (handed_on (NewTenantID ''tenant-1'', w)) (\<lambda>tid w.
     and_then (handed_on (NewEmail ul ''user@example.com'', w)) (\<lambda>email w.
     and_then (handed_on (human_users uid tid email w)) (\<lambda>_ w.
     and_then (handed_on (human_sessions uid tid w)) (\<lambda>_ w.
     and_then (handed_on (human_password A w)) (\<lambda>_ w.
     and_then (handed_on (human_totp uu uid email w)) (\<lambda>_ w.
     and_then (handed_on (human_links tid email w)) (\<lambda>_ w.
     human_passkeys L uid w))))))))"

definition human_main ::
  "(nat \<Rightarrow> nat) \<Rightarrow> (nat \<Rightarrow> nat) \<Rightarrow> Argon2 \<Rightarrow> ('rp, 'sess, 'opts, 'cr, 'as) webauthn \<Rightarrow> 's world \<Rightarrow>
     unit wa \<times> human_desk world" where
  "human_main ul uu A L w =
     human_walk ul uu A L
       (with_store \<lparr>printed = [], desk_users = NewUserRepo, desk_sessions = NewSessionRepo, desk_totp = NewTOTPRepo,
          desk_links = NewMagicLinkRepo, desk_passkeys = []\<rparr> w)"

section \<open>Moments of a run\<close>

text \<open>
  \<open>moment w n s\<close>: the world at position \<open>n\<close> of the run of \<open>w\<close>, with the store \<open>s\<close>. Where nothing external
  fails, the rules run a straight-line program from moment to moment.
\<close>

definition moment :: "'a env_scheme \<Rightarrow> nat \<Rightarrow> 's \<Rightarrow> 's world" where
  "moment w n s = \<lparr>clk = clk w, rnd = rnd w, fault = fault w, pos = n, store = s\<rparr>"

definition drawn_bytes :: "'a env_scheme \<Rightarrow> nat \<Rightarrow> nat \<Rightarrow> string" where
  "drawn_bytes w n k = map (projr (rnd w n)) [0..<k]"

definition token_at :: "'a env_scheme \<Rightarrow> nat \<Rightarrow> Token" where
  "token_at w n = Token (base64_encode True (drawn_bytes w n tokenBytes))"

definition steady :: "'a env_scheme \<Rightarrow> bool" where
  "steady w \<longleftrightarrow> quiet w \<and> rand_ok w"

lemma moment_simps [simp]:
  "store (moment w n s) = s" "pos (moment w n s) = n" "clk (moment w n s) = clk w"
  "tick (moment w n s) = moment w (Suc n) s" "put_store s' (moment w n s) = moment w n s'"
  "with_store x (moment w n s) = moment w n x"
  "read_clock (moment w n s) = (clk w n, moment w (Suc n) s)"
  "(moment w n s)\<lparr>pos := m, store := s'\<rparr> = moment w m s'"
  "println l (moment w n d) = moment w n (d\<lparr>printed := printed d @ [l]\<rparr>)"
  by (simp_all add: moment_def tick_def put_store_def with_store_def read_clock_def println_def)

lemma on_part_moment [simp]:
  "on_part get put f (moment w n d) = (case f (moment w n (get d)) of (r, v) \<Rightarrow> (r, moment w (pos v) (put (store v) d)))"
  by (simp add: on_part_def split: prod.splits)

lemma checked_moment [simp]:
  assumes "steady w" and "pos w \<le> n"
  shows "checked f (moment w n s) = (case f s of (r, s') \<Rightarrow> (r, moment w (Suc n) s'))"
  using assms by (simp add: checked_def external_check_def steady_def quiet_def moment_def tick_def put_store_def)

lemma rand_moment [simp]:
  assumes "steady w" and "pos w \<le> n"
  shows "rand_read k (moment w n s) = (Inr (drawn_bytes w n k), moment w (Suc n) s)"
  using assms by (cases "rnd w n") (auto simp: rand_read_def steady_def rand_ok_def moment_def tick_def drawn_bytes_def)

lemma token_moment [simp]:
  assumes "steady w" and "pos w \<le> n"
  shows "NewToken (moment w n s) = (Inr (token_at w n), moment w (Suc n) s)"
  using assms by (simp add: NewToken_def token_at_def)

section \<open>The sections of the walkthrough\<close>

lemma map_row_simps [simp]:
  "gomap_set k x [] = [(k, x)]" "gomap_get [(k, x)] j = (if j = k then Some x else None)"
  "gomap_delete j [(k, x)] = (if j = k then [] else [(k, x)])" "gomap_get [] j = None" "gomap_delete j [] = []"
  "gomap_keep p [] = []"
  by (auto simp: gomap_set_def gomap_get_def gomap_delete_def gomap_keep_def)

lemma human_users_run:
  assumes "steady w" and "pos w \<le> n" and "desk_users d = []"
    and "\<not> UserID_IsZero u" and "\<not> TenantID_IsZero t" and "Email_String e \<noteq> []"
  shows "\<exists>m. human_users u t e (moment w n d) = (Inr (), moment w (n + 4) (d\<lparr>desk_users := m, printed := printed d @
    [''user: '' @ UserID_String u @ '' <'' @ Email_String e @ ''> in tenant '' @ TenantID_String t]\<rparr>))"
proof -
  define x where "x = \<lparr>User_id = u, User_tenantID = t, User_email = e, User_createdAt = clk w n, User_updatedAt = clk w (Suc n)\<rparr>"
  have new: "NewUser u t e (clk w n) (clk w (Suc n)) = Inr x"
    using assms(4-6) by (simp add: NewUser_def x_def)
  have f: "UserSnapshot_ID (User_Snapshot x) = UserID_String u" "UserSnapshot_TenantID (User_Snapshot x) = TenantID_String t"
    "User_id x = u" "User_email x = e" "User_tenantID x = t"
    by (simp_all add: x_def User_Snapshot_def)
  show ?thesis
    using assms(1-3)
    by (intro exI [of _ "[(UserID_String u, User_Snapshot x)]"])
       (simp add: human_users_def new f UserRepo_def UserRepo_UpsertUser_def UserRepo_GetUser_def Let_def eval_nat_numeral)
qed

text \<open>All readings of the clock lie in one time step of 30 seconds, after 1970.\<close>

definition one_step :: "'a env_scheme \<Rightarrow> bool" where
  "one_step w \<longleftrightarrow> (\<exists>k. 0 \<le> k \<and> k < 2 ^ 58 \<and> (\<forall>n \<ge> pos w.
     (62135596800 + 30 * k) * second \<le> clk w n \<and> clk w n < (62135596800 + 30 * k + 30) * second))"

lemma one_step_close:
  assumes "one_step w" and "pos w \<le> i" and "pos w \<le> j" and "30 * second \<le> d"
  shows "clk w j < clk w i + d"
proof -
  from assms(1) obtain k where k: "\<And>n. pos w \<le> n \<Longrightarrow>
      (62135596800 + 30 * k) * second \<le> clk w n \<and> clk w n < (62135596800 + 30 * k + 30) * second"
    unfolding one_step_def by blast
  from k [OF assms(2)] k [OF assms(3)] assms(4) show ?thesis by (simp add: algebra_simps)
qed

lemma one_step_live [simp]:
  assumes "one_step w" and "pos w \<le> i" and "pos w \<le> j"
  shows "\<not> clk w i + 1440 * minute \<le> clk w j" "\<not> clk w i + 15 * minute \<le> clk w j"
  using one_step_close [OF assms, of "1440 * minute"] one_step_close [OF assms, of "15 * minute"]
  by (simp_all add: minute_def second_def)

lemma token_at_length: "length (Token_String (token_at w n)) = 43"
  by (simp add: token_at_def length_base64_encode drawn_bytes_def tokenBytes_def)

lemma sliced_token_at [simp]:
  "sliced 12 (Token_String (token_at w n)) = Inr (take 12 (Token_String (token_at w n)))"
  by (simp add: sliced_def token_at_length)

lemma token_at_nonempty [simp]: "Token_String (token_at w n) \<noteq> []"
  using token_at_length [of w n] by auto

lemma session_service_simps [simp]:
  "SessionService_repo session_service = SessionRepo" "SessionService_ttl session_service = 1440 * minute"
  by (simp_all add: session_service_def NewSessionService_def)

definition session_at_moment :: "'a env_scheme \<Rightarrow> nat \<Rightarrow> UserID \<Rightarrow> TenantID \<Rightarrow> Session" where
  "session_at_moment w n u t =
     \<lparr>Session_token = token_at w n, Session_tokenHash = HashToken (token_at w n), Session_userID = u, Session_tenantID = t,
      Session_createdAt = clk w (Suc n), Session_expiresAt = clk w (Suc n) + 1440 * minute\<rparr>"

lemma session_at_moment_simps [simp]:
  "Session_token (session_at_moment w n u t) = token_at w n" "Session_userID (session_at_moment w n u t) = u"
  "Session_tokenHash (session_at_moment w n u t) = HashToken (token_at w n)"
  "Session_tenantID (session_at_moment w n u t) = t" "Session_expiresAt (session_at_moment w n u t) = clk w (Suc n) + 1440 * minute"
  by (simp_all add: session_at_moment_def)

lemma new_session_moment [simp]:
  assumes "steady w" and "pos w \<le> n" and "\<not> UserID_IsZero u" and "\<not> TenantID_IsZero t"
  shows "SessionService_newSession session_service u t (moment w n d) = (Inr (session_at_moment w n u t), moment w (Suc (Suc n)) d)"
  using assms by (simp add: SessionService_newSession_def session_at_moment_def Let_def)

text \<open>The operations on a table whose rows are given.\<close>

lemmas session_steps = SessionRepo_def SessionRepo_Save_def SessionRepo_FindByToken_def SessionRepo_Delete_def
  SessionRepo_DeleteByUser_def SessionRepo_RotateAtomically_def sessionKey_def Let_def

lemma issue_moment:
  assumes "steady w" and "pos w \<le> n" and "\<not> UserID_IsZero u" and "\<not> TenantID_IsZero t"
  shows "SessionService_Issue session_service u t (moment w n []) =
    (Inr (session_at_moment w n u t),
     moment w (n + 3) [(HashToken (token_at w n), Session_Snapshot (session_at_moment w n u t))])"
  using assms by (simp add: SessionService_Issue_def session_steps eval_nat_numeral)

lemma validate_moment:
  assumes "steady w" and "pos w \<le> n" and "pos w \<le> k" and "one_step w"
    and "gomap_get m (HashToken tok) = Some (Session_Snapshot (session_at_moment w k u t))" and "Token_String tok \<noteq> []"
  shows "SessionService_Validate session_service tok (moment w n m) =
    (Inr (SessionFromSnapshot (Session_Snapshot (session_at_moment w k u t))), moment w (n + 2) m)"
  using assms by (simp add: SessionService_Validate_def session_steps Session_Expired_def eval_nat_numeral)

lemma validate_absent_moment:
  assumes "steady w" and "pos w \<le> n" and "gomap_get m (HashToken tok) = None" and "Token_String tok \<noteq> []"
  shows "SessionService_Validate session_service tok (moment w n m) = (Inl ErrNotFound, moment w (Suc n) m)"
  using assms by (simp add: SessionService_Validate_def session_steps)

lemma stored_session [simp]:
  "SessionFromSnapshot (Session_Snapshot (session_at_moment w n u t)) = session_at_moment w n u t\<lparr>Session_token := zero_token\<rparr>"
  by (simp add: Session_snapshot_hydrate)

lemma rotate_moment:
  assumes "steady w" and "pos w \<le> n" and "pos w \<le> k" and "one_step w" and "\<not> UserID_IsZero u" and "\<not> TenantID_IsZero t"
  shows "SessionService_Rotate session_service (token_at w k)
      (moment w n [(HashToken (token_at w k), Session_Snapshot (session_at_moment w k u t))]) =
    (Inr (session_at_moment w (n + 2) u t),
     moment w (n + 5) [(HashToken (token_at w (n + 2)), Session_Snapshot (session_at_moment w (n + 2) u t))])"
  using assms
  by (simp add: SessionService_Rotate_def validate_moment) (simp add: session_steps eval_nat_numeral)

lemma revoke_moment:
  assumes "steady w" and "pos w \<le> n"
  shows "SessionService_Revoke session_service (token_at w k) (moment w n [(HashToken (token_at w k), x)]) = (Inr (), moment w (Suc n) [])"
  using assms by (simp add: SessionService_Revoke_def session_steps)

lemma revoke_all_moment:
  assumes "steady w" and "pos w \<le> n"
  shows "SessionService_RevokeAll session_service u (moment w n []) = (Inr (), moment w (Suc n) [])"
  using assms by (simp add: SessionService_RevokeAll_def session_steps)

definition session_lines :: "UserID \<Rightarrow> Token \<Rightarrow> Token \<Rightarrow> string list" where
  "session_lines u tok tok' =
     [''session issued: token='' @ take 12 (Token_String tok) @ ellipsis,
      ''session validates for user '' @ UserID_String u @ '' (Token empty after Validate: true)'',
      ''session rotated: new token='' @ take 12 (Token_String tok') @ ellipsis @ '', old token now invalid''] @
     (if HashToken tok' = HashToken tok then [] else [''old token rejected: authgo: not found''])"

lemma human_sessions_run:
  assumes "steady w" and "pos w \<le> n" and "one_step w" and "desk_sessions d = []"
    and "\<not> UserID_IsZero u" and "\<not> TenantID_IsZero t"
  shows "\<exists>m. n \<le> m \<and> human_sessions u t (moment w n d) =
    (Inr (), moment w m (d\<lparr>printed := printed d @ session_lines u (token_at w n) (token_at w (n + 7))\<rparr>))"
proof -
  let ?tok = "token_at w n" and ?new = "token_at w (n + 7)"
  let ?m = "[(HashToken ?tok, Session_Snapshot (session_at_moment w n u t))]"
  let ?m' = "[(HashToken ?new, Session_Snapshot (session_at_moment w (n + 7) u t))]"
  have i: "SessionService_Issue session_service u t (moment w n []) = (Inr (session_at_moment w n u t), moment w (n + 3) ?m)"
    using assms by (intro issue_moment) auto
  have v: "SessionService_Validate session_service ?tok (moment w (n + 3) ?m) =
      (Inr (session_at_moment w n u t\<lparr>Session_token := zero_token\<rparr>), moment w (n + 5) ?m)"
    using validate_moment [of w "n + 3" n ?m ?tok u t] assms by (simp add: eval_nat_numeral)
  have r: "SessionService_Rotate session_service ?tok (moment w (n + 5) ?m) =
      (Inr (session_at_moment w (n + 7) u t), moment w (n + 10) ?m')"
    using rotate_moment [of w "n + 5" n u t] assms by (simp add: eval_nat_numeral)
  have o: "\<exists>m x. 10 \<le> m \<and> \<not> (isl x \<and> is_panic (projl x)) \<and> SessionService_Validate session_service ?tok (moment w (n + 10) ?m') = (x, moment w (n + m) ?m') \<and>
      (\<forall>v :: human_desk world. print_error ''old token rejected: '' x v =
        (if HashToken ?new = HashToken ?tok then v else println ''old token rejected: authgo: not found'' v))"
  proof (cases "HashToken ?new = HashToken ?tok")
    case True
    then show ?thesis
      using validate_moment [of w "n + 10" "n + 7" ?m' ?tok u t] assms
      by (intro exI [of _ 12] exI [of _ "Inr (session_at_moment w (n + 7) u t\<lparr>Session_token := zero_token\<rparr>)"])
         (simp add: print_error_def eval_nat_numeral)
  next
    case False
    then show ?thesis
      using validate_absent_moment [of w "n + 10" ?m' ?tok] assms
      by (intro exI [of _ 11] exI [of _ "Inl ErrNotFound"]) (simp add: print_error_def eval_nat_numeral)
  qed
  then obtain m x where m: "10 \<le> m" "\<not> (isl x \<and> is_panic (projl x))"
      and ov: "SessionService_Validate session_service ?tok (moment w (n + 10) ?m') = (x, moment w (n + m) ?m')"
      and pe: "\<And>v :: human_desk world. print_error ''old token rejected: '' x v =
        (if HashToken ?new = HashToken ?tok then v else println ''old token rejected: authgo: not found'' v)" by blast
  have ex: "examined (x, v) k = k x v" for v :: "human_desk world" and k :: "Session res \<Rightarrow> human_desk world \<Rightarrow> unit res \<times> human_desk world"
    using m(2) by (cases x) simp_all
  have none: "d\<lparr>printed := p, desk_sessions := []\<rparr> = d\<lparr>printed := p\<rparr>" for p using assms(4) by (cases d) simp
  have "human_sessions u t (moment w n d) =
      (Inr (), moment w (n + m + 2) (d\<lparr>printed := printed d @ session_lines u ?tok ?new\<rparr>))"
    using i v r ov m(1) assms revoke_moment [of w "n + m" "n + 7"] revoke_all_moment [of w "Suc (n + m)" u]
    by (cases "HashToken ?new = HashToken ?tok")
       (simp_all add: human_sessions_def Let_def ex pe session_lines_def zero_token_def none)
  then show ?thesis by (intro exI [of _ "n + m + 2"]) simp
qed

lemma human_password_run:
  assumes "steady w" and "pos w \<le> n" and "argon2_ok A"
  shows "human_password A (moment w n d) = (Inr (), moment w (Suc n) (d\<lparr>printed := printed d @ [''password verified'']\<rparr>))"
proof -
  let ?pw = "''correct horse battery staple''"
  have ok: "checkPasswordPlaintext ?pw = Inr ()" by (simp add: checkPasswordPlaintext_def maxPasswordLen_def)
  obtain r v where h: "HashPassword A ?pw DefaultArgon2idParams (moment w n d) = (r, v)" by fastforce
  from assms(3) h show ?thesis
  proof (cases rule: HashPassword_cases)
    case (no_random msg)
    then show ?thesis using assms(1,2) by (auto simp: steady_def rand_ok_def moment_def)
  next
    case (hashed salt key)
    then show ?thesis
      using h Verify_encoded [OF assms(3) hashed(4,6) ok] by (simp add: human_password_def)
  qed (use ok default_params_valid in simp_all)
qed

lemma within_seconds:
  assumes "a * second \<le> t \<and> t < b * second"
  shows "a \<le> t div second" and "t div second < b"
  using assms unfolding second_def by linarith+

lemma one_step_counter:
  assumes "one_step w" and "pos w \<le> i" and "pos w \<le> j"
  shows "step_counter (DefaultTOTPConfig x) (clk w i) = step_counter (DefaultTOTPConfig x) (clk w j)"
proof -
  from assms(1) obtain k where k: "0 \<le> k" "k < 2 ^ 58" "\<And>n. pos w \<le> n \<Longrightarrow>
      (62135596800 + 30 * k) * second \<le> clk w n \<and> clk w n < (62135596800 + 30 * k + 30) * second"
    unfolding one_step_def by blast
  have "sint (step_counter (DefaultTOTPConfig x) (clk w n)) = k" if "pos w \<le> n" for n
  proof -
    have "62135596800 + 30 * k \<le> clk w n div second" "clk w n div second < 62135596800 + 30 * k + 30"
      using k(3) [OF that] within_seconds by blast+
    then have u: "30 * k \<le> unix_seconds (clk w n)" "unix_seconds (clk w n) < 30 * k + 30"
      by (simp_all add: unix_seconds_def)
    then have "unix_seconds (clk w n) div 30 = k" by simp
    moreover have "0 \<le> unix_seconds (clk w n)" "unix_seconds (clk w n) < 2 ^ 63" using u k(1,2) by simp_all
    ultimately show ?thesis using step_counter_sint [of "clk w n" "DefaultTOTPConfig x"] by simp
  qed
  from this [OF assms(2)] this [OF assms(3)] show ?thesis by (intro injD [OF inj_signed [where 'a = int]]) simp
qed

definition totp_secret_at :: "'a env_scheme \<Rightarrow> nat \<Rightarrow> TOTPSecret" where
  "totp_secret_at w n = TOTPSecret (base32_encode (drawn_bytes w n secretBytes))"

definition totp_lines :: "Email \<Rightarrow> TOTPSecret \<Rightarrow> string list" where
  "totp_lines e secret =
     [''totp provisioning URI: '' @ TOTPConfig_ProvisioningURI (DefaultTOTPConfig ''Klarlabs'') secret (Email_String e),
      ''totp replay rejected: authgo: TOTP code already used'']"

lemma secret_moment [simp]:
  assumes "steady w" and "pos w \<le> n"
  shows "NewTOTPSecret uu (moment w n d) = (Inr (totp_secret_at w n), moment w (Suc n) d)"
  using assms by (simp add: NewTOTPSecret_def totp_secret_at_def)

lemma human_totp_run:
  assumes "steady w" and "pos w \<le> n" and "one_step w" and "desk_totp d = NewTOTPRepo"
  shows "\<exists>m. human_totp uu u e (moment w n d) =
    (Inr (), moment w (n + 9) (d\<lparr>desk_totp := m, printed := printed d @ totp_lines e (totp_secret_at w n)\<rparr>))"
proof -
  let ?c = "DefaultTOTPConfig ''Klarlabs''" and ?s = "totp_secret_at w n"
  have key: "base32_decode (TOTPSecret_String ?s) = Some (drawn_bytes w n secretBytes)" by (simp add: totp_secret_at_def)
  obtain code where code: "TOTPConfig_Generate ?c ?s (clk w (n + 2)) = Inr code"
    using hotp_rfc [of ?c ?s _ "step_counter ?c (clk w (n + 2))"] key by (auto simp: TOTPConfig_Generate_def)
  have "TOTPConfig_Validate ?c ?s code (clk w (n + 4)) = Inr ()"
    using generate_validates [OF _ code, of "clk w (n + 4)"] one_step_counter [OF assms(3), of "n + 2" "n + 4"] assms(2) by simp
  then obtain step where v: "TOTPConfig_validateStep ?c ?s code (clk w (n + 4)) = Inr step"
    by (auto simp: TOTPConfig_Validate_def split: sum.splits)
  then have v': "TOTPConfig_validateStep ?c ?s code (clk w (n + 7)) = Inr step"
    using one_step_counter [OF assms(3), of "n + 4" "n + 7"] assms(2) by (simp add: TOTPConfig_validateStep_def)
  have ne: "drawn_bytes w n secretBytes \<noteq> []" by (simp add: drawn_bytes_def secretBytes_def)
  have acc: "TOTPSecretFromString uu (TOTPSecret_String ?s) = Inr ?s"
    using generated_secret_accepted [OF ne] by (simp add: totp_secret_at_def)
  show ?thesis
    using assms code v v'
    by (intro exI [of _ "\<lparr>secrets = [(UserID_String u, TOTPSecret_String ?s)], steps = [(UserID_String u, step)]\<rparr>"])
       (simp add: human_totp_def Let_def TOTPRepo_def TOTPRepo_SetSecret_def TOTPRepo_GetSecret_def TOTPRepo_ConsumeStep_def
          NewTOTPRepo_def NewTOTPService_def TOTPService_Verify_def acc totp_lines_def print_error_def eval_nat_numeral)
qed

definition link_row :: "'a env_scheme \<Rightarrow> nat \<Rightarrow> TenantID \<Rightarrow> Email \<Rightarrow> bool \<Rightarrow> string \<times> MagicLinkSnapshot" where
  "link_row w n t e used =
     (HashToken (token_at w n),
      \<lparr>MagicLinkSnapshot_Hash = HashToken (token_at w n), MagicLinkSnapshot_Email = Email_String e,
       MagicLinkSnapshot_TenantID = TenantID_String t, MagicLinkSnapshot_ExpiresAt = clk w (Suc n) + 15 * minute,
       MagicLinkSnapshot_Consumed = used\<rparr>)"

lemmas link_steps = link_service_def NewMagicLinkService_def MagicLinkRepo_def MagicLinkRepo_FindByHash_def
  MagicLinkRepo_MarkConsumed_def MagicLinkRepo_IssueAtomically_def invalidateLocked_def MagicLink_Snapshot_def
  MagicLinkFromSnapshot_def MagicLink_Expired_def gomap_rewrite_def gomap_set_def gomap_get_def Let_def

text \<open>The first link, the second that spends it, and the redemptions.\<close>

lemma issue_link_moment:
  assumes "steady w" and "pos w \<le> n" and "\<not> TenantID_IsZero t"
  shows "MagicLinkService_Issue link_service e t (moment w n []) = (Inr (token_at w n), moment w (n + 3) [link_row w n t e False])"
    and "MagicLinkService_Issue link_service e t (moment w n [link_row w k t e False]) =
      (Inr (token_at w n), moment w (n + 3)
        (if HashToken (token_at w n) = HashToken (token_at w k) then [link_row w n t e False]
         else [link_row w k t e True, link_row w n t e False]))"
  using assms by (simp_all add: MagicLinkService_Issue_def link_steps link_row_def eval_nat_numeral)

lemma consume_link_moment:
  assumes "steady w" and "pos w \<le> n" and "one_step w" and "pos w \<le> k"
    and "HashToken (token_at w i) \<noteq> HashToken (token_at w k)"
  shows "MagicLinkService_Consume link_service (token_at w i) (moment w n [link_row w i t e True, link_row w k t e x]) =
      (Inl ErrConsumed, moment w (Suc n) [link_row w i t e True, link_row w k t e x])"
    and "MagicLinkService_Consume link_service (token_at w k) (moment w n [link_row w i t e True, link_row w k t e False]) =
      (Inr \<lparr>MagicLink_hash = HashToken (token_at w k), MagicLink_email = e, MagicLink_tenantID = t,
          MagicLink_expiresAt = clk w (Suc k) + 15 * minute, MagicLink_consumed = True\<rparr>,
       moment w (n + 3) [link_row w i t e True, link_row w k t e True])"
  using assms by (simp_all add: MagicLinkService_Consume_def link_steps link_row_def eval_nat_numeral)

lemma consume_only_link:
  assumes "steady w" and "pos w \<le> n" and "one_step w" and "pos w \<le> k" and "HashToken tok = HashToken (token_at w k)"
  shows "MagicLinkService_Consume link_service tok (moment w n [link_row w k t e True]) = (Inl ErrConsumed, moment w (Suc n) [link_row w k t e True])"
    and "\<exists>l. MagicLinkService_Consume link_service tok (moment w n [link_row w k t e False]) = (Inr l, moment w (n + 3) [link_row w k t e True])"
  using assms by (simp_all add: MagicLinkService_Consume_def link_steps link_row_def eval_nat_numeral)

definition link_lines :: "Email \<Rightarrow> string list" where
  "link_lines e =
     [''prior magic link rejected after re-issue: authgo: already consumed'', ''magic link consumed for '' @ Email_String e]"

lemma human_links_run:
  assumes "steady w" and "pos w \<le> n" and "one_step w" and "desk_links d = []" and "\<not> TenantID_IsZero t"
  shows "\<exists>m. human_links t e (moment w n d) =
    (if HashToken (token_at w (n + 3)) = HashToken (token_at w n)
     then (Inl ErrConsumed, moment w (n + 10) (d\<lparr>desk_links := m\<rparr>))
     else (Inr (), moment w (n + 10) (d\<lparr>desk_links := m, printed := printed d @ link_lines e\<rparr>)))"
proof -
  note issue = issue_link_moment [OF assms(1) _ assms(5), of _ e]
  show ?thesis
  proof (cases "HashToken (token_at w (n + 3)) = HashToken (token_at w n)")
    case True
    obtain l where l: "MagicLinkService_Consume link_service (token_at w n) (moment w (n + 6) [link_row w (n + 3) t e False]) =
        (Inr l, moment w (n + 9) [link_row w (n + 3) t e True])"
      using consume_only_link(2) [of w "n + 6" "n + 3" "token_at w n" t e] assms(1-3) True by (auto simp: algebra_simps)
    show ?thesis
      using True assms(1-4) issue(1) [of n] issue(2) [of "n + 3" n] l consume_only_link(1) [of w "n + 9" "n + 3" "token_at w (n + 3)" t e]
      by (intro exI [of _ "[link_row w (n + 3) t e True]"]) (simp add: human_links_def Let_def print_error_def eval_nat_numeral)
  next
    case False
    note c = consume_link_moment [of w _ "n + 3" n t e]
    show ?thesis
      using False assms(1-4) issue(1) [of n] issue(2) [of "n + 3" n] c(1) [of "n + 6" False] c(2) [of "n + 7"]
      by (intro exI [of _ "[link_row w n t e True, link_row w (n + 3) t e True]"])
         (simp add: human_links_def Let_def print_error_def link_lines_def eval_nat_numeral)
  qed
qed

section \<open>The whole walkthrough\<close>

text \<open>
  What the program asks of go-webauthn: \<open>demo_rp\<close> is the configuration \<open>webauthn.New\<close> hands it, \<open>demo_user\<close>
  the user of the one registration. \<open>registers L\<close>: the library takes this configuration (it has an ID
  and an origin), begins a registration for this user, and its two values have a JSON form.
\<close>

definition demo_rp :: RPConfig where
  "demo_rp = (let timeouts = \<lparr>tc_Enforce = True, tc_Timeout = defaultCeremonyTimeout, tc_TimeoutUVD = defaultCeremonyTimeoutUVD\<rparr>
     in \<lparr>rp_RPDisplayName = ''Klarlabs'', rp_RPID = ''localhost'', rp_RPOrigins = [''http://localhost:8080''],
         rp_Login = timeouts, rp_Registration = timeouts\<rparr>)"

definition demo_user :: waUser where
  "demo_user = \<lparr>waUser_id = ''user-1'', waUser_name = ''Demo User'', waUser_displayName = ''Demo User'', waUser_creds = []\<rparr>"

definition registers :: "('rp, 'sess, 'opts, 'cr, 'as) webauthn \<Rightarrow> bool" where
  "registers L \<longleftrightarrow> (\<exists>rp. wa_New L demo_rp = Inr rp \<and>
     (\<forall>n. \<exists>out s ob raw. wa_BeginRegistration L rp n demo_user ''required'' = Inr (out, s) \<and>
        marshal_options L out = Inr ob \<and> marshal_session L s = Inr raw))"

definition passkey_line :: "string \<Rightarrow> string \<Rightarrow> string" where
  "passkey_line opts state =
     ''passkey begin: options='' @ decimal (length opts) @ ''B sealed-state='' @ decimal (length state) @ ''B''"

lemma human_passkeys_run:
  assumes "steady w" and "pos w \<le> n" and "desk_passkeys d = []" and "registers L"
  shows "\<exists>opts state. human_passkeys L (UserID ''user-1'') (moment w n d) =
    (Inr (), moment w (n + 3) (d\<lparr>printed := printed d @ [passkey_line opts state]\<rparr>))"
proof -
  let ?cfg = "\<lparr>RPDisplayName = ''Klarlabs'', RPID = ''localhost'', RPOrigins = [''http://localhost:8080''],
      StateKey = drawn_bytes w n StateKeyMinBytes, UserVerification = []\<rparr>" and ?u = "UserID ''user-1''"
  from assms(4) obtain rp where rp: "wa_New L demo_rp = Inr rp" and reg: "\<And>n. \<exists>out s ob raw.
      wa_BeginRegistration L rp n demo_user ''required'' = Inr (out, s) \<and>
      marshal_options L out = Inr ob \<and> marshal_session L s = Inr raw" by (auto simp: registers_def)
  define a where "a = \<lparr>auth_wa = rp, auth_repo = PasskeyRepo, auth_uv = ''required'', auth_stateKey = StateKey ?cfg\<rparr>"
  have key: "\<not> length (StateKey ?cfg) < StateKeyMinBytes" by (simp add: drawn_bytes_def)
  have a: "Authenticator_New L ?cfg PasskeyRepo = Inr a"
    using key rp by (simp add: Authenticator_New_def a_def demo_rp_def Let_def)
  have ls: "PasskeyRepository_ListByUser PasskeyRepo ?u (moment w (Suc n) []) = (Inr [], moment w (Suc (Suc n)) [])"
    using assms(1,2) by (simp add: PasskeyRepo_def PasskeyRepo_ListByUser_def gomap_values_def)
  obtain c s ob raw where c: "wa_BeginRegistration L rp (Suc (Suc n)) demo_user ''required'' = Inr (c, s)"
    "marshal_options L c = Inr ob" "marshal_session L s = Inr raw" using reg by blast
  define blob where "blob = projr (sealState L a s)"
  have m: "marshalPair L a c s = Inr (ob, blob)"
    using c(2,3) by (simp add: marshalPair_def sealState_def pure_call_def blob_def)
  have user: "user_with ?u ''Demo User'' [] = demo_user" by (simp add: user_with_def demo_user_def Let_def)
  have b: "BeginRegistration L a ?u ''Demo User'' (moment w (Suc n) []) = (Inr (ob, blob), moment w (n + 3) [])"
    using ls c(1) m by (simp add: BeginRegistration_def loadUser_def a_def library_call_def user eval_nat_numeral)
  have same: "d\<lparr>desk_passkeys := []\<rparr> = d" using assms(3) by (cases d) simp
  show ?thesis
    using assms(1-3) a b
    by (intro exI [of _ ob] exI [of _ blob]) (simp add: human_passkeys_def same passkey_line_def)
qed

definition human_email :: Email where "human_email = Email ''user@example.com''"

lemma human_values:
  "NewUserID ''user-1'' = Inr (UserID ''user-1'')" "NewTenantID ''tenant-1'' = Inr (TenantID ''tenant-1'')"
  "NewEmail ul ''user@example.com'' = Inr human_email"
proof -
  have sp: "trim_space ''user-1'' = ''user-1''" "trim_space ''tenant-1'' = ''tenant-1''"
    "trim_space ''user@example.com'' = ''user@example.com''"
    by (rule trim_space_id; auto simp: ascii_def byte_def is_space_def)+
  have "to_lower ul ''user@example.com'' = ''user@example.com''"
    by (rule to_lower_id) (auto simp: ascii_def byte_def upper_byte_def)
  moreover have "email_ok ''user@example.com''"
    unfolding email_ok_def
    by (rule exI [of _ "''user''"], rule exI [of _ "''example.com''"]) (simp add: at_sign_def dot_def)
  ultimately show "NewEmail ul ''user@example.com'' = Inr human_email"
    unfolding human_email_def by (intro email_ok_accepted) (simp_all add: sp)
  show "NewUserID ''user-1'' = Inr (UserID ''user-1'')" "NewTenantID ''tenant-1'' = Inr (TenantID ''tenant-1'')"
    by (simp_all add: NewUserID_def NewTenantID_def sp maxUserIDLen_def maxTenantIDLen_def)
qed

definition human_lines :: "Token \<Rightarrow> Token \<Rightarrow> TOTPSecret \<Rightarrow> string list" where
  "human_lines tok tok' secret =
     [''user: user-1 <user@example.com> in tenant tenant-1''] @ session_lines (UserID ''user-1'') tok tok' @
     [''password verified''] @ totp_lines human_email secret"

text \<open>
  Up to the passkeys: the run ends at the redemptions only if the two link tokens have the same digest.
\<close>

definition human_outcome :: "'a env_scheme \<Rightarrow> nat \<Rightarrow> nat \<Rightarrow> nat \<Rightarrow> unit wa \<times> human_desk world \<Rightarrow> bool" where
  "human_outcome w i j k v \<longleftrightarrow>
     (let ls = human_lines (token_at w i) (token_at w (i + 7)) (totp_secret_at w j) in
      if HashToken (token_at w (k + 3)) = HashToken (token_at w k)
      then fst v = Inl (ErrPassed ErrConsumed) \<and> printed (store (snd v)) = ls
      else fst v = Inr () \<and> (\<exists>opts state. printed (store (snd v)) = ls @ link_lines human_email @ [passkey_line opts state]))"

lemma human_walk_run:
  assumes "steady w" and "one_step w" and "argon2_ok A" and "registers L"
    and "desk_users d = []" "desk_sessions d = []" "desk_totp d = NewTOTPRepo" "desk_links d = []" "desk_passkeys d = []"
    and "printed d = []"
  shows "\<exists>i j k. pos w \<le> i \<and> pos w \<le> k \<and> human_outcome w i j k (human_walk ul uu A L (moment w (pos w) d))"
proof -
  let ?u = "UserID ''user-1''" and ?t = "TenantID ''tenant-1''" and ?n = "pos w"
  have z: "\<not> UserID_IsZero ?u" "\<not> TenantID_IsZero ?t" "Email_String human_email \<noteq> []"
    by (simp_all add: UserID_IsZero_def TenantID_IsZero_def human_email_def)
  obtain m1 where 1: "human_users ?u ?t human_email (moment w ?n d) = (Inr (), moment w (?n + 4) (d\<lparr>desk_users := m1, printed := printed d @
      [''user: '' @ UserID_String ?u @ '' <'' @ Email_String human_email @ ''> in tenant '' @ TenantID_String ?t]\<rparr>))"
    using human_users_run [OF assms(1) _ assms(5) z] by blast
  define d1 where "d1 = d\<lparr>desk_users := m1, printed := printed d @
      [''user: '' @ UserID_String ?u @ '' <'' @ Email_String human_email @ ''> in tenant '' @ TenantID_String ?t]\<rparr>"
  obtain i where i: "?n + 4 \<le> i" and 2: "human_sessions ?u ?t (moment w (?n + 4) d1) = (Inr (), moment w i
      (d1\<lparr>printed := printed d1 @ session_lines ?u (token_at w (?n + 4)) (token_at w (?n + 4 + 7))\<rparr>))"
    using human_sessions_run [OF assms(1) _ assms(2) _ z(1,2), of "?n + 4" d1] assms(6) by (auto simp: d1_def)
  have le: "?n \<le> Suc i" "?n \<le> Suc i + 9" "?n \<le> Suc i + 9 + 10" using i by simp_all
  define d2 where "d2 = d1\<lparr>printed := printed d1 @ session_lines ?u (token_at w (?n + 4)) (token_at w (?n + 4 + 7))\<rparr>"
  have 3: "human_password A (moment w i d2) = (Inr (), moment w (Suc i) (d2\<lparr>printed := printed d2 @ [''password verified'']\<rparr>))"
    using human_password_run [OF assms(1) _ assms(3)] i by simp
  define d3 where "d3 = d2\<lparr>printed := printed d2 @ [''password verified'']\<rparr>"
  have part3: "desk_totp d3 = NewTOTPRepo" using assms(7) by (simp add: d3_def d2_def d1_def)
  obtain m4 where 4: "human_totp uu ?u human_email (moment w (Suc i) d3) = (Inr (), moment w (Suc i + 9)
      (d3\<lparr>desk_totp := m4, printed := printed d3 @ totp_lines human_email (totp_secret_at w (Suc i))\<rparr>))"
    using human_totp_run [OF assms(1) le(1) assms(2) part3, of uu ?u human_email] by blast
  define d4 where "d4 = d3\<lparr>desk_totp := m4, printed := printed d3 @ totp_lines human_email (totp_secret_at w (Suc i))\<rparr>"
  have part4: "desk_links d4 = []" "desk_passkeys d4 = []" using assms(8,9) by (simp_all add: d4_def d3_def d2_def d1_def)
  obtain m5 where 5: "human_links ?t human_email (moment w (Suc i + 9) d4) =
     (if HashToken (token_at w (Suc i + 9 + 3)) = HashToken (token_at w (Suc i + 9))
      then (Inl ErrConsumed, moment w (Suc i + 9 + 10) (d4\<lparr>desk_links := m5\<rparr>))
      else (Inr (), moment w (Suc i + 9 + 10) (d4\<lparr>desk_links := m5, printed := printed d4 @ link_lines human_email\<rparr>)))"
    using human_links_run [OF assms(1) le(2) assms(2) part4(1) z(2), of human_email] by blast
  define d5 where "d5 = d4\<lparr>desk_links := m5, printed := printed d4 @ link_lines human_email\<rparr>"
  have part5: "desk_passkeys d5 = []" using part4(2) by (simp add: d5_def)
  obtain opts state where 6: "human_passkeys L ?u (moment w (Suc i + 9 + 10) d5) =
      (Inr (), moment w (Suc i + 9 + 10 + 3) (d5\<lparr>printed := printed d5 @ [passkey_line opts state]\<rparr>))"
    using human_passkeys_run [OF assms(1) le(3) part5 assms(4)] by blast
  have pr: "printed d4 = human_lines (token_at w (?n + 4)) (token_at w (?n + 4 + 7)) (totp_secret_at w (Suc i))"
    using assms(10) by (simp add: d4_def d3_def d2_def d1_def human_lines_def human_email_def)
  note steps = 1 [folded d1_def] 2 [folded d2_def] 3 [folded d3_def] 4 [folded d4_def] 5 [folded d5_def] 6
  have run: "human_walk ul uu A L (moment w ?n d) =
     (if HashToken (token_at w (Suc i + 9 + 3)) = HashToken (token_at w (Suc i + 9))
      then (Inl (ErrPassed ErrConsumed), moment w (Suc i + 9 + 10) (d4\<lparr>desk_links := m5\<rparr>))
      else (Inr (), moment w (Suc i + 9 + 10 + 3) (d5\<lparr>printed := printed d5 @ [passkey_line opts state]\<rparr>)))"
    unfolding human_walk_def human_values handed_on_simps and_then_simps steps
    by (simp only: handed_on_simps and_then_simps steps split: if_split) simp
  have pr5: "printed d5 = printed d4 @ link_lines human_email" by (simp add: d5_def)
  have "human_outcome w (?n + 4) (Suc i) (Suc i + 9) (human_walk ul uu A L (moment w ?n d))"
    unfolding human_outcome_def Let_def run pr5 pr [symmetric] by simp blast
  then show ?thesis using le(2) le_add1 by blast
qed

lemma token_at_drawn: "rand_ok w \<Longrightarrow> pos w \<le> n \<Longrightarrow> drawn w (token_at w n)"
  by (cases "rnd w n") (fastforce simp: drawn_def token_at_def drawn_bytes_def rand_ok_def)+

text \<open>C37: the walkthrough of the human flows does what its comments say. If nothing external fails and the clock stays
  in one TOTP step, and go-webauthn takes the one configuration and registration the program asks it for, every
  flow succeeds and prints its lines: the old session token, the replayed code and the superseded link are refused. Only two link tokens with the same digest would end the run early.\<close>

theorem human_walkthrough:
  assumes "quiet w" and "rand_ok w" and "one_step w" and "argon2_ok A" and "registers L"
  shows "\<exists>tok tok' secret raw stale r w'. human_main ul uu A L w = (r, w') \<and>
    drawn w tok \<and> drawn w tok' \<and> drawn w raw \<and> drawn w stale \<and>
    (if HashToken stale = HashToken raw
     then r = Inl (ErrPassed ErrConsumed) \<and> printed (store w') = human_lines tok tok' secret
     else r = Inr () \<and> (\<exists>opts state. printed (store w') =
       human_lines tok tok' secret @ link_lines human_email @ [passkey_line opts state]))"
proof -
  let ?d = "\<lparr>printed = [], desk_users = NewUserRepo, desk_sessions = NewSessionRepo, desk_totp = NewTOTPRepo,
    desk_links = NewMagicLinkRepo, desk_passkeys = []\<rparr>"
  have "steady w" using assms(1,2) by (simp add: steady_def)
  from human_walk_run [OF this assms(3-5), of ?d ul uu] obtain i j k where le: "pos w \<le> i" "pos w \<le> k"
    and out: "human_outcome w i j k (human_walk ul uu A L (moment w (pos w) ?d))"
    by (auto simp: NewUserRepo_def NewSessionRepo_def NewMagicLinkRepo_def)
  define v where "v = human_walk ul uu A L (moment w (pos w) ?d)"
  have "human_main ul uu A L w = v" by (simp add: human_main_def moment_def with_store_def v_def)
  moreover have "drawn w (token_at w n)" if "pos w \<le> n" for n using token_at_drawn [OF assms(2) that] .
  ultimately have "human_main ul uu A L w = (fst v, snd v) \<and>
    drawn w (token_at w i) \<and> drawn w (token_at w (i + 7)) \<and> drawn w (token_at w k) \<and> drawn w (token_at w (k + 3)) \<and>
    (if HashToken (token_at w (k + 3)) = HashToken (token_at w k)
     then fst v = Inl (ErrPassed ErrConsumed) \<and> printed (store (snd v)) = human_lines (token_at w i) (token_at w (i + 7)) (totp_secret_at w j)
     else fst v = Inr () \<and> (\<exists>opts state. printed (store (snd v)) =
       human_lines (token_at w i) (token_at w (i + 7)) (totp_secret_at w j) @ link_lines human_email @ [passkey_line opts state]))"
    using le out [folded v_def] by (simp add: human_outcome_def Let_def)
  then show ?thesis by blast
qed

theorem human_walkthrough_witness:
  "\<exists>tok tok' secret ls r w'. human_main id id toy_argon2 toy_webauthn (calm (62135596800 * second) 0 ()) = (r, w') \<and>
     (r = Inr () \<or> r = Inl (ErrPassed ErrConsumed)) \<and> printed (store w') = human_lines tok tok' secret @ ls"
proof -
  let ?w = "calm (62135596800 * second) 0 ()"
  have "one_step ?w"
    unfolding one_step_def by (rule exI [of _ 0]) (simp add: calm_def second_def)
  moreover have "registers toy_webauthn" by (simp add: registers_def demo_rp_def toy_webauthn_def Let_def)
  moreover have "quiet ?w" "rand_ok ?w" by simp_all
  ultimately obtain tok tok' secret raw stale r w' where "human_main id id toy_argon2 toy_webauthn ?w = (r, w')"
    "if HashToken stale = HashToken raw
     then r = Inl (ErrPassed ErrConsumed) \<and> printed (store w') = human_lines tok tok' secret
     else r = Inr () \<and> (\<exists>opts state. printed (store w') = human_lines tok tok' secret @ link_lines human_email @ [passkey_line opts state])"
    using human_walkthrough [of ?w toy_argon2 toy_webauthn id id] by auto
  then show ?thesis by (metis append_Nil2)
qed

end
