(* ===== verification/Spec2Isabelle.thy ===== *)
theory Spec2Isabelle
  imports TotpProps KeyProps EdgeProps Password SqliteKeys SqliteOpen PgstoreKeys OidcProps OAuthProps WebauthnProps ExampleHuman
begin

text \<open>
  A model of \<open>auth-go\<close>, a Go library for user authentication, with the theorems that make it
  correct. All paths below are under \<open>src/\<close>.

  \<^bold>\<open>The program.\<close> \<open>domain/\<close> holds value objects, aggregates and services: sessions, magic links,
  lockout, TOTP, passwords, passkeys and scoped workload keys. A service works on a repository, an
  interface that three adapters implement (\<open>adapters/memory\<close>, \<open>adapters/sqlite\<close>,
  \<open>adapters/pgstore\<close>). \<open>adapters/webauthn\<close> runs the passkey ceremonies over a passkey repository.
  \<open>middleware/\<close> puts HTTP basic authentication and a session cookie before a handler, \<open>aesgcm/\<close>
  encrypts stored secrets. \<open>oidc/\<close> verifies the ID tokens of an issuer, with a cache of its keys, and
  \<open>oauth/\<close> signs a browser in through GitHub; both talk to a provider over HTTP.

  \<^bold>\<open>How it is modelled.\<close> An operation is a function on a \<open>world\<close>: the store of a repository (or the key
  cache of a verifier), and an environment with a clock, a random source and a schedule of failures of
  external calls, read at a position that only moves forward (\<open>Prelude\<close>). A Go error is a value of
  \<open>error\<close>, or of the error type of its package (\<open>oidc_error\<close>, \<open>oauth_error\<close>, \<open>webauthn_error\<close>: the
  sentinels, without the detail text), a result a sum; a panic is the error \<open>GoPanic\<close>. A repository is
  a record of operations, an optional interface a field of option type. Strings are lists of bytes;
  integers have the width of the code wherever it matters (TOTP, sign counts, digests) and are
  unbounded elsewhere; instants count nanoseconds from Go's zero time. A parsed JSON text is a tree
  that keeps the order of members and the text of numbers.

  \<^bold>\<open>Theories.\<close>
  \<^item> \<open>GoStrings\<close>, \<open>GoCodec\<close>, \<open>GoHash\<close>, \<open>GoTime\<close>, \<open>GoJson\<close>, \<open>GoFloat\<close>, \<open>GoUrl\<close>: what the code uses of
    Go's standard library (UTF-8, \<open>strings\<close>, base64, base32, hex, SHA-1, SHA-256, HMAC, RFC 3339 times,
    \<open>encoding/json\<close> both ways, \<open>ParseFloat\<close>, query strings); \<open>GoNet\<close>: the surroundings of the two HTTP
    clients as a record of functions.
  \<^item> \<open>Values\<close>, \<open>User\<close>, \<open>Session\<close>, \<open>MagicLink\<close>, \<open>Lockout\<close>, \<open>Scope\<close>, \<open>Workload\<close>, \<open>Totp\<close>, \<open>Passkey\<close>, \<open>Password\<close>,
    \<open>AesGcm\<close>: the files of the same name of \<open>domain/\<close> (\<open>Scope\<close> and \<open>Workload\<close>: \<open>workload.go\<close>), with their
    part of \<open>domain/services.go\<close>, and \<open>aesgcm/\<close>. Each states the contract of its port as a locale and
    proves what the service does for every repository that meets it.
  \<^item> \<open>Memory\<close>, \<open>MemoryKeys\<close>, \<open>MemoryFactors\<close>: \<open>adapters/memory\<close>, the interpretations of those locales.
  \<^item> \<open>SqlTables\<close>, \<open>SqlKeys\<close>, \<open>SqlSessions\<close>: tables, statements and transactions of the SQL adapters and
    the locales under which a table mirrors a Go map; \<open>Sqlite\<close>, \<open>SqliteKeys\<close>, \<open>SqliteFactors\<close>,
    \<open>Pgstore\<close>, \<open>PgstoreKeys\<close>, \<open>PgstoreFactors\<close>: the two adapters, refined to the in-memory one.
    \<open>SqliteOpen\<close>: \<open>Open\<close> and \<open>Migrate\<close> of \<open>adapters/sqlite/db.go\<close>.
  \<^item> \<open>Middleware\<close>: \<open>middleware/basicauth.go\<close>.
  \<^item> \<open>Jws\<close>, \<open>Jwks\<close>, \<open>KeyCache\<close>, \<open>KeyCacheRun\<close>, \<open>Oidc\<close>: \<open>oidc/\<close>, in the order a token passes: the strict
    parser of \<open>jws.go\<close>, the key sets and requests of \<open>jwks.go\<close>, its cache as one caller sees it and as
    a step relation of concurrent callers and fetches, and \<open>verifier.go\<close> with \<open>github.go\<close>. \<open>OidcProps\<close>:
    what an accepted token proves, which tokens are accepted, the invariant of the cache and the
    answer every caller can get.
  \<^item> \<open>OAuth\<close>: \<open>oauth/oauth.go\<close> and \<open>oauth/github.go\<close>; \<open>OAuthProps\<close>: the cookie of a login state, the requests of
    a sign-in, the identity it ends with.
  \<^item> \<open>Webauthn\<close>: \<open>adapters/webauthn/webauthn.go\<close>; \<open>WebauthnProps\<close>: the ceremonies over the three repositories.
  \<^item> \<open>Focus\<close>: an operation of one repository inside a program that holds several; \<open>ExampleWorkload\<close> and
    \<open>ExampleHuman\<close>: the two programs under \<open>example/\<close>, which run every service over the in-memory adapter,
    with what they print (the composition of the components' lemmas, end to end).
  \<^item> \<open>TotpProps\<close>, \<open>KeyProps\<close>, \<open>EdgeProps\<close> and this theory: the properties of the services over the
    in-memory adapter.

  \<^bold>\<open>Interfaces.\<close> The locales \<open>user_store\<close>, \<open>session_store\<close> (with \<open>atomic_session_store\<close>, \<open>plain_session_store\<close> and
  \<open>guarded_store\<close>), \<open>magic_store\<close>, \<open>attempt_store\<close>, \<open>key_store\<close>, \<open>totp_store\<close> and \<open>passkey_store\<close> (with
  \<open>passkey_counts\<close> and \<open>passkey_logins\<close>) are the contracts of the ports; \<open>row_table\<close>, \<open>text_table\<close>, \<open>keyed_rows\<close>,
  \<open>key_table\<close> and \<open>mirrored_sessions\<close> those of the SQL tables; \<open>key_finder\<close> is what a verifier relies on in its
  cache, \<open>part\<close> what a program relies on when it runs an operation on one of its stores. Each is interpreted on the adapters' definitions.

  \<^bold>\<open>Loops.\<close> All functions are total. \<open>lookup_from\<close> (the loop of \<open>keyCache.lookup\<close>) ends because a second
  pass never starts a fetch, \<open>walkValue\<close> and \<open>walkObject\<close> because each step consumes input and the depth is
  limited; no fuel is used anywhere. Waiting callers are steps of \<open>cache_step\<close>.

  \<^bold>\<open>What is assumed of other code\<close>, always as a hypothesis of the theorem: AES-GCM opens what it sealed
  (\<open>aead_ok\<close>, \<open>gcm_ok\<close>), that it cannot be forged is not assumed but named where it matters (\<open>forged\<close>); argon2 is a
  function; a SQL server applies the statements as \<open>SqlTables\<close> writes them, with its errors as parameters; the
  go-webauthn library keeps its sessions and compares sign counts (\<open>sessions_kept\<close>, \<open>counts_advance\<close>), and takes the
  one configuration and registration of \<open>example/human\<close> (\<open>registers\<close>). The RSA and ECDSA checks, the
  SHA-384 and SHA-512 digests, \<open>url.Parse\<close>, the HTTP client and Unicode's case tables beyond ASCII are parameters
  about which nothing is assumed.

  \<^bold>\<open>Not modelled.\<close> The HTTP clients' timeouts and redirect policy (the client is a parameter), the texts of
  wrapped errors and the timing of comparisons. Three simplifications: a failed \<open>Commit\<close> has not been applied (a
  commit whose acknowledgement is lost is not told apart); \<open>lookup\<close> is the key lookup of a lone caller, who runs the
  fetch it starts (waiting on fetches of others is in \<open>cache_step\<close>); and the cookie name of the middleware is one
  that \<open>http.SetCookie\<close> writes (it drops a cookie whose name is not a token without an error).
\<close>

section \<open>Sessions\<close>

definition demo_sessions :: "(session_map world) SessionService" where
  "demo_sessions = NewSessionService SessionRepo 60"

definition demo_session :: "nat \<Rightarrow> Session" where
  "demo_session n =
     (let tok = Token (base64_encode True (map (calm_bytes n) [0..<tokenBytes]))
      in \<lparr>Session_token = tok, Session_tokenHash = HashToken tok,
          Session_userID = UserID ''u'', Session_tenantID = TenantID ''t'',
          Session_createdAt = 1000, Session_expiresAt = 1060\<rparr>)"

lemma demo_issue:
  "SessionService_Issue demo_sessions (UserID ''u'') (TenantID ''t'') (calm 1000 n [])
   = (Inr (demo_session n),
      calm 1000 (n + 3) [(HashToken (Session_token (demo_session n)), Session_Snapshot (demo_session n))])"
  by (simp add: SessionService_Issue_def SessionService_newSession_def demo_sessions_def
      NewSessionService_def NewToken_def UserID_IsZero_def TenantID_IsZero_def demo_session_def Let_def
      SessionRepo_def SessionRepo_Save_def gomap_set_def eval_nat_numeral)

lemma demo_sessions_simps [simp]:
  "SessionService_repo demo_sessions = SessionRepo" "SessionService_ttl demo_sessions = 60"
  by (simp_all add: demo_sessions_def NewSessionService_def)

text \<open>
  \<open>dry\<close>: a calm world whose random source has run dry. \<open>stored\<close>: a table with one session.
\<close>

definition dry :: "time \<Rightarrow> nat \<Rightarrow> 's \<Rightarrow> 's world" where
  "dry t n s = (calm t n s)\<lparr>rnd := \<lambda>_. Inl ''dry''\<rparr>"

lemma dry_simps [simp]:
  "tick (dry t n s) = dry t (Suc n) s"
  "read_clock (dry t n s) = (t, dry t (Suc n) s)"
  "external_check (dry t n s) = (Inr (), dry t (Suc n) s)"
  "rand_read k (dry t n s) = (Inl (ErrExternal ''dry''), dry t (Suc n) s)"
  "put_store s' (dry t n s) = dry t n s'"
  "store (dry t n s) = s"
  "quiet (dry t n s)"
  "\<not> drawn (dry t n s) tok"
  "never_drawn (dry t n s) h"
  by (auto simp: dry_def calm_def tick_def read_clock_def external_check_def rand_read_def
      put_store_def quiet_def drawn_def never_drawn_def)

lemma checked_dry [simp]:
  "checked f (dry t n s) = (case f s of (r, s') \<Rightarrow> (r, dry t (Suc n) s'))"
  by (simp add: checked_def split: prod.splits)

definition a_session :: "string \<Rightarrow> SessionSnapshot" where
  "a_session k = \<lparr>SessionSnapshot_Token = k, SessionSnapshot_UserID = ''u'',
     SessionSnapshot_TenantID = ''t'', SessionSnapshot_CreatedAt = 1000,
     SessionSnapshot_ExpiresAt = 1060\<rparr>"

definition stored :: "Token \<Rightarrow> session_map" where
  "stored tok = [(HashToken tok, a_session (HashToken tok))]"

lemma stored_simps [simp]:
  "session_map_ok (stored tok)"
  "gomap_get (stored tok) (HashToken tok) = Some (a_session (HashToken tok))"
  "gomap_delete (HashToken tok) (stored tok) = []"
  "SessionSnapshot_ExpiresAt (a_session k) = 1060"
  "SessionSnapshot_UserID (a_session k) = ''u''"
  "SessionSnapshot_TenantID (a_session k) = ''t''"
  by (auto simp: stored_def a_session_def session_map_ok_def gomap_ok_def gomap_get_def
      gomap_delete_def split: if_splits)

lemma demo_session_simps [simp]:
  "Session_expiresAt (demo_session n) = 1060"
  "Session_userID (demo_session n) = UserID ''u''"
  "Session_tenantID (demo_session n) = TenantID ''t''"
  by (simp_all add: demo_session_def Let_def)

text \<open>C1: a session that was issued validates until it expires, with the user, the tenant and
  the lifetime it was issued with; the raw token is not in what validation returns.\<close>

theorem session_issue_validate:
  assumes "session_map_ok (store w)" and "SessionService_repo s = SessionRepo"
    and "SessionService_Issue s u t w = (Inr sess, w1)"
    and "quiet w1" and "clock_before w1 (Session_expiresAt sess)"
  shows "fst (SessionService_Validate s (Session_token sess) w1)
           = Inr (sess\<lparr>Session_token := zero_token\<rparr>) \<and>
         Session_userID sess = u \<and> Session_tenantID sess = t \<and>
         Session_expiresAt sess = Session_createdAt sess + SessionService_ttl s"
  using ms.issue_then_validate [OF assms] ms.issue_effect [OF assms(1-3)]
  by (auto simp: minted_def)

theorem session_issue_validate_witness:
  "fst (SessionService_Validate demo_sessions (Session_token (demo_session 0))
     (snd (SessionService_Issue demo_sessions (UserID ''u'') (TenantID ''t'') (calm 1000 0 []))))
   = Inr ((demo_session 0)\<lparr>Session_token := zero_token\<rparr>)"
  using session_issue_validate [OF _ _ demo_issue [of 0]] by (simp add: demo_issue)

text \<open>C2: once a session is revoked its token stays invalid, through any sequence of further
  issues, validations, rotations and revocations, as long as the random source does not draw a
  token with the same digest.\<close>

theorem session_revoked_for_good:
  assumes "session_map_ok (store w)" and "SessionService_repo s = SessionRepo"
    and "SessionService_Revoke s tok w = (Inr x, w1)" and "never_drawn w1 (HashToken tok)"
  shows "isl (fst (SessionService_Validate s tok (session_run s ops w1)))"
proof -
  from ms.revoke_effect [OF assms(1-3)] have "session_map_ok (store w1)"
    and "gomap_get (store w1) (HashToken tok) = None" by (auto dest: settledD)
  with assms(2,4) show ?thesis by (intro ms.absent_forever)
qed

theorem session_revoked_for_good_witness:
  "isl (fst (SessionService_Validate demo_sessions (Token ''x'')
     (session_run demo_sessions [IssueCall (UserID ''u'') (TenantID ''t''), ValidateCall (Token ''x'')]
        (dry 1000 1 []))))"
  by (rule session_revoked_for_good [where w = "dry 1000 0 (stored (Token ''x''))" and x = "()"])
     (simp_all add: SessionService_Revoke_def SessionRepo_def SessionRepo_Delete_def sessionKey_def)

text \<open>C16: a rotation over the capable in-memory store needs a live session, keeps its user and
  tenant, and replaces the old key by the new one in one step: whatever happens, no state is
  left in which both or neither are stored.\<close>

theorem session_rotation_swaps:
  assumes "session_map_ok (store w)" and "SessionService_repo s = SessionRepo"
    and "SessionService_Rotate s tok w = (r, w')"
  shows "case r of
      Inr sess \<Rightarrow>
        gomap_get (store w') = (gomap_get (store w))
          (HashToken tok := None, HashToken (Session_token sess) \<mapsto> Session_Snapshot sess) \<and>
        (\<exists>sn now. gomap_get (store w) (HashToken tok) = Some sn \<and> read_between w now w' \<and>
           now < SessionSnapshot_ExpiresAt sn \<and>
           Session_userID sess = UserID (SessionSnapshot_UserID sn) \<and>
           Session_tenantID sess = TenantID (SessionSnapshot_TenantID sn)) \<and>
        drawn w (Session_token sess)
    | Inl e \<Rightarrow>
        gomap_get (store w') = gomap_get (store w) \<or>
        e = ErrExpired \<and> gomap_get (store w') = (gomap_get (store w))(HashToken tok := None)"
  using ms.rotate_effect [OF assms]
  by (cases r) (auto simp: rotated_def minted_def)

theorem session_rotation_swaps_witness:
  "drawn (calm 1000 0 (stored (Token ''x'')))
     (Session_token (projr (fst (SessionService_Rotate demo_sessions (Token ''x'')
        (calm 1000 0 (stored (Token ''x'')))))))"
proof -
  let ?w = "calm 1000 0 (stored (Token ''x''))"
  obtain r w' where r: "SessionService_Rotate demo_sessions (Token ''x'') ?w = (r, w')" by fastforce
  moreover from r have "\<not> isl r"
    by (auto simp: SessionService_Rotate_def SessionService_Validate_def SessionRepo_def sessionKey_def
        SessionRepo_FindByToken_def SessionRepo_RotateAtomically_def Session_Expired_def
        SessionService_newSession_def NewToken_def UserID_IsZero_def TenantID_IsZero_def
        SessionFromSnapshot_def a_session_def stored_def gomap_get_def Let_def)
  ultimately show ?thesis
    using session_rotation_swaps [of ?w demo_sessions "Token ''x''" r w'] by (cases r) auto
qed

text \<open>An expired session is refused, and the refusal removes it from the store.\<close>

theorem session_expired_purged:
  assumes "session_map_ok (store w)" and "SessionService_repo s = SessionRepo"
    and "gomap_get (store w) (HashToken tok) = Some sn" and "Token_String tok \<noteq> []"
    and "quiet w" and "clock_from w (SessionSnapshot_ExpiresAt sn)"
  shows "\<exists>w'. SessionService_Validate s tok w = (Inl ErrExpired, w') \<and>
    gomap_get (store w') = (gomap_get (store w))(HashToken tok := None)"
proof -
  obtain r w' where "SessionService_Validate s tok w = (r, w')" by fastforce
  with ms.validate_expired [OF assms(1,2,4,3,5,6) this] show ?thesis by auto
qed

theorem session_expired_purged_witness:
  "\<exists>w'. SessionService_Validate demo_sessions (Token ''x'') (calm 1060 0 (stored (Token ''x'')))
     = (Inl ErrExpired, w') \<and>
   gomap_get (store w') = (gomap_get (stored (Token ''x'')))(HashToken (Token ''x'') := None)"
  using session_expired_purged [of "calm 1060 0 (stored (Token ''x''))" demo_sessions "Token ''x''"]
  by simp

text \<open>Revoking all sessions of a user removes exactly that user's sessions.\<close>

theorem session_revoke_all_exact:
  assumes "session_map_ok (store w)" and "SessionService_repo s = SessionRepo"
    and "SessionService_RevokeAll s u w = (Inr x, w')"
  shows "gomap_get (store w') k = Some sn \<longleftrightarrow>
    gomap_get (store w) k = Some sn \<and> SessionSnapshot_UserID sn \<noteq> UserID_String u"
  using ms.revoke_all_effect [OF assms]
  by (auto simp: without_user_def split: option.splits if_splits)

theorem session_revoke_all_exact_witness:
  "gomap_get (store (snd (SessionService_RevokeAll demo_sessions (UserID ''u'')
     (calm 1000 0 (stored (Token ''x'')))))) (HashToken (Token ''x'')) = None"
proof -
  let ?w = "calm 1000 0 (stored (Token ''x''))"
  obtain w' where r: "SessionService_RevokeAll demo_sessions (UserID ''u'') ?w = (Inr (), w')"
    by (simp add: SessionService_RevokeAll_def SessionRepo_def SessionRepo_DeleteByUser_def)
  have "gomap_get (store w') (HashToken (Token ''x'')) \<noteq> Some sn" for sn
    using session_revoke_all_exact [OF _ _ r, of "HashToken (Token ''x'')" sn] by auto
  then show ?thesis by (cases "gomap_get (store w') (HashToken (Token ''x''))") (auto simp: r)
qed

text \<open>C17: at rest the session store holds digests only: after any run of the service from an
  empty store every key is the digest of a token that was drawn during the run.\<close>

theorem session_keys_are_digests:
  assumes "SessionService_repo s = SessionRepo" and "store w = NewSessionRepo"
    and "gomap_get (store (session_run s ops w)) k = Some sn"
  shows "SessionSnapshot_Token sn = k \<and> length k = 64 \<and> (\<exists>tok. drawn w tok \<and> k = HashToken tok)"
proof -
  have ok: "session_map_ok (store w)" by (simp add: assms(2) NewSessionRepo_def)
  note run = ms.session_run_effect [OF ok assms(1), of ops]
  then have "session_map_ok (store (session_run s ops w))" by (auto dest: settledD)
  with assms(3) have "SessionSnapshot_Token sn = k" by (simp add: session_map_ok_def)
  moreover have "gomap_get (store w) k = None" by (simp add: assms(2) NewSessionRepo_def)
  with run assms(3) obtain tok where "drawn w tok" and "k = HashToken tok"
    by (metis option.distinct(1))
  ultimately show ?thesis by auto
qed

theorem session_keys_are_digests_witness:
  "length (HashToken (Session_token (demo_session 0))) = 64 \<and>
   (\<exists>tok. drawn (calm 1000 0 NewSessionRepo) tok \<and>
      HashToken (Session_token (demo_session 0)) = HashToken tok)"
  using session_keys_are_digests [where w = "calm 1000 0 NewSessionRepo" and s = demo_sessions
      and ops = "[IssueCall (UserID ''u'') (TenantID ''t'')]"
      and k = "HashToken (Session_token (demo_session 0))"
      and sn = "Session_Snapshot (demo_session 0)"]
  by (simp add: session_run_def NewSessionRepo_def demo_issue gomap_get_def)

text \<open>Over a store without the atomic capability a rotation still replaces the old key by
  the new one when nothing external fails; otherwise at most the new key is left behind.\<close>

theorem session_rotation_best_effort:
  assumes "session_map_ok (store w)" and "SessionService_repo s = PlainSessionRepo"
    and "SessionService_Rotate s tok w = (r, w')"
  shows "case r of
      Inr sess \<Rightarrow> rotated s w (gomap_get (store w)) tok sess (gomap_get (store w')) w'
    | Inl e \<Rightarrow>
        e = ErrExpired \<and> gomap_get (store w') = (gomap_get (store w))(HashToken tok := None) \<or>
        gomap_get (store w') = gomap_get (store w) \<or>
        \<not> quiet w \<and> (\<exists>tok'. \<forall>k. k \<noteq> HashToken tok' \<longrightarrow>
           gomap_get (store w') k = gomap_get (store w) k)"
  using mps.rotate_effect [OF assms] by (cases r) auto

theorem session_rotation_best_effort_witness:
  "gomap_get (store (snd (SessionService_Rotate (NewSessionService PlainSessionRepo 60) (Token ''x'')
     (calm 1060 0 (stored (Token ''x'')))))) = Map.empty"
proof -
  let ?s = "NewSessionService PlainSessionRepo 60" and ?w = "calm 1060 0 (stored (Token ''x''))"
  have "SessionService_Rotate ?s (Token ''x'') ?w = (Inl ErrExpired, calm 1060 3 [])"
    by (simp add: SessionService_Rotate_def SessionService_Validate_def NewSessionService_def
        PlainSessionRepo_def SessionRepo_def sessionKey_def SessionRepo_FindByToken_def
        SessionRepo_Delete_def Session_Expired_def Let_def eval_nat_numeral)
  with session_rotation_best_effort [OF _ _ this] show ?thesis
    by (simp add: NewSessionService_def)
qed

section \<open>Magic links\<close>

definition demo_links :: "(link_map world) MagicLinkService" where
  "demo_links = NewMagicLinkService MagicLinkRepo 900"

definition a_link :: "string \<Rightarrow> MagicLinkSnapshot" where
  "a_link h = \<lparr>MagicLinkSnapshot_Hash = h, MagicLinkSnapshot_Email = ''a@b.c'',
     MagicLinkSnapshot_TenantID = ''t'', MagicLinkSnapshot_ExpiresAt = 1900,
     MagicLinkSnapshot_Consumed = False\<rparr>"

definition demo_token :: "nat \<Rightarrow> Token" where
  "demo_token n = Token (base64_encode True (map (calm_bytes n) [0..<tokenBytes]))"

definition demo_link_world :: "link_map world" where
  "demo_link_world = calm 1000 3 [(HashToken (demo_token 0), a_link (HashToken (demo_token 0)))]"

lemma demo_link_issue:
  "MagicLinkService_Issue demo_links (Email ''a@b.c'') (TenantID ''t'') (calm 1000 0 NewMagicLinkRepo)
   = (Inr (demo_token 0), demo_link_world)"
  by (simp add: MagicLinkService_Issue_def demo_links_def NewMagicLinkService_def MagicLinkRepo_def
      MagicLinkRepo_IssueAtomically_def NewToken_def demo_token_def demo_link_world_def Let_def
      TenantID_IsZero_def NewMagicLinkRepo_def invalidateLocked_def gomap_rewrite_def gomap_set_def
      MagicLink_Snapshot_def a_link_def eval_nat_numeral)

lemma demo_links_simps [simp]:
  "MagicLinkService_repo demo_links = MagicLinkRepo" "MagicLinkService_ttl demo_links = 900"
  "link_map_ok NewMagicLinkRepo"
  by (simp_all add: demo_links_def NewMagicLinkService_def NewMagicLinkRepo_def)

lemma demo_link_world_simps [simp]:
  "quiet demo_link_world" "link_map_ok (store demo_link_world)" "clock_before demo_link_world 1900"
  "gomap_get (store demo_link_world) = [HashToken (demo_token 0) \<mapsto> a_link (HashToken (demo_token 0))]"
  by (auto simp: demo_link_world_def link_map_ok_def gomap_ok_def a_link_def gomap_get_map_of
      split: if_splits)

text \<open>C6: however many redemptions of one table run interleaved, with links issued and
  invalidated in between, at most one of them returns the link stored under a given digest.\<close>

theorem magic_link_single_winner:
  assumes "redeem_reach c c'" and "fresh_start c"
  shows "\<exists>i. {j. won c' j h} \<subseteq> {i}"
  using one_winner [OF assms] by (cases "\<exists>i. won c' i h") fastforce+

definition demo_race :: redemptions where
  "demo_race =
     \<lparr>table = [HashToken (demo_token 0) \<mapsto> a_link (HashToken (demo_token 0))],
      calls = \<lambda>_. Started (demo_token 0)\<rparr>"

theorem magic_link_single_winner_witness:
  "\<exists>c. redeem_reach demo_race c \<and> won c 7 (HashToken (demo_token 0)) \<and>
     (\<exists>i. {j. won c j (HashToken (demo_token 0))} \<subseteq> {i})"
proof -
  let ?h = "HashToken (demo_token 0)"
  let ?c1 = "demo_race\<lparr>calls := (calls demo_race)(7 := redeem_read (table demo_race) 1000 (demo_token 0))\<rparr>"
  have c1: "redeem_step demo_race ?c1" by (rule redeem_step.read) (simp add: demo_race_def)
  have chk: "calls ?c1 7 = Checked (demo_token 0) (MagicLinkFromSnapshot (a_link ?h))"
    by (simp add: demo_race_def redeem_read_def link_at_def MagicLink_Expired_def a_link_def)
  obtain m x where mk: "redeem_mark (table ?c1) (demo_token 0) (MagicLinkFromSnapshot (a_link ?h)) = (m, x)"
    by fastforce
  let ?c2 = "?c1\<lparr>table := m, calls := (calls ?c1)(7 := x)\<rparr>"
  have "redeem_step ?c1 ?c2" by (rule redeem_step.mark [OF chk mk])
  with c1 have reach: "redeem_reach demo_race ?c2" by (blast intro: redeem_reach.intros)
  have "\<exists>link. x = Finished (demo_token 0) (Inr link)"
    using mk by (auto simp: redeem_mark_def demo_race_def redeemable_def a_link_def Let_def)
  then have "won ?c2 7 ?h" by (auto simp: won_def)
  moreover have "fresh_start demo_race" by (auto simp: fresh_start_def demo_race_def a_link_def)
  ultimately show ?thesis using magic_link_single_winner [OF reach] reach by blast
qed

text \<open>Issuing a link makes every earlier link of the same address and tenant unusable: the
  new one is the only one outstanding.\<close>

theorem magic_link_issue_supersedes:
  assumes "link_map_ok (store w)" and "MagicLinkService_repo s = MagicLinkRepo"
    and "MagicLinkService_Issue s email tenant w = (Inr raw, w')"
    and "gomap_get (store w') h = Some sn"
    and "outstanding (Email_String email) (TenantID_String tenant) sn"
  shows "h = HashToken raw"
  using assms by (rule mm.issue_supersedes)

theorem magic_link_issue_supersedes_witness:
  "MagicLinkService_Issue demo_links (Email ''a@b.c'') (TenantID ''t'') (calm 1000 0 NewMagicLinkRepo)
     = (Inr (demo_token 0), demo_link_world) \<and>
   (\<exists>h. gomap_get (store demo_link_world) h = Some (a_link h) \<and> h = HashToken (demo_token 0))"
  using demo_link_issue
    magic_link_issue_supersedes [OF _ _ demo_link_issue, of "HashToken (demo_token 0)"
      "a_link (HashToken (demo_token 0))"]
  by (auto simp: outstanding_def a_link_def)

text \<open>A link that was issued is redeemed before it expires, for the address and tenant it
  was issued for.\<close>

theorem magic_link_issue_consume:
  assumes "link_map_ok (store w)" and "MagicLinkService_repo s = MagicLinkRepo"
    and "MagicLinkService_Issue s email tenant w = (Inr raw, w1)" and "quiet w1"
    and "\<And>now. read_between w now w1 \<Longrightarrow> clock_before w1 (now + MagicLinkService_ttl s)"
  shows "\<exists>link w2. MagicLinkService_Consume s raw w1 = (Inr link, w2) \<and>
    MagicLink_email link = email \<and> MagicLink_tenantID link = tenant \<and> MagicLink_consumed link"
proof -
  obtain r w2 where r: "MagicLinkService_Consume s raw w1 = (r, w2)" by fastforce
  from mm.issue_then_consume [OF assms r] r show ?thesis by auto
qed

theorem magic_link_issue_consume_witness:
  "\<exists>link w2. MagicLinkService_Consume demo_links (demo_token 0) demo_link_world = (Inr link, w2) \<and>
    MagicLink_email link = Email ''a@b.c'' \<and> MagicLink_tenantID link = TenantID ''t'' \<and>
    MagicLink_consumed link"
  by (rule magic_link_issue_consume [OF _ _ demo_link_issue])
     (auto simp: read_between_def calm_def)

text \<open>A second redemption of the same link is refused as consumed.\<close>

theorem magic_link_consumed_once:
  assumes "link_map_ok (store w)" and "MagicLinkService_repo s = MagicLinkRepo"
    and "MagicLinkService_Consume s raw w = (Inr link, w1)" and "quiet w1"
  shows "fst (MagicLinkService_Consume s raw w1) = Inl ErrConsumed"
proof -
  obtain r w2 where r: "MagicLinkService_Consume s raw w1 = (r, w2)" by fastforce
  from mm.consume_twice [OF assms(1-3) r assms(4)] r show ?thesis by simp
qed

theorem magic_link_consumed_once_witness:
  "fst (MagicLinkService_Consume demo_links (demo_token 0)
     (snd (MagicLinkService_Consume demo_links (demo_token 0) demo_link_world))) = Inl ErrConsumed"
proof -
  obtain link w1 where r: "MagicLinkService_Consume demo_links (demo_token 0) demo_link_world = (Inr link, w1)"
    and "quiet w1"
    by (auto simp: MagicLinkService_Consume_def demo_link_world_def demo_links_def MagicLinkRepo_def
        NewMagicLinkService_def MagicLinkRepo_FindByHash_def MagicLinkRepo_MarkConsumed_def gomap_get_def
        MagicLink_Expired_def a_link_def MagicLinkFromSnapshot_def Let_def)
  then show ?thesis using magic_link_consumed_once [OF _ _ r] by simp
qed

text \<open>Peeking never changes the store, and what it returns is an unspent, unexpired link.\<close>

theorem magic_link_peek_pure:
  assumes "link_map_ok (store w)" and "MagicLinkService_repo s = MagicLinkRepo"
    and "MagicLinkService_Peek s raw w = (r, w')"
  shows "gomap_get (store w') = gomap_get (store w) \<and>
    (case r of
       Inr link \<Rightarrow> \<exists>sn now. gomap_get (store w) (HashToken raw) = Some sn \<and>
         link = MagicLinkFromSnapshot sn \<and> \<not> MagicLinkSnapshot_Consumed sn \<and>
         read_between w now w' \<and> now < MagicLinkSnapshot_ExpiresAt sn
     | Inl e \<Rightarrow> e \<in> {ErrNotFound, ErrConsumed, ErrExpired} \<or> is_external e \<and> \<not> quiet w)"
  using mm.peek_effect [OF assms] by (cases r) auto

theorem magic_link_peek_pure_witness:
  "gomap_get (store (snd (MagicLinkService_Peek demo_links (demo_token 0) demo_link_world)))
   = [HashToken (demo_token 0) \<mapsto> a_link (HashToken (demo_token 0))]"
  using magic_link_peek_pure [of demo_link_world demo_links "demo_token 0"]
  by (cases "MagicLinkService_Peek demo_links (demo_token 0) demo_link_world") simp

section \<open>Lockout\<close>

definition demo_lockout :: "(attempt_map world) LockoutService" where
  "demo_lockout = \<lparr>LockoutService_store = LoginAttemptRepo,
     LockoutService_policy = \<lparr>LockoutPolicy_maxFailures = 3, LockoutPolicy_window = 60\<rparr>\<rparr>"

lemma demo_key [simp]: "normalizeLockoutKey ''alice'' = Inr ''alice''"
proof -
  have "trim_space ''alice'' = ''alice''"
    by (rule trim_space_id) (auto simp: is_space_def byte_def ascii_def)
  then show ?thesis by (simp add: normalizeLockoutKey_iff length_bounds)
qed

text \<open>C7: a key with no recorded failures admits exactly the policy's number of wrong guesses
  within one lock window; every further guess in the window is stopped by the guard.\<close>

theorem lockout_bounds_guesses:
  assumes "attempt_map_ok (store w)" and "LockoutService_store s = LoginAttemptRepo"
    and "normalizeLockoutKey key = Inr key"
    and "NewLockoutPolicy limit window = Inr (LockoutService_policy s)"
    and "gomap_get (store w) key = None"
    and "quiet w" and "0 \<le> t" and "clock_from w t" and "clock_before w (t + window)"
  shows "fst (run_guesses s key n w) = min n (nat limit)"
proof -
  let ?p = "LockoutService_policy s"
  have p: "policy_ok ?p" "LockoutPolicy_maxFailures ?p = limit" "LockoutPolicy_window ?p = window"
    using NewLockoutPolicy_ok [OF assms(4)] assms(4)
    by (auto simp: NewLockoutPolicy_def split: if_splits dest!: sym [of _ "LockoutService_policy s"])
  have "remaining ?p t (attempt_state (gomap_get (store w)) key) = nat limit"
    using p assms(5) by (auto simp: remaining_def attempt_state_def policy_ok_def max_def)
  moreover have "settled_lock ?p t (attempt_state (gomap_get (store w)) key)"
    using assms(5,7) by (simp add: settled_lock_def attempt_state_def)
  ultimately show ?thesis
    using ma.guesses_bounded [OF assms(1-3) p(1) refl assms(7,6,8), of n] assms(9) p(3) by simp
qed

theorem lockout_bounds_guesses_witness:
  "fst (run_guesses demo_lockout ''alice'' 5 (calm 1000 0 NewLoginAttemptRepo)) = 3"
  using lockout_bounds_guesses [of "calm 1000 0 NewLoginAttemptRepo" demo_lockout "''alice''" 3 60 1000 5]
  by (simp add: demo_lockout_def NewLoginAttemptRepo_def NewLockoutPolicy_def)

text \<open>The guard refuses a key exactly while its lock is active.\<close>

theorem lockout_guard_exact:
  assumes "attempt_map_ok (store w)" and "LockoutService_store s = LoginAttemptRepo"
    and "normalizeLockoutKey key = Inr key" and "quiet w"
    and "gomap_get (store w) key = Some st" and "LoginAttemptSnapshot_LockedUntil st \<noteq> 0"
  shows "(clock_before w (LoginAttemptSnapshot_LockedUntil st) \<longrightarrow>
      fst (LockoutService_Guard s key w) = Inl ErrAccountLocked) \<and>
    (clock_from w (LoginAttemptSnapshot_LockedUntil st) \<longrightarrow>
      fst (LockoutService_Guard s key w) = Inr ())"
proof -
  obtain r w' where g: "LockoutService_Guard s key w = (r, w')" by fastforce
  note e = ma.guard_effect [OF assms(1-3) g]
  have st: "attempt_state (gomap_get (store w)) key = st" by (simp add: attempt_state_def assms(5))
  show ?thesis
  proof (cases r)
    case (Inl e)
    with \<open>quiet w\<close> ma.guard_effect [OF assms(1-3) g] st obtain now where
      "e = ErrAccountLocked" "read_between w now w'" "locked_at st now" by auto
    with g Inl show ?thesis by (auto simp: locked_at_def dest: read_between_from)
  next
    case (Inr u)
    with e st assms(6) obtain now where "read_between w now w'" "\<not> locked_at st now" by auto
    with g Inr assms(6) show ?thesis by (auto simp: locked_at_def dest: read_between_before)
  qed
qed

definition locked_alice :: "attempt_map" where
  "locked_alice = [(''alice'', \<lparr>LoginAttemptSnapshot_Key = ''alice'',
     LoginAttemptSnapshot_FailureCount = 3, LoginAttemptSnapshot_LockedUntil = 1060\<rparr>)]"

lemma locked_alice_simps [simp]:
  "attempt_map_ok locked_alice"
  "gomap_get locked_alice ''alice'' = Some \<lparr>LoginAttemptSnapshot_Key = ''alice'',
     LoginAttemptSnapshot_FailureCount = 3, LoginAttemptSnapshot_LockedUntil = 1060\<rparr>"
  by (auto simp: locked_alice_def attempt_map_ok_def gomap_ok_def gomap_get_def split: if_splits)

theorem lockout_guard_exact_witness:
  "fst (LockoutService_Guard demo_lockout ''alice'' (calm 1000 0 locked_alice)) = Inl ErrAccountLocked \<and>
   fst (LockoutService_Guard demo_lockout ''alice'' (calm 1060 0 locked_alice)) = Inr ()"
  using lockout_guard_exact [of "calm 1000 0 locked_alice" demo_lockout "''alice''"]
    lockout_guard_exact [of "calm 1060 0 locked_alice" demo_lockout "''alice''"]
  by (simp add: demo_lockout_def)

text \<open>Failures recorded during an active lock never move the instant it ends.\<close>

theorem lockout_not_extended:
  assumes "attempt_map_ok (store w)" and "LockoutService_store s = LoginAttemptRepo"
    and "normalizeLockoutKey key = Inr key" and "gomap_get (store w) key = Some st"
    and "LoginAttemptSnapshot_LockedUntil st \<noteq> 0"
    and "clock_before w (LoginAttemptSnapshot_LockedUntil st)"
  shows "\<exists>st'. gomap_get (store (snd (LockoutService_RecordFailure s key w))) key = Some st' \<and>
    LoginAttemptSnapshot_LockedUntil st' = LoginAttemptSnapshot_LockedUntil st"
proof -
  obtain r w' where g: "LockoutService_RecordFailure s key w = (r, w')" by fastforce
  note e = ma.record_effect [OF assms(1-3) g]
  have st: "attempt_state (gomap_get (store w)) key = st" by (simp add: attempt_state_def assms(4))
  have "LoginAttemptSnapshot_LockedUntil (attempt_state (gomap_get (store w')) key)
      = LoginAttemptSnapshot_LockedUntil st"
  proof (cases r)
    case (Inl x)
    with e st show ?thesis by simp
  next
    case (Inr b)
    with e st obtain now where "read_between w now w'"
      and c: "if locked_at st now
          then LoginAttemptSnapshot_LockedUntil (attempt_state (gomap_get (store w')) key)
               = LoginAttemptSnapshot_LockedUntil st
          else gomap_get (store w') = (gomap_get (store w))(key \<mapsto> counted (LockoutService_policy s) st now)"
      by auto
    then have "locked_at st now"
      using assms(5,6) read_between_before by (auto simp: locked_at_def)
    with c show ?thesis by simp
  qed
  then show ?thesis
    using assms(5) g by (cases "gomap_get (store w') key") (auto simp: attempt_state_def)
qed

theorem lockout_not_extended_witness:
  "\<exists>st'. gomap_get (store (snd (LockoutService_RecordFailure demo_lockout ''alice''
      (calm 1000 0 locked_alice)))) ''alice'' = Some st' \<and> LoginAttemptSnapshot_LockedUntil st' = 1060"
  using lockout_not_extended [of "calm 1000 0 locked_alice" demo_lockout "''alice''"]
  by (simp add: demo_lockout_def)

end
